(* ===== verification/Prelude.thy ===== *)
theory Prelude
  imports Main "HOL-Library.Word" "HOL-Library.Monad_Syntax"
begin

text \<open>
  Shared ground of the development: the C integer types as words, the lemma collections the
  component theories add to, and facts on words, masks and byte lists that several components
  need. A C pointer that may be NULL is an \<open>option\<close>; a C array is a list; \<open>memcpy\<close> into an
  array at an offset is \<open>splice_at\<close>.
\<close>

unbundle bit_operations_syntax

type_synonym u8 = "8 word"
type_synonym u16 = "16 word"
type_synonym u32 = "32 word"

named_theorems regs \<comment> \<open>register and protocol constants, unfolded to evaluate\<close>
named_theorems ops \<comment> \<open>definitions of loop-free operations, unfolded to evaluate\<close>

section \<open>memcpy on arrays\<close>

definition splice_at :: "'a list \<Rightarrow> nat \<Rightarrow> 'a list \<Rightarrow> 'a list" where
  "splice_at xs off ys = take off xs @ ys @ drop (off + length ys) xs"

lemma length_splice_at [simp]:
  "off + length ys \<le> length xs \<Longrightarrow> length (splice_at xs off ys) = length xs"
  by (simp add: splice_at_def)

lemma nth_splice_at:
  "off + length ys \<le> length xs \<Longrightarrow> i < length xs \<Longrightarrow>
   splice_at xs off ys ! i = (if off \<le> i \<and> i < off + length ys then ys ! (i - off) else xs ! i)"
  by (auto simp: splice_at_def nth_append min_def)

lemma take_splice_at [simp]:
  "off + length ys \<le> length xs \<Longrightarrow> take off (splice_at xs off ys) = take off xs"
  by (simp add: splice_at_def)

lemma take_splice_at_0 [simp]:
  "n = length ys \<Longrightarrow> take n (splice_at xs 0 ys) = ys"
  by (simp add: splice_at_def)

section \<open>Words as naturals\<close>

lemma unat_plus_nowrap:
  "unat (a :: 'a::len word) + unat b < 2 ^ LENGTH('a) \<Longrightarrow> unat (a + b) = unat a + unat b"
  by (simp add: unat_word_ariths)

lemma unat_of_nat_small:
  "n < 2 ^ LENGTH('a) \<Longrightarrow> unat (of_nat n :: 'a::len word) = n"
  by (simp add: unat_of_nat)

lemma unat_u16_bound [simp]: "unat (x :: u16) < 65536"
  using unsigned_less [of x] by simp

lemma unat_u8_bound [simp]: "unat (x :: u8) < 256"
  using unsigned_less [of x] by simp

lemma unat_u32_bound [simp]: "unat (x :: u32) < 4294967296"
  using unsigned_less [of x] by simp

text \<open>The low part of a word below a power-of-two size is a remainder.\<close>

lemma unat_and_mask_mod:
  fixes x m :: "'a::len word"
  assumes "unat m = 2 ^ k - 1"
  shows "unat (x AND m) = unat x mod 2 ^ k"
proof -
  have "unat (x AND m) = unat x AND unat m"
    by (simp add: unsigned_and_eq)
  also have "\<dots> = unat x AND mask k"
    by (simp add: assms mask_eq_exp_minus_1)
  also have "\<dots> = unat x mod 2 ^ k"
    by (simp add: take_bit_eq_mask [symmetric] take_bit_eq_mod)
  finally show ?thesis .
qed

text \<open>The test \<open>x & (x - 1) == 0\<close> accepts exactly the powers of two.\<close>

lemma nat_and_pred_power:
  "0 < n \<Longrightarrow> n AND (n - 1) = 0 \<Longrightarrow> \<exists>k. n = 2 ^ k" for n :: nat
proof (induction n rule: less_induct)
  case (less n)
  show ?case
  proof (cases "even n")
    case True
    then obtain m where m: "n = 2 * m" by blast
    with less.prems have "0 < m" by simp
    then have "n - 1 = Suc (2 * (m - 1))" using m by simp
    then have "n AND (n - 1) = 2 * (m AND (m - 1))"
      using m by (simp add: and_nat_rec [of "2 * m"])
    with less.prems \<open>0 < m\<close> have "m AND (m - 1) = 0" by simp
    with less.IH [of m] \<open>0 < m\<close> m obtain k where "m = 2 ^ k" by auto
    with m show ?thesis by (metis power_Suc)
  next
    case False
    then obtain m where m: "n = Suc (2 * m)" using oddE [of n] by auto
    then have "n AND (n - 1) = 2 * m"
      by (simp add: and_nat_rec [of "Suc (2 * m)"])
    with less.prems m have "n = 2 ^ 0" by simp
    then show ?thesis by blast
  qed
qed

lemma ucast_ucast_u8 [simp]: "(ucast (ucast b :: u16) :: u8) = b" "(ucast (ucast b :: u32) :: u8) = b"
  by (rule bit_word_eqI; auto simp: bit_ucast_iff)+

lemma unat_ucast_up [simp]:
  "unat (ucast (b :: u8) :: u16) = unat b" "unat (ucast (b :: u8) :: u32) = unat b"
  "unat (ucast (w :: u16) :: u32) = unat w"
  using unat_u8_bound [of b] unat_u16_bound [of w]
  by (simp_all add: unsigned_ucast_eq take_bit_eq_mod del: unat_u8_bound unat_u16_bound)

text \<open>Testing one bit.\<close>

lemma and_exp_word: "c AND 2 ^ n = (if bit c n then 2 ^ n else 0)" for c :: "'a::len word"
  by (rule bit_word_eqI) (auto simp: bit_and_iff bit_exp_iff)

section \<open>Little-endian byte images\<close>

definition le16 :: "u16 \<Rightarrow> u8 list" where
  "le16 w = [ucast w, ucast (drop_bit 8 w)]"

definition from_le16 :: "u8 \<Rightarrow> u8 \<Rightarrow> u16" where
  "from_le16 lo hi = ucast lo OR push_bit 8 (ucast hi)"

definition le32 :: "u32 \<Rightarrow> u8 list" where
  "le32 w = [ucast w, ucast (drop_bit 8 w), ucast (drop_bit 16 w), ucast (drop_bit 24 w)]"

lemma length_le16 [simp]: "length (le16 w) = 2"
  by (simp add: le16_def)

lemma length_le32 [simp]: "length (le32 w) = 4"
  by (simp add: le32_def)

lemma from_le16_le16 [simp]: "from_le16 (ucast w) (ucast (drop_bit 8 w)) = (w :: u16)"
  by (rule bit_word_eqI)
     (auto simp: from_le16_def bit_or_iff bit_push_bit_iff bit_ucast_iff bit_drop_bit_eq)

lemma le16_from_le16 [simp]: "le16 (from_le16 lo hi) = [lo, hi]"
proof -
  have "ucast (from_le16 lo hi) = lo"
    by (rule bit_word_eqI) (auto simp: from_le16_def bit_or_iff bit_push_bit_iff bit_ucast_iff)
  moreover have "ucast (drop_bit 8 (from_le16 lo hi)) = hi"
    by (rule bit_word_eqI)
       (auto simp: from_le16_def bit_or_iff bit_push_bit_iff bit_ucast_iff bit_drop_bit_eq
             dest: bit_imp_le_length)
  ultimately show ?thesis by (simp add: le16_def)
qed

definition from_le32 :: "u8 list \<Rightarrow> u32" where
  "from_le32 bs =
     ucast (bs ! 0) OR push_bit 8 (ucast (bs ! 1)) OR push_bit 16 (ucast (bs ! 2)) OR
     push_bit 24 (ucast (bs ! 3))"

lemma from_le32_le32 [simp]: "from_le32 (le32 w) = w"
proof (rule bit_word_eqI)
  fix n assume "n < LENGTH(32)"
  then have "n < 8 \<or> 8 \<le> n \<and> n < 16 \<or> 16 \<le> n \<and> n < 24 \<or> 24 \<le> n \<and> n < 32" by auto
  then show "bit (from_le32 (le32 w)) n = bit w n"
    by (auto simp: from_le32_def le32_def bit_or_iff bit_push_bit_iff bit_ucast_iff bit_drop_bit_eq)
qed

lemma list4_cases: "length xs = 4 \<Longrightarrow> \<exists>a b c d. xs = [a, b, c, d]"
  by (auto simp: length_Suc_conv eval_nat_numeral)

lemma le32_from_le32 [simp]: "length bs = 4 \<Longrightarrow> le32 (from_le32 bs) = bs"
proof -
  assume "length bs = 4"
  then obtain a b c d where bs: "bs = [a, b, c, d]" using list4_cases by blast
  have "ucast (from_le32 bs) = a" "ucast (drop_bit 8 (from_le32 bs)) = b"
    "ucast (drop_bit 16 (from_le32 bs)) = c" "ucast (drop_bit 24 (from_le32 bs)) = d"
    by (rule bit_word_eqI;
        auto simp: bs from_le32_def bit_or_iff bit_push_bit_iff bit_ucast_iff bit_drop_bit_eq
          dest: bit_imp_le_length)+
  then show ?thesis by (simp add: le32_def bs)
qed

end
