(* ===== verification/FifoIface.thy ===== *)
theory FifoIface
  imports Prelude "HOL-Library.Sublist"
begin

text \<open>
  The contract between the producers of the output stream (command replies, sample blocks) and
  the byte buffer in front of the USB endpoint. A write takes a byte block and says how many
  bytes the buffer took; a read takes a length limit. Every port has one such buffer:
  \<open>app_drv_fifo\<close> on CH59x/CH58x, \<open>Ring_Buffer\<close> on BL702. The stream theorem is proved here once
  for all buffers that keep the contract; whether blocks stay whole needs the stronger contract
  \<open>packet_fifo\<close>.
\<close>

datatype fifo_op = Wr "u8 list" | Rd nat

text \<open>A run of writes and reads, with the bytes taken in and the bytes handed out.\<close>

fun fifo_run :: "('q \<Rightarrow> u8 list \<Rightarrow> nat \<times> 'q) \<Rightarrow> ('q \<Rightarrow> nat \<Rightarrow> u8 list \<times> 'q) \<Rightarrow>
    'q \<Rightarrow> fifo_op list \<Rightarrow> u8 list \<times> u8 list \<times> 'q" where
  "fifo_run wr rd q [] = ([], [], q)"
| "fifo_run wr rd q (Wr xs # os) =
     (let (n, q1) = wr q xs; (ins, outs, q2) = fifo_run wr rd q1 os
      in (take n xs @ ins, outs, q2))"
| "fifo_run wr rd q (Rd n # os) =
     (let (ys, q1) = rd q n; (ins, outs, q2) = fifo_run wr rd q1 os
      in (ins, ys @ outs, q2))"

text \<open>The blocks a run offers, in order.\<close>

fun fifo_blocks :: "fifo_op list \<Rightarrow> u8 list list" where
  "fifo_blocks [] = []"
| "fifo_blocks (Wr xs # os) = xs # fifo_blocks os"
| "fifo_blocks (Rd n # os) = fifo_blocks os"

text \<open>The same run on a queue of bounded size: a block is taken whole if there is room, else dropped.\<close>

fun queue_run :: "nat \<Rightarrow> u8 list \<Rightarrow> fifo_op list \<Rightarrow> u8 list \<times> u8 list \<times> u8 list" where
  "queue_run room q [] = ([], [], q)"
| "queue_run room q (Wr xs # os) =
     (if length q + length xs \<le> room
      then (let (ins, outs, q') = queue_run room (q @ xs) os in (xs @ ins, outs, q'))
      else queue_run room q os)"
| "queue_run room q (Rd n # os) =
     (let (ins, outs, q') = queue_run room (drop n q) os in (ins, take n q @ outs, q'))"

definition ops_within :: "nat \<Rightarrow> fifo_op list \<Rightarrow> bool" where
  "ops_within lim os = (\<forall>x \<in> set os. case x of Wr xs \<Rightarrow> length xs \<le> lim | Rd n \<Rightarrow> n \<le> lim)"

lemma ops_within_simps [simp]:
  "ops_within lim []"
  "ops_within lim (Wr xs # os) = (length xs \<le> lim \<and> ops_within lim os)"
  "ops_within lim (Rd n # os) = (n \<le> lim \<and> ops_within lim os)"
  by (auto simp: ops_within_def)

locale byte_fifo =
  fixes wr :: "'q \<Rightarrow> u8 list \<Rightarrow> nat \<times> 'q"
    and rd :: "'q \<Rightarrow> nat \<Rightarrow> u8 list \<times> 'q"
    and content :: "'q \<Rightarrow> u8 list"
    and inv :: "'q \<Rightarrow> bool"
    and cap :: "'q \<Rightarrow> nat"
    and lim :: nat
  assumes wr_taken: "inv q \<Longrightarrow> length xs \<le> lim \<Longrightarrow> fst (wr q xs) \<le> length xs"
    and wr_content: "inv q \<Longrightarrow> length xs \<le> lim \<Longrightarrow>
      content (snd (wr q xs)) = content q @ take (fst (wr q xs)) xs"
    and wr_room: "inv q \<Longrightarrow> length xs \<le> lim \<Longrightarrow> length (content q) + length xs \<le> cap q \<Longrightarrow>
      fst (wr q xs) = length xs"
    and wr_inv: "inv q \<Longrightarrow> length xs \<le> lim \<Longrightarrow> inv (snd (wr q xs))"
    and wr_cap: "inv q \<Longrightarrow> length xs \<le> lim \<Longrightarrow> cap (snd (wr q xs)) = cap q"
    and rd_out: "inv q \<Longrightarrow> n \<le> lim \<Longrightarrow> fst (rd q n) = take n (content q)"
    and rd_content: "inv q \<Longrightarrow> n \<le> lim \<Longrightarrow> content (snd (rd q n)) = drop n (content q)"
    and rd_inv: "inv q \<Longrightarrow> n \<le> lim \<Longrightarrow> inv (snd (rd q n))"
    and rd_cap: "inv q \<Longrightarrow> n \<le> lim \<Longrightarrow> cap (snd (rd q n)) = cap q"
    and bounded: "inv q \<Longrightarrow> length (content q) \<le> cap q"
begin

lemma run_stream:
  "inv q \<Longrightarrow> ops_within lim os \<Longrightarrow> fifo_run wr rd q os = (ins, outs, q') \<Longrightarrow>
   content q @ ins = outs @ content q' \<and> inv q' \<and> cap q' = cap q"
proof (induction os arbitrary: q ins outs)
  case Nil
  then show ?case by simp
next
  case (Cons x os)
  show ?case
  proof (cases x)
    case (Wr xs)
    obtain n q1 where w: "wr q xs = (n, q1)" by (cases "wr q xs")
    obtain ins1 where r: "fifo_run wr rd q1 os = (ins1, outs, q')" "ins = take n xs @ ins1"
      using Cons.prems Wr w by (auto split: prod.splits)
    have "length xs \<le> lim" "ops_within lim os" using Cons.prems Wr by simp_all
    with Cons.prems(1) w have "inv q1" "content q1 = content q @ take n xs" "cap q1 = cap q"
      using wr_inv [of q xs] wr_content [of q xs] wr_cap [of q xs] by simp_all
    with Cons.IH [OF _ \<open>ops_within lim os\<close> r(1)] r(2) show ?thesis by simp
  next
    case (Rd n)
    obtain ys q1 where w: "rd q n = (ys, q1)" by (cases "rd q n")
    obtain outs1 where r: "fifo_run wr rd q1 os = (ins, outs1, q')" "outs = ys @ outs1"
      using Cons.prems Rd w by (auto split: prod.splits)
    have "n \<le> lim" "ops_within lim os" using Cons.prems Rd by simp_all
    with Cons.prems(1) w have "inv q1" "ys = take n (content q)" "content q1 = drop n (content q)"
      "cap q1 = cap q"
      using rd_inv [of q n] rd_out [of q n] rd_content [of q n] rd_cap [of q n] by simp_all
    with Cons.IH [OF _ \<open>ops_within lim os\<close> r(1)] r(2) show ?thesis
      by (metis append.assoc append_take_drop_id)
  qed
qed

end

locale packet_fifo = byte_fifo +
  assumes wr_all_or_none: "inv q \<Longrightarrow> length xs \<le> lim \<Longrightarrow>
      fst (wr q xs) = 0 \<or> fst (wr q xs) = length xs"
begin

lemma run_packets:
  "inv q \<Longrightarrow> ops_within lim os \<Longrightarrow> fifo_run wr rd q os = (ins, outs, q') \<Longrightarrow>
   \<exists>ps. subseq ps (fifo_blocks os) \<and> ins = concat ps"
proof (induction os arbitrary: q ins outs)
  case Nil
  then show ?case by (intro exI [of _ "[]"]) simp
next
  case (Cons x os)
  show ?case
  proof (cases x)
    case (Wr xs)
    obtain n q1 where w: "wr q xs = (n, q1)" by (cases "wr q xs")
    obtain ins1 where r: "fifo_run wr rd q1 os = (ins1, outs, q')" "ins = take n xs @ ins1"
      using Cons.prems Wr w by (auto split: prod.splits)
    have l: "length xs \<le> lim" "ops_within lim os" using Cons.prems Wr by simp_all
    with Cons.prems(1) w have "inv q1" using wr_inv [of q xs] by simp
    then obtain ps where ps: "subseq ps (fifo_blocks os)" "ins1 = concat ps"
      using Cons.IH [OF _ l(2) r(1)] by blast
    have "n = 0 \<or> n = length xs" using wr_all_or_none [OF Cons.prems(1) l(1)] w by simp
    then show ?thesis
    proof
      assume "n = 0"
      with ps r(2) Wr show ?thesis by (intro exI [of _ ps]) (auto intro: list_emb_Cons)
    next
      assume "n = length xs"
      with ps r(2) Wr show ?thesis by (intro exI [of _ "xs # ps"]) simp
    qed
  next
    case (Rd n)
    obtain ys q1 where w: "rd q n = (ys, q1)" by (cases "rd q n")
    obtain outs1 where r: "fifo_run wr rd q1 os = (ins, outs1, q')"
      using Cons.prems Rd w by (auto split: prod.splits)
    have l: "n \<le> lim" "ops_within lim os" using Cons.prems Rd by simp_all
    with Cons.prems(1) w have "inv q1" using rd_inv [of q n] by simp
    with Cons.IH [OF _ l(2) r] Rd show ?thesis by simp
  qed
qed

text \<open>A buffer that takes all of a block or nothing is the bounded queue.\<close>

lemma wr_accepts:
  assumes "inv q" "length xs \<le> lim"
  shows "fst (wr q xs) = (if length (content q) + length xs \<le> cap q then length xs else 0)"
proof (cases "length (content q) + length xs \<le> cap q")
  case True
  with wr_room [OF assms] show ?thesis by simp
next
  case False
  have "fst (wr q xs) \<noteq> length xs"
  proof
    assume "fst (wr q xs) = length xs"
    then have "length (content (snd (wr q xs))) = length (content q) + length xs"
      using wr_content [OF assms] by simp
    with bounded [OF wr_inv [OF assms]] wr_cap [OF assms] False show False by simp
  qed
  with wr_all_or_none [OF assms] False show ?thesis by simp
qed

lemma run_queue:
  "inv q \<Longrightarrow> ops_within lim os \<Longrightarrow> fifo_run wr rd q os = (ins, outs, q') \<Longrightarrow>
   queue_run (cap q) (content q) os = (ins, outs, content q')"
proof (induction os arbitrary: q ins outs)
  case Nil
  then show ?case by simp
next
  case (Cons x os)
  show ?case
  proof (cases x)
    case (Wr xs)
    obtain n q1 where w: "wr q xs = (n, q1)" by (cases "wr q xs")
    obtain ins1 where r: "fifo_run wr rd q1 os = (ins1, outs, q')" "ins = take n xs @ ins1"
      using Cons.prems Wr w by (auto split: prod.splits)
    have l: "length xs \<le> lim" "ops_within lim os" using Cons.prems Wr by simp_all
    with Cons.prems(1) w have q1: "inv q1" "content q1 = content q @ take n xs" "cap q1 = cap q"
      using wr_inv [of q xs] wr_content [of q xs] wr_cap [of q xs] by simp_all
    note n = wr_accepts [OF Cons.prems(1) l(1), unfolded w fst_conv]
    from Cons.IH [OF q1(1) l(2) r(1)] q1(2,3) n r(2) Wr show ?thesis by (auto split: if_splits)
  next
    case (Rd n)
    obtain ys q1 where w: "rd q n = (ys, q1)" by (cases "rd q n")
    obtain outs1 where r: "fifo_run wr rd q1 os = (ins, outs1, q')" "outs = ys @ outs1"
      using Cons.prems Rd w by (auto split: prod.splits)
    have l: "n \<le> lim" "ops_within lim os" using Cons.prems Rd by simp_all
    with Cons.prems(1) w have q1: "inv q1" "ys = take n (content q)" "content q1 = drop n (content q)" "cap q1 = cap q"
      using rd_inv [of q n] rd_out [of q n] rd_content [of q n] rd_cap [of q n] by simp_all
    from Cons.IH [OF q1(1) l(2) r(1)] q1 r(2) Rd show ?thesis by simp
  qed
qed

end

end
