(* ===== verification/RingSlice.thy ===== *)
theory RingSlice
  imports Prelude
begin

text \<open>
  The view every circular buffer of the firmware shares: \<open>ring_slice xs b n\<close> is the list of the
  \<open>n\<close> elements of the array \<open>xs\<close> that start at index \<open>b\<close> and wrap at the array's length. The
  byte FIFO of the CH59x ports, the BL702 ring buffer and the 256-entry sample buffers of all
  ports are read through it.
\<close>

definition ring_slice :: "'a list \<Rightarrow> nat \<Rightarrow> nat \<Rightarrow> 'a list" where
  "ring_slice xs b n = map (\<lambda>i. xs ! ((b + i) mod length xs)) [0..<n]"

lemma length_ring_slice [simp]: "length (ring_slice xs b n) = n"
  by (simp add: ring_slice_def)

lemma ring_slice_0 [simp]: "ring_slice xs b 0 = []"
  by (simp add: ring_slice_def)

lemma nth_ring_slice [simp]: "i < n \<Longrightarrow> ring_slice xs b n ! i = xs ! ((b + i) mod length xs)"
  by (simp add: ring_slice_def)

lemma ring_slice_mod [simp]: "ring_slice xs (b mod length xs) n = ring_slice xs b n"
  by (simp add: ring_slice_def mod_add_left_eq)

lemma ring_slice_cong_mod:
  "b mod length xs = c mod length xs \<Longrightarrow> ring_slice xs b n = ring_slice xs c n"
  by (metis ring_slice_mod)

lemma ring_slice_add:
  "ring_slice xs b (m + n) = ring_slice xs b m @ ring_slice xs (b + m) n"
  by (rule nth_equalityI) (auto simp: nth_append add.assoc)

lemma ring_slice_Suc: "ring_slice xs b (Suc n) = xs ! (b mod length xs) # ring_slice xs (Suc b) n"
  using ring_slice_add [of xs b 1 n] by (simp add: ring_slice_def)

lemma ring_slice_snoc: "ring_slice xs b (Suc n) = ring_slice xs b n @ [xs ! ((b + n) mod length xs)]"
  using ring_slice_add [of xs b n 1] by (simp add: ring_slice_def)

lemma take_ring_slice: "take m (ring_slice xs b n) = ring_slice xs b (min m n)"
  by (rule nth_equalityI) auto

lemma drop_ring_slice: "drop m (ring_slice xs b n) = ring_slice xs (b + m) (n - m)"
  by (rule nth_equalityI) (auto simp: add.assoc)

lemma ring_slice_linear: "b + n \<le> length xs \<Longrightarrow> ring_slice xs b n = take n (drop b xs)"
  by (rule nth_equalityI) auto

lemma ring_slice_wrap:
  assumes "b \<le> length xs" "n \<le> length xs" "length xs \<le> b + n"
  shows "ring_slice xs b n = drop b xs @ take (b + n - length xs) xs"
proof -
  let ?m = "length xs - b"
  have n: "n = ?m + (b + n - length xs)" using assms by simp
  have "ring_slice xs b n = ring_slice xs b ?m @ ring_slice xs (b + ?m) (b + n - length xs)"
    by (subst n) (rule ring_slice_add)
  moreover have "ring_slice xs b ?m = drop b xs"
    using assms ring_slice_linear [of b ?m xs] by simp
  moreover have "ring_slice xs (b + ?m) (b + n - length xs) = take (b + n - length xs) xs"
    using assms ring_slice_cong_mod [of "b + ?m" xs 0] ring_slice_linear [of 0 _ xs] by simp
  ultimately show ?thesis by simp
qed

text \<open>Two indices less than one turn apart are different cells.\<close>

lemma mod_add_inj:
  assumes "i < (N::nat)" "j < N" "(b + i) mod N = (b + j) mod N"
  shows "i = j"
proof -
  have *: "i = j" if "i \<le> j" "j < N" "(b + i) mod N = (b + j) mod N" for i j :: nat
  proof -
    have "N dvd (b + j) - (b + i)"
      using that mod_eq_dvd_iff_nat [of "b + i" "b + j" N] by simp
    then have "N dvd j - i" by simp
    moreover have "j - i < N" using that by simp
    ultimately have "j - i = 0" using nat_dvd_not_less [of "j - i" N] by auto
    with that show ?thesis by simp
  qed
  show ?thesis using * [of i j] * [of j i] assms by (cases "i \<le> j") auto
qed

text \<open>Storing one element past the slice extends it; cells outside the slice do not matter.\<close>

lemma ring_slice_update_outside:
  assumes "n \<le> j" "j < length xs"
  shows "ring_slice (xs[(b + j) mod length xs := x]) b n = ring_slice xs b n"
proof (rule nth_equalityI)
  fix i assume "i < length (ring_slice (xs[(b + j) mod length xs := x]) b n)"
  then have i: "i < n" by simp
  then have "(b + i) mod length xs \<noteq> (b + j) mod length xs"
    using assms mod_add_inj [of i "length xs" j b] by auto
  with i show "ring_slice (xs[(b + j) mod length xs := x]) b n ! i = ring_slice xs b n ! i"
    by simp
qed simp

lemma ring_slice_push:
  assumes "n < length xs"
  shows "ring_slice (xs[(b + n) mod length xs := x]) b (Suc n) = ring_slice xs b n @ [x]"
proof -
  have "(b + n) mod length xs < length xs" using assms by (intro mod_less_divisor) linarith
  then show ?thesis
    using ring_slice_update_outside [of n n xs b x] assms
    by (simp add: ring_slice_snoc)
qed

section \<open>Storing a block that may wrap\<close>

text \<open>
  \<open>ring_store xs w ys\<close> is the two-copy store of every port: the part of \<open>ys\<close> that fits before the
  end of the array goes to index \<open>w\<close>, the rest to index 0.
\<close>

definition ring_store :: "'a list \<Rightarrow> nat \<Rightarrow> 'a list \<Rightarrow> 'a list" where
  "ring_store xs w ys =
     splice_at (splice_at xs w (take (length xs - w) ys)) 0 (drop (length xs - w) ys)"

lemma length_ring_store [simp]:
  "w \<le> length xs \<Longrightarrow> length ys \<le> length xs \<Longrightarrow> length (ring_store xs w ys) = length xs"
  by (simp add: ring_store_def)

lemma ring_store_linear: "w + length ys \<le> length xs \<Longrightarrow> ring_store xs w ys = splice_at xs w ys"
  by (simp add: ring_store_def splice_at_def)

lemma nth_ring_store:
  assumes "w < length xs" "length ys \<le> length xs" "j < length xs"
  shows "ring_store xs w ys ! j =
    (if w \<le> j \<and> j < w + length ys then ys ! (j - w)
     else if j + length xs < w + length ys then ys ! (j + length xs - w) else xs ! j)"
  using assms by (auto simp: ring_store_def nth_splice_at add.commute)

lemma ring_slice_store:
  assumes "b < length xs" "n + length ys \<le> length xs" "w = (b + n) mod length xs"
  shows "ring_slice (ring_store xs w ys) b (n + length ys) = ring_slice xs b n @ ys"
proof (rule nth_equalityI)
  let ?N = "length xs"
  have w: "w < ?N" unfolding assms(3) using assms(1) by (intro mod_less_divisor) linarith
  have len: "length (ring_store xs w ys) = ?N" using w assms(2) by simp
  have red: "(b + i) mod ?N = (if b + i < ?N then b + i else b + i - ?N)" if "i \<le> ?N" for i
    using that assms(1) by (simp add: le_mod_geq)
  fix i assume "i < length (ring_slice (ring_store xs w ys) b (n + length ys))"
  then have i: "i < n + length ys" by simp
  have j: "(b + i) mod ?N < ?N" using w by (intro mod_less_divisor) linarith
  have "ring_store xs w ys ! ((b + i) mod ?N) =
      (if i < n then xs ! ((b + i) mod ?N) else ys ! (i - n))"
    unfolding nth_ring_store [OF w _ j, of ys, OF add_leD2 [OF assms(2)]]
    using i assms(1,2) by (auto simp: assms(3) red intro!: arg_cong [of _ _ "(!) ys"])
  with i len show "ring_slice (ring_store xs w ys) b (n + length ys) ! i =
      (ring_slice xs b n @ ys) ! i"
    by (simp add: nth_append)
qed simp

text \<open>The two-copy load: the mirror image of \<open>ring_store\<close>.\<close>

lemma ring_slice_two_parts:
  assumes "b < length xs" "n \<le> length xs"
  shows "take n (drop b xs) @ take (n - (length xs - b)) xs = ring_slice xs b n"
proof (cases "b + n \<le> length xs")
  case True
  then show ?thesis by (simp add: ring_slice_linear)
next
  case False
  with assms show ?thesis by (simp add: ring_slice_wrap add.commute)
qed

end
