(* ===== verification/RingBuffer.thy ===== *)
theory RingBuffer
  imports FifoIface RingSlice
begin

text \<open>
  The ring buffer in front of the USB endpoint of the BL702 port
  (\<open>BL702/PowerProfiler/src/ring_buffer.c\<close>, \<open>.h\<close>). Fullness is told from emptiness by two mirror
  bytes, complemented at each wrap. The lock callbacks are absent from the model: the program
  builds with \<open>USE_LOCK_RNG\<close> 0 and passes NULL for both, so every \<open>lock != NULL\<close> test fails.
  Read and write callbacks are HOL functions on the buffer's memory; NULL is \<open>None\<close>.
\<close>

section \<open>State and operations\<close>

datatype Ring_Buffer_Status_Type = RING_BUFFER_EMPTY | RING_BUFFER_PARTIAL | RING_BUFFER_FULL

record Ring_Buffer_Type =
  pointer :: "u8 list"
  readMirror :: u8
  readIndex :: u32
  writeMirror :: u8
  writeIndex :: u32
  rb_size :: u32

text \<open>A callback gets its parameter, the memory, an index into it and a length.\<close>

type_synonym 'p write_cb = "'p \<Rightarrow> u8 list \<Rightarrow> nat \<Rightarrow> nat \<Rightarrow> 'p \<times> u8 list"
type_synonym 'p read_cb = "'p \<Rightarrow> u8 list \<Rightarrow> nat \<Rightarrow> nat \<Rightarrow> 'p"

definition Ring_Buffer_Init :: "u8 list \<Rightarrow> u32 \<Rightarrow> Ring_Buffer_Type" where
  "Ring_Buffer_Init buffer sz =
     \<lparr>pointer = buffer, readMirror = 0, readIndex = 0, writeMirror = 0, writeIndex = 0,
      rb_size = sz\<rparr>"

definition Ring_Buffer_Reset :: "Ring_Buffer_Type \<Rightarrow> Ring_Buffer_Type" where
  "Ring_Buffer_Reset rb =
     rb\<lparr>readMirror := 0, readIndex := 0, writeMirror := 0, writeIndex := 0\<rparr>"

definition Ring_Buffer_Get_Length :: "Ring_Buffer_Type \<Rightarrow> u32" where
  "Ring_Buffer_Get_Length rb =
     (if readMirror rb = writeMirror rb then writeIndex rb - readIndex rb
      else rb_size rb - (readIndex rb - writeIndex rb))"

definition Ring_Buffer_Get_Empty_Length :: "Ring_Buffer_Type \<Rightarrow> u32" where
  "Ring_Buffer_Get_Empty_Length rb = rb_size rb - Ring_Buffer_Get_Length rb"

definition Ring_Buffer_Get_Status :: "Ring_Buffer_Type \<Rightarrow> Ring_Buffer_Status_Type" where
  "Ring_Buffer_Get_Status rb =
     (if readIndex rb = writeIndex rb
      then if readMirror rb = writeMirror rb then RING_BUFFER_EMPTY else RING_BUFFER_FULL
      else RING_BUFFER_PARTIAL)"

definition Ring_Buffer_Write_Callback ::
    "Ring_Buffer_Type \<Rightarrow> u32 \<Rightarrow> 'p write_cb option \<Rightarrow> 'p \<Rightarrow> u32 \<times> Ring_Buffer_Type \<times> 'p" where
  "Ring_Buffer_Write_Callback rb len writeCb param =
     (let sizeRemained = Ring_Buffer_Get_Empty_Length rb
      in case writeCb of None \<Rightarrow> (0, rb, param)
         | Some cb \<Rightarrow>
           if sizeRemained = 0 then (0, rb, param)
           else
             (let len = (if len > sizeRemained then sizeRemained else len);
                  sizeRemained = rb_size rb - writeIndex rb
              in if sizeRemained > len
                 then (let (p1, m1) = cb param (pointer rb) (unat (writeIndex rb)) (unat len)
                       in (len, rb\<lparr>pointer := m1, writeIndex := writeIndex rb + len\<rparr>, p1))
                 else (let (p1, m1) = cb param (pointer rb) (unat (writeIndex rb)) (unat sizeRemained);
                           (p2, m2) = cb p1 m1 0 (unat (len - sizeRemained))
                       in (len, rb\<lparr>pointer := m2, writeIndex := len - sizeRemained,
                                 writeMirror := NOT (writeMirror rb)\<rparr>, p2))))"

text \<open>The parameter of the copy callback is the source pointer: the bytes still to copy.\<close>

definition Ring_Buffer_Write_Copy :: "u8 list write_cb" where
  "Ring_Buffer_Write_Copy src mem dst n = (drop n src, splice_at mem dst (take n src))"

definition Ring_Buffer_Write :: "Ring_Buffer_Type \<Rightarrow> u8 list \<Rightarrow> u32 \<Rightarrow> u32 \<times> Ring_Buffer_Type" where
  "Ring_Buffer_Write rb data len =
     (let (n, rb', _) = Ring_Buffer_Write_Callback rb len (Some Ring_Buffer_Write_Copy) data
      in (n, rb'))"

definition Ring_Buffer_Write_Byte :: "Ring_Buffer_Type \<Rightarrow> u8 \<Rightarrow> u32 \<times> Ring_Buffer_Type" where
  "Ring_Buffer_Write_Byte rb d =
     (if Ring_Buffer_Get_Empty_Length rb = 0 then (0, rb)
      else
        (let rb1 = rb\<lparr>pointer := (pointer rb)[unat (writeIndex rb) := d]\<rparr>
         in (1, if writeIndex rb1 \<noteq> rb_size rb1 - 1
                then rb1\<lparr>writeIndex := writeIndex rb1 + 1\<rparr>
                else rb1\<lparr>writeIndex := 0, writeMirror := NOT (writeMirror rb1)\<rparr>)))"

definition Ring_Buffer_Write_Force ::
    "Ring_Buffer_Type \<Rightarrow> u8 list \<Rightarrow> u32 \<Rightarrow> u32 \<times> Ring_Buffer_Type" where
  "Ring_Buffer_Write_Force rb data len =
     (let sizeRemained = Ring_Buffer_Get_Empty_Length rb;
          indexRemained = rb_size rb - writeIndex rb;
          (data, len) = (if len > rb_size rb then (drop (unat (len - rb_size rb)) data, rb_size rb)
                         else (data, len))
      in if indexRemained > len
         then
           (let rb1 = rb\<lparr>pointer := splice_at (pointer rb) (unat (writeIndex rb)) (take (unat len) data),
                        writeIndex := writeIndex rb + len\<rparr>
            in (len, if len > sizeRemained then rb1\<lparr>readIndex := writeIndex rb1\<rparr> else rb1))
         else
           (let m1 = splice_at (pointer rb) (unat (writeIndex rb)) (take (unat indexRemained) data);
                m2 = splice_at m1 0 (take (unat (len - indexRemained)) (drop (unat indexRemained) data));
                rb1 = rb\<lparr>pointer := m2, writeIndex := len - indexRemained,
                         writeMirror := NOT (writeMirror rb)\<rparr>
            in (len, if len > sizeRemained
                     then rb1\<lparr>readIndex := writeIndex rb1, readMirror := NOT (readMirror rb1)\<rparr>
                     else rb1)))"

definition Ring_Buffer_Write_Byte_Force :: "Ring_Buffer_Type \<Rightarrow> u8 \<Rightarrow> u32 \<times> Ring_Buffer_Type" where
  "Ring_Buffer_Write_Byte_Force rb d =
     (let status = Ring_Buffer_Get_Status rb;
          rb1 = rb\<lparr>pointer := (pointer rb)[unat (writeIndex rb) := d]\<rparr>
      in if writeIndex rb1 = rb_size rb1 - 1
         then
           (let rb2 = rb1\<lparr>writeIndex := 0, writeMirror := NOT (writeMirror rb1)\<rparr>
            in (1, if status = RING_BUFFER_FULL
                   then rb2\<lparr>readIndex := writeIndex rb2, readMirror := NOT (readMirror rb2)\<rparr>
                   else rb2))
         else
           (let rb2 = rb1\<lparr>writeIndex := writeIndex rb1 + 1\<rparr>
            in (1, if status = RING_BUFFER_FULL then rb2\<lparr>readIndex := writeIndex rb2\<rparr> else rb2)))"

definition Ring_Buffer_Read_Callback ::
    "Ring_Buffer_Type \<Rightarrow> u32 \<Rightarrow> 'p read_cb option \<Rightarrow> 'p \<Rightarrow> u32 \<times> Ring_Buffer_Type \<times> 'p" where
  "Ring_Buffer_Read_Callback rb len readCb param =
     (let sz = Ring_Buffer_Get_Length rb
      in case readCb of None \<Rightarrow> (0, rb, param)
         | Some cb \<Rightarrow>
           if sz = 0 then (0, rb, param)
           else
             (let len = (if sz < len then sz else len);
                  sz = rb_size rb - readIndex rb
              in if sz > len
                 then (len, rb\<lparr>readIndex := readIndex rb + len\<rparr>,
                       cb param (pointer rb) (unat (readIndex rb)) (unat len))
                 else (len, rb\<lparr>readIndex := len - sz, readMirror := NOT (readMirror rb)\<rparr>,
                       cb (cb param (pointer rb) (unat (readIndex rb)) (unat sz))
                         (pointer rb) 0 (unat (len - sz)))))"

text \<open>The parameter of the copy callback is the destination pointer: the array and a position.\<close>

definition Ring_Buffer_Read_Copy :: "(u8 list \<times> nat) read_cb" where
  "Ring_Buffer_Read_Copy dest mem src n =
     (splice_at (fst dest) (snd dest) (take n (drop src mem)), snd dest + n)"

definition Ring_Buffer_Read ::
    "Ring_Buffer_Type \<Rightarrow> u8 list \<Rightarrow> u32 \<Rightarrow> u32 \<times> Ring_Buffer_Type \<times> u8 list" where
  "Ring_Buffer_Read rb dest len =
     (let (n, rb', dest', _) =
        Ring_Buffer_Read_Callback rb len (Some Ring_Buffer_Read_Copy) (dest, 0)
      in (n, rb', dest'))"

definition Ring_Buffer_Read_Byte ::
    "Ring_Buffer_Type \<Rightarrow> u8 \<Rightarrow> u32 \<times> Ring_Buffer_Type \<times> u8" where
  "Ring_Buffer_Read_Byte rb d =
     (if Ring_Buffer_Get_Length rb = 0 then (0, rb, d)
      else (1, if readIndex rb = rb_size rb - 1
               then rb\<lparr>readIndex := 0, readMirror := NOT (readMirror rb)\<rparr>
               else rb\<lparr>readIndex := readIndex rb + 1\<rparr>,
            pointer rb ! unat (readIndex rb)))"

definition Ring_Buffer_Peek :: "Ring_Buffer_Type \<Rightarrow> u8 list \<Rightarrow> u32 \<Rightarrow> u32 \<times> u8 list" where
  "Ring_Buffer_Peek rb dest len =
     (let sz = Ring_Buffer_Get_Length rb
      in if sz = 0 then (0, dest)
         else
           (let len = (if sz < len then sz else len);
                sz = rb_size rb - readIndex rb
            in if sz > len
               then (len, splice_at dest 0 (take (unat len) (drop (unat (readIndex rb)) (pointer rb))))
               else (len,
                 splice_at (splice_at dest 0 (take (unat sz) (drop (unat (readIndex rb)) (pointer rb))))
                   (unat sz) (take (unat (len - sz)) (pointer rb)))))"

definition Ring_Buffer_Peek_Byte :: "Ring_Buffer_Type \<Rightarrow> u8 \<Rightarrow> u32 \<times> u8" where
  "Ring_Buffer_Peek_Byte rb d =
     (if Ring_Buffer_Get_Length rb = 0 then (0, d)
      else (1, pointer rb ! unat (readIndex rb)))"

section \<open>Well-formedness and the abstraction to byte lists\<close>

definition rb_wf :: "Ring_Buffer_Type \<Rightarrow> bool" where
  "rb_wf rb \<longleftrightarrow> length (pointer rb) = unat (rb_size rb) \<and>
     readIndex rb < rb_size rb \<and> writeIndex rb < rb_size rb \<and>
     (writeMirror rb = readMirror rb \<and> readIndex rb \<le> writeIndex rb \<or>
      writeMirror rb = NOT (readMirror rb) \<and> writeIndex rb \<le> readIndex rb)"

definition rb_bytes :: "Ring_Buffer_Type \<Rightarrow> u8 list" where
  "rb_bytes rb =
     ring_slice (pointer rb) (unat (readIndex rb)) (unat (Ring_Buffer_Get_Length rb))"

lemma length_rb_bytes [simp]: "length (rb_bytes rb) = unat (Ring_Buffer_Get_Length rb)"
  by (simp add: rb_bytes_def)

lemma not_word_neq [simp]: "NOT x \<noteq> x" "x \<noteq> NOT x" for x :: "'a::len word"
proof -
  have "bit (NOT x) 0 \<noteq> bit x 0" by (simp add: bit_not_iff)
  then show "NOT x \<noteq> x" "x \<noteq> NOT x" by metis+
qed

text \<open>The geometry of a well-formed buffer over naturals.\<close>

lemma rb_length_nat:
  assumes "rb_wf rb"
  shows "unat (Ring_Buffer_Get_Length rb) =
    (if readMirror rb = writeMirror rb then unat (writeIndex rb) - unat (readIndex rb)
     else unat (rb_size rb) - (unat (readIndex rb) - unat (writeIndex rb)))"
proof (cases "readMirror rb = writeMirror rb")
  case True
  with assms show ?thesis
    by (simp add: rb_wf_def Ring_Buffer_Get_Length_def unat_sub)
next
  case False
  then have le: "writeIndex rb \<le> readIndex rb" "readIndex rb < rb_size rb"
    using assms by (auto simp: rb_wf_def)
  then have d: "unat (readIndex rb - writeIndex rb) = unat (readIndex rb) - unat (writeIndex rb)"
    by (simp add: unat_sub)
  then have "readIndex rb - writeIndex rb \<le> rb_size rb"
    using le by (simp add: word_le_nat_alt word_less_nat_alt)
  with False d show ?thesis by (simp add: Ring_Buffer_Get_Length_def unat_sub)
qed

lemma rb_geometry:
  assumes "rb_wf rb" "R = unat (readIndex rb)" "W = unat (writeIndex rb)" "S = unat (rb_size rb)"
    "L = unat (Ring_Buffer_Get_Length rb)"
  shows "length (pointer rb) = S" "R < S" "W < S" "L \<le> S" "W = (R + L) mod S"
    "unat (Ring_Buffer_Get_Empty_Length rb) = S - L"
    "unat (rb_size rb - writeIndex rb) = S - W" "unat (rb_size rb - readIndex rb) = S - R"
    "readMirror rb = writeMirror rb \<longleftrightarrow> R + L < S"
    "W = (if R + L < S then R + L else R + L - S)"
    "writeMirror rb = (if R + L < S then readMirror rb else NOT (readMirror rb))"
proof -
  have *: "length (pointer rb) = S" "R < S" "W < S" and
    m: "readMirror rb = writeMirror rb \<and> R \<le> W \<or> readMirror rb \<noteq> writeMirror rb \<and> W \<le> R"
    using assms by (auto simp: rb_wf_def word_less_nat_alt word_le_nat_alt)
  then show "length (pointer rb) = S" "R < S" "W < S" by simp_all
  have L: "L = (if readMirror rb = writeMirror rb then W - R else S - (R - W))"
    using rb_length_nat [OF assms(1)] assms(2-5) by simp
  with m * show LS: "L \<le> S" "readMirror rb = writeMirror rb \<longleftrightarrow> R + L < S"
    "W = (if R + L < S then R + L else R + L - S)" by (auto split: if_splits)
  with * show "W = (R + L) mod S" by (simp add: le_mod_geq)
  show "writeMirror rb = (if R + L < S then readMirror rb else NOT (readMirror rb))"
    using assms(1) LS(2) by (auto simp: rb_wf_def)
  have "Ring_Buffer_Get_Length rb \<le> rb_size rb" using LS(1) assms(4,5) by (simp add: word_le_nat_alt)
  then show "unat (Ring_Buffer_Get_Empty_Length rb) = S - L"
    using assms(4,5) by (simp add: Ring_Buffer_Get_Empty_Length_def unat_sub)
  have "writeIndex rb \<le> rb_size rb" "readIndex rb \<le> rb_size rb"
    using assms(1) by (auto simp: rb_wf_def)
  then show "unat (rb_size rb - writeIndex rb) = S - W" "unat (rb_size rb - readIndex rb) = S - R"
    using assms(2-4) by (simp_all add: unat_sub)
qed

text \<open>
  The converse: indices and mirrors that fit a start \<open>R\<close> and a length \<open>L\<close> make a well-formed
  buffer with the corresponding slice as its bytes.
\<close>

lemma rb_wfI:
  assumes "length (pointer rb) = unat (rb_size rb)" "R < unat (rb_size rb)" "L \<le> unat (rb_size rb)"
    "unat (readIndex rb) = R" "unat (writeIndex rb) = (R + L) mod unat (rb_size rb)"
    "writeMirror rb = (if R + L < unat (rb_size rb) then readMirror rb else NOT (readMirror rb))"
  shows "rb_wf rb" "rb_bytes rb = ring_slice (pointer rb) R L"
    "unat (Ring_Buffer_Get_Length rb) = L"
proof -
  have W: "unat (writeIndex rb) = (if R + L < unat (rb_size rb) then R + L else R + L - unat (rb_size rb))"
    using assms(2,3,5) by (simp add: le_mod_geq)
  then show wf: "rb_wf rb"
    using assms(1-4,6) by (auto simp: rb_wf_def word_less_nat_alt word_le_nat_alt)
  show "unat (Ring_Buffer_Get_Length rb) = L"
    using rb_length_nat [OF wf] W assms(2-4,6) by auto
  then show "rb_bytes rb = ring_slice (pointer rb) R L"
    using assms(4) by (simp add: rb_bytes_def)
qed

section \<open>Writes\<close>

lemma u32_plus_below:
  "unat (x :: u32) + unat y < unat (z :: u32) \<Longrightarrow> unat (x + y) = unat x + unat y"
proof (rule unat_plus_nowrap)
  assume "unat x + unat y < unat z"
  also have "\<dots> < 4294967296" by simp
  finally show "unat x + unat y < 2 ^ LENGTH(32)" by simp
qed

lemma rb_stored:
  assumes "rb_wf rb" "length ys \<le> unat (Ring_Buffer_Get_Empty_Length rb)"
    "pointer g = ring_store (pointer rb) (unat (writeIndex rb)) ys" "rb_size g = rb_size rb"
    "readIndex g = readIndex rb" "readMirror g = readMirror rb"
    "unat (writeIndex g) = (unat (writeIndex rb) + length ys) mod unat (rb_size rb)"
    "writeMirror g = (if unat (writeIndex rb) + length ys < unat (rb_size rb) then writeMirror rb
       else NOT (writeMirror rb))"
  shows "rb_wf g \<and> rb_bytes g = rb_bytes rb @ ys \<and>
    unat (Ring_Buffer_Get_Length g) = unat (Ring_Buffer_Get_Length rb) + length ys"
proof -
  let ?R = "unat (readIndex rb)" and ?W = "unat (writeIndex rb)" and ?S = "unat (rb_size rb)"
    and ?L = "unat (Ring_Buffer_Get_Length rb)"
  note geo = rb_geometry [OF assms(1) refl refl refl refl]
  have n: "?L + length ys \<le> ?S" using assms(2) geo(4,6) by simp
  have len: "length (pointer g) = unat (rb_size g)"
    using assms(3,4) geo(1,3) n by simp
  have wi: "unat (writeIndex g) = (?R + (?L + length ys)) mod unat (rb_size g)"
    using assms(4,7) geo(5) by (simp add: mod_add_left_eq add.assoc)
  have wm: "writeMirror g = (if ?R + (?L + length ys) < unat (rb_size g) then readMirror g
      else NOT (readMirror g))"
    using assms(4,6,8) geo(2,10,11) n by (auto split: if_splits)
  note g = rb_wfI [OF len, of ?R "?L + length ys", OF _ _ _ wi wm]
  have "ring_slice (pointer g) ?R (?L + length ys) = rb_bytes rb @ ys"
    using ring_slice_store [of ?R "pointer rb" ?L ys ?W] assms(3) geo(1,2,5) n
    by (simp add: rb_bytes_def)
  then show ?thesis using g assms(4,5) geo(2) n by simp
qed

lemma rb_write_callback_copy:
  assumes "rb_wf rb" "unat len \<le> length data"
  shows "\<exists>n g. Ring_Buffer_Write_Callback rb len (Some Ring_Buffer_Write_Copy) data =
      (n, g, drop (unat n) data) \<and>
    unat n = min (unat len) (unat (Ring_Buffer_Get_Empty_Length rb)) \<and>
    rb_wf g \<and> rb_bytes g = rb_bytes rb @ take (unat n) data \<and> rb_size g = rb_size rb"
proof (cases "Ring_Buffer_Get_Empty_Length rb = 0")
  case True
  then show ?thesis using assms(1)
    by (intro exI [of _ 0] exI [of _ rb]) (simp add: Ring_Buffer_Write_Callback_def Let_def)
next
  case False
  let ?E = "Ring_Buffer_Get_Empty_Length rb"
  let ?W = "unat (writeIndex rb)" and ?S = "unat (rb_size rb)"
  define n where "n = (if len > ?E then ?E else len)"
  note geo = rb_geometry [OF assms(1) refl refl refl refl]
  have n: "unat n = min (unat len) (unat ?E)"
    by (simp add: n_def word_less_nat_alt min_def)
  have nS: "unat n \<le> ?S" "unat n \<le> unat ?E" "unat n \<le> length data"
    using n geo(6) assms(2) by simp_all
  show ?thesis
  proof (cases "rb_size rb - writeIndex rb > n")
    case True
    then have lt: "?W + unat n < ?S" using geo(3,7) by (simp add: word_less_nat_alt)
    let ?g = "rb\<lparr>pointer := splice_at (pointer rb) ?W (take (unat n) data),
      writeIndex := writeIndex rb + n\<rparr>"
    have "unat (writeIndex rb + n) = ?W + unat n"
      using lt by (rule u32_plus_below)
    then have "rb_wf ?g \<and> rb_bytes ?g = rb_bytes rb @ take (unat n) data"
      using rb_stored [OF assms(1), of "take (unat n) data" ?g] lt nS geo(1)
      by (simp add: ring_store_linear)
    moreover have "Ring_Buffer_Write_Callback rb len (Some Ring_Buffer_Write_Copy) data =
        (n, ?g, drop (unat n) data)"
      using False True
      by (simp add: Ring_Buffer_Write_Callback_def Ring_Buffer_Write_Copy_def Let_def flip: n_def)
    ultimately show ?thesis using n by (intro exI [of _ n] exI [of _ ?g]) simp
  next
    case False2: False
    let ?K = "rb_size rb - writeIndex rb"
    have le: "unat ?K \<le> unat n" using False2 by (simp add: word_less_nat_alt)
    have sub: "unat (n - ?K) = unat n - unat ?K" using le by (simp add: unat_sub word_le_nat_alt)
    let ?m = "splice_at (splice_at (pointer rb) ?W (take (unat ?K) data)) 0
      (take (unat (n - ?K)) (drop (unat ?K) data))"
    let ?g = "rb\<lparr>pointer := ?m, writeIndex := n - ?K, writeMirror := NOT (writeMirror rb)\<rparr>"
    have m: "?m = ring_store (pointer rb) ?W (take (unat n) data)"
      using le geo(1,7) by (simp add: ring_store_def sub drop_take min_def)
    have wi: "unat (n - ?K) = (?W + unat n) mod ?S"
      using le geo(3,7) nS(1) by (simp add: sub le_mod_geq)
    then have "rb_wf ?g \<and> rb_bytes ?g = rb_bytes rb @ take (unat n) data"
      using rb_stored [OF assms(1), of "take (unat n) data" ?g] le nS geo(3,7) m
      by simp
    moreover have "drop (unat (n - ?K)) (drop (unat ?K) data) = drop (unat n) data"
      using le sub by simp
    then have "Ring_Buffer_Write_Callback rb len (Some Ring_Buffer_Write_Copy) data =
        (n, ?g, drop (unat n) data)"
      using False False2
      by (simp add: Ring_Buffer_Write_Callback_def Ring_Buffer_Write_Copy_def Let_def flip: n_def)
    ultimately show ?thesis using n by (intro exI [of _ n] exI [of _ ?g]) simp
  qed
qed

lemma rb_write_spec:
  assumes "rb_wf rb" "unat len \<le> length data"
  shows "\<exists>n g. Ring_Buffer_Write rb data len = (n, g) \<and>
    unat n = min (unat len) (unat (rb_size rb) - length (rb_bytes rb)) \<and>
    rb_wf g \<and> rb_bytes g = rb_bytes rb @ take (unat n) data \<and> rb_size g = rb_size rb"
  using rb_write_callback_copy [OF assms] rb_geometry(6) [OF assms(1) refl refl refl refl]
  by (auto simp: Ring_Buffer_Write_def)

lemma u32_is_last: "x = y - 1 \<longleftrightarrow> Suc (unat x) = unat y" if "x < y" for x y :: u32
proof -
  have y: "0 < unat y" using that by (simp add: word_less_nat_alt)
  then have "y \<noteq> 0" by auto
  then have "unat (y - 1) = unat y - 1" by (rule unat_minus_one)
  with y show ?thesis unfolding word_unat_eq_iff by linarith
qed

lemma u32_succ_below: "unat (x + 1) = Suc (unat x)" if "x < y" for x y :: u32
proof -
  have "unat x < unat y" using that by (simp add: word_less_nat_alt)
  with unat_u32_bound [of y] have "Suc (unat x) < 4294967296" by linarith
  then show ?thesis using unat_plus_nowrap [of x 1] by simp
qed

lemma ring_store_single: "w < length xs \<Longrightarrow> ring_store xs w [d] = xs[w := d]"
  by (simp add: ring_store_linear splice_at_def upd_conv_take_nth_drop)

lemma rb_write_byte_spec:
  assumes "rb_wf rb"
  shows "if length (rb_bytes rb) < unat (rb_size rb)
    then \<exists>g. Ring_Buffer_Write_Byte rb d = (1, g) \<and> rb_wf g \<and> rb_bytes g = rb_bytes rb @ [d] \<and>
      rb_size g = rb_size rb
    else Ring_Buffer_Write_Byte rb d = (0, rb)"
proof (cases "Ring_Buffer_Get_Empty_Length rb = 0")
  case True
  then show ?thesis using rb_geometry(6) [OF assms refl refl refl refl]
    by (simp add: Ring_Buffer_Write_Byte_def)
next
  case False
  let ?g = "snd (Ring_Buffer_Write_Byte rb d)"
  note geo = rb_geometry [OF assms refl refl refl refl]
  have room: "0 < unat (Ring_Buffer_Get_Empty_Length rb)" using False by (simp add: unat_gt_0)
  have w: "writeIndex rb < rb_size rb" using assms by (simp add: rb_wf_def)
  have g: "Ring_Buffer_Write_Byte rb d = (1, ?g)" using False by (simp add: Ring_Buffer_Write_Byte_def Let_def)
  have "rb_wf ?g \<and> rb_bytes ?g = rb_bytes rb @ [d]"
    using rb_stored [OF assms, of "[d]" ?g] room geo(1,3) False u32_is_last [OF w] u32_succ_below [OF w]
    by (auto simp: Ring_Buffer_Write_Byte_def Let_def ring_store_single)
  moreover have "rb_size ?g = rb_size rb" by (simp add: Ring_Buffer_Write_Byte_def Let_def)
  ultimately show ?thesis using g room geo(6) by auto
qed

section \<open>Reads\<close>

lemma rb_advanced:
  assumes "rb_wf rb" "n \<le> unat (Ring_Buffer_Get_Length rb)"
    "pointer g = pointer rb" "rb_size g = rb_size rb"
    "writeIndex g = writeIndex rb" "writeMirror g = writeMirror rb"
    "unat (readIndex g) = (unat (readIndex rb) + n) mod unat (rb_size rb)"
    "readMirror g = (if unat (readIndex rb) + n < unat (rb_size rb) then readMirror rb
       else NOT (readMirror rb))"
  shows "rb_wf g \<and> rb_bytes g = drop n (rb_bytes rb)"
proof -
  let ?R = "unat (readIndex rb)" and ?W = "unat (writeIndex rb)" and ?S = "unat (rb_size rb)"
    and ?L = "unat (Ring_Buffer_Get_Length rb)"
  note geo = rb_geometry [OF assms(1) refl refl refl refl]
  have r: "unat (readIndex g) = (if ?R + n < ?S then ?R + n else ?R + n - ?S)"
    using assms(2,7) geo(2,4) by (simp add: le_mod_geq)
  have wi: "unat (writeIndex g) = (unat (readIndex g) + (?L - n)) mod unat (rb_size g)"
    using r assms(2,4,5) geo(2,3,4,10) by (auto simp: le_mod_geq)
  have wm: "writeMirror g = (if unat (readIndex g) + (?L - n) < unat (rb_size g) then readMirror g
      else NOT (readMirror g))"
    using r assms(2,4,6,8) geo(2,4,11) by (auto split: if_splits)
  have "length (pointer g) = unat (rb_size g)" "unat (readIndex g) < unat (rb_size g)"
    "?L - n \<le> unat (rb_size g)"
    using assms(2-4) geo(1,2,4) r by auto
  note g = rb_wfI [OF this refl wi wm]
  have "ring_slice (pointer rb) (unat (readIndex g)) m = ring_slice (pointer rb) (?R + n) m" for m
    by (rule ring_slice_cong_mod) (simp add: assms(7) geo(1))
  then show ?thesis using g assms(3) by (simp add: rb_bytes_def [of rb] drop_ring_slice)
qed

lemma rb_read_spec:
  assumes "rb_wf rb" "min (unat len) (length (rb_bytes rb)) \<le> length dest"
  shows "\<exists>n g. Ring_Buffer_Read rb dest len =
      (n, g, take (unat n) (rb_bytes rb) @ drop (unat n) dest) \<and>
    unat n = min (unat len) (length (rb_bytes rb)) \<and>
    rb_wf g \<and> rb_bytes g = drop (unat n) (rb_bytes rb) \<and> rb_size g = rb_size rb"
proof (cases "Ring_Buffer_Get_Length rb = 0")
  case True
  then show ?thesis using assms(1)
    by (intro exI [of _ 0] exI [of _ rb])
       (simp add: Ring_Buffer_Read_def Ring_Buffer_Read_Callback_def Let_def)
next
  case False
  let ?L = "Ring_Buffer_Get_Length rb"
  let ?R = "unat (readIndex rb)" and ?S = "unat (rb_size rb)"
  define n where "n = (if ?L < len then ?L else len)"
  note geo = rb_geometry [OF assms(1) refl refl refl refl]
  have n: "unat n = min (unat len) (unat ?L)"
    by (simp add: n_def word_less_nat_alt min_def)
  have nS: "unat n \<le> ?S" "unat n \<le> unat ?L" "unat n \<le> length dest"
    using n geo(4) assms(2) by simp_all
  have parts: "take (unat n) (drop ?R (pointer rb)) @ take (unat n - (?S - ?R)) (pointer rb) =
      take (unat n) (rb_bytes rb)"
    using ring_slice_two_parts [of ?R "pointer rb" "unat n"] geo(1,2) nS
    by (simp add: rb_bytes_def take_ring_slice)
  show ?thesis
  proof (cases "rb_size rb - readIndex rb > n")
    case True
    then have lt: "?R + unat n < ?S" using geo(2,8) by (simp add: word_less_nat_alt)
    let ?g = "rb\<lparr>readIndex := readIndex rb + n\<rparr>"
    have "unat (readIndex rb + n) = ?R + unat n" using lt by (rule u32_plus_below)
    then have "rb_wf ?g \<and> rb_bytes ?g = drop (unat n) (rb_bytes rb)"
      using rb_advanced [OF assms(1) nS(2), of ?g] lt by simp
    moreover have "Ring_Buffer_Read rb dest len =
        (n, ?g, take (unat n) (rb_bytes rb) @ drop (unat n) dest)"
      using False True lt geo(1) nS parts
      by (simp add: Ring_Buffer_Read_def Ring_Buffer_Read_Callback_def Ring_Buffer_Read_Copy_def
          Let_def splice_at_def flip: n_def)
    ultimately show ?thesis using n by (intro exI [of _ n] exI [of _ ?g]) simp
  next
    case False2: False
    let ?K = "rb_size rb - readIndex rb"
    have le: "unat ?K \<le> unat n" using False2 by (simp add: word_less_nat_alt)
    have sub: "unat (n - ?K) = unat n - unat ?K" using le by (simp add: unat_sub word_le_nat_alt)
    let ?g = "rb\<lparr>readIndex := n - ?K, readMirror := NOT (readMirror rb)\<rparr>"
    have "unat (n - ?K) = (?R + unat n) mod ?S"
      using le geo(2,8) nS(1) by (simp add: sub le_mod_geq)
    then have "rb_wf ?g \<and> rb_bytes ?g = drop (unat n) (rb_bytes rb)"
      using rb_advanced [OF assms(1) nS(2), of ?g] le geo(2,8) by simp
    moreover have "Ring_Buffer_Read rb dest len =
        (n, ?g, take (unat n) (rb_bytes rb) @ drop (unat n) dest)"
      using False False2 le sub geo(1,2,8) nS parts
      by (simp add: Ring_Buffer_Read_def Ring_Buffer_Read_Callback_def Ring_Buffer_Read_Copy_def
          Let_def splice_at_def flip: n_def)
    ultimately show ?thesis using n by (intro exI [of _ n] exI [of _ ?g]) simp
  qed
qed

lemma rb_peek_spec:
  assumes "rb_wf rb" "min (unat len) (length (rb_bytes rb)) \<le> length dest"
  shows "\<exists>n. Ring_Buffer_Peek rb dest len = (n, take (unat n) (rb_bytes rb) @ drop (unat n) dest) \<and>
    unat n = min (unat len) (length (rb_bytes rb))"
proof (cases "Ring_Buffer_Get_Length rb = 0")
  case True
  then show ?thesis by (intro exI [of _ 0]) (simp add: Ring_Buffer_Peek_def Let_def)
next
  case False
  let ?L = "Ring_Buffer_Get_Length rb" and ?R = "unat (readIndex rb)" and ?S = "unat (rb_size rb)"
  define n where "n = (if ?L < len then ?L else len)"
  note geo = rb_geometry [OF assms(1) refl refl refl refl]
  have n: "unat n = min (unat len) (unat ?L)"
    by (simp add: n_def word_less_nat_alt min_def)
  have nS: "unat n \<le> ?S" "unat n \<le> length dest" "min (unat ?L) (unat n) = unat n"
    using n geo(4) assms(2) by simp_all
  have parts: "take (unat n) (drop ?R (pointer rb)) @ take (unat n - (?S - ?R)) (pointer rb) =
      take (unat n) (rb_bytes rb)"
    using ring_slice_two_parts [of ?R "pointer rb" "unat n"] geo(1,2) nS n
    by (simp add: rb_bytes_def take_ring_slice)
  show ?thesis
  proof (cases "rb_size rb - readIndex rb > n")
    case True
    then have lt: "?R + unat n < ?S" using geo(2,8) by (simp add: word_less_nat_alt)
    then have "Ring_Buffer_Peek rb dest len = (n, take (unat n) (rb_bytes rb) @ drop (unat n) dest)"
      using False True geo(1) parts nS(3)
      by (simp add: Ring_Buffer_Peek_def Let_def splice_at_def flip: n_def)
    with n show ?thesis by (intro exI [of _ n]) simp
  next
    case False2: False
    let ?K = "rb_size rb - readIndex rb"
    have le: "unat ?K \<le> unat n" using False2 by (simp add: word_less_nat_alt)
    have sub: "unat (n - ?K) = unat n - unat ?K" using le by (simp add: unat_sub word_le_nat_alt)
    have "Ring_Buffer_Peek rb dest len = (n, take (unat n) (rb_bytes rb) @ drop (unat n) dest)"
      using False False2 le sub geo(1,2,8) nS parts
      by (simp add: Ring_Buffer_Peek_def Let_def splice_at_def flip: n_def)
    with n show ?thesis by (intro exI [of _ n]) simp
  qed
qed

lemma rb_read_byte_spec:
  assumes "rb_wf rb"
  shows "case rb_bytes rb of
      [] \<Rightarrow> Ring_Buffer_Read_Byte rb d = (0, rb, d) \<and> Ring_Buffer_Peek_Byte rb d = (0, d)
    | x # xs \<Rightarrow> \<exists>g. Ring_Buffer_Read_Byte rb d = (1, g, x) \<and> Ring_Buffer_Peek_Byte rb d = (1, x) \<and>
        rb_wf g \<and> rb_bytes g = xs \<and> rb_size g = rb_size rb"
proof (cases "Ring_Buffer_Get_Length rb = 0")
  case True
  then show ?thesis
    by (simp add: rb_bytes_def Ring_Buffer_Read_Byte_def Ring_Buffer_Peek_Byte_def)
next
  case False
  let ?g = "fst (snd (Ring_Buffer_Read_Byte rb d))"
  note geo = rb_geometry [OF assms refl refl refl refl]
  have pos: "1 \<le> unat (Ring_Buffer_Get_Length rb)" using False by (simp add: Suc_le_eq unat_gt_0)
  have r: "readIndex rb < rb_size rb" using assms by (simp add: rb_wf_def)
  have b: "rb_bytes rb = pointer rb ! unat (readIndex rb) # drop 1 (rb_bytes rb)"
    using pos geo(1,2) by (cases "unat (Ring_Buffer_Get_Length rb)")
      (simp_all add: rb_bytes_def ring_slice_Suc)
  have "rb_wf ?g \<and> rb_bytes ?g = drop 1 (rb_bytes rb)"
    using rb_advanced [OF assms pos, of ?g] False geo(2) u32_is_last [OF r] u32_succ_below [OF r]
    by (auto simp: Ring_Buffer_Read_Byte_def)
  moreover have "rb_size ?g = rb_size rb" by (simp add: Ring_Buffer_Read_Byte_def)
  moreover have "Ring_Buffer_Read_Byte rb d = (1, ?g, pointer rb ! unat (readIndex rb))"
    "Ring_Buffer_Peek_Byte rb d = (1, pointer rb ! unat (readIndex rb))"
    using False by (simp_all add: Ring_Buffer_Read_Byte_def Ring_Buffer_Peek_Byte_def)
  ultimately show ?thesis by (subst b) auto
qed

section \<open>Forced writes\<close>

lemma ring_slice_overwrite:
  assumes "b < length xs" "n \<le> length xs" "length ys \<le> length xs" "length xs \<le> n + length ys"
    "w = (b + n) mod length xs"
  shows "ring_slice (ring_store xs w ys) (w + length ys) (length xs) =
    drop (n + length ys - length xs) (ring_slice xs b n @ ys)"
proof -
  let ?N = "length xs" and ?k = "n + length ys - length xs"
  have N: "0 < ?N" using assms(1) by linarith
  let ?c = "(b + ?k) mod ?N"
  have c: "?c < ?N" using N by simp
  have "(?c + (?N - length ys)) mod ?N = (b + ?k + (?N - length ys)) mod ?N"
    by (simp add: mod_add_left_eq)
  also have "b + ?k + (?N - length ys) = b + n" using assms(3,4) by simp
  finally have w: "w = (?c + (?N - length ys)) mod ?N" using assms(5) by simp
  have "(w + length ys) mod ?N = (?c + ?N) mod ?N"
    using assms(3) by (simp add: w mod_add_left_eq add.assoc)
  then have start: "(w + length ys) mod ?N = ?c mod ?N" by simp
  have wN: "w \<le> ?N" using N assms(5) by (simp add: less_imp_le)
  have "ring_slice (ring_store xs w ys) (w + length ys) ?N = ring_slice (ring_store xs w ys) ?c ?N"
    using wN assms(3) start by (intro ring_slice_cong_mod) simp
  also have "\<dots> = ring_slice xs ?c (?N - length ys) @ ys"
    using ring_slice_store [OF c _ w, of ys] assms(3) by simp
  also have "ring_slice xs ?c (?N - length ys) = drop ?k (ring_slice xs b n)"
    using assms(3,4) by (simp add: drop_ring_slice)
  finally show ?thesis using assms(3) by simp
qed

lemma rb_forced:
  assumes "rb_wf rb" "length ys \<le> unat (rb_size rb)"
    "unat (Ring_Buffer_Get_Empty_Length rb) < length ys"
    "pointer g = ring_store (pointer rb) (unat (writeIndex rb)) ys" "rb_size g = rb_size rb"
    "unat (writeIndex g) = (unat (writeIndex rb) + length ys) mod unat (rb_size rb)"
    "readIndex g = writeIndex g"
    "if unat (writeIndex rb) + length ys < unat (rb_size rb)
     then writeMirror g = writeMirror rb \<and> readMirror g = readMirror rb
     else writeMirror g = NOT (writeMirror rb) \<and> readMirror g = NOT (readMirror rb)"
  shows "rb_wf g \<and> rb_bytes g =
    (if readMirror rb = writeMirror rb then []
     else drop (length (rb_bytes rb) + length ys - unat (rb_size rb)) (rb_bytes rb @ ys))"
proof -
  let ?R = "unat (readIndex rb)" and ?W = "unat (writeIndex rb)" and ?S = "unat (rb_size rb)"
    and ?L = "unat (Ring_Buffer_Get_Length rb)"
  note geo = rb_geometry [OF assms(1) refl refl refl refl]
  have ov: "?S < ?L + length ys" using assms(3) geo(4,6) by simp
  have len: "length (pointer g) = unat (rb_size g)"
    using assms(2,4,5) geo(1,3) by simp
  have lt: "unat (writeIndex g) < ?S" using assms(6) geo(3) by simp
  have mir: "readMirror g = writeMirror g \<longleftrightarrow> readMirror rb = writeMirror rb"
    "readMirror rb \<noteq> writeMirror rb \<Longrightarrow> writeMirror g = NOT (readMirror g)"
    using assms(8) geo(9,11) by (auto split: if_splits)
  show ?thesis
  proof (cases "readMirror rb = writeMirror rb")
    case True
    with mir(1) have "rb_wf g" using len lt assms(5,7)
      by (simp add: rb_wf_def word_less_nat_alt)
    moreover have "rb_bytes g = []"
      using True mir(1) assms(7) by (simp add: rb_bytes_def Ring_Buffer_Get_Length_def)
    ultimately show ?thesis using True by simp
  next
    case False
    have wi: "unat (writeIndex g) = (unat (readIndex g) + ?S) mod unat (rb_size g)"
      using assms(5,7) lt by simp
    have wm: "writeMirror g = (if unat (readIndex g) + ?S < unat (rb_size g) then readMirror g
        else NOT (readMirror g))"
      using mir(2) [OF False] assms(5) by simp
    note g = rb_wfI [OF len _ _ refl wi wm]
    have "ring_slice (pointer g) (unat (writeIndex g)) ?S =
        ring_slice (pointer g) (?W + length ys) ?S"
      by (rule ring_slice_cong_mod) (simp add: len assms(5,6))
    also have "\<dots> = drop (?L + length ys - ?S) (rb_bytes rb @ ys)"
      using ring_slice_overwrite [of ?R "pointer rb" ?L ys ?W] assms(2,4) geo(1,2,4,5) ov
      by (simp add: rb_bytes_def)
    finally show ?thesis using g False lt assms(5,7) by simp
  qed
qed

lemma rb_write_force_spec:
  assumes "rb_wf rb" "length data = unat len"
  shows "\<exists>g. Ring_Buffer_Write_Force rb data len = (min len (rb_size rb), g) \<and> rb_wf g \<and>
    rb_bytes g = (if readMirror rb = writeMirror rb \<and> rb_bytes rb \<noteq> [] \<and>
        unat (rb_size rb) < length (rb_bytes rb) + length data then []
      else drop (length (rb_bytes rb) + length data - unat (rb_size rb)) (rb_bytes rb @ data))"
proof -
  let ?W = "unat (writeIndex rb)" and ?S = "unat (rb_size rb)" and ?E = "Ring_Buffer_Get_Empty_Length rb"
    and ?L = "unat (Ring_Buffer_Get_Length rb)" and ?K = "rb_size rb - writeIndex rb"
  note geo = rb_geometry [OF assms(1) refl refl refl refl]
  define n where "n = min len (rb_size rb)"
  define ys where "ys = drop (unat (len - n)) data"
  have n: "unat n = min (unat len) ?S" by (simp add: n_def min_def word_le_nat_alt)
  have dl: "unat (len - n) = unat len - unat n"
    by (simp add: n_def unat_sub)
  have ys: "length ys = unat n" using assms(2) n dl by (simp add: ys_def)
  have nd: "(if len > rb_size rb then (drop (unat (len - rb_size rb)) data, rb_size rb)
      else (data, len)) = (ys, n)"
    by (auto simp: ys_def n_def min_def)
  define g where "g = snd (Ring_Buffer_Write_Force rb data len)"
  define rw where "rw = Ring_Buffer_Write_Force rb data len"
  have kn: "?K > n \<longleftrightarrow> ?W + unat n < ?S" using geo(3,7) by (auto simp: word_less_nat_alt)
  have en: "n > ?E \<longleftrightarrow> unat ?E < length ys" by (simp add: word_less_nat_alt ys)
  have up: "unat (writeIndex rb + n) = ?W + unat n" if "?W + unat n < ?S"
    using that by (rule u32_plus_below)
  have sub: "unat (n - ?K) = ?W + unat n - ?S" if "\<not> ?W + unat n < ?S"
    using that geo(3,7) by (simp add: unat_sub word_le_nat_alt)
  have nS: "unat n \<le> ?S" using n by simp
  have wi: "unat (writeIndex g) = (?W + length ys) mod ?S"
    using up sub nS geo(3) by (simp add: g_def Ring_Buffer_Write_Force_def nd Let_def kn ys le_mod_geq)
  have "splice_at (splice_at (pointer rb) ?W (take (unat ?K) ys)) 0
      (take (unat (n - ?K)) (drop (unat ?K) ys)) = ring_store (pointer rb) ?W ys"
    if "\<not> ?W + unat n < ?S"
    using that sub geo(1,3,7) by (simp add: ring_store_def ys)
  then have pt: "pointer g = ring_store (pointer rb) ?W ys"
    using geo(1) by (simp add: g_def Ring_Buffer_Write_Force_def nd Let_def kn ring_store_linear ys)
  have sz: "rb_size g = rb_size rb" and
    mir: "if ?W + length ys < ?S then writeMirror g = writeMirror rb \<and> readMirror g = readMirror rb
      else writeMirror g = NOT (writeMirror rb) \<and>
        readMirror g = (if unat ?E < length ys then NOT (readMirror rb) else readMirror rb)" and
    ri: "readIndex g = (if unat ?E < length ys then writeIndex g else readIndex rb)"
    by (simp_all add: g_def Ring_Buffer_Write_Force_def nd Let_def kn ys en)
  have fst: "fst (Ring_Buffer_Write_Force rb data len) = n"
    by (simp add: Ring_Buffer_Write_Force_def nd Let_def)
  have tail: "drop (?L + length ys - ?S) (rb_bytes rb @ ys) =
      drop (?L + length data - ?S) (rb_bytes rb @ data)"
    using assms(2) n dl geo(4) ys by (auto simp: ys_def min_def)
  have nil: "rb_bytes rb = [] \<longleftrightarrow> ?L = 0" by (metis length_0_conv length_rb_bytes)
  have "rb_wf g \<and> rb_bytes g = (if readMirror rb = writeMirror rb \<and> rb_bytes rb \<noteq> [] \<and>
        ?S < length (rb_bytes rb) + length data then []
      else drop (length (rb_bytes rb) + length data - ?S) (rb_bytes rb @ data))"
  proof (cases "unat ?E < length ys")
    case True
    then have "?S < ?L + length data" "rb_bytes rb \<noteq> []"
      using geo(4,6) ys n assms(2) by (auto simp: nil)
    with rb_forced [OF assms(1) _ True pt sz wi] ys nS mir ri True tail show ?thesis
      by (simp split: if_splits)
  next
    case False
    have no1: "?L + length ys \<le> ?S" using False geo(4,6) by simp
    have no2: "ys = data" if "rb_bytes rb \<noteq> []"
    proof -
      have "unat n < ?S" using that no1 ys by (simp add: nil)
      then have "unat n = unat len" using n by simp
      then show ?thesis using dl by (simp add: ys_def)
    qed
    have le: "length ys \<le> unat ?E" using False by simp
    have "rb_wf g \<and> rb_bytes g = rb_bytes rb @ ys"
      using rb_stored [OF assms(1) le pt sz _ _ wi] False mir ri by (simp split: if_splits)
    then show ?thesis using no1 no2 nil tail by (cases "rb_bytes rb = []") auto
  qed
  then show ?thesis using fst by (auto simp: g_def n_def intro!: exI [of _ g] prod_eqI)
qed

lemma rb_write_byte_force_spec:
  assumes "rb_wf rb"
  shows "\<exists>g. Ring_Buffer_Write_Byte_Force rb d = (1, g) \<and> rb_wf g \<and>
    rb_bytes g = drop (Suc (length (rb_bytes rb)) - unat (rb_size rb)) (rb_bytes rb @ [d])"
proof -
  let ?L = "unat (Ring_Buffer_Get_Length rb)" and ?S = "unat (rb_size rb)"
  let ?g = "snd (Ring_Buffer_Write_Byte_Force rb d)"
  note geo = rb_geometry [OF assms refl refl refl refl]
  have w: "writeIndex rb < rb_size rb" using assms by (simp add: rb_wf_def)
  have full: "Ring_Buffer_Get_Status rb = RING_BUFFER_FULL \<longleftrightarrow> ?L = ?S"
    using geo(2,4,9,10) by (auto simp: Ring_Buffer_Get_Status_def word_unat_eq_iff)
  have one: "Ring_Buffer_Write_Byte_Force rb d = (1, ?g)"
    by (simp add: Ring_Buffer_Write_Byte_Force_def Let_def)
  have pt: "pointer ?g = ring_store (pointer rb) (unat (writeIndex rb)) [d]"
    and sz: "rb_size ?g = rb_size rb"
    and wi: "unat (writeIndex ?g) = (unat (writeIndex rb) + length [d]) mod ?S"
    and mir: "if unat (writeIndex rb) + length [d] < ?S
      then writeMirror ?g = writeMirror rb \<and> readMirror ?g = readMirror rb
      else writeMirror ?g = NOT (writeMirror rb) \<and>
        readMirror ?g = (if ?L = ?S then NOT (readMirror rb) else readMirror rb)"
    and ri: "readIndex ?g = (if ?L = ?S then writeIndex ?g else readIndex rb)"
    using geo(1,3) u32_is_last [OF w] u32_succ_below [OF w]
    by (auto simp: Ring_Buffer_Write_Byte_Force_def Let_def ring_store_single full)
  have "rb_wf ?g \<and> rb_bytes ?g = drop (Suc (length (rb_bytes rb)) - ?S) (rb_bytes rb @ [d])"
  proof (cases "?L = ?S")
    case True
    then show ?thesis using rb_forced [OF assms _ _ pt sz wi] geo(2,3,6,9) mir ri
      by (simp split: if_splits)
  next
    case False
    then have "length [d] \<le> unat (Ring_Buffer_Get_Empty_Length rb)" using geo(4,6) by simp
    then show ?thesis using rb_stored [OF assms _ pt sz _ _ wi] False geo(4) mir ri
      by (simp split: if_splits)
  qed
  with one show ?thesis by blast
qed

section \<open>The buffer as a byte stream\<close>

definition rb_wr :: "Ring_Buffer_Type \<Rightarrow> u8 list \<Rightarrow> nat \<times> Ring_Buffer_Type" where
  "rb_wr rb xs = (let (n, g) = Ring_Buffer_Write rb xs (of_nat (length xs)) in (unat n, g))"

definition rb_rd :: "Ring_Buffer_Type \<Rightarrow> nat \<Rightarrow> u8 list \<times> Ring_Buffer_Type" where
  "rb_rd rb n =
     (let (m, g, ys) = Ring_Buffer_Read rb (replicate n 0) (of_nat n) in (take (unat m) ys, g))"

lemma rb_wr_spec:
  assumes "rb_wf rb" "length xs \<le> 4294967295"
  shows "\<exists>g. rb_wr rb xs = (min (length xs) (unat (rb_size rb) - length (rb_bytes rb)), g) \<and>
    rb_wf g \<and> rb_size g = rb_size rb \<and>
    rb_bytes g = rb_bytes rb @ take (unat (rb_size rb) - length (rb_bytes rb)) xs"
proof -
  have l: "unat (of_nat (length xs) :: u32) = length xs"
    using assms(2) by (simp add: unat_of_nat_small)
  obtain n g where "Ring_Buffer_Write rb xs (of_nat (length xs)) = (n, g)"
    "unat n = min (length xs) (unat (rb_size rb) - length (rb_bytes rb))"
    "rb_wf g" "rb_bytes g = rb_bytes rb @ take (unat n) xs" "rb_size g = rb_size rb"
    using rb_write_spec [OF assms(1), of "of_nat (length xs)" xs] l by auto
  then show ?thesis by (auto simp: rb_wr_def min_def)
qed

lemma rb_rd_spec:
  assumes "rb_wf rb" "n \<le> 4294967295"
  shows "\<exists>g. rb_rd rb n = (take n (rb_bytes rb), g) \<and> rb_wf g \<and>
    rb_bytes g = drop n (rb_bytes rb) \<and> rb_size g = rb_size rb"
proof -
  have l: "unat (of_nat n :: u32) = n"
    using assms(2) by (simp add: unat_of_nat_small)
  obtain m g where "Ring_Buffer_Read rb (replicate n 0) (of_nat n) =
      (m, g, take (unat m) (rb_bytes rb) @ drop (unat m) (replicate n 0))"
    "unat m = min n (length (rb_bytes rb))" "rb_wf g"
    "rb_bytes g = drop (unat m) (rb_bytes rb)" "rb_size g = rb_size rb"
    using rb_read_spec [OF assms(1), of "of_nat n" "replicate n 0"] l by auto
  then show ?thesis by (auto simp: rb_rd_def min_def)
qed

interpretation rb: byte_fifo rb_wr rb_rd rb_bytes rb_wf "\<lambda>rb. unat (rb_size rb)" 4294967295
proof unfold_locales
  fix q :: Ring_Buffer_Type and xs :: "u8 list"
  assume q: "rb_wf q" "length xs \<le> 4294967295"
  note w = rb_wr_spec [OF q]
  show "fst (rb_wr q xs) \<le> length xs" using w by auto
  show "rb_bytes (snd (rb_wr q xs)) = rb_bytes q @ take (fst (rb_wr q xs)) xs"
    using w by (auto simp: min_def)
  show "fst (rb_wr q xs) = length xs" if "length (rb_bytes q) + length xs \<le> unat (rb_size q)"
    using w that by auto
  show "rb_wf (snd (rb_wr q xs))" using w by auto
  show "unat (rb_size (snd (rb_wr q xs))) = unat (rb_size q)" using w by auto
next
  fix q :: Ring_Buffer_Type and n :: nat
  assume q: "rb_wf q" "n \<le> 4294967295"
  note r = rb_rd_spec [OF q]
  show "fst (rb_rd q n) = take n (rb_bytes q)" using r by auto
  show "rb_bytes (snd (rb_rd q n)) = drop n (rb_bytes q)" using r by auto
  show "rb_wf (snd (rb_rd q n))" using r by auto
  show "unat (rb_size (snd (rb_rd q n))) = unat (rb_size q)" using r by auto
next
  fix q :: Ring_Buffer_Type
  assume "rb_wf q"
  then show "length (rb_bytes q) \<le> unat (rb_size q)"
    using rb_geometry(4) [of q] by simp
qed

section \<open>Properties\<close>

text \<open>
  \<open>Ring_Buffer_Write\<close> appends as many of the offered bytes as there is room for, returns
  their number, and keeps the buffer well-formed; it is a prefix write, so a block that does not
  fit is cut, not refused.
\<close>

theorem Ring_Buffer_Write_refines:
  assumes "rb_wf rb" "unat len \<le> length data"
  shows "\<exists>n g. Ring_Buffer_Write rb data len = (n, g) \<and>
    unat n = min (unat len) (unat (rb_size rb) - length (rb_bytes rb)) \<and>
    rb_wf g \<and> rb_bytes g = rb_bytes rb @ take (unat n) data \<and> rb_size g = rb_size rb"
  by (rule rb_write_spec [OF assms])

abbreviation rb_example :: Ring_Buffer_Type where
  "rb_example \<equiv> \<lparr>pointer = [3, 4, 1, 2], readMirror = 0, readIndex = 2, writeMirror = 255,
     writeIndex = 1, rb_size = 4\<rparr>"

theorem Ring_Buffer_Write_refines_witness:
  "\<exists>g. Ring_Buffer_Write rb_example [7, 8] 2 = (1, g) \<and> rb_bytes g = [1, 2, 3, 7]"
proof -
  have w: "rb_wf rb_example" by (simp add: rb_wf_def)
  have b: "rb_bytes rb_example = [1, 2, 3]"
    by (simp add: rb_bytes_def Ring_Buffer_Get_Length_def ring_slice_def upt_rec)
  from Ring_Buffer_Write_refines [OF w, of 2 "[7, 8]"]
  obtain n g where "Ring_Buffer_Write rb_example [7, 8] 2 = (n, g)" "unat n = 1"
    "rb_bytes g = [1, 2, 3, 7]" by (auto simp: b)
  moreover from this(2) have "n = 1" by (simp add: word_unat_eq_iff)
  ultimately show ?thesis by auto
qed

text \<open>
  \<open>Ring_Buffer_Read\<close> moves the oldest bytes, at most as many as asked for, into the caller's
  buffer and removes them; \<open>Ring_Buffer_Peek\<close> hands out the same bytes without removing them.
\<close>

theorem Ring_Buffer_Read_refines:
  assumes "rb_wf rb" "min (unat len) (length (rb_bytes rb)) \<le> length dest"
  shows "\<exists>n g. unat n = min (unat len) (length (rb_bytes rb)) \<and>
    Ring_Buffer_Read rb dest len = (n, g, take (unat n) (rb_bytes rb) @ drop (unat n) dest) \<and>
    Ring_Buffer_Peek rb dest len = (n, take (unat n) (rb_bytes rb) @ drop (unat n) dest) \<and>
    rb_wf g \<and> rb_bytes g = drop (unat n) (rb_bytes rb) \<and> rb_size g = rb_size rb"
  using rb_read_spec [OF assms] rb_peek_spec [OF assms] by (metis word_unat_eq_iff)

theorem Ring_Buffer_Read_refines_witness:
  "\<exists>g. Ring_Buffer_Read rb_example [9, 9, 9] 2 = (2, g, [1, 2, 9]) \<and> rb_bytes g = [3]"
proof -
  have w: "rb_wf rb_example" by (simp add: rb_wf_def)
  have b: "rb_bytes rb_example = [1, 2, 3]"
    by (simp add: rb_bytes_def Ring_Buffer_Get_Length_def ring_slice_def upt_rec)
  from Ring_Buffer_Read_refines [OF w, of 2 "[9, 9, 9]"]
  obtain n g where "Ring_Buffer_Read rb_example [9, 9, 9] 2 = (n, g, [1, 2, 9])" "unat n = 2"
    "rb_bytes g = [3]" by (auto simp: b)
  moreover from this(2) have "n = 2" by (simp add: word_unat_eq_iff)
  ultimately show ?thesis by auto
qed

text \<open>
  C22: Stream integrity of the BL702 ring buffer: over any interleaving of writes and reads, the
  bytes handed out followed by the bytes still stored are the initial bytes followed by the
  accepted ones, in order.
\<close>

theorem Ring_Buffer_stream:
  assumes "rb_wf rb" "ops_within 4294967295 os" "fifo_run rb_wr rb_rd rb os = (ins, outs, g)"
  shows "rb_bytes rb @ ins = outs @ rb_bytes g \<and> rb_wf g"
  using rb.run_stream [OF assms] by simp

theorem Ring_Buffer_stream_witness:
  "fst (fifo_run rb_wr rb_rd (Ring_Buffer_Init [0,0,0,0] 4) [Wr [1,2,3], Rd 2, Wr [4,5,6,7]]) =
    [1,2,3,4,5,6] \<and>
   (\<exists>g. rb_bytes g = [3,4,5,6])"
proof -
  let ?i = "Ring_Buffer_Init [0,0,0,0] 4" and ?os = "[Wr [1,2,3], Rd 2, Wr [4,5,6,7]]"
  have i: "rb_wf ?i" "rb_bytes ?i = []"
    by (simp_all add: Ring_Buffer_Init_def rb_wf_def rb_bytes_def Ring_Buffer_Get_Length_def)
  obtain ins outs g where r: "fifo_run rb_wr rb_rd ?i ?os = (ins, outs, g)"
    by (cases "fifo_run rb_wr rb_rd ?i ?os")
  have v: "(case fifo_run rb_wr rb_rd ?i ?os of (ins, outs, g) \<Rightarrow> (ins, outs)) =
    ([1,2,3,4,5,6], [1,2])" by code_simp
  have "ops_within 4294967295 ?os" by simp
  from Ring_Buffer_stream [OF i(1) this r] v i(2) r show ?thesis by auto
qed

text \<open>
  What \<open>Ring_Buffer_Write_Force\<close> leaves in the buffer. In general the last \<open>size\<close> bytes of
  the old content followed by the new data, as documented; but when the stored bytes do not wrap
  (equal mirrors), are not empty and the data overflows the buffer, both mirrors flip together and
  the buffer is left empty: the old and the new bytes are lost.
\<close>

theorem Ring_Buffer_Write_Force_effect:
  assumes "rb_wf rb" "length data = unat len"
  shows "\<exists>g. Ring_Buffer_Write_Force rb data len = (min len (rb_size rb), g) \<and> rb_wf g \<and>
    rb_bytes g = (if readMirror rb = writeMirror rb \<and> rb_bytes rb \<noteq> [] \<and>
        unat (rb_size rb) < length (rb_bytes rb) + length data then []
      else drop (length (rb_bytes rb) + length data - unat (rb_size rb)) (rb_bytes rb @ data))"
  by (rule rb_write_force_spec [OF assms])

theorem Ring_Buffer_Write_Force_effect_witness:
  "\<exists>g. Ring_Buffer_Write_Force \<lparr>pointer = [1, 2, 0, 0], readMirror = 0, readIndex = 0,
      writeMirror = 0, writeIndex = 2, rb_size = 4\<rparr> [7, 8, 9] 3 = (3, g) \<and> rb_bytes g = []"
proof -
  let ?r = "\<lparr>pointer = [1, 2, 0, 0], readMirror = 0, readIndex = 0, writeMirror = 0,
    writeIndex = 2, rb_size = 4\<rparr> :: Ring_Buffer_Type"
  have w: "rb_wf ?r" by (simp add: rb_wf_def)
  have b: "rb_bytes ?r = [1, 2]"
    by (simp add: rb_bytes_def Ring_Buffer_Get_Length_def ring_slice_def upt_rec)
  show ?thesis using Ring_Buffer_Write_Force_effect [OF w, of "[7, 8, 9]" 3]
    by (auto simp: b min_def)
qed

text \<open>
  The one-byte forced write never loses more than the oldest byte: the buffer holds the last
  \<open>size\<close> bytes of its old content followed by the new byte.
\<close>

theorem Ring_Buffer_Write_Byte_Force_effect:
  assumes "rb_wf rb"
  shows "\<exists>g. Ring_Buffer_Write_Byte_Force rb d = (1, g) \<and> rb_wf g \<and>
    rb_bytes g = drop (Suc (length (rb_bytes rb)) - unat (rb_size rb)) (rb_bytes rb @ [d])"
  by (rule rb_write_byte_force_spec [OF assms])

theorem Ring_Buffer_Write_Byte_Force_effect_witness:
  "\<exists>g. Ring_Buffer_Write_Byte_Force \<lparr>pointer = [3, 4, 1, 2], readMirror = 0, readIndex = 2,
      writeMirror = 255, writeIndex = 2, rb_size = 4\<rparr> 5 = (1, g) \<and> rb_bytes g = [2, 3, 4, 5]"
proof -
  let ?r = "\<lparr>pointer = [3, 4, 1, 2], readMirror = 0, readIndex = 2, writeMirror = 255,
    writeIndex = 2, rb_size = 4\<rparr> :: Ring_Buffer_Type"
  have w: "rb_wf ?r" by (simp add: rb_wf_def)
  have b: "rb_bytes ?r = [1, 2, 3, 4]"
    by (simp add: rb_bytes_def Ring_Buffer_Get_Length_def ring_slice_def upt_rec)
  show ?thesis using Ring_Buffer_Write_Byte_Force_effect [OF w, of 5] by (auto simp: b)
qed

end
