(* ===== verification/CmdCfg.thy ===== *)
theory CmdCfg
  imports Prelude
begin

text \<open>
  The data the host and the firmware exchange (\<open>cmd_cfg.h\<close>, \<open>ina228.h\<close>): command ids, the packed
  configuration structures as records with their byte images, and the command packets. C reads
  and writes these structures with \<open>memcpy\<close> of a prefix; \<open>i2c_cfg_memcpy\<close> and
  \<open>ina228_cfg_memcpy\<close> are these copies, stated over the byte images.
\<close>

section \<open>Command identifiers\<close>

definition CMD_DEV_VER :: u8 where [regs]: "CMD_DEV_VER = 0x00"
definition CMD_DEV_CFG :: u8 where [regs]: "CMD_DEV_CFG = 0x01"
definition CMD_DEV_SCF :: u8 where [regs]: "CMD_DEV_SCF = 0x02"
definition CMD_DEV_STA :: u8 where [regs]: "CMD_DEV_STA = 0x03"
definition CMD_DEV_I2C :: u8 where [regs]: "CMD_DEV_I2C = 0x07"
definition CMD_DEV_CAD :: u8 where [regs]: "CMD_DEV_CAD = 0x08"
definition CMD_DEV_ECAD :: u8 where [regs]: "CMD_DEV_ECAD = 0x38"
definition CMD_DEV_ADC :: u8 where [regs]: "CMD_DEV_ADC = 0x0A"
definition CMD_DEV_EADC :: u8 where [regs]: "CMD_DEV_EADC = 0x3A"
definition CMD_DEV_TST :: u8 where [regs]: "CMD_DEV_TST = 0x0B"
definition CMD_DEV_UTR :: u8 where [regs]: "CMD_DEV_UTR = 0x0C"
definition CMD_DEV_PWR :: u8 where [regs]: "CMD_DEV_PWR = 0x0E"
definition CMD_DEV_GRG :: u8 where [regs]: "CMD_DEV_GRG = 0x10"
definition CMD_DEV_SRG :: u8 where [regs]: "CMD_DEV_SRG = 0x11"
definition CMD_I2C_PWR :: u8 where [regs]: "CMD_I2C_PWR = 0x40"
definition CMD_ERR_FLG :: u8 where [regs]: "CMD_ERR_FLG = 0x80"

definition I2C_ADDR_INA228 :: u8 where [regs]: "I2C_ADDR_INA228 = 0x80"
definition INA228_RA_CONFIG :: u8 where [regs]: "INA228_RA_CONFIG = 0x0"
definition INA228_RA_ADC_CONFIG :: u8 where [regs]: "INA228_RA_ADC_CONFIG = 0x01"
definition INA228_RA_VSHUNT :: u8 where [regs]: "INA228_RA_VSHUNT = 0x04"
definition INA228_RA_VBUS :: u8 where [regs]: "INA228_RA_VBUS = 0x05"
definition INA228_RA_DIAG_ALRT :: u8 where [regs]: "INA228_RA_DIAG_ALRT = 0x0b"

section \<open>Register descriptors\<close>

record reg_rd_t =
  rd_dev_addr :: u8
  rd_reg_addr :: u8

record reg_wr_t =
  wr_dev_addr :: u8
  wr_reg_addr :: u8
  wr_data :: u16

definition reg_rd_bytes :: "reg_rd_t \<Rightarrow> u8 list" where
  "reg_rd_bytes r = [rd_dev_addr r, rd_reg_addr r]"

definition reg_wr_bytes :: "reg_wr_t \<Rightarrow> u8 list" where
  "reg_wr_bytes r = [wr_dev_addr r, wr_reg_addr r] @ le16 (wr_data r)"

definition reg_rd_at :: "u8 list \<Rightarrow> nat \<Rightarrow> reg_rd_t" where
  "reg_rd_at bs k = \<lparr>rd_dev_addr = bs ! k, rd_reg_addr = bs ! (k + 1)\<rparr>"

definition reg_wr_at :: "u8 list \<Rightarrow> nat \<Rightarrow> reg_wr_t" where
  "reg_wr_at bs k =
     \<lparr>wr_dev_addr = bs ! k, wr_reg_addr = bs ! (k + 1),
      wr_data = from_le16 (bs ! (k + 2)) (bs ! (k + 3))\<rparr>"

section \<open>The I2C poll configuration\<close>

text \<open>The BL702 port has the structure without a checksum, the CH592 port appends one.\<close>

record i2c_poll_cfg =
  pktcnt :: u8
  multiplier :: u8
  time :: u16
  clk_khz :: u16
  init :: "reg_wr_t list"
  rd :: "reg_rd_t list"
  slp :: "reg_wr_t list"

record dev_i2c_cfg_t = i2c_poll_cfg +
  crc :: u16

definition i2c_cfg_wf :: "'a i2c_poll_cfg_scheme \<Rightarrow> bool" where
  "i2c_cfg_wf c \<longleftrightarrow> length (init c) = 4 \<and> length (rd c) = 4 \<and> length (slp c) = 2"

definition i2c_cfg_body :: "'a i2c_poll_cfg_scheme \<Rightarrow> u8 list" where
  "i2c_cfg_body c =
     [pktcnt c, multiplier c] @ le16 (time c) @ le16 (clk_khz c) @
     concat (map reg_wr_bytes (init c)) @ concat (map reg_rd_bytes (rd c)) @
     concat (map reg_wr_bytes (slp c))"

definition i2c_cfg_bytes :: "dev_i2c_cfg_t \<Rightarrow> u8 list" where
  "i2c_cfg_bytes c = i2c_cfg_body c @ le16 (crc c)"

definition i2c_cfg_of_bytes :: "u8 list \<Rightarrow> dev_i2c_cfg_t" where
  "i2c_cfg_of_bytes bs =
     \<lparr>pktcnt = bs ! 0, multiplier = bs ! 1, time = from_le16 (bs ! 2) (bs ! 3),
      clk_khz = from_le16 (bs ! 4) (bs ! 5),
      init = [reg_wr_at bs 6, reg_wr_at bs 10, reg_wr_at bs 14, reg_wr_at bs 18],
      rd = [reg_rd_at bs 22, reg_rd_at bs 24, reg_rd_at bs 26, reg_rd_at bs 28],
      slp = [reg_wr_at bs 30, reg_wr_at bs 34],
      crc = from_le16 (bs ! 38) (bs ! 39)\<rparr>"

text \<open>\<open>memcpy(&cfg, src, n)\<close>\<close>

definition i2c_cfg_memcpy :: "dev_i2c_cfg_t \<Rightarrow> u8 list \<Rightarrow> nat \<Rightarrow> dev_i2c_cfg_t" where
  "i2c_cfg_memcpy c src n = i2c_cfg_of_bytes (take n src @ drop n (i2c_cfg_bytes c))"

lemma list2_conv: "length xs = 2 \<longleftrightarrow> (\<exists>a b. xs = [a, b])"
  by (auto simp: length_Suc_conv eval_nat_numeral)

lemma list4_conv: "length xs = 4 \<longleftrightarrow> (\<exists>a b c d. xs = [a, b, c, d])"
  by (auto simp: length_Suc_conv eval_nat_numeral)

lemma length_i2c_cfg_body [simp]: "i2c_cfg_wf c \<Longrightarrow> length (i2c_cfg_body c) = 38"
  by (auto simp: i2c_cfg_wf_def i2c_cfg_body_def list2_conv list4_conv reg_wr_bytes_def
      reg_rd_bytes_def)

lemma length_i2c_cfg_bytes [simp]: "i2c_cfg_wf c \<Longrightarrow> length (i2c_cfg_bytes c) = 40"
  by (simp add: i2c_cfg_bytes_def)

lemma i2c_cfg_wf_of_bytes [simp]: "i2c_cfg_wf (i2c_cfg_of_bytes bs)"
  by (simp add: i2c_cfg_wf_def i2c_cfg_of_bytes_def)

lemma reg_wr_bytes_at [simp]:
  "reg_wr_bytes (reg_wr_at bs k) = [bs ! k, bs ! (k + 1), bs ! (k + 2), bs ! (k + 3)]"
  by (simp add: reg_wr_bytes_def reg_wr_at_def)

lemma reg_rd_bytes_at [simp]: "reg_rd_bytes (reg_rd_at bs k) = [bs ! k, bs ! (k + 1)]"
  by (simp add: reg_rd_bytes_def reg_rd_at_def)

lemma i2c_cfg_bytes_of_bytes: "length bs = 40 \<Longrightarrow> i2c_cfg_bytes (i2c_cfg_of_bytes bs) = bs"
proof -
  assume l: "length bs = 40"
  have "i2c_cfg_bytes (i2c_cfg_of_bytes bs) = map ((!) bs) [0..<40]"
    by (simp add: i2c_cfg_bytes_def i2c_cfg_body_def i2c_cfg_of_bytes_def upt_rec)
       (simp add: eval_nat_numeral)
  also have "\<dots> = bs" using map_nth [of bs] l by simp
  finally show ?thesis .
qed

lemma i2c_cfg_of_bytes_bytes: "i2c_cfg_wf c \<Longrightarrow> i2c_cfg_of_bytes (i2c_cfg_bytes c) = c"
proof -
  assume "i2c_cfg_wf c"
  then obtain i0 i1 i2 i3 r0 r1 r2 r3 s0 s1 where
    "init c = [i0, i1, i2, i3]" "rd c = [r0, r1, r2, r3]" "slp c = [s0, s1]"
    by (auto simp: i2c_cfg_wf_def list2_conv list4_conv)
  then show ?thesis
    by (cases c) (simp add: i2c_cfg_of_bytes_def i2c_cfg_bytes_def i2c_cfg_body_def
        reg_wr_bytes_def reg_rd_bytes_def reg_wr_at_def reg_rd_at_def le16_def)
qed

lemma i2c_cfg_memcpy_wf [simp]: "i2c_cfg_wf (i2c_cfg_memcpy c src n)"
  by (simp add: i2c_cfg_memcpy_def)

lemma i2c_cfg_bytes_memcpy:
  "i2c_cfg_wf c \<Longrightarrow> n \<le> length src \<Longrightarrow> n \<le> 40 \<Longrightarrow>
   i2c_cfg_bytes (i2c_cfg_memcpy c src n) = take n src @ drop n (i2c_cfg_bytes c)"
  by (simp add: i2c_cfg_memcpy_def i2c_cfg_bytes_of_bytes)

lemma take_38_i2c_cfg_bytes [simp]: "i2c_cfg_wf c \<Longrightarrow> take 38 (i2c_cfg_bytes c) = i2c_cfg_body c"
  by (simp add: i2c_cfg_bytes_def)

section \<open>The INA228 measurement configuration\<close>

record dev_ina228_cfg_t =
  enable :: u8
  chnl :: u8
  smpr :: u16
  sh :: u8

definition ina228_cfg_bytes :: "dev_ina228_cfg_t \<Rightarrow> u8 list" where
  "ina228_cfg_bytes c = [enable c, chnl c] @ le16 (smpr c) @ [sh c]"

definition ina228_cfg_of_bytes :: "u8 list \<Rightarrow> dev_ina228_cfg_t" where
  "ina228_cfg_of_bytes bs =
     \<lparr>enable = bs ! 0, chnl = bs ! 1, smpr = from_le16 (bs ! 2) (bs ! 3), sh = bs ! 4\<rparr>"

definition ina228_cfg_memcpy :: "dev_ina228_cfg_t \<Rightarrow> u8 list \<Rightarrow> nat \<Rightarrow> dev_ina228_cfg_t" where
  "ina228_cfg_memcpy c src n = ina228_cfg_of_bytes (take n src @ drop n (ina228_cfg_bytes c))"

lemma length_ina228_cfg_bytes [simp]: "length (ina228_cfg_bytes c) = 5"
  by (simp add: ina228_cfg_bytes_def)

lemma ina228_cfg_of_bytes_bytes [simp]: "ina228_cfg_of_bytes (ina228_cfg_bytes c) = c"
  by (cases c) (simp add: ina228_cfg_of_bytes_def ina228_cfg_bytes_def le16_def)

lemma ina228_cfg_bytes_of_bytes: "length bs = 5 \<Longrightarrow> ina228_cfg_bytes (ina228_cfg_of_bytes bs) = bs"
proof -
  assume l: "length bs = 5"
  have "ina228_cfg_bytes (ina228_cfg_of_bytes bs) = map ((!) bs) [0..<5]"
    by (simp add: ina228_cfg_bytes_def ina228_cfg_of_bytes_def upt_rec)
       (simp add: eval_nat_numeral)
  also have "\<dots> = bs" using map_nth [of bs] l by simp
  finally show ?thesis .
qed

section \<open>Packets\<close>

text \<open>
  \<open>blk_tx_pkt_t\<close>: header and a 232-byte data union, seen as bytes. A received packet is the byte
  buffer it lies in: \<open>head.size\<close> is byte 0, \<open>head.cmd\<close> byte 1, the data starts at byte 2.
\<close>

record blk_tx_pkt_t =
  tx_size :: u8
  tx_cmd :: u8
  tx_data :: "u8 list"

definition tx_pkt_bytes :: "blk_tx_pkt_t \<Rightarrow> u8 list" where
  "tx_pkt_bytes p = [tx_size p, tx_cmd p] @ tx_data p"

definition tx_pkt_wf :: "blk_tx_pkt_t \<Rightarrow> bool" where
  "tx_pkt_wf p \<longleftrightarrow> length (tx_data p) = 232"

definition rx_size :: "u8 list \<Rightarrow> u8" where "rx_size buf = buf ! 0"
definition rx_cmd :: "u8 list \<Rightarrow> u8" where "rx_cmd buf = buf ! 1"
definition rx_data :: "u8 list \<Rightarrow> u8 list" where "rx_data buf = drop 2 buf"

definition tx_put :: "nat \<Rightarrow> u8 list \<Rightarrow> blk_tx_pkt_t \<Rightarrow> blk_tx_pkt_t" where
  "tx_put off bs p = p\<lparr>tx_data := splice_at (tx_data p) off bs\<rparr>"

lemma tx_put_simps [simp]:
  "tx_size (tx_put off bs p) = tx_size p" "tx_cmd (tx_put off bs p) = tx_cmd p"
  "tx_data (tx_put off bs p) = splice_at (tx_data p) off bs"
  by (simp_all add: tx_put_def)

lemma tx_pkt_wf_put [simp]:
  "tx_pkt_wf p \<Longrightarrow> off + length bs \<le> 232 \<Longrightarrow> tx_pkt_wf (tx_put off bs p)"
  by (simp add: tx_pkt_wf_def)

lemma tx_pkt_wf_update [simp]:
  "tx_pkt_wf (p\<lparr>tx_size := x\<rparr>) = tx_pkt_wf p" "tx_pkt_wf (p\<lparr>tx_cmd := y\<rparr>) = tx_pkt_wf p"
  by (simp_all add: tx_pkt_wf_def)

text \<open>
  A frame is what the host parses out of the byte stream: the number of data bytes, the command and the
  data.
\<close>

definition frame_ok :: "u8 list \<Rightarrow> bool" where
  "frame_ok bs \<longleftrightarrow> 2 \<le> length bs \<and> length bs = 2 + unat (bs ! 0)"

end
