(* ===== verification/SampleRing.thy ===== *)
theory SampleRing
  imports RingSlice CmdCfg
begin

text \<open>
  What the samplers of the CH592 and the BL702 port share: a ring of 256 samples with 8-bit indices
  that wrap by themselves, the loops that pack samples into a block, and the pointer that walks
  over the list of registers to poll.
\<close>

section \<open>The packing loops\<close>

text \<open>\<open>for (i = prd; i < I2C_BUF_SIZE && size; i++)\<close>: the bytes stored and the \<open>size\<close> left.\<close>

fun copy_to_end :: "('a \<Rightarrow> u8 list) \<Rightarrow> 'a list \<Rightarrow> nat \<Rightarrow> nat \<Rightarrow> u8 list \<times> nat" where
  "copy_to_end enc buf i 0 = ([], 0)"
| "copy_to_end enc buf i (Suc n) =
     (if i < 256 then (let (bs, m) = copy_to_end enc buf (i + 1) n in (enc (buf ! i) @ bs, m))
      else ([], Suc n))"

text \<open>The loops that run until \<open>size\<close> is 0.\<close>

fun copy_n :: "('a \<Rightarrow> u8 list) \<Rightarrow> 'a list \<Rightarrow> nat \<Rightarrow> nat \<Rightarrow> u8 list" where
  "copy_n enc buf i 0 = []"
| "copy_n enc buf i (Suc n) = enc (buf ! i) @ copy_n enc buf (i + 1) n"

lemma copy_n_eq:
  "i + n \<le> length buf \<Longrightarrow> copy_n enc buf i n = concat (map enc (take n (drop i buf)))"
proof (induction n arbitrary: i)
  case (Suc n)
  then have "drop i buf = buf ! i # drop (Suc i) buf" by (simp add: Cons_nth_drop_Suc)
  with Suc show ?case by simp
qed simp

lemma copy_to_end_eq:
  "length buf = 256 \<Longrightarrow> i \<le> 256 \<Longrightarrow>
   copy_to_end enc buf i n = (concat (map enc (take n (drop i buf))), n - (256 - i))"
proof (induction n arbitrary: i)
  case (Suc n)
  show ?case
  proof (cases "i < 256")
    case True
    then have "drop i buf = buf ! i # drop (Suc i) buf"
      using Suc.prems by (simp add: Cons_nth_drop_Suc)
    with Suc True show ?thesis by simp
  next
    case False
    with Suc.prems show ?thesis by simp
  qed
qed simp

section \<open>The ring\<close>

text \<open>The samples between the read and the write index.\<close>

definition ring256 :: "'a list \<Rightarrow> u8 \<Rightarrow> u8 \<Rightarrow> 'a list" where
  "ring256 buf prd pwr = ring_slice buf (unat prd) (unat (pwr - prd))"

lemma u8_diff: "unat (a - b) = (if unat b \<le> unat a then unat a - unat b else 256 + unat a - unat b)"
  for a b :: u8
  by (simp add: unat_sub_if') arith

lemma length_ring256:
  "length (ring256 buf prd pwr) =
     (if unat prd \<le> unat pwr then unat pwr - unat prd else 256 - unat prd + unat pwr)"
  using unat_u8_bound [of prd] by (auto simp: ring256_def u8_diff simp del: unat_u8_bound)

lemma ring256_empty [simp]: "ring256 buf i i = []"
  by (simp add: ring256_def)

lemma ring256_advance:
  assumes "unat prd' = (unat prd + k) mod 256" "k \<le> length (ring256 buf prd pwr)" "length buf = 256"
  shows "ring256 buf prd' pwr = drop k (ring256 buf prd pwr)"
proof -
  let ?L = "pwr - prd"
  have kL: "k \<le> unat ?L" using assms(2) by (simp add: ring256_def)
  with unat_u8_bound [of ?L] have "k < 256" by linarith
  then have k: "unat (of_nat k :: u8) = k" by (simp add: unat_of_nat_small)
  have "prd' = prd + of_nat k"
    using assms(1) k by (simp add: word_unat_eq_iff unat_word_ariths)
  then have "unat (pwr - prd') = unat (?L - of_nat k)" by (simp add: algebra_simps)
  also have "\<dots> = unat ?L - k" using kL k by (simp add: unat_sub word_le_nat_alt)
  finally have len: "unat (pwr - prd') = unat ?L - k" .
  have "ring_slice buf (unat prd') m = ring_slice buf (unat prd + k) m" for m
    by (rule ring_slice_cong_mod) (simp add: assms(1,3))
  then show ?thesis by (simp add: len ring256_def drop_ring_slice)
qed

lemma ring256_push:
  assumes "length buf = 256" "length (ring256 buf prd pwr) < 255"
  shows "ring256 (buf[unat pwr := w]) prd (pwr + 1) = ring256 buf prd pwr @ [w]"
proof -
  let ?L = "pwr - prd"
  have L: "unat ?L < 255" using assms(2) by (simp add: ring256_def)
  have "unat (?L + 1) = Suc (unat ?L)" using L unat_plus_nowrap [of ?L 1] by simp
  then have len: "unat (pwr + 1 - prd) = Suc (unat ?L)"
    by (simp add: algebra_simps)
  have "unat pwr = unat (prd + ?L)" by simp
  also have "\<dots> = (unat prd + unat ?L) mod 256" by (simp only: unat_word_ariths) simp
  finally have "unat pwr = (unat prd + unat ?L) mod length buf"
    using assms(1) by simp
  then show ?thesis
    using ring_slice_push [of "unat ?L" buf "unat prd" w] L assms(1)
    by (simp add: len ring256_def)
qed

text \<open>
  The block the two loops store from a wrapped ring, and the one the single loop stores: the oldest
  \<open>n\<close> samples.
\<close>

lemma pack256:
  assumes "length buf = 256" "n \<le> length (ring256 buf prd pwr)"
  shows "\<exists>bs. copy_to_end enc buf (unat prd) n = (bs, n - (256 - unat prd)) \<and>
      bs @ copy_n enc buf 0 (n - (256 - unat prd)) = concat (map enc (take n (ring256 buf prd pwr)))"
    and "\<not> pwr < prd \<Longrightarrow> copy_n enc buf (unat prd) n = concat (map enc (take n (ring256 buf prd pwr)))"
proof -
  let ?r = "unat prd"
  have b: "?r < 256" by simp
  have take: "take n (ring256 buf prd pwr) = ring_slice buf ?r n"
    using assms(2) by (simp add: ring256_def take_ring_slice min_def)
  have n256: "n \<le> 256" using assms(2) unat_u8_bound [of "pwr - prd"]
    by (simp add: ring256_def del: unat_u8_bound)
  have two: "take n (drop ?r buf) @ take (n - (256 - ?r)) buf = ring_slice buf ?r n"
    by (rule ring_slice_two_parts [of ?r buf n, unfolded assms(1)]) (use b n256 in simp_all)
  have "concat (map enc (take n (drop ?r buf))) @ copy_n enc buf 0 (n - (256 - ?r)) =
      concat (map enc (take n (ring256 buf prd pwr)))"
    unfolding take two [symmetric] using assms(1) n256 by (simp add: copy_n_eq)
  then show "\<exists>bs. copy_to_end enc buf ?r n = (bs, n - (256 - ?r)) \<and>
      bs @ copy_n enc buf 0 (n - (256 - ?r)) = concat (map enc (take n (ring256 buf prd pwr)))"
    by (simp add: copy_to_end_eq [OF assms(1) less_imp_le [OF b]])
  assume "\<not> pwr < prd"
  then have "?r \<le> unat pwr" "n \<le> unat pwr - ?r"
    using assms(2) length_ring256 [of buf prd pwr] by (simp_all add: word_less_nat_alt)
  with unat_u8_bound [of pwr] have "?r + n \<le> 256" by linarith
  then show "copy_n enc buf ?r n = concat (map enc (take n (ring256 buf prd pwr)))"
    using assms(1) unfolding take by (simp add: copy_n_eq ring_slice_linear)
qed

text \<open>
  The read index after a block of \<open>n\<close> samples: where the ring has wrapped the code stores what the
  first loop left over, which is 0 when the block ends before the end of the ring.
\<close>

definition rd_after :: "u8 \<Rightarrow> u8 \<Rightarrow> nat \<Rightarrow> u8" where
  "rd_after prd pwr n =
     (if pwr < prd then of_nat (n - (256 - unat prd)) else of_nat (unat prd + n))"

text \<open>How many samples leave the ring with a block of \<open>n\<close>.\<close>

definition taken256 :: "u8 \<Rightarrow> u8 \<Rightarrow> nat \<Rightarrow> nat" where
  "taken256 prd pwr n = (if pwr < prd \<and> unat prd + n < 256 then 256 - unat prd else n)"

lemma ring256_rd_after:
  assumes "length buf = 256" "n \<le> length (ring256 buf prd pwr)"
  shows "ring256 buf (rd_after prd pwr n) pwr = drop (taken256 prd pwr n) (ring256 buf prd pwr)"
proof (rule ring256_advance [OF _ _ assms(1)])
  have n: "n < 256" using assms(2) unat_u8_bound [of "pwr - prd"]
    by (simp add: ring256_def del: unat_u8_bound)
  have c: "unat (of_nat k :: u8) = k mod 256" for k by (simp add: unat_of_nat)
  have "unat (rd_after prd pwr n) = (if pwr < prd then (n - (256 - unat prd)) mod 256
      else (unat prd + n) mod 256)"
    by (simp add: rd_after_def c del: of_nat_add of_nat_diff)
  moreover have "(n - (256 - unat prd)) mod 256 =
      (if unat prd + n < 256 then 0 else (unat prd + n) mod 256)"
    using unat_u8_bound [of prd] n by (simp add: le_mod_geq add.commute del: unat_u8_bound)
  ultimately show "unat (rd_after prd pwr n) = (unat prd + taken256 prd pwr n) mod 256"
    using unat_u8_bound [of prd] by (auto simp: taken256_def simp del: unat_u8_bound)
  show "taken256 prd pwr n \<le> length (ring256 buf prd pwr)"
    using assms(2) length_ring256 [of buf prd pwr] by (auto simp: taken256_def word_less_nat_alt)
qed

section \<open>The poll pointer\<close>

text \<open>
  The address one past \<open>cfg_i2c.rd[3]\<close> is that of \<open>cfg_i2c.slp[0]\<close>, which the wrap test of the
  interrupt handlers reads before it compares the pointer.
\<close>

definition raddr_dev_addr :: "'a i2c_poll_cfg_scheme \<Rightarrow> nat \<Rightarrow> u8" where
  "raddr_dev_addr c k = (if k < 4 then rd_dev_addr (rd c ! k) else wr_dev_addr (slp c ! (k - 4)))"

definition next_raddr :: "'a i2c_poll_cfg_scheme \<Rightarrow> nat \<Rightarrow> nat" where
  "next_raddr c k = (if raddr_dev_addr c (k + 1) = 0 \<or> k + 1 > 3 then 0 else k + 1)"

end
