(* ===== verification/PpI2c.thy ===== *)
theory PpI2c
  imports RingBuffer SampleRing
begin

text \<open>
  The I2C sampler of the BL702 power profiler (\<open>BL702/PowerProfiler/src\<close>): the bus functions over the
  I2C peripheral (\<open>i2cbus.c\<close>) and the sampling engine (\<open>i2c_dev.c\<close>). The build is the one of
  \<open>main_config.h\<close>: \<open>I2C_DEV_POWER\<close> is defined, \<open>I2C_PREREAD\<close> is 1, \<open>GPIO_TST\<close> is off. The timer
  interrupt takes the answer to the read it started one period earlier and starts the next one.

  A read of a register that the hardware changes takes the next of a sequence of samples; the
  I2C configuration register and the reset register hold what was written last. Register writes and
  calls into the SDK are logged in order. Using a device pointer that is NULL is \<open>None\<close>.
\<close>

section \<open>Registers and state\<close>

definition I2C_CONFIG_OFFSET :: u32 where [regs]: "I2C_CONFIG_OFFSET = 0x0"
definition I2C_INT_STS_OFFSET :: u32 where [regs]: "I2C_INT_STS_OFFSET = 0x4"
definition I2C_SUB_ADDR_OFFSET :: u32 where [regs]: "I2C_SUB_ADDR_OFFSET = 0x8"
definition I2C_BUS_BUSY_OFFSET :: u32 where [regs]: "I2C_BUS_BUSY_OFFSET = 0xC"
definition I2C_PRD_START_OFFSET :: u32 where [regs]: "I2C_PRD_START_OFFSET = 0x10"
definition I2C_PRD_STOP_OFFSET :: u32 where [regs]: "I2C_PRD_STOP_OFFSET = 0x14"
definition I2C_PRD_DATA_OFFSET :: u32 where [regs]: "I2C_PRD_DATA_OFFSET = 0x18"
definition I2C_FIFO_CONFIG_0_OFFSET :: u32 where [regs]: "I2C_FIFO_CONFIG_0_OFFSET = 0x80"
definition I2C_FIFO_WDATA_OFFSET :: u32 where [regs]: "I2C_FIFO_WDATA_OFFSET = 0x88"
definition I2C_FIFO_RDATA_OFFSET :: u32 where [regs]: "I2C_FIFO_RDATA_OFFSET = 0x8C"

definition I2C_CR_I2C_M_EN :: u32 where "I2C_CR_I2C_M_EN = push_bit 0 1"
definition I2C_CR_I2C_PKT_DIR :: u32 where "I2C_CR_I2C_PKT_DIR = push_bit 1 1"
definition I2C_CR_I2C_SCL_SYNC_EN :: u32 where "I2C_CR_I2C_SCL_SYNC_EN = push_bit 3 1"
definition I2C_CR_I2C_SUB_ADDR_EN :: u32 where "I2C_CR_I2C_SUB_ADDR_EN = push_bit 4 1"
definition I2C_CR_I2C_SUB_ADDR_BC_MASK :: u32 where "I2C_CR_I2C_SUB_ADDR_BC_MASK = push_bit 5 0x3"
definition I2C_CR_I2C_SLV_ADDR_MASK :: u32 where "I2C_CR_I2C_SLV_ADDR_MASK = push_bit 8 0x7f"
definition I2C_CR_I2C_PKT_LEN_MASK :: u32 where "I2C_CR_I2C_PKT_LEN_MASK = push_bit 16 0xff"

definition I2C_END_INT :: u32 where "I2C_END_INT = push_bit 0 1"
definition I2C_NAK_INT :: u32 where "I2C_NAK_INT = push_bit 3 1"
definition I2C_CR_I2C_ALL_MASK :: u32 where
  "I2C_CR_I2C_ALL_MASK = push_bit 8 1 OR push_bit 9 1 OR push_bit 10 1 OR push_bit 11 1 OR
     push_bit 12 1 OR push_bit 13 1"
definition I2C_CR_I2C_END_CLR :: u32 where "I2C_CR_I2C_END_CLR = push_bit 16 1"
definition I2C_CR_I2C_NAK_CLR :: u32 where "I2C_CR_I2C_NAK_CLR = push_bit 19 1"
definition I2C_CR_I2C_ARB_CLR :: u32 where "I2C_CR_I2C_ARB_CLR = push_bit 20 1"
definition I2C_STS_I2C_BUS_BUSY :: u32 where "I2C_STS_I2C_BUS_BUSY = push_bit 0 1"
definition I2C_TX_FIFO_CLR :: u32 where "I2C_TX_FIFO_CLR = push_bit 2 1"
definition I2C_RX_FIFO_CLR :: u32 where "I2C_RX_FIFO_CLR = push_bit 3 1"
definition GLB_SWRST_S1A3_MSK :: u32 where "GLB_SWRST_S1A3_MSK = push_bit 19 1"

definition PP_POWER :: nat where [regs]: "PP_POWER = 2"
definition PP_SDA :: nat where [regs]: "PP_SDA = 1"
definition PP_SCL :: nat where [regs]: "PP_SCL = 0"
definition MAX_I2C_PKTCNT :: u8 where [regs]: "MAX_I2C_PKTCNT = 60"
definition ETIMEDOUT :: int where "ETIMEDOUT = 116"

text \<open>
  One sample of the hardware: the I2C register of an offset, the two timer registers the interrupt
  reads, the configuration register after a reset of the peripheral, the microsecond counter, the
  clock of the peripheral, and whether the SDK finds the device asked for.
\<close>

record pp_sample =
  i2c_in :: "u32 \<Rightarrow> u32"
  tsr_in :: u32
  ticr_in :: u32
  config_reset :: u32
  now_us :: "64 word"
  i2c_clk :: u32
  dev_found :: bool

type_synonym pp_env = "nat \<Rightarrow> pp_sample"

datatype pp_pin_mode = Func_i2c0 | Out_float_pullup | Out_pullup

datatype pp_out = I2c_put u32 u32 | Glb_put u32 | Ticr_put u32 | Clock_on
  | Tim_init u32 | Tim_start | Tim_stop | Tim_irq_on | Tim_irq_off
  | Gpio_init nat pp_pin_mode | Gpio_set nat | Gpio_reset nat | Wait_us u32

record pp =
  i2c0 :: bool
  timer1 :: bool
  timer1_comp0 :: u32
  timer1_on :: bool
  gpio_pwr :: bool
  i2c_config :: u32
  glb_swrst :: u32
  pp_log :: "pp_out list"
  pp_pos :: nat
  cfg_i2c :: i2c_poll_cfg
  timer_flg :: u32
  t_rd_us :: u32
  raddr :: nat
  i2c_buf :: "u16 list"
  i2c_buf_wr :: u8
  i2c_buf_rd :: u8
  blk_count :: u8
  blk_id :: u8
  blk_data :: "u8 list"
  all_read_count :: u32
  all_overflow_cnt :: u32
  usb_tx_rb :: Ring_Buffer_Type

text \<open>
  The configuration at power-up. The initialiser sets \<open>init[1].data\<close> twice and \<open>init[0].data\<close> never,
  which therefore is 0.
\<close>

definition pp_default_cfg :: i2c_poll_cfg where
  "pp_default_cfg =
     \<lparr>pktcnt = 0, multiplier = 0, time = 10000, clk_khz = 800,
      init = [\<lparr>wr_dev_addr = 0x80, wr_reg_addr = 0x00, wr_data = 0\<rparr>,
        \<lparr>wr_dev_addr = 0x80, wr_reg_addr = 0x00, wr_data = 0xc005\<rparr>,
        \<lparr>wr_dev_addr = 0x80, wr_reg_addr = 0x00, wr_data = 0x4005\<rparr>,
        \<lparr>wr_dev_addr = 0x00, wr_reg_addr = 0x00, wr_data = 0x0000\<rparr>],
      rd = [\<lparr>rd_dev_addr = 0x80, rd_reg_addr = 0x01\<rparr>, \<lparr>rd_dev_addr = 0x80, rd_reg_addr = 0x02\<rparr>,
        \<lparr>rd_dev_addr = 0x00, rd_reg_addr = 0x00\<rparr>, \<lparr>rd_dev_addr = 0x00, rd_reg_addr = 0x00\<rparr>],
      slp = [\<lparr>wr_dev_addr = 0x80, wr_reg_addr = 0x00, wr_data = 0x0000\<rparr>,
        \<lparr>wr_dev_addr = 0x00, wr_reg_addr = 0x00, wr_data = 0x0000\<rparr>]\<rparr>"

definition pp_put :: "pp_out \<Rightarrow> pp \<Rightarrow> pp" where
  "pp_put x s = s\<lparr>pp_log := pp_log s @ [x]\<rparr>"

definition pp_get :: "(pp_sample \<Rightarrow> 'a) \<Rightarrow> pp_env \<Rightarrow> pp \<Rightarrow> 'a \<times> pp" where
  "pp_get f env s = (f (env (pp_pos s)), s\<lparr>pp_pos := pp_pos s + 1\<rparr>)"

abbreviation get_i2c :: "u32 \<Rightarrow> pp_env \<Rightarrow> pp \<Rightarrow> u32 \<times> pp" where
  "get_i2c off \<equiv> pp_get (\<lambda>x. i2c_in x off)"

definition put_config :: "u32 \<Rightarrow> pp \<Rightarrow> pp" where
  "put_config w s = (pp_put (I2c_put I2C_CONFIG_OFFSET w) s)\<lparr>i2c_config := w\<rparr>"

section \<open>The bus\<close>

text \<open>
  \<open>start_time\<close> is a 32-bit variable, while \<open>bflb_mtimer_get_time_us\<close> returns 64 bits: the difference
  is computed in 64 bits.
\<close>

partial_function (option) tr_busy_loop :: "pp_env \<Rightarrow> u32 \<Rightarrow> u32 \<Rightarrow> pp \<Rightarrow> (int \<times> pp) option" where
  [code]: "tr_busy_loop env start_time timeout_us s =
     (let (busy, s) = get_i2c I2C_BUS_BUSY_OFFSET env s;
          (wait, s) =
            (if busy AND I2C_STS_I2C_BUS_BUSY \<noteq> 0 then (True, s)
             else (let (sts, s) = get_i2c I2C_INT_STS_OFFSET env s in (sts AND I2C_END_INT = 0, s)))
      in if wait
         then
           (let (t, s) = pp_get now_us env s
            in if t - ucast start_time > ucast timeout_us then Some (- ETIMEDOUT, s)
               else tr_busy_loop env start_time timeout_us s)
         else Some (0, s))"

definition I2CBusTrBusy :: "pp_env \<Rightarrow> u32 \<Rightarrow> pp \<Rightarrow> (int \<times> pp) option" where
  "I2CBusTrBusy env timeout_us s =
     (if \<not> i2c0 s then Some (-1, s)
      else (let (t, s) = pp_get now_us env s in tr_busy_loop env (ucast t) timeout_us s))"

definition I2CBusTrEnd :: "pp_env \<Rightarrow> pp \<Rightarrow> int \<times> pp" where
  "I2CBusTrEnd env s =
     (if \<not> i2c0 s then (-1, s)
      else
        (let (sts, s) = get_i2c I2C_INT_STS_OFFSET env s;
             ret = (if sts AND I2C_NAK_INT = 0 then 1 else 0);
             s = put_config (i2c_config s AND NOT I2C_CR_I2C_M_EN) s;
             (w, s) = get_i2c I2C_FIFO_CONFIG_0_OFFSET env s;
             s = pp_put (I2c_put I2C_FIFO_CONFIG_0_OFFSET (w OR I2C_TX_FIFO_CLR OR I2C_RX_FIFO_CLR)) s;
             (w, s) = get_i2c I2C_INT_STS_OFFSET env s;
             s = pp_put (I2c_put I2C_INT_STS_OFFSET
                   (w OR I2C_CR_I2C_END_CLR OR I2C_CR_I2C_NAK_CLR OR I2C_CR_I2C_ARB_CLR)) s
         in (ret, s)))"

text \<open>
  The configuration word of a transfer of a register of two bytes, before the master is enabled.
\<close>

definition xfer_config :: "bool \<Rightarrow> u8 \<Rightarrow> u32 \<Rightarrow> u32" where
  "xfer_config read i2c_addr w =
     (let w = (if read then w OR I2C_CR_I2C_PKT_DIR else w AND NOT I2C_CR_I2C_PKT_DIR);
          w = w OR I2C_CR_I2C_SUB_ADDR_EN;
          w = w AND NOT I2C_CR_I2C_SUB_ADDR_BC_MASK;
          w = w AND NOT I2C_CR_I2C_SLV_ADDR_MASK;
          w = w OR (push_bit 7 (ucast i2c_addr) AND I2C_CR_I2C_SLV_ADDR_MASK);
          w = w AND NOT I2C_CR_I2C_PKT_LEN_MASK
      in w OR push_bit 16 1)"

definition pp_I2CBusWriteWord :: "pp_env \<Rightarrow> u8 \<Rightarrow> u8 \<Rightarrow> u16 \<Rightarrow> pp \<Rightarrow> (int \<times> pp) option" where
  "pp_I2CBusWriteWord env i2c_addr reg_addr reg_data s =
     (if \<not> i2c0 s then Some (-1, s)
      else
        (let w = xfer_config False i2c_addr (i2c_config s);
             s = pp_put (I2c_put I2C_SUB_ADDR_OFFSET (ucast reg_addr)) s;
             tmp = push_bit 8 (ucast reg_data) OR drop_bit 8 (ucast reg_data);
             s = pp_put (I2c_put I2C_FIFO_WDATA_OFFSET tmp) s;
             s = put_config (w OR I2C_CR_I2C_M_EN) s
         in do {
           (_, s) \<leftarrow> I2CBusTrBusy env 4000 s;
           Some (I2CBusTrEnd env s)
         }))"

definition I2CBusPreReadWord :: "u8 \<Rightarrow> u8 \<Rightarrow> pp \<Rightarrow> pp option" where
  "I2CBusPreReadWord i2c_addr reg_addr s =
     (if \<not> i2c0 s then None
      else
        (let w = xfer_config True i2c_addr (i2c_config s);
             s = pp_put (I2c_put I2C_SUB_ADDR_OFFSET (ucast reg_addr)) s
         in Some (put_config (w OR I2C_CR_I2C_M_EN) s)))"

text \<open>The two bytes at \<open>preg_data\<close> come back as an option: \<open>None\<close> where they are not written.\<close>

definition pp_I2CBusReadWord ::
    "pp_env \<Rightarrow> u8 \<Rightarrow> u8 \<Rightarrow> pp \<Rightarrow> (int \<times> u8 list option \<times> pp) option" where
  "pp_I2CBusReadWord env i2c_addr reg_addr s =
     (if \<not> i2c0 s then Some (-1, None, s)
      else do {
        s \<leftarrow> I2CBusPreReadWord i2c_addr reg_addr s;
        (_, s) \<leftarrow> I2CBusTrBusy env 4000 s;
        let (w, s) = get_i2c I2C_FIFO_RDATA_OFFSET env s;
        let (ret, s) = I2CBusTrEnd env s;
        Some (ret, Some [ucast (drop_bit 8 w), ucast w], s)
      })"

definition pp_I2CBusDeInit :: "pp_env \<Rightarrow> pp \<Rightarrow> pp" where
  "pp_I2CBusDeInit env s =
     (if \<not> i2c0 s then s
      else
        (let (_, s) = I2CBusTrEnd env s;
             (w, s) = get_i2c I2C_INT_STS_OFFSET env s
         in pp_put (I2c_put I2C_INT_STS_OFFSET (w AND NOT I2C_CR_I2C_ALL_MASK)) s))"

text \<open>The four phases of a bit, each \<open>phase + 1\<close> clocks long, in one register.\<close>

definition i2c_phase :: "u32 \<Rightarrow> u32 \<Rightarrow> u32" where
  "i2c_phase clk freq = clk div (freq * 4) - 1"

definition phase_word :: "u32 \<Rightarrow> u32" where
  "phase_word ph = push_bit 0 ph OR push_bit 8 ph OR push_bit 16 ph OR push_bit 24 ph"

definition set_i2c_clk :: "pp_env \<Rightarrow> u32 \<Rightarrow> bool \<Rightarrow> pp \<Rightarrow> pp option" where
  "set_i2c_clk env freq clock_stretching s =
     (let (w, s) = get_i2c I2C_INT_STS_OFFSET env s;
          s = pp_put (I2c_put I2C_INT_STS_OFFSET (w OR I2C_CR_I2C_ALL_MASK)) s;
          (clk, s) = pp_get i2c_clk env s
      in if freq * 4 = 0 then None
         else
           (let ph = phase_word (i2c_phase clk freq);
                s = pp_put (I2c_put I2C_PRD_START_OFFSET ph) s;
                s = pp_put (I2c_put I2C_PRD_STOP_OFFSET ph) s;
                s = pp_put (I2c_put I2C_PRD_DATA_OFFSET ph) s;
                w = i2c_config s;
                w = (if clock_stretching then w AND NOT I2C_CR_I2C_SCL_SYNC_EN
                     else w AND NOT I2C_CR_I2C_SCL_SYNC_EN)
            in Some (put_config w s)))"

definition pp_I2CBusInit :: "pp_env \<Rightarrow> u32 \<Rightarrow> u32 \<Rightarrow> pp \<Rightarrow> pp option" where
  "pp_I2CBusInit env clk_kHz clock_stretching s =
     (let (f, s) = pp_get dev_found env s;
          s = s\<lparr>i2c0 := f\<rparr>
      in if i2c0 s
         then (let (_, s) = I2CBusTrEnd env s
               in set_i2c_clk env (clk_kHz * 1000) (clock_stretching \<noteq> 0) s)
         else Some s)"

text \<open>A reset of the peripheral puts its configuration register into a state the hardware chooses.\<close>

definition reset_i2c0 :: "pp_env \<Rightarrow> pp \<Rightarrow> pp" where
  "reset_i2c0 env s =
     (let s = pp_put Clock_on s;
          w = glb_swrst s OR GLB_SWRST_S1A3_MSK;
          s = (pp_put (Glb_put w) s)\<lparr>glb_swrst := w\<rparr>;
          w = w AND NOT GLB_SWRST_S1A3_MSK;
          s = (pp_put (Glb_put w) s)\<lparr>glb_swrst := w\<rparr>;
          (c, s) = pp_get config_reset env s
      in s\<lparr>i2c_config := c\<rparr>)"

section \<open>The timer interrupt\<close>

definition pp_next_raddr :: "pp \<Rightarrow> pp" where
  "pp_next_raddr s =
     (let s = s\<lparr>raddr := raddr s + 1\<rparr>
      in if raddr_dev_addr (cfg_i2c s) (raddr s) = 0 \<or> raddr s > 3 then s\<lparr>raddr := 0\<rparr> else s)"

definition pp_timer1_isr :: "pp_env \<Rightarrow> pp \<Rightarrow> pp option" where
  "pp_timer1_isr env s =
     (if \<not> timer1 s then None
      else do {
        let (regval, s) = pp_get tsr_in env s;
        s \<leftarrow>
          (if timer_flg s \<noteq> 0
           then
             (if \<not> i2c0 s then None
              else do {
                let (w, s) = get_i2c I2C_FIFO_RDATA_OFFSET env s;
                let s = s\<lparr>i2c_buf := (i2c_buf s)[unat (i2c_buf_wr s) := ucast w],
                  i2c_buf_wr := i2c_buf_wr s + 1\<rparr>;
                let (_, s) = I2CBusTrEnd env s;
                let r = rd (cfg_i2c s) ! raddr s;
                s \<leftarrow> I2CBusPreReadWord (rd_dev_addr r) (rd_reg_addr r) s;
                Some (pp_next_raddr s)
              })
           else Some s);
        Some (if regval AND 0x07 \<noteq> 0
              then (let (w, s) = pp_get ticr_in env s in pp_put (Ticr_put (regval OR w)) s)
              else s)
      })"

section \<open>The timer, power and start\<close>

definition pp_FlushI2CBuf :: "pp \<Rightarrow> pp" where
  "pp_FlushI2CBuf s = s\<lparr>raddr := 0, i2c_buf_wr := 0, i2c_buf_rd := 0\<rparr>"

definition pp_Timer_Stop :: "pp \<Rightarrow> pp" where
  "pp_Timer_Stop s =
     (let s = s\<lparr>t_rd_us := 0, timer_flg := 0\<rparr>
      in if timer1 s then pp_put Tim_irq_off ((pp_put Tim_stop s)\<lparr>timer1_on := False\<rparr>) else s)"

text \<open>The clock is 1 MHz, so the compare value is the period in microseconds less one.\<close>

definition pp_Timer_Init :: "pp_env \<Rightarrow> u32 \<Rightarrow> pp \<Rightarrow> pp option" where
  "pp_Timer_Init env period s =
     (let s = (if timer1 s then pp_put Tim_irq_off ((pp_put Tim_stop s)\<lparr>timer1_on := False\<rparr>) else s);
          (f, s) = pp_get dev_found env s;
          s = s\<lparr>timer1 := f\<rparr>
      in if \<not> timer1 s then None
         else Some (pp_put Tim_irq_on ((pp_put (Tim_init (period - 1)) s)\<lparr>timer1_comp0 := period - 1\<rparr>)))"

definition pp_set_pktcnt :: "u8 \<Rightarrow> pp \<Rightarrow> pp" where
  "pp_set_pktcnt n s = s\<lparr>cfg_i2c := (cfg_i2c s)\<lparr>pktcnt := n\<rparr>\<rparr>"

text \<open>The second write of the sleep sends \<open>slp[0]\<close> once more.\<close>

definition pp_sleep_writes :: "pp_env \<Rightarrow> pp \<Rightarrow> pp option" where
  "pp_sleep_writes env s =
     (let r = slp (cfg_i2c s) ! 0
      in if wr_dev_addr r \<noteq> 0
         then do {
           s \<leftarrow> pp_I2CBusInit env (ucast (clk_khz (cfg_i2c s))) 0 s;
           (_, s) \<leftarrow> pp_I2CBusWriteWord env (wr_dev_addr r) (wr_reg_addr r) (wr_data r) s;
           if wr_dev_addr (slp (cfg_i2c s) ! 1) \<noteq> 0
           then do { (_, s) \<leftarrow> pp_I2CBusWriteWord env (wr_dev_addr r) (wr_reg_addr r) (wr_data r) s; Some s }
           else Some s
         }
         else Some s)"

definition pp_I2CDevSleep :: "pp_env \<Rightarrow> pp \<Rightarrow> pp option" where
  "pp_I2CDevSleep env s = do {
     let s = (pp_set_pktcnt 0 s)\<lparr>t_rd_us := 0\<rparr>;
     s \<leftarrow> pp_sleep_writes env (pp_Timer_Stop s);
     let s = pp_I2CBusDeInit env s;
     let s = (if gpio_pwr s
              then fold pp_put [Gpio_init PP_SDA Out_float_pullup, Gpio_init PP_SCL Out_float_pullup,
                     Gpio_reset PP_POWER, Gpio_reset PP_SDA, Gpio_reset PP_SCL] s
              else s);
     Some (reset_i2c0 env s)
   }"

definition pp_clamp_clk :: "pp \<Rightarrow> u32 \<times> pp" where
  "pp_clamp_clk s =
     (let clk = (ucast (clk_khz (cfg_i2c s)) :: u32) AND 0x7fff
      in if clk < 50 \<or> clk > 2500
         then (1000, s\<lparr>cfg_i2c := (cfg_i2c s)\<lparr>clk_khz := (clk_khz (cfg_i2c s) AND 0x8000) OR 1000\<rparr>\<rparr>)
         else (clk, s))"

text \<open>The loop over \<open>cfg_i2c.init\<close>, stopping at the first entry with device address 0.\<close>

fun pp_init_regs :: "pp_env \<Rightarrow> reg_wr_t list \<Rightarrow> pp \<Rightarrow> pp option" where
  "pp_init_regs env [] s = Some s"
| "pp_init_regs env (r # rs) s =
     (if wr_dev_addr r = 0 then Some s
      else do {
        let s = pp_put (Wait_us 200) s;
        (ret, s) \<leftarrow> pp_I2CBusWriteWord env (wr_dev_addr r) (wr_reg_addr r) (wr_data r) s;
        let s = (if ret = 0 then pp_Timer_Stop (pp_set_pktcnt 0 s) else s);
        pp_init_regs env rs s
      })"

definition pp_prepare :: "pp_env \<Rightarrow> pp \<Rightarrow> pp option" where
  "pp_prepare env s =
     (let s = pp_FlushI2CBuf s
      in if pktcnt (cfg_i2c s) \<noteq> 0
         then do {
           s \<leftarrow> pp_Timer_Init env (t_rd_us s) s;
           Some (s\<lparr>all_read_count := 0, all_overflow_cnt := 0\<rparr>)
         }
         else Some (pp_Timer_Stop s))"

definition pp_begin :: "pp \<Rightarrow> (int \<times> pp) option" where
  "pp_begin s =
     (if pktcnt (cfg_i2c s) \<noteq> 0
      then
        (let r = rd (cfg_i2c s) ! raddr s
         in if rd_dev_addr r \<noteq> 0
            then do {
              s \<leftarrow> I2CBusPreReadWord (rd_dev_addr r) (rd_reg_addr r) s;
              let s = pp_next_raddr s;
              let s = s\<lparr>timer_flg := 1\<rparr>;
              Some (1, (pp_put Tim_start s)\<lparr>timer1_on := True\<rparr>)
            }
            else Some (0, s))
      else Some (1, s))"

text \<open>A shift count of 32 or more is undefined in C: \<open>None\<close>.\<close>

definition InitI2CDevice :: "pp_env \<Rightarrow> pp \<Rightarrow> (int \<times> pp) option" where
  "InitI2CDevice env s = do {
     let s = reset_i2c0 env s;
     let s = s\<lparr>timer_flg := 0\<rparr>;
     let s = (if pktcnt (cfg_i2c s) > MAX_I2C_PKTCNT then pp_set_pktcnt MAX_I2C_PKTCNT s else s);
     let (clk, s) = pp_clamp_clk s;
     s \<leftarrow> pp_I2CBusInit env clk (ucast (clk_khz (cfg_i2c s) AND 0x8000)) s;
     t \<leftarrow> (if unat (multiplier (cfg_i2c s)) < 32
            then Some (push_bit (unat (multiplier (cfg_i2c s))) (ucast (time (cfg_i2c s)) :: u32))
            else None);
     let s = s\<lparr>t_rd_us := t\<rparr>;
     if t_rd_us s < (7 * 10 * 1000) div clk
     then Some (0, pp_Timer_Stop (pp_set_pktcnt 0 s))
     else do {
       s \<leftarrow> pp_prepare env s;
       s \<leftarrow> pp_init_regs env (init (cfg_i2c s)) s;
       pp_begin s
     }
   }"

definition pp_I2CDevWakeUp :: "pp_env \<Rightarrow> pp \<Rightarrow> pp option" where
  "pp_I2CDevWakeUp env s = do {
     let (f, s) = pp_get dev_found env s;
     s \<leftarrow> (if f then Some (s\<lparr>gpio_pwr := f\<rparr>) else None);
     let s = fold pp_put [Gpio_init PP_SDA Func_i2c0, Gpio_init PP_SCL Func_i2c0,
               Gpio_init PP_POWER Out_pullup, Wait_us 5000, Gpio_set PP_POWER, Wait_us 50000] s;
     let s = pp_set_pktcnt 0 s;
     (_, s) \<leftarrow> InitI2CDevice env s;
     Some s
   }"

section \<open>The packing task\<close>

definition swab16 :: "u16 \<Rightarrow> u8 list" where
  "swab16 w = [ucast (drop_bit 8 w), ucast w]"

definition pp_blk_bytes :: "pp \<Rightarrow> u8 list" where
  "pp_blk_bytes s = [blk_count s, blk_id s] @ blk_data s"

definition pp_send_blk :: "pp \<Rightarrow> pp" where
  "pp_send_blk s =
     (let sz = (2 + ucast (blk_count s) :: u32);
          (n, rb) = Ring_Buffer_Write (usb_tx_rb s) (pp_blk_bytes s) sz;
          s = s\<lparr>usb_tx_rb := rb\<rparr>
      in if sz = n then s\<lparr>all_read_count := all_read_count s + 1\<rparr>
         else s\<lparr>all_overflow_cnt := all_overflow_cnt s + 1\<rparr>)"

definition task_I2C :: "pp \<Rightarrow> pp" where
  "task_I2C s =
     (let prd = unat (i2c_buf_rd s); pwr = unat (i2c_buf_wr s);
          n = unat (pktcnt (cfg_i2c s))
      in if n = 0 then s
         else if pwr < prd
         then
           (if 256 - prd + pwr \<ge> n
            then
              (let (bs1, sz) = copy_to_end swab16 (i2c_buf s) prd n;
                   bs2 = copy_n swab16 (i2c_buf s) 0 sz
               in pp_send_blk (s\<lparr>i2c_buf_rd := of_nat sz, blk_count := push_bit 1 (pktcnt (cfg_i2c s)),
                    blk_id := CMD_DEV_I2C, blk_data := splice_at (blk_data s) 0 (bs1 @ bs2)\<rparr>))
            else s)
         else if pwr > prd
         then
           (if pwr - prd \<ge> n
            then pp_send_blk (s\<lparr>i2c_buf_rd := of_nat (prd + n),
                   blk_count := push_bit 1 (pktcnt (cfg_i2c s)), blk_id := CMD_DEV_I2C,
                   blk_data := splice_at (blk_data s) 0 (copy_n swab16 (i2c_buf s) prd n)\<rparr>)
            else s)
         else s)"

section \<open>Transfers on the wire\<close>

text \<open>
  What the peripheral does with the registers written: enabling the master starts a transfer to the
  7-bit address in the configuration, with the register number as the one sub-address byte; a write
  sends the bytes of the data register from the lowest.
\<close>

datatype xfer = Rd u32 u32 nat | Wr u32 u32 "u8 list"

definition xfer_of :: "u32 \<Rightarrow> u32 \<Rightarrow> u32 \<Rightarrow> xfer" where
  "xfer_of w sub wdata =
     (let slave = drop_bit 8 w AND 0x7f; n = unat (drop_bit 16 w AND 0xff) + 1
      in if bit w 1 then Rd slave sub n else Wr slave sub (take n (le32 wdata)))"

fun i2c_unit :: "pp_out \<Rightarrow> u32 \<times> u32 \<times> xfer list \<Rightarrow> u32 \<times> u32 \<times> xfer list" where
  "i2c_unit (I2c_put off v) (sub, wdata, xs) =
     (if off = I2C_SUB_ADDR_OFFSET then (v, wdata, xs)
      else if off = I2C_FIFO_WDATA_OFFSET then (sub, v, xs)
      else if off = I2C_CONFIG_OFFSET \<and> bit v 0 then (sub, wdata, xs @ [xfer_of v sub wdata])
      else (sub, wdata, xs))"
| "i2c_unit _ st = st"

definition xfers :: "pp \<Rightarrow> xfer list" where
  "xfers s = snd (snd (fold i2c_unit (pp_log s) (0, 0, [])))"

lemma bit_field: "bit (0x7f :: u32) j \<longleftrightarrow> j < 7" "bit (3 :: u32) j \<longleftrightarrow> j < 2" "bit (0xff :: u32) j \<longleftrightarrow> j < 8"
  using bit_mask_iff [of 7 j, where 'a = u32] bit_mask_iff [of 2 j, where 'a = u32]
    bit_mask_iff [of 8 j, where 'a = u32] by (auto simp: mask_eq_exp_minus_1)

lemma bit_xfer_config: 
  assumes "i < 32"
  shows "bit (xfer_config d a w) i \<longleftrightarrow>
    (\<not> (16 \<le> i \<and> i < 24) \<and> ((8 \<le> i \<and> i < 15 \<and> bit a (i - 7)) \<or>
       \<not> (8 \<le> i \<and> i < 15) \<and> \<not> (5 \<le> i \<and> i < 7) \<and> (i = 4 \<or> (if i = 1 then d else bit w i)))) \<or> i = 16"
proof -
  have "i \<in> set [0..<32]" using assms by simp
  moreover have "[0..<32] = [0, 1, 2, 3, 4, 5, 6, 7, 8, 9, 10, 11, 12, 13, 14, 15, 16, 17, 18, 19, 20,
    21, 22, 23, 24, 25, 26, 27, 28, 29, 30, 31]"
    by (simp add: upt_rec)
  ultimately have "i \<in> {0, 1, 2, 3, 4, 5, 6, 7, 8, 9, 10, 11, 12, 13, 14, 15, 16, 17, 18, 19, 20,
    21, 22, 23, 24, 25, 26, 27, 28, 29, 30, 31}"
    by (simp only: list.set)
  then show ?thesis
    by (elim insertE emptyE)
      (auto simp: xfer_config_def Let_def I2C_CR_I2C_PKT_DIR_def I2C_CR_I2C_SUB_ADDR_EN_def
        I2C_CR_I2C_SUB_ADDR_BC_MASK_def I2C_CR_I2C_SLV_ADDR_MASK_def I2C_CR_I2C_PKT_LEN_MASK_def
        bit_or_iff bit_and_iff bit_not_iff bit_push_bit_iff bit_field bit_1_iff bit_ucast_iff)
qed

lemma xfer_of_config:
  "xfer_of (xfer_config d a w OR I2C_CR_I2C_M_EN) sub wdata =
     (if d then Rd (ucast (drop_bit 1 a)) sub 2 else Wr (ucast (drop_bit 1 a)) sub (take 2 (le32 wdata)))"
proof -
  let ?c = "xfer_config d a w OR I2C_CR_I2C_M_EN"
  define e where "e = ?c"
  have c: "bit e i \<longleftrightarrow> i = 0 \<or> bit (xfer_config d a w) i" for i
    by (auto simp: e_def I2C_CR_I2C_M_EN_def bit_or_iff bit_1_iff)
  have slave: "drop_bit 8 e AND 0x7f = ucast (drop_bit 1 a)"
  proof (rule bit_word_eqI)
    fix n assume "n < LENGTH(32)"
    have "bit (drop_bit 8 e AND 0x7f) n \<longleftrightarrow> bit (xfer_config d a w) (8 + n) \<and> n < 7"
      unfolding bit_and_iff bit_field bit_drop_bit_eq comp_apply c by simp
    also have "\<dots> \<longleftrightarrow> bit a (Suc n)"
      using bit_imp_le_length [of a "Suc n"] bit_xfer_config [of "8 + n" d a w]
      by (cases "n < 7") auto
    finally show "bit (drop_bit 8 e AND 0x7f) n \<longleftrightarrow> bit (ucast (drop_bit 1 a) :: u32) n"
      using \<open>n < LENGTH(32)\<close> by (simp add: bit_ucast_iff bit_drop_bit_eq)
  qed
  have len: "drop_bit 16 e AND 0xff = 1"
  proof (rule bit_word_eqI)
    fix n assume "n < LENGTH(32)"
    have "bit (drop_bit 16 e AND 0xff) n \<longleftrightarrow> bit (xfer_config d a w) (16 + n) \<and> n < 8"
      unfolding bit_and_iff bit_field bit_drop_bit_eq comp_apply c by simp
    also have "\<dots> \<longleftrightarrow> n = 0"
      using bit_xfer_config [of "16 + n" d a w] by (cases "n < 8") auto
    finally show "bit (drop_bit 16 e AND 0xff) n \<longleftrightarrow> bit (1 :: u32) n" by (simp add: bit_1_iff)
  qed
  have "bit e 1 = d" by (simp add: c bit_xfer_config)
  then show ?thesis unfolding e_def [symmetric] xfer_of_def Let_def slave len by (simp add: numeral_2_eq_2)
qed

lemma xfer_enabled: "bit (w OR I2C_CR_I2C_M_EN) 0" "\<not> bit (w AND NOT I2C_CR_I2C_M_EN) 0"
  by (simp_all add: I2C_CR_I2C_M_EN_def bit_simps)

section \<open>What the bus functions leave alone\<close>

definition pp_core :: "pp \<Rightarrow> pp" where
  "pp_core s = s\<lparr>i2c_config := 0, glb_swrst := 0, pp_log := [], pp_pos := 0\<rparr>"

lemma pp_core_fields:
  assumes "pp_core s' = pp_core s"
  shows "i2c0 s' = i2c0 s" "timer1 s' = timer1 s" "timer1_comp0 s' = timer1_comp0 s"
    "timer1_on s' = timer1_on s" "gpio_pwr s' = gpio_pwr s" "cfg_i2c s' = cfg_i2c s"
    "timer_flg s' = timer_flg s" "t_rd_us s' = t_rd_us s" "raddr s' = raddr s" "i2c_buf s' = i2c_buf s"
    "i2c_buf_wr s' = i2c_buf_wr s" "i2c_buf_rd s' = i2c_buf_rd s" "blk_count s' = blk_count s"
    "blk_id s' = blk_id s" "blk_data s' = blk_data s" "all_read_count s' = all_read_count s"
    "all_overflow_cnt s' = all_overflow_cnt s" "usb_tx_rb s' = usb_tx_rb s"
  using arg_cong [OF assms, of i2c0] arg_cong [OF assms, of timer1] arg_cong [OF assms, of timer1_comp0] arg_cong [OF assms, of timer1_on] arg_cong [OF assms, of gpio_pwr]
    arg_cong [OF assms, of cfg_i2c] arg_cong [OF assms, of timer_flg] arg_cong [OF assms, of t_rd_us]
    arg_cong [OF assms, of raddr] arg_cong [OF assms, of i2c_buf] arg_cong [OF assms, of i2c_buf_wr]
    arg_cong [OF assms, of i2c_buf_rd] arg_cong [OF assms, of blk_count] arg_cong [OF assms, of blk_id]
    arg_cong [OF assms, of blk_data] arg_cong [OF assms, of all_read_count]
    arg_cong [OF assms, of all_overflow_cnt] arg_cong [OF assms, of usb_tx_rb]
  by (simp_all add: pp_core_def)

lemma pp_core_put [simp]: "pp_core (pp_put x s) = pp_core s" "pp_core (put_config w s) = pp_core s"
  "pp_core (s\<lparr>pp_pos := p\<rparr>) = pp_core s"
  by (simp_all add: pp_core_def pp_put_def put_config_def)

lemma put_simps [simp]: "i2c0 (pp_put x s) = i2c0 s" "i2c0 (put_config w s) = i2c0 s"
  "i2c_config (pp_put x s) = i2c_config s" "i2c_config (put_config w s) = w"
  "pp_log (pp_put x s) = pp_log s @ [x]" "pp_pos (pp_put x s) = pp_pos s"
  "pp_pos (put_config w s) = pp_pos s"
  "pp_log (put_config w s) = pp_log s @ [I2c_put I2C_CONFIG_OFFSET w]"
  by (simp_all add: pp_put_def put_config_def)

text \<open>The state of the peripheral's registers: the last sub-address, the last data, the transfers.\<close>

definition unit_state :: "pp \<Rightarrow> u32 \<times> u32 \<times> xfer list" where
  "unit_state s = fold i2c_unit (pp_log s) (0, 0, [])"

lemma xfers_unit: "xfers s = snd (snd (unit_state s))"
  by (simp add: xfers_def unit_state_def)

lemma unit_state_put [simp]:
  "unit_state (pp_put x s) = i2c_unit x (unit_state s)"
  "unit_state (put_config w s) = i2c_unit (I2c_put I2C_CONFIG_OFFSET w) (unit_state s)"
  "unit_state (s\<lparr>pp_pos := p\<rparr>) = unit_state s"
  by (simp_all add: unit_state_def pp_put_def put_config_def)

lemma i2c_unit_simps [simp]:
  "i2c_unit (I2c_put I2C_SUB_ADDR_OFFSET v) (a, b, xs) = (v, b, xs)"
  "i2c_unit (I2c_put I2C_FIFO_WDATA_OFFSET v) (a, b, xs) = (a, v, xs)"
  "i2c_unit (I2c_put I2C_CONFIG_OFFSET w) (a, b, xs) = (a, b, if bit w 0 then xs @ [xfer_of w a b] else xs)"
  "i2c_unit (I2c_put I2C_FIFO_CONFIG_0_OFFSET v) st = st" "i2c_unit (I2c_put I2C_INT_STS_OFFSET v) st = st"
  "i2c_unit (I2c_put I2C_PRD_START_OFFSET v) st = st" "i2c_unit (I2c_put I2C_PRD_STOP_OFFSET v) st = st"
  "i2c_unit (I2c_put I2C_PRD_DATA_OFFSET v) st = st"
  by (simp_all add: regs) (cases st; simp add: regs)+

declare i2c_unit.simps(1) [simp del]

text \<open>The wait and the end of a transfer change nothing the program sees and start no transfer.\<close>

lemma tr_busy_loop_frame:
  assumes "tr_busy_loop env start_time tmo s = Some y"
  shows "(fst y = 0 \<or> fst y = - ETIMEDOUT) \<and> (\<exists>p \<ge> pp_pos s. snd y = s\<lparr>pp_pos := p\<rparr>)"
  using assms
proof (induction rule: tr_busy_loop.raw_induct
    [where P = "\<lambda>env st tmo s y. (fst y = 0 \<or> fst y = - ETIMEDOUT) \<and> (\<exists>p \<ge> pp_pos s. snd y = s\<lparr>pp_pos := p\<rparr>)",
     rotated, consumes 1, case_names step])
  case (step f env st tmo s y)
  let ?p = "pp_pos s"
  have "\<exists>p \<ge> ?p. y = (0, s\<lparr>pp_pos := p\<rparr>) \<or> y = (- ETIMEDOUT, s\<lparr>pp_pos := p\<rparr>) \<or>
      f env st tmo (s\<lparr>pp_pos := p\<rparr>) = Some y"
  proof -
    have "\<exists>p \<in> {?p + 1, ?p + 2, ?p + 3}. y = (0, s\<lparr>pp_pos := p\<rparr>) \<or> y = (- ETIMEDOUT, s\<lparr>pp_pos := p\<rparr>) \<or>
        f env st tmo (s\<lparr>pp_pos := p\<rparr>) = Some y"
      using step(2) by (auto simp: pp_get_def Let_def eval_nat_numeral split: if_splits)
    then obtain p where p: "p \<in> {?p + 1, ?p + 2, ?p + 3}" and
      y: "y = (0, s\<lparr>pp_pos := p\<rparr>) \<or> y = (- ETIMEDOUT, s\<lparr>pp_pos := p\<rparr>) \<or> f env st tmo (s\<lparr>pp_pos := p\<rparr>) = Some y"
      by blast
    have "p \<ge> ?p" using p by auto
    with y show ?thesis by blast
  qed
  moreover have "(fst y = 0 \<or> fst y = - ETIMEDOUT) \<and> (\<exists>p \<ge> pp_pos s. snd y = s\<lparr>pp_pos := p\<rparr>)"
    if "f env st tmo (s\<lparr>pp_pos := p\<rparr>) = Some y" "p \<ge> ?p" for p
  proof -
    from step(1) [OF that(1)] obtain q where "fst y = 0 \<or> fst y = - ETIMEDOUT" "q \<ge> p" "snd y = s\<lparr>pp_pos := q\<rparr>"
      by auto
    with that(2) show ?thesis by (intro conjI exI [of _ q]) simp_all
  qed
  ultimately show ?case by auto
qed

lemma tr_busy_frame:
  assumes "I2CBusTrBusy env tmo s = Some (r, s')"
  shows "\<exists>p \<ge> pp_pos s. s' = s\<lparr>pp_pos := p\<rparr>"
proof (cases "i2c0 s")
  case False
  with assms show ?thesis by (auto simp: I2CBusTrBusy_def intro: exI [of _ "pp_pos s"])
next
  case True
  with assms obtain t where "tr_busy_loop env t tmo (s\<lparr>pp_pos := Suc (pp_pos s)\<rparr>) = Some (r, s')"
    by (auto simp: I2CBusTrBusy_def pp_get_def)
  from tr_busy_loop_frame [OF this] obtain p where "p \<ge> Suc (pp_pos s)" "s' = s\<lparr>pp_pos := p\<rparr>" by auto
  then show ?thesis by (intro exI [of _ p]) simp
qed

lemma tr_end_spec:
  "pp_core (snd (I2CBusTrEnd env s)) = pp_core s \<and> unit_state (snd (I2CBusTrEnd env s)) = unit_state s \<and>
   (i2c0 s \<longrightarrow> fst (I2CBusTrEnd env s) \<in> {0, 1} \<and> \<not> bit (i2c_config (snd (I2CBusTrEnd env s))) 0) \<and>
   (\<not> i2c0 s \<longrightarrow> I2CBusTrEnd env s = (-1, s))"
proof -
  obtain a b xs where "unit_state s = (a, b, xs)" by (rule prod_cases3)
  then show ?thesis by (auto simp: I2CBusTrEnd_def pp_get_def Let_def xfer_enabled)
qed

lemma swapped_bytes:
  "take 2 (le32 (push_bit 8 (ucast d) OR drop_bit 8 (ucast d))) = [ucast (drop_bit 8 d), ucast d]"
  for d :: u16
proof -
  have "(ucast (push_bit 8 (ucast d :: u32) OR drop_bit 8 (ucast d)) :: u8) = ucast (drop_bit 8 d)"
    by (rule bit_word_eqI) (auto simp: bit_simps)
  moreover have "(ucast (drop_bit 8 (push_bit 8 (ucast d :: u32) OR drop_bit 8 (ucast d))) :: u8) = ucast d"
  proof (rule bit_word_eqI)
    fix n assume n: "n < LENGTH(8)"
    have "\<not> bit d (16 + n)" using bit_imp_le_length [of d "16 + n"] by auto
    then show "bit (ucast (drop_bit 8 (push_bit 8 (ucast d :: u32) OR drop_bit 8 (ucast d))) :: u8) n \<longleftrightarrow>
        bit (ucast d :: u8) n"
      using n by (auto simp: bit_simps)
  qed
  ultimately show ?thesis by (simp add: le32_def)
qed

lemma pre_read_spec:
  assumes "I2CBusPreReadWord a r s = Some s'"
  shows "i2c0 s \<and> pp_core s' = pp_core s \<and> pp_pos s' = pp_pos s \<and>
    xfers s' = xfers s @ [Rd (ucast (drop_bit 1 a)) (ucast r) 2]"
proof -
  obtain x y xs where "unit_state s = (x, y, xs)" by (rule prod_cases3)
  with assms show ?thesis
    by (auto simp: I2CBusPreReadWord_def Let_def xfers_unit xfer_enabled xfer_of_config split: if_splits)
qed

lemma bus_write_spec:
  assumes "pp_I2CBusWriteWord env a r d s = Some (ret, s')"
  shows "if i2c0 s
    then pp_core s' = pp_core s \<and> ret \<in> {0, 1} \<and>
      xfers s' = xfers s @ [Wr (ucast (drop_bit 1 a)) (ucast r) [ucast (drop_bit 8 d), ucast d]]
    else ret = -1 \<and> s' = s"
proof (cases "i2c0 s")
  case True
  obtain x y xs where u: "unit_state s = (x, y, xs)" by (rule prod_cases3)
  define t where "t = put_config (xfer_config False a (i2c_config s) OR I2C_CR_I2C_M_EN)
    (pp_put (I2c_put I2C_FIFO_WDATA_OFFSET (push_bit 8 (ucast d) OR drop_bit 8 (ucast d)))
      (pp_put (I2c_put I2C_SUB_ADDR_OFFSET (ucast r)) s))"
  have t: "pp_core t = pp_core s" "i2c0 t"
    "xfers t = xfers s @ [Wr (ucast (drop_bit 1 a)) (ucast r) [ucast (drop_bit 8 d), ucast d]]"
    using True by (simp_all add: t_def xfers_unit u xfer_enabled xfer_of_config swapped_bytes)
  obtain q t2 where q: "I2CBusTrBusy env 4000 t = Some (q, t2)" "(ret, s') = I2CBusTrEnd env t2"
    using assms True by (auto simp: pp_I2CBusWriteWord_def Let_def bind_eq_Some_conv simp flip: t_def)
  obtain p where p: "t2 = t\<lparr>pp_pos := p\<rparr>" using tr_busy_frame [OF q(1)] by blast
  have "i2c0 t2" "pp_core t2 = pp_core t" "xfers t2 = xfers t" using t by (simp_all add: p xfers_unit)
  with tr_end_spec [of env t2] t True show ?thesis
    by (simp add: q(2) [symmetric] xfers_unit)
qed (use assms in \<open>simp add: pp_I2CBusWriteWord_def\<close>)

lemma bus_read_spec:
  assumes "pp_I2CBusReadWord env a r s = Some (ret, bs, s')"
  shows "if i2c0 s
    then pp_core s' = pp_core s \<and> ret \<in> {0, 1} \<and> (\<exists>x y. bs = Some [x, y]) \<and>
      xfers s' = xfers s @ [Rd (ucast (drop_bit 1 a)) (ucast r) 2]
    else ret = -1 \<and> bs = None \<and> s' = s"
proof (cases "i2c0 s")
  case True
  obtain t q t2 where q: "I2CBusPreReadWord a r s = Some t" "I2CBusTrBusy env 4000 t = Some (q, t2)"
    using assms True by (auto simp: pp_I2CBusReadWord_def bind_eq_Some_conv)
  have q3: "\<exists>x y. bs = Some [x, y]" "(ret, s') = I2CBusTrEnd env (t2\<lparr>pp_pos := Suc (pp_pos t2)\<rparr>)"
    using assms True q
    by (cases "I2CBusTrEnd env (t2\<lparr>pp_pos := Suc (pp_pos t2)\<rparr>)";
        auto simp: pp_I2CBusReadWord_def pp_get_def)+
  note t = pre_read_spec [OF q(1)]
  define t3 where "t3 = t2\<lparr>pp_pos := Suc (pp_pos t2)\<rparr>"
  obtain p where p: "t2 = t\<lparr>pp_pos := p\<rparr>" using tr_busy_frame [OF q(2)] by blast
  have "pp_core t3 = pp_core s" "xfers t3 = xfers t" using t by (simp_all add: t3_def p xfers_unit)
  with tr_end_spec [of env t3] t q3(1) True pp_core_fields(1) [of t3 s] show ?thesis
    by (simp add: q3(2) [folded t3_def, symmetric] xfers_unit)
qed (use assms in \<open>simp add: pp_I2CBusReadWord_def\<close>)

lemma bus_deinit_spec:
  "pp_core (pp_I2CBusDeInit env s) = pp_core s \<and> xfers (pp_I2CBusDeInit env s) = xfers s"
  using tr_end_spec [of env s]
  by (cases "I2CBusTrEnd env s") (auto simp: pp_I2CBusDeInit_def pp_get_def Let_def xfers_unit)

lemma sync_keeps_disabled: "\<not> bit c 0 \<Longrightarrow> \<not> bit (c AND NOT I2C_CR_I2C_SCL_SYNC_EN) 0"
  by (simp add: bit_simps)

lemma set_clk_spec:
  assumes "set_i2c_clk env f cs s = Some s'" "\<not> bit (i2c_config s) 0"
  shows "pp_core s' = pp_core s \<and> xfers s' = xfers s"
proof -
  obtain x y xs where u: "unit_state s = (x, y, xs)" by (rule prod_cases3)
  with assms show ?thesis
    by (auto simp: set_i2c_clk_def pp_get_def Let_def xfers_unit sync_keeps_disabled split: if_splits)
qed

lemma bus_init_spec:
  assumes "pp_I2CBusInit env k cs s = Some s'"
  shows "pp_core s' = pp_core (s\<lparr>i2c0 := dev_found (env (pp_pos s))\<rparr>) \<and> xfers s' = xfers s"
proof -
  define t where "t = s\<lparr>pp_pos := Suc (pp_pos s), i2c0 := dev_found (env (pp_pos s))\<rparr>"
  have t: "pp_core t = pp_core (s\<lparr>i2c0 := dev_found (env (pp_pos s))\<rparr>)" "xfers t = xfers s"
    "i2c0 t = dev_found (env (pp_pos s))"
    by (simp_all add: t_def pp_core_def xfers_def)
  show ?thesis
  proof (cases "i2c0 t")
    case True
    then have *: "set_i2c_clk env (k * 1000) (cs \<noteq> 0) (snd (I2CBusTrEnd env t)) = Some s'"
      using assms t(3) by (simp add: pp_I2CBusInit_def pp_get_def Let_def case_prod_unfold t_def)
    have "\<not> bit (i2c_config (snd (I2CBusTrEnd env t))) 0" using tr_end_spec [of env t] True by simp
    from set_clk_spec [OF * this] tr_end_spec [of env t] t show ?thesis by (simp add: xfers_unit)
  next
    case False
    then have "s' = t" using assms t(3) by (simp add: pp_I2CBusInit_def pp_get_def Let_def t_def)
    with t show ?thesis by simp
  qed
qed

lemma reset_spec: "pp_core (reset_i2c0 env s) = pp_core s \<and> xfers (reset_i2c0 env s) = xfers s"
proof -
  obtain x y xs where u: "unit_state s = (x, y, xs)" by (rule prod_cases3)
  then show ?thesis
    by (simp add: reset_i2c0_def pp_get_def Let_def xfers_def unit_state_def pp_core_def pp_put_def)
qed

section \<open>Well-formed states\<close>

definition pp_pending :: "pp \<Rightarrow> u16 list" where
  "pp_pending s = ring256 (i2c_buf s) (i2c_buf_rd s) (i2c_buf_wr s)"

definition pp_wf :: "pp \<Rightarrow> bool" where
  "pp_wf s \<longleftrightarrow> i2c_cfg_wf (cfg_i2c s) \<and> raddr s < 4 \<and> length (i2c_buf s) = 256 \<and>
     length (blk_data s) = 120 \<and> rb_wf (usb_tx_rb s) \<and> unat (pktcnt (cfg_i2c s)) \<le> 60"

definition pp_shape :: "pp \<Rightarrow> bool" where
  "pp_shape s \<longleftrightarrow> i2c_cfg_wf (cfg_i2c s) \<and> raddr s < 4 \<and> length (i2c_buf s) = 256 \<and>
     length (blk_data s) = 120 \<and> rb_wf (usb_tx_rb s)"

lemma pp_wf_shape: "pp_wf s \<longleftrightarrow> pp_shape s \<and> pktcnt (cfg_i2c s) \<le> 60"
  by (auto simp: pp_wf_def pp_shape_def word_le_nat_alt)

lemma pp_core_wf: "pp_core s' = pp_core s \<Longrightarrow> pp_wf s' = pp_wf s"
  using pp_core_fields [of s' s] by (simp add: pp_wf_def)

lemma pp_core_pending: "pp_core s' = pp_core s \<Longrightarrow> pp_pending s' = pp_pending s"
  using pp_core_fields [of s' s] by (simp add: pp_pending_def)

lemma i2c_cfg_wf_update [simp]:
  "i2c_cfg_wf (c\<lparr>pktcnt := n\<rparr>) = i2c_cfg_wf c" "i2c_cfg_wf (c\<lparr>clk_khz := k\<rparr>) = i2c_cfg_wf c"
  for c :: "'a i2c_poll_cfg_scheme"
  by (simp_all add: i2c_cfg_wf_def)

section \<open>The interrupt\<close>

definition rd_xfer :: "reg_rd_t \<Rightarrow> xfer" where
  "rd_xfer r = Rd (ucast (drop_bit 1 (rd_dev_addr r))) (ucast (rd_reg_addr r)) 2"

definition wr_xfer :: "reg_wr_t \<Rightarrow> xfer" where
  "wr_xfer r = Wr (ucast (drop_bit 1 (wr_dev_addr r))) (ucast (wr_reg_addr r))
     [ucast (drop_bit 8 (wr_data r)), ucast (wr_data r)]"

lemma pp_next_raddr_eq: "pp_next_raddr s = s\<lparr>raddr := next_raddr (cfg_i2c s) (raddr s)\<rparr>"
  by (simp add: pp_next_raddr_def next_raddr_def)

lemma next_raddr_less: "next_raddr c k < 4"
  by (simp add: next_raddr_def)

lemma pp_core_cong:
  "pp_core s' = pp_core s \<Longrightarrow> pp_core (s'\<lparr>raddr := k\<rparr>) = pp_core (s\<lparr>raddr := k\<rparr>)"
  "pp_core s' = pp_core s \<Longrightarrow> pp_core (s'\<lparr>timer_flg := x\<rparr>) = pp_core (s\<lparr>timer_flg := x\<rparr>)"
  using pp_core_fields [of s' s] by (simp_all add: pp_core_def)

lemma xfers_simps [simp]:
  "xfers (s\<lparr>raddr := k\<rparr>) = xfers s" "xfers (s\<lparr>timer_flg := x\<rparr>) = xfers s"
  "xfers (s\<lparr>pp_pos := p\<rparr>) = xfers s" "xfers (s\<lparr>t_rd_us := t\<rparr>) = xfers s"
  "xfers (s\<lparr>i2c_buf := b, i2c_buf_wr := w\<rparr>) = xfers s" "xfers (s\<lparr>cfg_i2c := c\<rparr>) = xfers s"
  "xfers (s\<lparr>all_read_count := m, all_overflow_cnt := n\<rparr>) = xfers s"
  "xfers (s\<lparr>raddr := k, i2c_buf_wr := w, i2c_buf_rd := r\<rparr>) = xfers s"
  "xfers (s\<lparr>timer1 := f\<rparr>) = xfers s"
  by (simp_all add: xfers_def)

lemma xfers_put_other:
  "(\<And>st. i2c_unit x st = st) \<Longrightarrow> xfers (pp_put x s) = xfers s"
  by (simp add: xfers_unit)

lemma pp_isr_spec:
  assumes "pp_timer1_isr env s = Some s'" "timer_flg s \<noteq> 0"
  shows "pp_core s' = pp_core (s\<lparr>raddr := next_raddr (cfg_i2c s) (raddr s),
      i2c_buf := (i2c_buf s)[unat (i2c_buf_wr s) :=
        ucast (i2c_in (env (Suc (pp_pos s))) I2C_FIFO_RDATA_OFFSET)],
      i2c_buf_wr := i2c_buf_wr s + 1\<rparr>) \<and>
    xfers s' = xfers s @ [rd_xfer (rd (cfg_i2c s) ! raddr s)] \<and> Suc (pp_pos s) < pp_pos s'"
proof -
  have t: "timer1 s" "i2c0 s"
    using assms by (auto simp: pp_timer1_isr_def pp_get_def Let_def split: if_splits)
  define s1 where "s1 = s\<lparr>pp_pos := Suc (Suc (pp_pos s)), i2c_buf := (i2c_buf s)[unat (i2c_buf_wr s) :=
        ucast (i2c_in (env (Suc (pp_pos s))) I2C_FIFO_RDATA_OFFSET)],
      i2c_buf_wr := i2c_buf_wr s + 1\<rparr>"
  obtain q s2 where s2: "I2CBusTrEnd env s1 = (q, s2)" by fastforce
  define r where "r = rd (cfg_i2c s) ! raddr s"
  have e: "pp_core s2 = pp_core s1" "xfers s2 = xfers s1"
    using tr_end_spec [of env s1] by (simp_all add: s2 xfers_unit)
  then have r2: "rd (cfg_i2c s2) ! raddr s2 = r" "cfg_i2c s2 = cfg_i2c s" "raddr s2 = raddr s" "i2c0 s2"
    using pp_core_fields [OF e(1)] t by (simp_all add: s1_def r_def)
  then obtain s3 where s3: "I2CBusPreReadWord (rd_dev_addr r) (rd_reg_addr r) s2 = Some s3"
    by (auto simp: I2CBusPreReadWord_def)
  note p = pre_read_spec [OF s3]
  have "s' = (let s4 = pp_next_raddr s3; w = tsr_in (env (pp_pos s)) in
      if w AND 7 \<noteq> 0 then pp_put (Ticr_put (w OR ticr_in (env (pp_pos s4)))) (s4\<lparr>pp_pos := Suc (pp_pos s4)\<rparr>)
      else s4)"
    using assms t s2 s3 r2
    by (auto simp: pp_timer1_isr_def pp_get_def Let_def simp flip: s1_def)
  moreover have "pp_core (pp_next_raddr s3) = pp_core (s\<lparr>raddr := next_raddr (cfg_i2c s) (raddr s),
      i2c_buf := (i2c_buf s)[unat (i2c_buf_wr s) :=
        ucast (i2c_in (env (Suc (pp_pos s))) I2C_FIFO_RDATA_OFFSET)],
      i2c_buf_wr := i2c_buf_wr s + 1\<rparr>)"
  proof -
    have c3: "pp_core s3 = pp_core s1" using p e by simp
    show ?thesis unfolding pp_next_raddr_eq pp_core_cong(1) [OF c3]
      using pp_core_fields(6,9) [OF c3] by (simp add: s1_def pp_core_def)
  qed
  moreover have "xfers (pp_next_raddr s3) = xfers s @ [rd_xfer r]"
    using p e by (simp add: pp_next_raddr_eq s1_def rd_xfer_def)
  moreover have "pp_pos (pp_next_raddr s3) > Suc (pp_pos s)"
  proof -
    have "pp_pos s1 \<le> pp_pos s2"
      using s2 by (auto simp: I2CBusTrEnd_def pp_get_def Let_def split: if_splits)
    then show ?thesis using p by (simp add: pp_next_raddr_eq s1_def)
  qed
  ultimately show ?thesis
    by (simp add: Let_def r_def xfers_put_other)
qed

lemma pp_isr_idle:
  assumes "pp_timer1_isr env s = Some s'" "timer_flg s = 0"
  shows "pp_core s' = pp_core s \<and> xfers s' = xfers s"
  using assms
  by (auto simp: pp_timer1_isr_def pp_get_def Let_def xfers_put_other split: if_splits)

lemma pp_isr_total: "timer1 s \<Longrightarrow> i2c0 s \<Longrightarrow> \<exists>s'. pp_timer1_isr env s = Some s'"
proof -
  assume *: "timer1 s" "i2c0 s"
  define s1 where "s1 = s\<lparr>pp_pos := Suc (Suc (pp_pos s)), i2c_buf := (i2c_buf s)[unat (i2c_buf_wr s) :=
        ucast (i2c_in (env (Suc (pp_pos s))) I2C_FIFO_RDATA_OFFSET)],
      i2c_buf_wr := i2c_buf_wr s + 1\<rparr>"
  obtain q s2 where s2: "I2CBusTrEnd env s1 = (q, s2)" by fastforce
  have "pp_core s2 = pp_core s1" using tr_end_spec [of env s1] by (simp add: s2)
  from pp_core_fields(1) [OF this] have "i2c0 s2" using * by (simp add: s1_def)
  then obtain s3 where "I2CBusPreReadWord (rd_dev_addr (rd (cfg_i2c s2) ! raddr s2))
      (rd_reg_addr (rd (cfg_i2c s2) ! raddr s2)) s2 = Some s3"
    by (auto simp: I2CBusPreReadWord_def)
  with * s2 show ?thesis by (auto simp: pp_timer1_isr_def pp_get_def Let_def simp flip: s1_def)
qed

lemma pp_wf_isr:
  assumes "pp_timer1_isr env s = Some s'" "pp_wf s"
  shows "pp_wf s'"
proof (cases "timer_flg s = 0")
  case True
  with pp_isr_idle [OF assms(1)] assms(2) pp_core_wf show ?thesis by blast
next
  case False
  from pp_core_wf [OF conjunct1 [OF pp_isr_spec [OF assms(1) False]]] assms(2) show ?thesis
    by (simp add: pp_wf_def next_raddr_less)
qed

text \<open>A run of \<open>n\<close> timer periods.\<close>

fun pp_ticks :: "pp_env \<Rightarrow> nat \<Rightarrow> pp \<Rightarrow> pp option" where
  "pp_ticks env 0 s = Some s"
| "pp_ticks env (Suc n) s = do { s \<leftarrow> pp_ticks env n s; pp_timer1_isr env s }"

text \<open>The register the \<open>k\<close>-th read of a measurement asks for.\<close>

definition poll_reg :: "i2c_poll_cfg \<Rightarrow> nat \<Rightarrow> reg_rd_t" where
  "poll_reg c k = rd c ! ((next_raddr c ^^ k) 0)"

text \<open>
  A measurement that runs with \<open>n\<close> samples in the ring has started \<open>n + 1\<close> reads: sample \<open>k\<close> is what
  the interrupt found after read \<open>k\<close> and before read \<open>k + 1\<close>.
\<close>

definition measuring :: "i2c_poll_cfg \<Rightarrow> xfer list \<Rightarrow> nat \<Rightarrow> pp \<Rightarrow> bool" where
  "measuring c xs n s \<longleftrightarrow> pp_wf s \<and> timer_flg s \<noteq> 0 \<and> cfg_i2c s = c \<and>
     raddr s = (next_raddr c ^^ Suc n) 0 \<and>
     xfers s = xs @ map (\<lambda>k. rd_xfer (poll_reg c k)) [0..<Suc n] \<and> length (pp_pending s) = n"

lemma measuring_tick:
  assumes "measuring c xs n s" "pp_timer1_isr env s = Some s'" "n < 255"
  shows "measuring c xs (Suc n) s' \<and>
    pp_pending s' = pp_pending s @ [ucast (i2c_in (env (Suc (pp_pos s))) I2C_FIFO_RDATA_OFFSET)] \<and>
    Suc (pp_pos s) < pp_pos s'"
proof -
  have m: "pp_wf s" "timer_flg s \<noteq> 0" "cfg_i2c s = c" "raddr s = (next_raddr c ^^ Suc n) 0"
    "xfers s = xs @ map (\<lambda>k. rd_xfer (poll_reg c k)) [0..<Suc n]" "length (pp_pending s) = n"
    using assms(1) unfolding measuring_def by blast+
  note i = pp_isr_spec [OF assms(2) m(2)]
  note f = pp_core_fields [OF conjunct1 [OF i]]
  have p: "pp_pending s' = pp_pending s @ [ucast (i2c_in (env (Suc (pp_pos s))) I2C_FIFO_RDATA_OFFSET)]"
    unfolding pp_core_pending [OF conjunct1 [OF i]]
    using ring256_push [of "i2c_buf s" "i2c_buf_rd s" "i2c_buf_wr s"] m(1,6) assms(3)
    by (simp add: pp_pending_def pp_wf_def)
  have "xfers s' = xs @ map (\<lambda>k. rd_xfer (poll_reg c k)) [0..<Suc (Suc n)]"
    using i m(3-5) by (simp add: poll_reg_def)
  moreover have "pp_wf s'" by (rule pp_wf_isr [OF assms(2) m(1)])
  ultimately show ?thesis using f m p i by (simp add: measuring_def)
qed

text \<open>The \<open>k\<close>-th tick of a run: it starts in \<open>t\<close>, with read \<open>k\<close> the last that is started, and ends in \<open>u\<close>.\<close>

lemma measuring_ticks:
  assumes "measuring c xs 0 s" "pp_ticks env n s = Some s'" "n \<le> 255"
  shows "measuring c xs n s' \<and> (\<forall>k < n. \<exists>t u. pp_ticks env k s = Some t \<and> pp_timer1_isr env t = Some u \<and>
    measuring c xs k t \<and> measuring c xs (Suc k) u \<and> Suc (pp_pos t) < pp_pos u \<and>
    pp_pending s' ! k = ucast (i2c_in (env (Suc (pp_pos t))) I2C_FIFO_RDATA_OFFSET))"
  using assms(2,3)
proof (induction n arbitrary: s')
  case 0
  then show ?case using assms(1) by simp
next
  case (Suc n)
  then obtain t where t: "pp_ticks env n s = Some t" "pp_timer1_isr env t = Some s'"
    by (auto simp: bind_eq_Some_conv)
  with Suc have m: "measuring c xs n t" and IH: "\<forall>k < n. \<exists>v u. pp_ticks env k s = Some v \<and>
      pp_timer1_isr env v = Some u \<and> measuring c xs k v \<and> measuring c xs (Suc k) u \<and> Suc (pp_pos v) < pp_pos u \<and>
      pp_pending t ! k = ucast (i2c_in (env (Suc (pp_pos v))) I2C_FIFO_RDATA_OFFSET)"
    by simp_all
  note tick = measuring_tick [OF m t(2)]
  have len: "length (pp_pending t) = n" using m by (simp add: measuring_def)
  have "\<exists>v u. pp_ticks env k s = Some v \<and> pp_timer1_isr env v = Some u \<and> measuring c xs k v \<and>
      measuring c xs (Suc k) u \<and> Suc (pp_pos v) < pp_pos u \<and>
      pp_pending s' ! k = ucast (i2c_in (env (Suc (pp_pos v))) I2C_FIFO_RDATA_OFFSET)" if k: "k < Suc n" for k
  proof (cases "k = n")
    case True
    with tick t m len Suc.prems(2) show ?thesis by (intro exI [of _ t] exI [of _ s']) (simp add: nth_append)
  next
    case False
    with k have "k < n" by simp
    with IH tick len Suc.prems(2) show ?thesis by (simp add: nth_append)
  qed
  with tick Suc.prems(2) show ?case by simp
qed

section \<open>Start\<close>

lemma timer_stop_spec:
  "pp_core (pp_Timer_Stop s) = pp_core (s\<lparr>timer_flg := 0, t_rd_us := 0, timer1_on := timer1_on s \<and> \<not> timer1 s\<rparr>) \<and> xfers (pp_Timer_Stop s) = xfers s"
proof -
  have x: "xfers (s\<lparr>timer1_on := b\<rparr>) = xfers s" for s b by (simp add: xfers_def)
  have "pp_core (pp_put a s\<lparr>timer1_on := b\<rparr>) = pp_core (s\<lparr>timer1_on := b\<rparr>)" for a s b
    by (simp add: pp_core_def pp_put_def)
  then show ?thesis by (simp add: pp_Timer_Stop_def Let_def xfers_put_other x) (simp add: pp_core_def)
qed

definition halted :: "pp \<Rightarrow> pp" where
  "halted s = s\<lparr>cfg_i2c := (cfg_i2c s)\<lparr>pktcnt := 0\<rparr>, timer_flg := 0, t_rd_us := 0,
     timer1_on := timer1_on s \<and> \<not> timer1 s\<rparr>"

lemma halt_spec:
  "pp_core (pp_Timer_Stop (pp_set_pktcnt 0 s)) = pp_core (halted s) \<and>
   xfers (pp_Timer_Stop (pp_set_pktcnt 0 s)) = xfers s"
  using timer_stop_spec [of "pp_set_pktcnt 0 s"] by (simp add: pp_set_pktcnt_def halted_def)

lemma halted_cong: "pp_core s' = pp_core s \<Longrightarrow> pp_core (halted s') = pp_core (halted s)"
  using pp_core_fields [of s' s] by (simp add: pp_core_def halted_def)

lemma halted_idem [simp]: "halted (halted s) = halted s"
  by (simp add: halted_def)

lemma init_regs_spec:
  assumes "pp_init_regs env rs s = Some s'" "i2c0 s"
  shows "(pp_core s' = pp_core s \<or> pp_core s' = pp_core (halted s)) \<and>
    xfers s' = xfers s @ map wr_xfer (takeWhile (\<lambda>r. wr_dev_addr r \<noteq> 0) rs)"
  using assms
proof (induction rs arbitrary: s)
  case (Cons r rs)
  show ?case
  proof (cases "wr_dev_addr r = 0")
    case False
    let ?w = "pp_put (Wait_us 200) s"
    obtain ret t where t: "pp_I2CBusWriteWord env (wr_dev_addr r) (wr_reg_addr r) (wr_data r) ?w = Some (ret, t)"
      "pp_init_regs env rs (if ret = 0 then pp_Timer_Stop (pp_set_pktcnt 0 t) else t) = Some s'"
      using Cons.prems False by (auto simp: bind_eq_Some_conv)
    define u where "u = (if ret = 0 then pp_Timer_Stop (pp_set_pktcnt 0 t) else t)"
    have w: "pp_core t = pp_core s" "xfers t = xfers s @ [wr_xfer r]"
      using bus_write_spec [OF t(1)] Cons.prems(2) by (simp_all add: xfers_put_other wr_xfer_def)
    then have u: "pp_core u = pp_core s \<or> pp_core u = pp_core (halted s)" "xfers u = xfers s @ [wr_xfer r]"
      using halt_spec [of t] halted_cong [OF w(1)] by (auto simp: u_def)
    then have "i2c0 u" using Cons.prems(2) pp_core_fields(1) [of u s] pp_core_fields(1) [of u "halted s"]
      by (auto simp: halted_def)
    from Cons.IH [OF t(2) [folded u_def] this] u halted_cong [of u s] halted_cong [of u "halted s"] False
    show ?thesis by auto
  qed (use Cons.prems in simp)
qed simp

text \<open>The configuration in force after a start: the block size and the bus clock are limited.\<close>

definition start_cfg :: "i2c_poll_cfg \<Rightarrow> i2c_poll_cfg" where
  "start_cfg c =
     (let c = (if pktcnt c > 60 then c\<lparr>pktcnt := 60\<rparr> else c);
          k = unat (clk_khz c AND 0x7fff)
      in if k < 50 \<or> k > 2500 then c\<lparr>clk_khz := (clk_khz c AND 0x8000) OR 1000\<rparr> else c)"

definition cfg_clk :: "i2c_poll_cfg \<Rightarrow> u32" where
  "cfg_clk c = ucast (clk_khz c AND 0x7fff)"

definition cfg_period :: "i2c_poll_cfg \<Rightarrow> u32" where
  "cfg_period c = push_bit (unat (multiplier c)) (ucast (time c))"

lemma start_cfg_simps [simp]:
  "i2c_cfg_wf (start_cfg c) = i2c_cfg_wf c" "rd (start_cfg c) = rd c" "init (start_cfg c) = init c"
  "slp (start_cfg c) = slp c" "multiplier (start_cfg c) = multiplier c" "time (start_cfg c) = time c"
  "pktcnt (start_cfg c) = (if pktcnt c > 60 then 60 else pktcnt c)"
  by (simp_all add: start_cfg_def Let_def)

lemma ucast_and_7fff: "(ucast c :: u32) AND 0x7fff = ucast (c AND 0x7fff)" for c :: u16
  by (simp add: unsigned_and_eq)

lemma clk_1000: "((c AND 0x8000) OR 1000) AND 0x7fff = (1000 :: u16)"
  using and_exp_word [of c 15] by simp

lemma clamp_spec:
  "pp_clamp_clk (if pktcnt (cfg_i2c s) > MAX_I2C_PKTCNT then pp_set_pktcnt MAX_I2C_PKTCNT s else s) =
     (cfg_clk (start_cfg (cfg_i2c s)), s\<lparr>cfg_i2c := start_cfg (cfg_i2c s)\<rparr>)"
  by (auto simp: pp_clamp_clk_def start_cfg_def cfg_clk_def Let_def pp_set_pktcnt_def MAX_I2C_PKTCNT_def
      ucast_and_7fff word_less_nat_alt clk_1000)

text \<open>The parts of a start, over the configuration in force.\<close>

definition start_prepared :: "pp_env \<Rightarrow> pp \<Rightarrow> pp" where
  "start_prepared env s = (reset_i2c0 env s)\<lparr>timer_flg := 0, cfg_i2c := start_cfg (cfg_i2c s)\<rparr>"

lemma start_prepared_spec:
  "pp_core (start_prepared env s) = pp_core (s\<lparr>timer_flg := 0, cfg_i2c := start_cfg (cfg_i2c s)\<rparr>)"
  "xfers (start_prepared env s) = xfers s" "cfg_i2c (start_prepared env s) = start_cfg (cfg_i2c s)"
  using reset_spec [of env s] pp_core_fields [of "reset_i2c0 env s" s]
  by (simp_all add: start_prepared_def xfers_def pp_core_def)

lemma start_parts:
  fixes env s
  defines "c \<equiv> start_cfg (cfg_i2c s)"
  shows "InitI2CDevice env s = do {
    s \<leftarrow> pp_I2CBusInit env (cfg_clk c) (ucast (clk_khz c AND 0x8000)) (start_prepared env s);
    if unat (multiplier c) < 32
    then (let s = s\<lparr>t_rd_us := cfg_period c\<rparr>
          in if cfg_period c < 70000 div cfg_clk c then Some (0, pp_Timer_Stop (pp_set_pktcnt 0 s))
             else do { s \<leftarrow> pp_prepare env s; s \<leftarrow> pp_init_regs env (init (cfg_i2c s)) s; pp_begin s })
    else None }"
proof -
  have c: "pp_clamp_clk (if pktcnt (cfg_i2c (reset_i2c0 env s)) > MAX_I2C_PKTCNT
      then pp_set_pktcnt MAX_I2C_PKTCNT ((reset_i2c0 env s)\<lparr>timer_flg := 0\<rparr>)
      else (reset_i2c0 env s)\<lparr>timer_flg := 0\<rparr>) = (cfg_clk c, start_prepared env s)"
    using clamp_spec [of "(reset_i2c0 env s)\<lparr>timer_flg := 0\<rparr>"] reset_spec [of env s]
      pp_core_fields(6) [of "reset_i2c0 env s" s]
    by (simp add: start_prepared_def c_def)
  note p = start_prepared_spec(3) [of env s, folded c_def]
  have "cfg_i2c s4 = c" if "pp_I2CBusInit env (cfg_clk c) (ucast (clk_khz c AND 0x8000)) (start_prepared env s) = Some s4" for s4
    using pp_core_fields(6) [OF conjunct1 [OF bus_init_spec [OF that]]] p by simp
  then show ?thesis
    by (cases "pp_I2CBusInit env (cfg_clk c) (ucast (clk_khz c AND 0x8000)) (start_prepared env s)")
      (simp_all add: InitI2CDevice_def Let_def c p cfg_period_def)
qed

lemma timer_init_spec:
  assumes "pp_Timer_Init env p s = Some s'"
  shows "pp_core s' = pp_core (s\<lparr>timer1 := True, timer1_comp0 := p - 1,
      timer1_on := timer1_on s \<and> \<not> timer1 s\<rparr>) \<and> xfers s' = xfers s"
  using assms
  by (cases "timer1 s")
     (auto simp: pp_Timer_Init_def pp_get_def Let_def pp_core_def pp_put_def xfers_def split: if_splits)

lemma prepare_spec:
  assumes "pp_prepare env s = Some s'"
  shows "(pktcnt (cfg_i2c s) \<noteq> 0 \<longrightarrow> pp_core s' = pp_core (s\<lparr>raddr := 0, i2c_buf_wr := 0, i2c_buf_rd := 0,
      timer1 := True, timer1_comp0 := t_rd_us s - 1, timer1_on := timer1_on s \<and> \<not> timer1 s,
      all_read_count := 0, all_overflow_cnt := 0\<rparr>)) \<and>
    (pktcnt (cfg_i2c s) = 0 \<longrightarrow> pp_core s' = pp_core (halted (s\<lparr>raddr := 0, i2c_buf_wr := 0, i2c_buf_rd := 0\<rparr>))) \<and>
    xfers s' = xfers s"
proof (cases "pktcnt (cfg_i2c s) = 0")
  case True
  then have "s' = pp_Timer_Stop (pp_FlushI2CBuf s)" using assms by (simp add: pp_prepare_def Let_def pp_FlushI2CBuf_def)
  moreover have "(cfg_i2c s)\<lparr>pktcnt := 0\<rparr> = cfg_i2c s" using True by (cases "cfg_i2c s") simp
  then have "halted (pp_FlushI2CBuf s) = (pp_FlushI2CBuf s)\<lparr>timer_flg := 0, t_rd_us := 0,
      timer1_on := timer1_on s \<and> \<not> timer1 s\<rparr>"
    by (cases s) (simp add: halted_def pp_FlushI2CBuf_def)
  ultimately show ?thesis using True timer_stop_spec [of "pp_FlushI2CBuf s"]
    by (simp add: pp_FlushI2CBuf_def)
next
  case False
  then obtain t where t: "pp_Timer_Init env (t_rd_us (pp_FlushI2CBuf s)) (pp_FlushI2CBuf s) = Some t"
    "s' = t\<lparr>all_read_count := 0, all_overflow_cnt := 0\<rparr>"
    using assms by (auto simp: pp_prepare_def Let_def pp_FlushI2CBuf_def bind_eq_Some_conv)
  note i = timer_init_spec [OF t(1)]
  have "pp_core s' = pp_core (s\<lparr>raddr := 0, i2c_buf_wr := 0, i2c_buf_rd := 0,
      timer1 := True, timer1_comp0 := t_rd_us s - 1, timer1_on := timer1_on s \<and> \<not> timer1 s,
      all_read_count := 0, all_overflow_cnt := 0\<rparr>)"
    using pp_core_fields [OF conjunct1 [OF i]] by (simp add: t(2) pp_FlushI2CBuf_def pp_core_def)
  then show ?thesis using False i by (simp add: t(2) pp_FlushI2CBuf_def)
qed

lemma begin_spec:
  assumes "pp_begin s = Some (ret, s')"
  shows "if pktcnt (cfg_i2c s) = 0 then ret = 1 \<and> s' = s
    else if rd_dev_addr (rd (cfg_i2c s) ! raddr s) = 0 then ret = 0 \<and> s' = s
    else ret = 1 \<and> i2c0 s \<and> xfers s' = xfers s @ [rd_xfer (rd (cfg_i2c s) ! raddr s)] \<and>
      pp_core s' = pp_core (s\<lparr>raddr := next_raddr (cfg_i2c s) (raddr s), timer_flg := 1, timer1_on := True\<rparr>)"
proof (cases "pktcnt (cfg_i2c s) = 0 \<or> rd_dev_addr (rd (cfg_i2c s) ! raddr s) = 0")
  case False
  let ?r = "rd (cfg_i2c s) ! raddr s"
  obtain t where t: "I2CBusPreReadWord (rd_dev_addr ?r) (rd_reg_addr ?r) s = Some t"
    "(ret, s') = (1, (pp_put Tim_start ((pp_next_raddr t)\<lparr>timer_flg := 1\<rparr>))\<lparr>timer1_on := True\<rparr>)"
    using assms False by (auto simp: pp_begin_def Let_def bind_eq_Some_conv)
  note p = pre_read_spec [OF t(1)]
  have "xfers s' = xfers t" using t(2) by (simp add: pp_next_raddr_eq pp_put_def xfers_def)
  moreover have "pp_core s' = pp_core (t\<lparr>raddr := next_raddr (cfg_i2c t) (raddr t), timer_flg := 1, timer1_on := True\<rparr>)"
    using t(2) by (simp add: pp_next_raddr_eq pp_put_def pp_core_def)
  moreover have "pp_core (t\<lparr>raddr := k, timer_flg := 1, timer1_on := True\<rparr>) =
      pp_core (s\<lparr>raddr := k, timer_flg := 1, timer1_on := True\<rparr>)" for k
    using p pp_core_fields [of t s] by (simp add: pp_core_def)
  ultimately show ?thesis using p t(2) False pp_core_fields(6,9) [of t s]
    by (simp add: rd_xfer_def)
qed (use assms in \<open>auto simp: pp_begin_def\<close>)

text \<open>What a start does, for every configuration and every behaviour of the bus.\<close>

definition started_as :: "int \<Rightarrow> pp \<Rightarrow> i2c_poll_cfg \<Rightarrow> xfer list \<Rightarrow> bool" where
  "started_as ret s c xs \<longleftrightarrow> pp_wf s \<and>
     (if cfg_period c < 70000 div cfg_clk c
      then ret = 0 \<and> cfg_i2c s = c\<lparr>pktcnt := 0\<rparr> \<and> timer_flg s = 0 \<and> xfers s = xs
      else
        (let xs' = xs @ map wr_xfer (takeWhile (\<lambda>r. wr_dev_addr r \<noteq> 0) (init c))
         in pp_pending s = [] \<and>
           (if pktcnt (cfg_i2c s) = 0
            then ret = 1 \<and> cfg_i2c s = c\<lparr>pktcnt := 0\<rparr> \<and> timer_flg s = 0 \<and> xfers s = xs'
            else cfg_i2c s = c \<and> timer1_comp0 s = cfg_period c - 1 \<and>
              all_read_count s = 0 \<and> all_overflow_cnt s = 0 \<and>
              (if rd_dev_addr (rd c ! 0) = 0 then ret = 0 \<and> timer_flg s = 0 \<and> xfers s = xs'
               else ret = 1 \<and> timer1 s \<and> timer1_on s \<and> t_rd_us s = cfg_period c \<and> measuring c xs' 0 s))))"

lemma init_regs_i2c0: "pp_init_regs env rs s = Some s' \<Longrightarrow> i2c0 s' = i2c0 s"
proof (induction rs arbitrary: s)
  case (Cons r rs)
  show ?case
  proof (cases "wr_dev_addr r = 0")
    case False
    let ?w = "pp_put (Wait_us 200) s"
    obtain ret t where t: "pp_I2CBusWriteWord env (wr_dev_addr r) (wr_reg_addr r) (wr_data r) ?w = Some (ret, t)"
      "pp_init_regs env rs (if ret = 0 then pp_Timer_Stop (pp_set_pktcnt 0 t) else t) = Some s'"
      using Cons.prems False by (auto simp: bind_eq_Some_conv)
    have "i2c0 t = i2c0 s"
      using bus_write_spec [OF t(1)] pp_core_fields(1) [of t ?w] by (auto split: if_splits)
    moreover have "i2c0 (pp_Timer_Stop (pp_set_pktcnt 0 t)) = i2c0 t"
      using pp_core_fields(1) [OF conjunct1 [OF halt_spec [of t]]] by (simp add: halted_def)
    ultimately show ?thesis using Cons.IH [OF t(2)] by (simp split: if_splits)
  qed (use Cons.prems in simp)
qed simp

lemma measuring_0:
  assumes "pp_wf s" "timer_flg s = 1" "cfg_i2c s = c" "raddr s = next_raddr c 0" "pp_pending s = []"
    "xfers s = xs @ [rd_xfer (rd c ! 0)]"
  shows "measuring c xs 0 s"
  using assms by (simp add: measuring_def poll_reg_def)

lemma start_pp_run:
  assumes "pp_prepare env s = Some s6" "pp_init_regs env (init (cfg_i2c s6)) s6 = Some s7"
    "pp_begin s7 = Some (ret, s')" "i2c0 s'" "pp_wf s" "timer_flg s = 0" "cfg_i2c s = c" "t_rd_us s = cfg_period c"
    "\<not> cfg_period c < 70000 div cfg_clk c"
  shows "started_as ret s' c (xfers s)"
proof -
  define xs' where "xs' = xfers s @ map wr_xfer (takeWhile (\<lambda>r. wr_dev_addr r \<noteq> 0) (init c))"
  note p = prepare_spec [OF assms(1)]
  define u where "u = s\<lparr>raddr := 0, i2c_buf_wr := 0, i2c_buf_rd := 0\<rparr>"
  define v where "v = u\<lparr>timer1 := True, timer1_comp0 := cfg_period c - 1,
      timer1_on := timer1_on s \<and> \<not> timer1 s, all_read_count := 0, all_overflow_cnt := 0\<rparr>"
  have s6: "pp_core s6 = (if pktcnt c = 0 then pp_core (halted u) else pp_core v)" "xfers s6 = xfers s"
    using p assms(7,8) by (auto simp: u_def v_def)
  have i6: "i2c0 s6"
    using begin_spec [OF assms(3)] init_regs_i2c0 [OF assms(2)] assms(4) by (auto split: if_splits)
  have c6: "init (cfg_i2c s6) = init c"
    using s6(1) pp_core_fields(6) [of s6 v] pp_core_fields(6) [of s6 "halted u"] assms(7)
    by (auto simp: u_def v_def halted_def split: if_splits)
  note w = init_regs_spec [OF assms(2) i6, unfolded c6 s6(2), folded xs'_def]
  have hv: "halted v = (halted u)\<lparr>timer1 := True, timer1_comp0 := cfg_period c - 1,
      timer1_on := False, all_read_count := 0, all_overflow_cnt := 0\<rparr>"
    by (simp add: v_def halted_def)
  have wu: "pp_wf u" "pp_pending u = []" using assms(5) by (simp_all add: u_def pp_wf_def pp_pending_def)
  have stop: "started_as ret s' c (xfers s)"
    if "pp_core s7 = pp_core t" "t = halted u \<or> t = halted v" for t
  proof -
    have t: "cfg_i2c t = c\<lparr>pktcnt := 0\<rparr>" "timer_flg t = 0" "pp_wf t" "pp_pending t = []"
      using that(2) wu assms(5,7) by (auto simp: halted_def u_def v_def pp_wf_def pp_pending_def)
    then have 7: "cfg_i2c s7 = c\<lparr>pktcnt := 0\<rparr>" "timer_flg s7 = 0" "pp_wf s7" "pp_pending s7 = []"
      using pp_core_fields(6,7) [OF that(1)] pp_core_wf [OF that(1)] pp_core_pending [OF that(1)] by simp_all
    then have "ret = 1" "s' = s7" using begin_spec [OF assms(3)] by simp_all
    then show ?thesis using 7 w assms(9) by (simp add: started_as_def Let_def flip: xs'_def)
  qed
  show ?thesis
  proof (cases "pktcnt c = 0")
    case True
    then have "pp_core s6 = pp_core (halted u)" using s6(1) by simp
    with w halted_cong [OF this] have "pp_core s7 = pp_core (halted u)" by auto
    then show ?thesis by (rule stop) simp
  next
    case False
    then have 6: "pp_core s6 = pp_core v" using s6(1) by simp
    show ?thesis
    proof (cases "pp_core s7 = pp_core s6")
      case True
      then have 7: "pp_core s7 = pp_core v" using 6 by simp
      note f7 = pp_core_fields [OF 7]
      have c7: "cfg_i2c s7 = c" "raddr s7 = 0" using f7 assms(7) by (simp_all add: v_def u_def)
      have g7: "timer_flg s7 = 0" "timer1_comp0 s7 = cfg_period c - 1" "all_read_count s7 = 0"
        "all_overflow_cnt s7 = 0" "t_rd_us s7 = cfg_period c" "timer1 s7"
        using f7 assms(6,8) by (simp_all add: v_def u_def)
      have v: "pp_wf v" "pp_pending v = []" "timer_flg v = 0"
        using wu assms(6) by (simp_all add: v_def u_def pp_wf_def pp_pending_def)
      note b = begin_spec [OF assms(3), unfolded c7]
      show ?thesis
      proof (cases "rd_dev_addr (rd c ! 0) = 0")
        case True
        then have "ret = 0" "s' = s7" using b False by simp_all
        then show ?thesis
          using pp_core_wf [OF 7] pp_core_pending [OF 7] v(1,2) g7 c7 w True False assms(9)
          by (simp add: started_as_def Let_def flip: xs'_def)
      next
        case a: False
        then have s': "ret = 1" "xfers s' = xfers s7 @ [rd_xfer (rd c ! 0)]"
          "pp_core s' = pp_core (s7\<lparr>raddr := next_raddr c 0, timer_flg := 1, timer1_on := True\<rparr>)"
          using b False by simp_all
        note f' = pp_core_fields [OF s'(3)]
        have wf': "pp_wf s'" using v(1) by (simp add: pp_wf_def f' f7 next_raddr_less)
        have pe: "pp_pending s' = []" using v(2) by (simp add: pp_pending_def f' f7)
        have "measuring c xs' 0 s'"
          using wf' pe s'(2) w c7 f' by (intro measuring_0) simp_all
        then show ?thesis
          using wf' pe s'(1) f' g7 c7 False a assms(9)
          by (simp add: started_as_def Let_def flip: xs'_def)
      qed
    next
      case False
      then have "pp_core s7 = pp_core (halted v)" using w halted_cong [OF 6] by auto
      then show ?thesis by (rule stop) simp
    qed
  qed
qed

lemma start_pp_spec:
  assumes "InitI2CDevice env s = Some (ret, s')" "pp_shape s" "i2c0 s'"
  shows "started_as ret s' (start_cfg (cfg_i2c s)) (xfers s)"
proof -
  define c where "c = start_cfg (cfg_i2c s)"
  define s3 where "s3 = start_prepared env s"
  note s3 = start_prepared_spec [of env s, folded s3_def c_def]
  obtain s4 where s4: "pp_I2CBusInit env (cfg_clk c) (ucast (clk_khz c AND 0x8000)) s3 = Some s4"
    using assms(1) by (auto simp: start_parts bind_eq_Some_conv s3_def c_def)
  note b = bus_init_spec [OF s4]
  define s5 where "s5 = s4\<lparr>t_rd_us := cfg_period c\<rparr>"
  have r: "(if cfg_period c < 70000 div cfg_clk c then Some (0, pp_Timer_Stop (pp_set_pktcnt 0 s5))
      else do { s \<leftarrow> pp_prepare env s5; s \<leftarrow> pp_init_regs env (init (cfg_i2c s)) s; pp_begin s }) =
      Some (ret, s')"
    using assms(1) s4 unfolding start_parts
    by (auto simp: Let_def s5_def bind_eq_Some_conv simp flip: c_def s3_def split: if_splits)
  define f where "f = dev_found (env (pp_pos s3))"
  have s5: "xfers s5 = xfers s" "pp_core s5 = pp_core (s\<lparr>timer_flg := 0, cfg_i2c := c, i2c0 := f,
      t_rd_us := cfg_period c\<rparr>)"
    using b s3 pp_core_fields [OF conjunct1 [OF b]] pp_core_fields [OF s3(1)]
    by (simp_all add: s5_def xfers_def pp_core_def f_def)
  note f5 = pp_core_fields [OF s5(2), simplified]
  have wf5: "pp_wf s5" using assms(2) by (auto simp: pp_wf_shape pp_shape_def f5 c_def)
  show ?thesis
  proof (cases "cfg_period c < 70000 div cfg_clk c")
    case True
    then have s': "ret = 0" "s' = pp_Timer_Stop (pp_set_pktcnt 0 s5)" using r by simp_all
    note h = halt_spec [of s5, folded s'(2)]
    note fh = pp_core_fields [OF conjunct1 [OF h], unfolded halted_def, simplified]
    have "pp_wf s'" using wf5 by (simp add: pp_wf_def fh)
    with True s' h s5 fh f5 show ?thesis
      by (simp add: started_as_def flip: c_def)
  next
    case False
    obtain s6 s7 where s67: "pp_prepare env s5 = Some s6" "pp_init_regs env (init (cfg_i2c s6)) s6 = Some s7"
      "pp_begin s7 = Some (ret, s')"
      using r False by (auto simp: bind_eq_Some_conv)
    show ?thesis
      unfolding c_def [symmetric] s5(1) [symmetric]
      by (rule start_pp_run [OF s67 assms(3) wf5 _ _ _ False]) (simp_all add: f5)
  qed
qed

section \<open>The packing task\<close>

text \<open>The block of some samples: byte count, kind, and two bytes a sample.\<close>

definition pp_block :: "u16 list \<Rightarrow> u8 list" where
  "pp_block ws = [of_nat (2 * length ws), CMD_DEV_I2C] @ concat (map swab16 ws)"

lemma length_concat_swab16 [simp]: "length (concat (map swab16 ws)) = 2 * length ws"
  by (induction ws) (simp_all add: swab16_def)

lemma send_pp_spec:
  assumes "rb_wf (usb_tx_rb s)" "unat (blk_count s) = 2 * length ws" "blk_id s = CMD_DEV_I2C"
    "blk_data s = concat (map swab16 ws) @ rest"
  defines "free \<equiv> unat (rb_size (usb_tx_rb s)) - length (rb_bytes (usb_tx_rb s))"
  obtains g where "rb_wf g" "rb_size g = rb_size (usb_tx_rb s)"
    "rb_bytes g = rb_bytes (usb_tx_rb s) @ take free (pp_block ws)"
    "pp_send_blk s = (if 2 + 2 * length ws \<le> free
       then s\<lparr>usb_tx_rb := g, all_read_count := all_read_count s + 1\<rparr>
       else s\<lparr>usb_tx_rb := g, all_overflow_cnt := all_overflow_cnt s + 1\<rparr>)"
proof -
  let ?len = "2 + ucast (blk_count s) :: u32"
  have c: "blk_count s = of_nat (2 * length ws)" by (simp flip: assms(2))
  have l: "2 * length ws < 256" using assms(2) unat_u8_bound [of "blk_count s"] by linarith
  then have len: "unat ?len = 2 + 2 * length ws"
    using assms(2) unat_plus_nowrap [of "2 :: u32" "ucast (blk_count s)"] by simp
  have bytes: "pp_blk_bytes s = pp_block ws @ rest"
    using c assms(3,4) by (simp add: pp_blk_bytes_def pp_block_def)
  obtain n g where g: "Ring_Buffer_Write (usb_tx_rb s) (pp_blk_bytes s) ?len = (n, g)"
    "unat n = min (unat ?len) free" "rb_wf g" "rb_size g = rb_size (usb_tx_rb s)"
    "rb_bytes g = rb_bytes (usb_tx_rb s) @ take (unat n) (pp_blk_bytes s)"
    using rb_write_spec [OF assms(1), of ?len "pp_blk_bytes s"] len
    unfolding free_def bytes by (auto simp: pp_block_def)
  have "?len = n \<longleftrightarrow> unat ?len = unat n" by (simp add: word_unat_eq_iff)
  then have n: "?len = n \<longleftrightarrow> 2 + 2 * length ws \<le> free" unfolding g(2) len by (simp add: min_def)
  have lb: "length (pp_block ws) = 2 + 2 * length ws" by (simp add: pp_block_def)
  have "take (unat n) (pp_blk_bytes s) = take free (pp_block ws)"
    unfolding bytes g(2) len using lb by (auto simp: min_def)
  then show thesis
    by (intro that [of g]) (use g(1,3-5) n in \<open>simp_all add: pp_send_blk_def Let_def\<close>)
qed

lemma task_packs_pp:
  assumes "pp_wf s" "pktcnt (cfg_i2c s) \<noteq> 0" "unat (pktcnt (cfg_i2c s)) \<le> length (pp_pending s)"
  defines "n \<equiv> unat (pktcnt (cfg_i2c s))"
  shows "task_I2C s = pp_send_blk (s\<lparr>i2c_buf_rd := rd_after (i2c_buf_rd s) (i2c_buf_wr s) n,
      blk_count := push_bit 1 (pktcnt (cfg_i2c s)), blk_id := CMD_DEV_I2C,
      blk_data := splice_at (blk_data s) 0 (concat (map swab16 (take n (pp_pending s))))\<rparr>)"
proof -
  have len: "length (i2c_buf s) = 256" using assms(1) by (simp add: pp_wf_def)
  have n: "0 < n" using assms(2) by (simp add: n_def unat_gt_0)
  note p = pack256 [OF len assms(3) [unfolded pp_pending_def], of swab16, folded pp_pending_def n_def]
  obtain bs where bs: "copy_to_end swab16 (i2c_buf s) (unat (i2c_buf_rd s)) n =
      (bs, n - (256 - unat (i2c_buf_rd s)))"
    "bs @ copy_n swab16 (i2c_buf s) 0 (n - (256 - unat (i2c_buf_rd s))) =
      concat (map swab16 (take n (pp_pending s)))"
    using p(1) by blast
  note l = length_ring256 [of "i2c_buf s" "i2c_buf_rd s" "i2c_buf_wr s", folded pp_pending_def]
  show ?thesis
  proof (cases "i2c_buf_wr s < i2c_buf_rd s")
    case True
    then show ?thesis using n assms(3) bs l
      by (simp add: task_I2C_def Let_def word_less_nat_alt rd_after_def flip: n_def)
  next
    case False
    then show ?thesis using n assms(3) p(2) l
      by (simp add: task_I2C_def Let_def word_less_nat_alt rd_after_def flip: n_def)
  qed
qed

lemma task_pp_idle:
  assumes "pktcnt (cfg_i2c s) = 0 \<or> length (pp_pending s) < unat (pktcnt (cfg_i2c s))"
  shows "task_I2C s = s"
  using assms length_ring256 [of "i2c_buf s" "i2c_buf_rd s" "i2c_buf_wr s", folded pp_pending_def]
  by (auto simp: task_I2C_def Let_def split: if_splits)

text \<open>The block one run of the task offers to the ring buffer, if any.\<close>

definition pp_due :: "pp \<Rightarrow> bool" where
  "pp_due s \<longleftrightarrow> pktcnt (cfg_i2c s) \<noteq> 0 \<and> unat (pktcnt (cfg_i2c s)) \<le> length (pp_pending s)"

lemma task_pp_spec:
  assumes "pp_wf s" "pp_due s"
  defines "n \<equiv> unat (pktcnt (cfg_i2c s))" and "rb \<equiv> usb_tx_rb s" and "s' \<equiv> task_I2C s"
  defines "free \<equiv> unat (rb_size rb) - length (rb_bytes rb)"
  shows "pp_wf s' \<and> cfg_i2c s' = cfg_i2c s \<and> rb_size (usb_tx_rb s') = rb_size rb \<and>
    pp_pending s' = drop (taken256 (i2c_buf_rd s) (i2c_buf_wr s) n) (pp_pending s) \<and>
    rb_bytes (usb_tx_rb s') = rb_bytes rb @ take free (pp_block (take n (pp_pending s))) \<and>
    all_read_count s' = all_read_count s + (if 2 + 2 * n \<le> free then 1 else 0) \<and>
    all_overflow_cnt s' = all_overflow_cnt s + (if 2 + 2 * n \<le> free then 0 else 1)"
proof -
  have d: "pktcnt (cfg_i2c s) \<noteq> 0" "n \<le> length (pp_pending s)" "n \<le> 60"
    using assms(1,2) by (simp_all add: pp_due_def n_def pp_wf_def)
  define ws where "ws = take n (pp_pending s)"
  have ws: "length ws = n" using d(2) by (simp add: ws_def)
  define t where "t = s\<lparr>i2c_buf_rd := rd_after (i2c_buf_rd s) (i2c_buf_wr s) n,
      blk_count := push_bit 1 (pktcnt (cfg_i2c s)), blk_id := CMD_DEV_I2C,
      blk_data := splice_at (blk_data s) 0 (concat (map swab16 ws))\<rparr>"
  have s': "s' = pp_send_blk t"
    using task_packs_pp [OF assms(1) d(1) d(2) [unfolded n_def]] by (simp add: s'_def t_def n_def ws_def)
  have cnt: "unat (blk_count t) = 2 * length ws"
    using d(3) by (simp add: t_def ws n_def push_bit_eq_mult unat_word_ariths)
  have l: "length (blk_data s) = 120" using assms(1) by (simp add: pp_wf_def)
  have dat: "blk_data t = concat (map swab16 ws) @ drop (2 * n) (blk_data s)"
    using ws by (simp add: t_def splice_at_def)
  have t: "rb_wf (usb_tx_rb t)" "blk_id t = CMD_DEV_I2C" "usb_tx_rb t = rb"
    using assms(1) by (simp_all add: t_def pp_wf_def rb_def)
  obtain g where g: "rb_wf g" "rb_size g = rb_size rb" "rb_bytes g = rb_bytes rb @ take free (pp_block ws)"
    "s' = (if 2 + 2 * length ws \<le> free then t\<lparr>usb_tx_rb := g, all_read_count := all_read_count t + 1\<rparr>
       else t\<lparr>usb_tx_rb := g, all_overflow_cnt := all_overflow_cnt t + 1\<rparr>)"
    using send_pp_spec [OF t(1) cnt t(2) dat] unfolding t(3) free_def s' by metis
  have p: "pp_pending s' = drop (taken256 (i2c_buf_rd s) (i2c_buf_wr s) n) (pp_pending s)"
    using ring256_rd_after [of "i2c_buf s" n "i2c_buf_rd s" "i2c_buf_wr s"] assms(1) d(2)
    by (simp add: g(4) t_def pp_pending_def pp_wf_def)
  have "pp_wf s'" using assms(1) g(1) l ws d(3) by (simp add: g(4) t_def pp_wf_def)
  then show ?thesis using p g ws by (simp add: t_def ws_def)
qed

section \<open>Waiting\<close>

text \<open>
  The hypothesis under which waits end: some time after any moment the counter is, for three accesses
  in a row, more than 4 ms past the 32-bit time stamp taken then.
\<close>

definition pp_clock :: "pp_env \<Rightarrow> bool" where
  "pp_clock env \<longleftrightarrow> (\<forall>p q. \<exists>m \<ge> q. \<forall>k < 3. 4000 < now_us (env (m + k)) - ucast (ucast (now_us (env p)) :: u32))"

lemma tr_busy_loop_step:
  "tr_busy_loop env st tmo s =
     (let p = pp_pos s;
          busy = i2c_in (env p) I2C_BUS_BUSY_OFFSET AND I2C_STS_I2C_BUS_BUSY \<noteq> 0;
          q = (if busy then p + 1 else p + 2)
      in if busy \<or> i2c_in (env (p + 1)) I2C_INT_STS_OFFSET AND I2C_END_INT = 0
         then if now_us (env q) - ucast st > ucast tmo then Some (- ETIMEDOUT, s\<lparr>pp_pos := q + 1\<rparr>)
              else tr_busy_loop env st tmo (s\<lparr>pp_pos := q + 1\<rparr>)
         else Some (0, s\<lparr>pp_pos := q\<rparr>))"
  by (subst tr_busy_loop.simps) (simp add: pp_get_def Let_def)

lemma tr_busy_loop_total:
  assumes "\<forall>k < 3. ucast tmo < now_us (env (m + k)) - ucast st" "pp_pos s \<le> m"
  shows "\<exists>y. tr_busy_loop env st tmo s = Some y"
  using assms(2)
proof (induction "m - pp_pos s" arbitrary: s rule: less_induct)
  case less
  let ?p = "pp_pos s"
  have late: "ucast tmo < now_us (env q) - ucast st" if "m \<le> q" "q \<le> ?p + 2" for q
  proof -
    have "q - m < 3" using that less.prems by linarith
    then show ?thesis using assms(1) [rule_format, of "q - m"] that(1) by simp
  qed
  have again: "\<exists>y. tr_busy_loop env st tmo (s\<lparr>pp_pos := q + 1\<rparr>) = Some y" if "?p < q" "q < m" for q
    using less.hyps [of "s\<lparr>pp_pos := q + 1\<rparr>"] that by simp
  have either: "ucast tmo < now_us (env q) - ucast st \<or>
      (\<exists>y. tr_busy_loop env st tmo (s\<lparr>pp_pos := q + 1\<rparr>) = Some y)" if "?p < q" "q \<le> ?p + 2" for q
    using late [of q] again [of q] that by (cases "m \<le> q") auto
  show ?case
    using either [of "?p + 1"] either [of "?p + 2"]
    by (subst tr_busy_loop_step) (auto simp: Let_def)
qed

lemma tr_busy_total:
  assumes "pp_clock env"
  shows "\<exists>y. I2CBusTrBusy env 4000 s = Some y"
proof (cases "i2c0 s")
  case True
  obtain m where m: "Suc (pp_pos s) \<le> m" "\<forall>k < 3. 4000 < now_us (env (m + k)) -
      ucast (ucast (now_us (env (pp_pos s))) :: u32)"
    using assms unfolding pp_clock_def by meson
  then have "\<exists>y. tr_busy_loop env (ucast (now_us (env (pp_pos s)))) 4000 (s\<lparr>pp_pos := Suc (pp_pos s)\<rparr>) = Some y"
    by (intro tr_busy_loop_total [of _ _ m]) simp_all
  with True show ?thesis by (simp add: I2CBusTrBusy_def pp_get_def)
qed (simp add: I2CBusTrBusy_def)

lemma bus_write_total: "pp_clock env \<Longrightarrow> \<exists>ret s'. pp_I2CBusWriteWord env a r d s = Some (ret, s')"
proof (cases "i2c0 s")
  case True
  assume "pp_clock env"
  from tr_busy_total [OF this] obtain q t where "I2CBusTrBusy env 4000
      (put_config (xfer_config False a (i2c_config s) OR I2C_CR_I2C_M_EN)
        (pp_put (I2c_put I2C_FIFO_WDATA_OFFSET (push_bit 8 (ucast d) OR drop_bit 8 (ucast d)))
          (pp_put (I2c_put I2C_SUB_ADDR_OFFSET (ucast r)) s))) = Some (q, t)"
    by (metis surj_pair)
  with True show ?thesis by (cases "I2CBusTrEnd env t") (simp add: pp_I2CBusWriteWord_def Let_def)
qed (simp add: pp_I2CBusWriteWord_def)

lemma bus_read_total: "pp_clock env \<Longrightarrow> \<exists>ret bs s'. pp_I2CBusReadWord env a r s = Some (ret, bs, s')"
proof (cases "i2c0 s")
  case True
  assume clk: "pp_clock env"
  from True obtain t where t: "I2CBusPreReadWord a r s = Some t" by (auto simp: I2CBusPreReadWord_def)
  from tr_busy_total [OF clk] obtain q u where "I2CBusTrBusy env 4000 t = Some (q, u)"
    by (metis surj_pair)
  with True t show ?thesis
    by (cases "I2CBusTrEnd env (u\<lparr>pp_pos := Suc (pp_pos u)\<rparr>)")
       (simp add: pp_I2CBusReadWord_def pp_get_def Let_def)
qed (simp add: pp_I2CBusReadWord_def)

lemma init_regs_total_pp: "pp_clock env \<Longrightarrow> \<exists>s'. pp_init_regs env rs s = Some s'"
proof (induction rs arbitrary: s)
  case (Cons r rs)
  then obtain ret t where "pp_I2CBusWriteWord env (wr_dev_addr r) (wr_reg_addr r) (wr_data r)
      (pp_put (Wait_us 200) s) = Some (ret, t)"
    using bus_write_total by blast
  with Cons show ?case by simp
qed simp

lemma bus_init_total:
  assumes "k * 1000 * 4 \<noteq> 0"
  shows "\<exists>s'. pp_I2CBusInit env k cs s = Some s'"
  using assms
  by (auto simp: pp_I2CBusInit_def pp_get_def set_i2c_clk_def Let_def split: prod.splits)

lemma cfg_clk_range: "50 \<le> unat (cfg_clk (start_cfg c)) \<and> unat (cfg_clk (start_cfg c)) \<le> 2500"
  by (auto simp: cfg_clk_def start_cfg_def Let_def clk_1000 not_less)

lemma cfg_clk_nonzero: "cfg_clk (start_cfg c) * 1000 * 4 \<noteq> 0"
proof -
  have "unat (cfg_clk (start_cfg c) * 1000 * 4) = unat (cfg_clk (start_cfg c)) * 1000 * 4"
    using cfg_clk_range [of c] by (simp add: unat_word_ariths)
  then show ?thesis using cfg_clk_range [of c] by (auto simp: unat_eq_0 [symmetric])
qed

lemma begin_total: "i2c0 s \<Longrightarrow> \<exists>ret s'. pp_begin s = Some (ret, s') \<and> i2c0 s'"
  by (auto simp: pp_begin_def I2CBusPreReadWord_def Let_def pp_next_raddr_eq bind_eq_Some_conv)

lemma start_total_pp:
  assumes "pp_clock env" "\<forall>p. dev_found (env p)" "unat (multiplier (cfg_i2c s)) < 32"
  shows "\<exists>ret s'. InitI2CDevice env s = Some (ret, s') \<and> i2c0 s'"
proof -
  define c where "c = start_cfg (cfg_i2c s)"
  define s3 where "s3 = start_prepared env s"
  note s3 = start_prepared_spec(3) [of env s, folded s3_def c_def]
  obtain s4 where s4: "pp_I2CBusInit env (cfg_clk c) (ucast (clk_khz c AND 0x8000)) s3 = Some s4"
    using bus_init_total [OF cfg_clk_nonzero] unfolding c_def by blast
  note b = pp_core_fields [OF conjunct1 [OF bus_init_spec [OF s4]]]
  have i4: "i2c0 s4" "cfg_i2c s4 = c" using b(1,6) assms(2) s3 by simp_all
  define s5 where "s5 = s4\<lparr>t_rd_us := cfg_period c\<rparr>"
  have m: "unat (multiplier c) < 32" using assms(3) by (simp add: c_def)
  have r: "InitI2CDevice env s =
      (if cfg_period c < 70000 div cfg_clk c then Some (0, pp_Timer_Stop (pp_set_pktcnt 0 s5))
       else do { s \<leftarrow> pp_prepare env s5; s \<leftarrow> pp_init_regs env (init (cfg_i2c s)) s; pp_begin s })"
    unfolding start_parts c_def [symmetric] s3_def [symmetric] s4 using m by (simp add: Let_def s5_def)
  show ?thesis
  proof (cases "cfg_period c < 70000 div cfg_clk c")
    case True
    moreover have "i2c0 (pp_Timer_Stop (pp_set_pktcnt 0 s5))"
      using pp_core_fields(1) [OF conjunct1 [OF halt_spec [of s5]]] i4 by (simp add: halted_def s5_def)
    ultimately show ?thesis using r by simp
  next
    case False
    have "\<exists>s6. pp_prepare env s5 = Some s6"
      using assms(2) by (auto simp: pp_prepare_def Let_def pp_Timer_Init_def pp_get_def)
    then obtain s6 where s6: "pp_prepare env s5 = Some s6" ..
    have "i2c0 s6"
    proof (cases "pktcnt (cfg_i2c s5) = 0")
      case True
      from pp_core_fields(1) [OF conjunct1 [OF conjunct2 [OF prepare_spec [OF s6]], rule_format, OF True]] i4
      show ?thesis by (simp add: halted_def s5_def)
    next
      case False
      from pp_core_fields(1) [OF conjunct1 [OF prepare_spec [OF s6], rule_format, OF False]] i4
      show ?thesis by (simp add: s5_def)
    qed
    moreover obtain s7 where s7: "pp_init_regs env (init (cfg_i2c s6)) s6 = Some s7"
      using init_regs_total_pp [OF assms(1)] by blast
    ultimately have "i2c0 s7" using init_regs_i2c0 [OF s7] by simp
    from begin_total [OF this] r False s6 s7 show ?thesis by auto
  qed
qed

section \<open>A demonstration bus\<close>

text \<open>A bus that is never busy, a clock that advances 5 ms with each access.\<close>

definition demo_pp_env :: pp_env where
  "demo_pp_env = (\<lambda>p. \<lparr>i2c_in = (\<lambda>off. if off = I2C_INT_STS_OFFSET then 1
       else if off = I2C_FIFO_RDATA_OFFSET then of_nat p else 0),
     tsr_in = 1, ticr_in = 0, config_reset = 0, now_us = of_nat (5000 * p), i2c_clk = 72000000, dev_found = True\<rparr>)"

lemma high_part: "\<exists>h. x - ucast (ucast x :: u32) = (of_nat (h * 4294967296) :: 64 word) \<and> h < 4294967296"
  for x :: "64 word"
proof -
  have u: "unat (ucast (ucast x :: u32) :: 64 word) = unat x mod 4294967296"
    by (simp add: unsigned_ucast_eq take_bit_eq_mod unat_mod)
  have "x - ucast (ucast x :: u32) = of_nat (unat x) - of_nat (unat x mod 4294967296)"
    unfolding u [symmetric] by simp
  also have "\<dots> = of_nat (unat x - unat x mod 4294967296)" by (simp add: of_nat_diff)
  also have "unat x - unat x mod 4294967296 = unat x div 4294967296 * 4294967296"
    by (simp add: minus_mod_eq_div_mult)
  finally have "x - ucast (ucast x :: u32) = of_nat (unat x div 4294967296 * 4294967296)" .
  moreover have "unat x div 4294967296 < 4294967296"
    using unsigned_less [of x] by (simp add: div_less_iff_less_mult)
  ultimately show ?thesis by blast
qed

lemma demo_pp_clock: "pp_clock demo_pp_env"
  unfolding pp_clock_def
proof (intro allI)
  fix p q :: nat
  define m where "m = p + 1 + q * 2 ^ 64"
  have "4000 < now_us (demo_pp_env (m + k)) - ucast (ucast (now_us (demo_pp_env p)) :: u32)" if "k < 3" for k
  proof -
    define x :: "64 word" where "x = of_nat (5000 * p)"
    obtain h where h: "x - ucast (ucast x :: u32) = (of_nat (h * 4294967296) :: 64 word)" "h < 4294967296"
      using high_part [of x] by blast
    have z: "(of_nat (2 ^ 64) :: 64 word) = 0" by simp
    have "now_us (demo_pp_env (m + k)) = of_nat (5000 * p + 5000 * (1 + k)) + of_nat (5000 * q) * of_nat (2 ^ 64)"
      by (simp add: demo_pp_env_def m_def algebra_simps)
    also have "\<dots> = x + of_nat (5000 * (1 + k))" by (simp only: z x_def) simp
    finally have "now_us (demo_pp_env (m + k)) - ucast (ucast x :: u32) =
        (x - ucast (ucast x :: u32)) + of_nat (5000 * (1 + k))"
      by simp
    also have "\<dots> = of_nat (h * 4294967296 + 5000 * (1 + k))" unfolding h(1) by simp
    finally have "unat (now_us (demo_pp_env (m + k)) - ucast (ucast x :: u32)) = h * 4294967296 + 5000 * (1 + k)"
      using h(2) that by (simp add: unat_of_nat_small del: of_nat_add of_nat_mult)
    then show ?thesis using that by (simp add: x_def word_less_nat_alt demo_pp_env_def)
  qed
  moreover have "q \<le> m" by (simp add: m_def)
  ultimately show "\<exists>m\<ge>q. \<forall>k<3. 4000 < now_us (demo_pp_env (m + k)) -
      ucast (ucast (now_us (demo_pp_env p)) :: u32)"
    by blast
qed

definition demo_poll :: i2c_poll_cfg where
  "demo_poll = \<lparr>pktcnt = 2, multiplier = 0, time = 1000, clk_khz = 400,
     init = [\<lparr>wr_dev_addr = 0x80, wr_reg_addr = 0, wr_data = 0x4005\<rparr>, \<lparr>wr_dev_addr = 0, wr_reg_addr = 0, wr_data = 0\<rparr>,
       \<lparr>wr_dev_addr = 0, wr_reg_addr = 0, wr_data = 0\<rparr>, \<lparr>wr_dev_addr = 0, wr_reg_addr = 0, wr_data = 0\<rparr>],
     rd = [\<lparr>rd_dev_addr = 0x80, rd_reg_addr = 1\<rparr>, \<lparr>rd_dev_addr = 0x80, rd_reg_addr = 2\<rparr>,
       \<lparr>rd_dev_addr = 0, rd_reg_addr = 0\<rparr>, \<lparr>rd_dev_addr = 0, rd_reg_addr = 0\<rparr>],
     slp = [\<lparr>wr_dev_addr = 0x80, wr_reg_addr = 0, wr_data = 0\<rparr>, \<lparr>wr_dev_addr = 0x82, wr_reg_addr = 1, wr_data = 7\<rparr>]\<rparr>"

definition demo_pp :: pp where
  "demo_pp = \<lparr>i2c0 = True, timer1 = True, timer1_comp0 = 0, timer1_on = False, gpio_pwr = True,
     i2c_config = 0, glb_swrst = 0, pp_log = [], pp_pos = 0, cfg_i2c = demo_poll, timer_flg = 0, t_rd_us = 0,
     raddr = 0, i2c_buf = map of_nat [0..<256], i2c_buf_wr = 5, i2c_buf_rd = 250, blk_count = 0, blk_id = 0,
     blk_data = replicate 120 0, all_read_count = 0, all_overflow_cnt = 0,
     usb_tx_rb = Ring_Buffer_Init (replicate 4096 0) 4096\<rparr>"

lemma demo_pp_wf: "pp_wf demo_pp"
  by (simp add: demo_pp_def demo_poll_def pp_wf_def i2c_cfg_wf_def rb_wf_def Ring_Buffer_Init_def)

lemma demo_pp_shape: "pp_shape demo_pp"
  using demo_pp_wf by (simp add: pp_wf_shape)

section \<open>Properties\<close>

text \<open>
  C4: What one run of \<open>task_I2C\<close> does when a block of samples is due: the block offered to the ring buffer
  holds the oldest \<open>pktcnt\<close> samples in order, and the ring takes as much of it as fits; only a block
  taken whole counts as sent, but the head of a refused one stays in the stream. The read index
  advances by \<open>pktcnt\<close>, except where the write index has wrapped and the block ends before the end
  of the sample ring: then it is reset to 0, and the samples in between are lost.
\<close>

theorem task_I2C_block:
  assumes "pp_wf s" "pktcnt (cfg_i2c s) \<noteq> 0" "unat (pktcnt (cfg_i2c s)) \<le> length (pp_pending s)"
  defines "n \<equiv> unat (pktcnt (cfg_i2c s))"
    and "free \<equiv> unat (rb_size (usb_tx_rb s)) - length (rb_bytes (usb_tx_rb s))"
  shows "pp_wf (task_I2C s) \<and>
    rb_bytes (usb_tx_rb (task_I2C s)) =
      rb_bytes (usb_tx_rb s) @ take free (pp_block (take n (pp_pending s))) \<and>
    all_read_count (task_I2C s) = all_read_count s + (if 2 + 2 * n \<le> free then 1 else 0) \<and>
    all_overflow_cnt (task_I2C s) = all_overflow_cnt s + (if 2 + 2 * n \<le> free then 0 else 1) \<and>
    pp_pending (task_I2C s) =
      drop (if i2c_buf_wr s < i2c_buf_rd s \<and> unat (i2c_buf_rd s) + n < 256
            then 256 - unat (i2c_buf_rd s) else n) (pp_pending s)"
proof -
  have "pp_due s" using assms(2,3) by (simp add: pp_due_def)
  from task_pp_spec [OF assms(1) this, folded n_def free_def] show ?thesis
    by (simp add: taken256_def)
qed

text \<open>Eleven samples wait, two are due: six leave the ring.\<close>

theorem task_I2C_block_witness:
  "length (pp_pending demo_pp) = 11 \<and> length (pp_pending (task_I2C demo_pp)) = 5"
proof -
  have len: "length (pp_pending demo_pp) = 11"
    by (simp add: pp_pending_def length_ring256) (simp add: demo_pp_def)
  have "pktcnt (cfg_i2c demo_pp) = 2" "i2c_buf_wr demo_pp = 5" "i2c_buf_rd demo_pp = 250"
    by (simp_all add: demo_pp_def demo_poll_def)
  with task_I2C_block [OF demo_pp_wf] len show ?thesis by simp
qed

text \<open>
  C5: After a start that returns success with a block size, the timer is programmed with the configured
  period and running, and every timer interrupt stores one sample and starts one read: with \<open>n\<close>
  samples stored, the transfers of the bus have been those before the start, the initialising
  writes up to the first empty entry, and \<open>n + 1\<close> reads that go round the poll list from its first
  register. Sample \<open>k\<close> is stored by interrupt \<open>k\<close>, which begins when read \<open>k\<close> is the last one started and
  ends with read \<open>k + 1\<close> started: it is the receive register at the second access of the interrupt to the
  hardware, the first being that to the timer, and so before it ends read \<open>k\<close>, which is a later access, and
  starts read \<open>k + 1\<close>.
\<close>

theorem pp_sampling:
  assumes "pp_shape s" "InitI2CDevice env s = Some (1, s0)" "i2c0 s0" "pktcnt (cfg_i2c s0) \<noteq> 0"
    "pp_ticks env n s0 = Some s'" "n \<le> 255"
  defines "c \<equiv> start_cfg (cfg_i2c s)"
  defines "sent \<equiv> \<lambda>k. xfers s @ map wr_xfer (takeWhile (\<lambda>r. wr_dev_addr r \<noteq> 0) (init c)) @
      map (\<lambda>j. rd_xfer (poll_reg c j)) [0..<Suc k]"
  shows "cfg_i2c s' = c \<and> timer1_on s0 \<and> timer1_comp0 s0 = cfg_period c - 1 \<and>
    xfers s' = sent n \<and> length (pp_pending s') = n \<and>
    (\<forall>k < n. \<exists>t u. pp_ticks env k s0 = Some t \<and> pp_timer1_isr env t = Some u \<and>
       xfers t = sent k \<and> xfers u = sent (Suc k) \<and> Suc (pp_pos t) < pp_pos u \<and>
       pp_pending s' ! k = ucast (i2c_in (env (Suc (pp_pos t))) I2C_FIFO_RDATA_OFFSET))"
proof -
  note s = start_pp_spec [OF assms(2,1,3), folded c_def]
  have m: "measuring c (xfers s @ map wr_xfer (takeWhile (\<lambda>r. wr_dev_addr r \<noteq> 0) (init c))) 0 s0"
    "timer1_on s0" "timer1_comp0 s0 = cfg_period c - 1"
    using s assms(4) by (auto simp: started_as_def Let_def split: if_splits)
  have x: "xfers t = sent k" if "measuring c (xfers s @ map wr_xfer (takeWhile (\<lambda>r. wr_dev_addr r \<noteq> 0) (init c))) k t"
    for k t using that by (simp add: measuring_def sent_def)
  note r = measuring_ticks [OF m(1) assms(5,6)]
  have "\<exists>t u. pp_ticks env k s0 = Some t \<and> pp_timer1_isr env t = Some u \<and>
       xfers t = sent k \<and> xfers u = sent (Suc k) \<and> Suc (pp_pos t) < pp_pos u \<and>
       pp_pending s' ! k = ucast (i2c_in (env (Suc (pp_pos t))) I2C_FIFO_RDATA_OFFSET)" if "k < n" for k
  proof -
    from r that obtain t u where "pp_ticks env k s0 = Some t" "pp_timer1_isr env t = Some u"
      "Suc (pp_pos t) < pp_pos u" "pp_pending s' ! k = ucast (i2c_in (env (Suc (pp_pos t))) I2C_FIFO_RDATA_OFFSET)"
      and m: "measuring c (xfers s @ map wr_xfer (takeWhile (\<lambda>r. wr_dev_addr r \<noteq> 0) (init c))) k t"
        "measuring c (xfers s @ map wr_xfer (takeWhile (\<lambda>r. wr_dev_addr r \<noteq> 0) (init c))) (Suc k) u" by blast
    with x [OF m(1)] x [OF m(2)] show ?thesis by (intro exI [of _ t] exI [of _ u] conjI)
  qed
  moreover have "cfg_i2c s' = c" "length (pp_pending s') = n" "xfers s' = sent n"
    using r x [OF conjunct1 [OF r]] by (simp_all add: measuring_def)
  ultimately show ?thesis using m(2,3) by (intro conjI allI impI) simp_all
qed

lemma pp_ticks_total:
  "measuring c xs 0 s \<Longrightarrow> timer1 s \<Longrightarrow> i2c0 s \<Longrightarrow> \<exists>s'. pp_ticks env n s = Some s' \<and> timer1 s' \<and> i2c0 s' \<and> timer_flg s' \<noteq> 0"
proof (induction n)
  case 0
  then show ?case by (simp add: measuring_def)
next
  case (Suc n)
  then obtain t where t: "pp_ticks env n s = Some t" "timer1 t" "i2c0 t" "timer_flg t \<noteq> 0" by blast
  obtain u where u: "pp_timer1_isr env t = Some u" using pp_isr_total [OF t(2,3)] by blast
  from pp_core_fields [OF conjunct1 [OF pp_isr_spec [OF u t(4)]]] t u show ?case by simp
qed

text \<open>The log of writes and the samples consumed only grow.\<close>

definition pp_later :: "pp \<Rightarrow> pp \<Rightarrow> bool" where
  "pp_later s s' \<longleftrightarrow> prefix (pp_log s) (pp_log s') \<and> pp_pos s \<le> pp_pos s'"

lemma pp_later_trans: "pp_later a b \<Longrightarrow> pp_later b c \<Longrightarrow> pp_later a c"
  unfolding pp_later_def by (blast intro: prefix_order.trans order_trans)

lemma pp_later_simps [simp]:
  "pp_later s s" "pp_later s (pp_put x s)" "pp_later s (put_config w s)"
  "pp_later s (pp_Timer_Stop s)" "pp_later s (pp_set_pktcnt n s)" "pp_later s (pp_FlushI2CBuf s)"
  "pp_later s (pp_next_raddr s)" "pp_later s (reset_i2c0 env s)" "pp_later s (snd (pp_get f env s))"
  "pp_later s (snd (pp_clamp_clk s))"
  by (simp_all add: pp_later_def pp_Timer_Stop_def pp_set_pktcnt_def pp_FlushI2CBuf_def pp_next_raddr_def
      reset_i2c0_def pp_get_def pp_clamp_clk_def pp_put_def put_config_def Let_def)

text \<open>The end of a transfer reads the status once for its result.\<close>

definition nak_at :: "pp_env \<Rightarrow> nat \<Rightarrow> bool" where
  "nak_at env q \<longleftrightarrow> i2c_in (env q) I2C_INT_STS_OFFSET AND I2C_NAK_INT \<noteq> 0"

lemma tr_end_later:
  assumes "I2CBusTrEnd env s = (ret, s')"
  shows "pp_later s s'" "i2c0 s \<Longrightarrow> (ret = 0 \<longleftrightarrow> nak_at env (pp_pos s)) \<and> pp_pos s < pp_pos s'"
  using assms
  by (auto simp: I2CBusTrEnd_def pp_get_def Let_def pp_later_def nak_at_def split: if_splits)

lemma bus_write_later:
  assumes "pp_I2CBusWriteWord env a r d s = Some (ret, s')" "i2c0 s"
  shows "pp_later s s' \<and> (\<exists>q. pp_pos s \<le> q \<and> q < pp_pos s' \<and> (ret = 0 \<longleftrightarrow> nak_at env q))"
proof -
  define t where "t = put_config (xfer_config False a (i2c_config s) OR I2C_CR_I2C_M_EN)
    (pp_put (I2c_put I2C_FIFO_WDATA_OFFSET (push_bit 8 (ucast d) OR drop_bit 8 (ucast d)))
      (pp_put (I2c_put I2C_SUB_ADDR_OFFSET (ucast r)) s))"
  have t: "pp_later s t" "pp_pos t = pp_pos s" "i2c0 t" using assms(2) by (simp_all add: t_def pp_later_def)
  obtain q t2 where q: "I2CBusTrBusy env 4000 t = Some (q, t2)" "I2CBusTrEnd env t2 = (ret, s')"
    using assms by (auto simp: pp_I2CBusWriteWord_def Let_def bind_eq_Some_conv simp flip: t_def)
  obtain p where p: "p \<ge> pp_pos t" "t2 = t\<lparr>pp_pos := p\<rparr>" using tr_busy_frame [OF q(1)] by blast
  have "pp_later t t2" using p by (simp add: pp_later_def)
  then have "pp_later s s'" using t(1) tr_end_later(1) [OF q(2)] by (blast intro: pp_later_trans)
  moreover have "i2c0 t2" using t(3) p(2) by simp
  ultimately show ?thesis using tr_end_later(2) [OF q(2)] p t(2) by (intro conjI exI [of _ p]) simp_all
qed

text \<open>The block size after the initialising writes: 0 if the status read after one of them has NAK.\<close>

lemma init_regs_status:
  assumes "pp_init_regs env rs s = Some s'" "i2c0 s"
  shows "pp_later s s' \<and> (\<exists>qs. length qs = length (takeWhile (\<lambda>r. wr_dev_addr r \<noteq> 0) rs) \<and> sorted_wrt (<) qs \<and>
    (\<forall>q \<in> set qs. pp_pos s \<le> q \<and> q < pp_pos s') \<and>
    pktcnt (cfg_i2c s') = (if \<exists>q \<in> set qs. nak_at env q then 0 else pktcnt (cfg_i2c s)))"
  using assms
proof (induction rs arbitrary: s)
  case Nil
  then show ?case by (auto intro: exI [of _ "[]"])
next
  case (Cons r rs)
  show ?case
  proof (cases "wr_dev_addr r = 0")
    case True
    with Cons.prems show ?thesis by (auto intro: exI [of _ "[]"])
  next
    case False
    let ?w = "pp_put (Wait_us 200) s"
    obtain ret t where t: "pp_I2CBusWriteWord env (wr_dev_addr r) (wr_reg_addr r) (wr_data r) ?w = Some (ret, t)"
      "pp_init_regs env rs (if ret = 0 then pp_Timer_Stop (pp_set_pktcnt 0 t) else t) = Some s'"
      using Cons.prems False by (auto simp: bind_eq_Some_conv)
    define u where "u = (if ret = 0 then pp_Timer_Stop (pp_set_pktcnt 0 t) else t)"
    have tc: "pp_core t = pp_core s" using bus_write_spec [OF t(1)] Cons.prems(2) by simp
    have tu: "pp_later t u"
      using pp_later_trans [OF pp_later_simps(5) pp_later_simps(4)] by (simp add: u_def)
    obtain q where q: "pp_later ?w t" "pp_pos s \<le> q" "q < pp_pos t" "ret = 0 \<longleftrightarrow> nak_at env q"
      using bus_write_later [OF t(1)] Cons.prems(2) by auto
    have pu: "pktcnt (cfg_i2c u) = (if nak_at env q then 0 else pktcnt (cfg_i2c s))" "i2c0 u"
      using q(4) pp_core_fields(1,6) [OF tc] Cons.prems(2)
        pp_core_fields(1,6) [OF conjunct1 [OF halt_spec [of t]]] by (auto simp: u_def halted_def)
    obtain qs where later: "pp_later u s'" and qs: "length qs = length (takeWhile (\<lambda>r. wr_dev_addr r \<noteq> 0) rs)"
      "sorted_wrt (<) qs" "\<forall>q \<in> set qs. pp_pos u \<le> q \<and> q < pp_pos s'"
      "pktcnt (cfg_i2c s') = (if \<exists>q \<in> set qs. nak_at env q then 0 else pktcnt (cfg_i2c u))"
      using Cons.IH [OF t(2) [folded u_def] pu(2)] by blast
    have le: "pp_pos t \<le> pp_pos u" "pp_pos u \<le> pp_pos s'" using tu later by (simp_all add: pp_later_def)
    have "pp_later s s'"
      using pp_later_trans [OF pp_later_simps(2) q(1)] tu later by (blast intro: pp_later_trans)
    moreover have "\<forall>p \<in> set (q # qs). pp_pos s \<le> p \<and> p < pp_pos s'"
      using qs(3) q(2,3) le by force
    moreover have "sorted_wrt (<) (q # qs)" using qs(2,3) q(3) le by force
    moreover have "pktcnt (cfg_i2c s') = (if \<exists>p \<in> set (q # qs). nak_at env p then 0 else pktcnt (cfg_i2c s))"
      using qs(4) pu(1) by auto
    ultimately show ?thesis using qs(1) False by (intro conjI exI [of _ "q # qs"]) simp_all
  qed
qed

lemma bus_init_later:
  assumes "pp_I2CBusInit env k m s = Some s'"
  shows "pp_later s s'"
proof -
  have set: "pp_later u v" if "set_i2c_clk env f c u = Some v" for f c u v
    using that by (auto simp: set_i2c_clk_def pp_get_def Let_def pp_later_def split: if_splits)
  define t where "t = s\<lparr>pp_pos := Suc (pp_pos s), i2c0 := dev_found (env (pp_pos s))\<rparr>"
  have t: "pp_later s t" by (simp add: t_def pp_later_def)
  obtain r u where u: "I2CBusTrEnd env t = (r, u)" by fastforce
  from assms have "s' = t \<or> (\<exists>f c. set_i2c_clk env f c u = Some s')"
    using u by (auto simp: pp_I2CBusInit_def pp_get_def Let_def t_def split: if_splits)
  with t tr_end_later(1) [OF u] set show ?thesis by (blast intro: pp_later_trans)
qed

lemma prepare_later:
  assumes "pp_prepare env s = Some s'"
  shows "pp_later s s'"
  using assms
  by (auto simp: pp_prepare_def pp_Timer_Init_def pp_FlushI2CBuf_def pp_Timer_Stop_def pp_get_def pp_put_def
      Let_def pp_later_def bind_eq_Some_conv split: if_splits)

lemma begin_later:
  assumes "pp_begin s = Some (ret, s')"
  shows "pp_later s s'"
  using assms
  by (auto simp: pp_begin_def I2CBusPreReadWord_def pp_next_raddr_def pp_put_def put_config_def
      Let_def pp_later_def bind_eq_Some_conv split: if_splits)

lemma start_status:
  assumes "InitI2CDevice env s = Some (ret, s')" "i2c0 s'"
  defines "c \<equiv> start_cfg (cfg_i2c s)"
  shows "pp_later s s' \<and> (\<not> cfg_period c < 70000 div cfg_clk c \<longrightarrow>
    (\<exists>qs. length qs = length (takeWhile (\<lambda>r. wr_dev_addr r \<noteq> 0) (init c)) \<and> sorted_wrt (<) qs \<and>
       (\<forall>q \<in> set qs. pp_pos s \<le> q \<and> q < pp_pos s') \<and>
       pktcnt (cfg_i2c s') = (if \<exists>q \<in> set qs. nak_at env q then 0 else pktcnt c)))"
proof -
  have l3: "pp_later s (start_prepared env s)"
    using pp_later_simps(8) [of s env] by (simp add: start_prepared_def pp_later_def)
  obtain s4 where s4: "pp_I2CBusInit env (cfg_clk c) (ucast (clk_khz c AND 0x8000)) (start_prepared env s) = Some s4"
    and rest: "(if cfg_period c < 70000 div cfg_clk c
      then Some (0, pp_Timer_Stop (pp_set_pktcnt 0 (s4\<lparr>t_rd_us := cfg_period c\<rparr>)))
      else do { s \<leftarrow> pp_prepare env (s4\<lparr>t_rd_us := cfg_period c\<rparr>); s \<leftarrow> pp_init_regs env (init (cfg_i2c s)) s;
        pp_begin s }) = Some (ret, s')"
    using assms(1) by (auto simp: start_parts Let_def c_def bind_eq_Some_conv split: if_splits)
  define s5 where "s5 = s4\<lparr>t_rd_us := cfg_period c\<rparr>"
  have c5: "cfg_i2c s5 = c"
    using pp_core_fields(6) [OF conjunct1 [OF bus_init_spec [OF s4]]] start_prepared_spec(3) [of env s]
    by (simp add: s5_def c_def)
  have "pp_later s4 s5" by (simp add: s5_def pp_later_def)
  with l3 bus_init_later [OF s4] have l5: "pp_later s s5" by (blast intro: pp_later_trans)
  show ?thesis
  proof (cases "cfg_period c < 70000 div cfg_clk c")
    case True
    then have "s' = pp_Timer_Stop (pp_set_pktcnt 0 s5)" using rest by (simp add: s5_def)
    then have "pp_later s s'" using l5 pp_later_simps(4,5) by (metis pp_later_trans)
    with True show ?thesis by simp
  next
    case False
    obtain s6 s7 where s67: "pp_prepare env s5 = Some s6" "pp_init_regs env (init (cfg_i2c s6)) s6 = Some s7"
      "pp_begin s7 = Some (ret, s')"
      using rest False by (auto simp: bind_eq_Some_conv s5_def)
    have k6: "pktcnt (cfg_i2c s6) = pktcnt c \<and> init (cfg_i2c s6) = init c"
    proof (cases "pktcnt c = 0")
      case True
      then have "pp_core s6 = pp_core (halted (s5\<lparr>raddr := 0, i2c_buf_wr := 0, i2c_buf_rd := 0\<rparr>))"
        using prepare_spec [OF s67(1)] c5 by simp
      from pp_core_fields(6) [OF this] True c5 show ?thesis by (simp add: halted_def)
    next
      case False
      from pp_core_fields(6) [OF conjunct1 [OF prepare_spec [OF s67(1)], rule_format]] False c5 show ?thesis by simp
    qed
    have "i2c0 s6"
      using begin_spec [OF s67(3)] init_regs_i2c0 [OF s67(2)] assms(2) by (auto split: if_splits)
    from init_regs_status [OF s67(2) this] k6 obtain qs where l7: "pp_later s6 s7" and
      qs: "length qs = length (takeWhile (\<lambda>r. wr_dev_addr r \<noteq> 0) (init c))" "sorted_wrt (<) qs"
      "\<forall>q \<in> set qs. pp_pos s6 \<le> q \<and> q < pp_pos s7"
      "pktcnt (cfg_i2c s7) = (if \<exists>q \<in> set qs. nak_at env q then 0 else pktcnt c)" by auto
    have l6: "pp_later s s6" by (rule pp_later_trans [OF l5 prepare_later [OF s67(1)]])
    have l8: "pp_later s7 s'" by (rule begin_later [OF s67(3)])
    have "cfg_i2c s' = cfg_i2c s7"
      using begin_spec [OF s67(3)] by (auto split: if_splits dest!: pp_core_fields(6))
    moreover have "\<forall>q \<in> set qs. pp_pos s \<le> q \<and> q < pp_pos s'"
      using qs(3) l6 l8 by (auto simp: pp_later_def intro: order_trans less_le_trans)
    moreover have "pp_later s s'" using l6 l7 l8 by (blast intro: pp_later_trans)
    ultimately show ?thesis using qs(1,2,4) by (intro conjI impI exI [of _ qs]) simp_all
  qed
qed

lemma start_pwr:
  assumes "InitI2CDevice env s = Some (ret, s')" "i2c0 s'"
  shows "gpio_pwr s' = gpio_pwr s"
proof -
  define c where "c = start_cfg (cfg_i2c s)"
  obtain s4 where s4: "pp_I2CBusInit env (cfg_clk c) (ucast (clk_khz c AND 0x8000)) (start_prepared env s) = Some s4"
    and rest: "(if cfg_period c < 70000 div cfg_clk c
      then Some (0, pp_Timer_Stop (pp_set_pktcnt 0 (s4\<lparr>t_rd_us := cfg_period c\<rparr>)))
      else do { s \<leftarrow> pp_prepare env (s4\<lparr>t_rd_us := cfg_period c\<rparr>); s \<leftarrow> pp_init_regs env (init (cfg_i2c s)) s;
        pp_begin s }) = Some (ret, s')"
    using assms(1) by (auto simp: start_parts Let_def c_def bind_eq_Some_conv split: if_splits)
  define s5 where "s5 = s4\<lparr>t_rd_us := cfg_period c\<rparr>"
  have 5: "gpio_pwr s5 = gpio_pwr s"
    using pp_core_fields(5) [OF conjunct1 [OF bus_init_spec [OF s4]]] pp_core_fields(5) [OF start_prepared_spec(1) [of env s]]
    by (simp add: s5_def)
  show ?thesis
  proof (cases "cfg_period c < 70000 div cfg_clk c")
    case True
    then have "s' = pp_Timer_Stop (pp_set_pktcnt 0 s5)" using rest by (simp add: s5_def)
    with pp_core_fields(5) [OF conjunct1 [OF halt_spec [of s5]]] 5 show ?thesis by (simp add: halted_def)
  next
    case False
    obtain s6 s7 where s67: "pp_prepare env s5 = Some s6" "pp_init_regs env (init (cfg_i2c s6)) s6 = Some s7"
      "pp_begin s7 = Some (ret, s')"
      using rest False by (auto simp: bind_eq_Some_conv s5_def)
    have 6: "gpio_pwr s6 = gpio_pwr s5"
      using prepare_spec [OF s67(1)] by (cases "pktcnt (cfg_i2c s5) = 0") (auto simp: halted_def dest!: pp_core_fields(5))
    have "i2c0 s6"
      using begin_spec [OF s67(3)] init_regs_i2c0 [OF s67(2)] assms(2) by (auto split: if_splits)
    from init_regs_spec [OF s67(2) this] have "gpio_pwr s7 = gpio_pwr s6"
      by (auto simp: halted_def dest!: pp_core_fields(5))
    moreover have "gpio_pwr s' = gpio_pwr s7"
      using begin_spec [OF s67(3)] by (auto split: if_splits dest!: pp_core_fields(5))
    ultimately show ?thesis using 5 6 by simp
  qed
qed

lemma demo_pp_start:
  "\<exists>s0. InitI2CDevice demo_pp_env demo_pp = Some (1, s0) \<and> i2c0 s0 \<and> pktcnt (cfg_i2c s0) = 2 \<and>
     start_cfg demo_poll = demo_poll"
proof -
  have c: "cfg_i2c demo_pp = demo_poll" by (simp add: demo_pp_def)
  have k: "(400 :: u16) AND 0x7fff = 400" by simp
  have e: "start_cfg demo_poll = demo_poll" "\<not> cfg_period demo_poll < 70000 div cfg_clk demo_poll"
    by (simp_all add: demo_poll_def start_cfg_def cfg_period_def cfg_clk_def k)
  obtain ret s0 where s0: "InitI2CDevice demo_pp_env demo_pp = Some (ret, s0)" "i2c0 s0"
    using start_total_pp [OF demo_pp_clock, of demo_pp] by (auto simp: demo_pp_env_def c demo_poll_def)
  have "\<not> nak_at demo_pp_env q" for q by (simp add: nak_at_def demo_pp_env_def I2C_NAK_INT_def)
  then have p: "pktcnt (cfg_i2c s0) = 2"
    using conjunct2 [OF start_status [OF s0], unfolded c e(1)] e(2) by (auto simp: demo_poll_def)
  moreover have "ret = 1"
    using start_pp_spec [OF s0(1) demo_pp_shape s0(2)] p e
    by (auto simp: started_as_def Let_def c demo_poll_def split: if_splits)
  ultimately show ?thesis using s0 e(1) by blast
qed

theorem pp_sampling_witness:
  "\<exists>s0 s' p q r. InitI2CDevice demo_pp_env demo_pp = Some (1, s0) \<and> pp_ticks demo_pp_env 3 s0 = Some s' \<and>
    xfers s' = [Wr 0x40 0 [0x40, 0x05], Rd 0x40 1 2, Rd 0x40 2 2, Rd 0x40 1 2, Rd 0x40 2 2] \<and>
    p < q \<and> q < r \<and> pp_pending s' = map (\<lambda>n. ucast (of_nat n :: u32)) [p, q, r]"
proof -
  obtain s0 where s0: "InitI2CDevice demo_pp_env demo_pp = Some (1, s0)" "i2c0 s0" "pktcnt (cfg_i2c s0) \<noteq> 0"
    "start_cfg demo_poll = demo_poll"
    using demo_pp_start by force
  have c: "cfg_i2c demo_pp = demo_poll" by (simp add: demo_pp_def)
  have m: "measuring demo_poll (xfers demo_pp @ map wr_xfer (takeWhile (\<lambda>r. wr_dev_addr r \<noteq> 0) (init demo_poll))) 0 s0"
    "timer1 s0"
    using start_pp_spec [OF s0(1) demo_pp_shape s0(2)] s0(3,4)
    by (auto simp: started_as_def Let_def c split: if_splits)
  from pp_ticks_total [OF m s0(2)] obtain s' where s': "pp_ticks demo_pp_env 3 s0 = Some s'" by blast
  have x: "xfers demo_pp = []" by (simp add: demo_pp_def xfers_def)
  have n: "next_raddr demo_poll 0 = 1" "next_raddr demo_poll (Suc 0) = 0"
    by (simp_all add: next_raddr_def raddr_dev_addr_def demo_poll_def)
  have u: "[0..<Suc 3] = [0, Suc 0, Suc (Suc 0), Suc (Suc (Suc 0))]" by (simp add: upt_rec)
  have reads: "map (\<lambda>k. rd_xfer (poll_reg demo_poll k)) [0..<Suc 3] = [Rd 0x40 1 2, Rd 0x40 2 2, Rd 0x40 1 2, Rd 0x40 2 2]"
    unfolding u by (simp add: poll_reg_def n) (simp add: demo_poll_def rd_xfer_def)
  have writes: "map wr_xfer (takeWhile (\<lambda>r. wr_dev_addr r \<noteq> 0) (init demo_poll)) = [Wr 0x40 0 [0x40, 0x05]]"
    by (simp add: demo_poll_def wr_xfer_def)
  have env: "i2c_in (demo_pp_env p) I2C_FIFO_RDATA_OFFSET = of_nat p" for p by (simp add: demo_pp_env_def regs)
  have three: "(3 :: nat) \<le> 255" by simp
  note r = pp_sampling [OF demo_pp_shape s0(1-3) s' three, unfolded c s0(4) x writes env]
  have x': "xfers s' = [Wr 0x40 0 [0x40, 0x05], Rd 0x40 1 2, Rd 0x40 2 2, Rd 0x40 1 2, Rd 0x40 2 2]"
    and len: "length (pp_pending s') = 3" using r unfolding reads by simp_all
  obtain t0 t1 where 0: "pp_ticks demo_pp_env 0 s0 = Some t0" "pp_timer1_isr demo_pp_env t0 = Some t1"
    "Suc (pp_pos t0) < pp_pos t1" "pp_pending s' ! 0 = ucast (of_nat (Suc (pp_pos t0)) :: u32)"
    using r by (metis zero_less_numeral)
  have "(1 :: nat) < 3" by simp
  then obtain u1 t2 where 1: "pp_ticks demo_pp_env 1 s0 = Some u1" "pp_timer1_isr demo_pp_env u1 = Some t2"
    "Suc (pp_pos u1) < pp_pos t2" "pp_pending s' ! 1 = ucast (of_nat (Suc (pp_pos u1)) :: u32)"
    using r by metis
  have "(2 :: nat) < 3" by simp
  then obtain u2 t3 where 2: "pp_ticks demo_pp_env 2 s0 = Some u2" "pp_pending s' ! 2 = ucast (of_nat (Suc (pp_pos u2)) :: u32)"
    using r by metis
  have "u1 = t1" using 0(1,2) 1(1) by simp
  moreover have "u2 = t2" using 1(1,2) 2(1) by (simp add: numeral_2_eq_2)
  moreover have "pp_pending s' = [pp_pending s' ! 0, pp_pending s' ! 1, pp_pending s' ! 2]"
    by (rule nth_equalityI) (auto simp: len less_Suc_eq numeral_3_eq_3 numeral_2_eq_2)
  ultimately show ?thesis using s0(1) s' x' 0(3,4) 1(3,4) 2(2)
    by (intro exI [of _ s0] exI [of _ s'] exI [of _ "Suc (pp_pos t0)"] exI [of _ "Suc (pp_pos u1)"] exI [of _ "Suc (pp_pos u2)"]) simp
qed

text \<open>
  C31: The wait for the end of a transfer takes its time stamp as 32 bits, while the counter has 64. While
  the counter is below 2^32 microseconds the wait goes on until the limit is exceeded. From then on,
  after 71 minutes of operation, the first look that finds the bus still busy ends it at once with
  the timeout code, whatever the limit.
\<close>

theorem pp_wait_gives_up:
  assumes "i2c0 s"
    "i2c_in (env (pp_pos s + 1)) I2C_BUS_BUSY_OFFSET AND I2C_STS_I2C_BUS_BUSY \<noteq> 0"
    "now_us (env (pp_pos s)) \<le> now_us (env (pp_pos s + 2))"
  defines "t0 \<equiv> unat (now_us (env (pp_pos s)))" and "t1 \<equiv> unat (now_us (env (pp_pos s + 2)))"
  shows "(2 ^ 32 \<le> t0 \<longrightarrow> I2CBusTrBusy env tmo s = Some (- ETIMEDOUT, s\<lparr>pp_pos := pp_pos s + 3\<rparr>)) \<and>
    (t0 < 2 ^ 32 \<longrightarrow> I2CBusTrBusy env tmo s =
      (if t1 - t0 \<le> unat tmo then tr_busy_loop env (of_nat t0) tmo (s\<lparr>pp_pos := pp_pos s + 3\<rparr>)
       else Some (- ETIMEDOUT, s\<lparr>pp_pos := pp_pos s + 3\<rparr>)))"
proof -
  let ?a = "now_us (env (pp_pos s))" and ?b = "now_us (env (pp_pos s + 2))"
  define st where "st = (ucast ?a :: u32)"
  have le: "t0 \<le> t1" using assms(3) by (simp add: t0_def t1_def word_le_nat_alt)
  have st: "unat (ucast st :: 64 word) = t0 mod 4294967296"
    by (simp add: st_def t0_def unsigned_ucast_eq take_bit_eq_mod unat_mod)
  have "unat (ucast st :: 64 word) \<le> unat ?b"
    using le unfolding st t1_def by (meson le_trans mod_less_eq_dividend)
  then have d: "unat (?b - ucast st) = t1 - t0 mod 4294967296"
    by (simp add: unat_sub word_le_nat_alt st t1_def)
  have c: "?b - ucast st > ucast tmo \<longleftrightarrow> t1 - t0 mod 4294967296 > unat tmo"
  proof -
    have "unat tmo < 18446744073709551616" using unat_u32_bound [of tmo] by linarith
    then have "unat (ucast tmo :: 64 word) = unat tmo" by (simp add: unsigned_ucast_eq take_bit_eq_mod)
    then show ?thesis unfolding word_less_nat_alt d by simp
  qed
  have r: "I2CBusTrBusy env tmo s = (if t1 - t0 mod 4294967296 > unat tmo
      then Some (- ETIMEDOUT, s\<lparr>pp_pos := pp_pos s + 3\<rparr>)
      else tr_busy_loop env st tmo (s\<lparr>pp_pos := pp_pos s + 3\<rparr>))"
  proof -
    have "I2CBusTrBusy env tmo s = tr_busy_loop env st tmo (s\<lparr>pp_pos := pp_pos s + 1\<rparr>)"
      using assms(1) by (simp add: I2CBusTrBusy_def pp_get_def st_def)
    also have "\<dots> = (if ?b - ucast st > ucast tmo then Some (- ETIMEDOUT, s\<lparr>pp_pos := pp_pos s + 3\<rparr>)
        else tr_busy_loop env st tmo (s\<lparr>pp_pos := pp_pos s + 3\<rparr>))"
      using assms(2) by (subst tr_busy_loop_step) (simp add: Let_def eval_nat_numeral)
    finally show ?thesis unfolding c .
  qed
  have stn: "st = of_nat t0" by (simp add: st_def t0_def)
  have big: "unat tmo < t1 - t0 mod 4294967296" if "2 ^ 32 \<le> t0"
  proof -
    have "t0 mod 4294967296 + 4294967296 \<le> t0"
    proof -
      have "1 \<le> t0 div 4294967296" using that by (simp add: div_greater_zero_iff Suc_le_eq)
      then have "4294967296 * 1 \<le> 4294967296 * (t0 div 4294967296)" by (rule mult_le_mono2)
      then show ?thesis using mult_div_mod_eq [of 4294967296 t0] by linarith
    qed
    then show ?thesis using le unat_u32_bound [of tmo] by linarith
  qed
  show ?thesis
  proof (intro conjI impI)
    assume "2 ^ 32 \<le> t0"
    from big [OF this] show "I2CBusTrBusy env tmo s = Some (- ETIMEDOUT, s\<lparr>pp_pos := pp_pos s + 3\<rparr>)"
      unfolding r by (rule if_P)
  next
    assume "t0 < 2 ^ 32"
    then have "t0 mod 4294967296 = t0" by simp
    then show "I2CBusTrBusy env tmo s =
      (if t1 - t0 \<le> unat tmo then tr_busy_loop env (of_nat t0) tmo (s\<lparr>pp_pos := pp_pos s + 3\<rparr>)
       else Some (- ETIMEDOUT, s\<lparr>pp_pos := pp_pos s + 3\<rparr>))"
      unfolding r stn by (cases "t1 - t0 \<le> unat tmo") simp_all
  qed
qed

theorem pp_wait_gives_up_witness:
  "I2CBusTrBusy (demo_pp_env(1 := (demo_pp_env 1)\<lparr>i2c_in := \<lambda>_. 1\<rparr>, 0 := (demo_pp_env 0)\<lparr>now_us := 2 ^ 32\<rparr>,
       2 := (demo_pp_env 2)\<lparr>now_us := 2 ^ 32 + 40\<rparr>)) 4000 demo_pp =
     Some (- ETIMEDOUT, demo_pp\<lparr>pp_pos := 3\<rparr>)"
proof -
  let ?e = "demo_pp_env(1 := (demo_pp_env 1)\<lparr>i2c_in := \<lambda>_. 1\<rparr>, 0 := (demo_pp_env 0)\<lparr>now_us := 2 ^ 32\<rparr>,
       2 := (demo_pp_env 2)\<lparr>now_us := 2 ^ 32 + 40\<rparr>)"
  have p: "pp_pos demo_pp = 0" "i2c0 demo_pp" by (simp_all add: demo_pp_def)
  have b: "i2c_in (?e (pp_pos demo_pp + 1)) I2C_BUS_BUSY_OFFSET AND I2C_STS_I2C_BUS_BUSY \<noteq> 0"
    by (simp add: p I2C_STS_I2C_BUS_BUSY_def)
  have n: "now_us (?e (pp_pos demo_pp)) \<le> now_us (?e (pp_pos demo_pp + 2))"
    by (simp add: p word_le_nat_alt)
  have t: "2 ^ 32 \<le> unat (now_us (?e (pp_pos demo_pp)))" by (simp add: p)
  have q: "pp_pos demo_pp + 3 = 3" by (simp add: p)
  show ?thesis
    by (rule pp_wait_gives_up [OF p(2) b n, of 4000, THEN conjunct1, THEN mp, OF t, unfolded q])
qed

text \<open>
  A register access on the bus returns and is one transfer: a write sends the value most significant
  byte first to the register of the device whose address is the upper seven bits of the address
  byte, a read asks for two bytes; the result is 1 for acknowledged and 0 for not. Without the
  peripheral nothing is sent, and the result -1 reads as success to the callers, which test it for
  zero: a start then counts the initialising writes as done.
\<close>

theorem pp_register_access:
  assumes "pp_clock env"
  shows "\<exists>w w' r bs r'. pp_I2CBusWriteWord env a reg d s = Some (w, w') \<and>
    pp_I2CBusReadWord env a reg s = Some (r, bs, r') \<and>
    (i2c0 s \<longrightarrow> w \<in> {0, 1} \<and> r \<in> {0, 1} \<and> pp_core w' = pp_core s \<and> pp_core r' = pp_core s \<and>
      xfers w' = xfers s @ [Wr (ucast (drop_bit 1 a)) (ucast reg) [ucast (drop_bit 8 d), ucast d]] \<and>
      xfers r' = xfers s @ [Rd (ucast (drop_bit 1 a)) (ucast reg) 2] \<and> (\<exists>x y. bs = Some [x, y])) \<and>
    (\<not> i2c0 s \<longrightarrow> w = -1 \<and> r = -1 \<and> w' = s \<and> r' = s \<and> bs = None \<and>
      (\<forall>rs. \<exists>s'. pp_init_regs env rs s = Some s' \<and> cfg_i2c s' = cfg_i2c s \<and> xfers s' = xfers s))"
proof -
  obtain w w' where w: "pp_I2CBusWriteWord env a reg d s = Some (w, w')"
    using bus_write_total [OF assms] by blast
  obtain r bs r' where r: "pp_I2CBusReadWord env a reg s = Some (r, bs, r')"
    using bus_read_total [OF assms] by blast
  have "\<exists>s'. pp_init_regs env rs t = Some s' \<and> cfg_i2c s' = cfg_i2c t \<and> xfers s' = xfers t"
    if "\<not> i2c0 t" for rs t
    using that
  proof (induction rs arbitrary: t)
    case (Cons x rs)
    have "cfg_i2c (pp_put y t) = cfg_i2c t" for y by (simp add: pp_put_def)
    with Cons.IH [of "pp_put (Wait_us 200) t"] Cons.prems show ?case
      by (auto simp: pp_I2CBusWriteWord_def xfers_put_other)
  qed simp
  with w r bus_write_spec [OF w] bus_read_spec [OF r] show ?thesis
    by (cases "i2c0 s") auto
qed

theorem pp_register_access_witness:
  "\<exists>w'. pp_I2CBusWriteWord demo_pp_env 0x80 1 0x1234 (demo_pp\<lparr>i2c0 := False\<rparr>) = Some (-1, w') \<and> xfers w' = []"
  using pp_register_access [OF demo_pp_clock, where a = "0x80" and reg = 1 and d = "0x1234" and s = "demo_pp\<lparr>i2c0 := False\<rparr>"]
  by (auto simp: demo_pp_def xfers_def)

lemma and_ff: "(w :: u32) AND 0xff = take_bit 8 w"
  by (simp add: take_bit_eq_mask mask_eq_exp_minus_1)

lemma phase_bytes:
  "(\<forall>j < 4. drop_bit (8 * j) (phase_word ph) AND 0xff = ph) \<longleftrightarrow> unat ph < 256"
proof
  assume "unat ph < 256"
  then have "take_bit 8 ph = ph" by (simp add: word_unat_eq_iff unsigned_take_bit_eq take_bit_eq_mod unat_mod)
  then have hi: "\<not> bit ph i" if "8 \<le> i" for i
    using that by (metis bit_take_bit_iff not_le)
  then have lo: "i < 8" if "bit ph i" for i
    using that by (metis not_le)
  show "\<forall>j < 4. drop_bit (8 * j) (phase_word ph) AND 0xff = ph"
  proof (intro allI impI)
    fix j :: nat assume "j < 4"
    then have "j = 0 \<or> j = 1 \<or> j = 2 \<or> j = 3" by auto
    then show "drop_bit (8 * j) (phase_word ph) AND 0xff = ph"
      by (elim disjE; intro bit_word_eqI)
        (auto simp: phase_word_def and_ff bit_take_bit_iff bit_or_iff bit_drop_bit_eq bit_push_bit_iff hi
          not_less dest: lo)
  qed
next
  assume "\<forall>j < 4. drop_bit (8 * j) (phase_word ph) AND 0xff = ph"
  then have "phase_word ph AND 0xff = ph" by force
  moreover have "unat (phase_word ph AND 0xff) = unat (phase_word ph) mod 2 ^ 8"
    by (rule unat_and_mask_mod) simp
  ultimately have "unat ph = unat (phase_word ph) mod 256" by simp
  then show "unat ph < 256" by simp
qed

lemma i2c_phase_72M:
  assumes "50 \<le> k" "k \<le> 2500"
  shows "unat (i2c_phase 72000000 (of_nat k * 1000)) = 18000 div k - 1"
proof -
  have "unat (of_nat k * 1000 * 4 :: u32) = k * 4000"
    using assms by (simp add: unat_word_ariths unat_of_nat)
  then have "unat (72000000 div (of_nat k * 1000 * 4) :: u32) = 72000000 div (k * 4000)"
    by (simp add: unat_div)
  also have "\<dots> = 18000 div k" using div_mult_mult2 [of 4000 18000 k] by simp
  finally have u: "unat (72000000 div (of_nat k * 1000 * 4) :: u32) = 18000 div k" .
  have "1 \<le> 18000 div k" using assms by (simp add: div_greater_zero_iff Suc_le_eq)
  moreover define x :: u32 where "x = 72000000 div (of_nat k * 1000 * 4)"
  ultimately have "unat x = 18000 div k" "1 \<le> x" using u by (simp_all only: word_le_nat_alt unsigned_1)
  then show ?thesis unfolding i2c_phase_def x_def [symmetric] by (simp add: unat_sub)
qed

text \<open>
  Setting the clock with the 72 MHz of the peripheral: the three timing registers get the same word,
  which holds the phase length in each of its four bytes exactly for clocks from 71 kHz; the range
  the start accepts begins at 50 kHz, and below 71 kHz the phases overlap in the word. Clock
  synchronisation is switched off whatever was asked for.
\<close>

theorem pp_clock_settings:
  assumes "set_i2c_clk env (of_nat k * 1000) stretching s = Some s'" "50 \<le> k" "k \<le> 2500"
    "i2c_clk (env (pp_pos s + 1)) = 72000000"
  defines "ph \<equiv> i2c_phase 72000000 (of_nat k * 1000)"
  shows "\<exists>v w. pp_log s' = pp_log s @ [I2c_put I2C_INT_STS_OFFSET v, I2c_put I2C_PRD_START_OFFSET w,
      I2c_put I2C_PRD_STOP_OFFSET w, I2c_put I2C_PRD_DATA_OFFSET w,
      I2c_put I2C_CONFIG_OFFSET (i2c_config s')] \<and>
    unat ph = 18000 div k - 1 \<and>
    ((\<forall>j < 4. drop_bit (8 * j) w AND 0xff = ph) \<longleftrightarrow> 71 \<le> k) \<and> \<not> bit (i2c_config s') 3"
proof -
  have u: "unat ph = 18000 div k - 1" unfolding ph_def by (rule i2c_phase_72M [OF assms(2,3)])
  have "unat ph < 256 \<longleftrightarrow> 71 \<le> k"
  proof -
    have "unat ph < 256 \<longleftrightarrow> 18000 div k < 257" using u by auto
    also have "\<dots> \<longleftrightarrow> 18000 < 257 * k" using assms(2) by (simp add: div_less_iff_less_mult)
    also have "\<dots> \<longleftrightarrow> 71 \<le> k" by auto
    finally show ?thesis .
  qed
  moreover have "\<not> bit (c AND NOT I2C_CR_I2C_SCL_SYNC_EN) 3" for c :: u32
    by (simp add: I2C_CR_I2C_SCL_SYNC_EN_def bit_simps)
  ultimately show ?thesis using assms(1,4) u phase_bytes [of ph]
    by (auto simp: set_i2c_clk_def pp_get_def Let_def simp flip: ph_def split: if_splits)
qed

theorem pp_clock_settings_witness:
  "\<exists>s'. set_i2c_clk demo_pp_env (of_nat 50 * 1000) True demo_pp = Some s' \<and> \<not> bit (i2c_config s') 3"
proof -
  obtain s' where s': "set_i2c_clk demo_pp_env (of_nat 50 * 1000) True demo_pp = Some s'"
    by (simp add: set_i2c_clk_def pp_get_def Let_def)
  have "i2c_clk (demo_pp_env (pp_pos demo_pp + 1)) = 72000000" by (simp add: demo_pp_env_def)
  from pp_clock_settings [OF s' _ _ this] s' show ?thesis by auto
qed

text \<open>
  Going to sleep stops the sampling, and sends the first of the two configured sleep writes when it
  has an address; when the second one has an address too, the first is sent again, and the second
  never.
\<close>

theorem pp_sleep_repeats:
  assumes "pp_I2CDevSleep env s = Some s'" "\<forall>p. dev_found (env p)"
  defines "w1 \<equiv> slp (cfg_i2c s) ! 0" and "w2 \<equiv> slp (cfg_i2c s) ! 1"
  shows "timer_flg s' = 0 \<and> pktcnt (cfg_i2c s') = 0 \<and>
    xfers s' = xfers s @ (if wr_dev_addr w1 = 0 then []
      else if wr_dev_addr w2 = 0 then [wr_xfer w1] else [wr_xfer w1, wr_xfer w1])"
proof -
  define t where "t = pp_Timer_Stop ((pp_set_pktcnt 0 s)\<lparr>t_rd_us := 0\<rparr>)"
  have t: "timer_flg t = 0" "cfg_i2c t = (cfg_i2c s)\<lparr>pktcnt := 0\<rparr>" "xfers t = xfers s"
    using timer_stop_spec [of "(pp_set_pktcnt 0 s)\<lparr>t_rd_us := 0\<rparr>"]
      pp_core_fields(6,7) [OF conjunct1 [OF timer_stop_spec [of "(pp_set_pktcnt 0 s)\<lparr>t_rd_us := 0\<rparr>"]]]
    by (simp_all add: t_def pp_set_pktcnt_def)
  obtain u where u: "pp_sleep_writes env t = Some u"
    "s' = reset_i2c0 env (if gpio_pwr (pp_I2CBusDeInit env u)
              then fold pp_put [Gpio_init PP_SDA Out_float_pullup, Gpio_init PP_SCL Out_float_pullup,
                     Gpio_reset PP_POWER, Gpio_reset PP_SDA, Gpio_reset PP_SCL] (pp_I2CBusDeInit env u)
              else pp_I2CBusDeInit env u)"
    using assms(1) by (auto simp: pp_I2CDevSleep_def Let_def bind_eq_Some_conv simp flip: t_def)
  have w1: "slp (cfg_i2c t) ! 0 = w1" using t(2) by (simp add: w1_def)
  have "pp_core s' = pp_core u \<and> xfers s' = xfers u"
    using bus_deinit_spec [of env u] reset_spec by (simp add: u(2) xfers_put_other)
  moreover have "timer_flg u = 0 \<and> cfg_i2c u = cfg_i2c t \<and>
      xfers u = xfers s @ (if wr_dev_addr w1 = 0 then []
      else if wr_dev_addr w2 = 0 then [wr_xfer w1] else [wr_xfer w1, wr_xfer w1])"
  proof (cases "wr_dev_addr w1 = 0")
    case True
    then show ?thesis using u(1) t by (simp add: pp_sleep_writes_def flip: w1_def)
  next
    case False
    then obtain x r y where x: "pp_I2CBusInit env (ucast (clk_khz (cfg_i2c t))) 0 t = Some x"
      "pp_I2CBusWriteWord env (wr_dev_addr w1) (wr_reg_addr w1) (wr_data w1) x = Some (r, y)"
      using u(1) by (auto simp: pp_sleep_writes_def w1 bind_eq_Some_conv)
    note fx = pp_core_fields [OF conjunct1 [OF bus_init_spec [OF x(1)]]]
    have ix: "i2c0 x" using fx(1) assms(2) by simp
    have y: "pp_core y = pp_core x" "xfers y = xfers s @ [wr_xfer w1]"
      using bus_write_spec [OF x(2)] ix bus_init_spec [OF x(1)] t(3) by (simp_all add: wr_xfer_def)
    note fy = pp_core_fields [OF y(1)]
    have a: "wr_dev_addr (slp (cfg_i2c y) ! 1) = wr_dev_addr w2"
      using fy(6) fx(6) t(2) by (simp add: w2_def)
    show ?thesis
    proof (cases "wr_dev_addr w2 = 0")
      case True
      then have "u = y" using u(1) x a \<open>wr_dev_addr w1 \<noteq> 0\<close> by (simp add: pp_sleep_writes_def w1)
      with y(2) fy fx t True \<open>wr_dev_addr w1 \<noteq> 0\<close> show ?thesis by simp
    next
      case False
      then obtain q where q: "pp_I2CBusWriteWord env (wr_dev_addr w1) (wr_reg_addr w1) (wr_data w1) y = Some (q, u)"
        using u(1) x a \<open>wr_dev_addr w1 \<noteq> 0\<close> by (auto simp: pp_sleep_writes_def w1 bind_eq_Some_conv)
      have "pp_core u = pp_core y" "xfers u = xfers y @ [wr_xfer w1]"
        using bus_write_spec [OF q] fy(1) ix by (simp_all add: wr_xfer_def)
      with y(2) fy fx t False \<open>wr_dev_addr w1 \<noteq> 0\<close> pp_core_fields [of u y] show ?thesis by simp
    qed
  qed
  ultimately show ?thesis using pp_core_fields [of s' u] t(2) by simp
qed

theorem pp_sleep_repeats_witness:
  "\<exists>s'. pp_I2CDevSleep demo_pp_env demo_pp = Some s' \<and> xfers s' = [Wr 0x40 0 [0, 0], Wr 0x40 0 [0, 0]]"
proof -
  define t where "t = pp_Timer_Stop ((pp_set_pktcnt 0 demo_pp)\<lparr>t_rd_us := 0\<rparr>)"
  have c: "cfg_i2c t = demo_poll\<lparr>pktcnt := 0\<rparr>"
    using pp_core_fields(6) [OF conjunct1 [OF timer_stop_spec [of "(pp_set_pktcnt 0 demo_pp)\<lparr>t_rd_us := 0\<rparr>"]]]
    by (simp add: t_def pp_set_pktcnt_def demo_pp_def)
  obtain x where x: "pp_I2CBusInit demo_pp_env (ucast (clk_khz (cfg_i2c t))) 0 t = Some x"
    using bus_init_total [of "ucast (clk_khz (cfg_i2c t))" demo_pp_env 0 t] by (auto simp: c demo_poll_def)
  have fx: "cfg_i2c x = demo_poll\<lparr>pktcnt := 0\<rparr>"
    using pp_core_fields(6) [OF conjunct1 [OF bus_init_spec [OF x]]] by (simp add: c)
  let ?w = "\<lambda>s. pp_I2CBusWriteWord demo_pp_env 0x80 0 0 s"
  obtain r y where y: "?w x = Some (r, y)" using bus_write_total [OF demo_pp_clock] by blast
  have fy: "cfg_i2c y = demo_poll\<lparr>pktcnt := 0\<rparr>"
    using bus_write_spec [OF y] pp_core_fields(6) [of y x] fx by (auto split: if_splits)
  obtain q z where z: "?w y = Some (q, z)" using bus_write_total [OF demo_pp_clock] by blast
  have "pp_sleep_writes demo_pp_env t = Some z"
    using x y z by (simp add: pp_sleep_writes_def Let_def c fy demo_poll_def)
  then obtain s' where s': "pp_I2CDevSleep demo_pp_env demo_pp = Some s'"
    by (simp add: pp_I2CDevSleep_def Let_def flip: t_def)
  have "\<forall>p. dev_found (demo_pp_env p)" by (simp add: demo_pp_env_def)
  note r = pp_sleep_repeats [OF s' this]
  have p: "cfg_i2c demo_pp = demo_poll" "xfers demo_pp = []" by (simp_all add: demo_pp_def xfers_def)
  have "xfers s' = [Wr 0x40 0 [0, 0], Wr 0x40 0 [0, 0]]"
    using r unfolding p by (simp add: demo_poll_def wr_xfer_def)
  with s' show ?thesis by blast
qed

end
