(* ===== verification/PpAdc.thy ===== *)
theory PpAdc
  imports PpI2c
begin

text \<open>
  The analog sampler of the BL702 power profiler (\<open>adc_dma.c\<close>): the converter runs continuously, a DMA
  channel stores 61 words, and its interrupt packs them into a block for the USB ring buffer. The
  build has \<open>ADC_SPS_AUTO\<close> and no \<open>TESTS_DAC_STEP_ADC\<close>. The calls into the SDK are logged in order; what
  the SDK answers is a sequence of samples. Using a device pointer that is NULL is \<open>None\<close>.
\<close>

section \<open>State\<close>

definition ADC_DATA_BLK_CNT :: nat where "ADC_DATA_BLK_CNT = 61"

definition ADC_RESOLUTION_12B :: nat where [regs]: "ADC_RESOLUTION_12B = 0"
definition ADC_RESOLUTION_13B :: nat where [regs]: "ADC_RESOLUTION_13B = 1"
definition ADC_RESOLUTION_14B :: nat where [regs]: "ADC_RESOLUTION_14B = 2"
definition ADC_RESOLUTION_15B :: nat where [regs]: "ADC_RESOLUTION_15B = 3"
definition ADC_RESOLUTION_16B :: nat where [regs]: "ADC_RESOLUTION_16B = 4"
definition ADC_CLK_DIV_12 :: nat where [regs]: "ADC_CLK_DIV_12 = 3"
definition ADC_CLK_DIV_16 :: nat where [regs]: "ADC_CLK_DIV_16 = 4"
definition ADC_CLK_DIV_20 :: nat where [regs]: "ADC_CLK_DIV_20 = 5"
definition ADC_CLK_DIV_24 :: nat where [regs]: "ADC_CLK_DIV_24 = 6"
definition ADC_CLK_DIV_32 :: nat where [regs]: "ADC_CLK_DIV_32 = 7"
definition ADC_CHANNEL_GND :: u8 where [regs]: "ADC_CHANNEL_GND = 23"

definition AON_GPADC_PGA_EN :: u32 where "AON_GPADC_PGA_EN = push_bit 13 1"
definition AON_GPADC_PGA2_GAIN_MASK :: u32 where "AON_GPADC_PGA2_GAIN_MASK = push_bit 22 0x7"
definition AON_GPADC_PGA1_GAIN_MASK :: u32 where "AON_GPADC_PGA1_GAIN_MASK = push_bit 25 0x7"

record pp_adc_cfg =
  adc_pktcnt :: u8
  adc_chnl :: u8
  adc_sps :: u16
  pga20db :: u8
  pga2db5 :: u8

definition adc_cfg_bytes :: "pp_adc_cfg \<Rightarrow> u8 list" where
  "adc_cfg_bytes c = [adc_pktcnt c, adc_chnl c] @ le16 (adc_sps c) @ [pga20db c, pga2db5 c]"

definition adc_cfg_of_bytes :: "u8 list \<Rightarrow> pp_adc_cfg" where
  "adc_cfg_of_bytes bs =
     \<lparr>adc_pktcnt = bs ! 0, adc_chnl = bs ! 1, adc_sps = from_le16 (bs ! 2) (bs ! 3), pga20db = bs ! 4,
      pga2db5 = bs ! 5\<rparr>"

definition adc_cfg_memcpy :: "pp_adc_cfg \<Rightarrow> u8 list \<Rightarrow> nat \<Rightarrow> pp_adc_cfg" where
  "adc_cfg_memcpy c src n = adc_cfg_of_bytes (take n src @ drop n (adc_cfg_bytes c))"

text \<open>
  One sample: whether the SDK finds the device asked for, the gain register, and the results of the
  channel configuration, of the DMA list set-up and of the DMA start.
\<close>

record adc_sample =
  adc_found :: bool
  config2_in :: u32
  chan_ret :: int
  reload_ret :: int
  start_ret :: int

type_synonym adc_env = "nat \<Rightarrow> adc_sample"

datatype adc_out = Adc_gpio | Adc_init nat nat | Adc_channel u8 u8 | Adc_config2 u32 | Adc_rxdma
  | Dma_init | Dma_isr_attach | Dma_reload nat | Dma_link int | Dma_start
  | Adc_conv_start | Adc_conv_stop | Dma_stop | Adc_deinit

record padc =
  adc :: bool
  dma0_ch0 :: bool
  cfg_adc :: pp_adc_cfg
  adc_raw_data :: "u32 list"
  adc_blk_data :: "u16 list"
  adc_log :: "adc_out list"
  adc_pos :: nat

definition adc_put :: "adc_out \<Rightarrow> padc \<Rightarrow> padc" where
  "adc_put x d = d\<lparr>adc_log := adc_log d @ [x]\<rparr>"

definition adc_get :: "(adc_sample \<Rightarrow> 'a) \<Rightarrow> adc_env \<Rightarrow> padc \<Rightarrow> 'a \<times> padc" where
  "adc_get f env d = (f (env (adc_pos d)), d\<lparr>adc_pos := adc_pos d + 1\<rparr>)"

section \<open>The interrupt\<close>

definition adc_blk_bytes :: "padc \<Rightarrow> u8 list" where
  "adc_blk_bytes d = le16 (0x0A00 + of_nat (2 * ADC_DATA_BLK_CNT)) @ concat (map le16 (adc_blk_data d))"

text \<open>\<open>for (i = 0; i < ADC_DATA_BLK_CNT; i++) adc_blk.data[i] = (uint16_t)adc_raw_data[i];\<close>\<close>

definition take_raw :: "padc \<Rightarrow> padc" where
  "take_raw d =
     d\<lparr>adc_blk_data := fold (\<lambda>i xs. xs[i := ucast (adc_raw_data d ! i)]) [0..<ADC_DATA_BLK_CNT] (adc_blk_data d)\<rparr>"

definition dma0_ch0_isr :: "padc \<times> pp \<Rightarrow> padc \<times> pp" where
  "dma0_ch0_isr = (\<lambda>(d, s).
     let d = take_raw d;
         sz = of_nat (2 + 2 * ADC_DATA_BLK_CNT);
         (n, rb) = Ring_Buffer_Write (usb_tx_rb s) (adc_blk_bytes d) sz;
         s = s\<lparr>usb_tx_rb := rb\<rparr>
     in (d, if sz = n then s\<lparr>all_read_count := all_read_count s + 1\<rparr>
            else s\<lparr>all_overflow_cnt := all_overflow_cnt s + 1\<rparr>))"

section \<open>Gain and rate\<close>

definition bflb_adc_set_pga :: "adc_env \<Rightarrow> u32 \<Rightarrow> u32 \<Rightarrow> padc \<Rightarrow> padc" where
  "bflb_adc_set_pga env pga1_gain pga2_gain d =
     (let (w, d) = adc_get config2_in env d;
          w = w AND NOT AON_GPADC_PGA1_GAIN_MASK;
          w = w AND NOT AON_GPADC_PGA2_GAIN_MASK;
          w = w OR push_bit 25 pga1_gain;
          w = w OR push_bit 22 pga2_gain;
          w = (if pga1_gain = 0 \<and> pga2_gain = 0 then w AND NOT AON_GPADC_PGA_EN else w OR AON_GPADC_PGA_EN)
      in adc_put (Adc_config2 w) d)"

definition csmpdiv :: "u32 \<Rightarrow> nat" where
  "csmpdiv dsps =
     (if dsps \<ge> 24 + (32 - 24) div 2 then ADC_CLK_DIV_32
      else if dsps \<ge> 20 + (24 - 20) div 2 then ADC_CLK_DIV_24
      else if dsps \<ge> 16 + (20 - 16) div 2 then ADC_CLK_DIV_20
      else if dsps \<ge> 12 + (16 - 12) div 2 then ADC_CLK_DIV_16
      else ADC_CLK_DIV_12)"

text \<open>The resolution and the clock divider for a sampling rate.\<close>

definition adc_rate :: "u32 \<Rightarrow> nat \<times> nat" where
  "adc_rate sps =
     (if sps < 32000000 div 256 div 32 then (ADC_RESOLUTION_16B, ADC_CLK_DIV_32)
      else if sps \<le> 32000000 div 256 div 12 then (ADC_RESOLUTION_16B, csmpdiv ((32000000 div 256) div sps))
      else if sps \<le> 32000000 div 128 div 12 then (ADC_RESOLUTION_15B, csmpdiv ((32000000 div 128) div sps))
      else if sps \<le> 32000000 div 64 div 12 then (ADC_RESOLUTION_14B, csmpdiv ((32000000 div 64) div sps))
      else if sps \<le> 32000000 div 16 div 12 then (ADC_RESOLUTION_13B, csmpdiv ((32000000 div 16) div sps))
      else if sps \<le> 32000000 div 12 then (ADC_RESOLUTION_12B, csmpdiv (32000000 div sps))
      else (ADC_RESOLUTION_15B, ADC_CLK_DIV_12))"

section \<open>Start and stop\<close>

definition adc_dma_init :: "adc_env \<Rightarrow> pp_adc_cfg \<Rightarrow> padc \<Rightarrow> padc option" where
  "adc_dma_init env cadc d = do {
     let sps = ucast (adc_sps cadc);
     let d = adc_put Adc_gpio d;
     let (f, d) = adc_get adc_found env d;
     d \<leftarrow> (if f then Some (d\<lparr>adc := True\<rparr>) else None);
     let (res, dv) = adc_rate sps;
     let d = adc_put (Adc_init res dv) d;
     let (r, d) = adc_get chan_ret env (adc_put (Adc_channel (adc_chnl cadc) ADC_CHANNEL_GND) d);
     let d = bflb_adc_set_pga env (ucast (pga2db5 cadc AND 0x0f)) (ucast (drop_bit 4 (pga2db5 cadc))) d;
     let d = adc_put Adc_rxdma d;
     let (f, d) = adc_get adc_found env d;
     d \<leftarrow> (if f then Some (d\<lparr>dma0_ch0 := True\<rparr>) else None);
     let d = adc_put Dma_isr_attach (adc_put Dma_init d);
     let d = d\<lparr>adc_raw_data := replicate ADC_DATA_BLK_CNT 0\<rparr>;
     let (used, d) = adc_get reload_ret env (adc_put (Dma_reload (4 * ADC_DATA_BLK_CNT)) d);
     let d = (if used \<ge> 0 then adc_put (Dma_link used) d else d);
     let (r, d) = adc_get start_ret env (adc_put Dma_start d);
     Some d
   }"

definition ADC_Start :: "adc_env \<Rightarrow> pp_adc_cfg \<Rightarrow> padc \<Rightarrow> padc option" where
  "ADC_Start env cadc d = do {
     let d = (if adc d then adc_put Adc_conv_stop (adc_put Dma_stop d) else d);
     if adc_pktcnt cadc \<noteq> 0
     then do { d \<leftarrow> adc_dma_init env cadc d; Some (adc_put Adc_conv_start d) }
     else Some d
   }"

definition ADC_Stop :: "padc \<Rightarrow> padc" where
  "ADC_Stop d =
     (if adc d
      then (adc_put Adc_deinit (adc_put Dma_stop (adc_put Adc_conv_stop d)))\<lparr>adc := False\<rparr>
      else d)"

section \<open>The block\<close>

definition padc_wf :: "padc \<Rightarrow> bool" where
  "padc_wf d \<longleftrightarrow> length (adc_raw_data d) = 61 \<and> length (adc_blk_data d) = 61"

definition adc_block :: "u32 list \<Rightarrow> u8 list" where
  "adc_block ws = [122, CMD_DEV_ADC] @ concat (map (\<lambda>w. le16 (ucast w)) ws)"

lemma fold_store:
  "n \<le> length xs \<Longrightarrow> fold (\<lambda>i xs. xs[i := f i]) [0..<n] xs = map f [0..<n] @ drop n xs"
proof (induction n)
  case (Suc n)
  then have "drop n xs = xs ! n # drop (Suc n) xs" by (simp add: Cons_nth_drop_Suc)
  with Suc show ?case by (simp add: list_update_append)
qed simp

lemma take_raw_data:
  assumes "padc_wf d"
  shows "adc_blk_data (take_raw d) = map ucast (adc_raw_data d)"
proof -
  have "adc_blk_data (take_raw d) = map (\<lambda>i. ucast (adc_raw_data d ! i)) [0..<61]"
    using assms by (simp add: take_raw_def fold_store ADC_DATA_BLK_CNT_def padc_wf_def)
  also have "\<dots> = map ucast (adc_raw_data d)"
    by (rule nth_equalityI) (use assms in \<open>simp_all add: padc_wf_def\<close>)
  finally show ?thesis .
qed

lemma take_raw_frame: "padc_wf d \<Longrightarrow> padc_wf (take_raw d)" "cfg_adc (take_raw d) = cfg_adc d"
  "adc (take_raw d) = adc d" "adc_raw_data (take_raw d) = adc_raw_data d"
  using take_raw_data [of d] by (simp_all add: padc_wf_def) (simp_all add: take_raw_def)

lemma adc_block_bytes: "padc_wf d \<Longrightarrow> adc_blk_bytes (take_raw d) = adc_block (adc_raw_data d)"
  by (simp add: adc_blk_bytes_def take_raw_data adc_block_def ADC_DATA_BLK_CNT_def le16_def CMD_DEV_ADC_def comp_def)

lemma length_concat_le16: "length (concat (map (\<lambda>w. le16 (f w)) ws)) = 2 * length ws"
  by (induction ws) simp_all

lemma length_adc_block [simp]: "length (adc_block ws) = 2 + 2 * length ws"
  by (simp add: adc_block_def length_concat_le16)

lemma adc_isr_spec:
  assumes "padc_wf d" "pp_wf s" "dma0_ch0_isr (d, s) = (d', s')"
  defines "free \<equiv> unat (rb_size (usb_tx_rb s)) - length (rb_bytes (usb_tx_rb s))"
  shows "padc_wf d' \<and> pp_wf s' \<and> cfg_adc d' = cfg_adc d \<and> adc d' = adc d \<and> cfg_i2c s' = cfg_i2c s \<and>
    pp_pending s' = pp_pending s \<and> rb_size (usb_tx_rb s') = rb_size (usb_tx_rb s) \<and>
    rb_bytes (usb_tx_rb s') = rb_bytes (usb_tx_rb s) @ take free (adc_block (adc_raw_data d)) \<and>
    all_read_count s' = all_read_count s + (if 124 \<le> free then 1 else 0) \<and>
    all_overflow_cnt s' = all_overflow_cnt s + (if 124 \<le> free then 0 else 1)"
proof -
  let ?b = "adc_block (adc_raw_data d)"
  have len: "length ?b = 124" using assms(1) by (simp add: padc_wf_def)
  have rb: "rb_wf (usb_tx_rb s)" using assms(2) by (simp add: pp_wf_def)
  obtain n g where g: "Ring_Buffer_Write (usb_tx_rb s) ?b 124 = (n, g)" "unat n = min 124 free"
    "rb_wf g" "rb_size g = rb_size (usb_tx_rb s)" "rb_bytes g = rb_bytes (usb_tx_rb s) @ take (unat n) ?b"
    using rb_write_spec [OF rb, of 124 ?b] len unfolding free_def by auto
  have "124 = n \<longleftrightarrow> unat n = 124" by (auto simp: word_unat_eq_iff)
  then have n: "124 = n \<longleftrightarrow> 124 \<le> free" using g(2) by (simp add: min_def)
  have tk: "take (unat n) ?b = take free ?b" using g(2) len by (simp add: min_def)
  have "d' = take_raw d \<and> s' = (if 124 \<le> free then s\<lparr>usb_tx_rb := g, all_read_count := all_read_count s + 1\<rparr>
      else s\<lparr>usb_tx_rb := g, all_overflow_cnt := all_overflow_cnt s + 1\<rparr>)"
    using assms(1,3) g(1) n
    by (auto simp: dma0_ch0_isr_def adc_block_bytes ADC_DATA_BLK_CNT_def Let_def split: if_splits)
  then show ?thesis using take_raw_frame [of d] assms(1,2) g(3-5) tk
    by (auto simp: pp_wf_def pp_pending_def)
qed

section \<open>Properties\<close>

definition demo_padc :: padc where
  "demo_padc = \<lparr>adc = False, dma0_ch0 = False,
     cfg_adc = \<lparr>adc_pktcnt = 0, adc_chnl = 1, adc_sps = 3906, pga20db = 0, pga2db5 = 0\<rparr>,
     adc_raw_data = replicate 61 0x01000123, adc_blk_data = replicate 61 0, adc_log = [], adc_pos = 0\<rparr>"

text \<open>
  The interrupt at the end of a DMA round offers one block to the ring buffer: its header and the low
  halves of the 61 words, in order. The ring takes what fits; only a block taken whole counts as sent,
  a cut one stays in the stream and counts as overflow.
\<close>

theorem adc_interrupt_block:
  assumes "padc_wf d" "pp_wf s" "dma0_ch0_isr (d, s) = (d', s')"
  defines "free \<equiv> unat (rb_size (usb_tx_rb s)) - length (rb_bytes (usb_tx_rb s))"
  shows "padc_wf d' \<and> pp_wf s' \<and>
    rb_bytes (usb_tx_rb s') = rb_bytes (usb_tx_rb s) @
      take free ([122, CMD_DEV_ADC] @ concat (map (\<lambda>w. le16 (ucast w)) (adc_raw_data d))) \<and>
    all_read_count s' = all_read_count s + (if 124 \<le> free then 1 else 0) \<and>
    all_overflow_cnt s' = all_overflow_cnt s + (if 124 \<le> free then 0 else 1)"
  using adc_isr_spec [OF assms(1-3)] by (simp add: adc_block_def free_def)

theorem adc_interrupt_block_witness:
  "\<exists>d' s'. dma0_ch0_isr (demo_padc, demo_pp) = (d', s') \<and> all_read_count s' = 1 \<and>
     rb_bytes (usb_tx_rb s') = [122, 0x0A] @ concat (replicate 61 [0x23, 0x01])"
proof -
  obtain d' s' where r: "dma0_ch0_isr (demo_padc, demo_pp) = (d', s')" by fastforce
  have wf: "padc_wf demo_padc" by (simp add: demo_padc_def padc_wf_def)
  have z: "usb_tx_rb demo_pp = Ring_Buffer_Init (replicate 4096 0) 4096" "all_read_count demo_pp = 0"
    "adc_raw_data demo_padc = replicate 61 0x01000123"
    by (simp_all add: demo_pp_def demo_padc_def)
  have e: "rb_bytes (Ring_Buffer_Init (replicate 4096 0) 4096) = []"
    by (simp add: rb_bytes_def Ring_Buffer_Init_def Ring_Buffer_Get_Length_def)
  have s: "unat (rb_size (Ring_Buffer_Init (replicate 4096 0) 4096)) = 4096" by (simp add: Ring_Buffer_Init_def)
  have l: "le16 0x01000123 = [0x23, 0x01]" by (simp add: le16_def)
  have t: "take 4094 (concat (replicate 61 [0x23, 0x01 :: u8])) = concat (replicate 61 [0x23, 0x01])"
    by (rule take_all) (simp add: length_concat sum_list_replicate)
  from adc_interrupt_block [OF wf demo_pp_wf r] r show ?thesis
    unfolding z e s by (simp add: l t CMD_DEV_ADC_def)
qed

text \<open>Words a second at a resolution: the oversampling factor; the divider of a divider code.\<close>

definition adc_oversampling :: "nat \<Rightarrow> nat" where
  "adc_oversampling res = (if res = 4 then 256 else if res = 3 then 128 else if res = 2 then 64
     else if res = 1 then 16 else 1)"

definition adc_divider :: "nat \<Rightarrow> nat" where
  "adc_divider dv = (if dv = 7 then 32 else if dv = 6 then 24 else if dv = 5 then 20 else if dv = 4 then 16 else 12)"

definition near_code :: "nat \<Rightarrow> nat" where
  "near_code q = (if 28 \<le> q then 7 else if 22 \<le> q then 6 else if 18 \<le> q then 5 else if 14 \<le> q then 4 else 3)"

lemma near_code_nearest:
  assumes "d \<in> {12, 16, 20, 24, 32}"
  shows "\<bar>int (adc_divider (near_code q)) - int q\<bar> \<le> \<bar>int d - int q\<bar>"
  using assms by (auto simp: near_code_def adc_divider_def abs_if)

lemma csmpdiv_code: "csmpdiv q = near_code (unat q)"
  by (simp add: csmpdiv_def near_code_def regs word_le_nat_alt)

lemma adc_rate_nat:
  fixes f :: u16
  defines "n \<equiv> unat f"
  shows "adc_rate (ucast f) = (if n < 3906 then (4, 7) else if n \<le> 10416 then (4, near_code (125000 div n))
    else if n \<le> 20833 then (3, near_code (250000 div n)) else if n \<le> 41666 then (2, near_code (500000 div n))
    else (1, near_code (2000000 div n)))"
proof -
  have u: "unat (ucast f :: u32) = n" by (simp add: n_def)
  have "n < 65536" by (simp add: n_def)
  then show ?thesis
    by (simp add: adc_rate_def csmpdiv_code unat_div u word_less_nat_alt word_le_nat_alt regs flip: n_def)
qed

text \<open>
  The resolution and clock chosen for a sampling rate: requests below 3906 get the slowest setting;
  any other 16-bit request gets the highest resolution that is fast enough at the smallest divider,
  and among the five dividers the one nearest to the exact quotient. Requests above 41666 all
  run at 62500 with 13 bits.
\<close>

theorem adc_rate_choice:
  fixes f :: u16
  defines "sps \<equiv> unat f" and "r \<equiv> adc_rate (ucast f)"
  defines "os \<equiv> adc_oversampling (fst r)" and "dv \<equiv> adc_divider (snd r)"
  shows "(sps < 3906 \<longrightarrow> os = 256 \<and> dv = 32) \<and>
    (3906 \<le> sps \<longrightarrow> sps \<le> 32000000 div os div 12 \<and>
      (\<forall>o' \<in> {256, 128, 64, 16}. sps \<le> 32000000 div o' div 12 \<longrightarrow> o' \<le> os) \<and>
      (\<forall>d \<in> {12, 16, 20, 24, 32}. \<bar>int dv - int (32000000 div os div sps)\<bar> \<le> \<bar>int d - int (32000000 div os div sps)\<bar>)) \<and>
    (41666 < sps \<longrightarrow> 32000000 div os div dv = 62500)"
proof -
  have n: "sps < 65536" by (simp add: sps_def)
  note r = adc_rate_nat [of f, folded sps_def r_def]
  note c = os_def dv_def adc_oversampling_def
  show ?thesis
  proof (cases "sps < 3906")
    case True
    then show ?thesis by (simp add: r c adc_divider_def)
  next
    case False
    have near: "\<forall>d \<in> {12, 16, 20, 24, 32}. \<bar>int (adc_divider (near_code q)) - int q\<bar> \<le> \<bar>int d - int q\<bar>" for q
      using near_code_nearest by blast
    consider "sps \<le> 10416" | "10416 < sps" "sps \<le> 20833" | "20833 < sps" "sps \<le> 41666" | "41666 < sps"
      by linarith
    then show ?thesis
    proof cases
      case 1
      then have "r = (4, near_code (125000 div sps))" using False by (simp add: r)
      then show ?thesis using False 1 near [of "125000 div sps"] by (simp add: c)
    next
      case 2
      then have "r = (3, near_code (250000 div sps))" using False by (simp add: r)
      then show ?thesis using False 2 near [of "250000 div sps"] by (simp add: c)
    next
      case 3
      then have "r = (2, near_code (500000 div sps))" using False by (simp add: r)
      then show ?thesis using False 3 near [of "500000 div sps"] by (simp add: c)
    next
      case 4
      then have r4: "r = (1, near_code (2000000 div sps))" using False by (simp add: r)
      have "28 \<le> 2000000 div sps" using 4 n by (simp add: less_eq_div_iff_mult_less_eq)
      then have "near_code (2000000 div sps) = 7" by (simp add: near_code_def)
      then show ?thesis using False 4 n near [of "2000000 div sps"] r4 by (simp add: c adc_divider_def)
    qed
  qed
qed

theorem adc_rate_choice_witness:
  "adc_rate (ucast (45000 :: u16)) = (1, 7) \<and> (32000000 :: nat) div adc_oversampling 1 div adc_divider 7 = 62500"
proof -
  have "adc_rate (ucast (45000 :: u16)) = (1, 7)" using adc_rate_nat [of 45000] by (simp add: near_code_def)
  then show ?thesis using adc_rate_choice [of 45000] by simp
qed

text \<open>The gain word, bit by bit.\<close>

definition pga_word :: "u32 \<Rightarrow> u32 \<Rightarrow> u32 \<Rightarrow> u32" where
  "pga_word w g1 g2 = (w AND NOT AON_GPADC_PGA1_GAIN_MASK) AND NOT AON_GPADC_PGA2_GAIN_MASK OR push_bit 25 g1 OR push_bit 22 g2"

lemma and_7: "(w :: u32) AND 7 = take_bit 3 w"
  by (simp add: take_bit_eq_mask mask_eq_exp_minus_1)

lemma bit_7: "bit (7 :: u32) j \<longleftrightarrow> j < 3"
  using bit_mask_iff [of 3 j, where 'a = u32] by (auto simp: mask_eq_exp_minus_1)

lemma small_bits: "unat g < 2 ^ k \<Longrightarrow> k \<le> i \<Longrightarrow> \<not> bit g i" for g :: u32
proof -
  assume "unat g < 2 ^ k" "k \<le> i"
  have "unat (take_bit k g) = take_bit k (unat g)" by (rule unsigned_take_bit_eq)
  also have "\<dots> = unat g" using \<open>unat g < 2 ^ k\<close> by (rule take_bit_nat_eq_self)
  finally have "take_bit k g = g" by (simp add: word_unat_eq_iff)
  then show ?thesis using \<open>k \<le> i\<close> by (metis bit_take_bit_iff not_less)
qed

lemma bit_pga_word: "i < 32 \<Longrightarrow> bit (pga_word w g1 g2) i \<longleftrightarrow>
    (bit w i \<and> \<not> (22 \<le> i \<and> i < 28)) \<or> (25 \<le> i \<and> bit g1 (i - 25)) \<or> (22 \<le> i \<and> bit g2 (i - 22))"
  unfolding pga_word_def AON_GPADC_PGA1_GAIN_MASK_def AON_GPADC_PGA2_GAIN_MASK_def bit_or_iff bit_and_iff
    bit_not_iff bit_push_bit_iff bit_7
  by auto

definition pga_written :: "u32 \<Rightarrow> u32 \<Rightarrow> u32 \<Rightarrow> u32" where
  "pga_written w g1 g2 =
     (if g1 = 0 \<and> g2 = 0 then pga_word w g1 g2 AND NOT AON_GPADC_PGA_EN else pga_word w g1 g2 OR AON_GPADC_PGA_EN)"

lemma bit_pga_written: "i < 32 \<Longrightarrow> i \<noteq> 13 \<Longrightarrow> bit (pga_written w g1 g2) i \<longleftrightarrow>
    (bit w i \<and> \<not> (22 \<le> i \<and> i < 28)) \<or> (25 \<le> i \<and> bit g1 (i - 25)) \<or> (22 \<le> i \<and> bit g2 (i - 22))"
  unfolding pga_written_def AON_GPADC_PGA_EN_def if_distrib [of "\<lambda>w. bit w i"] bit_or_iff bit_and_iff
    bit_not_iff bit_push_bit_iff bit_1_iff
  using bit_pga_word [of i w g1 g2] by auto

lemma bit3_set: "8 \<le> g \<Longrightarrow> unat g < 16 \<Longrightarrow> bit g 3" for g :: u32
proof -
  assume "8 \<le> g" "unat g < 16"
  then have "g div 8 = 1" by (simp add: word_unat_eq_iff unat_div word_le_nat_alt)
  then show "bit g 3" by (simp add: bit_iff_odd)
qed

lemma pga_fields:
  assumes "g1 < 8" "g2 < 8"
  shows "drop_bit 25 (pga_written w g1 g2) AND 7 = g1 \<and> drop_bit 22 (pga_written w g1 g2) AND 7 = g2"
proof -
  have s: "\<not> bit g1 i" "\<not> bit g2 i" if "3 \<le> i" for i
    using assms small_bits [of _ 3 i] that by (auto simp: word_less_nat_alt)
  have "drop_bit 25 (pga_written w g1 g2) AND 7 = g1"
  proof (rule bit_word_eqI)
    fix i assume "i < LENGTH(32)"
    show "bit (drop_bit 25 (pga_written w g1 g2) AND 7) i = bit g1 i"
      using s [of i] s(2) [of "3 + i"]
      by (cases "i < 3") (auto simp: and_7 bit_take_bit_iff bit_drop_bit_eq bit_pga_written)
  qed
  moreover have "drop_bit 22 (pga_written w g1 g2) AND 7 = g2"
  proof (rule bit_word_eqI)
    fix i assume "i < LENGTH(32)"
    show "bit (drop_bit 22 (pga_written w g1 g2) AND 7) i = bit g2 i"
      using s [of i] by (cases "i < 3") (auto simp: and_7 bit_take_bit_iff bit_drop_bit_eq bit_pga_written)
  qed
  ultimately show ?thesis ..
qed

lemma pga_wide:
  assumes "unat g1 < 16" "unat g2 < 16"
  shows "(8 \<le> g2 \<longrightarrow> bit (pga_written w g1 g2) 25) \<and> (8 \<le> g1 \<longrightarrow> bit (pga_written w g1 g2) 28)"
  using assms bit3_set by (auto simp: bit_pga_written)

lemma gain_nibbles:
  "unat (ucast (b AND 0x0f) :: u32) < 16" "unat (ucast (drop_bit 4 b) :: u32) < 16" for b :: u8
proof -
  have "unat (b AND 0x0f) = unat b mod 2 ^ 4" by (rule unat_and_mask_mod) simp
  then show "unat (ucast (b AND 0x0f) :: u32) < 16" by simp
  have "unat b < 256" using unsigned_less [of b, where 'a = nat] by simp
  then show "unat (ucast (drop_bit 4 b) :: u32) < 16"
    by (simp add: drop_bit_eq_div unat_div less_mult_imp_div_less)
qed

text \<open>What a start writes to the devices, when the SDK finds them.\<close>

definition adc_start_log :: "pp_adc_cfg \<Rightarrow> u32 \<Rightarrow> int \<Rightarrow> adc_out list" where
  "adc_start_log c w used =
     [Adc_gpio, Adc_init (fst (adc_rate (ucast (adc_sps c)))) (snd (adc_rate (ucast (adc_sps c)))),
      Adc_channel (adc_chnl c) ADC_CHANNEL_GND, Adc_config2 w, Adc_rxdma, Dma_init, Dma_isr_attach,
      Dma_reload 244] @ (if used \<ge> 0 then [Dma_link used] else []) @ [Dma_start, Adc_conv_start]"

lemma set_pga_eq: "bflb_adc_set_pga env g1 g2 d =
    d\<lparr>adc_pos := adc_pos d + 1, adc_log := adc_log d @ [Adc_config2 (pga_written (config2_in (env (adc_pos d))) g1 g2)]\<rparr>"
  by (simp add: or.assoc bflb_adc_set_pga_def pga_written_def pga_word_def adc_get_def adc_put_def Let_def)

lemma adc_start_spec:
  fixes d :: padc
  assumes "\<forall>p. adc_found (env p)" "adc_pktcnt c \<noteq> 0"
  defines "w \<equiv> pga_written (config2_in (env (adc_pos d + 2))) (ucast (pga2db5 c AND 0x0f)) (ucast (drop_bit 4 (pga2db5 c)))"
  shows "ADC_Start env c d = Some (d\<lparr>adc := True, dma0_ch0 := True, adc_raw_data := replicate 61 0,
    adc_log := adc_log d @ (if adc d then [Dma_stop, Adc_conv_stop] else []) @
      adc_start_log c w (reload_ret (env (adc_pos d + 4))), adc_pos := adc_pos d + 6\<rparr>)"
proof -
  define u where "u = reload_ret (env (adc_pos d + 4))"
  obtain res dv where rd: "adc_rate (ucast (adc_sps c)) = (res, dv)" by fastforce
  define d0 where "d0 = (if adc d then adc_put Adc_conv_stop (adc_put Dma_stop d) else d)"
  define l0 where "l0 = adc_log d @ (if adc d then [Dma_stop, Adc_conv_stop] else [])"
  have d0: "d0 = d\<lparr>adc_log := l0\<rparr>" by (simp add: d0_def l0_def adc_put_def)
  have w: "w = pga_written (config2_in (env (Suc (Suc (adc_pos d))))) (ucast (pga2db5 c AND 0x0f)) (ucast (drop_bit 4 (pga2db5 c)))"
    by (simp add: w_def)
  have u': "u = reload_ret (env (Suc (Suc (Suc (Suc (adc_pos d))))))" by (simp add: u_def eval_nat_numeral)
  have f: "adc_found (env p)" for p using assms(1) by blast
  have "adc_dma_init env c d0 = Some (d\<lparr>adc := True, dma0_ch0 := True, adc_raw_data := replicate 61 0,
    adc_log := l0 @ butlast (adc_start_log c w u), adc_pos := adc_pos d + 6\<rparr>)"
    unfolding adc_dma_init_def d0 set_pga_eq adc_get_def adc_put_def Let_def rd prod.case
    by (cases "0 \<le> u")
      (simp_all add: f adc_start_log_def rd butlast_append ADC_DATA_BLK_CNT_def flip: w u')
  moreover have "butlast (adc_start_log c w u) @ [Adc_conv_start] = adc_start_log c w u"
    by (simp add: adc_start_log_def butlast_append)
  moreover have "ADC_Start env c d = do { d \<leftarrow> adc_dma_init env c d0; Some (adc_put Adc_conv_start d) }"
    using assms(2) by (simp add: ADC_Start_def Let_def d0_def)
  ultimately show ?thesis by (simp add: adc_put_def l0_def flip: u_def)
qed
text \<open>
  C32: A start configures the converter with the rate and channel of the configuration, the DMA for 61
  words, and runs it; the 20 dB gain of the configuration has no effect. The two gain values come from
  the halves of the other gain byte and are not limited to their three bits: a value above 7 in the
  upper half changes the lowest bit of the other gain, a value above 7 in the lower half a bit above
  the gains.
\<close>

theorem adc_start_config:
  assumes "\<forall>p. adc_found (env p)" "adc_pktcnt c \<noteq> 0"
  defines "g1 \<equiv> ucast (pga2db5 c AND 0x0f) :: u32" and "g2 \<equiv> ucast (drop_bit 4 (pga2db5 c)) :: u32"
  shows "\<exists>d' w used. ADC_Start env c d = Some d' \<and> ADC_Start env (c\<lparr>pga20db := x\<rparr>) d = Some d' \<and>
    adc d' \<and> cfg_adc d' = cfg_adc d \<and>
    adc_log d' = adc_log d @ (if adc d then [Dma_stop, Adc_conv_stop] else []) @ adc_start_log c w used \<and>
    (g1 < 8 \<and> g2 < 8 \<longrightarrow> drop_bit 25 w AND 7 = g1 \<and> drop_bit 22 w AND 7 = g2) \<and>
    (8 \<le> g2 \<longrightarrow> bit w 25) \<and> (8 \<le> g1 \<longrightarrow> bit w 28)"
proof -
  let ?w = "pga_written (config2_in (env (adc_pos d + 2))) g1 g2"
  have g: "unat g1 < 16" "unat g2 < 16" unfolding g1_def g2_def by (rule gain_nibbles)+
  have l: "adc_start_log (c\<lparr>pga20db := x\<rparr>) w u = adc_start_log c w u" for w u by (simp add: adc_start_log_def)
  show ?thesis
    using adc_start_spec [OF assms(1,2), of d] adc_start_spec [OF assms(1), of "c\<lparr>pga20db := x\<rparr>" d] assms(2)
      pga_fields [of g1 g2 "config2_in (env (adc_pos d + 2))"] pga_wide [OF g, of "config2_in (env (adc_pos d + 2))"]
    by (intro exI [of _ "the (ADC_Start env c d)"] exI [of _ ?w] exI [of _ "reload_ret (env (adc_pos d + 4))"])
      (simp add: l flip: g1_def g2_def)
qed

theorem adc_start_config_witness:
  "\<exists>d' w used. ADC_Start (\<lambda>p. \<lparr>adc_found = True, config2_in = 0, chan_ret = 0, reload_ret = 1, start_ret = 0\<rparr>)
      ((cfg_adc demo_padc)\<lparr>adc_pktcnt := 61, pga2db5 := 0x21\<rparr>) demo_padc = Some d' \<and>
    drop_bit 25 w AND 7 = (1 :: u32) \<and> drop_bit 22 w AND 7 = 2 \<and>
    adc_log d' = adc_start_log ((cfg_adc demo_padc)\<lparr>adc_pktcnt := 61, pga2db5 := 0x21\<rparr>) w used"
  using adc_start_config [of "\<lambda>p. \<lparr>adc_found = True, config2_in = 0, chan_ret = 0, reload_ret = 1, start_ret = 0\<rparr>"
      "(cfg_adc demo_padc)\<lparr>adc_pktcnt := 61, pga2db5 := 0x21\<rparr>" demo_padc 0]
  by (simp add: demo_padc_def) blast

end
