(* ===== verification/CdcPort.thy ===== *)
theory CdcPort
  imports RingBuffer CmdCfg
begin

text \<open>
  The serial port of the BL702 programs (\<open>cdc_acm_template.c\<close>, the same code in both programs): its
  buffers, the line state, the sender and the end of a transfer. The USB stack is a library:
  starting a transfer on the IN endpoint records its bytes, and the stack calls
  \<open>usbd_cdc_acm_bulk_in\<close> once the transfer is over. A program's state extends \<open>cdc_port\<close>; the ring
  buffer in front of the endpoint belongs to the program.
\<close>

section \<open>State and operations\<close>

definition USBD_RXBUFSIZE :: nat where "USBD_RXBUFSIZE = 2048"
definition USBD_TXBUFSIZE :: nat where "USBD_TXBUFSIZE = 2048"
definition CDC_MAX_MPS :: nat where "CDC_MAX_MPS = 64"

record cdc_port =
  read_buffer :: "u8 list"
  write_buffer :: "u8 list"
  ep_tx_busy_flag :: bool
  dtr_enable :: u8
  rts_enable :: u8
  usb_writes :: "u8 list list"
  usb_in_flight :: "nat option"
  usb_reads :: nat

text \<open>\<open>usbd_ep_start_write\<close> and \<open>usbd_ep_start_read\<close> of the stack.\<close>

definition ep_start_write :: "u8 list \<Rightarrow> 'a cdc_port_scheme \<Rightarrow> 'a cdc_port_scheme" where
  "ep_start_write bs a = a\<lparr>usb_writes := usb_writes a @ [bs], usb_in_flight := Some (length bs)\<rparr>"

definition ep_start_read :: "'a cdc_port_scheme \<Rightarrow> 'a cdc_port_scheme" where
  "ep_start_read a = a\<lparr>usb_reads := usb_reads a + 1\<rparr>"

definition usbd_cdc_acm_bulk_in :: "nat \<Rightarrow> 'a cdc_port_scheme \<Rightarrow> 'a cdc_port_scheme" where
  "usbd_cdc_acm_bulk_in nbytes a =
     (if nbytes mod CDC_MAX_MPS = 0 \<and> nbytes \<noteq> 0 then ep_start_write [] a
      else a\<lparr>ep_tx_busy_flag := False\<rparr>)"

definition usbd_configure_done_callback :: "'a cdc_port_scheme \<Rightarrow> 'a cdc_port_scheme" where
  "usbd_configure_done_callback a = ep_start_read a"

definition usbd_cdc_acm_set_rts :: "bool \<Rightarrow> 'a cdc_port_scheme \<Rightarrow> 'a cdc_port_scheme" where
  "usbd_cdc_acm_set_rts rts a = a\<lparr>rts_enable := of_bool rts\<rparr>"

text \<open>
  \<open>while (ep_tx_busy_flag);\<close> waits for the interrupt that ends a transfer: without one it does not
  return, which is \<open>None\<close>.
\<close>

definition cdc_send :: "Ring_Buffer_Type \<Rightarrow> 'a cdc_port_scheme \<Rightarrow> (Ring_Buffer_Type \<times> 'a cdc_port_scheme) option" where
  "cdc_send rb a =
     (if ep_tx_busy_flag a then None
      else
        (let a = a\<lparr>ep_tx_busy_flag := True\<rparr>;
             (len, rb, dest) = Ring_Buffer_Read rb (write_buffer a) (of_nat (USBD_TXBUFSIZE - 1));
             a = a\<lparr>write_buffer := dest\<rparr>
         in Some (rb, if len \<noteq> 0 then ep_start_write (take (unat len) (write_buffer a)) a
                  else a\<lparr>ep_tx_busy_flag := False\<rparr>)))"

section \<open>Transfers end with a short packet\<close>

text \<open>
  The writes of a finished history: each transfer is a non-empty block, followed by an empty one
  exactly if its length is a multiple of the packet size.
\<close>

inductive ended :: "u8 list list \<Rightarrow> bool" where
  none: "ended []"
| short: "ended ws \<Longrightarrow> length v mod 64 \<noteq> 0 \<Longrightarrow> ended (ws @ [v])"
| full: "ended ws \<Longrightarrow> v \<noteq> [] \<Longrightarrow> length v mod 64 = 0 \<Longrightarrow> ended (ws @ [v, []])"

definition in_progress :: "u8 list list \<Rightarrow> nat \<Rightarrow> bool" where
  "in_progress writes n \<longleftrightarrow>
     (\<exists>ws v. ended ws \<and> v \<noteq> [] \<and>
        (writes = ws @ [v] \<and> n = length v \<or> length v mod 64 = 0 \<and> writes = ws @ [v, []] \<and> n = 0))"

definition transfer_inv :: "'a cdc_port_scheme \<Rightarrow> bool" where
  "transfer_inv a \<longleftrightarrow>
     (case usb_in_flight a of None \<Rightarrow> \<not> ep_tx_busy_flag a \<and> ended (usb_writes a)
      | Some n \<Rightarrow> ep_tx_busy_flag a \<and> in_progress (usb_writes a) n)"

lemma transfer_inv_frame:
  "usb_in_flight a' = usb_in_flight a \<Longrightarrow> ep_tx_busy_flag a' = ep_tx_busy_flag a \<Longrightarrow>
   usb_writes a' = usb_writes a \<Longrightarrow> transfer_inv a' = transfer_inv a"
  by (simp add: transfer_inv_def split: option.split)

lemma bulk_in_inv:
  assumes "transfer_inv a" "usb_in_flight a = Some n"
  shows "transfer_inv (usbd_cdc_acm_bulk_in n (a\<lparr>usb_in_flight := None\<rparr>))"
proof -
  from assms obtain ws v where w: "ended ws" "v \<noteq> []" and
    c: "usb_writes a = ws @ [v] \<and> n = length v \<or>
      length v mod 64 = 0 \<and> usb_writes a = ws @ [v, []] \<and> n = 0"
    and busy: "ep_tx_busy_flag a"
    by (auto simp: transfer_inv_def in_progress_def)
  show ?thesis
  proof (cases "n mod CDC_MAX_MPS = 0 \<and> n \<noteq> 0")
    case True
    then have "in_progress (usb_writes a @ [[]]) 0"
      using c w by (auto simp: in_progress_def CDC_MAX_MPS_def)
    with True busy show ?thesis
      by (simp add: usbd_cdc_acm_bulk_in_def transfer_inv_def ep_start_write_def)
  next
    case False
    have "ended (usb_writes a)"
      using c
    proof
      assume v: "usb_writes a = ws @ [v] \<and> n = length v"
      with False w(2) have "length v mod 64 \<noteq> 0" by (auto simp: CDC_MAX_MPS_def)
      then have "ended (ws @ [v])" by (rule ended.short [OF w(1)])
      with v show ?thesis by simp
    next
      assume "length v mod 64 = 0 \<and> usb_writes a = ws @ [v, []] \<and> n = 0"
      then show ?thesis using ended.full [OF w] by metis
    qed
    with False show ?thesis by (auto simp: usbd_cdc_acm_bulk_in_def transfer_inv_def)
  qed
qed

text \<open>The sender moves up to 2047 bytes of the ring into one transfer.\<close>

lemma cdc_send_spec:
  assumes "rb_wf rb" "length (write_buffer a) = USBD_TXBUFSIZE" "transfer_inv a"
    "cdc_send rb a = Some (rb', a')"
  shows "rb_wf rb' \<and> length (write_buffer a') = USBD_TXBUFSIZE \<and> transfer_inv a' \<and>
    read_buffer a' = read_buffer a \<and> dtr_enable a' = dtr_enable a \<and>
    concat (usb_writes a') @ rb_bytes rb' = concat (usb_writes a) @ rb_bytes rb \<and>
    rb_bytes rb' = drop 2047 (rb_bytes rb) \<and>
    (rb_bytes rb \<noteq> [] \<longrightarrow> usb_writes a' = usb_writes a @ [take 2047 (rb_bytes rb)]) \<and>
    (rb_bytes rb = [] \<longrightarrow> usb_writes a' = usb_writes a)"
proof -
  have nb: "\<not> ep_tx_busy_flag a" using assms(4) by (auto simp: cdc_send_def split: if_splits)
  have w: "length (write_buffer a) = 2048" using assms(2) by (simp add: USBD_TXBUFSIZE_def)
  have fl: "usb_in_flight a = None" "ended (usb_writes a)"
    using assms(3) nb by (auto simp: transfer_inv_def split: option.splits)
  have u: "unat (of_nat (USBD_TXBUFSIZE - 1) :: u32) = 2047" by (simp add: USBD_TXBUFSIZE_def)
  have le: "min 2047 (length (rb_bytes rb)) \<le> length (write_buffer a)" using w by simp
  obtain n g where rd: "Ring_Buffer_Read rb (write_buffer a) (of_nat (USBD_TXBUFSIZE - 1)) =
      (n, g, take (unat n) (rb_bytes rb) @ drop (unat n) (write_buffer a))"
    and n: "unat n = min 2047 (length (rb_bytes rb))"
    and g: "rb_wf g" "rb_bytes g = drop (unat n) (rb_bytes rb)"
    using rb_read_spec [OF assms(1), of "of_nat (USBD_TXBUFSIZE - 1)", unfolded u, OF le] by blast
  have tk: "take (unat n) (take (unat n) (rb_bytes rb) @ drop (unat n) (write_buffer a)) =
      take 2047 (rb_bytes rb)"
    using n by (simp add: min_def del: length_rb_bytes)
  have z: "n = 0 \<longleftrightarrow> rb_bytes rb = []"
    using n by (auto simp: word_unat_eq_iff min_def simp del: length_rb_bytes split: if_splits)
  define b where "b = a\<lparr>ep_tx_busy_flag := True,
    write_buffer := take (unat n) (rb_bytes rb) @ drop (unat n) (write_buffer a)\<rparr>"
  have a': "rb' = g" "a' = (if n \<noteq> 0 then ep_start_write (take 2047 (rb_bytes rb)) b
      else b\<lparr>ep_tx_busy_flag := False\<rparr>)"
    using assms(4) nb rd tk by (simp_all add: cdc_send_def Let_def b_def split: if_splits)
  have d: "drop (unat n) (rb_bytes rb) = drop 2047 (rb_bytes rb)"
    using n by (simp add: min_def del: length_rb_bytes)
  have wb: "length (write_buffer b) = USBD_TXBUFSIZE"
    using w n by (simp add: b_def USBD_TXBUFSIZE_def del: length_rb_bytes)
  have b: "read_buffer b = read_buffer a" "dtr_enable b = dtr_enable a" "usb_writes b = usb_writes a"
    "usb_in_flight b = None" "ep_tx_busy_flag b"
    using fl by (simp_all add: b_def)
  show ?thesis
  proof (cases "n = 0")
    case True
    with z have e: "rb_bytes rb = []" by simp
    with True wb a' g d fl b show ?thesis by (simp add: transfer_inv_def)
  next
    case False
    with z have ne: "take 2047 (rb_bytes rb) \<noteq> []" by (cases "rb_bytes rb") auto
    with fl(2) have "in_progress (usb_writes a @ [take 2047 (rb_bytes rb)])
        (length (take 2047 (rb_bytes rb)))"
      unfolding in_progress_def by blast
    with False wb a' g d z b show ?thesis
      by (simp add: transfer_inv_def ep_start_write_def del: length_rb_bytes length_take)
  qed
qed

section \<open>Programs on the port\<close>

text \<open>
  A program offers frames to the ring buffer in front of the endpoint, each starting with its own
  length, and the ring takes as many bytes as fit. The world of a program is its state with the
  frames offered so far and the number of bytes there was room for. Its steps are those of its own code and of its
  interrupts, given with the frames they offer, the sender, and the end of a transfer; each is atomic.
\<close>

type_synonym offers = "(u8 list \<times> nat) list"

definition accepted :: "offers \<Rightarrow> u8 list" where
  "accepted os = concat (map (\<lambda>(f, n). take n f) os)"

lemma accepted_simps [simp]: "accepted [] = []" "accepted (os @ os') = accepted os @ accepted os'"
  "accepted [(f, n)] = take n f"
  by (simp_all add: accepted_def)

lemma accepted_whole: "\<forall>(f, n) \<in> set os. length f \<le> n \<Longrightarrow> accepted os = concat (map fst os)"
proof -
  assume "\<forall>(f, n) \<in> set os. length f \<le> n"
  then have "map (\<lambda>(f, n). take n f) os = map fst os" by (intro map_cong) auto
  then show ?thesis by (simp only: accepted_def)
qed

record 's cdc_world =
  program :: 's
  offered :: offers

definition program_step :: "'s cdc_world \<Rightarrow> offers \<Rightarrow> 's \<Rightarrow> 's cdc_world" where
  "program_step w os a = w\<lparr>program := a, offered := offered w @ os\<rparr>"

lemma program_step_simps [simp]: "program (program_step w os a) = a"
  "offered (program_step w os a) = offered w @ os"
  by (simp_all add: program_step_def)

inductive cdc_step ::
    "('a cdc_port_scheme \<Rightarrow> offers \<Rightarrow> 'a cdc_port_scheme \<Rightarrow> bool) \<Rightarrow>
     ('a cdc_port_scheme \<Rightarrow> 'a cdc_port_scheme option) \<Rightarrow>
     'a cdc_port_scheme cdc_world \<Rightarrow> 'a cdc_port_scheme cdc_world \<Rightarrow> bool" for step send where
  code: "step (program w) os a \<Longrightarrow> cdc_step step send w (program_step w os a)"
| send: "send (program w) = Some a \<Longrightarrow> cdc_step step send w (program_step w [] a)"
| in_done: "usb_in_flight (program w) = Some n \<Longrightarrow>
    cdc_step step send w (program_step w [] (usbd_cdc_acm_bulk_in n ((program w)\<lparr>usb_in_flight := None\<rparr>)))"

text \<open>What the code of a program promises the port.\<close>

locale cdc_program =
  fixes wf :: "'a cdc_port_scheme \<Rightarrow> bool" and ring :: "'a cdc_port_scheme \<Rightarrow> Ring_Buffer_Type"
    and step :: "'a cdc_port_scheme \<Rightarrow> offers \<Rightarrow> 'a cdc_port_scheme \<Rightarrow> bool"
    and send :: "'a cdc_port_scheme \<Rightarrow> 'a cdc_port_scheme option"
  assumes step_wf: "step a os a' \<Longrightarrow> wf a \<Longrightarrow> wf a'"
    and step_ring: "step a os a' \<Longrightarrow> wf a \<Longrightarrow> rb_bytes (ring a') = rb_bytes (ring a) @ accepted os"
    and step_frames: "step a os a' \<Longrightarrow> wf a \<Longrightarrow> (f, n) \<in> set os \<Longrightarrow> frame_ok f"
    and step_port: "step a os a' \<Longrightarrow> wf a \<Longrightarrow> usb_writes a' = usb_writes a \<and>
      usb_in_flight a' = usb_in_flight a \<and> ep_tx_busy_flag a' = ep_tx_busy_flag a"
    and send_law: "send a = Some a' \<Longrightarrow> wf a \<Longrightarrow> transfer_inv a \<Longrightarrow> wf a' \<and> transfer_inv a' \<and>
      concat (usb_writes a') @ rb_bytes (ring a') = concat (usb_writes a) @ rb_bytes (ring a)"
    and done_law: "wf a \<Longrightarrow> wf (usbd_cdc_acm_bulk_in n (a\<lparr>usb_in_flight := None\<rparr>)) \<and>
      ring (usbd_cdc_acm_bulk_in n (a\<lparr>usb_in_flight := None\<rparr>)) = ring a"
begin

lemma step_inv:
  assumes "cdc_step step send w w'" "wf (program w)" "transfer_inv (program w)"
    "\<forall>(f, n) \<in> set (offered w). frame_ok f"
    "accepted (offered w) = concat (usb_writes (program w)) @ rb_bytes (ring (program w))"
  shows "wf (program w') \<and> transfer_inv (program w') \<and> (\<forall>(f, n) \<in> set (offered w'). frame_ok f) \<and>
    accepted (offered w') = concat (usb_writes (program w')) @ rb_bytes (ring (program w'))"
  using assms
proof (induction rule: cdc_step.induct)
  case (code w os a)
  note p = step_port [OF code(1,2)]
  from p have "transfer_inv a = transfer_inv (program w)" by (intro transfer_inv_frame) simp_all
  with code p step_wf [OF code(1,2)] step_ring [OF code(1,2)] step_frames [OF code(1,2)] show ?case
    by auto
next
  case (send w a)
  then show ?case using send_law [OF send(1-3)] by simp
next
  case (in_done w n)
  have "concat (usb_writes (usbd_cdc_acm_bulk_in n ((program w)\<lparr>usb_in_flight := None\<rparr>))) =
      concat (usb_writes (program w))"
    by (simp add: usbd_cdc_acm_bulk_in_def ep_start_write_def)
  with in_done done_law [OF in_done(2), of n] bulk_in_inv [OF in_done(3,1)] show ?case by simp
qed

lemma run_inv:
  assumes "(cdc_step step send)\<^sup>*\<^sup>* w0 w" "wf (program w0)" "offered w0 = []" "usb_writes (program w0) = []"
    "rb_bytes (ring (program w0)) = []" "usb_in_flight (program w0) = None" "\<not> ep_tx_busy_flag (program w0)"
  shows "wf (program w) \<and> transfer_inv (program w) \<and> (\<forall>(f, n) \<in> set (offered w). frame_ok f) \<and>
    accepted (offered w) = concat (usb_writes (program w)) @ rb_bytes (ring (program w))"
  using assms
proof (induction rule: rtranclp_induct)
  case base
  then show ?case by (simp add: transfer_inv_def ended.none)
next
  case (step w w')
  then show ?case using step_inv [OF step(2)] by simp
qed

lemma stream:
  assumes "(cdc_step step send)\<^sup>*\<^sup>* w0 w" "wf (program w0)" "offered w0 = []" "usb_writes (program w0) = []"
    "rb_bytes (ring (program w0)) = []" "usb_in_flight (program w0) = None" "\<not> ep_tx_busy_flag (program w0)"
  shows "concat (map (\<lambda>(f, n). take n f) (offered w)) =
      concat (usb_writes (program w)) @ rb_bytes (ring (program w)) \<and>
    (\<forall>(f, n) \<in> set (offered w). 2 \<le> length f \<and> length f = 2 + unat (f ! 0)) \<and>
    ((\<forall>(f, n) \<in> set (offered w). length f \<le> n) \<longrightarrow>
      concat (map fst (offered w)) = concat (usb_writes (program w)) @ rb_bytes (ring (program w)))"
  using run_inv [OF assms] accepted_whole [of "offered w"] by (auto simp: accepted_def frame_ok_def)

lemma transfers:
  assumes "(cdc_step step send)\<^sup>*\<^sup>* w0 w" "wf (program w0)" "offered w0 = []" "usb_writes (program w0) = []"
    "rb_bytes (ring (program w0)) = []" "usb_in_flight (program w0) = None" "\<not> ep_tx_busy_flag (program w0)"
  shows "(ep_tx_busy_flag (program w) \<longleftrightarrow> usb_in_flight (program w) \<noteq> None) \<and>
    (usb_in_flight (program w) = None \<longrightarrow> ended (usb_writes (program w))) \<and>
    (\<forall>n. usb_in_flight (program w) = Some n \<longrightarrow> in_progress (usb_writes (program w)) n)"
  using run_inv [OF assms] by (auto simp: transfer_inv_def split: option.splits)

end

end
