(* ===== verification/PpApp.thy ===== *)
theory PpApp
  imports PpAdc CdcPort
begin

text \<open>
  The BL702 power profiler around its samplers: the command interpreter (\<open>cmd_decode.c\<close>), the CDC
  endpoints (\<open>cdc_acm_template.c\<close>), the ring buffer's set-up (\<open>usb_buffer.c\<close>) and the main loop
  (\<open>main.c\<close>). The build has the I2C and the ADC part, and no DAC. A command runs to its end or not at
  all: \<open>None\<close> where it waits for ever or follows a NULL pointer.
\<close>

section \<open>State\<close>

definition PP_DEV_ID :: u16 where [regs]: "PP_DEV_ID = 0x1022"
definition PP_DEV_VER :: u16 where [regs]: "PP_DEV_VER = 0x0001"
definition PP_TX_RINGBUFFER_SIZE :: nat where "PP_TX_RINGBUFFER_SIZE = 4096"

record pp_app = cdc_port +
  prof :: pp
  conv :: padc
  pp_send_pkt :: blk_tx_pkt_t

definition pp_usb_buffers_init :: "pp_app \<Rightarrow> pp_app" where
  "pp_usb_buffers_init a =
     a\<lparr>prof := (prof a)\<lparr>usb_tx_rb :=
       Ring_Buffer_Init (replicate PP_TX_RINGBUFFER_SIZE 0) (of_nat PP_TX_RINGBUFFER_SIZE)\<rparr>\<rparr>"

text \<open>\<open>memcpy(&cfg_i2c, src, n)\<close>, by bytes.\<close>

definition poll_cfg_of_bytes :: "u8 list \<Rightarrow> i2c_poll_cfg" where
  "poll_cfg_of_bytes bs =
     \<lparr>pktcnt = bs ! 0, multiplier = bs ! 1, time = from_le16 (bs ! 2) (bs ! 3),
      clk_khz = from_le16 (bs ! 4) (bs ! 5),
      init = [reg_wr_at bs 6, reg_wr_at bs 10, reg_wr_at bs 14, reg_wr_at bs 18],
      rd = [reg_rd_at bs 22, reg_rd_at bs 24, reg_rd_at bs 26, reg_rd_at bs 28],
      slp = [reg_wr_at bs 30, reg_wr_at bs 34]\<rparr>"

definition poll_cfg_memcpy :: "i2c_poll_cfg \<Rightarrow> u8 list \<Rightarrow> nat \<Rightarrow> i2c_poll_cfg" where
  "poll_cfg_memcpy c src n = poll_cfg_of_bytes (take n src @ drop n (i2c_cfg_body c))"

section \<open>Commands\<close>

type_synonym pp_reply = "(u32 \<times> blk_tx_pkt_t \<times> pp_app) option"

definition pp_error :: "blk_tx_pkt_t \<Rightarrow> pp_app \<Rightarrow> pp_reply" where
  "pp_error p a = Some (2, p\<lparr>tx_cmd := tx_cmd p OR CMD_ERR_FLG\<rparr>, a)"

definition pp_ver :: "blk_tx_pkt_t \<Rightarrow> pp_app \<Rightarrow> pp_reply" where
  "pp_ver p a = Some (6, tx_put 0 (le16 PP_DEV_ID @ le16 PP_DEV_VER) p, a)"

definition pp_cfg :: "pp_env \<Rightarrow> u8 list \<Rightarrow> blk_tx_pkt_t \<Rightarrow> pp_app \<Rightarrow> pp_reply" where
  "pp_cfg env buf p a =
     (if rx_size buf \<noteq> 0
      then do {
        let s = (prof a)\<lparr>timer_flg := 0\<rparr>;
        let n = (if rx_size buf > 38 then 38 else unat (rx_size buf));
        let s = s\<lparr>cfg_i2c := poll_cfg_memcpy (cfg_i2c s) (rx_data buf) n\<rparr>;
        (ret, s) \<leftarrow> InitI2CDevice env s;
        let a = a\<lparr>prof := s\<rparr>;
        if ret = 0 then pp_error p a
        else Some (40, tx_put 0 (i2c_cfg_body (cfg_i2c s)) p, a)
      }
      else Some (40, tx_put 0 (i2c_cfg_body (cfg_i2c (prof a))) p, a))"

definition pp_scf :: "u8 list \<Rightarrow> blk_tx_pkt_t \<Rightarrow> pp_app \<Rightarrow> pp_reply" where
  "pp_scf buf p a = (if rx_size buf < 1 then pp_error p a else Some (3, tx_put 0 [0, 0, 0, 0] p, a))"

text \<open>The data of the register read lands behind the two bytes of its address.\<close>

definition pp_grg :: "pp_env \<Rightarrow> u8 list \<Rightarrow> blk_tx_pkt_t \<Rightarrow> pp_app \<Rightarrow> pp_reply" where
  "pp_grg env buf p a = do {
     let tmp = timer_flg (prof a);
     let (_, s) = I2CBusTrEnd env ((prof a)\<lparr>timer_flg := 0\<rparr>);
     (ret, bs, s) \<leftarrow> pp_I2CBusReadWord env (rx_data buf ! 0) (rx_data buf ! 1) s;
     let p = (case bs of None \<Rightarrow> p | Some bs \<Rightarrow> tx_put 2 bs p);
     (n, p, a) \<leftarrow> (if ret \<noteq> 0 then Some (6, tx_put 0 (take 2 (rx_data buf)) p, a) else pp_error p a);
     Some (n, p, a\<lparr>prof := s\<lparr>timer_flg := tmp\<rparr>\<rparr>)
   }"

definition pp_srg :: "pp_env \<Rightarrow> u8 list \<Rightarrow> blk_tx_pkt_t \<Rightarrow> pp_app \<Rightarrow> pp_reply" where
  "pp_srg env buf p a = do {
     let tmp = timer_flg (prof a);
     let (_, s) = I2CBusTrEnd env ((prof a)\<lparr>timer_flg := 0\<rparr>);
     (ret, s) \<leftarrow> pp_I2CBusWriteWord env (rx_data buf ! 0) (rx_data buf ! 1)
       (from_le16 (rx_data buf ! 2) (rx_data buf ! 3)) s;
     (n, p, a) \<leftarrow> (if ret \<noteq> 0 then Some (6, tx_put 0 (take 4 (rx_data buf)) p, a) else pp_error p a);
     Some (n, p, a\<lparr>prof := s\<lparr>timer_flg := tmp\<rparr>\<rparr>)
   }"

definition pp_cad :: "adc_env \<Rightarrow> u8 list \<Rightarrow> blk_tx_pkt_t \<Rightarrow> pp_app \<Rightarrow> pp_reply" where
  "pp_cad aenv buf p a = do {
     a \<leftarrow>
       (if rx_size buf \<noteq> 0
        then
          (let n = (if rx_size buf > 6 then 6 else unat (rx_size buf));
               d = (conv a)\<lparr>cfg_adc := adc_cfg_memcpy (cfg_adc (conv a)) (rx_data buf) n\<rparr>
           in if rx_data buf ! 0 \<noteq> 0
              then do {
                let s = (prof a)\<lparr>all_read_count := 0, all_overflow_cnt := 0\<rparr>;
                d \<leftarrow> ADC_Start aenv (cfg_adc d) d;
                Some (a\<lparr>prof := s, conv := d\<rparr>)
              }
              else Some (a\<lparr>conv := ADC_Stop d\<rparr>))
        else Some a);
     Some (8, tx_put 0 (adc_cfg_bytes (cfg_adc (conv a))) p, a)
   }"

definition pp_sta :: "blk_tx_pkt_t \<Rightarrow> pp_app \<Rightarrow> pp_reply" where
  "pp_sta p a = Some (10, tx_put 0 (le32 (all_read_count (prof a)) @ le32 (all_overflow_cnt (prof a))) p, a)"

definition pp_switch :: "pp_env \<Rightarrow> adc_env \<Rightarrow> u8 list \<Rightarrow> blk_tx_pkt_t \<Rightarrow> pp_app \<Rightarrow> pp_reply" where
  "pp_switch env aenv buf p a =
     (if rx_cmd buf = CMD_DEV_VER then pp_ver p a
      else if rx_cmd buf = CMD_DEV_CFG then pp_cfg env buf p a
      else if rx_cmd buf = CMD_DEV_SCF then pp_scf buf p a
      else if rx_cmd buf = CMD_DEV_GRG then pp_grg env buf p a
      else if rx_cmd buf = CMD_DEV_SRG then pp_srg env buf p a
      else if rx_cmd buf = CMD_DEV_CAD then pp_cad aenv buf p a
      else if rx_cmd buf = CMD_DEV_STA then pp_sta p a
      else if rx_cmd buf = CMD_DEV_TST then Some (0, p, a)
      else pp_error p a)"

definition pp_cmd_decode :: "pp_env \<Rightarrow> adc_env \<Rightarrow> u8 list \<Rightarrow> pp_app \<Rightarrow> (u32 \<times> pp_app) option" where
  "pp_cmd_decode env aenv buf a =
     do {
       let p = (pp_send_pkt a)\<lparr>tx_cmd := rx_cmd buf\<rparr>;
       (txlen, p, a) \<leftarrow> pp_switch env aenv buf p a;
       let p = p\<lparr>tx_size := ucast (txlen - 2)\<rparr>;
       Some (txlen, a\<lparr>pp_send_pkt := p\<rparr>)
     }"

section \<open>Endpoints and line state\<close>

definition pp_queue :: "u8 list \<Rightarrow> nat \<Rightarrow> pp_app \<Rightarrow> pp_app" where
  "pp_queue bs n a =
     a\<lparr>prof := (prof a)\<lparr>usb_tx_rb := snd (Ring_Buffer_Write (usb_tx_rb (prof a)) bs (of_nat n))\<rparr>\<rparr>"

definition pp_bulk_out :: "pp_env \<Rightarrow> adc_env \<Rightarrow> nat \<Rightarrow> pp_app \<Rightarrow> pp_app option" where
  "pp_bulk_out env aenv nbytes a =
     do {
       let buf = read_buffer a;
       a \<leftarrow>
         (if nbytes \<ge> 2 \<and> nbytes \<ge> unat (rx_size buf) + 2
          then do {
            (txlen, a) \<leftarrow> pp_cmd_decode env aenv buf a;
            Some (if txlen \<noteq> 0
                  then pp_queue (tx_pkt_bytes (pp_send_pkt a)) (unat (tx_size (pp_send_pkt a)) + 2) a
                  else a)
          }
          else Some a);
       Some (ep_start_read a)
     }"

definition pp_set_dtr :: "pp_env \<Rightarrow> bool \<Rightarrow> pp_app \<Rightarrow> pp_app option" where
  "pp_set_dtr env dtr a =
     do {
       a \<leftarrow>
         (if dtr
          then (if dtr_enable a = 0
                then do { s \<leftarrow> pp_I2CDevWakeUp env (prof a); Some (a\<lparr>prof := s\<rparr>) } else Some a)
          else (if dtr_enable a \<noteq> 0
                then do {
                  let a = a\<lparr>conv := ADC_Stop (conv a)\<rparr>;
                  s \<leftarrow> pp_I2CDevSleep env (prof a);
                  Some (a\<lparr>prof := s\<rparr>)
                }
                else Some a));
       Some (a\<lparr>dtr_enable := of_bool dtr\<rparr>)
     }"

definition pp_send :: "pp_app \<Rightarrow> pp_app option" where
  "pp_send a =
     do { (rb, a) \<leftarrow> cdc_send (usb_tx_rb (prof a)) a;
          Some (a\<lparr>prof := (prof a)\<lparr>usb_tx_rb := rb\<rparr>\<rparr>) }"

section \<open>The steps of the program\<close>

definition pp_room :: "pp_app \<Rightarrow> nat" where
  "pp_room a = unat (rb_size (usb_tx_rb (prof a))) - length (rb_bytes (usb_tx_rb (prof a)))"

definition pp_block_offer :: "pp_app \<Rightarrow> offers" where
  "pp_block_offer a =
     (if pp_due (prof a)
      then [(pp_block (take (unat (pktcnt (cfg_i2c (prof a)))) (pp_pending (prof a))), pp_room a)] else [])"

definition pp_reply_offer :: "pp_env \<Rightarrow> adc_env \<Rightarrow> nat \<Rightarrow> pp_app \<Rightarrow> offers" where
  "pp_reply_offer env aenv n a =
     (if n \<ge> 2 \<and> n \<ge> unat (rx_size (read_buffer a)) + 2
      then (case pp_cmd_decode env aenv (read_buffer a) a of
              Some (txlen, b) \<Rightarrow>
                if txlen = 0 then []
                else [(take (unat (tx_size (pp_send_pkt b)) + 2) (tx_pkt_bytes (pp_send_pkt b)), pp_room a)]
            | None \<Rightarrow> [])
      else [])"

text \<open>
  The code of the main loop and of the interrupts, with the frames they offer: the packing task, the
  sampling timer, the end of a DMA round with its 61 words, a packet from the host, the line state.
\<close>

inductive pp_code :: "pp_app \<Rightarrow> offers \<Rightarrow> pp_app \<Rightarrow> bool" where
  task: "pp_code a (pp_block_offer a) (a\<lparr>prof := task_I2C (prof a)\<rparr>)"
| timer: "pp_timer1_isr env (prof a) = Some s \<Longrightarrow> pp_code a [] (a\<lparr>prof := s\<rparr>)"
| dma: "length ws = 61 \<Longrightarrow> dma0_ch0_isr ((conv a)\<lparr>adc_raw_data := ws\<rparr>, prof a) = (d, s) \<Longrightarrow>
    pp_code a [(adc_block ws, pp_room a)] (a\<lparr>prof := s, conv := d\<rparr>)"
| out: "b = a\<lparr>read_buffer := splice_at (read_buffer a) 0 bs\<rparr> \<Longrightarrow> length bs \<le> USBD_RXBUFSIZE \<Longrightarrow>
    pp_bulk_out env aenv (length bs) b = Some c \<Longrightarrow> pp_code a (pp_reply_offer env aenv (length bs) b) c"
| dtr: "pp_set_dtr env d a = Some b \<Longrightarrow> pp_code a [] b"
| rts: "pp_code a [] (usbd_cdc_acm_set_rts d a)"

abbreviation pp_step :: "pp_app cdc_world \<Rightarrow> pp_app cdc_world \<Rightarrow> bool" where
  "pp_step \<equiv> cdc_step pp_code pp_send"

section \<open>What starts, sleeps and wake-ups leave alone\<close>

definition pp_keeps :: "pp \<Rightarrow> pp \<Rightarrow> bool" where
  "pp_keeps s s' \<longleftrightarrow> usb_tx_rb s' = usb_tx_rb s \<and> (pp_shape s \<longrightarrow> pp_shape s') \<and>
     pktcnt (cfg_i2c s') \<le> pktcnt (cfg_i2c s)"

lemma pp_keeps_refl [simp]: "pp_keeps s s"
  by (simp add: pp_keeps_def)

lemma pp_keeps_trans [trans]: "pp_keeps s t \<Longrightarrow> pp_keeps t u \<Longrightarrow> pp_keeps s u"
  by (auto simp: pp_keeps_def)

lemma pp_keeps_wf: "pp_keeps s s' \<Longrightarrow> pp_wf s \<Longrightarrow> pp_wf s'"
  by (auto simp: pp_keeps_def pp_wf_shape)

lemma pp_keeps_core:
  assumes "pp_core s' = pp_core t" "pp_keeps s t"
  shows "pp_keeps s s'"
  using assms(2) pp_core_fields [OF assms(1)] by (simp add: pp_keeps_def pp_shape_def)

lemmas pp_keeps_same = pp_keeps_core [OF _ pp_keeps_refl]

lemma pp_keeps_flags [simp]: "pp_keeps s (s\<lparr>timer_flg := x\<rparr>)" "pp_keeps s (s\<lparr>t_rd_us := t\<rparr>)"
  "pp_keeps s (s\<lparr>i2c0 := b\<rparr>)" "pp_keeps s (s\<lparr>gpio_pwr := b\<rparr>)" "pp_keeps s (pp_set_pktcnt 0 s)"
  "pp_keeps s (halted s)" "pp_keeps s (pp_FlushI2CBuf s)" "pp_keeps s (s\<lparr>pp_pos := p\<rparr>)"
  by (simp_all add: pp_keeps_def pp_shape_def pp_set_pktcnt_def halted_def pp_FlushI2CBuf_def)

lemma pp_keeps_stop [simp]: "pp_keeps s (pp_Timer_Stop s)"
  by (rule pp_keeps_core [OF conjunct1 [OF timer_stop_spec]]) (simp add: pp_keeps_def pp_shape_def)

lemma pp_keeps_halt [simp]: "pp_keeps s (pp_Timer_Stop (pp_set_pktcnt 0 s))"
  by (rule pp_keeps_core [OF conjunct1 [OF halt_spec]]) simp

lemma pp_keeps_bus_init: "pp_I2CBusInit env k cs s = Some s' \<Longrightarrow> pp_keeps s s'"
  by (rule pp_keeps_core [OF conjunct1 [OF bus_init_spec]]) (assumption, rule pp_keeps_flags)

lemma pp_keeps_write: "pp_I2CBusWriteWord env x r d s = Some (ret, s') \<Longrightarrow> pp_keeps s s'"
  using bus_write_spec [of env x r d s ret s'] by (auto intro: pp_keeps_same split: if_splits)

lemma pp_keeps_read: "pp_I2CBusReadWord env x r s = Some (ret, bs, s') \<Longrightarrow> pp_keeps s s'"
  using bus_read_spec [of env x r s ret bs s'] by (auto intro: pp_keeps_same split: if_splits)

lemma pp_keeps_reset [simp]: "pp_keeps s (reset_i2c0 env s)"
  using reset_spec [of env s] by (intro pp_keeps_same) simp

lemma pp_keeps_tr_end [simp]: "pp_keeps s (snd (I2CBusTrEnd env s))"
  using tr_end_spec [of env s] by (intro pp_keeps_same) simp

lemma pp_keeps_init_regs: "pp_init_regs env rs s = Some s' \<Longrightarrow> pp_keeps s s'"
proof (induction rs arbitrary: s)
  case (Cons r rs)
  show ?case
  proof (cases "wr_dev_addr r = 0")
    case False
    let ?w = "pp_put (Wait_us 200) s"
    obtain ret t where t: "pp_I2CBusWriteWord env (wr_dev_addr r) (wr_reg_addr r) (wr_data r) ?w = Some (ret, t)"
      "pp_init_regs env rs (if ret = 0 then pp_Timer_Stop (pp_set_pktcnt 0 t) else t) = Some s'"
      using Cons.prems False by (auto simp: bind_eq_Some_conv)
    have "pp_keeps s ?w" by (rule pp_keeps_same) simp
    also have "pp_keeps ?w t" by (rule pp_keeps_write [OF t(1)])
    also have "pp_keeps t (if ret = 0 then pp_Timer_Stop (pp_set_pktcnt 0 t) else t)" by simp
    also have "pp_keeps \<dots> s'" by (rule Cons.IH [OF t(2)])
    finally show ?thesis .
  qed (use Cons.prems in simp)
qed simp

lemma pp_keeps_prepare:
  assumes "pp_prepare env s = Some s'"
  shows "pp_keeps s s'"
proof (cases "pktcnt (cfg_i2c s) = 0")
  case True
  with prepare_spec [OF assms] have
    "pp_core s' = pp_core (halted (s\<lparr>raddr := 0, i2c_buf_wr := 0, i2c_buf_rd := 0\<rparr>))" by blast
  then show ?thesis by (rule pp_keeps_core) (simp add: pp_keeps_def pp_shape_def halted_def)
next
  case False
  with prepare_spec [OF assms] have "pp_core s' = pp_core (s\<lparr>raddr := 0, i2c_buf_wr := 0, i2c_buf_rd := 0,
      timer1 := True, timer1_comp0 := t_rd_us s - 1, timer1_on := timer1_on s \<and> \<not> timer1 s,
      all_read_count := 0, all_overflow_cnt := 0\<rparr>)" by blast
  then show ?thesis by (rule pp_keeps_core) (simp add: pp_keeps_def pp_shape_def)
qed

lemma pp_keeps_begin:
  assumes "pp_begin s = Some (ret, s')"
  shows "pp_keeps s s'"
proof -
  have "pp_keeps s (s\<lparr>raddr := next_raddr (cfg_i2c s) (raddr s), timer_flg := 1, timer1_on := True\<rparr>)"
    by (simp add: pp_keeps_def pp_shape_def next_raddr_less)
  then show ?thesis using begin_spec [OF assms] by (auto split: if_splits intro: pp_keeps_core)
qed

text \<open>A start repairs a block size above 60.\<close>

lemma start_keeps:
  assumes "InitI2CDevice env s = Some (ret, s')" "pp_shape s"
  shows "pp_wf s' \<and> usb_tx_rb s' = usb_tx_rb s"
proof -
  define c where "c = start_cfg (cfg_i2c s)"
  let ?p = "start_prepared env s"
  have wf: "pp_wf ?p" "usb_tx_rb ?p = usb_tx_rb s"
    using assms(2) pp_core_fields [OF start_prepared_spec(1) [of env s]]
    by (simp_all add: pp_wf_shape pp_shape_def not_less)
  obtain s4 where s4: "pp_I2CBusInit env (cfg_clk c) (ucast (clk_khz c AND 0x8000)) ?p = Some s4"
    using assms(1) by (auto simp: start_parts bind_eq_Some_conv c_def)
  define s5 where "s5 = s4\<lparr>t_rd_us := cfg_period c\<rparr>"
  have r: "(if cfg_period c < 70000 div cfg_clk c then Some (0, pp_Timer_Stop (pp_set_pktcnt 0 s5))
      else do { s \<leftarrow> pp_prepare env s5; s \<leftarrow> pp_init_regs env (init (cfg_i2c s)) s; pp_begin s }) =
      Some (ret, s')"
    using assms(1) s4 unfolding start_parts
    by (auto simp: Let_def s5_def bind_eq_Some_conv simp flip: c_def split: if_splits)
  have "pp_keeps ?p s4" by (rule pp_keeps_bus_init [OF s4])
  also have "pp_keeps s4 s5" by (simp add: s5_def)
  also have "pp_keeps s5 s'"
  proof (cases "cfg_period c < 70000 div cfg_clk c")
    case False
    then obtain s6 s7 where s67: "pp_prepare env s5 = Some s6" "pp_init_regs env (init (cfg_i2c s6)) s6 = Some s7"
      "pp_begin s7 = Some (ret, s')"
      using r by (auto simp: bind_eq_Some_conv)
    show ?thesis
      by (rule pp_keeps_trans [OF pp_keeps_prepare [OF s67(1)] pp_keeps_trans
            [OF pp_keeps_init_regs [OF s67(2)] pp_keeps_begin [OF s67(3)]]])
  qed (use r in auto)
  finally show ?thesis using wf pp_keeps_wf [of ?p s'] by (simp add: pp_keeps_def)
qed

lemma sleep_keeps:
  assumes "pp_I2CDevSleep env s = Some s'"
  shows "pp_keeps s s'"
proof -
  define t where "t = pp_Timer_Stop ((pp_set_pktcnt 0 s)\<lparr>t_rd_us := 0\<rparr>)"
  obtain u where u: "pp_sleep_writes env t = Some u"
    "pp_core s' = pp_core u"
    using assms bus_deinit_spec [of env] reset_spec [of env]
    by (auto simp: pp_I2CDevSleep_def Let_def bind_eq_Some_conv simp flip: t_def)
  have "pp_keeps s t" unfolding t_def
    by (rule pp_keeps_trans [OF _ pp_keeps_stop]) (simp add: pp_keeps_def pp_shape_def pp_set_pktcnt_def)
  also have "pp_keeps t u"
    using u(1)
    by (auto simp: pp_sleep_writes_def Let_def bind_eq_Some_conv split: if_splits
        intro: pp_keeps_trans [OF pp_keeps_bus_init pp_keeps_write]
          pp_keeps_trans [OF pp_keeps_trans [OF pp_keeps_bus_init pp_keeps_write] pp_keeps_write])
  also have "pp_keeps u s'" using u(2) by (rule pp_keeps_same)
  finally show ?thesis .
qed

lemma wakeup_keeps:
  assumes "pp_I2CDevWakeUp env s = Some s'" "pp_shape s"
  shows "pp_wf s' \<and> usb_tx_rb s' = usb_tx_rb s"
proof -
  obtain t ret where t: "InitI2CDevice env t = Some (ret, s')"
    "pp_core t = pp_core ((pp_set_pktcnt 0 s)\<lparr>gpio_pwr := True\<rparr>)"
    using assms(1)
    by (auto simp: pp_I2CDevWakeUp_def pp_get_def bind_eq_Some_conv pp_set_pktcnt_def pp_core_def pp_put_def
        split: if_splits)
  have "pp_shape t" "usb_tx_rb t = usb_tx_rb s"
    using assms(2) pp_core_fields [OF t(2)] by (simp_all add: pp_shape_def pp_set_pktcnt_def)
  with start_keeps [OF t(1)] show ?thesis by simp
qed

section \<open>Replies\<close>

definition pp_app_wf :: "pp_app \<Rightarrow> bool" where
  "pp_app_wf a \<longleftrightarrow> pp_wf (prof a) \<and> padc_wf (conv a) \<and> tx_pkt_wf (pp_send_pkt a) \<and>
     length (read_buffer a) = USBD_RXBUFSIZE \<and> length (write_buffer a) = USBD_TXBUFSIZE"

text \<open>Commands change the samplers only, and leave the ring buffer alone.\<close>

definition pp_cmd_keeps :: "pp_app \<Rightarrow> pp_app \<Rightarrow> bool" where
  "pp_cmd_keeps a a' \<longleftrightarrow> (pp_wf (prof a) \<longrightarrow> pp_wf (prof a')) \<and> usb_tx_rb (prof a') = usb_tx_rb (prof a) \<and>
     (padc_wf (conv a) \<longrightarrow> padc_wf (conv a')) \<and> cdc_port.truncate a' = cdc_port.truncate a \<and>
     pp_send_pkt a' = pp_send_pkt a"

lemma port_fields:
  assumes "cdc_port.truncate a' = cdc_port.truncate a"
  shows "read_buffer a' = read_buffer a" "write_buffer a' = write_buffer a"
    "ep_tx_busy_flag a' = ep_tx_busy_flag a" "usb_writes a' = usb_writes a"
    "usb_in_flight a' = usb_in_flight a" "dtr_enable a' = dtr_enable a"
  using assms by (simp_all add: cdc_port.truncate_def)

definition pp_reply_ok :: "u8 \<Rightarrow> u32 \<Rightarrow> blk_tx_pkt_t \<Rightarrow> bool" where
  "pp_reply_ok c n p \<longleftrightarrow> tx_pkt_wf p \<and> n \<in> {0, 2, 3, 6, 8, 10, 40} \<and>
     (tx_cmd p = c \<or> n = 2 \<and> tx_cmd p = c OR CMD_ERR_FLG)"

lemma poll_cfg_memcpy_wf [simp]: "i2c_cfg_wf (poll_cfg_memcpy c src n)"
  by (simp add: poll_cfg_memcpy_def poll_cfg_of_bytes_def i2c_cfg_wf_def)

lemma adc_start_wf: "ADC_Start env c d = Some d' \<Longrightarrow> padc_wf d \<Longrightarrow> padc_wf d'"
  by (auto simp: ADC_Start_def adc_dma_init_def adc_put_def adc_get_def set_pga_eq padc_wf_def Let_def
      ADC_DATA_BLK_CNT_def split: if_splits prod.splits)

lemma adc_stop_wf [simp]: "padc_wf (ADC_Stop d) = padc_wf d"
  by (simp add: ADC_Stop_def padc_wf_def adc_put_def)

lemma pp_cfg_ok:
  assumes "pp_cfg env buf p a = Some (n, p', a')" "tx_pkt_wf p" "tx_cmd p = c" "pp_wf (prof a)"
  shows "pp_reply_ok c n p' \<and> pp_cmd_keeps a a'"
proof (cases "rx_size buf = 0")
  case True
  then show ?thesis using assms
    by (auto simp: pp_cfg_def pp_reply_ok_def pp_cmd_keeps_def pp_wf_def)
next
  case False
  define s where "s = (prof a)\<lparr>timer_flg := 0, cfg_i2c := poll_cfg_memcpy (cfg_i2c (prof a)) (rx_data buf)
    (if rx_size buf > 38 then 38 else unat (rx_size buf))\<rparr>"
  have sh: "pp_shape s" using assms(4) by (simp add: s_def pp_wf_shape pp_shape_def)
  obtain ret t where t: "InitI2CDevice env s = Some (ret, t)" "a' = a\<lparr>prof := t\<rparr>"
    "ret = 0 \<and> n = 2 \<and> p' = p\<lparr>tx_cmd := tx_cmd p OR CMD_ERR_FLG\<rparr> \<or>
     n = 40 \<and> p' = tx_put 0 (i2c_cfg_body (cfg_i2c t)) p"
    using assms(1) False
    by (auto simp: pp_cfg_def pp_error_def Let_def bind_eq_Some_conv s_def split: if_splits)
  note k = start_keeps [OF t(1) sh]
  then have "pp_cmd_keeps a a'" by (simp add: t(2) pp_cmd_keeps_def s_def cdc_port.truncate_def)
  moreover have "length (i2c_cfg_body (cfg_i2c t)) = 38" using k by (simp add: pp_wf_def)
  ultimately show ?thesis using t(3) assms(2,3) by (auto simp: pp_reply_ok_def)
qed

lemma pp_grg_ok:
  assumes "pp_grg env buf p a = Some (n, p', a')" "tx_pkt_wf p" "tx_cmd p = c"
  shows "pp_reply_ok c n p' \<and> pp_cmd_keeps a a'"
proof -
  let ?s = "snd (I2CBusTrEnd env ((prof a)\<lparr>timer_flg := 0\<rparr>))"
  obtain ret bs t where t: "pp_I2CBusReadWord env (rx_data buf ! 0) (rx_data buf ! 1) ?s = Some (ret, bs, t)"
    "a' = a\<lparr>prof := t\<lparr>timer_flg := timer_flg (prof a)\<rparr>\<rparr>" "n = 6 \<or> n = 2"
    "p' = tx_put 0 (take 2 (rx_data buf)) (case bs of None \<Rightarrow> p | Some bs \<Rightarrow> tx_put 2 bs p) \<and> n = 6 \<or>
     p' = (case bs of None \<Rightarrow> p | Some bs \<Rightarrow> tx_put 2 bs p)\<lparr>tx_cmd := c OR CMD_ERR_FLG\<rparr> \<and> n = 2"
    using assms(1,3)
    by (cases "I2CBusTrEnd env ((prof a)\<lparr>timer_flg := 0\<rparr>)")
      (auto simp: pp_grg_def pp_error_def Let_def bind_eq_Some_conv split: if_splits option.splits)
  have b: "bs = None \<or> (\<exists>x y. bs = Some [x, y])"
    using bus_read_spec [OF t(1)] by (auto split: if_splits)
  have "pp_keeps (prof a) ((prof a)\<lparr>timer_flg := 0\<rparr>)" by simp
  also have "pp_keeps ((prof a)\<lparr>timer_flg := 0\<rparr>) ?s" by simp
  also have "pp_keeps ?s t" by (rule pp_keeps_read [OF t(1)])
  also have "pp_keeps t (t\<lparr>timer_flg := timer_flg (prof a)\<rparr>)" by simp
  finally have "pp_cmd_keeps a a'"
    using pp_keeps_wf [of "prof a"] by (simp add: t(2) pp_cmd_keeps_def pp_keeps_def cdc_port.truncate_def)
  then show ?thesis using t(4) b assms(2,3) by (auto simp: pp_reply_ok_def)
qed

lemma pp_srg_ok:
  assumes "pp_srg env buf p a = Some (n, p', a')" "tx_pkt_wf p" "tx_cmd p = c"
  shows "pp_reply_ok c n p' \<and> pp_cmd_keeps a a'"
proof -
  let ?s = "snd (I2CBusTrEnd env ((prof a)\<lparr>timer_flg := 0\<rparr>))"
  obtain ret t where t: "pp_I2CBusWriteWord env (rx_data buf ! 0) (rx_data buf ! 1)
      (from_le16 (rx_data buf ! 2) (rx_data buf ! 3)) ?s = Some (ret, t)"
    "a' = a\<lparr>prof := t\<lparr>timer_flg := timer_flg (prof a)\<rparr>\<rparr>"
    "p' = tx_put 0 (take 4 (rx_data buf)) p \<and> n = 6 \<or> p' = p\<lparr>tx_cmd := c OR CMD_ERR_FLG\<rparr> \<and> n = 2"
    using assms(1,3)
    by (cases "I2CBusTrEnd env ((prof a)\<lparr>timer_flg := 0\<rparr>)")
      (auto simp: pp_srg_def pp_error_def Let_def bind_eq_Some_conv split: if_splits)
  have "pp_keeps (prof a) ((prof a)\<lparr>timer_flg := 0\<rparr>)" by simp
  also have "pp_keeps ((prof a)\<lparr>timer_flg := 0\<rparr>) ?s" by simp
  also have "pp_keeps ?s t" by (rule pp_keeps_write [OF t(1)])
  also have "pp_keeps t (t\<lparr>timer_flg := timer_flg (prof a)\<rparr>)" by simp
  finally have "pp_cmd_keeps a a'"
    using pp_keeps_wf [of "prof a"] by (simp add: t(2) pp_cmd_keeps_def pp_keeps_def cdc_port.truncate_def)
  then show ?thesis using t(3) assms(2,3) by (auto simp: pp_reply_ok_def)
qed

lemma pp_cad_ok:
  assumes "pp_cad aenv buf p a = Some (n, p', a')" "tx_pkt_wf p" "tx_cmd p = c"
  shows "pp_reply_ok c n p' \<and> pp_cmd_keeps a a'"
proof -
  have l: "length (adc_cfg_bytes x) = 6" for x by (simp add: adc_cfg_bytes_def)
  have k: "padc_wf (d\<lparr>cfg_adc := x\<rparr>) = padc_wf d" "pp_wf (s\<lparr>all_read_count := m, all_overflow_cnt := m'\<rparr>) = pp_wf s"
    for d x s m m' by (simp_all add: padc_wf_def pp_wf_def)
  show ?thesis using assms
    by (auto simp: pp_cad_def Let_def bind_eq_Some_conv pp_reply_ok_def pp_cmd_keeps_def l k
        cdc_port.truncate_def dest!: adc_start_wf split: if_splits)
qed

lemma pp_switch_ok:
  assumes "pp_switch env aenv buf p a = Some (n, p', a')" "tx_pkt_wf p" "tx_cmd p = c" "pp_wf (prof a)"
  shows "pp_reply_ok c n p' \<and> pp_cmd_keeps a a'"
proof -
  consider (cfg) "pp_cfg env buf p a = Some (n, p', a')" | (grg) "pp_grg env buf p a = Some (n, p', a')"
    | (srg) "pp_srg env buf p a = Some (n, p', a')" | (cad) "pp_cad aenv buf p a = Some (n, p', a')"
    | (rest) "pp_ver p a = Some (n, p', a') \<or> pp_scf buf p a = Some (n, p', a') \<or>
        pp_sta p a = Some (n, p', a') \<or> (n, p', a') = (0, p, a) \<or> pp_error p a = Some (n, p', a')"
    using assms(1) by (auto simp: pp_switch_def split: if_splits)
  then show ?thesis
  proof cases
    case rest
    then show ?thesis using assms(2,3)
      by (auto simp: pp_ver_def pp_scf_def pp_sta_def pp_error_def pp_reply_ok_def pp_cmd_keeps_def split: if_splits)
  qed (use assms(2-4) in \<open>auto dest: pp_cfg_ok pp_grg_ok pp_srg_ok pp_cad_ok\<close>)
qed

lemma pp_cmd_decode_ok:
  assumes "pp_cmd_decode env aenv buf a = Some (n, a')" "tx_pkt_wf (pp_send_pkt a)" "pp_wf (prof a)"
  obtains p b where "a' = b\<lparr>pp_send_pkt := p\<rparr>" "pp_cmd_keeps a b" "pp_reply_ok (rx_cmd buf) n p"
    "n \<noteq> 0 \<Longrightarrow> unat (tx_size p) + 2 = unat n"
proof -
  obtain p b where sw: "pp_switch env aenv buf ((pp_send_pkt a)\<lparr>tx_cmd := rx_cmd buf\<rparr>) a = Some (n, p, b)"
    and a': "a' = b\<lparr>pp_send_pkt := p\<lparr>tx_size := ucast (n - 2)\<rparr>\<rparr>"
    using assms(1) by (auto simp: pp_cmd_decode_def bind_eq_Some_conv)
  have ok: "pp_reply_ok (rx_cmd buf) n p" "pp_cmd_keeps a b"
    using pp_switch_ok [OF sw, of "rx_cmd buf"] assms(2,3) by simp_all
  show thesis
  proof (rule that [where b = b and p = "p\<lparr>tx_size := ucast (n - 2)\<rparr>"])
    show "pp_reply_ok (rx_cmd buf) n (p\<lparr>tx_size := ucast (n - 2)\<rparr>)"
      using ok(1) by (simp add: pp_reply_ok_def)
    show "unat (tx_size (p\<lparr>tx_size := ucast (n - 2)\<rparr>)) + 2 = unat n" if "n \<noteq> 0"
      using ok(1) that by (auto simp: pp_reply_ok_def)
  qed (use a' ok(2) in simp_all)
qed

section \<open>The output stream\<close>

abbreviation pp_out_bytes :: "pp_app \<Rightarrow> u8 list" where
  "pp_out_bytes a \<equiv> rb_bytes (usb_tx_rb (prof a))"

lemma pp_task_code:
  assumes "pp_app_wf a"
  defines "b \<equiv> a\<lparr>prof := task_I2C (prof a)\<rparr>"
  shows "pp_app_wf b \<and> pp_out_bytes b = pp_out_bytes a @ accepted (pp_block_offer a) \<and>
    (\<forall>(f, n) \<in> set (pp_block_offer a). frame_ok f)"
proof (cases "pp_due (prof a)")
  case False
  then have "task_I2C (prof a) = prof a" by (intro task_pp_idle) (auto simp: pp_due_def)
  with assms False show ?thesis by (simp add: pp_block_offer_def)
next
  case True
  have wf: "pp_wf (prof a)" using assms(1) by (simp add: pp_app_wf_def)
  let ?n = "unat (pktcnt (cfg_i2c (prof a)))"
  have n: "?n \<le> 60" "?n \<le> length (pp_pending (prof a))" using wf True by (simp_all add: pp_wf_def pp_due_def)
  define ws where "ws = take ?n (pp_pending (prof a))"
  have l: "length ws \<le> 60" using n by (simp add: ws_def)
  then have "unat (of_nat (2 * length ws) :: u8) = 2 * length ws" by (intro unat_of_nat_small) simp
  then have "frame_ok (pp_block ws)" by (simp add: frame_ok_def pp_block_def)
  then show ?thesis using task_pp_spec [OF wf True] assms True
    by (simp add: pp_app_wf_def pp_block_offer_def pp_room_def ws_def)
qed

lemma pp_dma_code:
  assumes "pp_app_wf a" "length ws = 61"
    "dma0_ch0_isr ((conv a)\<lparr>adc_raw_data := ws\<rparr>, prof a) = (d, s)"
  shows "pp_app_wf (a\<lparr>prof := s, conv := d\<rparr>) \<and> rb_bytes (usb_tx_rb s) = pp_out_bytes a @ take (pp_room a) (adc_block ws) \<and>
    frame_ok (adc_block ws)"
proof -
  have d: "padc_wf ((conv a)\<lparr>adc_raw_data := ws\<rparr>)" "pp_wf (prof a)"
    using assms(1,2) by (simp_all add: pp_app_wf_def padc_wf_def)
  have "frame_ok (adc_block ws)" using assms(2) by (simp add: frame_ok_def) (simp add: adc_block_def)
  then show ?thesis using adc_isr_spec [OF d assms(3)] assms(1) by (simp add: pp_app_wf_def pp_room_def)
qed

lemma pp_queue_spec:
  assumes "pp_app_wf a" "n \<le> length bs" "n < 4294967296"
  obtains g where "pp_queue bs n a = a\<lparr>prof := (prof a)\<lparr>usb_tx_rb := g\<rparr>\<rparr>" "rb_wf g"
    "rb_bytes g = pp_out_bytes a @ take (pp_room a) (take n bs)"
proof -
  have n: "unat (of_nat n :: u32) = n" using assms(3) by (intro unat_of_nat_small) simp
  have rb: "rb_wf (usb_tx_rb (prof a))" using assms(1) by (simp add: pp_app_wf_def pp_wf_def)
  obtain m g where "Ring_Buffer_Write (usb_tx_rb (prof a)) bs (of_nat n) = (m, g)"
    "unat m = min n (pp_room a)" "rb_wf g" "rb_bytes g = pp_out_bytes a @ take (unat m) bs"
    using rb_write_spec [OF rb, of "of_nat n" bs] assms(2)
    unfolding n pp_room_def by auto
  then show thesis by (intro that [of g]) (simp_all add: pp_queue_def min.commute)
qed

lemma pp_cmd_keeps_wf: "pp_cmd_keeps a b \<Longrightarrow> pp_app_wf a \<Longrightarrow> tx_pkt_wf p \<Longrightarrow> pp_app_wf (b\<lparr>pp_send_pkt := p\<rparr>)"
  using port_fields [of b a] by (simp add: pp_cmd_keeps_def pp_app_wf_def)

lemma pp_wf_ring: "pp_wf s \<Longrightarrow> rb_wf g \<Longrightarrow> pp_wf (s\<lparr>usb_tx_rb := g\<rparr>)"
  by (simp add: pp_wf_def)

lemma pp_out_code:
  assumes "pp_app_wf a" "pp_bulk_out env aenv n a = Some a'"
  shows "pp_app_wf a' \<and> pp_out_bytes a' = pp_out_bytes a @ accepted (pp_reply_offer env aenv n a) \<and>
    (\<forall>(f, k) \<in> set (pp_reply_offer env aenv n a). frame_ok f) \<and> usb_writes a' = usb_writes a \<and>
    usb_in_flight a' = usb_in_flight a \<and> ep_tx_busy_flag a' = ep_tx_busy_flag a"
proof (cases "n \<ge> 2 \<and> n \<ge> unat (rx_size (read_buffer a)) + 2")
  case False
  then have "pp_reply_offer env aenv n a = []" unfolding pp_reply_offer_def by (rule if_not_P)
  moreover have "a' = ep_start_read a"
    using assms(2) unfolding pp_bulk_out_def Let_def if_not_P [OF False] by simp
  ultimately show ?thesis using assms(1) by (simp add: ep_start_read_def pp_app_wf_def)
next
  case True
  then obtain m b where dec: "pp_cmd_decode env aenv (read_buffer a) a = Some (m, b)"
    and a': "a' = ep_start_read (if m \<noteq> 0
      then pp_queue (tx_pkt_bytes (pp_send_pkt b)) (unat (tx_size (pp_send_pkt b)) + 2) b else b)"
    using assms(2) unfolding pp_bulk_out_def Let_def if_P [OF True]
    by (auto simp: bind_eq_Some_conv)
  have "tx_pkt_wf (pp_send_pkt a)" "pp_wf (prof a)" using assms(1) by (simp_all add: pp_app_wf_def)
  with dec obtain p c where b: "b = c\<lparr>pp_send_pkt := p\<rparr>" "pp_cmd_keeps a c"
    "pp_reply_ok (rx_cmd (read_buffer a)) m p" "m \<noteq> 0 \<Longrightarrow> unat (tx_size p) + 2 = unat m"
    using pp_cmd_decode_ok by blast
  have p: "tx_pkt_wf p" "m \<in> {0, 2, 3, 6, 8, 10, 40}" using b(3) by (simp_all add: pp_reply_ok_def)
  have wb: "pp_app_wf b" using pp_cmd_keeps_wf [OF b(2) assms(1) p(1)] by (simp add: b(1))
  have same: "usb_tx_rb (prof b) = usb_tx_rb (prof a)" "usb_writes b = usb_writes a"
    "usb_in_flight b = usb_in_flight a" "ep_tx_busy_flag b = ep_tx_busy_flag a"
    using b(2) port_fields [of c a] by (simp_all add: b(1) pp_cmd_keeps_def)
  show ?thesis
  proof (cases "m = 0")
    case z: True
    then have "pp_reply_offer env aenv n a = []" unfolding pp_reply_offer_def if_P [OF True] dec by simp
    then show ?thesis using a' z wb same by (simp add: ep_start_read_def pp_app_wf_def)
  next
    case nz: False
    have len: "unat (tx_size p) + 2 \<le> length (tx_pkt_bytes p)"
      using p unfolding b(4) [OF nz] by (auto simp: tx_pkt_bytes_def tx_pkt_wf_def)
    have lt: "unat (tx_size p) + 2 < 4294967296" using unat_u8_bound [of "tx_size p"] by linarith
    obtain g where g: "pp_queue (tx_pkt_bytes p) (unat (tx_size p) + 2) b =
        b\<lparr>prof := (prof b)\<lparr>usb_tx_rb := g\<rparr>\<rparr>" "rb_wf g"
      "rb_bytes g = pp_out_bytes b @ take (pp_room b) (take (unat (tx_size p) + 2) (tx_pkt_bytes p))"
      using pp_queue_spec [OF wb len lt] .
    have a'': "a' = ep_start_read (b\<lparr>prof := (prof b)\<lparr>usb_tx_rb := g\<rparr>\<rparr>)"
      using a' nz g(1) by (simp add: b(1))
    have off: "pp_reply_offer env aenv n a = [(take (unat (tx_size p) + 2) (tx_pkt_bytes p), pp_room a)]"
      unfolding pp_reply_offer_def if_P [OF True] dec using nz by (simp add: b(1))
    have "pp_app_wf a'" using wb g(2) by (simp add: a'' ep_start_read_def pp_app_wf_def pp_wf_ring)
    moreover have "frame_ok (take (unat (tx_size p) + 2) (tx_pkt_bytes p))"
      using len by (simp add: frame_ok_def tx_pkt_bytes_def)
    moreover have "pp_room b = pp_room a" by (simp add: pp_room_def same)
    ultimately show ?thesis using g(3) same off by (simp add: a'' ep_start_read_def)
  qed
qed

lemma pp_dtr_code:
  assumes "pp_app_wf a" "pp_set_dtr env d a = Some b"
  shows "pp_app_wf b \<and> pp_out_bytes b = pp_out_bytes a \<and> usb_writes b = usb_writes a \<and>
    usb_in_flight b = usb_in_flight a \<and> ep_tx_busy_flag b = ep_tx_busy_flag a"
proof -
  have wf: "pp_wf (prof a)" "pp_shape (prof a)" using assms(1) by (simp_all add: pp_app_wf_def pp_wf_shape)
  have "b = a\<lparr>dtr_enable := of_bool d\<rparr> \<or>
    (\<exists>s. pp_I2CDevWakeUp env (prof a) = Some s \<and> b = a\<lparr>prof := s, dtr_enable := of_bool d\<rparr>) \<or>
    (\<exists>s. pp_I2CDevSleep env (prof a) = Some s \<and>
      b = a\<lparr>conv := ADC_Stop (conv a), prof := s, dtr_enable := of_bool d\<rparr>)"
    using assms(2) by (auto simp: pp_set_dtr_def Let_def bind_eq_Some_conv split: if_splits)
  then show ?thesis
    using assms(1) wakeup_keeps [OF _ wf(2), of env] sleep_keeps [of env "prof a"] pp_keeps_wf [OF _ wf(1)]
    by (auto simp: pp_app_wf_def pp_keeps_def)
qed

lemma pp_isr_ring:
  assumes "pp_timer1_isr env s = Some s'"
  shows "usb_tx_rb s' = usb_tx_rb s"
proof (cases "timer_flg s = 0")
  case True
  from pp_core_fields(18) [OF conjunct1 [OF pp_isr_idle [OF assms True]]] show ?thesis .
next
  case False
  from pp_core_fields(18) [OF conjunct1 [OF pp_isr_spec [OF assms False]]] show ?thesis by simp
qed

lemma pp_code_spec:
  assumes "pp_code a os a'" "pp_app_wf a"
  shows "pp_app_wf a' \<and> pp_out_bytes a' = pp_out_bytes a @ accepted os \<and> (\<forall>(f, n) \<in> set os. frame_ok f) \<and>
    usb_writes a' = usb_writes a \<and> usb_in_flight a' = usb_in_flight a \<and> ep_tx_busy_flag a' = ep_tx_busy_flag a"
  using assms
proof (induction rule: pp_code.induct)
  case (task a)
  then show ?case using pp_task_code [of a] by simp
next
  case (timer env a s)
  have "usb_tx_rb s = usb_tx_rb (prof a)"
    by (rule pp_isr_ring [OF timer(1)])
  moreover have "pp_wf s" using pp_wf_isr [OF timer(1)] timer(2) by (simp add: pp_app_wf_def)
  ultimately show ?case using timer by (simp add: pp_app_wf_def)
next
  case (dma ws a d s)
  then show ?case using pp_dma_code [of a ws d s] by simp
next
  case (out b a bs env aenv c)
  have "length (splice_at (read_buffer a) 0 bs) = USBD_RXBUFSIZE"
    using out by (subst length_splice_at) (auto simp: pp_app_wf_def)
  then have "pp_app_wf b" using out by (simp add: pp_app_wf_def)
  from pp_out_code [OF this out(3)] show ?case by (simp add: out(1))
next
  case (dtr env d a b)
  then show ?case using pp_dtr_code [of a env d b] by simp
next
  case (rts a d)
  then show ?case by (simp add: pp_app_wf_def usbd_cdc_acm_set_rts_def)
qed

lemma pp_send_law:
  assumes "pp_app_wf a" "transfer_inv a" "pp_send a = Some a'"
  shows "pp_app_wf a' \<and> transfer_inv a' \<and>
    concat (usb_writes a') @ pp_out_bytes a' = concat (usb_writes a) @ pp_out_bytes a"
proof -
  obtain rb b where b: "cdc_send (usb_tx_rb (prof a)) a = Some (rb, b)"
    "a' = b\<lparr>prof := (prof b)\<lparr>usb_tx_rb := rb\<rparr>\<rparr>"
    using assms(3) by (auto simp: pp_send_def bind_eq_Some_conv)
  have w: "length (write_buffer a) = USBD_TXBUFSIZE" "rb_wf (usb_tx_rb (prof a))"
    using assms(1) by (simp_all add: pp_app_wf_def pp_wf_def)
  note c = cdc_send_spec [OF w(2,1) assms(2) b(1)]
  have f: "prof b = prof a \<and> conv b = conv a \<and> pp_send_pkt b = pp_send_pkt a \<and> read_buffer b = read_buffer a"
    using b(1) by (auto simp: cdc_send_def ep_start_write_def Let_def split: if_splits prod.splits)
  have "transfer_inv a' = transfer_inv b" by (rule transfer_inv_frame) (simp_all add: b(2))
  moreover have "concat (usb_writes b) @ drop 2047 (pp_out_bytes a) = concat (usb_writes a) @ pp_out_bytes a"
    using c by metis
  ultimately show ?thesis using c f assms(1) by (simp add: b(2) pp_app_wf_def pp_wf_ring)
qed

interpretation pp: cdc_program pp_app_wf "\<lambda>a. usb_tx_rb (prof a)" pp_code pp_send
proof unfold_locales
  fix a a' :: pp_app and os f n
  assume c: "pp_code a os a'" "pp_app_wf a"
  note s = pp_code_spec [OF c]
  show "pp_app_wf a'" "pp_out_bytes a' = pp_out_bytes a @ accepted os"
    "usb_writes a' = usb_writes a \<and> usb_in_flight a' = usb_in_flight a \<and> ep_tx_busy_flag a' = ep_tx_busy_flag a"
    using s by simp_all
  show "frame_ok f" if "(f, n) \<in> set os" using s that by auto
next
  fix a a' :: pp_app
  assume "pp_send a = Some a'" "pp_app_wf a" "transfer_inv a"
  then show "pp_app_wf a' \<and> transfer_inv a' \<and>
    concat (usb_writes a') @ pp_out_bytes a' = concat (usb_writes a) @ pp_out_bytes a"
    using pp_send_law by blast
next
  fix a :: pp_app and n
  assume "pp_app_wf a"
  then show "pp_app_wf (usbd_cdc_acm_bulk_in n (a\<lparr>usb_in_flight := None\<rparr>)) \<and>
    usb_tx_rb (prof (usbd_cdc_acm_bulk_in n (a\<lparr>usb_in_flight := None\<rparr>))) = usb_tx_rb (prof a)"
    by (simp add: pp_app_wf_def usbd_cdc_acm_bulk_in_def ep_start_write_def)
qed

section \<open>A write interrupted by a write\<close>

text \<open>
  The ring buffer has no lock (\<open>USE_LOCK_RNG\<close> is 0), and both the main loop and the interrupts write to
  it. A write that stays below the end of the memory is the copy of the data, then the advance of
  the index, which an interrupt can separate.
\<close>

definition write_copied :: "Ring_Buffer_Type \<Rightarrow> u8 list \<Rightarrow> u32 \<Rightarrow> Ring_Buffer_Type" where
  "write_copied rb bs n = rb\<lparr>pointer := splice_at (pointer rb) (unat (writeIndex rb)) (take (unat n) bs)\<rparr>"

definition write_advanced :: "Ring_Buffer_Type \<Rightarrow> u32 \<Rightarrow> Ring_Buffer_Type" where
  "write_advanced rb n = rb\<lparr>writeIndex := writeIndex rb + n\<rparr>"

lemma write_parts:
  assumes "rb_wf rb" "0 < n" "unat n \<le> unat (rb_size rb) - length (rb_bytes rb)"
    "unat (writeIndex rb) + unat n < unat (rb_size rb)"
  shows "Ring_Buffer_Write rb bs n = (n, write_advanced (write_copied rb bs n) n)"
proof -
  note geo = rb_geometry [OF assms(1) refl refl refl refl]
  have "0 < unat n" using assms(2) by (simp add: word_less_nat_alt)
  then have "0 < unat (Ring_Buffer_Get_Empty_Length rb)" "\<not> unat (Ring_Buffer_Get_Empty_Length rb) < unat n"
    using assms(3) geo(6) by simp_all
  then have "Ring_Buffer_Get_Empty_Length rb \<noteq> 0" "\<not> Ring_Buffer_Get_Empty_Length rb < n"
    by (auto simp: word_less_nat_alt)
  moreover have "n < rb_size rb - writeIndex rb"
    using assms(4) geo(7) by (simp add: word_less_nat_alt)
  ultimately show ?thesis
    by (simp add: Ring_Buffer_Write_def Ring_Buffer_Write_Callback_def Ring_Buffer_Write_Copy_def Let_def
        write_copied_def write_advanced_def)
qed

lemma interrupted_memory:
  assumes "w + length xs + length ys \<le> length p"
  defines "zs \<equiv> ys @ drop (length ys) xs @ drop (w + max (length xs) (length ys)) p"
  shows "splice_at (splice_at p w xs) w ys = splice_at p w (take (length xs + length ys) zs)"
proof -
  let ?k = "length xs + length ys - max (length xs) (length ys)"
  have z: "take (length xs + length ys) zs = ys @ drop (length ys) xs @ take ?k (drop (w + max (length xs) (length ys)) p)"
    by (auto simp: zs_def max_def)
  have l: "length (take (length xs + length ys) zs) = length xs + length ys"
    using assms(1) by (auto simp: zs_def max_def)
  let ?d = "drop (w + max (length xs) (length ys)) p"
  have k: "w + (length xs + length ys) = ?k + (w + max (length xs) (length ys))" by (simp add: max_def)
  have "take ?k ?d @ drop (w + (length xs + length ys)) p = take ?k ?d @ drop ?k ?d"
    unfolding k drop_drop ..
  also have "\<dots> = ?d" by (rule append_take_drop_id)
  finally have "take ?k ?d @ drop (w + (length xs + length ys)) p = ?d" .
  then have "splice_at p w (take (length xs + length ys) zs) =
      take w p @ ys @ drop (length ys) xs @ drop (w + max (length xs) (length ys)) p"
    unfolding splice_at_def l unfolding z by simp
  also have "\<dots> = splice_at (splice_at p w xs) w ys"
    using assms(1) by (simp add: splice_at_def max_def add.commute)
  finally show ?thesis by simp
qed

lemma write_copied_frame:
  assumes "rb_wf rb" "unat n \<le> length bs" "unat n \<le> unat (rb_size rb) - length (rb_bytes rb)"
    "unat (writeIndex rb) + unat n < unat (rb_size rb)"
  shows "rb_wf (write_copied rb bs n) \<and> length (rb_bytes (write_copied rb bs n)) = length (rb_bytes rb)"
proof -
  note geo = rb_geometry [OF assms(1) refl refl refl refl]
  have "length (pointer (write_copied rb bs n)) = unat (rb_size rb)"
    unfolding write_copied_def using assms geo(1) by (simp add: length_splice_at)
  then show ?thesis using assms(1)
    by (simp add: rb_wf_def write_copied_def Ring_Buffer_Get_Length_def)
qed

section \<open>Properties\<close>

definition demo_pp_app :: pp_app where
  "demo_pp_app = \<lparr>read_buffer = replicate 2048 0, write_buffer = replicate 2048 0, ep_tx_busy_flag = False,
     dtr_enable = 0, rts_enable = 0, usb_writes = [], usb_in_flight = None, usb_reads = 0,
     prof = demo_pp, conv = demo_padc, pp_send_pkt = \<lparr>tx_size = 0, tx_cmd = 0, tx_data = replicate 232 0\<rparr>\<rparr>"

lemma demo_pp_ring: "usb_tx_rb demo_pp = Ring_Buffer_Init (replicate 4096 0) 4096"
  "rb_bytes (usb_tx_rb demo_pp) = []" "rb_size (usb_tx_rb demo_pp) = 4096"
  by (simp_all add: demo_pp_def rb_bytes_def Ring_Buffer_Init_def Ring_Buffer_Get_Length_def)

lemma demo_pp_app_facts: "pp_app_wf demo_pp_app" "pp_out_bytes demo_pp_app = []"
  "usb_writes demo_pp_app = []" "usb_in_flight demo_pp_app = None" "\<not> ep_tx_busy_flag demo_pp_app"
  "prof demo_pp_app = demo_pp"
  using demo_pp_wf demo_pp_ring
  by (simp_all add: demo_pp_app_def pp_app_wf_def tx_pkt_wf_def USBD_RXBUFSIZE_def USBD_TXBUFSIZE_def
      demo_padc_def padc_wf_def)

text \<open>
  C27: A block written by the main loop and interrupted, between the copy and the advance of the index, by
  an interrupt that writes a block too: both writes report success, and the stream grows by both
  lengths, but the interrupting block has overwritten the head of the other one, and as many bytes
  of older memory follow.
\<close>

theorem interrupted_write_loses_data:
  assumes "rb_wf rb" "0 < n" "0 < m" "unat n = length xs" "unat m = length ys"
    "length xs + length ys \<le> unat (rb_size rb) - length (rb_bytes rb)"
    "unat (writeIndex rb) + length xs + length ys < unat (rb_size rb)"
  shows "Ring_Buffer_Write rb xs n = (n, write_advanced (write_copied rb xs n) n) \<and>
    (\<exists>g. Ring_Buffer_Write (write_copied rb xs n) ys m = (m, g) \<and>
      rb_bytes (write_advanced g n) = rb_bytes rb @ take (length xs + length ys)
        (ys @ drop (length ys) xs @ drop (unat (writeIndex rb) + max (length xs) (length ys)) (pointer rb)))"
proof -
  let ?w = "unat (writeIndex rb)"
  define c where "c = write_copied rb xs n"
  note geo = rb_geometry [OF assms(1) refl refl refl refl]
  have first: "Ring_Buffer_Write rb xs n = (n, write_advanced c n)"
    unfolding c_def by (rule write_parts) (use assms in simp_all)
  have c: "rb_wf c \<and> length (rb_bytes c) = length (rb_bytes rb)"
    unfolding c_def by (rule write_copied_frame) (use assms in simp_all)
  have cf: "writeIndex c = writeIndex rb" "rb_size c = rb_size rb" by (simp_all add: c_def write_copied_def)
  have second: "Ring_Buffer_Write c ys m = (m, write_advanced (write_copied c ys m) m)"
    by (rule write_parts) (use assms c cf in simp_all)
  let ?g = "write_advanced (write_advanced (write_copied c ys m) m) n"
  define zs where "zs = take (length xs + length ys)
        (ys @ drop (length ys) xs @ drop (?w + max (length xs) (length ys)) (pointer rb))"
  have lz: "length zs = length xs + length ys" using assms(7) geo(1) by (auto simp: zs_def max_def)
  have p: "pointer ?g = ring_store (pointer rb) ?w zs"
  proof -
    have "splice_at (splice_at (pointer rb) ?w xs) ?w ys = splice_at (pointer rb) ?w zs"
      unfolding zs_def by (rule interrupted_memory) (use assms(7) geo(1) in simp)
    then show ?thesis using assms(4,5,7) geo(1) lz
      by (simp add: write_advanced_def write_copied_def c_def ring_store_linear)
  qed
  have "unat (writeIndex rb + m) = ?w + length ys"
    using u32_plus_below [of "writeIndex rb" m "rb_size rb"] assms(5,7) by simp
  then have wi: "unat (writeIndex rb + m + n) = ?w + length zs"
    using u32_plus_below [of "writeIndex rb + m" n "rb_size rb"] assms(4,7) lz by simp
  have "rb_wf ?g \<and> rb_bytes ?g = rb_bytes rb @ zs \<and>
      unat (Ring_Buffer_Get_Length ?g) = unat (Ring_Buffer_Get_Length rb) + length zs"
    by (rule rb_stored [OF assms(1) _ p])
      (use assms(6,7) geo(6) lz wi in \<open>simp_all add: write_advanced_def write_copied_def c_def\<close>)
  with first second show ?thesis by (simp add: zs_def flip: c_def)
qed

theorem interrupted_write_loses_data_witness:
  "\<exists>g. Ring_Buffer_Write (write_copied (usb_tx_rb demo_pp) [1, 2, 3] 3) [8, 9] 2 = (2, g) \<and>
     rb_bytes (write_advanced g 3) = [8, 9, 3, 0, 0]"
proof -
  have w: "rb_wf (usb_tx_rb demo_pp)" using demo_pp_wf by (simp add: pp_wf_def)
  have p: "pointer (usb_tx_rb demo_pp) = replicate 4096 0" "writeIndex (usb_tx_rb demo_pp) = 0"
    by (simp_all add: demo_pp_ring(1) Ring_Buffer_Init_def)
  have e: "take (length [1, 2, 3 :: u8] + length [8, 9 :: u8]) ([8, 9] @ drop (length [8, 9 :: u8]) [1, 2, 3] @
      drop (unat (0 :: u32) + max (length [1, 2, 3 :: u8]) (length [8, 9 :: u8])) (replicate 4096 0)) = [8, 9, 3, 0, 0 :: u8]"
    by (simp add: replicate_Suc [of "Suc 0"] numeral_2_eq_2 [symmetric]) (simp add: numeral_2_eq_2)
  have r: "(0 :: u32) < 3" "(0 :: u32) < 2" "unat (3 :: u32) = length [1, 2, 3 :: u8]" "unat (2 :: u32) = length [8, 9 :: u8]"
    "length [1, 2, 3 :: u8] + length [8, 9 :: u8] \<le> unat (4096 :: u32) - length ([] :: u8 list)"
    "unat (0 :: u32) + length [1, 2, 3 :: u8] + length [8, 9 :: u8] < unat (4096 :: u32)"
    by simp_all
  from interrupted_write_loses_data [OF w r(1-4), unfolded demo_pp_ring(2,3) p e, OF r(5,6)]
  show ?thesis by (simp only: append_Nil)
qed

text \<open>
  C6: The stream of the power profiler: in whatever order the packing task, the sender, commands, timer
  and DMA interrupts, finished transfers and changes of the line state follow each other, the bytes
  handed to the USB stack, then the bytes in the ring buffer, are what the ring buffer took of the
  frames offered to it, in order: I2C blocks, ADC blocks and replies, each starting with its own
  length. Whenever no transfer is in progress the writes are non-empty blocks, exactly those of a
  multiple of 64 bytes followed by an empty one.
\<close>

theorem pp_stream:
  assumes "pp_step\<^sup>*\<^sup>* w0 w" "pp_app_wf (program w0)" "offered w0 = []" "usb_writes (program w0) = []"
    "pp_out_bytes (program w0) = []" "usb_in_flight (program w0) = None" "\<not> ep_tx_busy_flag (program w0)"
  shows "concat (map (\<lambda>(f, n). take n f) (offered w)) =
      concat (usb_writes (program w)) @ pp_out_bytes (program w) \<and>
    (\<forall>(f, n) \<in> set (offered w). 2 \<le> length f \<and> length f = 2 + unat (f ! 0)) \<and>
    ((\<forall>(f, n) \<in> set (offered w). length f \<le> n) \<longrightarrow>
      concat (map fst (offered w)) = concat (usb_writes (program w)) @ pp_out_bytes (program w)) \<and>
    (usb_in_flight (program w) = None \<longrightarrow> ended (usb_writes (program w)))"
  using pp.stream [OF assms] pp.transfers [OF assms] by blast

theorem pp_stream_witness:
  "\<exists>w. pp_step\<^sup>*\<^sup>* \<lparr>program = demo_pp_app, offered = []\<rparr> w \<and>
     pp_out_bytes (program w) = pp_block (take 2 (pp_pending demo_pp)) \<and> ended (usb_writes (program w))"
proof -
  define w where "w = program_step \<lparr>program = demo_pp_app, offered = []\<rparr> (pp_block_offer demo_pp_app)
    (demo_pp_app\<lparr>prof := task_I2C (prof demo_pp_app)\<rparr>)"
  have "pp_step \<lparr>program = demo_pp_app, offered = []\<rparr> w"
    unfolding w_def by (rule cdc_step.code) (use pp_code.task [of demo_pp_app] in simp)
  then have run: "pp_step\<^sup>*\<^sup>* \<lparr>program = demo_pp_app, offered = []\<rparr> w" by (rule r_into_rtranclp)
  have "length (pp_pending demo_pp) = 11"
    by (simp add: pp_pending_def length_ring256) (simp add: demo_pp_def)
  moreover have n: "pktcnt (cfg_i2c demo_pp) = 2" by (simp add: demo_pp_def demo_poll_def)
  ultimately have due: "pp_due demo_pp" "length (take 2 (pp_pending demo_pp)) = 2" by (simp_all add: pp_due_def)
  then have off: "pp_block_offer demo_pp_app = [(pp_block (take 2 (pp_pending demo_pp)), 4096)]"
    unfolding pp_block_offer_def pp_room_def demo_pp_app_facts(6) demo_pp_ring(2,3) by (simp add: n)
  have l: "length (pp_block (take 2 (pp_pending demo_pp))) \<le> 4096" using due(2) by (simp add: pp_block_def)
  have same: "usb_writes (program w) = []" "usb_in_flight (program w) = None"
    using demo_pp_app_facts(3,4) by (simp_all add: w_def)
  have o: "offered w = [(pp_block (take 2 (pp_pending demo_pp)), 4096)]" by (simp add: w_def off)
  have "concat (map fst (offered w)) = concat (usb_writes (program w)) @ pp_out_bytes (program w) \<and>
      ended (usb_writes (program w))"
    using pp_stream [OF run] demo_pp_app_facts l same(2) by (simp add: o)
  then show ?thesis using run by (intro exI [of _ w]) (simp add: o same(1))
qed

text \<open>
  C29: The reply of the power profiler to any request: it fits the packet, its size byte is the length
  without the header, its command byte is the request's, with the error flag only on an empty reply,
  and the ring buffer is left alone. A test command has no reply. A register command returns the
  request's address bytes, whatever the request's length: they are taken from where they would be in
  the receive buffer. Without an I2C device it reports success, and a read then answers with the
  two data bytes the packet buffer held before.
\<close>

theorem pp_cmd_decode_reply:
  assumes "pp_cmd_decode env aenv buf a = Some (n, a')" "pp_app_wf a" "4 \<le> length buf"
  shows "tx_pkt_wf (pp_send_pkt a') \<and> n \<in> {0, 2, 3, 6, 8, 10, 40} \<and>
    (n \<noteq> 0 \<longrightarrow> unat (tx_size (pp_send_pkt a')) = unat n - 2) \<and>
    (tx_cmd (pp_send_pkt a') = rx_cmd buf \<or> n = 2 \<and> tx_cmd (pp_send_pkt a') = rx_cmd buf OR CMD_ERR_FLG) \<and>
    usb_tx_rb (prof a') = usb_tx_rb (prof a) \<and> pp_app_wf a' \<and>
    (rx_cmd buf = CMD_DEV_TST \<longrightarrow> n = 0) \<and>
    (rx_cmd buf = CMD_DEV_GRG \<longrightarrow>
      (i2c0 (prof a) \<longrightarrow> xfers (prof a') = xfers (prof a) @ [Rd (ucast (drop_bit 1 (buf ! 2))) (ucast (buf ! 3)) 2]) \<and>
      (\<not> i2c0 (prof a) \<longrightarrow> n = 6 \<and> xfers (prof a') = xfers (prof a) \<and>
        tx_data (pp_send_pkt a') = [buf ! 2, buf ! 3] @ drop 2 (tx_data (pp_send_pkt a))))"
proof -
  have w: "tx_pkt_wf (pp_send_pkt a)" "pp_wf (prof a)" using assms(2) by (simp_all add: pp_app_wf_def)
  obtain p b where p: "a' = b\<lparr>pp_send_pkt := p\<rparr>" "pp_cmd_keeps a b" "pp_reply_ok (rx_cmd buf) n p"
    "n \<noteq> 0 \<Longrightarrow> unat (tx_size p) + 2 = unat n"
    using pp_cmd_decode_ok [OF assms(1) w] by blast
  have "pp_app_wf a'" using pp_cmd_keeps_wf [OF p(2) assms(2)] p(3) by (simp add: p(1) pp_reply_ok_def)
  moreover have "n = 0" if "rx_cmd buf = CMD_DEV_TST"
    using assms(1) that by (auto simp: pp_cmd_decode_def pp_switch_def regs)
  moreover have "if i2c0 (prof a)
      then xfers (prof a') = xfers (prof a) @ [Rd (ucast (drop_bit 1 (buf ! 2))) (ucast (buf ! 3)) 2]
      else n = 6 \<and> xfers (prof a') = xfers (prof a) \<and>
        tx_data (pp_send_pkt a') = [buf ! 2, buf ! 3] @ drop 2 (tx_data (pp_send_pkt a))"
    if g: "rx_cmd buf = CMD_DEV_GRG"
  proof -
    define s where "s = (prof a)\<lparr>timer_flg := 0\<rparr>"
    obtain e t where e: "I2CBusTrEnd env s = (e, t)" by fastforce
    have tr: "pp_core t = pp_core s" "unit_state t = unit_state s"
      using tr_end_spec [of env s] unfolding e by simp_all
    have "xfers t = xfers s" using tr(2) by (simp add: xfers_unit)
    then have t: "i2c0 t = i2c0 (prof a)" "xfers t = xfers (prof a)"
      using pp_core_fields(1) [OF tr(1)] by (simp_all add: s_def)
    obtain ret bs u where u: "pp_I2CBusReadWord env (rx_data buf ! 0) (rx_data buf ! 1) t = Some (ret, bs, u)"
      "prof a' = u\<lparr>timer_flg := timer_flg (prof a)\<rparr>"
      "ret = -1 \<Longrightarrow> bs = None \<Longrightarrow> n = 6 \<and>
        tx_data (pp_send_pkt a') = splice_at (tx_data (pp_send_pkt a)) 0 (take 2 (rx_data buf))"
      using assms(1) g
      by (auto simp: pp_cmd_decode_def pp_switch_def pp_grg_def Let_def e pp_error_def bind_eq_Some_conv regs
          simp flip: s_def split: if_splits)
    have d: "rx_data buf ! 0 = buf ! 2" "rx_data buf ! 1 = buf ! 3" "take 2 (rx_data buf) = [buf ! 2, buf ! 3]"
      using assms(3) by (auto simp: rx_data_def numeral_2_eq_2 take_Suc_conv_app_nth numeral_3_eq_3)
    have e: "splice_at xs 0 [x, y] = [x, y] @ drop 2 xs" for xs and x y :: u8 by (simp add: splice_at_def numeral_2_eq_2)
    show ?thesis using bus_read_spec [OF u(1), unfolded d] u(2,3) t
      by (auto simp: d(3) e split: if_splits)
  qed
  ultimately show ?thesis using p by (auto simp: pp_cmd_keeps_def pp_reply_ok_def split: if_splits)
qed

theorem pp_cmd_decode_reply_witness:
  "\<exists>a'. pp_cmd_decode demo_pp_env (\<lambda>_. \<lparr>adc_found = True, config2_in = 0, chan_ret = 0, reload_ret = 0, start_ret = 0\<rparr>)
      [0, 0x10, 0x80, 5] (demo_pp_app\<lparr>prof := demo_pp\<lparr>i2c0 := False\<rparr>\<rparr>) = Some (6, a') \<and>
    tx_data (pp_send_pkt a') = [0x80, 5] @ replicate 230 0"
proof -
  let ?a = "demo_pp_app\<lparr>prof := demo_pp\<lparr>i2c0 := False\<rparr>\<rparr>"
  let ?env = "\<lambda>_ :: nat. \<lparr>adc_found = True, config2_in = 0, chan_ret = 0, reload_ret = 0, start_ret = 0\<rparr>"
  have c: "rx_cmd [0, 0x10, 0x80, 5] = CMD_DEV_GRG" by (simp add: rx_cmd_def regs)
  have i: "\<not> i2c0 ((demo_pp\<lparr>i2c0 := False\<rparr>)\<lparr>timer_flg := 0\<rparr>)" by simp
  have "I2CBusTrEnd demo_pp_env ((demo_pp\<lparr>i2c0 := False\<rparr>)\<lparr>timer_flg := 0\<rparr>) =
      (-1, (demo_pp\<lparr>i2c0 := False\<rparr>)\<lparr>timer_flg := 0\<rparr>)"
    using tr_end_spec i by blast
  then obtain n a' where d: "pp_cmd_decode demo_pp_env ?env [0, 0x10, 0x80, 5] ?a = Some (n, a')"
    using c by (auto simp: pp_cmd_decode_def pp_switch_def pp_grg_def Let_def pp_I2CBusReadWord_def regs)
  have w: "pp_app_wf ?a" using demo_pp_app_facts(1,6) by (simp add: pp_app_wf_def pp_wf_def)
  have t: "tx_data (pp_send_pkt ?a) = replicate 232 0" "\<not> i2c0 (prof ?a)"
    by (simp_all add: demo_pp_app_def)
  from pp_cmd_decode_reply [OF d w] c t d show ?thesis
    by (intro exI [of _ a']) simp
qed

lemma pp_decode_wf:
  assumes "pp_cmd_decode env aenv buf a = Some (n, b)" "pp_app_wf a"
  shows "pp_app_wf b"
proof -
  have w: "tx_pkt_wf (pp_send_pkt a)" "pp_wf (prof a)" using assms(2) by (simp_all add: pp_app_wf_def)
  obtain p c where "b = c\<lparr>pp_send_pkt := p\<rparr>" "pp_cmd_keeps a c" "pp_reply_ok (rx_cmd buf) n p"
    using pp_cmd_decode_ok [OF assms(1) w] by blast
  then show ?thesis using pp_cmd_keeps_wf [OF _ assms(2)] by (simp add: pp_reply_ok_def)
qed

text \<open>
  C28: A whole configuration sent to the power profiler on a board whose devices are there returns. A
  period shorter than the bus needs is refused. Otherwise every initialising write up to the first empty
  entry goes out, and the status is read once at the end of each of them: the configuration in force is the
  request with block size and bus clock limited, and with block size 0 exactly if one of these reads has the
  not-acknowledged bit. If blocks are then asked for and the first poll entry is empty, the request is
  refused; otherwise the reply is the configuration in force. With a block size, the timer runs with the
  requested period, the counters and the sample ring are empty, and the first read is under way after the
  initialising writes; without one nothing is sampled.
\<close>

theorem pp_config_starts:
  assumes "pp_clock env" "\<forall>p. dev_found (env p)" "pp_app_wf a" "rx_cmd buf = CMD_DEV_CFG" "38 \<le> rx_size buf"
    "40 \<le> length buf" "buf ! 3 < 32"
  defines "c \<equiv> start_cfg (poll_cfg_of_bytes (take 38 (rx_data buf)))"
  defines "writes \<equiv> map wr_xfer (takeWhile (\<lambda>r. wr_dev_addr r \<noteq> 0) (init c))"
  shows "\<exists>n a' qs. pp_cmd_decode env aenv buf a = Some (n, a') \<and> pp_app_wf a' \<and>
    (let s = prof a'
     in if cfg_period c < 70000 div cfg_clk c then n = 2 \<and> timer_flg s = 0 \<and> xfers s = xfers (prof a)
        else length qs = length writes \<and> sorted_wrt (<) qs \<and>
          (\<forall>q \<in> set qs. pp_pos (prof a) \<le> q \<and> q < pp_pos s) \<and>
          cfg_i2c s = (if \<exists>q \<in> set qs. nak_at env q then c\<lparr>pktcnt := 0\<rparr> else c) \<and>
          (if pktcnt (cfg_i2c s) \<noteq> 0 \<and> rd_dev_addr (rd c ! 0) = 0 then n = 2 \<and> timer_flg s = 0
           else n = 40 \<and> take 38 (tx_data (pp_send_pkt a')) = i2c_cfg_body (cfg_i2c s) \<and> pp_pending s = [] \<and>
             (if pktcnt (cfg_i2c s) = 0 then timer_flg s = 0 \<and> xfers s = xfers (prof a) @ writes
              else timer_flg s \<noteq> 0 \<and> timer1_on s \<and> timer1_comp0 s = cfg_period c - 1 \<and>
                all_read_count s = 0 \<and> all_overflow_cnt s = 0 \<and>
                xfers s = xfers (prof a) @ writes @ [rd_xfer (rd c ! 0)])))"
proof -
  define s where "s = (prof a)\<lparr>timer_flg := 0, cfg_i2c := poll_cfg_of_bytes (take 38 (rx_data buf))\<rparr>"
  have n: "rx_size buf \<noteq> 0" "(if rx_size buf > 38 then 38 else unat (rx_size buf)) = 38"
    using assms(5) by (auto simp: word_le_nat_alt word_less_nat_alt)
  have w: "pp_wf (prof a)" using assms(3) by (simp add: pp_app_wf_def)
  then have "poll_cfg_memcpy (cfg_i2c (prof a)) (rx_data buf) 38 = poll_cfg_of_bytes (take 38 (rx_data buf))"
    by (simp add: poll_cfg_memcpy_def pp_wf_def)
  then have s: "(prof a)\<lparr>timer_flg := 0, cfg_i2c := poll_cfg_memcpy (cfg_i2c (prof a)) (rx_data buf) 38\<rparr> = s"
    by (simp add: s_def)
  have sh: "pp_shape s" using w by (simp add: s_def pp_wf_shape pp_shape_def poll_cfg_of_bytes_def i2c_cfg_wf_def)
  have m: "unat (multiplier (cfg_i2c s)) < 32" using assms(6,7)
    by (simp add: s_def poll_cfg_of_bytes_def rx_data_def word_less_nat_alt numeral_3_eq_3)
  obtain ret t where t: "InitI2CDevice env s = Some (ret, t)" "i2c0 t"
    using start_total_pp [OF assms(1,2) m] by blast
  have x: "xfers s = xfers (prof a)" "start_cfg (cfg_i2c s) = c" by (simp_all add: s_def c_def xfers_def)
  note st = start_pp_spec [OF t(1) sh t(2), unfolded x]
  define p where "p = (pp_send_pkt a)\<lparr>tx_cmd := rx_cmd buf\<rparr>"
  have body: "length (i2c_cfg_body (cfg_i2c t)) = 38" using st by (simp add: started_as_def pp_wf_def)
  have "pp_cfg env buf p a = (if ret = 0 then pp_error p (a\<lparr>prof := t\<rparr>)
      else Some (40, tx_put 0 (i2c_cfg_body (cfg_i2c t)) p, a\<lparr>prof := t\<rparr>))"
    using t(1) n(1) unfolding pp_cfg_def Let_def n(2) by (simp add: s)
  then have "\<exists>b. pp_cmd_decode env aenv buf a = Some (if ret = 0 then 2 else 40, b) \<and> prof b = t \<and>
    (ret \<noteq> 0 \<longrightarrow> tx_data (pp_send_pkt b) = splice_at (tx_data (pp_send_pkt a)) 0 (i2c_cfg_body (cfg_i2c t)))"
    using assms(4) by (cases "ret = 0") (simp_all add: pp_cmd_decode_def pp_switch_def pp_error_def p_def regs)
  then obtain b where q: "pp_cmd_decode env aenv buf a = Some (if ret = 0 then 2 else 40, b)" "prof b = t"
    "ret \<noteq> 0 \<Longrightarrow> tx_data (pp_send_pkt b) = splice_at (tx_data (pp_send_pkt a)) 0 (i2c_cfg_body (cfg_i2c t))"
    by blast
  have wf: "pp_app_wf b" by (rule pp_decode_wf [OF q(1) assms(3)])
  have p0: "pp_pos s = pp_pos (prof a)" by (simp add: s_def)
  let ?short = "cfg_period c < 70000 div cfg_clk c"
  have cz: "c\<lparr>pktcnt := 0\<rparr> = c" if "pktcnt c = 0" using that by (cases c) simp
  have reply: "take 38 (tx_data (pp_send_pkt b)) = i2c_cfg_body (cfg_i2c t)" if "ret \<noteq> 0"
    using q(3) that body by (simp add: splice_at_def)
  show ?thesis
  proof (cases ?short)
    case True
    then have "ret = 0" "timer_flg t = 0" "xfers t = xfers (prof a)" using st by (simp_all add: started_as_def)
    with q(1,2) wf True show ?thesis
      by (intro exI [of _ 2] exI [of _ b] exI [of _ "[]"]) (simp add: Let_def)
  next
    case False
    then obtain qs where qs: "length qs = length writes" "sorted_wrt (<) qs"
      "\<forall>q \<in> set qs. pp_pos (prof a) \<le> q \<and> q < pp_pos t"
      "pktcnt (cfg_i2c t) = (if \<exists>q \<in> set qs. nak_at env q then 0 else pktcnt c)"
      using conjunct2 [OF start_status [OF t], unfolded x p0] by (auto simp: writes_def)
    have run: "pp_pending t = []" "if pktcnt (cfg_i2c t) = 0
      then ret = 1 \<and> cfg_i2c t = c\<lparr>pktcnt := 0\<rparr> \<and> timer_flg t = 0 \<and> xfers t = xfers (prof a) @ writes
      else cfg_i2c t = c \<and> timer1_comp0 t = cfg_period c - 1 \<and> all_read_count t = 0 \<and> all_overflow_cnt t = 0 \<and>
        (if rd_dev_addr (rd c ! 0) = 0 then ret = 0 \<and> timer_flg t = 0
         else ret = 1 \<and> timer1_on t \<and> timer_flg t \<noteq> 0 \<and> xfers t = xfers (prof a) @ writes @ [rd_xfer (rd c ! 0)])"
      using st False by (auto simp: started_as_def Let_def writes_def measuring_def poll_reg_def split: if_splits)
    have cfg: "cfg_i2c t = (if \<exists>q \<in> set qs. nak_at env q then c\<lparr>pktcnt := 0\<rparr> else c)"
    proof (cases "pktcnt (cfg_i2c t) = 0")
      case True
      with run(2) have "cfg_i2c t = c\<lparr>pktcnt := 0\<rparr>" by simp
      then show ?thesis using qs(4) True cz by (auto split: if_splits)
    next
      case False
      with run(2) qs(4) show ?thesis by (auto split: if_splits)
    qed
    have n2: "ret = 0 \<longleftrightarrow> pktcnt (cfg_i2c t) \<noteq> 0 \<and> rd_dev_addr (rd c ! 0) = 0" using run(2) by (auto split: if_splits)
    show ?thesis
    proof (cases "ret = 0")
      case True
      with n2 run(2) have "timer_flg t = 0" "pktcnt (cfg_i2c t) \<noteq> 0" "rd_dev_addr (rd c ! 0) = 0" by auto
      with q(1,2) wf False True qs(1-3) cfg show ?thesis
        by (intro exI [of _ 2] exI [of _ b] exI [of _ qs]) (simp add: Let_def)
    next
      case r: False
      then have nr: "\<not> (pktcnt (cfg_i2c t) \<noteq> 0 \<and> rd_dev_addr (rd c ! 0) = 0)" using n2 by blast
      have "if pktcnt (cfg_i2c t) = 0 then timer_flg t = 0 \<and> xfers t = xfers (prof a) @ writes
          else timer_flg t \<noteq> 0 \<and> timer1_on t \<and> timer1_comp0 t = cfg_period c - 1 \<and> all_read_count t = 0 \<and>
            all_overflow_cnt t = 0 \<and> xfers t = xfers (prof a) @ writes @ [rd_xfer (rd c ! 0)]"
        using run(2) nr by (auto split: if_splits)
      with q(1,2) wf False r qs(1-3) cfg nr reply [OF r] run(1) show ?thesis
        by (intro exI [of _ 40] exI [of _ b] exI [of _ qs]) (simp only: Let_def if_False simp_thms)
    qed
  qed
qed

definition demo_request :: "u8 list" where
  "demo_request = [38, 1] @ i2c_cfg_body demo_poll"

lemma demo_request_facts: "rx_cmd demo_request = CMD_DEV_CFG" "38 \<le> rx_size demo_request"
  "40 \<le> length demo_request" "demo_request ! 3 < 32"
  "poll_cfg_of_bytes (take 38 (rx_data demo_request)) = demo_poll"
  by (simp_all add: demo_request_def rx_cmd_def rx_size_def rx_data_def regs demo_poll_def i2c_cfg_body_def
      le16_def reg_wr_bytes_def reg_rd_bytes_def poll_cfg_of_bytes_def reg_wr_at_def reg_rd_at_def from_le16_def)

theorem pp_config_starts_witness:
  "\<exists>a'. pp_cmd_decode demo_pp_env (\<lambda>_. undefined) demo_request demo_pp_app = Some (40, a') \<and>
    take 3 (tx_data (pp_send_pkt a')) = [2, 0, 0xE8] \<and> timer1_on (prof a') \<and>
    xfers (prof a') = [Wr 0x40 0 [0x40, 0x05], Rd 0x40 1 2]"
proof -
  have k: "(400 :: u16) AND 0x7fff = 400" by simp
  have e: "start_cfg demo_poll = demo_poll" "\<not> cfg_period demo_poll < 70000 div cfg_clk demo_poll"
    "rd_dev_addr (rd demo_poll ! 0) \<noteq> 0" "pktcnt demo_poll \<noteq> 0"
    by (simp_all add: demo_poll_def start_cfg_def cfg_period_def cfg_clk_def k)
  have f: "\<forall>p. dev_found (demo_pp_env p)" by (simp add: demo_pp_env_def)
  have ack: "\<not> nak_at demo_pp_env q" for q by (simp add: nak_at_def demo_pp_env_def I2C_NAK_INT_def)
  have x: "xfers (prof demo_pp_app) = []" by (simp add: demo_pp_app_def demo_pp_def xfers_def)
  have w: "map wr_xfer (takeWhile (\<lambda>r. wr_dev_addr r \<noteq> 0) (init demo_poll)) @ [rd_xfer (rd demo_poll ! 0)] =
    [Wr 0x40 0 [0x40, 0x05], Rd 0x40 1 2]" by (simp add: demo_poll_def wr_xfer_def rd_xfer_def)
  obtain a' where a': "pp_cmd_decode demo_pp_env (\<lambda>_. undefined) demo_request demo_pp_app = Some (40, a')"
    "cfg_i2c (prof a') = demo_poll" "take 38 (tx_data (pp_send_pkt a')) = i2c_cfg_body (cfg_i2c (prof a'))"
    "timer1_on (prof a')" "xfers (prof a') = [Wr 0x40 0 [0x40, 0x05], Rd 0x40 1 2]"
    using pp_config_starts [OF demo_pp_clock f demo_pp_app_facts(1) demo_request_facts(1-4), of "\<lambda>_. undefined"] e
    unfolding demo_request_facts(5) e(1) Let_def x w by (auto simp: ack w)
  have "take 3 (tx_data (pp_send_pkt a')) = take 3 (take 38 (tx_data (pp_send_pkt a')))" by simp
  also have "\<dots> = [2, 0, 0xE8]"
    unfolding a'(3) a'(2) by (simp add: demo_poll_def i2c_cfg_body_def le16_def)
  finally show ?thesis using a'(1,4,5) by blast
qed

text \<open>
  C30: A host that opens the port of a powered-up board whose devices are there wakes it: the bus pins are
  set up, the power pin is made an output and, 5 ms later, set, and only after 50 ms more, and once the bus
  is initialised, the three configured initialising writes of the default configuration go out, but the
  first of them carries 0: the initialiser of the configuration gives the value of the first entry
  to the second one. Nothing is sampled until a configuration comes.
\<close>

theorem pp_host_connects:
  assumes "pp_clock env" "\<forall>p. dev_found (env p)" "pp_app_wf a" "cfg_i2c (prof a) = pp_default_cfg" "dtr_enable a = 0"
  shows "\<exists>b. pp_set_dtr env True a = Some b \<and> pp_app_wf b \<and> dtr_enable b = 1 \<and>
    cfg_i2c (prof b) = pp_default_cfg \<and> timer_flg (prof b) = 0 \<and> pp_pending (prof b) = [] \<and> gpio_pwr (prof b) \<and>
    prefix (pp_log (prof a) @ [Gpio_init PP_SDA Func_i2c0, Gpio_init PP_SCL Func_i2c0, Gpio_init PP_POWER Out_pullup,
      Wait_us 5000, Gpio_set PP_POWER, Wait_us 50000]) (pp_log (prof b)) \<and>
    xfers (prof b) = xfers (prof a) @ [Wr 0x40 0 [0, 0], Wr 0x40 0 [0xC0, 0x05], Wr 0x40 0 [0x40, 0x05]]"
proof -
  define t where "t = pp_set_pktcnt 0 (fold pp_put [Gpio_init PP_SDA Func_i2c0, Gpio_init PP_SCL Func_i2c0,
      Gpio_init PP_POWER Out_pullup, Wait_us 5000, Gpio_set PP_POWER, Wait_us 50000]
      ((prof a)\<lparr>pp_pos := Suc (pp_pos (prof a)), gpio_pwr := True\<rparr>))"
  have k: "(800 :: u16) AND 0x7fff = 800" by simp
  have c: "start_cfg pp_default_cfg = pp_default_cfg" "\<not> cfg_period pp_default_cfg < 70000 div cfg_clk pp_default_cfg"
    "pp_default_cfg\<lparr>pktcnt := 0\<rparr> = pp_default_cfg" "pktcnt pp_default_cfg = 0" "unat (multiplier pp_default_cfg) < 32"
    by (simp_all add: pp_default_cfg_def start_cfg_def cfg_period_def cfg_clk_def k)
  have "pp_core t = pp_core ((pp_set_pktcnt 0 (prof a))\<lparr>gpio_pwr := True\<rparr>)"
    by (simp add: t_def pp_set_pktcnt_def pp_core_def pp_put_def)
  note f = pp_core_fields [OF this]
  have w: "pp_shape (prof a)" using assms(3) by (simp add: pp_app_wf_def pp_wf_shape)
  have t: "cfg_i2c t = pp_default_cfg" "pp_shape t" "xfers t = xfers (prof a)"
    using f w assms(4) c(3) by (simp_all add: pp_shape_def pp_set_pktcnt_def) (simp add: t_def pp_set_pktcnt_def xfers_put_other xfers_def pp_put_def)
  obtain ret u where u: "InitI2CDevice env t = Some (ret, u)" "i2c0 u"
    using start_total_pp [OF assms(1,2), of t] c(5) t(1) by auto
  have "pp_I2CDevWakeUp env (prof a) = Some u"
    using assms(2) u(1) by (simp add: pp_I2CDevWakeUp_def pp_get_def Let_def t_def)
  then have b: "pp_set_dtr env True a = Some (a\<lparr>prof := u, dtr_enable := 1\<rparr>)"
    using assms(5) by (simp add: pp_set_dtr_def)
  have log: "pp_log t = pp_log (prof a) @ [Gpio_init PP_SDA Func_i2c0, Gpio_init PP_SCL Func_i2c0,
      Gpio_init PP_POWER Out_pullup, Wait_us 5000, Gpio_set PP_POWER, Wait_us 50000]"
    by (simp add: t_def pp_set_pktcnt_def)
  have "prefix (pp_log t) (pp_log u)" using start_status [OF u] by (simp add: pp_later_def)
  moreover have "gpio_pwr u" using start_pwr [OF u] by (simp add: f)
  moreover have "started_as ret u pp_default_cfg (xfers (prof a))"
    using start_pp_spec [OF u(1) t(2) u(2)] t(1,3) c(1) by simp
  then have "cfg_i2c u = pp_default_cfg \<and> timer_flg u = 0 \<and> pp_pending u = [] \<and>
      xfers u = xfers (prof a) @ map wr_xfer (takeWhile (\<lambda>r. wr_dev_addr r \<noteq> 0) (init pp_default_cfg))"
    using c by (auto simp: started_as_def Let_def split: if_splits)
  moreover have "map wr_xfer (takeWhile (\<lambda>r. wr_dev_addr r \<noteq> 0) (init pp_default_cfg)) =
      [Wr 0x40 0 [0, 0], Wr 0x40 0 [0xC0, 0x05], Wr 0x40 0 [0x40, 0x05]]"
    by (simp add: pp_default_cfg_def wr_xfer_def)
  moreover have "pp_app_wf (a\<lparr>prof := u, dtr_enable := 1\<rparr>)" using pp_dtr_code [OF assms(3) b] by simp
  ultimately show ?thesis using b unfolding log by simp
qed

theorem pp_host_connects_witness:
  "\<exists>b. pp_set_dtr demo_pp_env True (demo_pp_app\<lparr>prof := demo_pp\<lparr>cfg_i2c := pp_default_cfg\<rparr>\<rparr>) = Some b \<and>
    gpio_pwr (prof b) \<and>
    prefix [Gpio_init PP_SDA Func_i2c0, Gpio_init PP_SCL Func_i2c0, Gpio_init PP_POWER Out_pullup, Wait_us 5000,
      Gpio_set PP_POWER, Wait_us 50000] (pp_log (prof b)) \<and>
    xfers (prof b) = [Wr 0x40 0 [0, 0], Wr 0x40 0 [0xC0, 0x05], Wr 0x40 0 [0x40, 0x05]]"
proof -
  let ?a = "demo_pp_app\<lparr>prof := demo_pp\<lparr>cfg_i2c := pp_default_cfg\<rparr>\<rparr>"
  have f: "\<forall>p. dev_found (demo_pp_env p)" by (simp add: demo_pp_env_def)
  have "pp_wf (demo_pp\<lparr>cfg_i2c := pp_default_cfg\<rparr>)"
    using demo_pp_wf by (simp add: pp_wf_def i2c_cfg_wf_def pp_default_cfg_def)
  then have w: "pp_app_wf ?a" using demo_pp_app_facts(1) by (simp add: pp_app_wf_def)
  have "dtr_enable ?a = 0" "xfers (prof ?a) = []" "pp_log (prof ?a) = []"
    by (simp_all add: demo_pp_app_def demo_pp_def xfers_def)
  then show ?thesis using pp_host_connects [OF demo_pp_clock f w] by auto
qed

end
