(* ===== verification/Ina229.thy ===== *)
theory Ina229
  imports RingBuffer CmdCfg
begin

text \<open>
  The INA229 sampler of the BL702 port (\<open>ina229.c\<close> and \<open>usb_buffer.c\<close> of
  \<open>INA228_229/BL702/PowerProfiler_ina229\<close>): the current sensor hangs on an SPI bus, a timer
  interrupt pipelines one register read per period into a ring of 1024 words, and the main loop
  packs 40 samples of 24 bits into a block for the USB ring buffer. The build is the one of
  \<open>main_config.h\<close>: \<open>USE_TIMER_IRQ\<close> is on; \<open>USE_GPIO_IRQ\<close>, \<open>GPIO_TST\<close> and \<open>GPIO_SHT\<close> are off.

  What the chip and the board answer is a sequence of samples, one for each access; the calls into
  the SDK are logged in order. An SPI transfer is over before the next access to its FIFO: at
  10 MHz a word takes 3.2 us, and the shortest sampling period is 50 us.
\<close>

section \<open>Registers, devices and state\<close>

definition INA229_RA_CONFIG :: u32 where [regs]: "INA229_RA_CONFIG = 0x0"
definition INA229_RA_ADC_CONFIG :: u32 where [regs]: "INA229_RA_ADC_CONFIG = 0x01"
definition INA229_RA_DIAG_ALRT :: u32 where [regs]: "INA229_RA_DIAG_ALRT = 0x0b"
definition INA229_RA_VSHUNT :: u32 where [regs]: "INA229_RA_VSHUNT = 0x04"
definition INA229_RA_VBUS :: u32 where [regs]: "INA229_RA_VBUS = 0x05"
definition INA229_RA_MAN_ID :: u32 where [regs]: "INA229_RA_MAN_ID = 0x3e"
definition INA229_RA_DEV_ID :: u32 where [regs]: "INA229_RA_DEV_ID = 0x3f"

definition INAWR16B :: "u32 \<Rightarrow> u32 \<Rightarrow> u32" where "INAWR16B a v = push_bit 26 a OR push_bit 8 v"
definition INARD16B :: "u32 \<Rightarrow> u32" where "INARD16B a = push_bit 26 a OR push_bit 24 1"
definition INARD24B :: "u32 \<Rightarrow> u32" where "INARD24B a = push_bit 26 a OR push_bit 24 1"

definition GPIO_SCLK :: nat where [regs]: "GPIO_SCLK = 15"
definition GPIO_SDO :: nat where [regs]: "GPIO_SDO = 0"
definition GPIO_SDI :: nat where [regs]: "GPIO_SDI = 1"
definition GPIO_NSS :: nat where [regs]: "GPIO_NSS = 2"
definition GPIO_ALRT :: nat where [regs]: "GPIO_ALRT = 24"
definition GPIO_PWR :: nat where [regs]: "GPIO_PWR = 26"

text \<open>
  One sample of the hardware: the chip's answer to a word sent, the microsecond counter, the level
  of the alert pin, and whether the SDK finds the device asked for.
\<close>

record bl_sample =
  spi_in :: "u32 \<Rightarrow> u32"
  mtime :: u32
  alert_pin :: bool
  found :: bool

type_synonym bl_env = "nat \<Rightarrow> bl_sample"

datatype pin_mode = In_pullup | In_pulldown | In_float | Out_float | Spi0

datatype bl_out = Pin nat pin_mode | Pin_set nat | Pin_reset nat | Delay_us u32
  | Spi_init | Spi_deinit | Spi_width nat | Spi_word u32
  | Timer_reset | Timer_period u32 | Timer_start | Timer_stop | Timer_deinit | Irq_on | Irq_off

record cfg_ina_t =
  inited :: u32
  buf_enable :: u32
  chnls :: u32
  shunt :: u32
  freq :: u16
  r_shunt :: u16
  r_alert :: u16
  r_config :: u16

record ina =
  cfg_ina :: cfg_ina_t
  timer1 :: bool
  spi_rdata :: u32
  bl_log :: "bl_out list"
  bl_pos :: nat
  data_buffer :: "u32 list"
  data_buffer_wr_ptr :: u32
  data_buffer_rd_ptr :: u32
  data_blk_out :: "u8 list"
  blk_read_count :: u32
  blk_overflow_cnt :: u32
  usb_tx_rb :: Ring_Buffer_Type

definition DATA_BUF_CNT :: nat where "DATA_BUF_CNT = 1024"
definition DATA8_BLK_CNT :: nat where "DATA8_BLK_CNT = 120"
definition DATA24_BLK_CNT :: nat where "DATA24_BLK_CNT = 40"
definition USB_TX_RINGBUFFER_SIZE :: nat where "USB_TX_RINGBUFFER_SIZE = 4096"

definition put_log :: "bl_out \<Rightarrow> ina \<Rightarrow> ina" where
  "put_log x s = s\<lparr>bl_log := bl_log s @ [x]\<rparr>"

text \<open>
  A word written to the SPI data register starts a transfer; the word that comes back is what the
  next read of the receive FIFO finds.
\<close>

definition spi_put :: "bl_env \<Rightarrow> u32 \<Rightarrow> ina \<Rightarrow> ina" where
  "spi_put env w s =
     (put_log (Spi_word w) s)\<lparr>spi_rdata := spi_in (env (bl_pos s)) w, bl_pos := bl_pos s + 1\<rparr>"

definition spi_poll_send :: "bl_env \<Rightarrow> u32 \<Rightarrow> ina \<Rightarrow> u32 \<times> ina" where
  "spi_poll_send env w s = (let s = spi_put env w s in (spi_rdata s, s))"

definition get_mtime :: "bl_env \<Rightarrow> ina \<Rightarrow> u32 \<times> ina" where
  "get_mtime env s = (mtime (env (bl_pos s)), s\<lparr>bl_pos := bl_pos s + 1\<rparr>)"

definition get_alert :: "bl_env \<Rightarrow> ina \<Rightarrow> bool \<times> ina" where
  "get_alert env s = (alert_pin (env (bl_pos s)), s\<lparr>bl_pos := bl_pos s + 1\<rparr>)"

definition get_found :: "bl_env \<Rightarrow> ina \<Rightarrow> bool \<times> ina" where
  "get_found env s = (found (env (bl_pos s)), s\<lparr>bl_pos := bl_pos s + 1\<rparr>)"

section \<open>Sampling\<close>

text \<open>The register whose value the interrupt asks for next.\<close>

definition next_reg :: "ina \<Rightarrow> u32" where
  "next_reg s =
     (if chnls (cfg_ina s) = 3
      then (if data_buffer_wr_ptr s AND 1 \<noteq> 0 then INA229_RA_VBUS else INA229_RA_VSHUNT)
      else if chnls (cfg_ina s) = 2 then INA229_RA_VBUS
      else INA229_RA_VSHUNT)"

definition timer1_isr :: "bl_env \<Rightarrow> ina \<Rightarrow> ina" where
  "timer1_isr env s =
     (let ival = push_bit 8 (spi_rdata s);
          s = spi_put env (INARD24B (next_reg s)) s
      in if buf_enable (cfg_ina s) \<noteq> 0
         then s\<lparr>data_buffer :=
                  (data_buffer s)[unat (data_buffer_wr_ptr s) := ival OR shunt (cfg_ina s)],
                data_buffer_wr_ptr := (data_buffer_wr_ptr s + 1) AND of_nat (DATA_BUF_CNT - 1)\<rparr>
         else s)"

definition timer_init :: "u32 \<Rightarrow> ina \<Rightarrow> int \<times> ina" where
  "timer_init period s =
     (if timer1 s \<and> period \<noteq> 0
      then (0, put_log Irq_off (put_log (Timer_period period) (put_log Timer_reset s)))
      else (-1, s))"

section \<open>Power-up and power-down\<close>

definition set_cfg :: "(cfg_ina_t \<Rightarrow> cfg_ina_t) \<Rightarrow> ina \<Rightarrow> ina" where
  "set_cfg f s = s\<lparr>cfg_ina := f (cfg_ina s)\<rparr>"

definition ina229_pins :: "ina \<Rightarrow> ina" where
  "ina229_pins s =
     fold put_log [Pin GPIO_PWR In_pullup, Delay_us 10000, Pin GPIO_PWR Out_float, Pin_set GPIO_PWR,
       Pin GPIO_NSS Spi0, Pin GPIO_SCLK Spi0, Pin GPIO_SDI Spi0, Pin GPIO_SDO Spi0,
       Pin GPIO_ALRT In_pullup, Delay_us 50000] s"

definition ina229_identify :: "bl_env \<Rightarrow> ina \<Rightarrow> int \<times> ina" where
  "ina229_identify env s =
     (let (mid, s) = spi_poll_send env (INARD16B INA229_RA_MAN_ID) s;
          mid = drop_bit 8 (mid AND 0x00ffff00);
          (did, s) = spi_poll_send env (INARD16B INA229_RA_DEV_ID) s;
          did = drop_bit 8 (did AND 0x00ffff00)
      in if mid \<noteq> 0x5449 \<or> did \<noteq> 0x2291 then (-1, s)
         else (0, set_cfg (\<lambda>c. c\<lparr>inited := 1\<rparr>) s))"

definition ina229_init :: "bl_env \<Rightarrow> ina \<Rightarrow> int \<times> ina" where
  "ina229_init env s =
     (let s = set_cfg (\<lambda>c. c\<lparr>inited := 0, buf_enable := 0\<rparr>) s;
          s = ina229_pins s;
          (t, s) = get_found env s;
          s = s\<lparr>timer1 := t\<rparr>
      in if \<not> timer1 s then (-1, s)
         else
           (let (_, s) = timer_init 50 s;
                (uspi0, s) = get_found env s
            in if \<not> uspi0 then (-1, s)
               else
                 (let s = put_log Spi_init s;
                      (ok, s) = get_found env s
                  in if ok then ina229_identify env s else (-1, s))))"

definition ina229_stop :: "bl_env \<Rightarrow> ina \<Rightarrow> int \<times> ina" where
  "ina229_stop env s =
     (if inited (cfg_ina s) = 0 then (-1, s)
      else
        (let s = set_cfg (\<lambda>c. c\<lparr>buf_enable := 0\<rparr>) s;
             s = put_log Timer_stop s;
             s = put_log Irq_off s;
             s = put_log (Spi_width 24) s;
             (_, s) = spi_poll_send env (INAWR16B INA229_RA_ADC_CONFIG 0) s
         in (0, s)))"

definition ina229_sleep :: "bl_env \<Rightarrow> ina \<Rightarrow> ina" where
  "ina229_sleep env s =
     (let s = (if inited (cfg_ina s) \<noteq> 0 then snd (ina229_stop env s) else s);
          s = fold put_log [Timer_deinit, Spi_deinit, Pin GPIO_ALRT In_pulldown,
                Pin GPIO_SCLK In_pulldown, Pin GPIO_SDO In_pulldown, Pin GPIO_SDI In_pulldown,
                Pin GPIO_PWR In_pulldown, Pin GPIO_NSS In_float, Delay_us 5000,
                Pin_reset GPIO_PWR, Pin GPIO_PWR Out_float, Pin_reset GPIO_PWR] s
      in set_cfg (\<lambda>c. c\<lparr>inited := 0\<rparr>) s)"

definition ina229_wakeup :: "bl_env \<Rightarrow> ina \<Rightarrow> ina" where
  "ina229_wakeup env s =
     (if inited (cfg_ina s) = 0
      then (let (ret, s) = ina229_init env s in if ret \<noteq> 0 then ina229_sleep env s else s)
      else s)"

section \<open>Start of a measurement\<close>

text \<open>The structure \<open>dev_adc_cfg_t\<close> of this port has the fields of \<open>dev_ina228_cfg_t\<close>.\<close>

type_synonym dev_adc_cfg_t = dev_ina228_cfg_t

definition ina229_tab_freg :: "u16 list" where
  "ina229_tab_freg = [20000, 11905, 6666, 3571, 1851, 950, 482, 242]"

definition ina229_tab_time_us :: "u16 list" where
  "ina229_tab_time_us = [50, 84, 150, 280, 540, 1052, 2074, 4120]"

text \<open>\<open>for (i = 0; i < 7; i++) if (cfg->smpr >= tab_freg[i]) break;\<close>\<close>

definition freq_index :: "u16 \<Rightarrow> nat" where
  "freq_index f =
     (case find (\<lambda>i. f \<ge> ina229_tab_freg ! i) [0..<7] of Some i \<Rightarrow> i | None \<Rightarrow> 7)"

definition start_config :: "dev_adc_cfg_t \<Rightarrow> cfg_ina_t \<Rightarrow> cfg_ina_t" where
  "start_config cfg c =
     (let c = (if sh cfg \<noteq> 0 then c\<lparr>r_shunt := push_bit 4 1\<rparr> else c\<lparr>r_shunt := 0\<rparr>);
          c = c\<lparr>r_alert := push_bit 14 1\<rparr>;
          c = c\<lparr>r_config := 0\<rparr>;
          c = (if chnl cfg = 3 then c\<lparr>r_config := push_bit 12 0x0b, chnls := 3\<rparr>
               else if chnl cfg = 2 then c\<lparr>r_config := push_bit 12 0x09, chnls := 2\<rparr>
               else c\<lparr>r_config := push_bit 12 0x0a, chnls := 1\<rparr>);
          i = freq_index (smpr cfg);
          c = c\<lparr>freq := ina229_tab_freg ! i\<rparr>
      in c\<lparr>r_config := r_config c OR
            (push_bit 3 (of_nat i) OR push_bit 6 (of_nat i) OR push_bit 9 (of_nat i))\<rparr>)"

text \<open>
  \<open>do { tx = now - ts; if (tx > te) break; } while (bflb_gpio_read(ugpio, GPIO_ALRT) != 0);\<close>
\<close>

partial_function (option) wait_ready :: "bl_env \<Rightarrow> u32 \<Rightarrow> u32 \<Rightarrow> ina \<Rightarrow> ina option" where
  [code]: "wait_ready env te ts s =
     (let (t, s) = get_mtime env s
      in if t - ts > te then Some s
         else (let (a, s) = get_alert env s in if a then wait_ready env te ts s else Some s))"

definition start_chip :: "bl_env \<Rightarrow> ina \<Rightarrow> ina" where
  "start_chip env s =
     (let (_, s) = spi_poll_send env (INAWR16B INA229_RA_CONFIG (ucast (r_shunt (cfg_ina s)))) s;
          (_, s) = spi_poll_send env (INAWR16B INA229_RA_DIAG_ALRT (ucast (r_alert (cfg_ina s)))) s;
          (_, s) = spi_poll_send env (INAWR16B INA229_RA_ADC_CONFIG (ucast (r_config (cfg_ina s)))) s
      in s)"

definition first_reg :: "ina \<Rightarrow> u32" where
  "first_reg s =
     (if chnls (cfg_ina s) = 3 then INA229_RA_VBUS
      else if chnls (cfg_ina s) = 2 then INA229_RA_VBUS
      else INA229_RA_VSHUNT)"

text \<open>The start up to the wait: the state, the time stamp and the time limit of the wait.\<close>

definition start_setup :: "bl_env \<Rightarrow> dev_adc_cfg_t \<Rightarrow> ina \<Rightarrow> u32 \<times> u32 \<times> ina" where
  "start_setup env cfg s =
     (let s = set_cfg (\<lambda>c. c\<lparr>buf_enable := 0\<rparr>) s;
          s = s\<lparr>blk_read_count := 0, blk_overflow_cnt := 0\<rparr>;
          s = put_log Timer_stop s;
          s = put_log (Spi_width 24) s;
          (_, s) = spi_poll_send env (INAWR16B INA229_RA_CONFIG (push_bit 15 1)) s;
          s = put_log (Delay_us 300) s;
          s = set_cfg (start_config cfg) s;
          s = start_chip env s;
          (ts, s) = get_mtime env s;
          s = put_log (Spi_width 32) s;
          us = (ucast (ina229_tab_time_us ! freq_index (smpr cfg)) :: u32);
          (_, s) = timer_init us s;
          te = us + 512;
          te = (if chnls (cfg_ina s) = 3 then te + us else te)
      in (ts, te, s))"

text \<open>The rest: the first request, and buffering and interrupts switched on.\<close>

definition start_run :: "bl_env \<Rightarrow> ina \<Rightarrow> ina" where
  "start_run env s =
     (let s = spi_put env (INARD24B (first_reg s)) s;
          s = s\<lparr>data_buffer_wr_ptr := 0, data_buffer_rd_ptr := 0\<rparr>;
          s = set_cfg (\<lambda>c. c\<lparr>buf_enable := 1\<rparr>) s;
          s = put_log Irq_on s
      in put_log Timer_start s)"

definition ina229_start :: "bl_env \<Rightarrow> dev_adc_cfg_t \<Rightarrow> ina \<Rightarrow> (int \<times> ina) option" where
  "ina229_start env cfg s =
     (if inited (cfg_ina s) = 0 then Some (-1, s)
      else do {
        let (ts, te, s) = start_setup env cfg s;
        s \<leftarrow> wait_ready env te ts s;
        Some (0, start_run env s)
      })"

section \<open>Packing\<close>

text \<open>The three bytes stored for one sample, and the two loops that store them.\<close>

definition sample_top24 :: "u32 \<Rightarrow> u8 list" where
  "sample_top24 w = [ucast (drop_bit 8 w), ucast (drop_bit 16 w), ucast (drop_bit 24 w)]"

text \<open>\<open>for (i = prd; i < DATA_BUF_CNT && size; i++)\<close>: the bytes stored and the \<open>size\<close> left.\<close>

fun store_to_end :: "u32 list \<Rightarrow> nat \<Rightarrow> nat \<Rightarrow> u8 list \<times> nat" where
  "store_to_end buf i 0 = ([], 0)"
| "store_to_end buf i (Suc n) =
     (if i < DATA_BUF_CNT
      then (let (bs, m) = store_to_end buf (i + 1) n in (sample_top24 (buf ! i) @ bs, m))
      else ([], Suc n))"

text \<open>The loops that run until \<open>size\<close> is 0.\<close>

fun store_n :: "u32 list \<Rightarrow> nat \<Rightarrow> nat \<Rightarrow> u8 list" where
  "store_n buf i 0 = []"
| "store_n buf i (Suc n) = sample_top24 (buf ! i) @ store_n buf (i + 1) n"

text \<open>The block: \<open>id\<close> is \<open>(CMD_DEV_EADC << 8) + sizeof(data)\<close>, then the data.\<close>

definition out_bytes :: "u8 list \<Rightarrow> u8 list" where
  "out_bytes dat = le16 (push_bit 8 (ucast CMD_DEV_EADC) + of_nat DATA8_BLK_CNT) @ dat"

definition send_block :: "ina \<Rightarrow> ina" where
  "send_block s =
     (let (n, rb) = Ring_Buffer_Write (usb_tx_rb s) (out_bytes (data_blk_out s)) 122;
          s = s\<lparr>usb_tx_rb := rb\<rparr>
      in if n = 122 then s\<lparr>blk_read_count := blk_read_count s + 1\<rparr>
         else s\<lparr>blk_overflow_cnt := blk_overflow_cnt s + 1\<rparr>)"

definition task_data_out :: "ina \<Rightarrow> ina" where
  "task_data_out s =
     (let prd = unat (data_buffer_rd_ptr s); pwr = unat (data_buffer_wr_ptr s)
      in if pwr < prd
         then
           (if DATA_BUF_CNT - prd + pwr \<ge> DATA24_BLK_CNT
            then
              (let (bs1, sz) = store_to_end (data_buffer s) prd DATA24_BLK_CNT;
                   bs2 = store_n (data_buffer s) 0 sz
               in send_block (s\<lparr>data_blk_out := splice_at (data_blk_out s) 0 (bs1 @ bs2),
                    data_buffer_rd_ptr :=
                      of_nat (prd + DATA24_BLK_CNT) AND of_nat (DATA_BUF_CNT - 1)\<rparr>))
            else s)
         else if pwr > prd
         then
           (if pwr - prd \<ge> DATA24_BLK_CNT
            then send_block (s\<lparr>
                   data_blk_out := splice_at (data_blk_out s) 0
                     (store_n (data_buffer s) prd DATA24_BLK_CNT),
                   data_buffer_rd_ptr :=
                     of_nat (prd + DATA24_BLK_CNT) AND of_nat (DATA_BUF_CNT - 1)\<rparr>)
            else s)
         else s)"

definition usb_buffers_init :: "ina \<Rightarrow> ina" where
  "usb_buffers_init s =
     s\<lparr>usb_tx_rb := Ring_Buffer_Init (replicate USB_TX_RINGBUFFER_SIZE 0)
        (of_nat USB_TX_RINGBUFFER_SIZE)\<rparr>"

section \<open>The ring of samples\<close>

definition pending229 :: "ina \<Rightarrow> u32 list" where
  "pending229 s = ring_slice (data_buffer s) (unat (data_buffer_rd_ptr s))
     ((unat (data_buffer_wr_ptr s) + 1024 - unat (data_buffer_rd_ptr s)) mod 1024)"

definition ina_wf :: "ina \<Rightarrow> bool" where
  "ina_wf s \<longleftrightarrow> length (data_buffer s) = 1024 \<and> length (data_blk_out s) = 120 \<and>
     unat (data_buffer_wr_ptr s) < 1024 \<and> unat (data_buffer_rd_ptr s) < 1024 \<and>
     rb_wf (usb_tx_rb s)"

text \<open>The 122 bytes of a block of 40 samples.\<close>

definition block229 :: "u32 list \<Rightarrow> u8 list" where
  "block229 ws = [120, CMD_DEV_EADC] @ concat (map sample_top24 ws)"

lemma length_sample_top24 [simp]: "length (sample_top24 w) = 3"
  by (simp add: sample_top24_def)

lemma length_concat_top24 [simp]: "length (concat (map sample_top24 ws)) = 3 * length ws"
  by (induction ws) simp_all

lemma length_block229 [simp]: "length (block229 ws) = 2 + 3 * length ws"
  by (simp add: block229_def)

lemma out_bytes_block: "out_bytes (concat (map sample_top24 ws)) = block229 ws"
  by (simp add: out_bytes_def block229_def le16_def CMD_DEV_EADC_def DATA8_BLK_CNT_def)

lemma store_n_eq:
  "i + n \<le> length buf \<Longrightarrow> store_n buf i n = concat (map sample_top24 (take n (drop i buf)))"
proof (induction n arbitrary: i)
  case (Suc n)
  then have "drop i buf = buf ! i # drop (Suc i) buf" by (simp add: Cons_nth_drop_Suc)
  with Suc show ?case by simp
qed simp

lemma store_to_end_eq:
  "length buf = 1024 \<Longrightarrow> i \<le> 1024 \<Longrightarrow>
   store_to_end buf i n = (concat (map sample_top24 (take n (drop i buf))), n - (1024 - i))"
proof (induction n arbitrary: i)
  case (Suc n)
  show ?case
  proof (cases "i < 1024")
    case True
    then have "drop i buf = buf ! i # drop (Suc i) buf"
      using Suc.prems by (simp add: Cons_nth_drop_Suc)
    with Suc True show ?thesis by (simp add: DATA_BUF_CNT_def)
  next
    case False
    with Suc.prems show ?thesis by (simp add: DATA_BUF_CNT_def)
  qed
qed simp

lemma unat_and_1023: "unat (x AND of_nat (DATA_BUF_CNT - 1) :: u32) = unat x mod 1024"
  using unat_and_mask_mod [of "1023 :: u32" 10 x] by (simp add: DATA_BUF_CNT_def)

lemma length_pending229 [simp]: "length (pending229 s) =
    (unat (data_buffer_wr_ptr s) + 1024 - unat (data_buffer_rd_ptr s)) mod 1024"
  by (simp add: pending229_def)

lemma count_cases:
  assumes "w < 1024" "r < (1024::nat)"
  shows "(w + 1024 - r) mod 1024 = (if w < r then 1024 - r + w else w - r)"
proof (cases "w < r")
  case False
  then have "w + 1024 - r = (w - r) + 1 * 1024" by simp
  then have "(w + 1024 - r) mod 1024 = (w - r) mod 1024" by (metis mod_mult_self1)
  with False assms show ?thesis by simp
qed (use assms in simp)

text \<open>Both branches of the packing store the oldest 40 samples and step over them.\<close>

lemma task_packs229:
  assumes wf: "ina_wf s" and n: "40 \<le> length (pending229 s)"
  shows "task_data_out s = send_block (s\<lparr>
      data_blk_out := concat (map sample_top24 (take 40 (pending229 s))),
      data_buffer_rd_ptr :=
        of_nat (unat (data_buffer_rd_ptr s) + 40) AND of_nat (DATA_BUF_CNT - 1)\<rparr>)"
proof -
  define r w buf where "r = unat (data_buffer_rd_ptr s)" and "w = unat (data_buffer_wr_ptr s)"
    and "buf = data_buffer s"
  have b: "r < 1024" "w < 1024" "length buf = 1024" "length (data_blk_out s) = 120"
    using wf by (simp_all add: ina_wf_def r_def w_def buf_def)
  have cnt: "40 \<le> (if w < r then 1024 - r + w else w - r)"
    using n count_cases [OF b(2,1)] by (simp add: r_def w_def)
  have take: "take 40 (pending229 s) = ring_slice buf r 40"
    using n by (simp add: pending229_def take_ring_slice buf_def r_def w_def min_def)
  have len: "splice_at (data_blk_out s) 0 bs = bs" if "length bs = 120" for bs
    using that b(4) by (simp add: splice_at_def)
  show ?thesis
  proof (cases "w < r")
    case True
    have two: "take 40 (drop r buf) @ take (40 - (1024 - r)) buf = ring_slice buf r 40"
      using ring_slice_two_parts [of r buf 40] b by simp
    have "concat (map sample_top24 (take 40 (drop r buf))) @ store_n buf 0 (40 - (1024 - r)) =
        concat (map sample_top24 (take 40 (pending229 s)))"
      unfolding take two [symmetric] using b by (simp add: store_n_eq)
    moreover have "length (concat (map sample_top24 (take 40 (pending229 s)))) = 120"
      using n by simp
    ultimately show ?thesis using True cnt b
      by (simp add: task_data_out_def Let_def store_to_end_eq DATA24_BLK_CNT_def len
          flip: r_def w_def buf_def) (simp add: DATA_BUF_CNT_def)
  next
    case False
    then have rw: "r < w" "r + 40 \<le> w" using cnt by auto
    have "store_n buf r 40 = concat (map sample_top24 (take 40 (pending229 s)))"
      unfolding take using b rw by (simp add: store_n_eq ring_slice_linear)
    moreover have "length (concat (map sample_top24 (take 40 (pending229 s)))) = 120"
      using n by simp
    ultimately show ?thesis using False rw
      by (simp add: task_data_out_def Let_def DATA24_BLK_CNT_def len flip: r_def w_def buf_def)
  qed
qed

lemma task_idle229:
  assumes wf: "ina_wf s" and n: "length (pending229 s) < 40"
  shows "task_data_out s = s"
proof -
  define r w where "r = unat (data_buffer_rd_ptr s)" and "w = unat (data_buffer_wr_ptr s)"
  have b: "r < 1024" "w < 1024" using wf by (simp_all add: ina_wf_def r_def w_def)
  have "(if w < r then 1024 - r + w else w - r) < 40"
    using n count_cases [OF b(2,1)] by (simp add: r_def w_def)
  then show ?thesis
    by (auto simp: task_data_out_def Let_def DATA24_BLK_CNT_def DATA_BUF_CNT_def
        simp flip: r_def w_def split: if_splits)
qed

section \<open>Effect of the packing task and of the interrupt\<close>

lemma send_block_spec:
  assumes "rb_wf (usb_tx_rb s)" "length (data_blk_out s) = 120"
  defines "free \<equiv> unat (rb_size (usb_tx_rb s)) - length (rb_bytes (usb_tx_rb s))"
  obtains g where "rb_wf g" "rb_size g = rb_size (usb_tx_rb s)"
    "rb_bytes g = rb_bytes (usb_tx_rb s) @ take free (out_bytes (data_blk_out s))"
    "send_block s = (if 122 \<le> free
       then s\<lparr>usb_tx_rb := g, blk_read_count := blk_read_count s + 1\<rparr>
       else s\<lparr>usb_tx_rb := g, blk_overflow_cnt := blk_overflow_cnt s + 1\<rparr>)"
proof -
  have len: "length (out_bytes (data_blk_out s)) = 122"
    using assms(2) by (simp add: out_bytes_def)
  obtain n g where g: "Ring_Buffer_Write (usb_tx_rb s) (out_bytes (data_blk_out s)) 122 = (n, g)"
    "unat n = min 122 free" "rb_wf g" "rb_size g = rb_size (usb_tx_rb s)"
    "rb_bytes g = rb_bytes (usb_tx_rb s) @ take (unat n) (out_bytes (data_blk_out s))"
    using rb_write_spec [OF assms(1), of 122 "out_bytes (data_blk_out s)"] len
    unfolding free_def by auto
  have "n = 122 \<longleftrightarrow> unat n = 122" by (simp add: word_unat_eq_iff)
  then have n: "n = 122 \<longleftrightarrow> 122 \<le> free" using g(2) by (simp add: min_def)
  have tk: "take (unat n) (out_bytes (data_blk_out s)) = take free (out_bytes (data_blk_out s))"
    using g(2) len by (simp add: min_def)
  show thesis
    by (rule that [of g]) (use g(1,3-5) n tk in \<open>simp_all add: send_block_def\<close>)
qed

lemma ring_slice_same: "data_buffer s' = data_buffer s \<Longrightarrow>
    data_buffer_wr_ptr s' = data_buffer_wr_ptr s \<Longrightarrow>
    data_buffer_rd_ptr s' = data_buffer_rd_ptr s \<Longrightarrow> pending229 s' = pending229 s"
  by (simp add: pending229_def)

lemma pending_step:
  assumes "ina_wf s" "n \<le> length (pending229 s)"
  shows "pending229 (s\<lparr>data_buffer_rd_ptr :=
      of_nat (unat (data_buffer_rd_ptr s) + n) AND of_nat (DATA_BUF_CNT - 1)\<rparr>) =
    drop n (pending229 s)"
proof -
  define r w where "r = unat (data_buffer_rd_ptr s)" and "w = unat (data_buffer_wr_ptr s)"
  have b: "r < 1024" "w < 1024" "length (data_buffer s) = 1024"
    using assms(1) by (simp_all add: ina_wf_def r_def w_def)
  have n: "n \<le> (if w < r then 1024 - r + w else w - r)"
    using assms(2) count_cases [OF b(2,1)] by (simp add: r_def w_def)
  have u: "unat (of_nat (r + n) :: u32) = r + n"
    using b n by (intro unat_of_nat_small) (auto split: if_splits)
  define r' where "r' = (r + n) mod 1024"
  have r': "r' = (if r + n < 1024 then r + n else r + n - 1024)"
    using b n by (auto simp: r'_def le_mod_geq split: if_splits)
  have "(w + 1024 - r') mod 1024 = (w + 1024 - r) mod 1024 - n"
  proof -
    have "r' < 1024" by (simp add: r'_def)
    show ?thesis
      unfolding count_cases [OF b(2) \<open>r' < 1024\<close>] count_cases [OF b(2,1)]
      using r' n b by (simp split: if_splits) presburger
  qed
  moreover have "ring_slice (data_buffer s) r' m = ring_slice (data_buffer s) (r + n) m" for m
    using ring_slice_mod [of "data_buffer s" "r + n" m] b(3) by (simp add: r'_def)
  moreover define x :: u32 where "x = of_nat (r + n) AND of_nat (DATA_BUF_CNT - 1)"
  moreover have "unat x = r'" by (simp only: x_def unat_and_1023 u r'_def)
  ultimately show ?thesis
    unfolding pending229_def drop_ring_slice r_def [symmetric] w_def [symmetric] x_def [symmetric]
    by (simp flip: r_def w_def)
qed

lemma task_spec229:
  assumes wf: "ina_wf s"
  defines "rb \<equiv> usb_tx_rb s" and "s' \<equiv> task_data_out s"
  defines "free \<equiv> unat (rb_size rb) - length (rb_bytes rb)"
  shows "ina_wf s' \<and>
    (if length (pending229 s) < 40 then s' = s
     else pending229 s' = drop 40 (pending229 s) \<and>
       rb_bytes (usb_tx_rb s') = rb_bytes rb @ take free (block229 (take 40 (pending229 s))) \<and>
       rb_size (usb_tx_rb s') = rb_size rb \<and>
       blk_read_count s' = blk_read_count s + (if 122 \<le> free then 1 else 0) \<and>
       blk_overflow_cnt s' = blk_overflow_cnt s + (if 122 \<le> free then 0 else 1))"
proof (cases "length (pending229 s) < 40")
  case True
  with task_idle229 [OF wf True] wf show ?thesis by (simp add: s'_def)
next
  case False
  define t where "t = s\<lparr>data_blk_out := concat (map sample_top24 (take 40 (pending229 s))),
      data_buffer_rd_ptr :=
        of_nat (unat (data_buffer_rd_ptr s) + 40) AND of_nat (DATA_BUF_CNT - 1)\<rparr>"
  have s': "s' = send_block t"
    using task_packs229 [OF wf] False unfolding s'_def t_def by linarith
  have len: "length (take 40 (pending229 s)) = 40" using False by simp
  have t: "rb_wf (usb_tx_rb t)" "length (data_blk_out t) = 120" "usb_tx_rb t = rb"
    using wf len by (simp_all add: t_def ina_wf_def rb_def)
  have ob: "out_bytes (data_blk_out t) = block229 (take 40 (pending229 s))"
    by (simp add: t_def out_bytes_block)
  obtain g where g: "rb_wf g" "rb_size g = rb_size rb"
    "rb_bytes g = rb_bytes rb @ take free (block229 (take 40 (pending229 s)))"
    "s' = (if 122 \<le> free
       then t\<lparr>usb_tx_rb := g, blk_read_count := blk_read_count t + 1\<rparr>
       else t\<lparr>usb_tx_rb := g, blk_overflow_cnt := blk_overflow_cnt t + 1\<rparr>)"
    using send_block_spec [OF t(1,2)] unfolding t(3) ob free_def s' by metis
  have p: "pending229 s' = drop 40 (pending229 s)"
    using pending_step [OF wf, of 40] False
    by (simp add: g(4) t_def pending229_def)
  have rp: "data_buffer_rd_ptr t =
      of_nat (unat (data_buffer_rd_ptr s) + 40) AND of_nat (DATA_BUF_CNT - 1)"
    by (simp add: t_def)
  have "unat (data_buffer_rd_ptr t) < 1024"
    by (simp only: rp unat_and_1023 mod_less_divisor zero_less_numeral)
  then have "ina_wf s'"
    using wf g(1) t(2) unfolding g(4) ina_wf_def by (auto simp: t_def)
  with p g False show ?thesis by (auto simp: t_def)
qed

lemma set_cfg_simps [simp]:
  "cfg_ina (set_cfg f s) = f (cfg_ina s)" "timer1 (set_cfg f s) = timer1 s"
  "spi_rdata (set_cfg f s) = spi_rdata s" "bl_log (set_cfg f s) = bl_log s"
  "bl_pos (set_cfg f s) = bl_pos s" "data_buffer (set_cfg f s) = data_buffer s"
  "data_buffer_wr_ptr (set_cfg f s) = data_buffer_wr_ptr s"
  "data_buffer_rd_ptr (set_cfg f s) = data_buffer_rd_ptr s"
  "data_blk_out (set_cfg f s) = data_blk_out s" "usb_tx_rb (set_cfg f s) = usb_tx_rb s"
  by (simp_all add: set_cfg_def)

lemma put_log_simps [simp]:
  "cfg_ina (put_log x s) = cfg_ina s" "timer1 (put_log x s) = timer1 s"
  "spi_rdata (put_log x s) = spi_rdata s" "bl_log (put_log x s) = bl_log s @ [x]"
  "bl_pos (put_log x s) = bl_pos s" "data_buffer (put_log x s) = data_buffer s"
  "data_buffer_wr_ptr (put_log x s) = data_buffer_wr_ptr s"
  "data_buffer_rd_ptr (put_log x s) = data_buffer_rd_ptr s"
  "data_blk_out (put_log x s) = data_blk_out s" "usb_tx_rb (put_log x s) = usb_tx_rb s"
  by (simp_all add: put_log_def)

lemma spi_put_simps [simp]:
  "cfg_ina (spi_put env v s) = cfg_ina s" "timer1 (spi_put env v s) = timer1 s"
  "spi_rdata (spi_put env v s) = spi_in (env (bl_pos s)) v"
  "bl_log (spi_put env v s) = bl_log s @ [Spi_word v]"
  "bl_pos (spi_put env v s) = Suc (bl_pos s)" "data_buffer (spi_put env v s) = data_buffer s"
  "data_buffer_wr_ptr (spi_put env v s) = data_buffer_wr_ptr s"
  "data_buffer_rd_ptr (spi_put env v s) = data_buffer_rd_ptr s"
  "data_blk_out (spi_put env v s) = data_blk_out s" "usb_tx_rb (spi_put env v s) = usb_tx_rb s"
  by (simp_all add: spi_put_def)

lemma ina_wf_frame:
  "data_buffer s' = data_buffer s \<Longrightarrow> data_buffer_wr_ptr s' = data_buffer_wr_ptr s \<Longrightarrow>
   data_buffer_rd_ptr s' = data_buffer_rd_ptr s \<Longrightarrow> data_blk_out s' = data_blk_out s \<Longrightarrow>
   usb_tx_rb s' = usb_tx_rb s \<Longrightarrow> ina_wf s' = ina_wf s"
  by (simp add: ina_wf_def)

text \<open>The interrupt appends one sample; at 1023 waiting samples the ring laps and looks empty.\<close>

lemma isr_spec:
  fixes env :: bl_env
  assumes wf: "ina_wf s"
  defines "s' \<equiv> timer1_isr env s"
  defines "x \<equiv> push_bit 8 (spi_rdata s) OR shunt (cfg_ina s)"
  shows "ina_wf s' \<and> cfg_ina s' = cfg_ina s \<and> data_buffer_rd_ptr s' = data_buffer_rd_ptr s \<and>
    usb_tx_rb s' = usb_tx_rb s \<and> bl_pos s' = Suc (bl_pos s) \<and>
    bl_log s' = bl_log s @ [Spi_word (INARD24B (next_reg s))] \<and>
    spi_rdata s' = spi_in (env (bl_pos s)) (INARD24B (next_reg s)) \<and>
    pending229 s' = (if buf_enable (cfg_ina s) = 0 then pending229 s
      else if length (pending229 s) = 1023 then [] else pending229 s @ [x]) \<and>
    data_buffer_wr_ptr s' = (if buf_enable (cfg_ina s) = 0 then data_buffer_wr_ptr s
      else of_nat ((unat (data_buffer_wr_ptr s) + 1) mod 1024))"
proof (cases "buf_enable (cfg_ina s) = 0")
  case True
  then have s': "s' = spi_put env (INARD24B (next_reg s)) s"
    by (simp add: s'_def timer1_isr_def Let_def)
  have "ina_wf s' = ina_wf s" unfolding s' by (rule ina_wf_frame) simp_all
  with wf True show ?thesis by (simp add: s' pending229_def)
next
  case False
  define r w where "r = unat (data_buffer_rd_ptr s)" and "w = unat (data_buffer_wr_ptr s)"
  have b: "r < 1024" "w < 1024" "length (data_buffer s) = 1024"
    using wf by (simp_all add: ina_wf_def r_def w_def)
  define m where "m = (w + 1024 - r) mod 1024"
  have m: "m = (if w < r then 1024 - r + w else w - r)" "m < 1024"
    unfolding m_def using count_cases [OF b(2,1)] by simp_all
  define v :: u32 where "v = (data_buffer_wr_ptr s + 1) AND of_nat (DATA_BUF_CNT - 1)"
  have "unat (data_buffer_wr_ptr s + 1) = w + 1"
    using b(2) unat_plus_nowrap [of "data_buffer_wr_ptr s" 1] by (simp add: w_def)
  then have uv: "unat v = (w + 1) mod 1024" by (simp only: v_def unat_and_1023)
  have v: "v = of_nat ((w + 1) mod 1024)" unfolding uv [symmetric] by (rule word_unat_eq_iff [THEN iffD2]) simp
  have s': "s' = (spi_put env (INARD24B (next_reg s)) s)\<lparr>data_buffer := (data_buffer s)[w := x],
      data_buffer_wr_ptr := v\<rparr>"
    using False by (simp add: s'_def timer1_isr_def Let_def x_def v_def w_def)
  have wr: "w = (r + m) mod 1024"
    using m(1) b by (auto simp: le_mod_geq split: if_splits)
  have cnt: "((w + 1) mod 1024 + 1024 - r) mod 1024 = (if m = 1023 then 0 else Suc m)"
  proof -
    have "(w + 1) mod 1024 = (if w = 1023 then 0 else w + 1)" using b(2) by auto
    moreover have "(w + 1) mod 1024 < 1024" by simp
    ultimately show ?thesis
      using count_cases [of "(w + 1) mod 1024" r] b m(1) by (auto split: if_splits)
  qed
  have "pending229 s' = (if m = 1023 then [] else pending229 s @ [x])"
  proof -
    have "pending229 s' = ring_slice ((data_buffer s)[w := x]) r (if m = 1023 then 0 else Suc m)"
      unfolding pending229_def s' using cnt by (simp add: uv flip: r_def)
    moreover have "ring_slice ((data_buffer s)[w := x]) r (Suc m) =
        ring_slice (data_buffer s) r m @ [x]"
      using ring_slice_push [of m "data_buffer s" r x] b m(2) by (simp add: wr)
    ultimately show ?thesis by (simp add: pending229_def m_def r_def w_def)
  qed
  moreover have "length (pending229 s) = m" by (simp add: m_def r_def w_def)
  moreover have "ina_wf s'"
    using wf uv by (simp add: ina_wf_def s')
  ultimately show ?thesis using False v by (simp add: s' w_def)
qed

section \<open>Start of a measurement\<close>

lemma wait_ready_frame: "wait_ready env te ts s = Some s' \<Longrightarrow> \<exists>p. s' = s\<lparr>bl_pos := p\<rparr>"
proof (induction rule: wait_ready.raw_induct [where P = "\<lambda>env te ts s s'. \<exists>p. s' = s\<lparr>bl_pos := p\<rparr>",
    rotated, consumes 1, case_names step])
  case (step wr env te ts s s')
  define t1 where "t1 = s\<lparr>bl_pos := bl_pos s + 1\<rparr>"
  define t2 where "t2 = s\<lparr>bl_pos := bl_pos s + 2\<rparr>"
  have "s' = t1 \<or> s' = t2 \<or> wr env te ts t2 = Some s'"
    using step(2) by (auto simp: get_mtime_def get_alert_def Let_def t1_def t2_def split: if_splits)
  moreover have "\<exists>p. s' = s\<lparr>bl_pos := p\<rparr>" if "wr env te ts t2 = Some s'"
    using step(1) [OF that] by (auto simp: t2_def)
  ultimately show ?case unfolding t1_def t2_def by blast
qed

text \<open>The microsecond counter runs: from any point on, every difference is reached.\<close>

definition bl_clock :: "bl_env \<Rightarrow> bool" where
  "bl_clock env \<longleftrightarrow> (\<forall>p q n. \<exists>k. n \<le> mtime (env (q + 2 * k)) - mtime (env p))"

lemma wait_ready_total:
  "te < mtime (env (bl_pos s + 2 * k)) - ts \<Longrightarrow> \<exists>s'. wait_ready env te ts s = Some s'"
proof (induction k arbitrary: s)
  case 0
  then show ?case by (subst wait_ready.simps) (simp add: get_mtime_def)
next
  case (Suc k)
  let ?t = "s\<lparr>bl_pos := bl_pos s + 2\<rparr>"
  have "te < mtime (env (bl_pos ?t + 2 * k)) - ts" using Suc.prems(1) by simp
  then obtain s' where s': "wait_ready env te ts ?t = Some s'" using Suc.IH by blast
  then have "wait_ready env te ts (s\<lparr>bl_pos := Suc (Suc (bl_pos s))\<rparr>) = Some s'" by simp
  then show ?case by (subst wait_ready.simps) (simp add: get_mtime_def get_alert_def Let_def)
qed

lemma freq_index_spec:
  "freq_index f \<le> 7 \<and> (freq_index f < 7 \<longrightarrow> ina229_tab_freg ! freq_index f \<le> f) \<and>
   (\<forall>j < freq_index f. f < ina229_tab_freg ! j)"
proof (cases "find (\<lambda>i. f \<ge> ina229_tab_freg ! i) [0..<7]")
  case None
  then have "\<forall>j < 7. f < ina229_tab_freg ! j" by (auto simp: find_None_iff not_le)
  with None show ?thesis by (simp add: freq_index_def)
next
  case (Some i)
  then have "i < 7" "ina229_tab_freg ! i \<le> f" "\<forall>j < i. f < ina229_tab_freg ! j"
    by (auto simp: find_Some_iff not_le)
  with Some show ?thesis by (simp add: freq_index_def)
qed

definition period_us :: "dev_adc_cfg_t \<Rightarrow> u32" where
  "period_us cfg = ucast (ina229_tab_time_us ! freq_index (smpr cfg))"

lemma period_bounds: "50 \<le> unat (period_us cfg) \<and> unat (period_us cfg) \<le> 4120"
proof -
  have "freq_index (smpr cfg) \<in> {0, 1, 2, 3, 4, 5, 6, 7}"
    using freq_index_spec [of "smpr cfg"] by auto
  then show ?thesis by (auto simp: period_us_def ina229_tab_time_us_def)
qed

text \<open>What the start has written to the chip and the timer, and the state it leaves.\<close>

definition start_log :: "dev_adc_cfg_t \<Rightarrow> cfg_ina_t \<Rightarrow> bl_out list" where
  "start_log cfg c =
     [Timer_stop, Spi_width 24, Spi_word (INAWR16B INA229_RA_CONFIG 0x8000), Delay_us 300,
      Spi_word (INAWR16B INA229_RA_CONFIG (ucast (r_shunt c))),
      Spi_word (INAWR16B INA229_RA_DIAG_ALRT 0x4000),
      Spi_word (INAWR16B INA229_RA_ADC_CONFIG (ucast (r_config c))), Spi_width 32,
      Timer_reset, Timer_period (period_us cfg), Irq_off,
      Spi_word (INARD24B (if chnls c = 1 then INA229_RA_VSHUNT else INA229_RA_VBUS)),
      Irq_on, Timer_start]"

lemma start_config_simps [simp]:
  "inited (start_config cfg c) = inited c" "buf_enable (start_config cfg c) = buf_enable c"
  "shunt (start_config cfg c) = shunt c" "r_alert (start_config cfg c) = 0x4000"
  "r_shunt (start_config cfg c) = (if sh cfg \<noteq> 0 then 0x10 else 0)"
  "freq (start_config cfg c) = ina229_tab_freg ! freq_index (smpr cfg)"
  "chnls (start_config cfg c) = (if chnl cfg = 3 then 3 else if chnl cfg = 2 then 2 else 1)"
  by (simp_all add: start_config_def Let_def)

lemma start_config_buf:
  "start_config cfg (c\<lparr>buf_enable := b\<rparr>) = (start_config cfg c)\<lparr>buf_enable := b\<rparr>"
  by (simp add: start_config_def Let_def)

lemma start_spec229:
  fixes s :: ina and cfg :: dev_adc_cfg_t
  assumes "bl_clock env" "inited (cfg_ina s) \<noteq> 0" "timer1 s"
  defines "c \<equiv> start_config cfg (cfg_ina s)"
  obtains p where "ina229_start env cfg s = Some (0,
    s\<lparr>cfg_ina := c\<lparr>buf_enable := 1\<rparr>, blk_read_count := 0, blk_overflow_cnt := 0,
      bl_log := bl_log s @ start_log cfg c, bl_pos := Suc p,
      spi_rdata := spi_in (env p)
        (INARD24B (if chnls c = 1 then INA229_RA_VSHUNT else INA229_RA_VBUS)),
      data_buffer_wr_ptr := 0, data_buffer_rd_ptr := 0\<rparr>)"
proof -
  define q where "q = Suc (Suc (Suc (Suc (bl_pos s))))"
  define te where "te = (if chnls c = 3 then period_us cfg + 512 + period_us cfg
    else period_us cfg + 512)"
  define s1 where "s1 = s\<lparr>blk_read_count := 0, blk_overflow_cnt := 0,
    cfg_ina := c\<lparr>buf_enable := 0\<rparr>,
    spi_rdata := spi_in (env (Suc (Suc (Suc (bl_pos s)))))
      (INAWR16B INA229_RA_ADC_CONFIG (ucast (r_config c))),
    bl_pos := Suc q, bl_log := bl_log s @ take 11 (start_log cfg c)\<rparr>"
  have "unat te + 1 < 2 ^ 32"
    using period_bounds [of cfg] by (auto simp: te_def unat_word_ariths)
  then have te: "unat (te + 1) = unat te + 1" using unat_plus_nowrap [of te 1] by simp
  obtain k where "te + 1 \<le> mtime (env (bl_pos s1 + 2 * k)) - mtime (env q)"
    using assms(1) unfolding bl_clock_def by blast
  then have "te < mtime (env (bl_pos s1 + 2 * k)) - mtime (env q)"
    using te by (simp add: word_le_nat_alt word_less_nat_alt)
  then obtain s2 where s2: "wait_ready env te (mtime (env q)) s1 = Some s2"
    using wait_ready_total by blast
  with wait_ready_frame obtain p where p: "s2 = s1\<lparr>bl_pos := p\<rparr>" by blast
  show thesis
  proof (rule that [of p])
    show "ina229_start env cfg s = Some (0,
      s\<lparr>cfg_ina := c\<lparr>buf_enable := 1\<rparr>, blk_read_count := 0, blk_overflow_cnt := 0,
        bl_log := bl_log s @ start_log cfg c, bl_pos := Suc p,
        spi_rdata := spi_in (env p)
          (INARD24B (if chnls c = 1 then INA229_RA_VSHUNT else INA229_RA_VBUS)),
        data_buffer_wr_ptr := 0, data_buffer_rd_ptr := 0\<rparr>)"
    proof -
      have nz: "period_us cfg \<noteq> 0" using period_bounds [of cfg] by auto
      have al: "r_alert c = 0x4000" by (simp add: c_def)
      have ch: "chnls c = 3 \<or> chnls c = 2 \<or> chnls c = 1" by (simp add: c_def)
      have "start_setup env cfg s = (mtime (env q), te, s1)"
        using assms(3) nz
        by (simp add: start_setup_def start_chip_def spi_poll_send_def spi_put_def put_log_def
            set_cfg_def get_mtime_def timer_init_def Let_def start_config_buf s1_def start_log_def
            te_def q_def al flip: c_def period_us_def)
      then have "ina229_start env cfg s = Some (0, start_run env s2)"
        using assms(2) by (simp add: ina229_start_def s2)
      then show ?thesis using ch
        by (auto simp: p s1_def start_run_def Let_def first_reg_def spi_put_def put_log_def set_cfg_def start_log_def)
    qed
  qed
qed

section \<open>Sampling after a start\<close>

text \<open>
  The register sample \<open>k\<close> belongs to: with both channels the bus voltage and the shunt voltage
  alternate, starting with the bus voltage.
\<close>

definition sample_reg :: "dev_adc_cfg_t \<Rightarrow> nat \<Rightarrow> u32" where
  "sample_reg cfg k =
     (if chnl cfg = 3 then (if even k then INA229_RA_VBUS else INA229_RA_VSHUNT)
      else if chnl cfg = 2 then INA229_RA_VBUS else INA229_RA_VSHUNT)"

lemma and_1_odd: "(of_nat n AND 1 :: u32) \<noteq> 0 \<longleftrightarrow> odd n"
  by (simp add: and_one_eq mod_2_eq_odd)

lemma next_reg_sample:
  "data_buffer_wr_ptr s = of_nat n \<Longrightarrow> chnls (cfg_ina s) = chnls (start_config cfg c) \<Longrightarrow>
   next_reg s = sample_reg cfg (Suc n)"
  by (simp add: next_reg_def sample_reg_def and_1_odd)

lemma isr_run:
  fixes env :: bl_env and cfg :: dev_adc_cfg_t
  assumes "ina_wf s" "buf_enable (cfg_ina s) \<noteq> 0" "shunt (cfg_ina s) = 0"
    "chnls (cfg_ina s) = chnls (start_config cfg c)" "pending229 s = []"
    "data_buffer_wr_ptr s = 0" "bl_pos s = Suc p"
    "spi_rdata s = spi_in (env p) (INARD24B (sample_reg cfg 0))"
  defines "answer k \<equiv> spi_in (env (p + k)) (INARD24B (sample_reg cfg k))"
  shows "n \<le> 1023 \<Longrightarrow> (let t = (timer1_isr env ^^ n) s in
    ina_wf t \<and> cfg_ina t = cfg_ina s \<and> bl_pos t = Suc (p + n) \<and> spi_rdata t = answer n \<and>
    data_buffer_wr_ptr t = of_nat n \<and> pending229 t = map (\<lambda>k. push_bit 8 (answer k)) [0..<n])"
proof (induction n)
  case 0
  then show ?case using assms by simp
next
  case (Suc n)
  define t where "t = (timer1_isr env ^^ n) s"
  have t: "ina_wf t" "cfg_ina t = cfg_ina s" "bl_pos t = Suc (p + n)" "spi_rdata t = answer n"
    "data_buffer_wr_ptr t = of_nat n" "pending229 t = map (\<lambda>k. push_bit 8 (answer k)) [0..<n]"
    using Suc.IH Suc.prems unfolding Let_def t_def by simp_all
  have n: "unat (of_nat n :: u32) = n" using Suc.prems by (intro unat_of_nat_small) simp
  have "next_reg t = sample_reg cfg (Suc n)"
    using next_reg_sample [of t n cfg c] t(2,5) assms(4) by simp
  then have a: "spi_in (env (bl_pos t)) (INARD24B (next_reg t)) = answer (Suc n)"
    by (simp add: t(3) answer_def)
  have len: "length (pending229 t) = n" by (simp only: t(6) length_map length_upt)
  have "(timer1_isr env ^^ Suc n) s = timer1_isr env t" by (simp add: t_def)
  moreover have "(n + 1) mod 1024 = Suc n" using Suc.prems by simp
  ultimately show ?case
    using isr_spec [OF t(1), of env] a len Suc.prems assms(2,3)
    by (simp add: Let_def t n del: length_pending229)
qed

text \<open>The three bytes packed for a sample are the low three bytes of the chip's answer.\<close>

lemma sample_top24_answer: "sample_top24 (push_bit 8 x) = take 3 (le32 x)"
proof -
  have "ucast (drop_bit 8 (push_bit 8 x)) = (ucast x :: u8)"
    "ucast (drop_bit 16 (push_bit 8 x)) = (ucast (drop_bit 8 x) :: u8)"
    "ucast (drop_bit 24 (push_bit 8 x)) = (ucast (drop_bit 16 x) :: u8)"
    by (rule bit_word_eqI; auto simp: bit_ucast_iff bit_drop_bit_eq bit_push_bit_iff)+
  then show ?thesis by (simp add: sample_top24_def le32_def)
qed

section \<open>Properties\<close>

text \<open>
  C33: After a start, the samples waiting after \<open>n\<close> interrupts are the chip's answers to the
  registers asked for, one for one and in order: with both channels bus voltage and shunt voltage
  alternate, starting with the bus voltage; with one channel it is always that register. The
  three bytes stored for a sample are the 24 result bits of the answer, low byte first.
\<close>

theorem ina229_sampling:
  assumes "bl_clock env" "ina_wf s" "inited (cfg_ina s) \<noteq> 0" "timer1 s" "shunt (cfg_ina s) = 0"
    "n \<le> 1023"
  shows "\<exists>s1 p. ina229_start env cfg s = Some (0, s1) \<and> ina_wf ((timer1_isr env ^^ n) s1) \<and>
    map sample_top24 (pending229 ((timer1_isr env ^^ n) s1)) =
      map (\<lambda>k. take 3 (le32 (spi_in (env (p + k)) (INARD24B (sample_reg cfg k))))) [0..<n]"
proof -
  let ?c = "start_config cfg (cfg_ina s)"
  obtain p where st: "ina229_start env cfg s = Some (0,
    s\<lparr>cfg_ina := ?c\<lparr>buf_enable := 1\<rparr>, blk_read_count := 0, blk_overflow_cnt := 0,
      bl_log := bl_log s @ start_log cfg ?c, bl_pos := Suc p,
      spi_rdata := spi_in (env p)
        (INARD24B (if chnls ?c = 1 then INA229_RA_VSHUNT else INA229_RA_VBUS)),
      data_buffer_wr_ptr := 0, data_buffer_rd_ptr := 0\<rparr>)"
    using start_spec229 [OF assms(1,3,4)] .
  define s1 where "s1 = s\<lparr>cfg_ina := ?c\<lparr>buf_enable := 1\<rparr>, blk_read_count := 0, blk_overflow_cnt := 0,
      bl_log := bl_log s @ start_log cfg ?c, bl_pos := Suc p,
      spi_rdata := spi_in (env p)
        (INARD24B (if chnls ?c = 1 then INA229_RA_VSHUNT else INA229_RA_VBUS)),
      data_buffer_wr_ptr := 0, data_buffer_rd_ptr := 0\<rparr>"
  have s1: "ina_wf s1" "buf_enable (cfg_ina s1) \<noteq> 0" "shunt (cfg_ina s1) = 0"
    "chnls (cfg_ina s1) = chnls (start_config cfg (cfg_ina s))" "pending229 s1 = []"
    "data_buffer_wr_ptr s1 = 0" "bl_pos s1 = Suc p"
    "spi_rdata s1 = spi_in (env p) (INARD24B (sample_reg cfg 0))"
    using assms(2,5) by (simp_all add: s1_def ina_wf_def pending229_def sample_reg_def)
  have run: "ina_wf ((timer1_isr env ^^ n) s1)"
    "pending229 ((timer1_isr env ^^ n) s1) =
      map (\<lambda>k. push_bit 8 (spi_in (env (p + k)) (INARD24B (sample_reg cfg k)))) [0..<n]"
    using isr_run [of s1 cfg "cfg_ina s" p env n, OF s1 assms(6)] unfolding Let_def by blast+
  have "ina229_start env cfg s = Some (0, s1)" unfolding s1_def by (rule st)
  with run show ?thesis by (intro exI [of _ s1] exI [of _ p]) (simp add: sample_top24_answer)
qed

abbreviation demo_cfg :: dev_adc_cfg_t where
  "demo_cfg \<equiv> \<lparr>enable = 1, chnl = 3, smpr = 4000, sh = 1\<rparr>"

abbreviation demo_ina :: ina where
  "demo_ina \<equiv> \<lparr>cfg_ina = \<lparr>inited = 1, buf_enable = 0, chnls = 0, shunt = 0, freq = 0, r_shunt = 0,
      r_alert = 0, r_config = 0\<rparr>, timer1 = True, spi_rdata = 0, bl_log = [], bl_pos = 0,
    data_buffer = replicate 1024 0, data_buffer_wr_ptr = 5, data_buffer_rd_ptr = 5,
    data_blk_out = replicate 120 0, blk_read_count = 0, blk_overflow_cnt = 0,
    usb_tx_rb = Ring_Buffer_Init (replicate 4096 0) 4096\<rparr>"

definition demo_bl :: bl_env where
  "demo_bl j = \<lparr>spi_in = (\<lambda>w. if w = INARD24B INA229_RA_VBUS then 0xFF112233 else 0xFF445566),
     mtime = of_nat (j div 2), alert_pin = True, found = True\<rparr>"

lemma demo_bl_clock: "bl_clock demo_bl"
  unfolding bl_clock_def
proof (intro allI)
  fix p q and n :: u32
  let ?k = "unat (n + of_nat (p div 2) - of_nat (q div 2))"
  have "mtime (demo_bl (q + 2 * ?k)) - mtime (demo_bl p) = n" by (simp add: demo_bl_def)
  then show "\<exists>k. n \<le> mtime (demo_bl (q + 2 * k)) - mtime (demo_bl p)" by (metis order_refl)
qed

lemma demo_ina_wf: "ina_wf demo_ina"
  by (simp add: ina_wf_def rb_wf_def Ring_Buffer_Init_def)

theorem ina229_sampling_witness:
  "\<exists>s1. ina229_start demo_bl demo_cfg demo_ina = Some (0, s1) \<and>
    map sample_top24 (pending229 ((timer1_isr demo_bl ^^ 3) s1)) =
      [[0x33, 0x22, 0x11], [0x66, 0x55, 0x44], [0x33, 0x22, 0x11]]"
proof -
  have *: "inited (cfg_ina demo_ina) \<noteq> 0" "timer1 demo_ina" "shunt (cfg_ina demo_ina) = 0"
    "3 \<le> (1023 :: nat)" by simp_all
  have ans: "take 3 (le32 (spi_in (demo_bl j) (INARD24B (sample_reg demo_cfg k)))) =
      (if even k then [0x33, 0x22, 0x11] else [0x66, 0x55, 0x44])" for j k
    by (simp add: demo_bl_def sample_reg_def INARD24B_def regs le32_def)
  have k: "[0..<3] = [0, 1, 2 :: nat]" by (simp add: upt_rec)
  obtain s1 p where "ina229_start demo_bl demo_cfg demo_ina = Some (0, s1)"
    "map sample_top24 (pending229 ((timer1_isr demo_bl ^^ 3) s1)) =
      map (\<lambda>k. take 3 (le32 (spi_in (demo_bl (p + k)) (INARD24B (sample_reg demo_cfg k))))) [0..<3]"
    using ina229_sampling [OF demo_bl_clock demo_ina_wf *] by blast
  then show ?thesis unfolding ans k by (intro exI [of _ s1]) simp
qed

text \<open>
  A start returns, and configures chip and timer alike: the rate is the first entry of the
  table that does not exceed the rate asked for (the slowest if none does), the conversion times
  of bus voltage, shunt voltage and temperature are all set to its index, and the timer period is
  the conversion time of that entry. The mode field selects the channels, averaging is off, and the
  shunt range bit is set exactly when \<open>sh\<close> is not 0. The chip is reset first, and sampling starts
  with an empty ring.
\<close>

theorem ina229_start_configures:
  assumes "bl_clock env" "inited (cfg_ina s) \<noteq> 0" "timer1 s"
  shows "\<exists>s1 i. ina229_start env cfg s = Some (0, s1) \<and> i \<le> 7 \<and>
    (i < 7 \<longrightarrow> ina229_tab_freg ! i \<le> smpr cfg) \<and> (\<forall>j < i. smpr cfg < ina229_tab_freg ! j) \<and>
    freq (cfg_ina s1) = ina229_tab_freg ! i \<and>
    bl_log s1 = bl_log s @ start_log cfg (cfg_ina s1) \<and>
    Timer_period (ucast (ina229_tab_time_us ! i)) \<in> set (bl_log s1) \<and>
    unat (r_config (cfg_ina s1)) =
      (if chnl cfg = 3 then 11 else if chnl cfg = 2 then 9 else 10) * 4096 + i * 512 + i * 64 + i * 8 \<and>
    r_shunt (cfg_ina s1) = (if sh cfg \<noteq> 0 then 0x10 else 0) \<and>
    buf_enable (cfg_ina s1) = 1 \<and> pending229 s1 = []"
proof -
  let ?c = "start_config cfg (cfg_ina s)" and ?i = "freq_index (smpr cfg)"
  obtain p where st: "ina229_start env cfg s = Some (0,
    s\<lparr>cfg_ina := ?c\<lparr>buf_enable := 1\<rparr>, blk_read_count := 0, blk_overflow_cnt := 0,
      bl_log := bl_log s @ start_log cfg ?c, bl_pos := Suc p,
      spi_rdata := spi_in (env p)
        (INARD24B (if chnls ?c = 1 then INA229_RA_VSHUNT else INA229_RA_VBUS)),
      data_buffer_wr_ptr := 0, data_buffer_rd_ptr := 0\<rparr>)"
    using start_spec229 [OF assms] .
  have i: "?i \<in> {0, 1, 2, 3, 4, 5, 6, 7}" using freq_index_spec [of "smpr cfg"] by auto
  have "unat (r_config ?c) =
      (if chnl cfg = 3 then 11 else if chnl cfg = 2 then 9 else 10) * 4096 + ?i * 512 + ?i * 64 + ?i * 8"
    using i by (auto simp: start_config_def Let_def)
  moreover have "start_log cfg (?c\<lparr>buf_enable := 1\<rparr>) = start_log cfg ?c" by (simp add: start_log_def)
  moreover have "Timer_period (ucast (ina229_tab_time_us ! ?i)) \<in> set (start_log cfg ?c)"
    by (simp add: start_log_def period_us_def)
  ultimately show ?thesis unfolding st
    using freq_index_spec [of "smpr cfg"]
    by (intro exI conjI) (auto simp: pending229_def)
qed

theorem ina229_start_configures_witness:
  "\<exists>s1. ina229_start demo_bl demo_cfg demo_ina = Some (0, s1) \<and> freq (cfg_ina s1) = 3571 \<and>
    r_config (cfg_ina s1) = 0xB6D8"
proof -
  have "inited (cfg_ina demo_ina) \<noteq> 0" "timer1 demo_ina" by simp_all
  then obtain s1 i where *: "ina229_start demo_bl demo_cfg demo_ina = Some (0, s1)" "i \<le> 7"
    "i < 7 \<longrightarrow> ina229_tab_freg ! i \<le> smpr demo_cfg" "\<forall>j < i. smpr demo_cfg < ina229_tab_freg ! j"
    "freq (cfg_ina s1) = ina229_tab_freg ! i"
    "unat (r_config (cfg_ina s1)) = 11 * 4096 + i * 512 + i * 64 + i * 8"
    using ina229_start_configures [OF demo_bl_clock, of demo_ina demo_cfg] by auto
  have "i \<in> {0, 1, 2, 3, 4, 5, 6, 7}" using *(2) by auto
  moreover have "\<not> 3 < i"
  proof
    assume "3 < i"
    with *(4) have "smpr demo_cfg < ina229_tab_freg ! 3" by blast
    then show False by (simp add: ina229_tab_freg_def)
  qed
  ultimately have "i = 3" using *(3) by (auto simp: ina229_tab_freg_def)
  with * show ?thesis by (auto simp: ina229_tab_freg_def word_unat_eq_iff)
qed

text \<open>
  C34: One run of the packing task: with fewer than 40 samples waiting it does nothing; otherwise it
  takes the oldest 40 and queues their block, or, when the USB ring buffer has less than 122 bytes
  free, the part of the block that fits. That cut block stays in the stream and is counted as an
  overflow: the host, which finds blocks by their length bytes, loses the framing.
\<close>

theorem task_data_out_block:
  assumes "ina_wf s"
  shows "ina_wf (task_data_out s) \<and>
    (length (pending229 s) < 40 \<longrightarrow> task_data_out s = s) \<and>
    (40 \<le> length (pending229 s) \<longrightarrow>
      (let free = unat (rb_size (usb_tx_rb s)) - length (rb_bytes (usb_tx_rb s));
           blk = block229 (take 40 (pending229 s))
       in length blk = 122 \<and> pending229 (task_data_out s) = drop 40 (pending229 s) \<and>
          rb_bytes (usb_tx_rb (task_data_out s)) = rb_bytes (usb_tx_rb s) @ take free blk \<and>
          blk_overflow_cnt (task_data_out s) =
            blk_overflow_cnt s + (if free < 122 then 1 else 0) \<and>
          blk_read_count (task_data_out s) = blk_read_count s + (if free < 122 then 0 else 1)))"
  using task_spec229 [OF assms] by (auto simp: Let_def simp del: length_pending229)

text \<open>The state with 40 zero samples waiting and 2 bytes free in the ring buffer.\<close>

abbreviation full_ina :: ina where
  "full_ina \<equiv> demo_ina\<lparr>data_buffer_wr_ptr := 45,
     usb_tx_rb := \<lparr>pointer = replicate 4 9, readMirror = 0, readIndex = 0, writeMirror = 0,
       writeIndex = 2, rb_size = 4\<rparr>\<rparr>"

theorem task_data_out_block_witness:
  "rb_bytes (usb_tx_rb (task_data_out full_ina)) = [9, 9, 120, 0x3A] \<and>
   blk_overflow_cnt (task_data_out full_ina) = 1"
proof -
  have "ina_wf full_ina" by (simp add: ina_wf_def rb_wf_def)
  moreover have "length (pending229 full_ina) = 40" by simp
  moreover have "rb_bytes (usb_tx_rb full_ina) = [9, 9]"
    by (simp add: rb_bytes_def Ring_Buffer_Get_Length_def ring_slice_def upt_rec)
  ultimately show ?thesis using task_data_out_block [of full_ina]
    by (simp add: Let_def block229_def regs)
qed

text \<open>
  Every timer interrupt while buffering is on stores the chip's last answer as the newest
  sample and asks for the next register; nothing else of the sampler changes. With 1023 samples
  waiting the write index catches up with the read index, and the whole ring is lost.
\<close>

theorem timer1_isr_appends:
  assumes "ina_wf s" "buf_enable (cfg_ina s) \<noteq> 0"
  shows "ina_wf (timer1_isr env s) \<and> cfg_ina (timer1_isr env s) = cfg_ina s \<and>
    usb_tx_rb (timer1_isr env s) = usb_tx_rb s \<and>
    bl_log (timer1_isr env s) = bl_log s @ [Spi_word (INARD24B (next_reg s))] \<and>
    pending229 (timer1_isr env s) =
      (if length (pending229 s) = 1023 then []
       else pending229 s @ [push_bit 8 (spi_rdata s) OR shunt (cfg_ina s)])"
  using isr_spec [OF assms(1), of env] assms(2) by (auto simp del: length_pending229)

theorem timer1_isr_appends_witness:
  "pending229 (timer1_isr demo_bl (demo_ina\<lparr>cfg_ina := (cfg_ina demo_ina)\<lparr>buf_enable := 1\<rparr>,
      spi_rdata := 0xFF000102\<rparr>)) = [0x00010200] \<and>
   pending229 (timer1_isr demo_bl (demo_ina\<lparr>cfg_ina := (cfg_ina demo_ina)\<lparr>buf_enable := 1\<rparr>,
      data_buffer_wr_ptr := 4\<rparr>)) = []"
proof -
  let ?s = "demo_ina\<lparr>cfg_ina := (cfg_ina demo_ina)\<lparr>buf_enable := 1\<rparr>, spi_rdata := 0xFF000102\<rparr>"
  let ?t = "demo_ina\<lparr>cfg_ina := (cfg_ina demo_ina)\<lparr>buf_enable := 1\<rparr>, data_buffer_wr_ptr := 4\<rparr>"
  have "ina_wf ?s" "ina_wf ?t" by (simp_all add: ina_wf_def rb_wf_def Ring_Buffer_Init_def)
  moreover have "pending229 ?s = []" "length (pending229 ?t) = 1023"
    by (simp_all add: pending229_def)
  ultimately show ?thesis
    using timer1_isr_appends [of ?s demo_bl] timer1_isr_appends [of ?t demo_bl] by simp
qed

lemma wakeup_spec:
  fixes env :: bl_env
  assumes "inited (cfg_ina s) = 0"
  shows "let p = bl_pos s; ok = found (env p) \<and> found (env (p + 1)) \<and> found (env (p + 2)) \<and>
      drop_bit 8 (spi_in (env (p + 3)) (INARD16B INA229_RA_MAN_ID) AND 0x00ffff00) = 0x5449 \<and>
      drop_bit 8 (spi_in (env (p + 4)) (INARD16B INA229_RA_DEV_ID) AND 0x00ffff00) = 0x2291
    in inited (cfg_ina (ina229_wakeup env s)) = (if ok then 1 else 0) \<and>
    buf_enable (cfg_ina (ina229_wakeup env s)) = 0 \<and>
    (\<not> ok \<longrightarrow> last (bl_log (ina229_wakeup env s)) = Pin_reset GPIO_PWR)"
  using assms
  by (auto simp: ina229_wakeup_def ina229_init_def ina229_pins_def get_found_def ina229_identify_def
      ina229_sleep_def timer_init_def spi_poll_send_def set_cfg_def put_log_def spi_put_def Let_def
      eval_nat_numeral)

text \<open>
  Waking the sampler up succeeds exactly if the SDK finds the timer and the SPI port, the port
  accepts its set-up, and the chip answers with the manufacturer and device numbers of an INA229.
  Otherwise the sampler is left off: not initialised, not buffering, power pin driven low.
\<close>

theorem ina229_wakeup_identifies:
  fixes env :: bl_env
  assumes "inited (cfg_ina s) = 0"
  defines "p \<equiv> bl_pos s"
  defines "ok \<equiv> found (env p) \<and> found (env (p + 1)) \<and> found (env (p + 2)) \<and>
    drop_bit 8 (spi_in (env (p + 3)) (INARD16B INA229_RA_MAN_ID) AND 0x00ffff00) = 0x5449 \<and>
    drop_bit 8 (spi_in (env (p + 4)) (INARD16B INA229_RA_DEV_ID) AND 0x00ffff00) = 0x2291"
  shows "inited (cfg_ina (ina229_wakeup env s)) = (if ok then 1 else 0) \<and>
    buf_enable (cfg_ina (ina229_wakeup env s)) = 0 \<and>
    (\<not> ok \<longrightarrow> last (bl_log (ina229_wakeup env s)) = Pin_reset GPIO_PWR)"
  using assms(1) unfolding p_def ok_def by (rule wakeup_spec [unfolded Let_def])

theorem ina229_wakeup_identifies_witness:
  "inited (cfg_ina (ina229_wakeup demo_bl (demo_ina\<lparr>cfg_ina := (cfg_ina demo_ina)\<lparr>inited := 0\<rparr>\<rparr>))) = 0 \<and>
   last (bl_log (ina229_wakeup demo_bl (demo_ina\<lparr>cfg_ina := (cfg_ina demo_ina)\<lparr>inited := 0\<rparr>\<rparr>))) =
     Pin_reset GPIO_PWR"
proof -
  let ?s = "demo_ina\<lparr>cfg_ina := (cfg_ina demo_ina)\<lparr>inited := 0\<rparr>\<rparr>"
  have "drop_bit 8 (spi_in (demo_bl 3) (INARD16B INA229_RA_MAN_ID) AND 0x00ffff00) \<noteq> 0x5449"
    by (simp add: demo_bl_def INARD16B_def INARD24B_def regs)
  then show ?thesis using ina229_wakeup_identifies [of ?s demo_bl] by simp
qed

end
