(* ===== verification/BlApp.thy ===== *)
theory BlApp
  imports Ina229 CdcPort
begin

text \<open>
  The INA229 program of the BL702 port around its sampler: the command interpreter
  (\<open>cmd_decode.c\<close>), the CDC endpoints (\<open>cdc_acm_template.c\<close>) and the main loop (\<open>main.c\<close>). The USB stack
  is a library: starting a transfer on the IN endpoint records its bytes, and the stack calls
  \<open>usbd_cdc_acm_bulk_in\<close> once the transfer is over. The steps of the program and of the interrupts
  are \<open>bl_step\<close>: the rules of \<open>bl_code\<close> and those of the port; each is atomic.
\<close>

section \<open>State\<close>

definition BL_DEV_ID :: u16 where [regs]: "BL_DEV_ID = 0x1023"
definition BL_DEV_VER :: u16 where [regs]: "BL_DEV_VER = 0x0002"
definition CMD_INA_STR :: u8 where [regs]: "CMD_INA_STR = 0x20"
definition CMD_INA_STP :: u8 where [regs]: "CMD_INA_STP = 0x21"

record bl_app = cdc_port +
  sampler :: ina
  cfg_adc :: dev_adc_cfg_t
  bl_send_pkt :: blk_tx_pkt_t

section \<open>Commands\<close>

type_synonym bl_reply = "(u32 \<times> blk_tx_pkt_t \<times> bl_app) option"

definition bl_error :: "blk_tx_pkt_t \<Rightarrow> bl_app \<Rightarrow> bl_reply" where
  "bl_error p a = Some (2, p\<lparr>tx_cmd := tx_cmd p OR CMD_ERR_FLG\<rparr>, a)"

definition bl_ver :: "blk_tx_pkt_t \<Rightarrow> bl_app \<Rightarrow> bl_reply" where
  "bl_ver p a = Some (6, tx_put 0 (le16 BL_DEV_ID @ le16 BL_DEV_VER) p, a)"

definition ina_str_echo :: "u8 list \<Rightarrow> blk_tx_pkt_t \<Rightarrow> blk_tx_pkt_t" where
  "ina_str_echo buf p =
     (let p = tx_put 0 [0, 25] p
      in if rx_size buf \<noteq> 0
         then
           (let p = tx_put 0 [rx_data buf ! 0 AND 3] p
            in if rx_size buf > 1
               then (let p = tx_put 1 [rx_data buf ! 1] p
                     in if tx_data p ! 1 > 0x1f then tx_put 1 [0x1f] p else p)
               else p)
         else p)"

definition bl_ina_str :: "bl_env \<Rightarrow> u8 list \<Rightarrow> blk_tx_pkt_t \<Rightarrow> bl_app \<Rightarrow> bl_reply" where
  "bl_ina_str env buf p a =
     do {
       let p = ina_str_echo buf p;
       let a = a\<lparr>cfg_adc := (cfg_adc a)\<lparr>enable := 1\<rparr>\<rparr>;
       (_, s) \<leftarrow> ina229_start env (cfg_adc a) (sampler a);
       Some (4, p, a\<lparr>sampler := s\<rparr>)
     }"

definition bl_ina_stp :: "bl_env \<Rightarrow> blk_tx_pkt_t \<Rightarrow> bl_app \<Rightarrow> bl_reply" where
  "bl_ina_stp env p a =
     (let a = a\<lparr>cfg_adc := (cfg_adc a)\<lparr>enable := 0\<rparr>\<rparr>
      in Some (2, p, a\<lparr>sampler := snd (ina229_stop env (sampler a))\<rparr>))"

definition bl_ecad :: "bl_env \<Rightarrow> u8 list \<Rightarrow> blk_tx_pkt_t \<Rightarrow> bl_app \<Rightarrow> bl_reply" where
  "bl_ecad env buf p a =
     do {
       a \<leftarrow>
         (if rx_size buf \<noteq> 0
          then do {
            let n = (if rx_size buf > 5 then 5 else unat (rx_size buf));
            let a = a\<lparr>cfg_adc := ina228_cfg_memcpy (cfg_adc a) (rx_data buf) n\<rparr>;
            if rx_data buf ! 0 \<noteq> 0
            then do {
              (_, s) \<leftarrow> ina229_start env (cfg_adc a) (sampler a);
              let a = a\<lparr>sampler := s\<rparr>;
              Some (a\<lparr>cfg_adc := (cfg_adc a)\<lparr>chnl := ucast (chnls (cfg_ina s)), smpr := freq (cfg_ina s)\<rparr>\<rparr>)
            }
            else Some (a\<lparr>sampler := snd (ina229_stop env (sampler a))\<rparr>)
          }
          else Some a);
       Some (7, tx_put 0 (ina228_cfg_bytes (cfg_adc a)) p, a)
     }"

text \<open>\<open>CMD_DEV_CFG\<close> stores one byte but answers with \<open>sizeof(cfg_i2c)\<close> = 38 bytes.\<close>

definition bl_cfg :: "u8 list \<Rightarrow> blk_tx_pkt_t \<Rightarrow> bl_app \<Rightarrow> bl_reply" where
  "bl_cfg buf p a = Some (40, tx_put 0 [rx_data buf ! 0] p, a)"

definition bl_sta :: "blk_tx_pkt_t \<Rightarrow> bl_app \<Rightarrow> bl_reply" where
  "bl_sta p a =
     Some (10, tx_put 0 (le32 (blk_read_count (sampler a)) @ le32 (blk_overflow_cnt (sampler a))) p, a)"

definition bl_pwr :: "bl_env \<Rightarrow> u8 list \<Rightarrow> blk_tx_pkt_t \<Rightarrow> bl_app \<Rightarrow> bl_reply" where
  "bl_pwr env buf p a =
     (if rx_size buf < 2 then bl_error p a
      else
        (let s = sampler a;
             s = (if rx_data buf ! 0 AND 0x01 \<noteq> 0 then ina229_wakeup env s else s);
             s = (if rx_data buf ! 0 AND 0x04 \<noteq> 0 then ina229_sleep env s else s)
         in Some (2, p, a\<lparr>sampler := s\<rparr>)))"

definition bl_switch :: "bl_env \<Rightarrow> u8 list \<Rightarrow> blk_tx_pkt_t \<Rightarrow> bl_app \<Rightarrow> bl_reply" where
  "bl_switch env buf p a =
     (if rx_cmd buf = CMD_DEV_VER then bl_ver p a
      else if rx_cmd buf = CMD_INA_STR then bl_ina_str env buf p a
      else if rx_cmd buf = CMD_INA_STP then bl_ina_stp env p a
      else if rx_cmd buf = CMD_DEV_ECAD then bl_ecad env buf p a
      else if rx_cmd buf = CMD_DEV_CFG then bl_cfg buf p a
      else if rx_cmd buf = CMD_DEV_STA then bl_sta p a
      else if rx_cmd buf = CMD_DEV_PWR then bl_pwr env buf p a
      else bl_error p a)"

definition bl_cmd_decode :: "bl_env \<Rightarrow> u8 list \<Rightarrow> bl_app \<Rightarrow> (u32 \<times> bl_app) option" where
  "bl_cmd_decode env buf a =
     do {
       let p = (bl_send_pkt a)\<lparr>tx_cmd := rx_cmd buf\<rparr>;
       (txlen, p, a) \<leftarrow> bl_switch env buf p a;
       let p = p\<lparr>tx_size := ucast (txlen - 2)\<rparr>;
       Some (txlen, a\<lparr>bl_send_pkt := p\<rparr>)
     }"

section \<open>Endpoints and line state\<close>

definition bl_queue :: "u8 list \<Rightarrow> nat \<Rightarrow> bl_app \<Rightarrow> bl_app" where
  "bl_queue bs n a =
     a\<lparr>sampler := (sampler a)\<lparr>usb_tx_rb := snd (Ring_Buffer_Write (usb_tx_rb (sampler a)) bs (of_nat n))\<rparr>\<rparr>"

definition usbd_cdc_acm_bulk_out :: "bl_env \<Rightarrow> nat \<Rightarrow> bl_app \<Rightarrow> bl_app option" where
  "usbd_cdc_acm_bulk_out env nbytes a =
     do {
       let buf = read_buffer a;
       a \<leftarrow>
         (if nbytes \<ge> 2 \<and> nbytes \<ge> unat (rx_size buf) + 2
          then do {
            (txlen, a) \<leftarrow> bl_cmd_decode env buf a;
            Some (if txlen \<noteq> 0
                  then bl_queue (tx_pkt_bytes (bl_send_pkt a)) (unat (tx_size (bl_send_pkt a)) + 2) a
                  else a)
          }
          else Some a);
       Some (ep_start_read a)
     }"

definition usbd_cdc_acm_set_dtr :: "bl_env \<Rightarrow> bool \<Rightarrow> bl_app \<Rightarrow> bl_app" where
  "usbd_cdc_acm_set_dtr env dtr a =
     (let a = (if dtr
               then (if dtr_enable a = 0 then a\<lparr>sampler := ina229_wakeup env (sampler a)\<rparr> else a)
               else (if dtr_enable a \<noteq> 0 then a\<lparr>sampler := ina229_sleep env (sampler a)\<rparr> else a))
      in a\<lparr>dtr_enable := of_bool dtr\<rparr>)"

definition usb_dc_send_from_ringbuffer :: "bl_app \<Rightarrow> bl_app option" where
  "usb_dc_send_from_ringbuffer a =
     do { (rb, a) \<leftarrow> cdc_send (usb_tx_rb (sampler a)) a;
          Some (a\<lparr>sampler := (sampler a)\<lparr>usb_tx_rb := rb\<rparr>\<rparr>) }"

section \<open>The steps of the program\<close>

definition bl_task :: "bl_app \<Rightarrow> bl_app" where
  "bl_task a = a\<lparr>sampler := task_data_out (sampler a)\<rparr>"

definition ring_free :: "bl_app \<Rightarrow> nat" where
  "ring_free a = unat (rb_size (usb_tx_rb (sampler a))) - length (rb_bytes (usb_tx_rb (sampler a)))"

definition block_offer :: "bl_app \<Rightarrow> (u8 list \<times> nat) list" where
  "block_offer a =
     (if length (pending229 (sampler a)) < 40 then []
      else [(block229 (take 40 (pending229 (sampler a))), ring_free a)])"

definition reply_offer :: "bl_env \<Rightarrow> nat \<Rightarrow> bl_app \<Rightarrow> (u8 list \<times> nat) list" where
  "reply_offer env n a =
     (if n \<ge> 2 \<and> n \<ge> unat (rx_size (read_buffer a)) + 2
      then (case bl_cmd_decode env (read_buffer a) a of
              Some (txlen, a') \<Rightarrow>
                [(take (unat (tx_size (bl_send_pkt a')) + 2) (tx_pkt_bytes (bl_send_pkt a')), ring_free a)]
            | None \<Rightarrow> [])
      else [])"

text \<open>The program's own code and its interrupts, with the frames they offer to the ring buffer.\<close>

inductive bl_code :: "bl_app \<Rightarrow> offers \<Rightarrow> bl_app \<Rightarrow> bool" where
  task: "bl_code a (block_offer a) (bl_task a)"
| timer: "bl_code a [] (a\<lparr>sampler := timer1_isr env (sampler a)\<rparr>)"
| out: "b = a\<lparr>read_buffer := splice_at (read_buffer a) 0 bs\<rparr> \<Longrightarrow> length bs \<le> USBD_RXBUFSIZE \<Longrightarrow>
    usbd_cdc_acm_bulk_out env (length bs) b = Some c \<Longrightarrow> bl_code a (reply_offer env (length bs) b) c"
| dtr: "bl_code a [] (usbd_cdc_acm_set_dtr env d a)"
| rts: "bl_code a [] (usbd_cdc_acm_set_rts d a)"

abbreviation bl_step :: "bl_app cdc_world \<Rightarrow> bl_app cdc_world \<Rightarrow> bool" where
  "bl_step \<equiv> cdc_step bl_code usb_dc_send_from_ringbuffer"

section \<open>What commands leave alone\<close>

definition ina_keeps :: "ina \<Rightarrow> ina \<Rightarrow> bool" where
  "ina_keeps s s' \<longleftrightarrow> (ina_wf s \<longrightarrow> ina_wf s') \<and> usb_tx_rb s' = usb_tx_rb s"

lemma ina_keeps_refl [simp]: "ina_keeps s s"
  by (simp add: ina_keeps_def)

lemma ina_keeps_trans [trans]: "ina_keeps s t \<Longrightarrow> ina_keeps t u \<Longrightarrow> ina_keeps s u"
  by (simp add: ina_keeps_def)

lemma ina_keepsI:
  "data_buffer s' = data_buffer s \<Longrightarrow> data_buffer_wr_ptr s' = data_buffer_wr_ptr s \<Longrightarrow>
   data_buffer_rd_ptr s' = data_buffer_rd_ptr s \<Longrightarrow> data_blk_out s' = data_blk_out s \<Longrightarrow>
   usb_tx_rb s' = usb_tx_rb s \<Longrightarrow> ina_keeps s s'"
  by (simp add: ina_keeps_def ina_wf_def)

lemma put_log_keeps [simp]: "ina_keeps s (put_log x s)"
  by (rule ina_keepsI) simp_all

lemma fold_put_log_keeps [simp]: "ina_keeps s (fold put_log xs s)"
  by (induction xs arbitrary: s) (auto intro: ina_keeps_trans [OF put_log_keeps])

lemma ina229_stop_keeps [simp]: "ina_keeps s (snd (ina229_stop env s))"
  by (rule ina_keepsI) (simp_all add: ina229_stop_def spi_poll_send_def Let_def)

lemma set_cfg_keeps [simp]: "ina_keeps s (set_cfg f s)"
  by (rule ina_keepsI) simp_all

lemma ina229_sleep_keeps [simp]: "ina_keeps s (ina229_sleep env s)"
proof -
  define t where "t = (if inited (cfg_ina s) \<noteq> 0 then snd (ina229_stop env s) else s)"
  have "ina_keeps s t" by (simp add: t_def)
  also have "ina_keeps t (ina229_sleep env s)"
    by (rule ina_keepsI) (simp_all add: ina229_sleep_def Let_def flip: t_def)
  finally show ?thesis .
qed

lemma ina229_init_keeps [simp]: "ina_keeps s (snd (ina229_init env s))"
  by (rule ina_keepsI)
     (auto simp: ina229_init_def ina229_pins_def ina229_identify_def timer_init_def get_found_def
       spi_poll_send_def Let_def)

lemma ina229_wakeup_keeps [simp]: "ina_keeps s (ina229_wakeup env s)"
proof (cases "inited (cfg_ina s) = 0")
  case True
  obtain r t where t: "ina229_init env s = (r, t)" by fastforce
  have "ina_keeps s t" using ina229_init_keeps [of s env] by (simp add: t)
  with True show ?thesis
    by (auto simp: ina229_wakeup_def t intro: ina_keeps_trans [OF _ ina229_sleep_keeps])
qed (simp add: ina229_wakeup_def)

lemma start_setup_keeps: "start_setup env cfg s = (ts, te, s') \<Longrightarrow>
    data_buffer s' = data_buffer s \<and> data_blk_out s' = data_blk_out s \<and> usb_tx_rb s' = usb_tx_rb s"
  by (auto simp: start_setup_def start_chip_def spi_poll_send_def get_mtime_def timer_init_def Let_def
      split: if_splits)

lemma ina229_start_keeps:
  assumes "ina229_start env cfg s = Some (r, s')"
  shows "ina_keeps s s'"
proof (cases "inited (cfg_ina s) = 0")
  case True
  with assms show ?thesis by (simp add: ina229_start_def)
next
  case False
  obtain ts te s1 where s1: "start_setup env cfg s = (ts, te, s1)" by (rule prod_cases3)
  with assms False obtain s2 where s2: "wait_ready env te ts s1 = Some s2" "s' = start_run env s2"
    by (auto simp: ina229_start_def bind_eq_Some_conv)
  obtain p where "s2 = s1\<lparr>bl_pos := p\<rparr>" using wait_ready_frame [OF s2(1)] by blast
  with start_setup_keeps [OF s1] show ?thesis
    by (simp add: s2(2) start_run_def Let_def ina_keeps_def ina_wf_def)
qed

section \<open>Replies\<close>

text \<open>Commands change the sampler and the configuration only.\<close>

definition cmd_keeps :: "bl_app \<Rightarrow> bl_app \<Rightarrow> bool" where
  "cmd_keeps a a' \<longleftrightarrow> ina_keeps (sampler a) (sampler a') \<and> bl_send_pkt a' = bl_send_pkt a \<and>
     read_buffer a' = read_buffer a \<and> write_buffer a' = write_buffer a \<and>
     ep_tx_busy_flag a' = ep_tx_busy_flag a \<and> usb_writes a' = usb_writes a \<and>
     usb_in_flight a' = usb_in_flight a \<and> usb_reads a' = usb_reads a"

definition bl_reply_ok :: "u8 \<Rightarrow> u32 \<Rightarrow> blk_tx_pkt_t \<Rightarrow> bool" where
  "bl_reply_ok c n p \<longleftrightarrow> tx_pkt_wf p \<and> n \<in> {2, 4, 6, 7, 10, 40} \<and>
     (tx_cmd p = c \<or> n = 2 \<and> tx_cmd p = c OR CMD_ERR_FLG)"

lemmas bl_case_defs = bl_error_def bl_ver_def bl_ina_stp_def bl_cfg_def bl_sta_def bl_pwr_def

lemma ina_str_echo_frame [simp]:
  "tx_pkt_wf p \<Longrightarrow> tx_pkt_wf (ina_str_echo buf p)" "tx_cmd (ina_str_echo buf p) = tx_cmd p"
  by (simp_all add: ina_str_echo_def Let_def)

lemma bl_ina_str_ok:
  assumes "bl_ina_str env buf p a = Some (n, p', a')" "tx_pkt_wf p" "tx_cmd p = c"
  shows "bl_reply_ok c n p' \<and> cmd_keeps a a'"
  using assms
  by (auto simp: bl_ina_str_def Let_def bind_eq_Some_conv bl_reply_ok_def cmd_keeps_def
      dest!: ina229_start_keeps)

lemma bl_ecad_ok:
  assumes "bl_ecad env buf p a = Some (n, p', a')" "tx_pkt_wf p" "tx_cmd p = c"
  shows "bl_reply_ok c n p' \<and> cmd_keeps a a'"
  using assms
  by (auto simp: bl_ecad_def Let_def bind_eq_Some_conv bl_reply_ok_def cmd_keeps_def
      dest!: ina229_start_keeps split: if_splits)

lemma bl_switch_ok:
  assumes "bl_switch env buf p a = Some (n, p', a')" "tx_pkt_wf p" "tx_cmd p = c"
  shows "bl_reply_ok c n p' \<and> cmd_keeps a a'"
proof -
  consider (str) "bl_ina_str env buf p a = Some (n, p', a')" | (ecad) "bl_ecad env buf p a = Some (n, p', a')"
    | (rest) "bl_ver p a = Some (n, p', a') \<or> bl_ina_stp env p a = Some (n, p', a') \<or>
        bl_cfg buf p a = Some (n, p', a') \<or> bl_sta p a = Some (n, p', a') \<or>
        bl_pwr env buf p a = Some (n, p', a') \<or> bl_error p a = Some (n, p', a')"
    using assms(1) by (auto simp: bl_switch_def split: if_splits)
  then show ?thesis
  proof cases
    case rest
    then show ?thesis using assms(2,3)
      by (auto simp: bl_case_defs Let_def bl_reply_ok_def cmd_keeps_def
          intro: ina_keeps_trans [OF ina229_wakeup_keeps ina229_sleep_keeps] split: if_splits)
  qed (use bl_ina_str_ok bl_ecad_ok assms(2,3) in blast)+
qed

lemma bl_cmd_decode_ok:
  assumes "bl_cmd_decode env buf a = Some (n, a')" "tx_pkt_wf (bl_send_pkt a)"
  obtains p b where "a' = b\<lparr>bl_send_pkt := p\<rparr>" "cmd_keeps a b" "bl_reply_ok (rx_cmd buf) n p"
    "unat (tx_size p) + 2 = unat n"
proof -
  obtain p b where sw: "bl_switch env buf ((bl_send_pkt a)\<lparr>tx_cmd := rx_cmd buf\<rparr>) a = Some (n, p, b)"
    and a': "a' = b\<lparr>bl_send_pkt := p\<lparr>tx_size := ucast (n - 2)\<rparr>\<rparr>"
    using assms(1) by (auto simp: bl_cmd_decode_def bind_eq_Some_conv)
  have ok: "bl_reply_ok (rx_cmd buf) n p" "cmd_keeps a b"
    using bl_switch_ok [OF sw, of "rx_cmd buf"] assms(2) by simp_all
  show thesis
  proof (rule that [where b = b and p = "p\<lparr>tx_size := ucast (n - 2)\<rparr>"])
    show "bl_reply_ok (rx_cmd buf) n (p\<lparr>tx_size := ucast (n - 2)\<rparr>)"
      using ok(1) by (simp add: bl_reply_ok_def)
    show "unat (tx_size (p\<lparr>tx_size := ucast (n - 2)\<rparr>)) + 2 = unat n"
      using ok(1) by (auto simp: bl_reply_ok_def)
  qed (use a' ok(2) in simp_all)
qed

section \<open>The output stream\<close>

definition bl_wf :: "bl_app \<Rightarrow> bool" where
  "bl_wf a \<longleftrightarrow> ina_wf (sampler a) \<and> tx_pkt_wf (bl_send_pkt a) \<and>
     length (read_buffer a) = USBD_RXBUFSIZE \<and> length (write_buffer a) = USBD_TXBUFSIZE"

abbreviation out_bytes_of :: "bl_app \<Rightarrow> u8 list" where
  "out_bytes_of a \<equiv> rb_bytes (usb_tx_rb (sampler a))"

lemma ring_in_sampler: "bl_wf a \<Longrightarrow> rb_wf (usb_tx_rb (sampler a))"
  by (simp add: bl_wf_def ina_wf_def)

lemma ina_wf_ring: "ina_wf s \<Longrightarrow> rb_wf g \<Longrightarrow> ina_wf (s\<lparr>usb_tx_rb := g\<rparr>)"
  by (simp add: ina_wf_def)

text \<open>The block of the packing task and the replies are frames; the ring takes what fits.\<close>

lemma bl_task_spec:
  assumes "bl_wf a"
  shows "bl_wf (bl_task a) \<and> out_bytes_of (bl_task a) = out_bytes_of a @ accepted (block_offer a) \<and>
    (\<forall>(f, n) \<in> set (block_offer a). frame_ok f)"
proof -
  have "frame_ok (block229 (take 40 (pending229 (sampler a))))" if "40 \<le> length (pending229 (sampler a))"
    using that by (simp add: frame_ok_def block229_def)
  then show ?thesis
    using task_spec229 [of "sampler a"] assms
    by (auto simp: bl_task_def bl_wf_def block_offer_def ring_free_def simp del: length_pending229)
qed

lemma bl_queue_spec:
  assumes "bl_wf a" "n \<le> length bs" "n < 4294967296"
  obtains g where "bl_queue bs n a = a\<lparr>sampler := (sampler a)\<lparr>usb_tx_rb := g\<rparr>\<rparr>" "rb_wf g"
    "rb_bytes g = out_bytes_of a @ take (ring_free a) (take n bs)"
proof -
  have n: "unat (of_nat n :: u32) = n" using assms(3) by (intro unat_of_nat_small) simp
  obtain m g where "Ring_Buffer_Write (usb_tx_rb (sampler a)) bs (of_nat n) = (m, g)"
    "unat m = min n (ring_free a)" "rb_wf g" "rb_bytes g = out_bytes_of a @ take (unat m) bs"
    using rb_write_spec [OF ring_in_sampler [OF assms(1)], of "of_nat n" bs] assms(2)
    unfolding n ring_free_def by auto
  then show thesis by (intro that [of g]) (simp_all add: bl_queue_def min.commute)
qed

lemma cmd_keeps_wf: "cmd_keeps a b \<Longrightarrow> bl_wf a \<Longrightarrow> tx_pkt_wf p \<Longrightarrow> bl_wf (b\<lparr>bl_send_pkt := p\<rparr>)"
  by (simp add: cmd_keeps_def bl_wf_def ina_keeps_def)

lemma bl_out_spec:
  assumes "bl_wf a" "usbd_cdc_acm_bulk_out env n a = Some a'"
  shows "bl_wf a' \<and> out_bytes_of a' = out_bytes_of a @ accepted (reply_offer env n a) \<and>
    (\<forall>(f, k) \<in> set (reply_offer env n a). frame_ok f) \<and> usb_writes a' = usb_writes a \<and>
    usb_in_flight a' = usb_in_flight a \<and> ep_tx_busy_flag a' = ep_tx_busy_flag a"
proof (cases "n \<ge> 2 \<and> n \<ge> unat (rx_size (read_buffer a)) + 2")
  case False
  then have "reply_offer env n a = []" unfolding reply_offer_def by (rule if_not_P)
  moreover have "a' = ep_start_read a"
    using assms(2) unfolding usbd_cdc_acm_bulk_out_def Let_def if_not_P [OF False] by simp
  ultimately show ?thesis using assms(1) by (simp add: ep_start_read_def bl_wf_def)
next
  case True
  then obtain m b where dec: "bl_cmd_decode env (read_buffer a) a = Some (m, b)"
    and a': "a' = ep_start_read (if m \<noteq> 0
      then bl_queue (tx_pkt_bytes (bl_send_pkt b)) (unat (tx_size (bl_send_pkt b)) + 2) b else b)"
    using assms(2) unfolding usbd_cdc_acm_bulk_out_def Let_def if_P [OF True]
    by (auto simp: bind_eq_Some_conv)
  have "tx_pkt_wf (bl_send_pkt a)" using assms(1) by (simp add: bl_wf_def)
  with dec obtain p c where b: "b = c\<lparr>bl_send_pkt := p\<rparr>" "cmd_keeps a c"
    "bl_reply_ok (rx_cmd (read_buffer a)) m p" "unat (tx_size p) + 2 = unat m"
    using bl_cmd_decode_ok by blast
  have p: "tx_pkt_wf p" "m \<in> {2, 4, 6, 7, 10, 40}" using b(3) by (simp_all add: bl_reply_ok_def)
  have len: "unat (tx_size p) + 2 \<le> length (tx_pkt_bytes p)"
    using p unfolding b(4) by (auto simp: tx_pkt_bytes_def tx_pkt_wf_def)
  have lt: "unat (tx_size p) + 2 < 4294967296" using unat_u8_bound [of "tx_size p"] by linarith
  have wb: "bl_wf b" using cmd_keeps_wf [OF b(2) assms(1) p(1)] by (simp add: b(1))
  have m: "m \<noteq> 0" using p(2) by auto
  obtain g where g: "bl_queue (tx_pkt_bytes p) (unat (tx_size p) + 2) b =
      b\<lparr>sampler := (sampler b)\<lparr>usb_tx_rb := g\<rparr>\<rparr>" "rb_wf g"
    "rb_bytes g = out_bytes_of b @ take (ring_free b) (take (unat (tx_size p) + 2) (tx_pkt_bytes p))"
    using bl_queue_spec [OF wb len lt] .
  have same: "usb_tx_rb (sampler b) = usb_tx_rb (sampler a)"
    using b(2) by (simp add: b(1) cmd_keeps_def ina_keeps_def)
  have a'': "a' = ep_start_read (b\<lparr>sampler := (sampler b)\<lparr>usb_tx_rb := g\<rparr>\<rparr>)"
    using a' m g(1) by (simp add: b(1))
  have off: "reply_offer env n a = [(take (unat (tx_size p) + 2) (tx_pkt_bytes p), ring_free a)]"
    unfolding reply_offer_def if_P [OF True] dec by (simp add: b(1))
  have "bl_wf a'" using wb g(2) by (simp add: a'' ep_start_read_def bl_wf_def ina_wf_ring)
  moreover have "frame_ok (take (unat (tx_size p) + 2) (tx_pkt_bytes p))"
    using len by (simp add: frame_ok_def tx_pkt_bytes_def)
  moreover have "ring_free b = ring_free a" by (simp add: ring_free_def same)
  ultimately show ?thesis using g(3) same b(2) off
    by (simp add: a'' ep_start_read_def b(1) cmd_keeps_def)
qed

lemma send_spec229:
  assumes "bl_wf a" "transfer_inv a" "usb_dc_send_from_ringbuffer a = Some a'"
  shows "bl_wf a' \<and> transfer_inv a' \<and>
    concat (usb_writes a') @ out_bytes_of a' = concat (usb_writes a) @ out_bytes_of a \<and>
    out_bytes_of a' = drop 2047 (out_bytes_of a) \<and>
    (out_bytes_of a \<noteq> [] \<longrightarrow> usb_writes a' = usb_writes a @ [take 2047 (out_bytes_of a)]) \<and>
    (out_bytes_of a = [] \<longrightarrow> usb_writes a' = usb_writes a)"
proof -
  obtain rb b where b: "cdc_send (usb_tx_rb (sampler a)) a = Some (rb, b)"
    "a' = b\<lparr>sampler := (sampler b)\<lparr>usb_tx_rb := rb\<rparr>\<rparr>"
    using assms(3) by (auto simp: usb_dc_send_from_ringbuffer_def bind_eq_Some_conv)
  have w: "length (write_buffer a) = USBD_TXBUFSIZE" using assms(1) by (simp add: bl_wf_def)
  note c = cdc_send_spec [OF ring_in_sampler [OF assms(1)] w assms(2) b(1)]
  have f: "bl_app.more b = bl_app.more a \<and> sampler b = sampler a \<and> bl_send_pkt b = bl_send_pkt a \<and> read_buffer b = read_buffer a"
    using b(1) by (auto simp: cdc_send_def ep_start_write_def Let_def split: if_splits prod.splits)
  have "transfer_inv a' = transfer_inv b" by (rule transfer_inv_frame) (simp_all add: b(2))
  moreover have "concat (usb_writes b) @ drop 2047 (out_bytes_of a) = concat (usb_writes a) @ out_bytes_of a"
    using c by metis
  ultimately show ?thesis using c f assms(1) by (simp add: b(2) bl_wf_def ina_wf_ring)
qed

lemma bl_code_spec:
  assumes "bl_code a os a'" "bl_wf a"
  shows "bl_wf a' \<and> out_bytes_of a' = out_bytes_of a @ accepted os \<and> (\<forall>(f, n) \<in> set os. frame_ok f) \<and>
    usb_writes a' = usb_writes a \<and> usb_in_flight a' = usb_in_flight a \<and> ep_tx_busy_flag a' = ep_tx_busy_flag a"
  using assms
proof (induction rule: bl_code.induct)
  case (task a)
  then show ?case using bl_task_spec [of a] by (simp add: bl_task_def)
next
  case (timer a env)
  then show ?case using isr_spec [of "sampler a" env] by (simp add: bl_wf_def)
next
  case (out b a bs env c)
  have "length (splice_at (read_buffer a) 0 bs) = USBD_RXBUFSIZE"
    using out by (subst length_splice_at) (auto simp: bl_wf_def)
  then have "bl_wf b" using out by (simp add: bl_wf_def)
  from bl_out_spec [OF this out(3)] show ?case by (simp add: out(1))
next
  case (dtr a env d)
  let ?a = "usbd_cdc_acm_set_dtr env d a"
  have "ina_keeps (sampler a) (sampler ?a)" by (simp add: usbd_cdc_acm_set_dtr_def Let_def)
  moreover have "read_buffer ?a = read_buffer a" "write_buffer ?a = write_buffer a"
    "bl_send_pkt ?a = bl_send_pkt a" "usb_writes ?a = usb_writes a" "usb_in_flight ?a = usb_in_flight a"
    "ep_tx_busy_flag ?a = ep_tx_busy_flag a"
    by (simp_all add: usbd_cdc_acm_set_dtr_def Let_def)
  ultimately show ?case using dtr by (simp add: bl_wf_def ina_keeps_def)
next
  case (rts a d)
  then show ?case by (simp add: bl_wf_def usbd_cdc_acm_set_rts_def)
qed

interpretation bl: cdc_program bl_wf "\<lambda>a. usb_tx_rb (sampler a)" bl_code usb_dc_send_from_ringbuffer
proof unfold_locales
  fix a a' :: bl_app and os f n
  assume c: "bl_code a os a'" "bl_wf a"
  note s = bl_code_spec [OF c]
  show "bl_wf a'" "out_bytes_of a' = out_bytes_of a @ accepted os"
    "usb_writes a' = usb_writes a \<and> usb_in_flight a' = usb_in_flight a \<and> ep_tx_busy_flag a' = ep_tx_busy_flag a"
    using s by simp_all
  show "frame_ok f" if "(f, n) \<in> set os" using s that by auto
next
  fix a a' :: bl_app
  assume "usb_dc_send_from_ringbuffer a = Some a'" "bl_wf a" "transfer_inv a"
  then show "bl_wf a' \<and> transfer_inv a' \<and>
    concat (usb_writes a') @ out_bytes_of a' = concat (usb_writes a) @ out_bytes_of a"
    using send_spec229 by blast
next
  fix a :: bl_app and n
  assume "bl_wf a"
  then show "bl_wf (usbd_cdc_acm_bulk_in n (a\<lparr>usb_in_flight := None\<rparr>)) \<and>
    usb_tx_rb (sampler (usbd_cdc_acm_bulk_in n (a\<lparr>usb_in_flight := None\<rparr>))) = usb_tx_rb (sampler a)"
    by (simp add: bl_wf_def usbd_cdc_acm_bulk_in_def ep_start_write_def)
qed

section \<open>Properties\<close>

text \<open>
  C35: The stream of the INA229 program: in whatever order the packing task, the sender, commands, timer
  interrupts, finished transfers and changes of the line state follow each other, the bytes handed to
  the USB stack, then the bytes in the ring buffer, are what the ring buffer took of the frames
  offered to it, in order: blocks of samples and replies, each starting with its own length. If every
  frame was taken whole, the host receives exactly the frames.
\<close>

theorem bl_stream:
  assumes "bl_step\<^sup>*\<^sup>* w0 w" "bl_wf (program w0)" "offered w0 = []" "usb_writes (program w0) = []"
    "out_bytes_of (program w0) = []" "usb_in_flight (program w0) = None" "\<not> ep_tx_busy_flag (program w0)"
  shows "concat (map (\<lambda>(f, n). take n f) (offered w)) =
      concat (usb_writes (program w)) @ out_bytes_of (program w) \<and>
    (\<forall>(f, n) \<in> set (offered w). 2 \<le> length f \<and> length f = 2 + unat (f ! 0)) \<and>
    ((\<forall>(f, n) \<in> set (offered w). length f \<le> n) \<longrightarrow>
      concat (map fst (offered w)) = concat (usb_writes (program w)) @ out_bytes_of (program w))"
  using assms by (rule bl.stream)

abbreviation demo_pkt :: blk_tx_pkt_t where
  "demo_pkt \<equiv> \<lparr>tx_size = 0, tx_cmd = 0, tx_data = replicate 232 0\<rparr>"

definition demo_blapp :: bl_app where
  "demo_blapp = \<lparr>read_buffer = replicate 2048 0, write_buffer = replicate 2048 0, ep_tx_busy_flag = False,
     dtr_enable = 0, rts_enable = 0, usb_writes = [], usb_in_flight = None, usb_reads = 0,
     sampler = demo_ina\<lparr>data_buffer_wr_ptr := 45\<rparr>, cfg_adc = demo_cfg, bl_send_pkt = demo_pkt\<rparr>"

lemma demo_blapp_facts: "bl_wf demo_blapp" "out_bytes_of demo_blapp = []"
  "usb_writes demo_blapp = []" "usb_in_flight demo_blapp = None" "\<not> ep_tx_busy_flag demo_blapp"
  "length (pending229 (sampler demo_blapp)) = 40" "rb_size (usb_tx_rb (sampler demo_blapp)) = 4096"
  by (simp_all add: demo_blapp_def bl_wf_def ina_wf_def rb_wf_def Ring_Buffer_Init_def tx_pkt_wf_def
      USBD_RXBUFSIZE_def USBD_TXBUFSIZE_def rb_bytes_def Ring_Buffer_Get_Length_def)

abbreviation demo_block :: "u8 list" where
  "demo_block \<equiv> block229 (take 40 (pending229 (sampler demo_blapp)))"

abbreviation demo_w0 :: "bl_app cdc_world" where "demo_w0 \<equiv> \<lparr>program = demo_blapp, offered = []\<rparr>"
abbreviation demo_w1 :: "bl_app cdc_world" where
  "demo_w1 \<equiv> \<lparr>program = bl_task demo_blapp, offered = [(demo_block, 4096)]\<rparr>"

lemma demo_bl_run: "bl_step\<^sup>*\<^sup>* demo_w0 demo_w1"
proof -
  have "ring_free demo_blapp = 4096"
    unfolding ring_free_def demo_blapp_facts(2,7) by simp
  then have "block_offer demo_blapp = [(demo_block, 4096)]"
    unfolding block_offer_def demo_blapp_facts(6) by simp
  then show ?thesis using cdc_step.code [of bl_code demo_w0 _ _ usb_dc_send_from_ringbuffer] bl_code.task [of demo_blapp]
    by (intro r_into_rtranclp) (simp add: program_step_def)
qed

theorem bl_stream_witness:
  "concat (usb_writes (program demo_w1)) @ out_bytes_of (program demo_w1) = demo_block"
proof -
  have "length demo_block \<le> 4096" unfolding length_block229 length_take demo_blapp_facts(6) by simp
  moreover have "program demo_w0 = demo_blapp" "offered demo_w0 = []" by simp_all
  ultimately show ?thesis
    using bl_stream [OF demo_bl_run] demo_blapp_facts by simp
qed

text \<open>
  Every transfer to the host ends with a short packet: whenever no transfer is in progress, the
  writes are non-empty blocks, and exactly those whose length is a multiple of 64 are followed by an
  empty one; and the busy flag, which keeps the sender from starting another transfer, is set exactly
  while one is in progress.
\<close>

theorem bl_transfers_end:
  assumes "bl_step\<^sup>*\<^sup>* w0 w" "bl_wf (program w0)" "offered w0 = []" "usb_writes (program w0) = []"
    "out_bytes_of (program w0) = []" "usb_in_flight (program w0) = None" "\<not> ep_tx_busy_flag (program w0)"
  shows "(ep_tx_busy_flag (program w) \<longleftrightarrow> usb_in_flight (program w) \<noteq> None) \<and>
    (usb_in_flight (program w) = None \<longrightarrow> ended (usb_writes (program w))) \<and>
    (\<forall>n. usb_in_flight (program w) = Some n \<longrightarrow> in_progress (usb_writes (program w)) n)"
  using assms by (rule bl.transfers)

theorem bl_transfers_end_witness: "ended (usb_writes (program demo_w1)) \<and> \<not> ep_tx_busy_flag (program demo_w1)"
proof -
  have "usb_in_flight (program demo_w1) = None" using demo_blapp_facts(4) by (simp add: bl_task_def)
  moreover have "program demo_w0 = demo_blapp" "offered demo_w0 = []" by simp_all
  ultimately show ?thesis using bl_transfers_end [OF demo_bl_run] demo_blapp_facts by simp
qed

text \<open>
  C36: The reply to any request of the INA229 program: it fits the packet, its size byte is the length
  without the header, its command byte is the request's, with the error flag only on an empty reply;
  an unknown command gets the error reply and changes nothing else. The ring buffer is left alone.
  The reply to \<open>CMD_DEV_CFG\<close> has 38 data bytes of which only the first is written: the others are
  what the packet buffer held from the reply before.
\<close>

theorem bl_cmd_decode_reply:
  assumes "bl_cmd_decode env buf a = Some (n, a')" "tx_pkt_wf (bl_send_pkt a)"
  shows "tx_pkt_wf (bl_send_pkt a') \<and> n \<in> {2, 4, 6, 7, 10, 40} \<and>
    unat (tx_size (bl_send_pkt a')) = unat n - 2 \<and>
    (tx_cmd (bl_send_pkt a') = rx_cmd buf \<or> n = 2 \<and> tx_cmd (bl_send_pkt a') = rx_cmd buf OR CMD_ERR_FLG) \<and>
    usb_tx_rb (sampler a') = usb_tx_rb (sampler a) \<and>
    (rx_cmd buf \<notin> {CMD_DEV_VER, CMD_INA_STR, CMD_INA_STP, CMD_DEV_ECAD, CMD_DEV_CFG, CMD_DEV_STA, CMD_DEV_PWR} \<longrightarrow>
      n = 2 \<and> tx_cmd (bl_send_pkt a') = rx_cmd buf OR CMD_ERR_FLG \<and> sampler a' = sampler a) \<and>
    (rx_cmd buf = CMD_DEV_CFG \<longrightarrow> n = 40 \<and>
      tx_data (bl_send_pkt a') = rx_data buf ! 0 # drop 1 (tx_data (bl_send_pkt a)))"
proof -
  obtain p b where p: "a' = b\<lparr>bl_send_pkt := p\<rparr>" "cmd_keeps a b" "bl_reply_ok (rx_cmd buf) n p"
    "unat (tx_size p) + 2 = unat n"
    using bl_cmd_decode_ok [OF assms] by blast
  have "n = 2 \<and> tx_cmd (bl_send_pkt a') = rx_cmd buf OR CMD_ERR_FLG \<and> sampler a' = sampler a"
    if "rx_cmd buf \<notin> {CMD_DEV_VER, CMD_INA_STR, CMD_INA_STP, CMD_DEV_ECAD, CMD_DEV_CFG, CMD_DEV_STA, CMD_DEV_PWR}"
    using assms(1) that by (auto simp: bl_cmd_decode_def bl_switch_def bl_error_def)
  moreover have "n = 40 \<and> tx_data (bl_send_pkt a') = rx_data buf ! 0 # drop 1 (tx_data (bl_send_pkt a))"
    if "rx_cmd buf = CMD_DEV_CFG"
    using assms(1) that by (auto simp: bl_cmd_decode_def bl_switch_def bl_cfg_def regs splice_at_def)
  moreover have "usb_tx_rb (sampler a') = usb_tx_rb (sampler a)"
    using p(2) by (simp add: p(1) cmd_keeps_def ina_keeps_def)
  moreover have "unat (tx_size p) = unat n - 2" using p(4) by simp
  ultimately show ?thesis using p(3) by (simp add: p(1) bl_reply_ok_def)
qed

abbreviation cfg_request :: "u8 list" where "cfg_request \<equiv> [1, 1, 5] @ replicate 2045 0"

theorem bl_cmd_decode_reply_witness:
  "\<exists>a'. bl_cmd_decode demo_bl cfg_request (demo_blapp\<lparr>bl_send_pkt := demo_pkt\<lparr>tx_data := replicate 232 9\<rparr>\<rparr>) =
      Some (40, a') \<and> tx_data (bl_send_pkt a') = 5 # replicate 231 9"
proof -
  let ?a = "demo_blapp\<lparr>bl_send_pkt := demo_pkt\<lparr>tx_data := replicate 232 9\<rparr>\<rparr>"
  have c: "rx_cmd cfg_request = CMD_DEV_CFG" "rx_data cfg_request ! 0 = 5"
    by (simp_all add: rx_cmd_def rx_data_def regs)
  then obtain n a' where d: "bl_cmd_decode demo_bl cfg_request ?a = Some (n, a')"
    by (auto simp: bl_cmd_decode_def bl_switch_def bl_cfg_def regs)
  moreover have "tx_pkt_wf (bl_send_pkt ?a)" by (simp add: tx_pkt_wf_def)
  ultimately show ?thesis using bl_cmd_decode_reply [OF d] c
    by (intro exI [of _ a']) simp
qed

lemma u8_cases_01: "x = 0 \<or> x = 1 \<or> 1 < x" for x :: u8
  by (auto simp: word_less_nat_alt word_unat_eq_iff)

lemma ina_str_echo_data:
  assumes "tx_pkt_wf p"
  shows "take 2 (tx_data (ina_str_echo buf p)) =
      [if rx_size buf = 0 then 0 else rx_data buf ! 0 AND 3,
       if rx_size buf \<le> 1 then 25 else min (rx_data buf ! 1) 31]"
proof -
  have "\<exists>b c cs. tx_data p = b # c # cs"
    using assms by (auto simp: tx_pkt_wf_def numeral_eq_Suc length_Suc_conv)
  then obtain b c cs where "tx_data p = b # c # cs" by blast
  then show ?thesis
    using u8_cases_01 [of "rx_size buf"]
    by (auto simp: ina_str_echo_def Let_def splice_at_def min_def)
qed

text \<open>
  \<open>CMD_INA_STR\<close> starts a measurement with the stored configuration: the channel and rate bytes of
  the request are echoed, limited to 3 and 31, but have no effect on what is measured.
\<close>

theorem bl_ina_str_ignores_request:
  assumes "bl_cmd_decode env buf a = Some (n, a')" "tx_pkt_wf (bl_send_pkt a)" "rx_cmd buf = CMD_INA_STR"
  shows "n = 4 \<and> cfg_adc a' = (cfg_adc a)\<lparr>enable := 1\<rparr> \<and>
    (\<exists>ret. ina229_start env ((cfg_adc a)\<lparr>enable := 1\<rparr>) (sampler a) = Some (ret, sampler a')) \<and>
    take 2 (tx_data (bl_send_pkt a')) =
      [if rx_size buf = 0 then 0 else rx_data buf ! 0 AND 3,
       if rx_size buf \<le> 1 then 25 else min (rx_data buf ! 1) 31]"
proof -
  let ?p = "(bl_send_pkt a)\<lparr>tx_cmd := rx_cmd buf\<rparr>"
  have "n = 4 \<and> cfg_adc a' = (cfg_adc a)\<lparr>enable := 1\<rparr> \<and>
    (\<exists>ret. ina229_start env ((cfg_adc a)\<lparr>enable := 1\<rparr>) (sampler a) = Some (ret, sampler a')) \<and>
    tx_data (bl_send_pkt a') = tx_data (ina_str_echo buf ?p)"
    using assms(1,3) by (auto simp: bl_cmd_decode_def bl_switch_def bl_ina_str_def bind_eq_Some_conv regs)
  moreover have "tx_pkt_wf ?p" using assms(2) by simp
  note ina_str_echo_data [OF this, of buf]
  ultimately show ?thesis by metis
qed

theorem bl_ina_str_ignores_request_witness:
  "\<exists>a'. bl_cmd_decode demo_bl ([2, 0x20, 1, 200] @ replicate 2044 0) demo_blapp = Some (4, a') \<and>
     take 2 (tx_data (bl_send_pkt a')) = [1, 31] \<and> chnl (cfg_adc a') = 3"
proof -
  let ?b = "[2, 0x20, 1, 200] @ replicate 2044 0 :: u8 list"
  have c: "rx_cmd ?b = CMD_INA_STR" "rx_size ?b = 2" "rx_data ?b ! 0 = 1" "rx_data ?b ! 1 = 200"
    by (simp_all add: rx_cmd_def rx_size_def rx_data_def regs)
  have w: "tx_pkt_wf (bl_send_pkt demo_blapp)" using demo_blapp_facts(1) by (simp add: bl_wf_def)
  have "inited (cfg_ina (sampler demo_blapp)) \<noteq> 0" "timer1 (sampler demo_blapp)"
    by (simp_all add: demo_blapp_def)
  from start_spec229 [OF demo_bl_clock this] obtain s1 where
    "ina229_start demo_bl ((cfg_adc demo_blapp)\<lparr>enable := 1\<rparr>) (sampler demo_blapp) = Some (0, s1)"
    by blast
  then obtain n a' where d: "bl_cmd_decode demo_bl ?b demo_blapp = Some (n, a')"
    using c(1) by (simp add: bl_cmd_decode_def bl_switch_def bl_ina_str_def regs)
  have "chnl (cfg_adc demo_blapp) = 3" by (simp add: demo_blapp_def)
  moreover have "\<not> 2 \<le> (1 :: u8)" "min 200 31 = (31 :: u8)" by (simp_all add: word_le_nat_alt min_def)
  ultimately show ?thesis using bl_ina_str_ignores_request [OF d w c(1)] d c(2-4)
    by (intro exI [of _ a']) simp
qed

text \<open>
  \<open>CMD_DEV_ECAD\<close> with a whole configuration and its enable byte set returns, starts a measurement with
  that configuration, and answers with the configuration in force: the channels the sampler measures
  and the rate of the table it chose, which is also what is kept.
\<close>

theorem bl_ecad_config:
  assumes "bl_clock env" "inited (cfg_ina (sampler a)) \<noteq> 0" "timer1 (sampler a)"
    "tx_pkt_wf (bl_send_pkt a)" "rx_cmd buf = CMD_DEV_ECAD" "5 \<le> rx_size buf"
    "7 \<le> length buf" "rx_data buf ! 0 \<noteq> 0"
  defines "cfg \<equiv> ina228_cfg_of_bytes (take 5 (rx_data buf))"
  shows "\<exists>a'. bl_cmd_decode env buf a = Some (7, a') \<and>
    ina229_start env cfg (sampler a) = Some (0, sampler a') \<and>
    cfg_adc a' = cfg\<lparr>chnl := if chnl cfg = 3 then 3 else if chnl cfg = 2 then 2 else 1,
      smpr := ina229_tab_freg ! freq_index (smpr cfg)\<rparr> \<and>
    take 5 (tx_data (bl_send_pkt a')) = ina228_cfg_bytes (cfg_adc a')"
proof -
  let ?p = "(bl_send_pkt a)\<lparr>tx_cmd := rx_cmd buf\<rparr>"
  have "length (take 5 (rx_data buf)) = 5" using assms(7) by (simp add: rx_data_def)
  have n: "(if rx_size buf > 5 then 5 else unat (rx_size buf)) = 5" "rx_size buf \<noteq> 0"
    using assms(6) by (auto simp: word_less_nat_alt word_le_nat_alt)
  have cfg: "ina228_cfg_memcpy (cfg_adc a) (rx_data buf) 5 = cfg"
    by (simp add: ina228_cfg_memcpy_def cfg_def)
  obtain s1 where st: "ina229_start env cfg (sampler a) = Some (0, s1)"
    and c: "cfg_ina s1 = (start_config cfg (cfg_ina (sampler a)))\<lparr>buf_enable := 1\<rparr>"
    using start_spec229 [OF assms(1-3), of cfg] by force
  define a1 where "a1 = a\<lparr>cfg_adc := cfg\<lparr>chnl := ucast (chnls (cfg_ina s1)), smpr := freq (cfg_ina s1)\<rparr>,
    sampler := s1\<rparr>"
  have "bl_ecad env buf ?p a = Some (7, tx_put 0 (ina228_cfg_bytes (cfg_adc a1)) ?p, a1)"
    using assms(8) st unfolding bl_ecad_def Let_def n(1) cfg if_P [OF n(2)] if_P [OF assms(8)]
    by (simp add: cfg a1_def)
  then have "bl_cmd_decode env buf a = Some (7, a1\<lparr>bl_send_pkt :=
      (tx_put 0 (ina228_cfg_bytes (cfg_adc a1)) ?p)\<lparr>tx_size := 5\<rparr>\<rparr>)"
    using assms(5) by (simp add: bl_cmd_decode_def bl_switch_def regs)
  moreover have "cfg_adc a1 = cfg\<lparr>chnl := if chnl cfg = 3 then 3 else if chnl cfg = 2 then 2 else 1,
      smpr := ina229_tab_freg ! freq_index (smpr cfg)\<rparr>"
    by (simp add: a1_def c)
  ultimately show ?thesis using st by (intro exI conjI) (assumption, simp_all add: a1_def)
qed

theorem bl_ecad_config_witness:
  "\<exists>a'. bl_cmd_decode demo_bl ([5, 0x38, 1, 7, 0xA0, 0x0F, 0] @ replicate 2041 0) demo_blapp = Some (7, a') \<and>
    take 5 (tx_data (bl_send_pkt a')) = [1, 1, 0xF3, 0x0D, 0]"
proof -
  let ?b = "[5, 0x38, 1, 7, 0xA0, 0x0F, 0] @ replicate 2041 0 :: u8 list"
  have c: "rx_cmd ?b = CMD_DEV_ECAD" "5 \<le> rx_size ?b" "7 \<le> length ?b" "rx_data ?b ! 0 \<noteq> 0"
    by (simp_all add: rx_cmd_def rx_size_def rx_data_def regs)
  have w: "tx_pkt_wf (bl_send_pkt demo_blapp)" using demo_blapp_facts(1) by (simp add: bl_wf_def)
  have i: "inited (cfg_ina (sampler demo_blapp)) \<noteq> 0" "timer1 (sampler demo_blapp)"
    by (simp_all add: demo_blapp_def)
  have cfg: "ina228_cfg_of_bytes (take 5 (rx_data ?b)) = \<lparr>enable = 1, chnl = 7, smpr = 4000, sh = 0\<rparr>"
    by (simp add: rx_data_def ina228_cfg_of_bytes_def from_le16_def)
  have f: "freq_index 4000 = 3" by (simp add: freq_index_def ina229_tab_freg_def upt_rec)
  from bl_ecad_config [OF demo_bl_clock i w c]
  obtain a' where "bl_cmd_decode demo_bl ?b demo_blapp = Some (7, a')"
    "cfg_adc a' = \<lparr>enable = 1, chnl = 1, smpr = 3571, sh = 0\<rparr>"
    "take 5 (tx_data (bl_send_pkt a')) = ina228_cfg_bytes (cfg_adc a')"
    unfolding cfg by (auto simp: f ina229_tab_freg_def)
  then show ?thesis by (intro exI [of _ a']) (simp add: ina228_cfg_bytes_def le16_def)
qed

end
