(* ===== verification/DrvFifo.thy ===== *)
theory DrvFifo
  imports FifoIface RingSlice
begin

text \<open>
  The byte FIFO in front of the USB endpoint of the CH592/CH583 ports
  (\<open>ch592/INA2282USB/src/app_drv_fifo.c\<close>, \<open>.h\<close>) and the peek/delete pair its BLE port adds
  (\<open>ch583/I2C2BLE/APP/app_drv_fifo.c\<close>). \<open>begin\<close> and \<open>end\<close> are free-running 16-bit counters,
  reduced by \<open>size_mask\<close> at each access. Pointers the code compares with NULL are options; a
  byte array is a list and the caller's buffer is returned updated.
\<close>

section \<open>State and operations\<close>

datatype app_drv_fifo_result_t =
    APP_DRV_FIFO_RESULT_SUCCESS
  | APP_DRV_FIFO_RESULT_LENGTH_ERROR
  | APP_DRV_FIFO_RESULT_NOT_FOUND
  | APP_DRV_FIFO_RESULT_NOT_MEM
  | APP_DRV_FIFO_RESULT_NULL

record app_drv_fifo_t =
  fbegin :: u16
  fend :: u16
  fdata :: "u8 list"
  fsize :: u16
  fsize_mask :: u16

definition fifo_length :: "app_drv_fifo_t \<Rightarrow> u16" where
  "fifo_length f = fend f - fbegin f"

definition app_drv_fifo_length :: "app_drv_fifo_t \<Rightarrow> u16" where
  "app_drv_fifo_length f = fifo_length f"

definition app_drv_fifo_init ::
    "app_drv_fifo_t \<Rightarrow> u8 list \<Rightarrow> u16 \<Rightarrow> app_drv_fifo_result_t \<times> app_drv_fifo_t" where
  "app_drv_fifo_init f buffer buffer_size =
     (if buffer_size = 0 then (APP_DRV_FIFO_RESULT_LENGTH_ERROR, f)
      else if buffer_size AND (buffer_size - 1) \<noteq> 0 then (APP_DRV_FIFO_RESULT_LENGTH_ERROR, f)
      else (APP_DRV_FIFO_RESULT_SUCCESS,
            f\<lparr>fbegin := 0, fend := 0, fdata := buffer, fsize := buffer_size,
              fsize_mask := buffer_size - 1\<rparr>))"

definition app_drv_fifo_push :: "app_drv_fifo_t \<Rightarrow> u8 \<Rightarrow> app_drv_fifo_t" where
  "app_drv_fifo_push f d =
     f\<lparr>fdata := (fdata f)[unat (fend f AND fsize_mask f) := d], fend := fend f + 1\<rparr>"

definition app_drv_fifo_pop :: "app_drv_fifo_t \<Rightarrow> u8 \<times> app_drv_fifo_t" where
  "app_drv_fifo_pop f =
     (fdata f ! unat (fbegin f AND fsize_mask f), f\<lparr>fbegin := fbegin f + 1\<rparr>)"

definition app_drv_fifo_flush :: "app_drv_fifo_t \<Rightarrow> app_drv_fifo_t" where
  "app_drv_fifo_flush f = f\<lparr>fbegin := 0, fend := 0\<rparr>"

definition app_drv_fifo_is_empty :: "app_drv_fifo_t \<Rightarrow> bool" where
  "app_drv_fifo_is_empty f \<longleftrightarrow> fbegin f = fend f"

definition app_drv_fifo_is_full :: "app_drv_fifo_t \<Rightarrow> bool" where
  "app_drv_fifo_is_full f \<longleftrightarrow> fifo_length f = fsize f"

text \<open>The \<open>for\<close> loops over \<open>index\<close>: the loop body of index \<open>i\<close> is the folded function.\<close>

definition push_bytes :: "u8 list \<Rightarrow> nat \<Rightarrow> app_drv_fifo_t \<Rightarrow> app_drv_fifo_t" where
  "push_bytes bs n f = fold (\<lambda>i f. app_drv_fifo_push f (bs ! i)) [0..<n] f"

definition pop_bytes :: "nat \<Rightarrow> u8 list \<Rightarrow> app_drv_fifo_t \<Rightarrow> u8 list \<times> app_drv_fifo_t" where
  "pop_bytes n bs f =
     fold (\<lambda>i (bs, f). let (b, f') = app_drv_fifo_pop f in (bs[i := b], f')) [0..<n] (bs, f)"

definition app_drv_fifo_write ::
    "app_drv_fifo_t option \<Rightarrow> u8 list option \<Rightarrow> u16 option \<Rightarrow>
     app_drv_fifo_result_t \<times> app_drv_fifo_t option \<times> u16 option" where
  "app_drv_fifo_write fifo bytes p_write_length =
     (case fifo of None \<Rightarrow> (APP_DRV_FIFO_RESULT_NULL, fifo, p_write_length)
      | Some f \<Rightarrow>
        (case p_write_length of None \<Rightarrow> (APP_DRV_FIFO_RESULT_NULL, fifo, p_write_length)
         | Some requested_len \<Rightarrow>
           (let available_count = fsize f - fifo_length f;
                write_size = min requested_len available_count
            in if available_count < requested_len
               then (APP_DRV_FIFO_RESULT_LENGTH_ERROR, fifo, p_write_length)
               else if available_count = 0
               then (APP_DRV_FIFO_RESULT_NOT_MEM, fifo, p_write_length)
               else (case bytes of
                   None \<Rightarrow> (APP_DRV_FIFO_RESULT_SUCCESS, fifo, p_write_length)
                 | Some bs \<Rightarrow> (APP_DRV_FIFO_RESULT_SUCCESS,
                     Some (push_bytes bs (unat write_size) f), Some write_size)))))"

definition app_drv_fifo_write_from_same_addr ::
    "app_drv_fifo_t option \<Rightarrow> u8 \<Rightarrow> u16 \<Rightarrow> app_drv_fifo_result_t \<times> app_drv_fifo_t option" where
  "app_drv_fifo_write_from_same_addr fifo data0 write_length =
     (case fifo of None \<Rightarrow> (APP_DRV_FIFO_RESULT_NULL, fifo)
      | Some f \<Rightarrow>
        (let available_count = fsize_mask f - fifo_length f + 1;
             write_size = min write_length available_count
         in if available_count = 0 then (APP_DRV_FIFO_RESULT_NOT_MEM, fifo)
            else (APP_DRV_FIFO_RESULT_SUCCESS,
              Some (fold (\<lambda>i f. app_drv_fifo_push f data0) [0..<unat write_size] f))))"

definition app_drv_fifo_read ::
    "app_drv_fifo_t option \<Rightarrow> u8 list \<Rightarrow> u16 option \<Rightarrow>
     app_drv_fifo_result_t \<times> app_drv_fifo_t option \<times> u8 list \<times> u16 option" where
  "app_drv_fifo_read fifo dest p_read_length =
     (case fifo of None \<Rightarrow> (APP_DRV_FIFO_RESULT_NULL, fifo, dest, p_read_length)
      | Some f \<Rightarrow>
        (case p_read_length of
           None \<Rightarrow> (APP_DRV_FIFO_RESULT_NULL, fifo, dest, p_read_length)
         | Some requested_len \<Rightarrow>
           (let byte_count = fifo_length f; read_size = min requested_len byte_count
            in if byte_count = 0
               then (APP_DRV_FIFO_RESULT_NOT_FOUND, fifo, dest, p_read_length)
               else (let (dest', f') = pop_bytes (unat read_size) dest f
                     in (APP_DRV_FIFO_RESULT_SUCCESS, Some f', dest', Some read_size)))))"

definition app_drv_fifo_read_to_same_addr ::
    "app_drv_fifo_t option \<Rightarrow> u8 \<Rightarrow> u16 \<Rightarrow>
     app_drv_fifo_result_t \<times> app_drv_fifo_t option \<times> u8" where
  "app_drv_fifo_read_to_same_addr fifo data0 read_length =
     (case fifo of None \<Rightarrow> (APP_DRV_FIFO_RESULT_NULL, fifo, data0)
      | Some f \<Rightarrow>
        (let read_size = min read_length (fifo_length f);
             (d, f') = fold (\<lambda>i (d, f). app_drv_fifo_pop f) [0..<unat read_size] (data0, f)
         in (APP_DRV_FIFO_RESULT_SUCCESS, Some f', d)))"

text \<open>The BLE port's pair: copy out without consuming, then drop what was sent.\<close>

definition app_drv_fifo_rd :: "app_drv_fifo_t \<Rightarrow> u8 list \<Rightarrow> u16 \<Rightarrow> u16 \<times> u8 list" where
  "app_drv_fifo_rd f dest read_length =
     (read_length,
      fst (fold (\<lambda>i (bs, idx). (bs[i := fdata f ! unat (idx AND fsize_mask f)], idx + 1))
             [0..<unat read_length] (dest, fbegin f)))"

definition app_drv_fifo_rd_del :: "app_drv_fifo_t \<Rightarrow> u16 \<Rightarrow> app_drv_fifo_t" where
  "app_drv_fifo_rd_del f read_length = f\<lparr>fbegin := fbegin f + read_length\<rparr>"

section \<open>Well-formedness and the abstraction to byte lists\<close>

definition fifo_wf :: "app_drv_fifo_t \<Rightarrow> bool" where
  "fifo_wf f \<longleftrightarrow> fsize f \<noteq> 0 \<and> fsize f AND (fsize f - 1) = 0 \<and>
     fsize_mask f = fsize f - 1 \<and> length (fdata f) = unat (fsize f) \<and>
     fifo_length f \<le> fsize f"

definition fifo_bytes :: "app_drv_fifo_t \<Rightarrow> u8 list" where
  "fifo_bytes f = ring_slice (fdata f) (unat (fbegin f)) (unat (fifo_length f))"

lemma length_fifo_bytes [simp]: "length (fifo_bytes f) = unat (fifo_length f)"
  by (simp add: fifo_bytes_def)

lemma u16_pow2_test:
  fixes x :: u16
  assumes "x \<noteq> 0" "x AND (x - 1) = 0"
  obtains k where "k \<le> 15" "unat x = 2 ^ k" "unat (x - 1) = 2 ^ k - 1"
proof -
  have x1: "unat (x - 1) = unat x - 1" using assms(1) by (simp add: unat_minus_one)
  have pos: "0 < unat x" using assms(1) by (simp add: unat_gt_0)
  have "unat (x AND (x - 1)) = 0" using assms(2) by simp
  then have "unat x AND (unat x - 1) = 0" by (simp add: unsigned_and_eq x1)
  then obtain k where k: "unat x = 2 ^ k" using nat_and_pred_power [OF pos] by blast
  have "unat x < 2 ^ 16" using unat_u16_bound [of x] by simp
  then have "k < 16" unfolding k by (rule power_less_imp_less_exp [rotated]) simp
  then show thesis using that [of k] k x1 by simp
qed

lemma fifo_wfE:
  assumes "fifo_wf f"
  obtains k where "k \<le> 15" "unat (fsize f) = 2 ^ k" "unat (fsize_mask f) = 2 ^ k - 1"
    "length (fdata f) = 2 ^ k" "unat (fifo_length f) \<le> 2 ^ k"
proof -
  obtain k where "k \<le> 15" "unat (fsize f) = 2 ^ k" "unat (fsize f - 1) = 2 ^ k - 1"
    using assms u16_pow2_test [of "fsize f"] by (auto simp: fifo_wf_def)
  with assms that [of k] show thesis by (simp add: fifo_wf_def word_le_nat_alt)
qed

lemma unat_u16_plus_mod:
  assumes "k \<le> 15"
  shows "unat (x + y :: u16) mod 2 ^ k = (unat x + unat y) mod 2 ^ k"
proof -
  have "(2::nat) ^ k dvd 65536" using assms le_imp_power_dvd [of k 16 "2::nat"] by simp
  then show ?thesis by (simp add: unat_word_ariths mod_mod_cancel)
qed

lemma fend_split: "fend f = fbegin f + fifo_length f"
  by (simp add: fifo_length_def)

lemma fifo_length_simps [simp]:
  "fifo_length (f\<lparr>fend := fend f + 1\<rparr>) = fifo_length f + 1"
  "fifo_length (f\<lparr>fdata := d\<rparr>) = fifo_length f"
  "fifo_length (f\<lparr>fdata := d, fend := fend f + 1\<rparr>) = fifo_length f + 1"
  "fifo_length (f\<lparr>fbegin := fbegin f + w\<rparr>) = fifo_length f - w"
  by (simp_all add: fifo_length_def)

lemma push_spec:
  assumes "fifo_wf f" "fifo_length f < fsize f"
  shows "fifo_wf (app_drv_fifo_push f d)"
    and "fifo_bytes (app_drv_fifo_push f d) = fifo_bytes f @ [d]"
    and "fifo_length (app_drv_fifo_push f d) = fifo_length f + 1"
    and "fsize (app_drv_fifo_push f d) = fsize f"
proof -
  obtain k where k: "k \<le> 15" "unat (fsize f) = 2 ^ k" "unat (fsize_mask f) = 2 ^ k - 1"
    "length (fdata f) = 2 ^ k" "unat (fifo_length f) \<le> 2 ^ k"
    using assms(1) by (rule fifo_wfE)
  have lt: "unat (fifo_length f) < 2 ^ k" using assms(2) k(2) by (simp add: word_less_nat_alt)
  have len1: "unat (fifo_length f + 1) = Suc (unat (fifo_length f))"
    using lt k(1) power_increasing [of k 15 "2::nat"] unat_plus_nowrap [of "fifo_length f" 1] by simp
  have idx: "unat (fend f AND fsize_mask f) = (unat (fbegin f) + unat (fifo_length f)) mod 2 ^ k"
    by (simp add: unat_and_mask_mod [OF k(3)] fend_split [of f] unat_u16_plus_mod [OF k(1)])
  show l: "fifo_length (app_drv_fifo_push f d) = fifo_length f + 1"
    by (simp add: app_drv_fifo_push_def)
  show "fsize (app_drv_fifo_push f d) = fsize f" by (simp add: app_drv_fifo_push_def)
  have "fifo_length f + 1 \<le> fsize f" using lt len1 k(2) by (simp add: word_le_nat_alt)
  then show "fifo_wf (app_drv_fifo_push f d)"
    using assms(1) l by (simp add: fifo_wf_def) (simp add: app_drv_fifo_push_def)
  show "fifo_bytes (app_drv_fifo_push f d) = fifo_bytes f @ [d]"
    using ring_slice_push [of "unat (fifo_length f)" "fdata f" "unat (fbegin f)" d] lt k(4) idx len1
    by (simp add: fifo_bytes_def l) (simp add: app_drv_fifo_push_def)
qed

lemma pop_spec:
  assumes "fifo_wf f" "fifo_length f \<noteq> 0"
  shows "fifo_wf (snd (app_drv_fifo_pop f))"
    and "fifo_bytes f = fst (app_drv_fifo_pop f) # fifo_bytes (snd (app_drv_fifo_pop f))"
    and "fifo_length (snd (app_drv_fifo_pop f)) = fifo_length f - 1"
    and "fsize (snd (app_drv_fifo_pop f)) = fsize f"
proof -
  obtain k where k: "k \<le> 15" "unat (fsize f) = 2 ^ k" "unat (fsize_mask f) = 2 ^ k - 1"
    "length (fdata f) = 2 ^ k" "unat (fifo_length f) \<le> 2 ^ k"
    using assms(1) by (rule fifo_wfE)
  have len: "unat (fifo_length f) = Suc (unat (fifo_length f - 1))"
    using assms(2) by (simp add: unat_minus_one unat_gt_0)
  show l: "fifo_length (snd (app_drv_fifo_pop f)) = fifo_length f - 1"
    by (simp add: app_drv_fifo_pop_def)
  show "fsize (snd (app_drv_fifo_pop f)) = fsize f" by (simp add: app_drv_fifo_pop_def)
  have "fifo_length f - 1 \<le> fsize f" using len k(2,5) by (simp add: word_le_nat_alt)
  then show "fifo_wf (snd (app_drv_fifo_pop f))"
    using assms(1) l by (simp add: fifo_wf_def) (simp add: app_drv_fifo_pop_def)
  have "ring_slice (fdata f) (unat (fbegin f + 1)) n = ring_slice (fdata f) (Suc (unat (fbegin f))) n" for n
    by (rule ring_slice_cong_mod) (simp add: k(4) unat_u16_plus_mod [OF k(1)])
  then show "fifo_bytes f = fst (app_drv_fifo_pop f) # fifo_bytes (snd (app_drv_fifo_pop f))"
    by (simp add: fifo_bytes_def l len ring_slice_Suc)
       (simp add: app_drv_fifo_pop_def unat_and_mask_mod [OF k(3)] k(4))
qed

lemma push_bytes_spec:
  assumes "fifo_wf f" "n \<le> length bs" "unat (fifo_length f) + n \<le> unat (fsize f)"
  shows "fifo_wf (push_bytes bs n f) \<and> fsize (push_bytes bs n f) = fsize f \<and>
    fifo_bytes (push_bytes bs n f) = fifo_bytes f @ take n bs \<and>
    unat (fifo_length (push_bytes bs n f)) = unat (fifo_length f) + n"
  using assms(2,3)
proof (induction n)
  case 0
  then show ?case using assms(1) by (simp add: push_bytes_def)
next
  case (Suc n)
  let ?g = "push_bytes bs n f"
  have IH: "fifo_wf ?g" "fsize ?g = fsize f" "fifo_bytes ?g = fifo_bytes f @ take n bs"
    "unat (fifo_length ?g) = unat (fifo_length f) + n"
    using Suc by simp_all
  have step: "push_bytes bs (Suc n) f = app_drv_fifo_push ?g (bs ! n)"
    by (simp add: push_bytes_def)
  have lt: "fifo_length ?g < fsize ?g" using IH Suc.prems by (simp add: word_less_nat_alt)
  have "unat (fifo_length ?g + 1) = Suc (unat (fifo_length ?g))"
    using lt IH Suc.prems unat_plus_nowrap [of "fifo_length ?g" 1] unat_u16_bound [of "fsize f"]
    by simp
  with push_spec [OF IH(1) lt, of "bs ! n"] IH Suc.prems show ?case
    by (simp add: step take_Suc_conv_app_nth)
qed

lemma push_const_is_push_bytes:
  "fold (\<lambda>i f. app_drv_fifo_push f d) [0..<n] f = push_bytes (replicate n d) n f"
  unfolding push_bytes_def by (rule fold_cong) auto

lemma pop_bytes_spec:
  assumes "fifo_wf f" "n \<le> length bs" "n \<le> unat (fifo_length f)"
  shows "fst (pop_bytes n bs f) = take n (fifo_bytes f) @ drop n bs \<and>
    fifo_wf (snd (pop_bytes n bs f)) \<and> fsize (snd (pop_bytes n bs f)) = fsize f \<and>
    fifo_bytes (snd (pop_bytes n bs f)) = drop n (fifo_bytes f)"
  using assms(2,3)
proof (induction n)
  case 0
  then show ?case using assms(1) by (simp add: pop_bytes_def)
next
  case (Suc n)
  obtain ds g where dg: "pop_bytes n bs f = (ds, g)" by (cases "pop_bytes n bs f")
  have IH: "ds = take n (fifo_bytes f) @ drop n bs" "fifo_wf g" "fsize g = fsize f"
    "fifo_bytes g = drop n (fifo_bytes f)"
    using Suc dg by simp_all
  have step: "pop_bytes (Suc n) bs f = (ds[n := fst (app_drv_fifo_pop g)], snd (app_drv_fifo_pop g))"
    using dg by (simp add: pop_bytes_def case_prod_beta Let_def)
  have n: "n < length (fifo_bytes f)" using Suc.prems by simp
  have "length (fifo_bytes g) = length (fifo_bytes f) - n" using IH(4) by simp
  with n have "fifo_length g \<noteq> 0" by (metis length_fifo_bytes unat_0 zero_less_diff less_irrefl)
  note p = pop_spec [OF IH(2) this]
  have "drop n (fifo_bytes f) = fst (app_drv_fifo_pop g) # fifo_bytes (snd (app_drv_fifo_pop g))"
    using p(2) IH(4) by simp
  moreover have "drop n (fifo_bytes f) = fifo_bytes f ! n # drop (Suc n) (fifo_bytes f)"
    using n by (simp add: Cons_nth_drop_Suc)
  ultimately have b: "fst (app_drv_fifo_pop g) = fifo_bytes f ! n"
    "fifo_bytes (snd (app_drv_fifo_pop g)) = drop (Suc n) (fifo_bytes f)" by simp_all
  have "ds[n := fifo_bytes f ! n] = take (Suc n) (fifo_bytes f) @ drop (Suc n) bs"
  proof -
    have "drop n bs = bs ! n # drop (Suc n) bs"
      using Suc.prems by (simp add: Cons_nth_drop_Suc)
    then show ?thesis using n
      by (simp add: IH(1) list_update_append take_Suc_conv_app_nth)
  qed
  with p b IH step show ?case by simp
qed

section \<open>Results of write and read on every branch\<close>

lemma drv_write_full:
  assumes "fsize f - fifo_length f < len"
  shows "app_drv_fifo_write (Some f) bs (Some len) =
    (APP_DRV_FIFO_RESULT_LENGTH_ERROR, Some f, Some len)"
  using assms by (simp add: app_drv_fifo_write_def Let_def)

lemma fifo_room:
  assumes "fifo_wf f"
  shows "unat (fsize f - fifo_length f) = unat (fsize f) - unat (fifo_length f)"
    and "unat (fifo_length f) \<le> unat (fsize f)"
  using assms by (auto simp: fifo_wf_def word_le_nat_alt unat_sub)

text \<open>The FIFO as a buffer with the interface of \<open>FifoIface\<close>.\<close>

definition drv_wr :: "app_drv_fifo_t \<Rightarrow> u8 list \<Rightarrow> nat \<times> app_drv_fifo_t" where
  "drv_wr f bs =
     (case app_drv_fifo_write (Some f) (Some bs) (Some (of_nat (length bs))) of
        (APP_DRV_FIFO_RESULT_SUCCESS, Some f', Some n) \<Rightarrow> (unat n, f')
      | _ \<Rightarrow> (0, f))"

definition drv_rd :: "app_drv_fifo_t \<Rightarrow> nat \<Rightarrow> u8 list \<times> app_drv_fifo_t" where
  "drv_rd f n =
     (case app_drv_fifo_read (Some f) (replicate n 0) (Some (of_nat n)) of
        (APP_DRV_FIFO_RESULT_SUCCESS, Some f', bs, Some m) \<Rightarrow> (take (unat m) bs, f')
      | _ \<Rightarrow> ([], f))"

lemma drv_wr_accept:
  assumes "fifo_wf f" "length bs < 65536" "unat (fifo_length f) + length bs \<le> unat (fsize f)"
  shows "drv_wr f bs = (length bs, push_bytes bs (length bs) f)"
proof (cases "fsize f - fifo_length f = 0")
  case True
  with fifo_room [OF assms(1)] assms(3) have "bs = []" by simp
  with True show ?thesis
    by (simp add: drv_wr_def app_drv_fifo_write_def Let_def push_bytes_def)
next
  case False
  have "unat (of_nat (length bs) :: u16) = length bs"
    using assms(2) by (simp add: unat_of_nat_small)
  moreover from this have "\<not> fsize f - fifo_length f < of_nat (length bs)"
    using fifo_room [OF assms(1)] assms(3) by (simp add: word_less_nat_alt)
  ultimately show ?thesis
    using False by (simp add: drv_wr_def app_drv_fifo_write_def Let_def min_def not_less)
qed

lemma drv_wr_reject:
  assumes "fifo_wf f" "length bs < 65536" "unat (fsize f) < unat (fifo_length f) + length bs"
  shows "drv_wr f bs = (0, f)"
proof -
  have "fsize f - fifo_length f < of_nat (length bs)"
    using fifo_room [OF assms(1)] assms(2,3)
    by (simp add: word_less_nat_alt unat_of_nat_small)
  then show ?thesis by (simp add: drv_wr_def drv_write_full)
qed

lemma drv_rd_eq:
  assumes "fifo_wf f" "n < 65536"
  shows "fst (drv_rd f n) = take n (fifo_bytes f) \<and> fifo_wf (snd (drv_rd f n)) \<and>
    fifo_bytes (snd (drv_rd f n)) = drop n (fifo_bytes f) \<and> fsize (snd (drv_rd f n)) = fsize f"
proof (cases "fifo_length f = 0")
  case True
  then have "fifo_bytes f = []" by (simp add: fifo_bytes_def)
  with True assms show ?thesis by (simp add: drv_rd_def app_drv_fifo_read_def Let_def)
next
  case False
  let ?m = "min (of_nat n) (fifo_length f)"
  have m: "unat ?m = min n (unat (fifo_length f))"
    using assms(2) by (simp add: min_def word_le_nat_alt unat_of_nat_small)
  obtain ds g where dg: "pop_bytes (unat ?m) (replicate n 0) f = (ds, g)" by force
  have "ds = take (unat ?m) (fifo_bytes f) @ drop (unat ?m) (replicate n 0)" "fifo_wf g"
    "fsize g = fsize f" "fifo_bytes g = drop (unat ?m) (fifo_bytes f)"
    using pop_bytes_spec [OF assms(1), of "unat ?m" "replicate n 0"] dg m by simp_all
  with False dg m show ?thesis
    by (simp add: drv_rd_def app_drv_fifo_read_def Let_def min_def)
qed

interpretation drv: packet_fifo drv_wr drv_rd fifo_bytes fifo_wf "\<lambda>f. unat (fsize f)" 65535
proof unfold_locales
  fix f :: app_drv_fifo_t and bs :: "u8 list"
  assume f: "fifo_wf f" and l: "length bs \<le> 65535"
  have "(drv_wr f bs = (length bs, push_bytes bs (length bs) f) \<and>
      unat (fifo_length f) + length bs \<le> unat (fsize f)) \<or>
     (drv_wr f bs = (0, f) \<and> unat (fsize f) < unat (fifo_length f) + length bs)"
    using drv_wr_accept [OF f, of bs] drv_wr_reject [OF f, of bs] l by linarith
  note c = this
  show "fst (drv_wr f bs) \<le> length bs" using c by auto
  show "fst (drv_wr f bs) = 0 \<or> fst (drv_wr f bs) = length bs" using c by auto
  show "fifo_bytes (snd (drv_wr f bs)) = fifo_bytes f @ take (fst (drv_wr f bs)) bs"
    using c push_bytes_spec [OF f, of "length bs" bs] by auto
  show "fifo_wf (snd (drv_wr f bs))" using c f push_bytes_spec [OF f, of "length bs" bs] by auto
  show "unat (fsize (snd (drv_wr f bs))) = unat (fsize f)"
    using c push_bytes_spec [OF f, of "length bs" bs] by auto
  show "fst (drv_wr f bs) = length bs" if "length (fifo_bytes f) + length bs \<le> unat (fsize f)"
    using c that by auto
next
  fix f :: app_drv_fifo_t and n :: nat
  assume f: "fifo_wf f" and "n \<le> 65535"
  then have "n < 65536" by simp
  note r = drv_rd_eq [OF f this]
  show "fst (drv_rd f n) = take n (fifo_bytes f)" using r by simp
  show "fifo_bytes (snd (drv_rd f n)) = drop n (fifo_bytes f)" using r by simp
  show "fifo_wf (snd (drv_rd f n))" using r by simp
  show "unat (fsize (snd (drv_rd f n))) = unat (fsize f)" using r by simp
next
  fix f :: app_drv_fifo_t
  assume "fifo_wf f"
  then show "length (fifo_bytes f) \<le> unat (fsize f)" using fifo_room(2) by simp
qed

lemma rd_spec:
  assumes "fifo_wf f" "n \<le> length ds" "n \<le> unat (fifo_length f)"
  shows "fold (\<lambda>i (bs, idx). (bs[i := fdata f ! unat (idx AND fsize_mask f)], idx + 1))
      [0..<n] (ds, fbegin f) =
    (take n (fifo_bytes f) @ drop n ds, fbegin f + of_nat n)"
  using assms(2,3)
proof (induction n)
  case 0
  then show ?case by simp
next
  case (Suc n)
  obtain k where k: "k \<le> 15" "unat (fsize f) = 2 ^ k" "unat (fsize_mask f) = 2 ^ k - 1"
    "length (fdata f) = 2 ^ k" "unat (fifo_length f) \<le> 2 ^ k"
    using assms(1) by (rule fifo_wfE)
  have n: "n < length (fifo_bytes f)" using Suc.prems by simp
  have n16: "n < 65536" using Suc.prems unat_u16_bound [of "fifo_length f"] by linarith
  have cell: "fdata f ! unat ((fbegin f + of_nat n) AND fsize_mask f) = fifo_bytes f ! n"
    using n n16 by (simp add: fifo_bytes_def unat_and_mask_mod [OF k(3)] unat_u16_plus_mod [OF k(1)]
        unat_of_nat_small k(4))
  have "drop n ds = ds ! n # drop (Suc n) ds"
    using Suc.prems by (simp add: Cons_nth_drop_Suc)
  with Suc n cell show ?case
    by (simp add: list_update_append take_Suc_conv_app_nth algebra_simps)
qed

lemma rd_del_spec:
  assumes "fifo_wf f" "unat n \<le> length dest" "unat n \<le> length (fifo_bytes f)"
  shows "app_drv_fifo_rd f dest n = (n, take (unat n) (fifo_bytes f) @ drop (unat n) dest) \<and>
    fifo_wf (app_drv_fifo_rd_del f n) \<and> fsize (app_drv_fifo_rd_del f n) = fsize f \<and>
    fifo_bytes (app_drv_fifo_rd_del f n) = drop (unat n) (fifo_bytes f)"
proof -
  obtain k where k: "k \<le> 15" "unat (fsize f) = 2 ^ k" "unat (fsize_mask f) = 2 ^ k - 1"
    "length (fdata f) = 2 ^ k" "unat (fifo_length f) \<le> 2 ^ k"
    using assms(1) by (rule fifo_wfE)
  have len: "fifo_length (app_drv_fifo_rd_del f n) = fifo_length f - n"
    by (simp add: app_drv_fifo_rd_del_def)
  have sub: "unat (fifo_length f - n) = unat (fifo_length f) - unat n"
    using assms(3) by (simp add: unat_sub word_le_nat_alt)
  have "fifo_wf (app_drv_fifo_rd_del f n)"
    using assms(1) len sub k
    by (simp add: fifo_wf_def word_le_nat_alt) (simp add: app_drv_fifo_rd_del_def)
  moreover have "fifo_bytes (app_drv_fifo_rd_del f n) = drop (unat n) (fifo_bytes f)"
  proof -
    have "ring_slice (fdata f) (unat (fbegin f + n)) m =
      ring_slice (fdata f) (unat (fbegin f) + unat n) m" for m
      by (rule ring_slice_cong_mod) (simp add: k(4) unat_u16_plus_mod [OF k(1)])
    then show ?thesis
      by (simp add: fifo_bytes_def len sub drop_ring_slice) (simp add: app_drv_fifo_rd_del_def)
  qed
  ultimately show ?thesis
    using rd_spec [OF assms(1,2)] assms(3) by (simp add: app_drv_fifo_rd_def app_drv_fifo_rd_del_def)
qed

lemma drv_write_spec:
  assumes "fifo_wf f" "unat len \<le> length bs"
  shows "if unat (fsize f) < length (fifo_bytes f) + unat len
    then app_drv_fifo_write (Some f) (Some bs) (Some len) =
      (APP_DRV_FIFO_RESULT_LENGTH_ERROR, Some f, Some len)
    else if length (fifo_bytes f) = unat (fsize f)
    then app_drv_fifo_write (Some f) (Some bs) (Some len) =
      (APP_DRV_FIFO_RESULT_NOT_MEM, Some f, Some len)
    else \<exists>g. app_drv_fifo_write (Some f) (Some bs) (Some len) =
      (APP_DRV_FIFO_RESULT_SUCCESS, Some g, Some len) \<and> fifo_wf g \<and> fsize g = fsize f \<and>
      fifo_bytes g = fifo_bytes f @ take (unat len) bs"
proof -
  note room = fifo_room [OF assms(1)]
  have "fsize f - fifo_length f < len \<longleftrightarrow> unat (fsize f) < unat (fifo_length f) + unat len"
    using room by (auto simp: word_less_nat_alt)
  moreover have "fsize f - fifo_length f = 0 \<longleftrightarrow> unat (fifo_length f) = unat (fsize f)"
    using room by (auto simp flip: unat_eq_zero)
  moreover have "\<not> fsize f - fifo_length f < len \<Longrightarrow> min len (fsize f - fifo_length f) = len"
    by (simp add: min_def not_less)
  moreover note push_bytes_spec [OF assms(1), of "unat len" bs] assms(2)
  ultimately show ?thesis by (auto simp: app_drv_fifo_write_def Let_def)
qed

lemma app_write_spec:
  assumes "fifo_wf f" "n \<le> length bs" "n < 65536" "0 < n"
  shows "\<exists>r g l. app_drv_fifo_write (Some f) (Some bs) (Some (of_nat n)) = (r, Some g, l) \<and> fifo_wf g \<and>
    fsize g = fsize f \<and>
    fifo_bytes g = fifo_bytes f @ (if length (fifo_bytes f) + n \<le> unat (fsize f) then take n bs else [])"
proof -
  have n: "unat (of_nat n :: u16) = n" using assms(3) by (intro unat_of_nat_small) simp
  have "unat (of_nat n :: u16) \<le> length bs" unfolding n by (rule assms(2))
  from drv_write_spec [OF assms(1) this, unfolded n] assms(1,4) show ?thesis
    by (auto split: if_splits)
qed

lemma drv_read_spec:
  assumes "fifo_wf f" "unat len \<le> length dest"
  shows "if fifo_bytes f = []
    then app_drv_fifo_read (Some f) dest (Some len) =
      (APP_DRV_FIFO_RESULT_NOT_FOUND, Some f, dest, Some len)
    else \<exists>g n. app_drv_fifo_read (Some f) dest (Some len) =
      (APP_DRV_FIFO_RESULT_SUCCESS, Some g, take (unat n) (fifo_bytes f) @ drop (unat n) dest,
       Some n) \<and> unat n = min (unat len) (length (fifo_bytes f)) \<and> fifo_wf g \<and>
      fsize g = fsize f \<and> fifo_bytes g = drop (unat n) (fifo_bytes f)"
proof -
  have nil: "fifo_bytes f = [] \<longleftrightarrow> fifo_length f = 0"
    by (metis length_0_conv length_fifo_bytes unat_eq_zero)
  let ?n = "min len (fifo_length f)"
  have n: "unat ?n = min (unat len) (unat (fifo_length f))"
    by (simp add: min_def word_le_nat_alt)
  obtain ds g where dg: "pop_bytes (unat ?n) dest f = (ds, g)"
    by (cases "pop_bytes (unat ?n) dest f")
  have spec: "ds = take (unat ?n) (fifo_bytes f) @ drop (unat ?n) dest" "fifo_wf g"
    "fsize g = fsize f" "fifo_bytes g = drop (unat ?n) (fifo_bytes f)"
    using pop_bytes_spec [OF assms(1), of "unat ?n" dest] dg n assms(2) by simp_all
  show ?thesis
  proof (cases "fifo_bytes f = []")
    case True
    then show ?thesis using nil by (simp add: app_drv_fifo_read_def Let_def)
  next
    case False
    then have "app_drv_fifo_read (Some f) dest (Some len) =
      (APP_DRV_FIFO_RESULT_SUCCESS, Some g, ds, Some ?n)"
      using nil dg by (simp add: app_drv_fifo_read_def Let_def)
    with False spec n show ?thesis by (auto intro!: exI [of _ g] exI [of _ ?n])
  qed
qed

section \<open>Properties\<close>

text \<open>
  \<open>app_drv_fifo_init\<close> succeeds exactly on a buffer size that is a power of two, and then, on
  a buffer of that size, leaves a well-formed empty FIFO; otherwise it reports a length error and
  changes nothing.
\<close>

theorem app_drv_fifo_init_correct:
  assumes "length buffer = unat buffer_size"
  shows "if \<exists>k. unat buffer_size = 2 ^ k
    then \<exists>g. app_drv_fifo_init f buffer buffer_size = (APP_DRV_FIFO_RESULT_SUCCESS, g) \<and>
      fifo_wf g \<and> fifo_bytes g = [] \<and> fsize g = buffer_size
    else app_drv_fifo_init f buffer buffer_size = (APP_DRV_FIFO_RESULT_LENGTH_ERROR, f)"
proof -
  have "(buffer_size \<noteq> 0 \<and> buffer_size AND (buffer_size - 1) = 0) \<longleftrightarrow>
    (\<exists>k. unat buffer_size = 2 ^ k)" (is "?t \<longleftrightarrow> ?p")
  proof
    assume ?t
    then show ?p using u16_pow2_test [of buffer_size] by blast
  next
    assume ?p
    then obtain k where k: "unat buffer_size = 2 ^ k" by blast
    then have nz: "buffer_size \<noteq> 0" by (metis power_not_zero unat_0 zero_neq_numeral)
    then have m: "unat (buffer_size - 1) = 2 ^ k - 1" using k by (simp add: unat_minus_one)
    have "unat (buffer_size AND (buffer_size - 1)) = 0"
      by (simp add: unat_and_mask_mod [OF m] k)
    with nz show ?t by (simp add: unat_eq_zero)
  qed
  then show ?thesis using assms
    by (auto simp: app_drv_fifo_init_def fifo_wf_def fifo_length_def fifo_bytes_def)
qed

theorem app_drv_fifo_init_correct_witness:
  "app_drv_fifo_init \<lparr>fbegin = 7, fend = 3, fdata = [], fsize = 0, fsize_mask = 0\<rparr>
     (replicate 8 1) 8 \<noteq>
   (APP_DRV_FIFO_RESULT_LENGTH_ERROR,
     \<lparr>fbegin = 7, fend = 3, fdata = [], fsize = 0, fsize_mask = 0\<rparr>)"
proof -
  have "\<exists>k. unat (8 :: u16) = 2 ^ k" by (rule exI [of _ 3]) simp
  then show ?thesis
    using app_drv_fifo_init_correct [of "replicate 8 1" 8
      "\<lparr>fbegin = 7, fend = 3, fdata = [], fsize = 0, fsize_mask = 0\<rparr>"]
    by auto
qed

text \<open>
  C15: \<open>app_drv_fifo_write\<close> refines an all-or-nothing append: when the block fits, its bytes are
  appended behind what is stored; when it does not, a length error is reported and the FIFO is
  unchanged; an empty block into a full FIFO reports \<open>NOT_MEM\<close>. The counters may wrap around
  16 bits at any point.
\<close>

theorem app_drv_fifo_write_refines:
  assumes "fifo_wf f" "unat len \<le> length bs"
  shows "if unat (fsize f) < length (fifo_bytes f) + unat len
    then app_drv_fifo_write (Some f) (Some bs) (Some len) =
      (APP_DRV_FIFO_RESULT_LENGTH_ERROR, Some f, Some len)
    else if length (fifo_bytes f) = unat (fsize f)
    then app_drv_fifo_write (Some f) (Some bs) (Some len) =
      (APP_DRV_FIFO_RESULT_NOT_MEM, Some f, Some len)
    else \<exists>g. app_drv_fifo_write (Some f) (Some bs) (Some len) =
      (APP_DRV_FIFO_RESULT_SUCCESS, Some g, Some len) \<and> fifo_wf g \<and> fsize g = fsize f \<and>
      fifo_bytes g = fifo_bytes f @ take (unat len) bs"
  by (rule drv_write_spec [OF assms])

theorem app_drv_fifo_write_refines_witness:
  "\<exists>g. app_drv_fifo_write
      (Some \<lparr>fbegin = 65535, fend = 65535, fdata = [0,0,0,0], fsize = 4, fsize_mask = 3\<rparr>)
      (Some [10,20,30]) (Some 3) = (APP_DRV_FIFO_RESULT_SUCCESS, Some g, Some 3) \<and>
    fifo_bytes g = [10,20,30]"
proof -
  let ?f = "\<lparr>fbegin = 65535, fend = 65535, fdata = [0,0,0,0], fsize = 4, fsize_mask = 3\<rparr>
    :: app_drv_fifo_t"
  have "fifo_wf ?f" by (simp add: fifo_wf_def fifo_length_def)
  then show ?thesis using app_drv_fifo_write_refines [of ?f 3 "[10,20,30]"]
    by (auto simp: fifo_length_def fifo_bytes_def)
qed

text \<open>
  \<open>app_drv_fifo_read\<close> hands out the oldest bytes, at most as many as asked for and stored,
  into the front of the caller's buffer, leaves the rest of that buffer and keeps the rest of the
  FIFO in order; on an empty FIFO it reports \<open>NOT_FOUND\<close> and changes nothing.
\<close>

theorem app_drv_fifo_read_refines:
  assumes "fifo_wf f" "unat len \<le> length dest"
  shows "if fifo_bytes f = []
    then app_drv_fifo_read (Some f) dest (Some len) =
      (APP_DRV_FIFO_RESULT_NOT_FOUND, Some f, dest, Some len)
    else \<exists>g n. app_drv_fifo_read (Some f) dest (Some len) =
      (APP_DRV_FIFO_RESULT_SUCCESS, Some g, take (unat n) (fifo_bytes f) @ drop (unat n) dest,
       Some n) \<and> unat n = min (unat len) (length (fifo_bytes f)) \<and> fifo_wf g \<and>
      fsize g = fsize f \<and> fifo_bytes g = drop (unat n) (fifo_bytes f)"
  by (rule drv_read_spec [OF assms])

theorem app_drv_fifo_read_refines_witness:
  "\<exists>g n. app_drv_fifo_read
      (Some \<lparr>fbegin = 65535, fend = 2, fdata = [20,30,0,10], fsize = 4, fsize_mask = 3\<rparr>)
      [1,2,3] (Some 2) = (APP_DRV_FIFO_RESULT_SUCCESS, Some g, [10,20,3], Some n) \<and>
    fifo_bytes g = [30]"
proof -
  let ?f = "\<lparr>fbegin = 65535, fend = 2, fdata = [20,30,0,10], fsize = 4, fsize_mask = 3\<rparr>
    :: app_drv_fifo_t"
  have f: "fifo_wf ?f" by (simp add: fifo_wf_def fifo_length_def)
  have b: "fifo_bytes ?f = [10,20,30]"
    by (simp add: fifo_bytes_def fifo_length_def ring_slice_def upt_rec)
  show ?thesis using app_drv_fifo_read_refines [OF f, of 2 "[1,2,3]"] by (auto simp: b)
qed

text \<open>
  C16: Stream integrity of the transmit FIFO. Over any interleaving of writes and reads it takes in and
  hands out what a queue of its size does that takes a block whole when there is room and drops it when
  there is not; it takes in whole blocks of those offered, in order, and the bytes handed out, followed by
  what is still stored, are the bytes stored at the start followed by those taken in: nothing is lost,
  duplicated, reordered or cut inside a block.
\<close>

theorem app_drv_fifo_stream:
  assumes "fifo_wf f" "ops_within 65535 os" "fifo_run drv_wr drv_rd f os = (ins, outs, g)"
  shows "queue_run (unat (fsize f)) (fifo_bytes f) os = (ins, outs, fifo_bytes g) \<and>
    (\<exists>ps. subseq ps (fifo_blocks os) \<and> ins = concat ps) \<and>
    fifo_bytes f @ ins = outs @ fifo_bytes g \<and> fifo_wf g"
  using drv.run_queue [OF assms] drv.run_stream [OF assms] drv.run_packets [OF assms] by blast

theorem app_drv_fifo_stream_witness:
  "\<exists>g. fifo_run drv_wr drv_rd \<lparr>fbegin = 0, fend = 0, fdata = [0,0,0,0], fsize = 4, fsize_mask = 3\<rparr>
     [Wr [1,2,3], Wr [4,5], Rd 2, Wr [6]] = ([1,2,3,6], [1,2], g) \<and> fifo_bytes g = [3,6]"
proof -
  let ?f = "\<lparr>fbegin = 0, fend = 0, fdata = [0,0,0,0], fsize = 4, fsize_mask = 3\<rparr>
    :: app_drv_fifo_t"
  let ?os = "[Wr [1,2,3], Wr [4,5], Rd 2, Wr [6]]"
  have f: "fifo_wf ?f" "fifo_bytes ?f = []"
    by (simp_all add: fifo_wf_def fifo_length_def fifo_bytes_def)
  obtain ins outs g where r: "fifo_run drv_wr drv_rd ?f ?os = (ins, outs, g)"
    by (cases "fifo_run drv_wr drv_rd ?f ?os")
  have w: "ops_within 65535 ?os" by simp
  from app_drv_fifo_stream [OF f(1) w r, THEN conjunct1] f(2)
  have "ins = [1,2,3,6]" "outs = [1,2]" "fifo_bytes g = [3,6]" by auto
  with r show ?thesis by auto
qed

text \<open>
  The BLE port's two-step read: \<open>app_drv_fifo_rd\<close> copies out the oldest bytes without
  changing the FIFO, and \<open>app_drv_fifo_rd_del\<close> of the same count then removes exactly these, so
  a transmission that fails between the two loses nothing.
\<close>

theorem app_drv_fifo_peek_then_delete:
  assumes "fifo_wf f" "unat n \<le> length dest" "unat n \<le> length (fifo_bytes f)"
  shows "app_drv_fifo_rd f dest n = (n, take (unat n) (fifo_bytes f) @ drop (unat n) dest) \<and>
    fifo_wf (app_drv_fifo_rd_del f n) \<and>
    fifo_bytes (app_drv_fifo_rd_del f n) = drop (unat n) (fifo_bytes f)"
  using rd_del_spec [OF assms] by blast

theorem app_drv_fifo_peek_then_delete_witness:
  "app_drv_fifo_rd \<lparr>fbegin = 65535, fend = 2, fdata = [20,30,0,10], fsize = 4, fsize_mask = 3\<rparr>
     [1,2,3] 2 = (2, [10,20,3])"
proof -
  let ?f = "\<lparr>fbegin = 65535, fend = 2, fdata = [20,30,0,10], fsize = 4, fsize_mask = 3\<rparr>
    :: app_drv_fifo_t"
  have f: "fifo_wf ?f" by (simp add: fifo_wf_def fifo_length_def)
  have b: "fifo_bytes ?f = [10,20,30]"
    by (simp add: fifo_bytes_def fifo_length_def ring_slice_def upt_rec)
  show ?thesis using app_drv_fifo_peek_then_delete [OF f, of 2 "[1,2,3]"] by (simp add: b)
qed

end
