(* ===== verification/Crc16.thy ===== *)
theory Crc16
  imports Prelude
begin

text \<open>
  The CRC-16 that guards the stored settings (\<open>ch592/INA2282USB/src/crc16.c\<close>): the nibble-table
  routine of the code, the bitwise definition of CRC-16 with the reflected polynomial 0xA001 it
  implements, and the facts the settings storage relies on.
\<close>

section \<open>The code\<close>

definition crc16_table :: "u16 list" where
  "crc16_table =
    [0x0000, 0xCC01, 0xD801, 0x1400, 0xF001, 0x3C00, 0x2800, 0xE401,
     0xA001, 0x6C00, 0x7800, 0xB401, 0x5000, 0x9C01, 0x8801, 0x4400]"

definition crc16_byte :: "u16 \<Rightarrow> u8 \<Rightarrow> u16" where
  "crc16_byte crc byte =
     (let temp = crc16_table ! unat (crc AND 0xF);
          crc = drop_bit 4 crc AND 0x0FFF;
          crc = crc XOR temp XOR crc16_table ! unat (byte AND 0xF);
          temp = crc16_table ! unat (crc AND 0xF);
          crc = drop_bit 4 crc AND 0x0FFF
      in crc XOR temp XOR crc16_table ! unat (drop_bit 4 byte AND 0xF))"

fun crc16 :: "u16 \<Rightarrow> u8 list \<Rightarrow> u16" where
  "crc16 seed [] = seed"
| "crc16 seed (b # bs) = crc16 (crc16_byte seed b) bs"

section \<open>The bitwise reference\<close>

text \<open>One bit of CRC-16 with reflected polynomial 0xA001: shift right, subtract on carry-out.\<close>

definition crc_step :: "u16 \<Rightarrow> u16" where
  "crc_step c = (if bit c 0 then drop_bit 1 c XOR 0xA001 else drop_bit 1 c)"

definition crc_ref_byte :: "u16 \<Rightarrow> u8 \<Rightarrow> u16" where
  "crc_ref_byte c b = (crc_step ^^ 8) (c XOR ucast b)"

definition crc_ref :: "u16 \<Rightarrow> u8 list \<Rightarrow> u16" where
  "crc_ref c bs = fold (\<lambda>b c. crc_ref_byte c b) bs c"

section \<open>Linearity\<close>

lemma crc_step_0 [simp]: "crc_step 0 = 0"
  by (simp add: crc_step_def)

lemma crc_step_xor: "crc_step (a XOR b) = crc_step a XOR crc_step b"
  by (auto simp: crc_step_def bit_xor_iff drop_bit_xor ac_simps)

lemma crc_steps_xor: "(crc_step ^^ n) (a XOR b) = (crc_step ^^ n) a XOR (crc_step ^^ n) b"
  by (induction n) (simp_all add: crc_step_xor)

lemma crc_steps_0 [simp]: "(crc_step ^^ n) 0 = 0"
  by (induction n) simp_all

text \<open>A word with low bits clear is only shifted.\<close>

lemma crc_steps_shift:
  "(\<forall>i < n. \<not> bit c i) \<Longrightarrow> (crc_step ^^ n) c = drop_bit n c"
proof (induction n arbitrary: c)
  case 0
  then show ?case by simp
next
  case (Suc n)
  have "crc_step c = drop_bit 1 c" using Suc.prems by (simp add: crc_step_def)
  moreover have "\<forall>i < n. \<not> bit (drop_bit 1 c) i" using Suc.prems by (simp add: bit_drop_bit_eq)
  ultimately show ?case using Suc.IH [of "drop_bit 1 c"]
    by (simp add: funpow_Suc_right del: funpow.simps)
qed

text \<open>The table holds the four-step images of the nibbles.\<close>

lemma crc16_table_nibble: "n < 16 \<Longrightarrow> crc16_table ! n = (crc_step ^^ 4) (of_nat n)"
proof -
  assume "n < 16"
  then have "n \<in> set [0..<16]" by simp
  moreover have "\<forall>n \<in> set [0..<16]. crc16_table ! n = (crc_step ^^ 4) (of_nat n)"
    by code_simp
  ultimately show ?thesis by blast
qed

lemma nibble_lt: "unat (w AND 0xF :: 'a::len word) < 16"
proof -
  have "w AND 0xF = take_bit 4 w"
    by (simp add: take_bit_eq_mask mask_eq_exp_minus_1)
  then have "unat (w AND 0xF) = take_bit 4 (unat w)"
    by (simp only: unsigned_take_bit_eq)
  then show ?thesis using take_bit_nat_less_exp [of 4 "unat w"] by simp
qed

lemma and_split: "c = (c AND m) XOR (c AND NOT m)" for c :: "'a::len word"
  by (rule bit_word_eqI) (auto simp: bit_xor_iff bit_and_iff bit_not_iff)

lemma bit_0xF [simp]: "bit (0xF :: int) i \<longleftrightarrow> i < 4"
proof -
  have *: "(0xF :: int) = mask 4" by (simp add: mask_eq_exp_minus_1)
  show ?thesis unfolding * by (auto simp: bit_mask_iff)
qed

lemma bit_0xFFF [simp]: "bit (0xFFF :: int) i \<longleftrightarrow> i < 12"
proof -
  have *: "(0xFFF :: int) = mask 12" by (simp add: mask_eq_exp_minus_1)
  show ?thesis unfolding * by (auto simp: bit_mask_iff)
qed

lemma nibble_clear: "NOT (0xF :: 'a::len word) = NOT (mask 4)"
  by (simp add: mask_eq_exp_minus_1)

lemma crc_steps4: "(crc_step ^^ 4) c = drop_bit 4 c XOR crc16_table ! unat (c AND 0xF)"
proof -
  have lo: "(crc_step ^^ 4) (c AND 0xF) = crc16_table ! unat (c AND 0xF)"
    using crc16_table_nibble [OF nibble_lt [of c]] by simp
  have "\<forall>i < 4. \<not> bit (c AND NOT 0xF) i" unfolding nibble_clear by (auto simp: bit_and_iff bit_not_iff bit_mask_iff dest: bit_imp_le_length)
  then have "(crc_step ^^ 4) (c AND NOT 0xF) = drop_bit 4 (c AND NOT 0xF)"
    by (rule crc_steps_shift)
  also have "\<dots> = drop_bit 4 c"
    unfolding nibble_clear
    by (rule bit_word_eqI) (auto simp: bit_drop_bit_eq bit_and_iff bit_not_iff bit_mask_iff
        dest: bit_imp_le_length)
  finally show ?thesis
    using lo crc_steps_xor [of 4 "c AND 0xF" "c AND NOT 0xF"] and_split [of c "0xF"]
    by (simp add: xor.commute)
qed

lemma drop4_mask: "drop_bit 4 (c :: u16) AND 0x0FFF = drop_bit 4 c"
proof -
  show ?thesis
    by (intro bit_word_eqI) (auto simp: bit_drop_bit_eq bit_and_iff dest: bit_imp_le_length)
qed

lemma byte_nibbles:
  "(ucast b :: u16) = ucast (b AND 0xF) XOR push_bit 4 (ucast (drop_bit 4 b AND 0xF))" for b :: u8
proof (rule bit_word_eqI)
  fix n
  show "bit (ucast b :: u16) n =
      bit (ucast (b AND 0xF) XOR push_bit 4 (ucast (drop_bit 4 b AND 0xF)) :: u16) n"
    using bit_imp_le_length [of b n]
    by (cases "n < 4")
       (auto simp: bit_xor_iff bit_push_bit_iff bit_and_iff bit_drop_bit_eq bit_ucast_iff)
qed

lemma crc_nibble_in:
  "(crc_step ^^ 4) (ucast (n AND 0xF :: u8)) = crc16_table ! unat (n AND 0xF)"
proof -
  have "of_nat (unat (n AND 0xF)) = (ucast (n AND 0xF) :: u16)" by simp
  then show ?thesis using crc16_table_nibble [OF nibble_lt [of n]] by simp
qed

lemma crc_push4: "(crc_step ^^ 4) (push_bit 4 (ucast (n AND 0xF :: u8))) = ucast (n AND 0xF)"
proof -
  have "(crc_step ^^ 4) (push_bit 4 (ucast (n AND 0xF :: u8))) =
      drop_bit 4 (push_bit 4 (ucast (n AND 0xF)))"
    by (rule crc_steps_shift) (simp add: bit_push_bit_iff)
  also have "\<dots> = ucast (n AND 0xF)"
    by (rule bit_word_eqI)
       (auto simp: bit_drop_bit_eq bit_push_bit_iff bit_ucast_iff bit_and_iff)
  finally show ?thesis .
qed

lemma crc16_byte_eq: "crc16_byte c b = crc_ref_byte c b"
proof -
  let ?lo = "ucast (b AND 0xF) :: u16" and ?hi = "ucast (drop_bit 4 b AND 0xF) :: u16"
  let ?c1 = "(crc_step ^^ 4) (c XOR ?lo)"
  have c1: "drop_bit 4 c XOR crc16_table ! unat (c AND 0xF) XOR crc16_table ! unat (b AND 0xF) = ?c1"
    by (simp only: crc_steps_xor crc_steps4 [of c] crc_nibble_in xor.assoc)
  have "crc16_byte c b =
      drop_bit 4 ?c1 XOR crc16_table ! unat (?c1 AND 0xF) XOR
      crc16_table ! unat (drop_bit 4 b AND 0xF)"
    by (simp only: crc16_byte_def Let_def drop4_mask c1)
  also have "\<dots> = (crc_step ^^ 4) (?c1 XOR ?hi)"
    by (simp only: crc_steps_xor [of 4 ?c1] crc_steps4 [of ?c1] crc_nibble_in xor.assoc)
  also have "?c1 XOR ?hi = (crc_step ^^ 4) (c XOR ucast b)"
    by (simp add: byte_nibbles [of b] crc_steps_xor crc_push4 xor.assoc)
  also have "(crc_step ^^ 4) ((crc_step ^^ 4) (c XOR ucast b)) = (crc_step ^^ (4 + 4)) (c XOR ucast b)"
    by (simp only: funpow_add comp_apply)
  finally show ?thesis by (simp add: crc_ref_byte_def)
qed

lemma crc16_eq_ref: "crc16 c bs = crc_ref c bs"
  by (induction bs arbitrary: c) (simp_all add: crc_ref_def crc16_byte_eq)

lemma crc16_append: "crc16 c (xs @ ys) = crc16 (crc16 c xs) ys"
  by (induction xs arbitrary: c) simp_all

section \<open>Injectivity: what the checksum detects\<close>

lemma xor_eq_0_word: "a XOR b = 0 \<longleftrightarrow> a = b" for a b :: "'a::len word"
proof
  assume "a XOR b = 0"
  then have "a XOR b XOR b = 0 XOR b" by (simp only: xor.assoc [symmetric])
  then show "a = b" by simp
qed simp

lemma crc_step_eq_0: "crc_step d = 0 \<Longrightarrow> d = 0"
proof -
  assume e: "crc_step d = 0"
  have b0: "\<not> bit d 0"
  proof
    assume "bit d 0"
    with e have "drop_bit 1 d = 0xA001" by (simp add: crc_step_def xor_eq_0_word)
    then have "bit (drop_bit 1 d) 15" by simp
    then have "bit d 16" by (simp add: bit_drop_bit_eq)
    then show False using bit_imp_le_length [of d 16] by simp
  qed
  with e have "drop_bit 1 d = 0" by (simp add: crc_step_def)
  then have "\<not> bit (drop_bit 1 d) n" for n by simp
  then have "\<not> bit d (Suc n)" for n by (simp add: bit_drop_bit_eq)
  with b0 have "\<not> bit d n" for n by (cases n) auto
  then show "d = 0" by (intro bit_word_eqI) simp
qed

lemma crc_step_inj: "crc_step a = crc_step b \<Longrightarrow> a = b"
  using crc_step_eq_0 [of "a XOR b"] by (simp add: crc_step_xor xor_eq_0_word)

lemma crc_steps_inj: "(crc_step ^^ n) a = (crc_step ^^ n) b \<Longrightarrow> a = b"
  by (induction n) (auto dest: crc_step_inj)

lemma xor_cancel_word: "a XOR x = b XOR x \<longleftrightarrow> a = b" "x XOR a = x XOR b \<longleftrightarrow> a = b"
  for a b x :: "'a::len word"
  by (metis xor.assoc xor.right_neutral xor_self_eq, metis xor.assoc xor.left_neutral xor_self_eq)

lemma crc16_byte_inj_left: "crc16_byte a x = crc16_byte b x \<Longrightarrow> a = b"
  by (auto simp: crc16_byte_eq crc_ref_byte_def xor_cancel_word dest!: crc_steps_inj)

lemma byte_ucast_inj: "(ucast x :: u16) = ucast y \<longleftrightarrow> x = y" for x y :: u8
proof
  assume "(ucast x :: u16) = ucast y"
  then have "unat (ucast x :: u16) = unat (ucast y :: u16)" by simp
  then show "x = y"
    using unat_u8_bound [of x] unat_u8_bound [of y]
    by (simp add: unsigned_ucast_eq take_bit_eq_mod word_unat_eq_iff)
qed simp

lemma crc16_byte_inj_right: "crc16_byte a x = crc16_byte a y \<Longrightarrow> x = y"
  by (auto simp: crc16_byte_eq crc_ref_byte_def xor_cancel_word byte_ucast_inj dest!: crc_steps_inj)

lemma crc16_inj_seed: "crc16 a bs = crc16 b bs \<Longrightarrow> a = b"
  by (induction bs arbitrary: a b) (auto dest: crc16_byte_inj_left)

lemma crc16_own_bytes: "crc16 c (le16 c) = 0"
proof -
  have "c XOR ucast (ucast c :: u8) = push_bit 8 (drop_bit 8 c)"
    by (rule bit_word_eqI)
       (auto simp: bit_xor_iff bit_ucast_iff bit_push_bit_iff bit_drop_bit_eq)
  then have "crc16_byte c (ucast c) = (crc_step ^^ 8) (push_bit 8 (drop_bit 8 c))"
    by (simp add: crc16_byte_eq crc_ref_byte_def)
  also have "\<dots> = drop_bit 8 (push_bit 8 (drop_bit 8 c))"
    by (rule crc_steps_shift) (simp add: bit_push_bit_iff)
  also have "\<dots> = drop_bit 8 c"
    by (rule bit_word_eqI)
       (auto simp: bit_drop_bit_eq bit_push_bit_iff dest: bit_imp_le_length)
  finally have 1: "crc16_byte c (ucast c) = drop_bit 8 c" .
  have "(ucast (ucast (drop_bit 8 c) :: u8) :: u16) = drop_bit 8 c"
    by (rule bit_word_eqI)
       (auto simp: bit_ucast_iff bit_drop_bit_eq dest: bit_imp_le_length)
  then have "crc16_byte (drop_bit 8 c) (ucast (drop_bit 8 c)) = 0"
    by (simp add: crc16_byte_eq crc_ref_byte_def)
  with 1 show ?thesis by (simp add: le16_def)
qed

lemma crc_trailer:
  "crc16 seed (bs @ [lo, hi]) = 0 \<longleftrightarrow> from_le16 lo hi = crc16 seed bs"
proof
  assume "from_le16 lo hi = crc16 seed bs"
  then have "[lo, hi] = le16 (crc16 seed bs)" by (metis le16_from_le16)
  then show "crc16 seed (bs @ [lo, hi]) = 0" by (simp only: crc16_append crc16_own_bytes)
next
  assume "crc16 seed (bs @ [lo, hi]) = 0"
  then have "crc16 (crc16 seed bs) [lo, hi] = crc16 (from_le16 lo hi) [lo, hi]"
    using crc16_own_bytes [of "from_le16 lo hi"] by (simp add: crc16_append)
  then show "from_le16 lo hi = crc16 seed bs" by (metis crc16_inj_seed)
qed

section \<open>Properties\<close>

text \<open>
  C21: the nibble-table routine computes CRC-16 (reflected polynomial 0xA001), for every seed and
  every byte string.
\<close>

theorem crc16_is_crc_a001: "crc16 seed bs = crc_ref seed bs"
  by (rule crc16_eq_ref)

text \<open>
  a record followed by two bytes passes the check of the settings loader (the CRC over all of
  it is 0) exactly when these bytes are the little-endian CRC of the record.
\<close>

theorem crc16_zero_iff_trailer:
  "crc16 seed (bs @ [lo, hi]) = 0 \<longleftrightarrow> from_le16 lo hi = crc16 seed bs"
  by (rule crc_trailer)

text \<open>
  a change of one byte anywhere in the record changes the CRC, so a stored record with one
  corrupted byte is refused.
\<close>

theorem crc16_detects_one_byte:
  "x \<noteq> y \<Longrightarrow> crc16 seed (pre @ x # post) \<noteq> crc16 seed (pre @ y # post)"
  by (auto simp: crc16_append dest!: crc16_inj_seed crc16_byte_inj_right)

theorem crc16_detects_one_byte_witness:
  "crc16 0xFFFF ([1] @ 2 # [3]) \<noteq> crc16 0xFFFF ([1] @ 3 # [3])"
  by (rule crc16_detects_one_byte) simp

end
