(* ===== verification/I2cBus.thy ===== *)
theory I2cBus
  imports CmdCfg "HOL-Library.Sublist"
begin

text \<open>
  The I2C bus driver of the CH592 port (\<open>ch592/INA2282USB/src/i2cbus.c\<close>, \<open>utils.c\<close>). The
  peripheral is an environment: a sequence of samples, one consumed by each read of a hardware
  register, so that every behaviour of the bus and of the free-running tick counter is a value of
  \<open>env\<close>. Writes update the driver's view of the control registers and are logged in order. The
  status wait and the tick delay loop on the environment and are partial functions: \<open>None\<close> is
  "does not return". A division by zero in the clock setup is \<open>None\<close> as well.
\<close>

section \<open>Registers and the environment\<close>

definition RB_I2C_PE :: u16 where [regs]: "RB_I2C_PE = 0x0001"
definition RB_I2C_SMBUS :: u16 where [regs]: "RB_I2C_SMBUS = 0x0002"
definition RB_I2C_SMBTYPE :: u16 where [regs]: "RB_I2C_SMBTYPE = 0x0008"
definition RB_I2C_NOSTRETCH :: u16 where [regs]: "RB_I2C_NOSTRETCH = 0x0080"
definition RB_I2C_START :: u16 where [regs]: "RB_I2C_START = 0x0100"
definition RB_I2C_STOP :: u16 where [regs]: "RB_I2C_STOP = 0x0200"
definition RB_I2C_ACK :: u16 where [regs]: "RB_I2C_ACK = 0x0400"
definition RB_I2C_SWRST :: u16 where [regs]: "RB_I2C_SWRST = 0x8000"
definition RB_I2C_FREQ :: u16 where [regs]: "RB_I2C_FREQ = 0x003F"

definition RB_I2C_SB :: u32 where [regs]: "RB_I2C_SB = 0x0001"
definition RB_I2C_ADDR :: u32 where [regs]: "RB_I2C_ADDR = 0x0002"
definition RB_I2C_BTF :: u32 where [regs]: "RB_I2C_BTF = 0x0004"
definition RB_I2C_RxNE :: u32 where [regs]: "RB_I2C_RxNE = 0x0040"
definition RB_I2C_TxE :: u32 where [regs]: "RB_I2C_TxE = 0x0080"
definition RB_I2C_BERR :: u32 where [regs]: "RB_I2C_BERR = 0x0100"
definition RB_I2C_ARLO :: u32 where [regs]: "RB_I2C_ARLO = 0x0200"
definition RB_I2C_AF :: u32 where [regs]: "RB_I2C_AF = 0x0400"
definition RB_I2C_OVR :: u32 where [regs]: "RB_I2C_OVR = 0x0800"
definition RB_I2C_PECERR :: u32 where [regs]: "RB_I2C_PECERR = 0x1000"
definition RB_I2C_TIMEOUT :: u32 where [regs]: "RB_I2C_TIMEOUT = 0x4000"
definition RB_I2C_SMBALERT :: u32 where [regs]: "RB_I2C_SMBALERT = 0x8000"

definition I2C_AckAddr_7bit :: u16 where [regs]: "I2C_AckAddr_7bit = 0x4000"
definition I2C_DutyCycle_2 :: u32 where [regs]: "I2C_DutyCycle_2 = 0"
definition FREQ_SYS :: u32 where [regs]: "FREQ_SYS = 60000000"

record hw_sample =
  star1 :: u16
  datar_in :: u16
  tick :: u32

type_synonym hw_env = "nat \<Rightarrow> hw_sample"

datatype sfr_write =
    W_CTRL1 u16 | W_CTRL2 u16 | W_OADDR1 u16 | W_RTR u16 | W_CKCFGR u16 | W_DATAR u16 |
    W_PINS_PU

record i2c_hw =
  ctrl1 :: u16
  ctrl2 :: u16
  sfr_log :: "sfr_write list"
  hw_pos :: nat

definition set_ctrl1 :: "u16 \<Rightarrow> i2c_hw \<Rightarrow> i2c_hw" where
  "set_ctrl1 w h = h\<lparr>ctrl1 := w, sfr_log := sfr_log h @ [W_CTRL1 w]\<rparr>"

definition set_ctrl2 :: "u16 \<Rightarrow> i2c_hw \<Rightarrow> i2c_hw" where
  "set_ctrl2 w h = h\<lparr>ctrl2 := w, sfr_log := sfr_log h @ [W_CTRL2 w]\<rparr>"

definition sfr_put :: "sfr_write \<Rightarrow> i2c_hw \<Rightarrow> i2c_hw" where
  "sfr_put w h = h\<lparr>sfr_log := sfr_log h @ [w]\<rparr>"

definition read_star1 :: "hw_env \<Rightarrow> i2c_hw \<Rightarrow> u16 \<times> i2c_hw" where
  "read_star1 env h = (star1 (env (hw_pos h)), h\<lparr>hw_pos := hw_pos h + 1\<rparr>)"

definition read_datar :: "hw_env \<Rightarrow> i2c_hw \<Rightarrow> u16 \<times> i2c_hw" where
  "read_datar env h = (datar_in (env (hw_pos h)), h\<lparr>hw_pos := hw_pos h + 1\<rparr>)"

definition GetSysTickCnt :: "hw_env \<Rightarrow> i2c_hw \<Rightarrow> u32 \<times> i2c_hw" where
  "GetSysTickCnt env h = (tick (env (hw_pos h)), h\<lparr>hw_pos := hw_pos h + 1\<rparr>)"

section \<open>Operations\<close>

text \<open>
  \<open>clk\<close> is \<open>cfg_i2c.clk_khz\<close>; \<open>W_PINS_PU\<close> is the call \<open>GPIOB_ModeCfg(I2C_DEV_SCL | I2C_DEV_SDA,
  GPIO_ModeIN_PU)\<close>.
\<close>

definition I2CBusInit :: "u16 \<Rightarrow> i2c_hw \<Rightarrow> i2c_hw option" where
  "I2CBusInit clk h =
     (let clk_khz = (ucast clk :: u32);
          h = sfr_put W_PINS_PU h;
          h = set_ctrl1 (ctrl1 h AND NOT RB_I2C_PE) h;
          h = set_ctrl1 (ctrl1 h OR RB_I2C_SWRST) h;
          h = set_ctrl1 (ctrl1 h AND NOT RB_I2C_SWRST) h;
          h = set_ctrl2 ((ctrl2 h AND NOT RB_I2C_FREQ) OR ucast (FREQ_SYS div 1000000)) h;
          h = sfr_put (W_RTR (ucast ((FREQ_SYS div 1000000 * 300) div 1000 + 1))) h
      in if clk_khz AND 0x7fff = 0 then None
         else
           (let h = sfr_put (W_CKCFGR (ucast (I2C_DutyCycle_2 OR
                      ((FREQ_SYS div 2000) div (clk_khz AND 0x7fff))))) h;
                h = set_ctrl1 (ctrl1 h OR RB_I2C_PE) h;
                h = (if clk_khz AND 0x8000 = 0 then set_ctrl1 (ctrl1 h OR RB_I2C_NOSTRETCH) h else h);
                h = set_ctrl1 (ctrl1 h OR (RB_I2C_SMBUS OR RB_I2C_SMBTYPE OR RB_I2C_ACK)) h;
                h = sfr_put (W_OADDR1 0) h;
                h = sfr_put (W_OADDR1 (I2C_AckAddr_7bit OR 0x80)) h
            in Some (set_ctrl2 0 h)))"

definition I2CBusDeInit :: "i2c_hw \<Rightarrow> i2c_hw" where
  "I2CBusDeInit h =
     (if ctrl1 h AND RB_I2C_PE \<noteq> 0
      then
        (let h = set_ctrl1 (ctrl1 h OR RB_I2C_SWRST) h;
             h = set_ctrl1 (ctrl1 h AND NOT RB_I2C_SWRST) h
         in set_ctrl1 (ctrl1 h AND NOT RB_I2C_PE) h)
      else h)"

definition i2c_err_mask :: u32 where [regs]:
  "i2c_err_mask = (RB_I2C_AF OR RB_I2C_BERR OR RB_I2C_ARLO OR RB_I2C_OVR OR RB_I2C_PECERR OR
     RB_I2C_TIMEOUT OR RB_I2C_SMBALERT)"

text \<open>
  The loop of \<open>i2c_wait_status\<close>, entered with the start tick \<open>tt\<close>. The read of \<open>STAR2\<close> only clears
  flags in the peripheral; its value is dropped.
\<close>

partial_function (option) wait_loop ::
    "hw_env \<Rightarrow> u16 \<Rightarrow> u32 \<Rightarrow> u32 \<Rightarrow> i2c_hw \<Rightarrow> (u32 \<times> i2c_hw) option" where
  [code]: "wait_loop env clk msk tt h =
     (let (st, h) = read_star1 env h; ret = (ucast st :: u32)
      in if ret AND msk \<noteq> 0
         then
           (let ret = ret AND i2c_err_mask
            in if ret \<noteq> 0 then do { h \<leftarrow> I2CBusInit clk h; Some (ret, h) } else Some (ret, h))
         else
           (let (t, h) = GetSysTickCnt env h
            in if t - tt > FREQ_SYS div 10000
               then do { h \<leftarrow> I2CBusInit clk h; Some (-1, h) }
               else wait_loop env clk msk tt h))"

definition i2c_wait_status ::
    "hw_env \<Rightarrow> u16 \<Rightarrow> u32 \<Rightarrow> i2c_hw \<Rightarrow> (u32 \<times> i2c_hw) option" where
  "i2c_wait_status env clk msk h =
     (let (tt, h) = GetSysTickCnt env h in wait_loop env clk msk tt h)"

partial_function (option) sleep_loop ::
    "hw_env \<Rightarrow> u32 \<Rightarrow> u32 \<Rightarrow> i2c_hw \<Rightarrow> i2c_hw option" where
  [code]: "sleep_loop env n tt h =
     (let (t, h) = GetSysTickCnt env h in if t - tt < n then sleep_loop env n tt h else Some h)"

definition sleep_tick :: "hw_env \<Rightarrow> u32 \<Rightarrow> i2c_hw \<Rightarrow> i2c_hw option" where
  "sleep_tick env n h = (let (tt, h) = GetSysTickCnt env h in sleep_loop env n tt h)"

definition sleep_us :: "hw_env \<Rightarrow> u32 \<Rightarrow> i2c_hw \<Rightarrow> i2c_hw option" where
  "sleep_us env us = sleep_tick env (us * (FREQ_SYS div 1000000))"

definition sleep_ms :: "hw_env \<Rightarrow> u32 \<Rightarrow> i2c_hw \<Rightarrow> i2c_hw option" where
  "sleep_ms env ms = sleep_tick env (ms * (FREQ_SYS div 1000))"

text \<open>
  The transfer functions are chains "wait; if the status is 0, go on". \<open>wait_then\<close> is one link:
  a non-zero status ends the chain with that status.
\<close>

definition wait_then ::
    "hw_env \<Rightarrow> u16 \<Rightarrow> u32 \<Rightarrow> i2c_hw \<Rightarrow> (i2c_hw \<Rightarrow> (u32 \<times> i2c_hw) option) \<Rightarrow>
     (u32 \<times> i2c_hw) option" where
  "wait_then env clk msk h k =
     do { (ret, h) \<leftarrow> i2c_wait_status env clk msk h; if ret = 0 then k h else Some (ret, h) }"

abbreviation put_datar :: "u16 \<Rightarrow> i2c_hw \<Rightarrow> i2c_hw" where
  "put_datar d \<equiv> sfr_put (W_DATAR d)"

definition i2c_stop :: "u32 \<times> i2c_hw \<Rightarrow> u32 \<times> i2c_hw" where
  "i2c_stop = (\<lambda>(ret, h). (ret, set_ctrl1 (ctrl1 h OR RB_I2C_STOP) h))"

definition I2CBusWriteWord ::
    "hw_env \<Rightarrow> u16 \<Rightarrow> u8 \<Rightarrow> u8 \<Rightarrow> u16 \<Rightarrow> i2c_hw \<Rightarrow> (u32 \<times> i2c_hw) option" where
  "I2CBusWriteWord env clk i2c_addr reg_addr reg_data h =
     (if ctrl1 h AND RB_I2C_PE = 0 then Some (-1, h)
      else
        (let h = set_ctrl1 (ctrl1 h AND NOT RB_I2C_STOP) h;
             h = sfr_put (W_OADDR1 (I2C_AckAddr_7bit OR ucast i2c_addr)) h;
             h = set_ctrl1 (ctrl1 h OR RB_I2C_START) h
         in map_option i2c_stop
           (wait_then env clk RB_I2C_SB h (\<lambda>h.
            wait_then env clk RB_I2C_ADDR (put_datar (ucast i2c_addr) h) (\<lambda>h.
            wait_then env clk (RB_I2C_TxE OR RB_I2C_BTF) (put_datar (ucast reg_addr) h) (\<lambda>h.
            wait_then env clk (RB_I2C_TxE OR RB_I2C_BTF) (put_datar (drop_bit 8 reg_data) h) (\<lambda>h.
            i2c_wait_status env clk (RB_I2C_TxE OR RB_I2C_BTF) (put_datar reg_data h))))))))"

text \<open>
  Both readers share the address phase; \<open>recv\<close> is the data phase. The caller's buffer \<open>pbuf\<close> is
  returned updated beside the status.
\<close>

type_synonym rd_res = "(u32 \<times> i2c_hw \<times> u8 list) option"

definition wait_then_buf ::
    "hw_env \<Rightarrow> u16 \<Rightarrow> u32 \<Rightarrow> i2c_hw \<Rightarrow> u8 list \<Rightarrow> (i2c_hw \<Rightarrow> rd_res) \<Rightarrow> rd_res" where
  "wait_then_buf env clk msk h pbuf k =
     do { (ret, h) \<leftarrow> i2c_wait_status env clk msk h; if ret = 0 then k h else Some (ret, h, pbuf) }"

definition i2c_stop_buf :: "u32 \<times> i2c_hw \<times> u8 list \<Rightarrow> u32 \<times> i2c_hw \<times> u8 list" where
  "i2c_stop_buf = (\<lambda>(ret, h, pbuf). (ret, set_ctrl1 (ctrl1 h OR RB_I2C_STOP) h, pbuf))"

definition i2c_read_reg ::
    "hw_env \<Rightarrow> u16 \<Rightarrow> u8 \<Rightarrow> u8 \<Rightarrow> u8 list \<Rightarrow> (i2c_hw \<Rightarrow> rd_res) \<Rightarrow> i2c_hw \<Rightarrow> rd_res" where
  "i2c_read_reg env clk i2c_addr reg_addr pbuf recv h =
     (if ctrl1 h AND RB_I2C_PE = 0 then Some (-1, h, pbuf)
      else
        (let h = set_ctrl1 (ctrl1 h AND NOT RB_I2C_STOP) h;
             h = sfr_put (W_OADDR1 (I2C_AckAddr_7bit OR ucast i2c_addr)) h;
             h = set_ctrl1 (ctrl1 h OR RB_I2C_START) h
         in map_option i2c_stop_buf
           (wait_then_buf env clk RB_I2C_SB h pbuf (\<lambda>h.
            wait_then_buf env clk RB_I2C_ADDR (put_datar (ucast i2c_addr) h) pbuf (\<lambda>h.
            wait_then_buf env clk (RB_I2C_TxE OR RB_I2C_BTF) (put_datar (ucast reg_addr) h) pbuf (\<lambda>h.
            let h = sfr_put (W_OADDR1 (I2C_AckAddr_7bit OR ucast i2c_addr OR 1)) h;
                h = set_ctrl1 (ctrl1 h OR (RB_I2C_ACK OR RB_I2C_START)) h
            in wait_then_buf env clk RB_I2C_SB h pbuf (\<lambda>h.
            wait_then_buf env clk RB_I2C_ADDR (put_datar (ucast (i2c_addr OR 1)) h) pbuf recv)))))))"

definition I2CBusReadWord ::
    "hw_env \<Rightarrow> u16 \<Rightarrow> u8 \<Rightarrow> u8 \<Rightarrow> u8 list \<Rightarrow> i2c_hw \<Rightarrow> rd_res" where
  "I2CBusReadWord env clk i2c_addr reg_addr pbuf h =
     i2c_read_reg env clk i2c_addr reg_addr pbuf (\<lambda>h.
       wait_then_buf env clk RB_I2C_RxNE h pbuf (\<lambda>h.
       let h = set_ctrl1 (ctrl1 h AND NOT RB_I2C_ACK) h;
           (d, h) = read_datar env h;
           pbuf = pbuf[1 := ucast d]
       in wait_then_buf env clk RB_I2C_RxNE h pbuf (\<lambda>h.
       let (d, h) = read_datar env h in Some (0, h, pbuf[0 := ucast d])))) h"

definition I2CBusRead24bits ::
    "hw_env \<Rightarrow> u16 \<Rightarrow> u8 \<Rightarrow> u8 \<Rightarrow> u8 list \<Rightarrow> i2c_hw \<Rightarrow> rd_res" where
  "I2CBusRead24bits env clk i2c_addr reg_addr pbuf h =
     i2c_read_reg env clk i2c_addr reg_addr pbuf (\<lambda>h.
       wait_then_buf env clk RB_I2C_RxNE h pbuf (\<lambda>h.
       let (d, h) = read_datar env h; pbuf = pbuf[2 := ucast d]
       in wait_then_buf env clk RB_I2C_RxNE h pbuf (\<lambda>h.
       let h = set_ctrl1 (ctrl1 h AND NOT RB_I2C_ACK) h;
           (d, h) = read_datar env h;
           pbuf = pbuf[1 := ucast d]
       in wait_then_buf env clk RB_I2C_RxNE h pbuf (\<lambda>h.
       let (d, h) = read_datar env h in Some (0, h, pbuf[0 := ucast d]))))) h"

section \<open>What a call leaves behind\<close>

text \<open>The bytes put on the wire, in order.\<close>

fun wire_of :: "sfr_write list \<Rightarrow> u8 list" where
  "wire_of [] = []"
| "wire_of (W_DATAR d # ws) = ucast d # wire_of ws"
| "wire_of (_ # ws) = wire_of ws"

abbreviation wire :: "i2c_hw \<Rightarrow> u8 list" where
  "wire h \<equiv> wire_of (sfr_log h)"

definition clk_ok :: "u16 \<Rightarrow> bool" where
  "clk_ok clk \<longleftrightarrow> (ucast clk :: u32) AND 0x7fff \<noteq> 0"

lemma wire_of_append [simp]: "wire_of (xs @ ys) = wire_of xs @ wire_of ys"
  by (induction xs rule: wire_of.induct) simp_all

lemma wire_simps [simp]:
  "wire (set_ctrl1 w h) = wire h" "wire (set_ctrl2 w h) = wire h"
  "wire (sfr_put (W_OADDR1 w) h) = wire h" "wire (sfr_put (W_RTR w) h) = wire h"
  "wire (sfr_put (W_CKCFGR w) h) = wire h" "wire (sfr_put W_PINS_PU h) = wire h" "wire (put_datar w h) = wire h @ [ucast w]"
  by (simp_all add: set_ctrl1_def set_ctrl2_def sfr_put_def)

lemma ctrl1_simps [simp]:
  "ctrl1 (set_ctrl1 w h) = w" "ctrl1 (set_ctrl2 w h) = ctrl1 h" "ctrl1 (sfr_put x h) = ctrl1 h"
  by (simp_all add: set_ctrl1_def set_ctrl2_def sfr_put_def)

lemma hw_pos_simps [simp]:
  "hw_pos (set_ctrl1 w h) = hw_pos h" "hw_pos (set_ctrl2 w h) = hw_pos h"
  "hw_pos (sfr_put x h) = hw_pos h"
  by (simp_all add: set_ctrl1_def set_ctrl2_def sfr_put_def)

lemma I2CBusInit_wire: "I2CBusInit clk h = Some h' \<Longrightarrow> wire h' = wire h"
  by (auto simp: I2CBusInit_def Let_def split: if_splits)

lemma I2CBusInit_total: "clk_ok clk \<Longrightarrow> \<exists>h'. I2CBusInit clk h = Some h'"
  by (simp add: I2CBusInit_def Let_def clk_ok_def)

lemma I2CBusDeInit_wire [simp]: "wire (I2CBusDeInit h) = wire h"
  by (simp add: I2CBusDeInit_def Let_def)

text \<open>The log of writes and the samples consumed only grow.\<close>

definition hw_ext :: "i2c_hw \<Rightarrow> i2c_hw \<Rightarrow> bool" where
  "hw_ext h h' \<longleftrightarrow> prefix (sfr_log h) (sfr_log h') \<and> hw_pos h \<le> hw_pos h'"

lemma hw_ext_simps [simp]:
  "hw_ext h h" "hw_ext h (set_ctrl1 w h)" "hw_ext h (sfr_put x h)" "hw_pos h \<le> p \<Longrightarrow> hw_ext h (h\<lparr>hw_pos := p\<rparr>)"
  by (simp_all add: hw_ext_def set_ctrl1_def sfr_put_def)

lemma hw_ext_trans [trans]: "hw_ext a b \<Longrightarrow> hw_ext b c \<Longrightarrow> hw_ext a c"
  unfolding hw_ext_def by (blast intro: prefix_order.trans order_trans)

text \<open>A wait that reports success has only consumed samples; any wait keeps the wire.\<close>

definition waited :: "i2c_hw \<Rightarrow> u32 \<Rightarrow> i2c_hw \<Rightarrow> bool" where
  "waited h ret h' \<longleftrightarrow> wire h' = wire h \<and> hw_ext h h' \<and>
     (ret = 0 \<longrightarrow> (\<exists>p > hw_pos h. h' = h\<lparr>hw_pos := p\<rparr>))"

lemma I2CBusInit_ext: "I2CBusInit clk h = Some h' \<Longrightarrow> hw_ext h h'"
  by (auto simp: I2CBusInit_def Let_def set_ctrl1_def set_ctrl2_def sfr_put_def hw_ext_def split: if_splits)

lemma waited_init:
  assumes "I2CBusInit clk (h\<lparr>hw_pos := p\<rparr>) = Some h'" "ret \<noteq> 0" "hw_pos h \<le> p"
  shows "waited h ret h'"
  using assms I2CBusInit_wire [OF assms(1)] hw_ext_trans [OF hw_ext_simps(4) [OF assms(3)] I2CBusInit_ext [OF assms(1)]]
  by (simp add: waited_def)

lemma waited_later:
  assumes "waited (h\<lparr>hw_pos := q\<rparr>) ret h'" "hw_pos h \<le> q"
  shows "waited h ret h'"
proof -
  have "\<exists>p > hw_pos h. h' = h\<lparr>hw_pos := p\<rparr>" if "\<exists>p > q. h' = h\<lparr>hw_pos := p\<rparr>"
    using that assms(2) by (metis le_less_trans)
  moreover have "hw_ext h h'" using hw_ext_trans [OF hw_ext_simps(4) [OF assms(2)]] assms(1) by (simp add: waited_def)
  ultimately show ?thesis using assms(1) by (auto simp: waited_def)
qed

lemma wait_loop_waited_aux:
  assumes major: "wait_loop env clk msk tt h = Some y"
  shows "waited h (fst y) (snd y)"
proof (rule wait_loop.raw_induct
    [where P = "\<lambda>env clk msk tt h y. waited h (fst y) (snd y)", OF _ major])
  fix f env clk msk tt h and y :: "u32 \<times> i2c_hw"
  assume IH: "\<And>env clk msk tt h y. f env clk msk tt h = Some y \<Longrightarrow> waited h (fst y) (snd y)"
    and hyps: "(let (st, h) = read_star1 env h; ret = (ucast st :: u32)
      in if ret AND msk \<noteq> 0
         then let ret = ret AND i2c_err_mask
              in if ret \<noteq> 0 then I2CBusInit clk h \<bind> (\<lambda>h. Some (ret, h)) else Some (ret, h)
         else let (t, h) = GetSysTickCnt env h
              in if FREQ_SYS div 10000 < t - tt then I2CBusInit clk h \<bind> (\<lambda>h. Some (- 1, h))
                 else f env clk msk tt h) = Some y"
  let ?ret = "ucast (star1 (env (hw_pos h))) :: u32"
  let ?h1 = "h\<lparr>hw_pos := hw_pos h + 1\<rparr>" and ?h2 = "h\<lparr>hw_pos := hw_pos h + 2\<rparr>"
  consider (err) "?ret AND msk \<noteq> 0" "?ret AND i2c_err_mask \<noteq> 0"
    | (ok) "?ret AND msk \<noteq> 0" "?ret AND i2c_err_mask = 0"
    | (late) "?ret AND msk = 0" "tick (env (hw_pos h + 1)) - tt > FREQ_SYS div 10000"
    | (again) "?ret AND msk = 0" "\<not> tick (env (hw_pos h + 1)) - tt > FREQ_SYS div 10000"
    by blast
  then show "waited h (fst y) (snd y)"
  proof cases
    case err
    with hyps obtain h' where "I2CBusInit clk ?h1 = Some h'" "y = (?ret AND i2c_err_mask, h')"
      by (auto simp: read_star1_def Let_def bind_eq_Some_conv)
    with waited_init [OF this(1) err(2)] show ?thesis by simp
  next
    case ok
    with hyps have "y = (0, ?h1)" by (simp add: read_star1_def Let_def)
    then show ?thesis by (auto simp: waited_def intro!: exI [of _ "hw_pos h + 1"])
  next
    case late
    with hyps obtain h' where "I2CBusInit clk ?h2 = Some h'" "y = (-1, h')"
      by (auto simp: read_star1_def GetSysTickCnt_def Let_def bind_eq_Some_conv)
    then show ?thesis by (auto intro: waited_init)
  next
    case again
    with hyps have "f env clk msk tt ?h2 = Some y"
      by (simp add: read_star1_def GetSysTickCnt_def Let_def)
    then have "waited ?h2 (fst y) (snd y)" by (rule IH)
    then show ?thesis by (rule waited_later) simp
  qed
qed

lemma wait_status_waited:
  assumes "i2c_wait_status env clk msk h = Some (ret, h')"
  shows "waited h ret h'"
proof -
  have "wait_loop env clk msk (tick (env (hw_pos h))) (h\<lparr>hw_pos := hw_pos h + 1\<rparr>) = Some (ret, h')"
    using assms by (simp add: i2c_wait_status_def GetSysTickCnt_def)
  from wait_loop_waited_aux [OF this] have "waited (h\<lparr>hw_pos := hw_pos h + 1\<rparr>) ret h'" by simp
  then show ?thesis by (rule waited_later) simp
qed

text \<open>One link of a chain: it fails with the wire as it was, or the rest runs from there.\<close>

lemma wait_thenE:
  assumes "wait_then env clk msk h k = Some (ret, h')"
  obtains (fail) "ret \<noteq> 0" "wire h' = wire h"
    | (go) p where "p > hw_pos h" "k (h\<lparr>hw_pos := p\<rparr>) = Some (ret, h')"
proof -
  from assms obtain r1 h1 where w: "i2c_wait_status env clk msk h = Some (r1, h1)"
    and k: "(if r1 = 0 then k h1 else Some (r1, h1)) = Some (ret, h')"
    unfolding wait_then_def bind_eq_Some_conv by auto
  note wd = wait_status_waited [OF w, unfolded waited_def]
  show thesis
  proof (cases "r1 = 0")
    case True
    with wd obtain p where "p > hw_pos h" "h1 = h\<lparr>hw_pos := p\<rparr>" by auto
    with k True show thesis by (intro go [of p]) simp_all
  next
    case False
    with wd k show thesis by (intro fail) auto
  qed
qed

lemma wait_then_bufE:
  assumes "wait_then_buf env clk msk h pbuf k = Some (ret, h', pbuf')"
  obtains (fail) "ret \<noteq> 0" "wire h' = wire h" "pbuf' = pbuf"
    | (go) p where "p > hw_pos h" "k (h\<lparr>hw_pos := p\<rparr>) = Some (ret, h', pbuf')"
proof -
  from assms obtain r1 h1 where w: "i2c_wait_status env clk msk h = Some (r1, h1)"
    and k: "(if r1 = 0 then k h1 else Some (r1, h1, pbuf)) = Some (ret, h', pbuf')"
    unfolding wait_then_buf_def bind_eq_Some_conv by auto
  note wd = wait_status_waited [OF w, unfolded waited_def]
  show thesis
  proof (cases "r1 = 0")
    case True
    with wd obtain p where "p > hw_pos h" "h1 = h\<lparr>hw_pos := p\<rparr>" by auto
    with k True show thesis by (intro go [of p]) simp_all
  next
    case False
    with wd k show thesis by (intro fail) auto
  qed
qed


lemma wire_hw_pos [simp]: "wire (h\<lparr>hw_pos := p\<rparr>) = wire h"
  by simp

lemma write_word_wire:
  assumes "I2CBusWriteWord env clk a r d h = Some (ret, h')" "ctrl1 h AND RB_I2C_PE \<noteq> 0"
  shows "\<exists>bs. wire h' = wire h @ bs \<and> prefix bs [a, r, ucast (drop_bit 8 d), ucast d] \<and>
    (ret = 0 \<longrightarrow> bs = [a, r, ucast (drop_bit 8 d), ucast d]) \<and>
    (\<exists>c. ctrl1 h' = c OR RB_I2C_STOP \<and> last (sfr_log h') = W_CTRL1 (ctrl1 h'))"
proof -
  obtain h1 where h': "h' = set_ctrl1 (ctrl1 h1 OR RB_I2C_STOP) h1" and
    run: "wait_then env clk RB_I2C_SB
      (set_ctrl1 (ctrl1 h AND NOT RB_I2C_STOP OR RB_I2C_START)
        (sfr_put (W_OADDR1 (I2C_AckAddr_7bit OR ucast a)) (set_ctrl1 (ctrl1 h AND NOT RB_I2C_STOP) h)))
      (\<lambda>h. wait_then env clk RB_I2C_ADDR (put_datar (ucast a) h) (\<lambda>h.
        wait_then env clk (RB_I2C_TxE OR RB_I2C_BTF) (put_datar (ucast r) h) (\<lambda>h.
        wait_then env clk (RB_I2C_TxE OR RB_I2C_BTF) (put_datar (drop_bit 8 d) h) (\<lambda>h.
        i2c_wait_status env clk (RB_I2C_TxE OR RB_I2C_BTF) (put_datar d h))))) = Some (ret, h1)"
    using assms by (auto simp: I2CBusWriteWord_def i2c_stop_def Let_def)
  have tail: "\<exists>c. ctrl1 h' = c OR RB_I2C_STOP \<and> last (sfr_log h') = W_CTRL1 (ctrl1 h')"
    unfolding h' by (auto simp: set_ctrl1_def)
  have "\<exists>bs. wire h1 = wire h @ bs \<and> prefix bs [a, r, ucast (drop_bit 8 d), ucast d] \<and>
    (ret = 0 \<longrightarrow> bs = [a, r, ucast (drop_bit 8 d), ucast d])"
    using run
  proof (cases rule: wait_thenE)
    case (go p)
    from go(2) show ?thesis
    proof (cases rule: wait_thenE)
      case (go p)
      from go(2) show ?thesis
      proof (cases rule: wait_thenE)
        case (go p)
        from go(2) show ?thesis
        proof (cases rule: wait_thenE)
          case (go p)
          from wait_status_waited [OF go(2)] show ?thesis by (simp add: waited_def)
        qed auto
      qed auto
    qed auto
  qed auto
  with tail show ?thesis unfolding h' by simp
qed

lemma read_regE:
  assumes "i2c_read_reg env clk a r pbuf recv h = Some (ret, h', pbuf')" "ctrl1 h AND RB_I2C_PE \<noteq> 0"
  obtains (fail) bs where "ret \<noteq> 0" "wire h' = wire h @ bs" "prefix bs [a, r, a OR 1]" "pbuf' = pbuf"
    | (recv) h0 h1 where "wire h0 = wire h @ [a, r, a OR 1]" "recv h0 = Some (ret, h1, pbuf')"
      "h' = set_ctrl1 (ctrl1 h1 OR RB_I2C_STOP) h1" "hw_pos h < hw_pos h0"
proof -
  let ?h1 = "set_ctrl1 (ctrl1 h AND NOT RB_I2C_STOP OR RB_I2C_START)
    (sfr_put (W_OADDR1 (I2C_AckAddr_7bit OR ucast a)) (set_ctrl1 (ctrl1 h AND NOT RB_I2C_STOP) h))"
  obtain h1 where h': "h' = set_ctrl1 (ctrl1 h1 OR RB_I2C_STOP) h1" and
    run: "wait_then_buf env clk RB_I2C_SB ?h1 pbuf (\<lambda>h.
      wait_then_buf env clk RB_I2C_ADDR (put_datar (ucast a) h) pbuf (\<lambda>h.
      wait_then_buf env clk (RB_I2C_TxE OR RB_I2C_BTF) (put_datar (ucast r) h) pbuf (\<lambda>h.
      let h = sfr_put (W_OADDR1 (I2C_AckAddr_7bit OR ucast a OR 1)) h;
          h = set_ctrl1 (ctrl1 h OR (RB_I2C_ACK OR RB_I2C_START)) h
      in wait_then_buf env clk RB_I2C_SB h pbuf (\<lambda>h.
      wait_then_buf env clk RB_I2C_ADDR (put_datar (ucast (a OR 1)) h) pbuf recv)))) =
      Some (ret, h1, pbuf')"
    using assms by (auto simp: i2c_read_reg_def i2c_stop_buf_def Let_def)
  note stop = fail recv
  from run show thesis
  proof (cases rule: wait_then_bufE)
    case fail
    then show thesis using stop(1) [of "[]"] h' by simp
  next
    case (go p)
    note at1 = go(1)
    from go(2) show thesis
    proof (cases rule: wait_then_bufE)
      case fail
      then show thesis using stop(1) [of "[a]"] h' by simp
    next
      case (go p)
      note at2 = go(1)
      from go(2) show thesis
      proof (cases rule: wait_then_bufE)
        case fail
        then show thesis using stop(1) [of "[a, r]"] h' by simp
      next
        case (go p)
        note at3 = go(1)
        from go(2) show thesis unfolding Let_def
        proof (cases rule: wait_then_bufE)
          case fail
          then show thesis using stop(1) [of "[a, r]"] h' by simp
        next
          case (go p)
          note at4 = go(1)
          from go(2) show thesis
          proof (cases rule: wait_then_bufE)
            case fail
            then show thesis using stop(1) [of "[a, r, a OR 1]"] h' by simp
          next
            case (go p)
            note at5 = go(1)
            show thesis by (rule stop(2) [OF _ go(2) h']) (use at1 at2 at3 at4 at5 in simp_all)
          qed
        qed
      qed
    qed
  qed
qed

lemma nack_stop: "(c AND NOT RB_I2C_ACK OR RB_I2C_STOP) AND RB_I2C_ACK = 0"
proof -
  have "RB_I2C_STOP AND RB_I2C_ACK = 0" by (simp add: regs)
  then show ?thesis by (simp add: bit.conj_disj_distrib2 and.assoc)
qed

lemma read_word_spec:
  assumes "I2CBusReadWord env clk a r pbuf h = Some (ret, h', pbuf')" "ctrl1 h AND RB_I2C_PE \<noteq> 0"
  shows "\<exists>bs. wire h' = wire h @ bs \<and> prefix bs [a, r, a OR 1] \<and> length pbuf' = length pbuf \<and>
    (ret = 0 \<longrightarrow> bs = [a, r, a OR 1] \<and> ctrl1 h' AND RB_I2C_ACK = 0 \<and>
      (\<exists>p q. hw_pos h < p \<and> p < q \<and> q < hw_pos h' \<and> pbuf' = pbuf[1 := ucast (datar_in (env p)), 0 := ucast (datar_in (env q))]))"
  using assms unfolding I2CBusReadWord_def
proof (cases rule: read_regE)
  case fail
  then show ?thesis by auto
next
  case (recv h0 h1)
  note h' = recv(3) and w = recv(1) and start = recv(4)
  from recv(2) show ?thesis
  proof (cases rule: wait_then_bufE)
    case fail
    then show ?thesis using h' w by auto
  next
    case (go p)
    note go_p = go(1)
    let ?b1 = "pbuf[1 := ucast (datar_in (env p))]"
      and ?h2 = "set_ctrl1 (ctrl1 h0 AND NOT RB_I2C_ACK) (h0\<lparr>hw_pos := p\<rparr>)"
    from go(2) have "wait_then_buf env clk RB_I2C_RxNE (?h2\<lparr>hw_pos := Suc p\<rparr>) ?b1
        (\<lambda>h. let (d, h) = read_datar env h in Some (0, h, ?b1[0 := ucast d])) = Some (ret, h1, pbuf')"
      by (simp add: read_datar_def Let_def)
    then show ?thesis
    proof (cases rule: wait_then_bufE)
      case fail
      then show ?thesis using h' w by auto
    next
      case (go q)
      then have "p < q" "pbuf' = ?b1[0 := ucast (datar_in (env q))]" "hw_pos h1 = Suc q"
        "ctrl1 h1 = ctrl1 h0 AND NOT RB_I2C_ACK" "wire h1 = wire h0"
        by (auto simp: read_datar_def)
      moreover have "hw_pos h < p" using go_p start by simp
      ultimately show ?thesis using h' w by (auto simp: nack_stop)
    qed
  qed
qed

lemma read_24bits_spec:
  assumes "I2CBusRead24bits env clk a r pbuf h = Some (ret, h', pbuf')" "ctrl1 h AND RB_I2C_PE \<noteq> 0"
  shows "\<exists>bs. wire h' = wire h @ bs \<and> prefix bs [a, r, a OR 1] \<and> length pbuf' = length pbuf \<and>
    (ret = 0 \<longrightarrow> bs = [a, r, a OR 1] \<and> ctrl1 h' AND RB_I2C_ACK = 0 \<and>
      (\<exists>p q s. hw_pos h < p \<and> p < q \<and> q < s \<and> s < hw_pos h' \<and> pbuf' = pbuf[2 := ucast (datar_in (env p)),
         1 := ucast (datar_in (env q)), 0 := ucast (datar_in (env s))]))"
  using assms unfolding I2CBusRead24bits_def
proof (cases rule: read_regE)
  case fail
  then show ?thesis by auto
next
  case (recv h0 h1)
  note h' = recv(3) and w = recv(1) and start = recv(4)
  from recv(2) show ?thesis
  proof (cases rule: wait_then_bufE)
    case fail
    then show ?thesis using h' w by auto
  next
    case (go p)
    have hp: "hw_pos h < p" using go(1) start by simp
    let ?b1 = "pbuf[2 := ucast (datar_in (env p))]"
    from go(2) have "wait_then_buf env clk RB_I2C_RxNE (h0\<lparr>hw_pos := Suc p\<rparr>) ?b1 (\<lambda>h.
       let h = set_ctrl1 (ctrl1 h AND NOT RB_I2C_ACK) h;
           (d, h) = read_datar env h;
           pbuf = ?b1[1 := ucast d]
       in wait_then_buf env clk RB_I2C_RxNE h pbuf (\<lambda>h.
       let (d, h) = read_datar env h in Some (0, h, pbuf[0 := ucast d]))) = Some (ret, h1, pbuf')"
      by (simp add: read_datar_def Let_def)
    then show ?thesis
    proof (cases rule: wait_then_bufE)
      case fail
      then show ?thesis using h' w by auto
    next
      case (go q)
      let ?b2 = "?b1[1 := ucast (datar_in (env q))]"
        and ?h2 = "set_ctrl1 (ctrl1 h0 AND NOT RB_I2C_ACK) (h0\<lparr>hw_pos := q\<rparr>)"
      have pq: "p < q" using go(1) by simp
      from go(2) have "wait_then_buf env clk RB_I2C_RxNE (?h2\<lparr>hw_pos := Suc q\<rparr>) ?b2
          (\<lambda>h. let (d, h) = read_datar env h in Some (0, h, ?b2[0 := ucast d])) = Some (ret, h1, pbuf')"
        by (simp add: read_datar_def Let_def)
      then show ?thesis
      proof (cases rule: wait_then_bufE)
        case fail
        then show ?thesis using h' w by auto
      next
        case (go s)
        then have "q < s" "pbuf' = ?b2[0 := ucast (datar_in (env s))]" "hw_pos h1 = Suc s"
          "ctrl1 h1 = ctrl1 h0 AND NOT RB_I2C_ACK" "wire h1 = wire h0"
          by (auto simp: read_datar_def)
        then show ?thesis using h' w pq hp by (auto simp: nack_stop)
      qed
    qed
  qed
qed

section \<open>Termination: no bus behaviour can hang the driver while the clock runs\<close>

text \<open>
  The tick counter passes every distance from every sample on (the samples between, read from the
  status register, are arbitrary).
\<close>

definition clock_runs :: "hw_env \<Rightarrow> bool" where
  "clock_runs env \<longleftrightarrow> (\<forall>p n. \<exists>k. n \<le> tick (env (p + 2 * k)) - tick (env p))"

lemma wait_loop_total_aux:
  assumes "clk_ok clk" "FREQ_SYS div 10000 < tick (env (p + 2 * k)) - tick (env p)"
  shows "j < k \<Longrightarrow> hw_pos h = Suc (p + 2 * j) \<Longrightarrow>
    \<exists>r. wait_loop env clk msk (tick (env p)) h = Some r"
proof (induction "k - j" arbitrary: j h)
  case 0
  then show ?case by simp
next
  case (Suc n)
  let ?ret = "ucast (star1 (env (hw_pos h))) :: u32" and ?t = "tick (env (p + 2 * Suc j))"
  let ?h2 = "h\<lparr>hw_pos := hw_pos h + 2\<rparr>"
  obtain h1 where h1: "I2CBusInit clk (h\<lparr>hw_pos := Suc (hw_pos h)\<rparr>) = Some h1"
    using I2CBusInit_total [OF assms(1)] by blast
  obtain h2 where h2: "I2CBusInit clk ?h2 = Some h2"
    using I2CBusInit_total [OF assms(1)] by blast
  show ?case
  proof (cases "?ret AND msk = 0 \<and> \<not> ?t - tick (env p) > FREQ_SYS div 10000")
    case True
    then have "Suc j \<noteq> k" using assms(2) by auto
    with Suc.prems have "Suc j < k" by simp
    moreover have "n = k - Suc j" using Suc.hyps(2) by simp
    ultimately obtain r where "wait_loop env clk msk (tick (env p)) ?h2 = Some r"
      using Suc.hyps(1) [of "Suc j" ?h2] Suc.prems by auto
    then show ?thesis using True Suc.prems
      by (subst wait_loop.simps) (simp add: read_star1_def GetSysTickCnt_def Let_def)
  next
    case False
    then show ?thesis using h1 h2 Suc.prems
      by (subst wait_loop.simps) (auto simp: read_star1_def GetSysTickCnt_def Let_def)
  qed
qed

lemma wait_status_total:
  assumes "clock_runs env" "clk_ok clk"
  shows "\<exists>ret h'. i2c_wait_status env clk msk h = Some (ret, h')"
proof -
  let ?p = "hw_pos h"
  obtain k where "FREQ_SYS div 10000 + 1 \<le> tick (env (?p + 2 * k)) - tick (env ?p)"
    using assms(1) by (auto simp: clock_runs_def)
  then have k: "FREQ_SYS div 10000 < tick (env (?p + 2 * k)) - tick (env ?p)"
    by (simp add: regs word_le_nat_alt word_less_nat_alt)
  then have "0 < k" by (cases k) auto
  with wait_loop_total_aux [OF assms(2) k, of 0] show ?thesis
    by (auto simp: i2c_wait_status_def GetSysTickCnt_def)
qed

lemma sleep_loop_total_aux:
  assumes "n \<le> tick (env q) - tt"
  shows "hw_pos h \<le> q \<Longrightarrow> \<exists>h'. sleep_loop env n tt h = Some h'"
proof (induction "q - hw_pos h" arbitrary: h)
  case 0
  then have "hw_pos h = q" by simp
  then show ?case using assms by (subst sleep_loop.simps) (auto simp: GetSysTickCnt_def dest: leD)
next
  case (Suc d)
  then have "hw_pos (h\<lparr>hw_pos := Suc (hw_pos h)\<rparr>) \<le> q"
    "d = q - hw_pos (h\<lparr>hw_pos := Suc (hw_pos h)\<rparr>)" by simp_all
  from Suc.hyps(1) [OF this(2,1)]
  show ?case by (subst sleep_loop.simps) (auto simp: GetSysTickCnt_def)
qed

lemma sleep_tick_total:
  assumes "clock_runs env"
  shows "\<exists>h'. sleep_tick env n h = Some h'"
proof -
  let ?p = "hw_pos h"
  obtain k where k: "n \<le> tick (env (?p + 2 * k)) - tick (env ?p)"
    using assms by (auto simp: clock_runs_def)
  show ?thesis
  proof (cases "k = 0")
    case True
    with k have "n = 0" by simp
    then show ?thesis
      by (simp add: sleep_tick_def GetSysTickCnt_def) (subst sleep_loop.simps, simp add: GetSysTickCnt_def)
  next
    case False
    then have "Suc ?p \<le> ?p + 2 * k" by simp
    with sleep_loop_total_aux [where q = "?p + 2 * k" and env = env and tt = "tick (env ?p)", OF k, of "h\<lparr>hw_pos := Suc ?p\<rparr>"] show ?thesis
      by (auto simp: sleep_tick_def GetSysTickCnt_def)
  qed
qed

lemma wait_then_total:
  assumes "clock_runs env" "clk_ok clk" "\<And>h. \<exists>ret h'. k h = Some (ret, h')"
  shows "\<exists>ret h'. wait_then env clk msk h k = Some (ret, h')"
proof -
  obtain r1 h1 where "i2c_wait_status env clk msk h = Some (r1, h1)"
    using wait_status_total [OF assms(1,2)] by blast
  with assms(3) [of h1] show ?thesis by (auto simp: wait_then_def)
qed

lemma wait_then_buf_total:
  assumes "clock_runs env" "clk_ok clk" "\<And>h. \<exists>ret h' b'. k h = Some (ret, h', b')"
  shows "\<exists>ret h' b'. wait_then_buf env clk msk h b k = Some (ret, h', b')"
proof -
  obtain r1 h1 where "i2c_wait_status env clk msk h = Some (r1, h1)"
    using wait_status_total [OF assms(1,2)] by blast
  with assms(3) [of h1] show ?thesis by (auto simp: wait_then_buf_def)
qed

lemma write_word_total:
  assumes "clock_runs env" "clk_ok clk"
  shows "\<exists>ret h'. I2CBusWriteWord env clk a r d h = Some (ret, h')"
proof (cases "ctrl1 h AND RB_I2C_PE = 0")
  case False
  have "\<exists>ret h'. wait_then env clk RB_I2C_SB h1 (\<lambda>h.
            wait_then env clk RB_I2C_ADDR (put_datar (ucast a) h) (\<lambda>h.
            wait_then env clk (RB_I2C_TxE OR RB_I2C_BTF) (put_datar (ucast r) h) (\<lambda>h.
            wait_then env clk (RB_I2C_TxE OR RB_I2C_BTF) (put_datar (drop_bit 8 d) h) (\<lambda>h.
            i2c_wait_status env clk (RB_I2C_TxE OR RB_I2C_BTF) (put_datar d h))))) = Some (ret, h')" for h1
    by (intro wait_then_total wait_status_total assms)
  then show ?thesis using False by (simp add: I2CBusWriteWord_def Let_def i2c_stop_def)
qed (simp add: I2CBusWriteWord_def)

lemma read_reg_total:
  assumes "clock_runs env" "clk_ok clk" "\<And>h. \<exists>ret h' b'. recv h = Some (ret, h', b')"
  shows "\<exists>ret h' b'. i2c_read_reg env clk a r b recv h = Some (ret, h', b')"
proof (cases "ctrl1 h AND RB_I2C_PE = 0")
  case False
  have "\<exists>ret h' b'. wait_then_buf env clk RB_I2C_SB h1 b (\<lambda>h.
            wait_then_buf env clk RB_I2C_ADDR (put_datar (ucast a) h) b (\<lambda>h.
            wait_then_buf env clk (RB_I2C_TxE OR RB_I2C_BTF) (put_datar (ucast r) h) b (\<lambda>h.
            let h = sfr_put (W_OADDR1 (I2C_AckAddr_7bit OR ucast a OR 1)) h;
                h = set_ctrl1 (ctrl1 h OR (RB_I2C_ACK OR RB_I2C_START)) h
            in wait_then_buf env clk RB_I2C_SB h b (\<lambda>h.
            wait_then_buf env clk RB_I2C_ADDR (put_datar (ucast (a OR 1)) h) b recv)))) =
      Some (ret, h', b')" for h1
    unfolding Let_def by (intro wait_then_buf_total assms)
  then show ?thesis using False by (simp add: i2c_read_reg_def Let_def i2c_stop_buf_def) blast
qed (simp add: i2c_read_reg_def)

lemma read_word_total:
  assumes "clock_runs env" "clk_ok clk"
  shows "\<exists>ret h' b'. I2CBusReadWord env clk a r b h = Some (ret, h', b')"
  unfolding I2CBusReadWord_def read_datar_def Let_def prod.case
  by (intro read_reg_total wait_then_buf_total assms) simp

lemma read_24bits_total:
  assumes "clock_runs env" "clk_ok clk"
  shows "\<exists>ret h' b'. I2CBusRead24bits env clk a r b h = Some (ret, h', b')"
  unfolding I2CBusRead24bits_def read_datar_def Let_def prod.case
  by (intro read_reg_total wait_then_buf_total assms) simp

text \<open>A running clock exists: the counter that advances by one every two samples.\<close>

definition steady_env :: "(nat \<Rightarrow> u16) \<Rightarrow> (nat \<Rightarrow> u16) \<Rightarrow> hw_env" where
  "steady_env st dt p = \<lparr>star1 = st p, datar_in = dt p, tick = of_nat (p div 2)\<rparr>"

lemma clock_runs_steady: "clock_runs (steady_env st dt)"
proof -
  have "tick (steady_env st dt (p + 2 * unat n)) - tick (steady_env st dt p) = n" for p and n :: u32
    by (simp add: steady_env_def)
  then show ?thesis by (metis clock_runs_def order_refl)
qed

section \<open>Properties\<close>

text \<open>
  A register write that reports success has put exactly the address, the register number and
  the big-endian data word on the bus; one that fails has put a prefix of them there. Either way
  the transfer ends by requesting a STOP condition.
\<close>

theorem I2CBusWriteWord_wire:
  assumes "I2CBusWriteWord env clk a r d h = Some (ret, h')" "ctrl1 h AND RB_I2C_PE \<noteq> 0"
  shows "\<exists>bs. wire h' = wire h @ bs \<and> prefix bs [a, r, ucast (drop_bit 8 d), ucast d] \<and>
    (ret = 0 \<longrightarrow> bs = [a, r, ucast (drop_bit 8 d), ucast d]) \<and>
    (\<exists>c. ctrl1 h' = c OR RB_I2C_STOP \<and> last (sfr_log h') = W_CTRL1 (ctrl1 h'))"
  by (rule write_word_wire [OF assms])

text \<open>A device that answers every request at once.\<close>

abbreviation answering :: hw_env where
  "answering \<equiv> steady_env (\<lambda>_. 0xC7) (\<lambda>p. if p < 14 then 0x12 else 0x34)"

abbreviation hw_on :: i2c_hw where
  "hw_on \<equiv> \<lparr>ctrl1 = 0x0001, ctrl2 = 0, sfr_log = [], hw_pos = 0\<rparr>"

lemma answering_wait [simp]:
  assumes "0xC7 AND msk \<noteq> 0"
  shows "i2c_wait_status (steady_env (\<lambda>_. 0xC7) dt) clk msk h = Some (0, h\<lparr>hw_pos := hw_pos h + 2\<rparr>)"
proof -
  have "wait_loop (steady_env (\<lambda>_. 0xC7) dt) clk msk tt h1 = Some (0, h1\<lparr>hw_pos := hw_pos h1 + 1\<rparr>)" for tt h1
    using assms
    by (subst wait_loop.simps) (simp add: read_star1_def steady_env_def Let_def i2c_err_mask_def regs)
  then show ?thesis by (simp add: i2c_wait_status_def GetSysTickCnt_def)
qed

theorem I2CBusWriteWord_wire_witness:
  "\<exists>h'. I2CBusWriteWord answering 400 0x80 1 0xFB68 hw_on = Some (0, h') \<and>
    wire h' = [0x80, 1, 0xFB, 0x68]"
proof -
  have run: "\<exists>h'. I2CBusWriteWord answering 400 0x80 1 0xFB68 hw_on = Some (0, h')"
    by (simp add: I2CBusWriteWord_def wait_then_def i2c_stop_def regs)
  then obtain h' where h': "I2CBusWriteWord answering 400 0x80 1 0xFB68 hw_on = Some (0, h')"
    by blast
  from I2CBusWriteWord_wire [OF h'] h' show ?thesis by (auto simp: regs)
qed

text \<open>
  A 16-bit register read that reports success has sent the address, the register number and
  the read address, has stored the first byte received as the high byte and the second as the low
  byte, and has withdrawn the acknowledge bit before the last byte; the rest of the caller's buffer
  is unchanged.
\<close>

theorem I2CBusReadWord_spec:
  assumes "I2CBusReadWord env clk a r pbuf h = Some (ret, h', pbuf')" "ctrl1 h AND RB_I2C_PE \<noteq> 0"
  shows "\<exists>bs. wire h' = wire h @ bs \<and> prefix bs [a, r, a OR 1] \<and> length pbuf' = length pbuf \<and>
    (ret = 0 \<longrightarrow> bs = [a, r, a OR 1] \<and> ctrl1 h' AND RB_I2C_ACK = 0 \<and>
      (\<exists>p q. hw_pos h < p \<and> p < q \<and> q < hw_pos h' \<and> pbuf' = pbuf[1 := ucast (datar_in (env p)), 0 := ucast (datar_in (env q))]))"
  by (rule read_word_spec [OF assms])

theorem I2CBusReadWord_spec_witness:
  "\<exists>h'. I2CBusReadWord answering 400 0x80 5 [9, 9, 7, 7] hw_on = Some (0, h', [0x34, 0x12, 7, 7]) \<and>
    wire h' = [0x80, 5, 0x81]"
proof -
  have run: "\<exists>h'. I2CBusReadWord answering 400 0x80 5 [9, 9, 7, 7] hw_on =
      Some (0, h', [0x34, 0x12, 7, 7])"
    by (simp add: I2CBusReadWord_def i2c_read_reg_def wait_then_buf_def i2c_stop_buf_def regs
        read_datar_def) (simp add: steady_env_def)
  then obtain h' where h': "I2CBusReadWord answering 400 0x80 5 [9, 9, 7, 7] hw_on =
      Some (0, h', [0x34, 0x12, 7, 7])" by blast
  from I2CBusReadWord_spec [OF h'] h' show ?thesis by (auto simp: regs)
qed

text \<open>
  No bus behaviour can hang the driver: whatever the status and data registers return, as long
  as the tick counter advances, a register write, a 16-bit read and a 24-bit read return.
\<close>

theorem I2CBus_returns:
  assumes "clock_runs env" "clk_ok clk"
  shows "(\<exists>ret h'. I2CBusWriteWord env clk a r d h = Some (ret, h')) \<and>
    (\<exists>ret h' b'. I2CBusReadWord env clk a r b h = Some (ret, h', b')) \<and>
    (\<exists>ret h' b'. I2CBusRead24bits env clk a r b h = Some (ret, h', b'))"
  using write_word_total [OF assms] read_word_total [OF assms] read_24bits_total [OF assms]
  by blast

text \<open>A device that holds the bus forever: the driver still returns.\<close>

theorem I2CBus_returns_witness:
  "\<exists>ret h'. I2CBusWriteWord (steady_env (\<lambda>_. 0) (\<lambda>_. 0)) 400 0x80 1 2 hw_on = Some (ret, h')"
proof -
  have "clk_ok 400" by (simp add: clk_ok_def)
  from I2CBus_returns [OF clock_runs_steady this] show ?thesis by blast
qed

end
