(* ===== verification/I2cDev.thy ===== *)
theory I2cDev
  imports DrvFifo Crc16 I2cBus SampleRing
begin

text \<open>
  The sampling engine of the CH592 port (\<open>ch592/INA2282USB/src/i2c_dev.c\<close>, \<open>.h\<close>): the timer
  interrupt that reads the sensor registers in turn into a 256-entry ring, the task that packs
  them into blocks for the host, start, stop, sleep and wake-up of the device, and the settings
  in the data flash. The flash is ROM code outside the sources: \<open>flash_ops\<close> is its interface and
  a parameter of the settings functions. \<open>printf\<close> output is not modelled.
\<close>

section \<open>State\<close>

text \<open>
  Read returns a status (0 is success) and what the caller's buffer holds afterwards; erase and
  write return a status and the new flash.
\<close>

record 'e flash_ops =
  ee_read :: "'e \<Rightarrow> nat \<Rightarrow> u32 \<times> u8 list"
  ee_erase :: "'e \<Rightarrow> u32 \<times> 'e"
  ee_write :: "'e \<Rightarrow> u8 list \<Rightarrow> u32 \<times> 'e"

datatype gpio_mode = GPIO_ModeIN_PU | GPIO_ModeIN_Floating | GPIO_ModeOut_PP_5mA | GPIO_ModeOut_PP_20mA

definition I2C_DEV_POWER :: u32 where [regs]: "I2C_DEV_POWER = 0x00002000"
definition I2C_DEV_SDA :: u32 where [regs]: "I2C_DEV_SDA = 0x00004000"
definition I2C_DEV_SCL :: u32 where [regs]: "I2C_DEV_SCL = 0x00008000"
definition RB_TMR_ALL_CLEAR :: u8 where [regs]: "RB_TMR_ALL_CLEAR = 0x02"
definition RB_TMR_COUNT_EN :: u8 where [regs]: "RB_TMR_COUNT_EN = 0x04"

definition MAX_I2C_PKTCNT16 :: u8 where [regs]: "MAX_I2C_PKTCNT16 = 60"
definition MAX_I2C_PKTCNT24 :: u8 where [regs]: "MAX_I2C_PKTCNT24 = 40"
definition MIN_TIM_IRQ :: u32 where [regs]: "MIN_TIM_IRQ = 70000"
definition MIN_I2C_CLK_KHZ :: u32 where [regs]: "MIN_I2C_CLK_KHZ = 100"
definition MAX_I2C_CLK_KHZ :: u32 where [regs]: "MAX_I2C_CLK_KHZ = 2000"
definition DEF_I2C_CLK_KHZ :: u32 where [regs]: "DEF_I2C_CLK_KHZ = 1500"

text \<open>\<open>raddr\<close> is the index of the pointed-to entry of \<open>cfg_i2c.rd\<close>.\<close>

record 'e dev =
  cfg_i2c :: dev_i2c_cfg_t
  cfg_ina228 :: dev_ina228_cfg_t
  raddr :: nat
  timer_flg :: u8
  i2c_buf_rd :: u8
  i2c_buf_wr :: u8
  i2c_rd_24bit :: u8
  i2c_buf :: "u32 list"
  all_read_count :: u32
  all_overflow_cnt :: u32
  blk_count :: u8
  blk_id :: u8
  blk_data :: "u8 list"
  app_tx_fifo :: app_drv_fifo_t
  i2c :: i2c_hw
  tmr_cnt_end :: u32
  tmr_ctrl_mod :: u8
  tmr_irq_en :: bool
  tmr_cyc_end :: bool
  pb_out :: u32
  gpio_cfg :: "(u32 \<times> gpio_mode) list"
  eep :: 'e

definition def_cfg_i2c :: dev_i2c_cfg_t where
  "def_cfg_i2c =
     \<lparr>pktcnt = 0, multiplier = 0, time = 1052, clk_khz = 800,
      init =
        [\<lparr>wr_dev_addr = I2C_ADDR_INA228, wr_reg_addr = INA228_RA_CONFIG, wr_data = push_bit 14 3\<rparr>,
         \<lparr>wr_dev_addr = I2C_ADDR_INA228, wr_reg_addr = INA228_RA_CONFIG, wr_data = 0x0000\<rparr>,
         \<lparr>wr_dev_addr = I2C_ADDR_INA228, wr_reg_addr = INA228_RA_DIAG_ALRT, wr_data = push_bit 14 1\<rparr>,
         \<lparr>wr_dev_addr = I2C_ADDR_INA228, wr_reg_addr = INA228_RA_ADC_CONFIG, wr_data = 0x0000\<rparr>],
      rd =
        [\<lparr>rd_dev_addr = I2C_ADDR_INA228, rd_reg_addr = INA228_RA_VBUS\<rparr>,
         \<lparr>rd_dev_addr = I2C_ADDR_INA228, rd_reg_addr = INA228_RA_VSHUNT\<rparr>,
         \<lparr>rd_dev_addr = 0x00, rd_reg_addr = 0x00\<rparr>,
         \<lparr>rd_dev_addr = 0x00, rd_reg_addr = 0x00\<rparr>],
      slp =
        [\<lparr>wr_dev_addr = I2C_ADDR_INA228, wr_reg_addr = INA228_RA_ADC_CONFIG, wr_data = 0x0000\<rparr>,
         \<lparr>wr_dev_addr = 0x00, wr_reg_addr = 0x00, wr_data = 0x0000\<rparr>],
      crc = 0\<rparr>"

section \<open>The timer interrupt\<close>

definition TMR1_IRQHandler :: "hw_env \<Rightarrow> 'e dev \<Rightarrow> 'e dev option" where
  "TMR1_IRQHandler env d =
     (if tmr_cyc_end d
      then do {
        d \<leftarrow>
          (if timer_flg d \<noteq> 0
           then do {
             let r = rd (cfg_i2c d) ! raddr d;
             let k = unat (i2c_buf_wr d);
             let pbuf = le32 (i2c_buf d ! k);
             (ret, h, pbuf) \<leftarrow>
               (if i2c_rd_24bit d \<noteq> 0
                then I2CBusRead24bits env (clk_khz (cfg_i2c d)) (rd_dev_addr r) (rd_reg_addr r) pbuf (i2c d)
                else I2CBusReadWord env (clk_khz (cfg_i2c d)) (rd_dev_addr r) (rd_reg_addr r) pbuf (i2c d));
             let d = d\<lparr>i2c := h, i2c_buf := (i2c_buf d)[k := from_le32 pbuf],
               i2c_buf_wr := i2c_buf_wr d + 1, raddr := raddr d + 1\<rparr>;
             Some (if raddr_dev_addr (cfg_i2c d) (raddr d) = 0 \<or> raddr d > 3
                   then d\<lparr>raddr := 0\<rparr> else d)
           }
           else Some d);
        Some (d\<lparr>tmr_cyc_end := False\<rparr>)
      }
      else Some d)"

section \<open>Timer, power and the bus\<close>

definition I2CDevFlushBuf :: "'e dev \<Rightarrow> 'e dev" where
  "I2CDevFlushBuf d = d\<lparr>raddr := 0, i2c_buf_wr := 0, i2c_buf_rd := 0\<rparr>"

definition I2CDevTimerStop :: "'e dev \<Rightarrow> 'e dev" where
  "I2CDevTimerStop d = d\<lparr>timer_flg := 0, tmr_ctrl_mod := 0\<rparr>"

definition I2CDevTimerStart :: "'e dev \<Rightarrow> 'e dev" where
  "I2CDevTimerStart d =
     (let d = d\<lparr>tmr_ctrl_mod := RB_TMR_ALL_CLEAR\<rparr> in d\<lparr>tmr_ctrl_mod := RB_TMR_COUNT_EN\<rparr>)"

definition I2CDevTimerInit :: "u32 \<Rightarrow> 'e dev \<Rightarrow> 'e dev" where
  "I2CDevTimerInit period_us d =
     (let d = d\<lparr>tmr_cnt_end := (FREQ_SYS div 1000000) * period_us\<rparr>;
          d = d\<lparr>tmr_ctrl_mod := RB_TMR_ALL_CLEAR\<rparr>;
          d = d\<lparr>tmr_ctrl_mod := 0\<rparr>
      in d\<lparr>tmr_irq_en := True\<rparr>)"

definition GPIOB_ModeCfg :: "u32 \<Rightarrow> gpio_mode \<Rightarrow> 'e dev \<Rightarrow> 'e dev" where
  "GPIOB_ModeCfg pins m d = d\<lparr>gpio_cfg := gpio_cfg d @ [(pins, m)]\<rparr>"

definition GPIOB_SetBits :: "u32 \<Rightarrow> 'e dev \<Rightarrow> 'e dev" where
  "GPIOB_SetBits pins d = d\<lparr>pb_out := pb_out d OR pins\<rparr>"

definition GPIOB_ResetBits :: "u32 \<Rightarrow> 'e dev \<Rightarrow> 'e dev" where
  "GPIOB_ResetBits pins d = d\<lparr>pb_out := pb_out d AND NOT pins\<rparr>"

text \<open>The bus functions on the device state.\<close>

definition dev_bus_init :: "'e dev \<Rightarrow> 'e dev option" where
  "dev_bus_init d =
     do { h \<leftarrow> I2CBusInit (clk_khz (cfg_i2c d)) (i2c d);
          Some (d\<lparr>i2c := h\<rparr>) }"

definition dev_write_word :: "hw_env \<Rightarrow> reg_wr_t \<Rightarrow> 'e dev \<Rightarrow> (u32 \<times> 'e dev) option" where
  "dev_write_word env r d =
     do { (ret, h) \<leftarrow> I2CBusWriteWord env (clk_khz (cfg_i2c d)) (wr_dev_addr r) (wr_reg_addr r)
            (wr_data r) (i2c d);
          Some (ret, d\<lparr>i2c := h\<rparr>) }"

definition dev_sleep_us :: "hw_env \<Rightarrow> u32 \<Rightarrow> 'e dev \<Rightarrow> 'e dev option" where
  "dev_sleep_us env us d = do { h \<leftarrow> sleep_us env us (i2c d); Some (d\<lparr>i2c := h\<rparr>) }"

definition dev_sleep_ms :: "hw_env \<Rightarrow> u32 \<Rightarrow> 'e dev \<Rightarrow> 'e dev option" where
  "dev_sleep_ms env ms d = do { h \<leftarrow> sleep_ms env ms (i2c d); Some (d\<lparr>i2c := h\<rparr>) }"

definition set_pktcnt :: "u8 \<Rightarrow> 'e dev \<Rightarrow> 'e dev" where
  "set_pktcnt n d = d\<lparr>cfg_i2c := cfg_i2c d\<lparr>pktcnt := n\<rparr>\<rparr>"

definition I2CDevSleep :: "hw_env \<Rightarrow> 'e dev \<Rightarrow> 'e dev option" where
  "I2CDevSleep env d = do {
     let d = I2CDevTimerStop (set_pktcnt 0 d);
     d \<leftarrow>
       (if wr_dev_addr (slp (cfg_i2c d) ! 0) \<noteq> 0
        then do {
          d \<leftarrow> dev_bus_init d;
          (ret, d) \<leftarrow> dev_write_word env (slp (cfg_i2c d) ! 0) d;
          if wr_dev_addr (slp (cfg_i2c d) ! 1) \<noteq> 0
          then do { (ret, d) \<leftarrow> dev_write_word env (slp (cfg_i2c d) ! 1) d; Some d }
          else Some d
        }
        else Some d);
     let d = d\<lparr>i2c := I2CBusDeInit (i2c d)\<rparr>;
     let d = GPIOB_ResetBits I2C_DEV_POWER d;
     Some (GPIOB_ModeCfg (I2C_DEV_POWER OR I2C_DEV_SCL OR I2C_DEV_SDA) GPIO_ModeIN_Floating d)
   }"

section \<open>Settings in the data flash\<close>

definition I2CDevReadSetings :: "'e flash_ops \<Rightarrow> 'e dev \<Rightarrow> u32 \<times> 'e dev" where
  "I2CDevReadSetings ops d =
     (let (st, bs) = ee_read ops (eep d) 40;
          d = d\<lparr>cfg_i2c := i2c_cfg_of_bytes bs\<rparr>
      in if st \<noteq> 0 \<or> crc16 0xffff (i2c_cfg_bytes (cfg_i2c d)) \<noteq> 0
         then (1, d\<lparr>cfg_i2c := i2c_cfg_memcpy (cfg_i2c d) (i2c_cfg_bytes def_cfg_i2c) 38\<rparr>)
         else (0, d))"

definition I2CDevWriteSetings :: "'e flash_ops \<Rightarrow> 'e dev \<Rightarrow> u32 \<times> 'e dev" where
  "I2CDevWriteSetings ops d =
     (let d = d\<lparr>cfg_i2c := cfg_i2c d\<lparr>crc := crc16 0xffff (take 38 (i2c_cfg_bytes (cfg_i2c d)))\<rparr>\<rparr>;
          (st, bs) = ee_read ops (eep d) 40
      in if st = 0 \<and> bs = i2c_cfg_bytes (cfg_i2c d) then (0, d)
         else
           (let (st1, e1) = ee_erase ops (eep d)
            in if st1 \<noteq> 0 then (1, d\<lparr>eep := e1\<rparr>)
               else
                 (let (st2, e2) = ee_write ops e1 (i2c_cfg_bytes (cfg_i2c d))
                  in (if st2 \<noteq> 0 then 1 else 0, d\<lparr>eep := e2\<rparr>))))"

definition I2CDevInit :: "'e flash_ops \<Rightarrow> 'e dev \<Rightarrow> 'e dev" where
  "I2CDevInit ops d =
     (let d = snd (I2CDevReadSetings ops d);
          d = GPIOB_ResetBits I2C_DEV_POWER d
      in GPIOB_ModeCfg (I2C_DEV_POWER OR I2C_DEV_SCL OR I2C_DEV_SDA) GPIO_ModeIN_Floating d)"

section \<open>Start\<close>

text \<open>The loop over \<open>cfg_i2c.init\<close>, stopping at the first entry with device address 0.\<close>

fun init_regs :: "hw_env \<Rightarrow> reg_wr_t list \<Rightarrow> 'e dev \<Rightarrow> 'e dev option" where
  "init_regs env [] d = Some d"
| "init_regs env (r # rs) d =
     (if wr_dev_addr r = 0 then Some d
      else do {
        (ret, d) \<leftarrow> dev_write_word env r d;
        let d = (if ret \<noteq> 0 then I2CDevTimerStop (set_pktcnt 0 d) else d);
        d \<leftarrow> dev_sleep_us env 512 d;
        init_regs env rs d
      })"

definition clamp_pktcnt :: "'e dev \<Rightarrow> 'e dev" where
  "clamp_pktcnt d =
     (if i2c_rd_24bit d \<noteq> 0
      then if pktcnt (cfg_i2c d) > MAX_I2C_PKTCNT24 then set_pktcnt MAX_I2C_PKTCNT24 d else d
      else if pktcnt (cfg_i2c d) > MAX_I2C_PKTCNT16 then set_pktcnt MAX_I2C_PKTCNT16 d else d)"

definition clamp_clk :: "'e dev \<Rightarrow> u32 \<times> 'e dev" where
  "clamp_clk d =
     (let clk = (ucast (clk_khz (cfg_i2c d)) :: u32) AND 0x7fff
      in if clk < MIN_I2C_CLK_KHZ \<or> clk > MAX_I2C_CLK_KHZ
         then (DEF_I2C_CLK_KHZ, d\<lparr>cfg_i2c := cfg_i2c d
                 \<lparr>clk_khz := (clk_khz (cfg_i2c d) AND 0x8000) OR ucast DEF_I2C_CLK_KHZ\<rparr>\<rparr>)
         else (clk, d))"

text \<open>After the timing check: flush, then arm the timer and the counters or stop the timer.\<close>

definition start_prepare :: "u32 \<Rightarrow> 'e dev \<Rightarrow> 'e dev" where
  "start_prepare t_rd_us d =
     (let d = I2CDevFlushBuf d
      in if pktcnt (cfg_i2c d) \<noteq> 0
         then (I2CDevTimerInit t_rd_us d)\<lparr>all_read_count := 0, all_overflow_cnt := 0\<rparr>
         else I2CDevTimerStop d)"

text \<open>After the initialising writes: start the timer, or report a missing read address.\<close>

definition start_timer :: "hw_env \<Rightarrow> u32 \<Rightarrow> 'e dev \<Rightarrow> (u32 \<times> 'e dev) option" where
  "start_timer env t_rd_us d =
     (if pktcnt (cfg_i2c d) \<noteq> 0
      then if rd_dev_addr (rd (cfg_i2c d) ! raddr d) \<noteq> 0
        then do {
          d \<leftarrow> dev_sleep_us env t_rd_us d;
          d \<leftarrow> (if i2c_rd_24bit d = 2 then dev_sleep_us env t_rd_us d else Some d);
          let d = d\<lparr>timer_flg := 1\<rparr>;
          Some (1, I2CDevTimerStart d)
        }
        else Some (0, d)
      else Some (1, d))"

text \<open>A shift count of 32 or more is undefined in C: \<open>None\<close>.\<close>

definition I2CDevStart :: "hw_env \<Rightarrow> 'e dev \<Rightarrow> (u32 \<times> 'e dev) option" where
  "I2CDevStart env d = do {
     let d = d\<lparr>timer_flg := 0\<rparr>;
     let d = clamp_pktcnt d;
     let (clk, d) = clamp_clk d;
     d \<leftarrow> dev_bus_init d;
     t_rd_us \<leftarrow> (if unat (multiplier (cfg_i2c d)) < 32
               then Some (push_bit (unat (multiplier (cfg_i2c d))) (ucast (time (cfg_i2c d)) :: u32))
               else None);
     if t_rd_us < MIN_TIM_IRQ div clk
     then Some (0, I2CDevTimerStop (set_pktcnt 0 d))
     else do {
       let d = start_prepare t_rd_us d;
       d \<leftarrow> init_regs env (init (cfg_i2c d)) d;
       start_timer env t_rd_us d
     }
   }"

definition I2CDevWakeUp :: "hw_env \<Rightarrow> 'e dev \<Rightarrow> 'e dev option" where
  "I2CDevWakeUp env d = do {
     let d = GPIOB_ModeCfg (I2C_DEV_POWER OR I2C_DEV_SCL OR I2C_DEV_SDA) GPIO_ModeIN_PU d;
     d \<leftarrow> dev_sleep_us env 128 d;
     let d = GPIOB_SetBits I2C_DEV_POWER d;
     let d = GPIOB_ModeCfg I2C_DEV_POWER GPIO_ModeOut_PP_5mA d;
     let d = GPIOB_ModeCfg I2C_DEV_POWER GPIO_ModeOut_PP_20mA d;
     d \<leftarrow> dev_sleep_ms env 2 d;
     let d = set_pktcnt 0 d;
     (ret, d) \<leftarrow> I2CDevStart env d;
     Some d
   }"

section \<open>The packing task\<close>

text \<open>The bytes stored for one sample, and the loops that store them.\<close>

definition sample24 :: "u32 \<Rightarrow> u8 list" where
  "sample24 w = [ucast w, ucast (drop_bit 8 w), ucast (drop_bit 16 w)]"

definition sample16 :: "u32 \<Rightarrow> u8 list" where
  "sample16 w = [ucast w, ucast (drop_bit 8 w)]"

definition blk_bytes :: "'e dev \<Rightarrow> u8 list" where
  "blk_bytes d = [blk_count d, blk_id d] @ blk_data d"

definition send_blk :: "'e dev \<Rightarrow> 'e dev" where
  "send_blk d =
     (let sz = 2 + (ucast (blk_count d) :: u16);
          (res, fifo, _) = app_drv_fifo_write (Some (app_tx_fifo d)) (Some (blk_bytes d)) (Some sz);
          d = d\<lparr>app_tx_fifo := the fifo\<rparr>
      in if res = APP_DRV_FIFO_RESULT_SUCCESS
         then d\<lparr>all_read_count := all_read_count d + 1\<rparr>
         else d\<lparr>all_overflow_cnt := all_overflow_cnt d + 1\<rparr>)"

definition pack_wrapped :: "'e dev \<Rightarrow> 'e dev" where
  "pack_wrapped d =
     (let n = pktcnt (cfg_i2c d); prd = unat (i2c_buf_rd d);
          enc = (if i2c_rd_24bit d \<noteq> 0 then sample24 else sample16);
          (bs1, sz) = copy_to_end enc (i2c_buf d) prd (unat n);
          bs2 = copy_n enc (i2c_buf d) 0 sz
      in d\<lparr>blk_count := (if i2c_rd_24bit d \<noteq> 0 then n + n + n else n + n),
           blk_id := (if i2c_rd_24bit d \<noteq> 0 then CMD_DEV_EADC else CMD_DEV_I2C),
           blk_data := splice_at (blk_data d) 0 (bs1 @ bs2),
           i2c_buf_rd := of_nat sz\<rparr>)"

definition pack_linear :: "'e dev \<Rightarrow> 'e dev" where
  "pack_linear d =
     (let n = pktcnt (cfg_i2c d); prd = unat (i2c_buf_rd d);
          enc = (if i2c_rd_24bit d \<noteq> 0 then sample24 else sample16)
      in d\<lparr>blk_count := (if i2c_rd_24bit d \<noteq> 0 then n + n + n else n + n),
           blk_id := (if i2c_rd_24bit d \<noteq> 0 then CMD_DEV_EADC else CMD_DEV_I2C),
           blk_data := splice_at (blk_data d) 0 (copy_n enc (i2c_buf d) prd (unat n)),
           i2c_buf_rd := of_nat (prd + unat n)\<rparr>)"

definition I2CDevTask :: "'e dev \<Rightarrow> 'e dev" where
  "I2CDevTask d =
     (let prd = unat (i2c_buf_rd d); pwr = unat (i2c_buf_wr d); n = unat (pktcnt (cfg_i2c d))
      in if n = 0 then d
         else if pwr < prd
         then (if 256 - prd + pwr \<ge> n then send_blk (pack_wrapped d) else d)
         else if pwr > prd
         then (if pwr - prd \<ge> n then send_blk (pack_linear d) else d)
         else d)"

section \<open>Samples and blocks\<close>

text \<open>The samples waiting in the ring.\<close>

definition pending :: "'e dev \<Rightarrow> u32 list" where
  "pending d = ring256 (i2c_buf d) (i2c_buf_rd d) (i2c_buf_wr d)"

definition sample_enc :: "'e dev \<Rightarrow> u32 \<Rightarrow> u8 list" where
  "sample_enc d = (if i2c_rd_24bit d \<noteq> 0 then sample24 else sample16)"

definition sample_size :: "'e dev \<Rightarrow> nat" where
  "sample_size d = (if i2c_rd_24bit d \<noteq> 0 then 3 else 2)"

definition dev_wf :: "'e dev \<Rightarrow> bool" where
  "dev_wf d \<longleftrightarrow> i2c_cfg_wf (cfg_i2c d) \<and> raddr d < 4 \<and> length (i2c_buf d) = 256 \<and>
     length (blk_data d) = 120 \<and> fifo_wf (app_tx_fifo d) \<and>
     sample_size d * unat (pktcnt (cfg_i2c d)) \<le> 120"

lemma length_sample_enc [simp]: "length (sample_enc d w) = sample_size d"
  by (simp add: sample_enc_def sample_size_def sample24_def sample16_def)

lemma length_concat_enc [simp]:
  "length (concat (map (sample_enc d) xs)) = sample_size d * length xs"
  by (induction xs) (simp_all add: algebra_simps)

lemma length_pending:
  "length (pending d) = (if unat (i2c_buf_rd d) \<le> unat (i2c_buf_wr d)
     then unat (i2c_buf_wr d) - unat (i2c_buf_rd d)
     else 256 - unat (i2c_buf_rd d) + unat (i2c_buf_wr d))"
  by (simp add: pending_def length_ring256)

definition packet_of :: "'e dev \<Rightarrow> u8 list" where
  "packet_of d =
     [of_nat (sample_size d * unat (pktcnt (cfg_i2c d))),
      if i2c_rd_24bit d \<noteq> 0 then CMD_DEV_EADC else CMD_DEV_I2C] @
     concat (map (sample_enc d) (take (unat (pktcnt (cfg_i2c d))) (pending d)))"

lemma u8_triple: "n + n + n = (of_nat (3 * unat n) :: u8)" "n + n = (of_nat (2 * unat n) :: u8)"
  for n :: u8
  by simp_all

lemma pack_data:
  assumes "dev_wf d" "unat (pktcnt (cfg_i2c d)) \<le> length (pending d)" "pktcnt (cfg_i2c d) \<noteq> 0"
  defines "n \<equiv> unat (pktcnt (cfg_i2c d))" and "prd \<equiv> unat (i2c_buf_rd d)"
  shows "i2c_buf_wr d < i2c_buf_rd d \<Longrightarrow>
      pack_wrapped d = d\<lparr>blk_count := of_nat (sample_size d * n),
        blk_id := (if i2c_rd_24bit d \<noteq> 0 then CMD_DEV_EADC else CMD_DEV_I2C),
        blk_data := splice_at (blk_data d) 0 (concat (map (sample_enc d) (take n (pending d)))),
        i2c_buf_rd := of_nat (n - (256 - prd))\<rparr>"
    and "\<not> i2c_buf_wr d < i2c_buf_rd d \<Longrightarrow>
      pack_linear d = d\<lparr>blk_count := of_nat (sample_size d * n),
        blk_id := (if i2c_rd_24bit d \<noteq> 0 then CMD_DEV_EADC else CMD_DEV_I2C),
        blk_data := splice_at (blk_data d) 0 (concat (map (sample_enc d) (take n (pending d)))),
        i2c_buf_rd := of_nat (prd + n)\<rparr>"
proof -
  have len: "length (i2c_buf d) = 256" using assms(1) by (simp add: dev_wf_def)
  have cnt: "(if i2c_rd_24bit d \<noteq> 0 then pktcnt (cfg_i2c d) + pktcnt (cfg_i2c d) + pktcnt (cfg_i2c d)
      else pktcnt (cfg_i2c d) + pktcnt (cfg_i2c d)) = of_nat (sample_size d * n)"
    by (simp add: sample_size_def n_def)
  note p = pack256 [OF len assms(2) [unfolded pending_def], of "sample_enc d", folded pending_def n_def prd_def]
  obtain bs where bs: "copy_to_end (sample_enc d) (i2c_buf d) prd n = (bs, n - (256 - prd))"
    "bs @ copy_n (sample_enc d) (i2c_buf d) 0 (n - (256 - prd)) =
      concat (map (sample_enc d) (take n (pending d)))"
    using p(1) by blast
  show "pack_wrapped d = d\<lparr>blk_count := of_nat (sample_size d * n),
        blk_id := (if i2c_rd_24bit d \<noteq> 0 then CMD_DEV_EADC else CMD_DEV_I2C),
        blk_data := splice_at (blk_data d) 0 (concat (map (sample_enc d) (take n (pending d)))),
        i2c_buf_rd := of_nat (n - (256 - prd))\<rparr>"
    unfolding pack_wrapped_def sample_enc_def [symmetric] Let_def cnt n_def [symmetric]
      prd_def [symmetric] using bs by (simp only: prod.case)
  assume "\<not> i2c_buf_wr d < i2c_buf_rd d"
  then show "pack_linear d = d\<lparr>blk_count := of_nat (sample_size d * n),
        blk_id := (if i2c_rd_24bit d \<noteq> 0 then CMD_DEV_EADC else CMD_DEV_I2C),
        blk_data := splice_at (blk_data d) 0 (concat (map (sample_enc d) (take n (pending d)))),
        i2c_buf_rd := of_nat (prd + n)\<rparr>"
    unfolding pack_linear_def sample_enc_def [symmetric] Let_def cnt n_def [symmetric]
      prd_def [symmetric] using p(2)
    by simp
qed

lemma packet_of_bytes:
  assumes "dev_wf d" "unat (pktcnt (cfg_i2c d)) \<le> length (pending d)"
  defines "n \<equiv> unat (pktcnt (cfg_i2c d))"
  shows "take (2 + sample_size d * n) ([of_nat (sample_size d * n), k] @
      splice_at (blk_data d) 0 (concat (map (sample_enc d) (take n (pending d))))) =
    [of_nat (sample_size d * n), k] @ concat (map (sample_enc d) (take n (pending d)))"
  using assms(2) by (simp add: splice_at_def n_def min_def)

lemma send_blk_spec:
  assumes "fifo_wf (app_tx_fifo d)" "unat (blk_count d) \<le> 120" "length (blk_data d) = 120"
  shows "let pkt = take (2 + unat (blk_count d)) (blk_bytes d) in
    if length (fifo_bytes (app_tx_fifo d)) + length pkt \<le> unat (fsize (app_tx_fifo d))
    then \<exists>g. send_blk d = d\<lparr>app_tx_fifo := g, all_read_count := all_read_count d + 1\<rparr> \<and>
      fifo_wf g \<and> fsize g = fsize (app_tx_fifo d) \<and> fifo_bytes g = fifo_bytes (app_tx_fifo d) @ pkt
    else send_blk d = d\<lparr>all_overflow_cnt := all_overflow_cnt d + 1\<rparr>"
proof -
  let ?len = "2 + ucast (blk_count d) :: u16"
  have len: "unat ?len = 2 + unat (blk_count d)"
    using assms(2) unat_plus_nowrap [of "2 :: u16" "ucast (blk_count d)"] by simp
  have bb: "length (blk_bytes d) = 122" using assms(3) by (simp add: blk_bytes_def)
  note w = drv_write_spec [OF assms(1), of ?len "blk_bytes d", unfolded len]
  show ?thesis
  proof (cases "length (fifo_bytes (app_tx_fifo d)) + (2 + unat (blk_count d)) \<le>
      unat (fsize (app_tx_fifo d))")
    case True
    then obtain g where "app_drv_fifo_write (Some (app_tx_fifo d)) (Some (blk_bytes d)) (Some ?len) =
      (APP_DRV_FIFO_RESULT_SUCCESS, Some g, Some ?len)" "fifo_wf g" "fsize g = fsize (app_tx_fifo d)"
      "fifo_bytes g = fifo_bytes (app_tx_fifo d) @ take (2 + unat (blk_count d)) (blk_bytes d)"
      using w bb assms(2) by auto
    with True bb assms(2) show ?thesis
      by (simp add: send_blk_def Let_def) (rule exI [of _ g], simp)
  next
    case False
    then have "app_drv_fifo_write (Some (app_tx_fifo d)) (Some (blk_bytes d)) (Some ?len) =
      (APP_DRV_FIFO_RESULT_LENGTH_ERROR, Some (app_tx_fifo d), Some ?len)"
      using w bb assms(2) by auto
    with False bb assms(2) show ?thesis by (simp add: send_blk_def Let_def)
  qed
qed

lemma task_idle:
  assumes "pktcnt (cfg_i2c d) = 0 \<or> length (pending d) < unat (pktcnt (cfg_i2c d))"
  shows "I2CDevTask d = d"
  using assms length_pending [of d] by (auto simp: I2CDevTask_def Let_def split: if_splits)

lemma task_packs:
  assumes "dev_wf d" "pktcnt (cfg_i2c d) \<noteq> 0" "unat (pktcnt (cfg_i2c d)) \<le> length (pending d)"
  defines "n \<equiv> unat (pktcnt (cfg_i2c d))" and "prd \<equiv> unat (i2c_buf_rd d)"
  shows "I2CDevTask d = send_blk (d\<lparr>blk_count := of_nat (sample_size d * n),
        blk_id := (if i2c_rd_24bit d \<noteq> 0 then CMD_DEV_EADC else CMD_DEV_I2C),
        blk_data := splice_at (blk_data d) 0 (concat (map (sample_enc d) (take n (pending d)))),
        i2c_buf_rd := rd_after (i2c_buf_rd d) (i2c_buf_wr d) n\<rparr>)"
proof -
  have n: "0 < n" using assms(2) by (simp add: n_def unat_gt_0)
  note p = pack_data [OF assms(1,3,2), folded n_def prd_def]
  show ?thesis
  proof (cases "i2c_buf_wr d < i2c_buf_rd d")
    case True
    then show ?thesis using n assms(3) p(1) length_pending [of d]
      by (simp add: I2CDevTask_def Let_def word_less_nat_alt n_def rd_after_def prd_def)
  next
    case False
    then show ?thesis using n assms(3) p(2) length_pending [of d]
      by (simp add: I2CDevTask_def Let_def word_less_nat_alt n_def rd_after_def prd_def)
  qed
qed

lemma task_spec:
  assumes "dev_wf d" "pktcnt (cfg_i2c d) \<noteq> 0" "unat (pktcnt (cfg_i2c d)) \<le> length (pending d)"
  defines "n \<equiv> unat (pktcnt (cfg_i2c d))"
  shows "\<exists>d'. I2CDevTask d = d' \<and> dev_wf d' \<and> cfg_i2c d' = cfg_i2c d \<and> i2c_buf d' = i2c_buf d \<and>
    i2c_buf_wr d' = i2c_buf_wr d \<and>
    i2c_buf_rd d' = rd_after (i2c_buf_rd d) (i2c_buf_wr d) n \<and>
    (if length (fifo_bytes (app_tx_fifo d)) + length (packet_of d) \<le> unat (fsize (app_tx_fifo d))
     then fifo_bytes (app_tx_fifo d') = fifo_bytes (app_tx_fifo d) @ packet_of d \<and>
       all_read_count d' = all_read_count d + 1 \<and> all_overflow_cnt d' = all_overflow_cnt d
     else app_tx_fifo d' = app_tx_fifo d \<and> all_read_count d' = all_read_count d \<and>
       all_overflow_cnt d' = all_overflow_cnt d + 1)"
proof -
  let ?m = "sample_size d * n"
  define d1 where "d1 = d\<lparr>blk_count := of_nat ?m,
        blk_id := (if i2c_rd_24bit d \<noteq> 0 then CMD_DEV_EADC else CMD_DEV_I2C),
        blk_data := splice_at (blk_data d) 0 (concat (map (sample_enc d) (take n (pending d)))),
        i2c_buf_rd := rd_after (i2c_buf_rd d) (i2c_buf_wr d) n\<rparr>"
  have eq: "I2CDevTask d = send_blk d1"
    using task_packs [OF assms(1-3)] by (simp add: d1_def n_def)
  have m: "?m \<le> 120" using assms(1) by (simp add: dev_wf_def n_def)
  have cnt: "unat (blk_count d1) = ?m" using m by (simp add: d1_def unat_of_nat_small del: of_nat_mult)
  have bl: "length (blk_data d1) = 120"
    using assms(1,3) m by (simp add: d1_def dev_wf_def n_def min_def)
  have f: "fifo_wf (app_tx_fifo d1)" using assms(1) by (simp add: d1_def dev_wf_def)
  have pk: "take (2 + unat (blk_count d1)) (blk_bytes d1) = packet_of d"
    unfolding cnt using packet_of_bytes [OF assms(1,3), folded n_def]
    by (simp add: blk_bytes_def d1_def packet_of_def n_def)
  have rd: "i2c_buf_rd d1 = rd_after (i2c_buf_rd d) (i2c_buf_wr d) n" by (simp add: d1_def)
  have w1: "dev_wf d1" using assms(1) bl by (simp add: d1_def dev_wf_def sample_size_def)
  have same: "cfg_i2c d1 = cfg_i2c d" "i2c_buf d1 = i2c_buf d" "i2c_buf_wr d1 = i2c_buf_wr d"
    "app_tx_fifo d1 = app_tx_fifo d" "all_read_count d1 = all_read_count d"
    "all_overflow_cnt d1 = all_overflow_cnt d"
    by (simp_all add: d1_def)
  note s = send_blk_spec [OF f _ bl, unfolded pk Let_def same]
  show ?thesis
  proof (cases "length (fifo_bytes (app_tx_fifo d)) + length (packet_of d) \<le> unat (fsize (app_tx_fifo d))")
    case True
    then obtain g where g: "send_blk d1 = d1\<lparr>app_tx_fifo := g, all_read_count := all_read_count d + 1\<rparr>"
      "fifo_wf g" "fifo_bytes g = fifo_bytes (app_tx_fifo d) @ packet_of d"
      using s cnt m by auto
    then have "dev_wf (send_blk d1)" using w1 by (simp add: dev_wf_def sample_size_def)
    with g True eq same rd show ?thesis by auto
  next
    case False
    then have g: "send_blk d1 = d1\<lparr>all_overflow_cnt := all_overflow_cnt d + 1\<rparr>"
      using s cnt m by auto
    then have "dev_wf (send_blk d1)" using w1 by (simp add: dev_wf_def sample_size_def)
    with g False eq same rd show ?thesis by auto
  qed
qed

section \<open>The interrupt appends one sample\<close>

text \<open>The transfer of the interrupt: the next register of the list, of the configured width, into its entry.\<close>

definition irq_read :: "hw_env \<Rightarrow> 'e dev \<Rightarrow> rd_res" where
  "irq_read env d =
     (let r = rd (cfg_i2c d) ! raddr d;
          pbuf = le32 (i2c_buf d ! unat (i2c_buf_wr d))
      in if i2c_rd_24bit d \<noteq> 0
         then I2CBusRead24bits env (clk_khz (cfg_i2c d)) (rd_dev_addr r) (rd_reg_addr r) pbuf (i2c d)
         else I2CBusReadWord env (clk_khz (cfg_i2c d)) (rd_dev_addr r) (rd_reg_addr r) pbuf (i2c d))"

lemma irq_transfer:
  assumes "TMR1_IRQHandler env d = Some d'" "tmr_cyc_end d" "timer_flg d \<noteq> 0"
  shows "\<exists>ret h b. irq_read env d = Some (ret, h, b) \<and>
    d' = d\<lparr>i2c := h, i2c_buf := (i2c_buf d)[unat (i2c_buf_wr d) := from_le32 b],
      i2c_buf_wr := i2c_buf_wr d + 1, raddr := next_raddr (cfg_i2c d) (raddr d), tmr_cyc_end := False\<rparr>"
proof -
  from assms obtain ret h b where r: "irq_read env d = Some (ret, h, b)" and
    d': "d' = (let e = d\<lparr>i2c := h, i2c_buf := (i2c_buf d)[unat (i2c_buf_wr d) := from_le32 b],
        i2c_buf_wr := i2c_buf_wr d + 1, raddr := raddr d + 1\<rparr>
      in (if raddr_dev_addr (cfg_i2c e) (raddr e) = 0 \<or> raddr e > 3 then e\<lparr>raddr := 0\<rparr> else e)
        \<lparr>tmr_cyc_end := False\<rparr>)"
    unfolding TMR1_IRQHandler_def irq_read_def Let_def by (auto simp: bind_eq_Some_conv)
  show ?thesis
  proof (cases "raddr_dev_addr (cfg_i2c d) (raddr d + 1) = 0 \<or> raddr d + 1 > 3")
    case True
    with r d' show ?thesis by (auto simp: next_raddr_def)
  next
    case False
    with r d' show ?thesis by (auto simp: next_raddr_def)
  qed
qed

lemma irq_sample:
  assumes "TMR1_IRQHandler env d = Some d'" "tmr_cyc_end d" "timer_flg d \<noteq> 0"
  shows "\<exists>h w. d' = d\<lparr>i2c := h, i2c_buf := (i2c_buf d)[unat (i2c_buf_wr d) := w],
    i2c_buf_wr := i2c_buf_wr d + 1, raddr := next_raddr (cfg_i2c d) (raddr d),
    tmr_cyc_end := False\<rparr>"
  using irq_transfer [OF assms] by blast

text \<open>
  What a transfer from position \<open>lo\<close> to \<open>hi\<close> that succeeds makes of an entry: its low bytes are the data
  register at two or three moments in between, the high byte first.
\<close>

definition entry_read :: "hw_env \<Rightarrow> bool \<Rightarrow> nat \<Rightarrow> nat \<Rightarrow> u32 \<Rightarrow> u32 \<Rightarrow> bool" where
  "entry_read env wide lo hi old w \<longleftrightarrow>
     (if wide
      then \<exists>p q s. lo < p \<and> p < q \<and> q < s \<and> s < hi \<and> le32 w = (le32 old)[2 := ucast (datar_in (env p)),
        1 := ucast (datar_in (env q)), 0 := ucast (datar_in (env s))]
      else \<exists>p q. lo < p \<and> p < q \<and> q < hi \<and> le32 w = (le32 old)[1 := ucast (datar_in (env p)),
        0 := ucast (datar_in (env q))])"

lemma entry_readI:
  "lo < p \<Longrightarrow> p < q \<Longrightarrow> q < hi \<Longrightarrow>
    b = (le32 old)[1 := ucast (datar_in (env p)), 0 := ucast (datar_in (env q))] \<Longrightarrow>
    entry_read env False lo hi old (from_le32 b)"
  "lo < p \<Longrightarrow> p < q \<Longrightarrow> q < t \<Longrightarrow> t < hi \<Longrightarrow>
    b = (le32 old)[2 := ucast (datar_in (env p)), 1 := ucast (datar_in (env q)), 0 := ucast (datar_in (env t))] \<Longrightarrow>
    entry_read env True lo hi old (from_le32 b)"
  unfolding entry_read_def if_False if_True
  by (intro exI [of _ p] exI [of _ q] conjI; simp) (intro exI [of _ p] exI [of _ q] exI [of _ t] conjI; simp)

lemma irq_read_spec:
  assumes "irq_read env d = Some (ret, h, b)" "ctrl1 (i2c d) AND RB_I2C_PE \<noteq> 0"
  defines "r \<equiv> rd (cfg_i2c d) ! raddr d" and "old \<equiv> i2c_buf d ! unat (i2c_buf_wr d)"
  shows "\<exists>bs. wire h = wire (i2c d) @ bs \<and> prefix bs [rd_dev_addr r, rd_reg_addr r, rd_dev_addr r OR 1] \<and>
    (ret = 0 \<longrightarrow> bs = [rd_dev_addr r, rd_reg_addr r, rd_dev_addr r OR 1] \<and>
      entry_read env (i2c_rd_24bit d \<noteq> 0) (hw_pos (i2c d)) (hw_pos h) old (from_le32 b))"
proof (cases "i2c_rd_24bit d = 0")
  case True
  then have "I2CBusReadWord env (clk_khz (cfg_i2c d)) (rd_dev_addr r) (rd_reg_addr r) (le32 old) (i2c d) =
      Some (ret, h, b)"
    using assms(1) by (simp add: irq_read_def Let_def r_def old_def)
  from read_word_spec [OF this assms(2)] True show ?thesis by (auto simp del: One_nat_def intro: entry_readI(1))
next
  case False
  then have "I2CBusRead24bits env (clk_khz (cfg_i2c d)) (rd_dev_addr r) (rd_reg_addr r) (le32 old) (i2c d) =
      Some (ret, h, b)"
    using assms(1) by (simp add: irq_read_def Let_def r_def old_def)
  from read_24bits_spec [OF this assms(2)] False show ?thesis by (auto simp del: One_nat_def intro: entry_readI(2))
qed

section \<open>Start\<close>

lemma clamp_pktcnt_spec:
  "clamp_pktcnt d = set_pktcnt (min (pktcnt (cfg_i2c d)) (if i2c_rd_24bit d \<noteq> 0 then 40 else 60)) d"
  by (simp add: clamp_pktcnt_def set_pktcnt_def regs min_def)

lemma clk_field: "(ucast ((c AND 0x8000) OR 1500 :: u16) :: u32) AND 0x7fff = 1500"
  using and_exp_word [of c 15] by simp

text \<open>The initialising writes only touch the bus, and stop sampling if one fails.\<close>

lemma init_regs_frame:
  "init_regs env rs d = Some d' \<Longrightarrow>
   (\<exists>h. d' = d\<lparr>i2c := h\<rparr>) \<or> (\<exists>h. d' = (I2CDevTimerStop (set_pktcnt 0 d))\<lparr>i2c := h\<rparr>)"
proof (induction rs arbitrary: d)
  case Nil
  then show ?case by (auto intro: exI [of _ "i2c d"])
next
  case (Cons r rs)
  show ?case
  proof (cases "wr_dev_addr r = 0")
    case True
    with Cons.prems show ?thesis by (auto intro: exI [of _ "i2c d"])
  next
    case False
    with Cons.prems consider
        (ok) h2 where "init_regs env rs (d\<lparr>i2c := h2\<rparr>) = Some d'"
      | (bad) h2 where "init_regs env rs ((I2CDevTimerStop (set_pktcnt 0 d))\<lparr>i2c := h2\<rparr>) = Some d'"
      by (auto simp: dev_write_word_def dev_sleep_us_def I2CDevTimerStop_def set_pktcnt_def Let_def
          bind_eq_Some_conv split: if_splits)
    then show ?thesis
    proof cases
      case ok
      from Cons.IH [OF ok] show ?thesis by (auto simp: I2CDevTimerStop_def set_pktcnt_def)
    next
      case bad
      from Cons.IH [OF bad] show ?thesis by (auto simp: I2CDevTimerStop_def set_pktcnt_def)
    qed
  qed
qed

lemma init_regs_total:
  assumes "clock_runs env"
  shows "clk_ok (clk_khz (cfg_i2c d)) \<Longrightarrow> \<exists>d'. init_regs env rs d = Some d'"
proof (induction rs arbitrary: d)
  case (Cons r rs)
  obtain ret h where w: "I2CBusWriteWord env (clk_khz (cfg_i2c d)) (wr_dev_addr r) (wr_reg_addr r)
      (wr_data r) (i2c d) = Some (ret, h)"
    using write_word_total [OF assms Cons.prems] by blast
  obtain h2 where s: "sleep_us env 512 h = Some h2"
    using sleep_tick_total [OF assms] by (auto simp: sleep_us_def)
  let ?d = "(if ret \<noteq> 0 then I2CDevTimerStop (set_pktcnt 0 d) else d)\<lparr>i2c := h2\<rparr>"
  have "clk_ok (clk_khz (cfg_i2c ?d))"
    using Cons.prems by (simp add: I2CDevTimerStop_def set_pktcnt_def)
  from Cons.IH [OF this] w s show ?case
    by (auto simp: dev_write_word_def dev_sleep_us_def I2CDevTimerStop_def set_pktcnt_def Let_def)
qed simp

definition clk_in_range :: "u16 \<Rightarrow> bool" where
  "clk_in_range c \<longleftrightarrow> 100 \<le> (ucast c :: u32) AND 0x7fff \<and> (ucast c :: u32) AND 0x7fff \<le> 2000"

lemma clk_in_range_ok: "clk_in_range c \<Longrightarrow> clk_ok c"
  by (auto simp: clk_in_range_def clk_ok_def)

lemma clamp_clk_spec:
  "\<exists>c. snd (clamp_clk d) = d\<lparr>cfg_i2c := cfg_i2c d\<lparr>clk_khz := c\<rparr>\<rparr> \<and> clk_in_range c \<and>
    fst (clamp_clk d) = (ucast c :: u32) AND 0x7fff \<and>
    (clk_in_range (clk_khz (cfg_i2c d)) \<longrightarrow> c = clk_khz (cfg_i2c d))"
proof -
  let ?c = "clk_khz (cfg_i2c d)" and ?k = "(clk_khz (cfg_i2c d) AND 0x8000) OR 1500"
  show ?thesis
  proof (cases "clk_in_range ?c")
    case True
    then show ?thesis
      by (intro exI [of _ ?c]) (auto simp: clamp_clk_def clk_in_range_def regs Let_def not_less)
  next
    case False
    then have "(ucast ?c :: u32) AND 0x7fff < 100 \<or> 2000 < (ucast ?c :: u32) AND 0x7fff"
      by (auto simp: clk_in_range_def not_le)
    then have "clamp_clk d = (1500, d\<lparr>cfg_i2c := cfg_i2c d\<lparr>clk_khz := ?k\<rparr>\<rparr>)"
      by (simp add: clamp_clk_def regs Let_def)
    with False show ?thesis
      by (intro exI [of _ ?k]) (auto simp: clk_in_range_def clk_field)
  qed
qed

text \<open>What \<open>I2CDevStart\<close> guarantees, whatever its result.\<close>

definition started :: "u32 \<Rightarrow> 'e dev \<Rightarrow> bool" where
  "started ret d \<longleftrightarrow>
     pktcnt (cfg_i2c d) \<le> (if i2c_rd_24bit d \<noteq> 0 then 40 else 60) \<and>
     clk_in_range (clk_khz (cfg_i2c d)) \<and>
     (ret = 0 \<or> pktcnt (cfg_i2c d) = 0 \<longrightarrow> timer_flg d = 0) \<and>
     (pktcnt (cfg_i2c d) = 0 \<longrightarrow> tmr_ctrl_mod d = 0) \<and>
     (ret \<noteq> 0 \<and> pktcnt (cfg_i2c d) \<noteq> 0 \<longrightarrow>
        timer_flg d = 1 \<and> tmr_ctrl_mod d = RB_TMR_COUNT_EN \<and> tmr_irq_en d \<and>
        raddr d = 0 \<and> i2c_buf_rd d = 0 \<and> i2c_buf_wr d = 0 \<and>
        all_read_count d = 0 \<and> all_overflow_cnt d = 0 \<and>
        MIN_TIM_IRQ div ((ucast (clk_khz (cfg_i2c d)) :: u32) AND 0x7fff) \<le>
          push_bit (unat (multiplier (cfg_i2c d))) (ucast (time (cfg_i2c d))))"

lemma start_spec:
  assumes "I2CDevStart env d = Some (ret, d')"
  shows "started ret d' \<and> (\<exists>n c. cfg_i2c d' = cfg_i2c d\<lparr>pktcnt := n, clk_khz := c\<rparr> \<and>
      n \<le> pktcnt (cfg_i2c d)) \<and>
    i2c_rd_24bit d' = i2c_rd_24bit d \<and> i2c_buf d' = i2c_buf d \<and> app_tx_fifo d' = app_tx_fifo d \<and>
    blk_data d' = blk_data d \<and> cfg_ina228 d' = cfg_ina228 d \<and> eep d' = eep d \<and>
    pb_out d' = pb_out d \<and> raddr d' \<in> {0, raddr d}"
proof -
  let ?lim = "if i2c_rd_24bit d \<noteq> 0 then 40 else 60 :: u8"
  define n where "n = min (pktcnt (cfg_i2c d)) ?lim"
  have n: "n \<le> ?lim" "n \<le> pktcnt (cfg_i2c d)" by (simp_all add: n_def)
  obtain c where c: "snd (clamp_clk (set_pktcnt n (d\<lparr>timer_flg := 0\<rparr>))) =
      d\<lparr>timer_flg := 0, cfg_i2c := cfg_i2c d\<lparr>pktcnt := n, clk_khz := c\<rparr>\<rparr>" "clk_in_range c"
    "fst (clamp_clk (set_pktcnt n (d\<lparr>timer_flg := 0\<rparr>))) = (ucast c :: u32) AND 0x7fff"
    using clamp_clk_spec [of "set_pktcnt n (d\<lparr>timer_flg := 0\<rparr>)"]
    by (auto simp: set_pktcnt_def)
  define t where "t = push_bit (unat (multiplier (cfg_i2c d))) (ucast (time (cfg_i2c d)) :: u32)"
  define cfg where "cfg = cfg_i2c d\<lparr>pktcnt := n, clk_khz := c\<rparr>"
  have clamp: "clamp_pktcnt (d\<lparr>timer_flg := 0\<rparr>) = set_pktcnt n (d\<lparr>timer_flg := 0\<rparr>)"
    by (simp add: clamp_pktcnt_spec n_def)
  have cc: "clamp_clk (set_pktcnt n (d\<lparr>timer_flg := 0\<rparr>)) =
      ((ucast c :: u32) AND 0x7fff, d\<lparr>timer_flg := 0, cfg_i2c := cfg\<rparr>)"
    using c by (metis cfg_def prod.collapse)
  obtain h where bi: "dev_bus_init (d\<lparr>timer_flg := 0, cfg_i2c := cfg\<rparr>) =
      Some (d\<lparr>timer_flg := 0, cfg_i2c := cfg, i2c := h\<rparr>)"
    using I2CBusInit_total [OF clk_in_range_ok [OF c(2)], of "i2c d"]
    by (auto simp: dev_bus_init_def cfg_def)
  let ?d1 = "d\<lparr>timer_flg := 0, cfg_i2c := cfg, i2c := h\<rparr>"
  have fields: "pktcnt cfg = n" "clk_khz cfg = c" "multiplier cfg = multiplier (cfg_i2c d)"
    "time cfg = time (cfg_i2c d)" "init cfg = init (cfg_i2c d)" "rd cfg = rd (cfg_i2c d)"
    by (simp_all add: cfg_def)
  show ?thesis
  proof (cases "t < MIN_TIM_IRQ div ((ucast c :: u32) AND 0x7fff)")
    case True
    then have "ret = 0" "d' = I2CDevTimerStop (set_pktcnt 0 ?d1)"
      using assms by (auto simp: I2CDevStart_def clamp cc bi fields t_def Let_def
          bind_eq_Some_conv split: if_splits)
    moreover from this(2) have "cfg_i2c d' = cfg_i2c d\<lparr>pktcnt := 0, clk_khz := c\<rparr>"
      by (simp add: I2CDevTimerStop_def set_pktcnt_def cfg_def)
    moreover have "(0 :: u8) \<le> pktcnt (cfg_i2c d)" by simp
    ultimately show ?thesis using c(2)
      by (fastforce simp: started_def I2CDevTimerStop_def set_pktcnt_def)
  next
    case False
    define d2 where "d2 = start_prepare t ?d1"
    have d2: "cfg_i2c d2 = cfg" "timer_flg d2 = 0" "raddr d2 = 0" "i2c_buf_rd d2 = 0"
      "i2c_buf_wr d2 = 0" "tmr_ctrl_mod d2 = 0" "i2c_rd_24bit d2 = i2c_rd_24bit d"
      "i2c_buf d2 = i2c_buf d" "app_tx_fifo d2 = app_tx_fifo d" "blk_data d2 = blk_data d"
      "cfg_ina228 d2 = cfg_ina228 d" "eep d2 = eep d" "pb_out d2 = pb_out d"
      "n \<noteq> 0 \<Longrightarrow> tmr_irq_en d2 \<and> all_read_count d2 = 0 \<and> all_overflow_cnt d2 = 0"
      by (simp_all add: d2_def start_prepare_def I2CDevTimerInit_def I2CDevTimerStop_def
          I2CDevFlushBuf_def Let_def fields)
    from assms False obtain d3 where
      i: "init_regs env (init cfg) d2 = Some d3" and rest: "start_timer env t d3 = Some (ret, d')"
      by (auto simp: I2CDevStart_def clamp cc bi fields t_def [symmetric] Let_def bind_eq_Some_conv
          d2_def [symmetric] d2(1) split: if_split_asm)
    consider (run) h3 where "d3 = d2\<lparr>i2c := h3\<rparr>"
      | (stop) h3 where "d3 = (I2CDevTimerStop (set_pktcnt 0 d2))\<lparr>i2c := h3\<rparr>"
      using init_regs_frame [OF i] by blast
    then show ?thesis
    proof cases
      case stop
      with rest have "ret = 1" "d' = d3" by (simp_all add: start_timer_def I2CDevTimerStop_def set_pktcnt_def)
      moreover from this stop d2 have "cfg_i2c d' = cfg_i2c d\<lparr>pktcnt := 0, clk_khz := c\<rparr>"
        by (simp add: I2CDevTimerStop_def set_pktcnt_def cfg_def)
      moreover have "(0 :: u8) \<le> pktcnt (cfg_i2c d)" by simp
      ultimately show ?thesis using stop c(2) d2
        by (fastforce simp: started_def I2CDevTimerStop_def set_pktcnt_def)
    next
      case run
      show ?thesis
      proof (cases "n \<noteq> 0 \<and> rd_dev_addr (rd cfg ! 0) \<noteq> 0")
        case True
        with run rest d2 fields obtain h4 where
          "d' = I2CDevTimerStart (d2\<lparr>i2c := h4, timer_flg := 1\<rparr>)" "ret = 1"
          by (auto simp: start_timer_def dev_sleep_us_def Let_def bind_eq_Some_conv split: if_splits)
        with True d2 fields n c(2) False show ?thesis
          by (auto simp: started_def I2CDevTimerStart_def t_def not_less cfg_def)
      next
        case False
        with run rest d2 fields have "d' = d3" "ret = 0 \<or> n = 0"
          by (auto simp: start_timer_def split: if_splits)
        with run d2 fields n c(2) show ?thesis
          by (auto simp: started_def cfg_def)
      qed
    qed
  qed
qed

lemma start_total:
  assumes "clock_runs env" "unat (multiplier (cfg_i2c d)) < 32"
  shows "\<exists>ret d'. I2CDevStart env d = Some (ret, d')"
proof -
  let ?d0 = "clamp_pktcnt (d\<lparr>timer_flg := 0\<rparr>)"
  obtain c where c: "snd (clamp_clk ?d0) = ?d0\<lparr>cfg_i2c := cfg_i2c ?d0\<lparr>clk_khz := c\<rparr>\<rparr>" "clk_in_range c"
    using clamp_clk_spec [of ?d0] by blast
  obtain k d1 where cc: "clamp_clk ?d0 = (k, d1)" by (cases "clamp_clk ?d0")
  then have d1: "clk_khz (cfg_i2c d1) = c" "multiplier (cfg_i2c d1) = multiplier (cfg_i2c d)"
    using c by (auto simp: clamp_pktcnt_spec set_pktcnt_def)
  obtain d2 where d2: "dev_bus_init d1 = Some d2" "cfg_i2c d2 = cfg_i2c d1"
    using I2CBusInit_total [OF clk_in_range_ok [OF c(2)], of "i2c d1"] d1(1)
    by (auto simp: dev_bus_init_def GPIOB_ModeCfg_def)
  define t where "t = push_bit (unat (multiplier (cfg_i2c d2))) (ucast (time (cfg_i2c d2)) :: u32)"
  have "clk_ok (clk_khz (cfg_i2c (start_prepare t d2)))"
    using clk_in_range_ok [OF c(2)] d1 d2(2)
    by (simp add: start_prepare_def I2CDevTimerInit_def I2CDevTimerStop_def I2CDevFlushBuf_def Let_def)
  from init_regs_total [OF assms(1) this] obtain d3 where
    d3: "init_regs env (init (cfg_i2c (start_prepare t d2))) (start_prepare t d2) = Some d3" by blast
  have sl: "\<exists>d'. dev_sleep_us env t e = Some d'" for e :: "'e dev"
    using sleep_tick_total [OF assms(1), of "t * (FREQ_SYS div 1000000)" "i2c e"]
    by (auto simp: dev_sleep_us_def sleep_us_def)
  obtain d4 where d4: "dev_sleep_us env t d3 = Some d4" using sl by blast
  obtain d5 where "dev_sleep_us env t d4 = Some d5" using sl by blast
  with d4 have "\<exists>ret d'. start_timer env t d3 = Some (ret, d')"
    by (simp add: start_timer_def Let_def)
  then show ?thesis using cc d2 d3 d1(2) assms(2)
    by (simp add: I2CDevStart_def Let_def t_def)
qed

lemma irq_total:
  assumes "clock_runs env" "clk_ok (clk_khz (cfg_i2c d))"
  shows "\<exists>d'. TMR1_IRQHandler env d = Some d'"
proof -
  let ?r = "rd (cfg_i2c d) ! raddr d" and ?b = "le32 (i2c_buf d ! unat (i2c_buf_wr d))"
  obtain ret h b where "I2CBusReadWord env (clk_khz (cfg_i2c d)) (rd_dev_addr ?r) (rd_reg_addr ?r) ?b
      (i2c d) = Some (ret, h, b)"
    using read_word_total [OF assms] by blast
  moreover obtain ret h b where "I2CBusRead24bits env (clk_khz (cfg_i2c d)) (rd_dev_addr ?r)
      (rd_reg_addr ?r) ?b (i2c d) = Some (ret, h, b)"
    using read_24bits_total [OF assms] by blast
  ultimately show ?thesis by (simp add: TMR1_IRQHandler_def Let_def)
qed

section \<open>Sleep and wake-up\<close>

lemma dev_bus_init_frame: "dev_bus_init d = Some d' \<Longrightarrow> \<exists>h g. d' = d\<lparr>gpio_cfg := g, i2c := h\<rparr>"
proof -
  assume "dev_bus_init d = Some d'"
  then obtain h where "d' = d\<lparr>i2c := h\<rparr>"
    by (auto simp: dev_bus_init_def bind_eq_Some_conv)
  then have "d' = d\<lparr>gpio_cfg := gpio_cfg d, i2c := h\<rparr>" by simp
  then show ?thesis by blast
qed

lemma dev_write_word_frame: "dev_write_word env r d = Some (ret, d') \<Longrightarrow> \<exists>h. d' = d\<lparr>i2c := h\<rparr>"
  by (auto simp: dev_write_word_def bind_eq_Some_conv)

lemma sleep_spec:
  assumes "I2CDevSleep env d = Some d'"
  shows "timer_flg d' = 0 \<and> tmr_ctrl_mod d' = 0 \<and> cfg_i2c d' = cfg_i2c d\<lparr>pktcnt := 0\<rparr> \<and>
    pb_out d' AND I2C_DEV_POWER = 0 \<and> pb_out d' = pb_out d AND NOT I2C_DEV_POWER \<and>
    i2c_buf d' = i2c_buf d \<and> app_tx_fifo d' = app_tx_fifo d \<and> raddr d' = raddr d \<and>
    blk_data d' = blk_data d \<and> i2c_rd_24bit d' = i2c_rd_24bit d"
proof -
  define d0 where "d0 = I2CDevTimerStop (set_pktcnt 0 d)"
  let ?mid = "if wr_dev_addr (slp (cfg_i2c d0) ! 0) \<noteq> 0
        then do {
          d \<leftarrow> dev_bus_init d0;
          (ret, d) \<leftarrow> dev_write_word env (slp (cfg_i2c d) ! 0) d;
          if wr_dev_addr (slp (cfg_i2c d) ! 1) \<noteq> 0
          then do { (ret, d) \<leftarrow> dev_write_word env (slp (cfg_i2c d) ! 1) d; Some d }
          else Some d
        }
        else Some d0"
  obtain d1 where d1: "?mid = Some d1" and
    d': "d' = GPIOB_ModeCfg (I2C_DEV_POWER OR I2C_DEV_SCL OR I2C_DEV_SDA) GPIO_ModeIN_Floating
      (GPIOB_ResetBits I2C_DEV_POWER (d1\<lparr>i2c := I2CBusDeInit (i2c d1)\<rparr>))"
    using assms unfolding I2CDevSleep_def Let_def d0_def [symmetric]
    by (auto simp only: bind_eq_Some_conv option.inject)
  have "\<exists>h g. d1 = d0\<lparr>gpio_cfg := g, i2c := h\<rparr>"
  proof (cases "wr_dev_addr (slp (cfg_i2c d0) ! 0) = 0")
    case True
    with d1 show ?thesis by (intro exI [of _ "i2c d0"] exI [of _ "gpio_cfg d0"]) simp
  next
    case False
    with d1 obtain e1 r e2 where e: "dev_bus_init d0 = Some e1"
      "dev_write_word env (slp (cfg_i2c e1) ! 0) e1 = Some (r, e2)"
      "(if wr_dev_addr (slp (cfg_i2c e2) ! 1) \<noteq> 0
        then do { (ret, d) \<leftarrow> dev_write_word env (slp (cfg_i2c e2) ! 1) e2; Some d }
        else Some e2) = Some d1"
      by (auto simp: bind_eq_Some_conv)
    obtain h1 g where "e1 = d0\<lparr>gpio_cfg := g, i2c := h1\<rparr>"
      using dev_bus_init_frame [OF e(1)] by blast
    moreover obtain h2 where "e2 = e1\<lparr>i2c := h2\<rparr>" using dev_write_word_frame [OF e(2)] by blast
    ultimately have "e2 = d0\<lparr>gpio_cfg := g, i2c := h2\<rparr>" by simp
    moreover have "d1 = e2 \<or> (\<exists>h. d1 = e2\<lparr>i2c := h\<rparr>)"
      using e(3) by (auto simp: bind_eq_Some_conv dest: dev_write_word_frame split: if_splits)
    ultimately have "d1 = d0\<lparr>gpio_cfg := g, i2c := h2\<rparr> \<or> (\<exists>h. d1 = d0\<lparr>gpio_cfg := g, i2c := h\<rparr>)"
      by auto
    then show ?thesis by blast
  qed
  then show ?thesis unfolding d' d0_def
    by (auto simp: I2CDevTimerStop_def set_pktcnt_def GPIOB_ModeCfg_def GPIOB_ResetBits_def and.assoc)
qed

lemma wake_spec:
  assumes "I2CDevWakeUp env d = Some d'"
  shows "\<exists>ret e. I2CDevStart env e = Some (ret, d') \<and> pb_out e = pb_out d OR I2C_DEV_POWER \<and>
    cfg_i2c e = cfg_i2c d\<lparr>pktcnt := 0\<rparr> \<and> i2c_rd_24bit e = i2c_rd_24bit d \<and>
    i2c_buf e = i2c_buf d \<and> app_tx_fifo e = app_tx_fifo d \<and> raddr e = raddr d \<and>
    blk_data e = blk_data d"
proof -
  obtain h g ret where "I2CDevStart env (d\<lparr>pb_out := pb_out d OR I2C_DEV_POWER, gpio_cfg := g,
      i2c := h, cfg_i2c := cfg_i2c d\<lparr>pktcnt := 0\<rparr>\<rparr>) = Some (ret, d')"
    using assms
    by (auto simp: I2CDevWakeUp_def set_pktcnt_def dev_sleep_us_def dev_sleep_ms_def
        GPIOB_ModeCfg_def GPIOB_SetBits_def Let_def bind_eq_Some_conv)
  then show ?thesis
    by (intro exI [of _ ret] exI [of _ "d\<lparr>pb_out := pb_out d OR I2C_DEV_POWER, gpio_cfg := g,
      i2c := h, cfg_i2c := cfg_i2c d\<lparr>pktcnt := 0\<rparr>\<rparr>"]) simp
qed

section \<open>Well-formedness is preserved\<close>

lemma dev_wf_start:
  assumes "I2CDevStart env d = Some (ret, d')" "i2c_cfg_wf (cfg_i2c d)" "raddr d < 4"
    "length (i2c_buf d) = 256" "length (blk_data d) = 120" "fifo_wf (app_tx_fifo d)"
  shows "dev_wf d'"
proof -
  note s = start_spec [OF assms(1)]
  then obtain n k where n: "cfg_i2c d' = cfg_i2c d\<lparr>pktcnt := n, clk_khz := k\<rparr>" by blast
  have "pktcnt (cfg_i2c d') \<le> (if i2c_rd_24bit d' \<noteq> 0 then 40 else 60)"
    by (rule conjunct1 [OF conjunct1 [OF s, unfolded started_def]])
  with n have le: "n \<le> (if i2c_rd_24bit d' \<noteq> 0 then 40 else 60)" by simp
  from s have c: "i2c_rd_24bit d' = i2c_rd_24bit d"
    "i2c_buf d' = i2c_buf d" "app_tx_fifo d' = app_tx_fifo d" "blk_data d' = blk_data d"
    "raddr d' = 0 \<or> raddr d' = raddr d"
    by auto
  have "sample_size d' * unat n \<le> 120"
    using le by (auto simp: sample_size_def word_le_nat_alt split: if_splits)
  with c n assms show ?thesis by (auto simp: dev_wf_def i2c_cfg_wf_def)
qed

lemma dev_wf_irq:
  assumes "TMR1_IRQHandler env d = Some d'" "dev_wf d"
  shows "dev_wf d'"
proof (cases "tmr_cyc_end d \<and> timer_flg d \<noteq> 0")
  case True
  with irq_sample [OF assms(1)] assms(2) show ?thesis
    by (auto simp: dev_wf_def sample_size_def next_raddr_def)
next
  case False
  then have "d' = d \<or> d' = d\<lparr>tmr_cyc_end := False\<rparr>"
    using assms(1) by (auto simp: TMR1_IRQHandler_def split: if_splits)
  with assms(2) show ?thesis by (auto simp: dev_wf_def sample_size_def)
qed

section \<open>Settings\<close>

text \<open>
  What is relied on of the flash: after an erase and a write that both report success, a read of
  as many bytes succeeds and returns what was written.
\<close>

definition flash_faithful :: "'e flash_ops \<Rightarrow> bool" where
  "flash_faithful ops \<longleftrightarrow>
     (\<forall>e e1 e2 bs. ee_erase ops e = (0, e1) \<longrightarrow> ee_write ops e1 bs = (0, e2) \<longrightarrow>
        ee_read ops e2 (length bs) = (0, bs))"

lemma crc_sealed:
  assumes "i2c_cfg_wf c"
  defines "c' \<equiv> c\<lparr>crc := crc16 0xffff (take 38 (i2c_cfg_bytes c))\<rparr>"
  shows "i2c_cfg_wf c'" "i2c_cfg_body c' = i2c_cfg_body c" "crc16 0xffff (i2c_cfg_bytes c') = 0"
proof -
  show wf: "i2c_cfg_wf c'" and body: "i2c_cfg_body c' = i2c_cfg_body c"
    using assms(1) by (simp_all add: c'_def i2c_cfg_wf_def i2c_cfg_body_def)
  have "crc16 0xffff (i2c_cfg_bytes c') = crc16 (crc16 0xffff (i2c_cfg_body c)) (le16 (crc c'))"
    by (simp add: i2c_cfg_bytes_def crc16_append body)
  also have "crc c' = crc16 0xffff (i2c_cfg_body c)" using assms(1) by (simp add: c'_def)
  finally show "crc16 0xffff (i2c_cfg_bytes c') = 0" by (simp only: crc16_own_bytes)
qed

lemma write_settings_stored:
  assumes "flash_faithful ops" "i2c_cfg_wf (cfg_i2c d)" "I2CDevWriteSetings ops d = (0, d')"
  shows "ee_read ops (eep d') 40 = (0, i2c_cfg_bytes (cfg_i2c d'))"
    and "cfg_i2c d' = cfg_i2c d\<lparr>crc := crc16 0xffff (take 38 (i2c_cfg_bytes (cfg_i2c d)))\<rparr>"
proof -
  let ?c = "cfg_i2c d\<lparr>crc := crc16 0xffff (take 38 (i2c_cfg_bytes (cfg_i2c d)))\<rparr>"
  obtain st bs where r: "ee_read ops (eep d) 40 = (st, bs)" by force
  obtain st1 e1 where e: "ee_erase ops (eep d) = (st1, e1)" by force
  obtain st2 e2 where w: "ee_write ops e1 (i2c_cfg_bytes ?c) = (st2, e2)" by force
  have len: "length (i2c_cfg_bytes ?c) = 40" using crc_sealed(1) [OF assms(2)] by simp
  have *: "(st = 0 \<and> bs = i2c_cfg_bytes ?c \<and> d' = d\<lparr>cfg_i2c := ?c\<rparr>) \<or>
    (st1 = 0 \<and> st2 = 0 \<and> d' = d\<lparr>cfg_i2c := ?c, eep := e2\<rparr>)"
    using assms(3) by (auto simp: I2CDevWriteSetings_def Let_def r e w split: if_splits)
  then show "cfg_i2c d' = ?c" by auto
  from * show "ee_read ops (eep d') 40 = (0, i2c_cfg_bytes (cfg_i2c d'))"
  proof
    assume "st1 = 0 \<and> st2 = 0 \<and> d' = d\<lparr>cfg_i2c := ?c, eep := e2\<rparr>"
    with assms(1) e w len show ?thesis unfolding flash_faithful_def by fastforce
  qed (use r in auto)
qed

section \<open>Properties\<close>

text \<open>
  C1: What one run of \<open>I2CDevTask\<close> does when a block of samples is due: the block it offers to the
  transmit FIFO holds the oldest \<open>pktcnt\<close> pending samples, in order, behind a header with their
  byte count and kind; it is appended whole and counted as sent, or refused and counted as
  overflow. The read index advances by \<open>pktcnt\<close>, except where the write index has wrapped and the
  block ends before the end of the ring: there the index is reset to 0 and the samples between the
  end of the block and the end of the ring are lost.
\<close>

theorem I2CDevTask_block:
  assumes "dev_wf d" "pktcnt (cfg_i2c d) \<noteq> 0" "unat (pktcnt (cfg_i2c d)) \<le> length (pending d)"
  shows "dev_wf (I2CDevTask d) \<and>
    (if length (fifo_bytes (app_tx_fifo d)) + length (packet_of d) \<le> unat (fsize (app_tx_fifo d))
     then fifo_bytes (app_tx_fifo (I2CDevTask d)) = fifo_bytes (app_tx_fifo d) @ packet_of d \<and>
       all_read_count (I2CDevTask d) = all_read_count d + 1 \<and>
       all_overflow_cnt (I2CDevTask d) = all_overflow_cnt d
     else app_tx_fifo (I2CDevTask d) = app_tx_fifo d \<and>
       all_read_count (I2CDevTask d) = all_read_count d \<and>
       all_overflow_cnt (I2CDevTask d) = all_overflow_cnt d + 1) \<and>
    pending (I2CDevTask d) =
      drop (if i2c_buf_wr d < i2c_buf_rd d \<and> unat (i2c_buf_rd d) + unat (pktcnt (cfg_i2c d)) < 256
            then 256 - unat (i2c_buf_rd d) else unat (pktcnt (cfg_i2c d))) (pending d)"
proof -
  let ?d = "I2CDevTask d" and ?n = "unat (pktcnt (cfg_i2c d))"
  note s = task_spec [OF assms]
  have len: "length (i2c_buf d) = 256" using assms(1) by (simp add: dev_wf_def)
  have "pending ?d = ring256 (i2c_buf d) (rd_after (i2c_buf_rd d) (i2c_buf_wr d) ?n) (i2c_buf_wr d)"
    using s by (auto simp: pending_def)
  also have "\<dots> = drop (taken256 (i2c_buf_rd d) (i2c_buf_wr d) ?n) (pending d)"
    unfolding pending_def by (rule ring256_rd_after [OF len assms(3) [unfolded pending_def]])
  finally show ?thesis using s by (auto simp: taken256_def)
qed

text \<open>A device with a ring wrapped at \<open>wr\<close>: entry \<open>i\<close> of the ring holds the number \<open>i\<close>.\<close>

definition ring_dev :: "'e \<Rightarrow> u8 \<Rightarrow> u8 \<Rightarrow> u8 \<Rightarrow> 'e dev" where
  "ring_dev e n prd pwr =
     \<lparr>cfg_i2c = def_cfg_i2c\<lparr>pktcnt := n\<rparr>,
      cfg_ina228 = \<lparr>enable = 0, chnl = 0, smpr = 0, sh = 0\<rparr>, raddr = 0, timer_flg = 0,
      i2c_buf_rd = prd, i2c_buf_wr = pwr, i2c_rd_24bit = 1, i2c_buf = map of_nat [0..<256],
      all_read_count = 0, all_overflow_cnt = 0, blk_count = 0, blk_id = 0,
      blk_data = replicate 120 0,
      app_tx_fifo = \<lparr>fbegin = 0, fend = 0, fdata = replicate 64 0, fsize = 64, fsize_mask = 63\<rparr>,
      i2c = \<lparr>ctrl1 = 0, ctrl2 = 0, sfr_log = [], hw_pos = 0\<rparr>, tmr_cnt_end = 0, tmr_ctrl_mod = 0,
      tmr_irq_en = False, tmr_cyc_end = False, pb_out = 0, gpio_cfg = [], eep = e\<rparr>"

lemma ring_dev_wf: "unat n \<le> 40 \<Longrightarrow> dev_wf (ring_dev e n prd pwr)"
  by (simp add: ring_dev_def dev_wf_def i2c_cfg_wf_def def_cfg_i2c_def sample_size_def fifo_wf_def
      fifo_length_def)

text \<open>
  Four of the nine pending samples (252 to 255) are due as two: two of them are sent, and two are
  gone along with them; the five at the start of the ring stay.
\<close>

theorem I2CDevTask_block_witness:
  "length (pending (ring_dev () 2 252 5)) = 9 \<and> length (pending (I2CDevTask (ring_dev () 2 252 5))) = 5"
proof -
  have len: "length (pending (ring_dev () 2 252 5)) = 9"
    by (simp add: length_pending) (simp add: ring_dev_def)
  have c: "cfg_i2c (ring_dev () 2 252 5) = def_cfg_i2c\<lparr>pktcnt := 2\<rparr>"
    "i2c_buf_wr (ring_dev () 2 252 5) = 5" "i2c_buf_rd (ring_dev () 2 252 5) = 252"
    by (simp_all add: ring_dev_def)
  from I2CDevTask_block [of "ring_dev () 2 252 5"] ring_dev_wf [of 2 "()" 252 5] len c
  show ?thesis by simp
qed

text \<open>
  C2: The timer interrupt appends exactly one sample, a read of the register that is next in the list: it
  sends on the bus the device address, the register number and the read address of that register, or less
  when a wait fails, and the pending samples are the old ones followed by the entry (as long as fewer than
  255 were pending). When the transfer succeeds, the low two bytes of the entry, or three in 24-bit mode,
  are what the data register held at as many moments of the transfer, the high byte first; the rest of the
  entry is what the ring held there before. The write index is one further, the register pointer at the
  next register of the list, cyclically, and nothing else but the bus and the interrupt flag has changed.
  The entry is appended whether or not the transfer succeeded.
\<close>

theorem TMR1_IRQHandler_appends:
  assumes "TMR1_IRQHandler env d = Some d'" "dev_wf d" "tmr_cyc_end d" "timer_flg d \<noteq> 0"
    "length (pending d) < 255" "ctrl1 (i2c d) AND RB_I2C_PE \<noteq> 0"
  shows "dev_wf d' \<and>
    (\<exists>ret h b bs. irq_read env d = Some (ret, h, b) \<and>
      d' = d\<lparr>i2c := h, i2c_buf := (i2c_buf d)[unat (i2c_buf_wr d) := from_le32 b],
        i2c_buf_wr := i2c_buf_wr d + 1, raddr := next_raddr (cfg_i2c d) (raddr d),
        tmr_cyc_end := False\<rparr> \<and>
      pending d' = pending d @ [from_le32 b] \<and>
      wire h = wire (i2c d) @ bs \<and>
      (let r = rd (cfg_i2c d) ! raddr d; ask = [rd_dev_addr r, rd_reg_addr r, rd_dev_addr r OR 1]
       in prefix bs ask \<and>
         (ret = 0 \<longrightarrow> bs = ask \<and>
           entry_read env (i2c_rd_24bit d \<noteq> 0) (hw_pos (i2c d)) (hw_pos h) (i2c_buf d ! unat (i2c_buf_wr d))
             (from_le32 b))))"
proof -
  obtain ret h b where x: "irq_read env d = Some (ret, h, b)" and
    d': "d' = d\<lparr>i2c := h, i2c_buf := (i2c_buf d)[unat (i2c_buf_wr d) := from_le32 b],
       i2c_buf_wr := i2c_buf_wr d + 1, raddr := next_raddr (cfg_i2c d) (raddr d),
       tmr_cyc_end := False\<rparr>"
    using irq_transfer [OF assms(1,3,4)] by blast
  have "pending d' = pending d @ [from_le32 b]"
    using ring256_push [of "i2c_buf d" "i2c_buf_rd d" "i2c_buf_wr d" "from_le32 b"] assms(2,5)
    unfolding dev_wf_def d' pending_def by simp
  with x d' irq_read_spec [OF x assms(6)] dev_wf_irq [OF assms(1,2)] show ?thesis unfolding Let_def by blast
qed

text \<open>A 24-bit read of the first register of the list, answered with \<open>0x55\<close> three times.\<close>

definition irq_demo :: "unit dev" where
  "irq_demo = ring_dev () 2 252 5\<lparr>timer_flg := 1, tmr_cyc_end := True, i2c := hw_on\<rparr>"

theorem TMR1_IRQHandler_appends_witness:
  "\<exists>d'. TMR1_IRQHandler (steady_env (\<lambda>_. 0xC7) (\<lambda>_. 0x55)) irq_demo = Some d' \<and> raddr d' = 1 \<and>
    pending d' = pending irq_demo @ [0x555555] \<and> wire (i2c d') = [0x80, 5, 0x81]"
proof -
  let ?env = "steady_env (\<lambda>_. 0xC7) (\<lambda>_. 0x55)"
  have c: "tmr_cyc_end irq_demo" "timer_flg irq_demo \<noteq> 0" "i2c irq_demo = hw_on" "i2c_rd_24bit irq_demo = 1"
    "raddr irq_demo = 0" "clk_khz (cfg_i2c irq_demo) = 800" "i2c_buf irq_demo ! unat (i2c_buf_wr irq_demo) = 5"
    "rd (cfg_i2c irq_demo) ! 0 = \<lparr>rd_dev_addr = 0x80, rd_reg_addr = 5\<rparr>" "next_raddr (cfg_i2c irq_demo) 0 = 1"
    by (simp_all add: irq_demo_def ring_dev_def def_cfg_i2c_def next_raddr_def raddr_dev_addr_def regs)
  have "clk_ok (clk_khz (cfg_i2c irq_demo))" unfolding c by (simp add: clk_ok_def)
  then obtain d' where d': "TMR1_IRQHandler ?env irq_demo = Some d'"
    using irq_total [OF clock_runs_steady] by blast
  have w: "dev_wf irq_demo" using ring_dev_wf [of 2 "()" 252 5] by (simp add: irq_demo_def dev_wf_def sample_size_def)
  have l: "length (pending irq_demo) < 255" by (simp add: length_pending) (simp add: irq_demo_def ring_dev_def)
  have on: "ctrl1 (i2c irq_demo) AND RB_I2C_PE \<noteq> 0" unfolding c by (simp add: regs)
  have "\<exists>h. irq_read ?env irq_demo = Some (0, h, [0x55, 0x55, 0x55, 0])"
    by (simp add: irq_read_def Let_def c I2CBusRead24bits_def i2c_read_reg_def wait_then_buf_def i2c_stop_buf_def
        regs read_datar_def le32_def) (simp add: steady_env_def)
  then obtain h where h: "irq_read ?env irq_demo = Some (0, h, [0x55, 0x55, 0x55, 0])" by blast
  have "from_le32 [0x55, 0x55, 0x55, 0] = 0x555555" by (simp add: from_le32_def)
  with TMR1_IRQHandler_appends [OF d' w c(1,2) l on] d' h c show ?thesis by (auto simp: Let_def)
qed

text \<open>
  \<open>I2CDevStart\<close> and the timer interrupt return whatever the bus does, as long as the tick
  counter advances; the start needs a shift count the C code defines, the interrupt a bus clock
  that is not zero.
\<close>

theorem I2CDev_returns:
  assumes "clock_runs env"
  shows "(unat (multiplier (cfg_i2c d)) < 32 \<longrightarrow> (\<exists>ret d'. I2CDevStart env d = Some (ret, d'))) \<and>
    (clk_ok (clk_khz (cfg_i2c d)) \<longrightarrow> (\<exists>d'. TMR1_IRQHandler env d = Some d'))"
  using start_total [OF assms] irq_total [OF assms] by blast

theorem I2CDev_returns_witness:
  "\<exists>ret d'. I2CDevStart (steady_env (\<lambda>_. 0) (\<lambda>_. 0)) (ring_dev () 2 0 0) = Some (ret, d')"
proof -
  have "unat (multiplier (cfg_i2c (ring_dev () 2 0 0))) < 32" by (simp add: ring_dev_def def_cfg_i2c_def)
  with I2CDev_returns [OF clock_runs_steady [of "\<lambda>_. 0" "\<lambda>_. 0"], of "ring_dev () 2 0 0"]
  show ?thesis by blast
qed

text \<open>
  C23: Whatever configuration the host sent, after \<open>I2CDevStart\<close> the packet count fits the packet
  buffer, the bus clock is within 100 to 2000 kHz and the device state is well-formed; sampling is
  on exactly when a start with a non-zero packet count succeeded, then with an empty ring, cleared
  counters and a period no shorter than a register read takes; a failed start leaves it off.
\<close>

theorem I2CDevStart_establishes:
  assumes "I2CDevStart env d = Some (ret, d')" "i2c_cfg_wf (cfg_i2c d)" "raddr d < 4"
    "length (i2c_buf d) = 256" "length (blk_data d) = 120" "fifo_wf (app_tx_fifo d)"
  shows "dev_wf d' \<and> started ret d' \<and>
    (timer_flg d' \<noteq> 0 \<longleftrightarrow> ret \<noteq> 0 \<and> pktcnt (cfg_i2c d') \<noteq> 0) \<and>
    (timer_flg d' \<noteq> 0 \<longrightarrow> pending d' = [])"
proof -
  have s: "started ret d'" using start_spec [OF assms(1)] by blast
  then have "timer_flg d' \<noteq> 0 \<longleftrightarrow> ret \<noteq> 0 \<and> pktcnt (cfg_i2c d') \<noteq> 0"
    and "timer_flg d' \<noteq> 0 \<longrightarrow> pending d' = []"
    by (auto simp: started_def pending_def)
  with s dev_wf_start [OF assms] show ?thesis by blast
qed

theorem I2CDevStart_establishes_witness:
  "\<exists>ret d'. I2CDevStart (steady_env (\<lambda>_. 0) (\<lambda>_. 0)) (ring_dev () 40 7 9) = Some (ret, d') \<and> dev_wf d'"
proof -
  have m: "unat (multiplier (cfg_i2c (ring_dev () 40 7 9))) < 32"
    by (simp add: ring_dev_def def_cfg_i2c_def)
  from start_total [OF clock_runs_steady this] obtain ret d' where
    r: "I2CDevStart (steady_env (\<lambda>_. 0) (\<lambda>_. 0)) (ring_dev () 40 7 9) = Some (ret, d')" by blast
  have "dev_wf (ring_dev () 40 7 9)" by (rule ring_dev_wf) simp
  then show ?thesis using I2CDevStart_establishes [OF r] r by (auto simp: dev_wf_def)
qed

text \<open>
  C20: Settings survive a power cycle: when \<open>I2CDevWriteSetings\<close> reports success, a later
  \<open>I2CDevReadSetings\<close> on the same flash reports success and restores the configuration, with the
  checksum the write sealed it with.
\<close>

theorem I2CDevSetings_roundtrip:
  assumes "flash_faithful ops" "i2c_cfg_wf (cfg_i2c d)" "I2CDevWriteSetings ops d = (0, d')"
    "eep d2 = eep d'"
  shows "\<exists>d3. I2CDevReadSetings ops d2 = (0, d3) \<and> cfg_i2c d3 = cfg_i2c d' \<and>
    i2c_cfg_body (cfg_i2c d3) = i2c_cfg_body (cfg_i2c d)"
proof -
  note st = write_settings_stored [OF assms(1-3)] and cs = crc_sealed [OF assms(2)]
  have "i2c_cfg_wf (cfg_i2c d')" "crc16 0xffff (i2c_cfg_bytes (cfg_i2c d')) = 0"
    "i2c_cfg_body (cfg_i2c d') = i2c_cfg_body (cfg_i2c d)"
    using cs by (simp_all only: st(2))
  with st(1) assms(4) show ?thesis
    by (simp add: I2CDevReadSetings_def i2c_cfg_of_bytes_bytes)
qed

definition ram_flash :: "u8 list flash_ops" where
  "ram_flash = \<lparr>ee_read = (\<lambda>e n. (0, take n e)), ee_erase = (\<lambda>e. (0, replicate 40 0xff)),
     ee_write = (\<lambda>e bs. (0, bs))\<rparr>"

theorem I2CDevSetings_roundtrip_witness:
  "\<exists>d' d3. I2CDevWriteSetings ram_flash (ring_dev (replicate 40 0) 20 0 0) = (0, d') \<and>
     I2CDevReadSetings ram_flash (ring_dev (eep d') 0 0 0) = (0, d3) \<and> cfg_i2c d3 = cfg_i2c d'"
proof -
  let ?d = "ring_dev (replicate 40 0 :: u8 list) 20 0 0"
  have f: "flash_faithful ram_flash" by (simp add: flash_faithful_def ram_flash_def)
  have w: "i2c_cfg_wf (cfg_i2c ?d)" by (simp add: ring_dev_def i2c_cfg_wf_def def_cfg_i2c_def)
  obtain r d' where r: "I2CDevWriteSetings ram_flash ?d = (r, d')" by force
  then have "r = 0" by (auto simp: I2CDevWriteSetings_def ram_flash_def Let_def split: if_splits)
  with r have r0: "I2CDevWriteSetings ram_flash ?d = (0, d')" by simp
  have "eep (ring_dev (eep d') 0 0 0) = eep d'" by (simp add: ring_dev_def)
  from I2CDevSetings_roundtrip [OF f w r0 this] r0 show ?thesis by auto
qed

text \<open>
  A stored record whose checksum does not verify, or a failed flash read, makes
  \<open>I2CDevReadSetings\<close> report failure and load the default configuration.
\<close>

theorem I2CDevReadSetings_default:
  assumes "ee_read ops (eep d) 40 = (st, bs)" "length bs = 40"
    "st \<noteq> 0 \<or> from_le16 (bs ! 38) (bs ! 39) \<noteq> crc16 0xffff (take 38 bs)"
  shows "\<exists>d'. I2CDevReadSetings ops d = (1, d') \<and>
    i2c_cfg_body (cfg_i2c d') = i2c_cfg_body def_cfg_i2c"
proof -
  have "drop 38 bs = [bs ! 38, bs ! 39]"
    using assms(2) by (simp add: Cons_nth_drop_Suc [symmetric] eval_nat_numeral)
  then have split: "bs = take 38 bs @ [bs ! 38, bs ! 39]" by (metis append_take_drop_id)
  have "crc16 0xffff bs \<noteq> 0 \<or> st \<noteq> 0"
    using assms(3) crc_trailer [of "0xffff" "take 38 bs" "bs ! 38" "bs ! 39"] split by metis
  then have bad: "st \<noteq> 0 \<or> crc16 0xffff (i2c_cfg_bytes (i2c_cfg_of_bytes bs)) \<noteq> 0"
    using assms(2) by (auto simp: i2c_cfg_bytes_of_bytes)
  have def_wf: "i2c_cfg_wf def_cfg_i2c" by (simp add: i2c_cfg_wf_def def_cfg_i2c_def)
  let ?c = "i2c_cfg_memcpy (i2c_cfg_of_bytes bs) (i2c_cfg_bytes def_cfg_i2c) 38"
  have "i2c_cfg_bytes ?c = i2c_cfg_body def_cfg_i2c @ drop 38 bs"
    using def_wf assms(2) by (simp add: i2c_cfg_bytes_memcpy i2c_cfg_bytes_of_bytes)
  then have "take 38 (i2c_cfg_bytes ?c) = i2c_cfg_body def_cfg_i2c" using def_wf by simp
  then have "i2c_cfg_body ?c = i2c_cfg_body def_cfg_i2c" by simp
  with bad assms(1) show ?thesis by (auto simp: I2CDevReadSetings_def Let_def)
qed

theorem I2CDevReadSetings_default_witness:
  "\<exists>d'. I2CDevReadSetings ram_flash (ring_dev (replicate 40 (0 :: u8)) 1 2 3) = (1, d') \<and>
    i2c_cfg_body (cfg_i2c d') = i2c_cfg_body def_cfg_i2c"
proof -
  let ?bs = "replicate 40 (0 :: u8)"
  have r: "ee_read ram_flash (eep (ring_dev ?bs 1 2 3)) 40 = (0, ?bs)"
    by (simp add: ring_dev_def ram_flash_def)
  have c: "from_le16 (?bs ! 38) (?bs ! 39) \<noteq> crc16 0xffff (take 38 ?bs)"
    by code_simp
  have l: "length ?bs = 40" by (rule length_replicate)
  show ?thesis by (rule I2CDevReadSetings_default [OF r l disjI2 [OF c]])
qed

end
