(* ===== verification/CmdDecode.thy ===== *)
theory CmdDecode
  imports I2cDev
begin

text \<open>
  The command interpreter of the CH592 port (\<open>ch592/INA2282USB/src/cmd_decode.c\<close>): the INA228
  measurement set-up and \<open>cmd_decode\<close>, which takes a received packet and fills the reply packet.
  The build options are those of \<open>common.h\<close>: I2C device and 24-bit samples on, DAC and ADC off.
\<close>

section \<open>INA228 measurement\<close>

definition tab_freg :: "u16 list" where
  "tab_freg = [20000, 11905, 6666, 3571, 1851, 950, 482, 242]"

definition tab_time_us :: "u16 list" where
  "tab_time_us = [100, 84, 150, 280, 540, 1052, 2074, 4120]"

text \<open>\<open>for (i = 0; i < 7; i++) if (cfg->smpr >= tab_freg[i]) break;\<close>\<close>

definition conv_index :: "u16 \<Rightarrow> nat" where
  "conv_index f =
     (case find (\<lambda>i. f \<ge> tab_freg ! i) [0..<7] of Some i \<Rightarrow> i | None \<Rightarrow> 7)"

definition ina228_setup :: "dev_ina228_cfg_t \<Rightarrow> 'e dev \<Rightarrow> 'e dev" where
  "ina228_setup cfg d =
     (let d = d\<lparr>timer_flg := 0\<rparr>;
          c = cfg_i2c d;
          shunt = (if sh cfg \<noteq> 0 then push_bit 4 1 else 0 :: u16);
          rd0 = \<lparr>rd_dev_addr = I2C_ADDR_INA228, rd_reg_addr = INA228_RA_VBUS\<rparr>;
          rd1 = \<lparr>rd_dev_addr = I2C_ADDR_INA228, rd_reg_addr = INA228_RA_VSHUNT\<rparr>;
          rd2 = (rd c ! 2)\<lparr>rd_dev_addr := 0\<rparr>;
          (rd0, rd1, reg, bits24) =
            (if chnl cfg = 3 then (rd0, rd1, push_bit 12 0x0b, 2)
             else if chnl cfg = 2
             then (rd0, rd1\<lparr>rd_reg_addr := INA228_RA_VBUS\<rparr>, push_bit 12 0x09, 1)
             else (rd0\<lparr>rd_reg_addr := INA228_RA_VSHUNT\<rparr>, rd1, push_bit 12 0x0a, 1));
          i = conv_index (smpr cfg);
          reg = reg OR (push_bit 3 (of_nat i) OR push_bit 6 (of_nat i) OR push_bit 9 (of_nat i)) :: u16
      in d\<lparr>i2c_rd_24bit := bits24,
           cfg_i2c := c\<lparr>
             init :=
               [\<lparr>wr_dev_addr = I2C_ADDR_INA228, wr_reg_addr = INA228_RA_CONFIG, wr_data = push_bit 14 3\<rparr>,
                \<lparr>wr_dev_addr = I2C_ADDR_INA228, wr_reg_addr = INA228_RA_CONFIG, wr_data = shunt\<rparr>,
                \<lparr>wr_dev_addr = I2C_ADDR_INA228, wr_reg_addr = INA228_RA_DIAG_ALRT, wr_data = push_bit 14 1\<rparr>,
                \<lparr>wr_dev_addr = I2C_ADDR_INA228, wr_reg_addr = INA228_RA_ADC_CONFIG, wr_data = reg\<rparr>],
             rd := [rd0, rd1, rd2, rd c ! 3],
             clk_khz := ucast DEF_I2C_CLK_KHZ,
             multiplier := 0,
             time := tab_time_us ! i,
             pktcnt := 20\<rparr>\<rparr>)"

definition ina228_start :: "hw_env \<Rightarrow> dev_ina228_cfg_t \<Rightarrow> 'e dev \<Rightarrow> (u32 \<times> 'e dev) option" where
  "ina228_start env cfg d = I2CDevStart env (ina228_setup cfg d)"

definition ina228_stop :: "hw_env \<Rightarrow> 'e dev \<Rightarrow> (u32 \<times> 'e dev) option" where
  "ina228_stop env d = I2CDevStart env (set_pktcnt 0 d)"

section \<open>The command switch\<close>

definition INT_DEV_ID :: u16 where [regs]: "INT_DEV_ID = 0x1024"
definition INT_DEV_VER :: u16 where [regs]: "INT_DEV_VER = 0x0007"

text \<open>A case of the switch yields the length to send, the reply packet and the device.\<close>

type_synonym 'e reply = "(u32 \<times> blk_tx_pkt_t \<times> 'e dev) option"

definition cmd_error :: "blk_tx_pkt_t \<Rightarrow> 'e dev \<Rightarrow> 'e reply" where
  "cmd_error p d = Some (2, p\<lparr>tx_cmd := tx_cmd p OR CMD_ERR_FLG\<rparr>, d)"

definition cmd_ver :: "blk_tx_pkt_t \<Rightarrow> 'e dev \<Rightarrow> 'e reply" where
  "cmd_ver p d = Some (6, tx_put 2 (le16 INT_DEV_VER) (tx_put 0 (le16 INT_DEV_ID) p), d)"

definition cmd_cfg :: "hw_env \<Rightarrow> u8 list \<Rightarrow> blk_tx_pkt_t \<Rightarrow> 'e dev \<Rightarrow> 'e reply" where
  "cmd_cfg env buf p d =
     do {
       (ok, d) \<leftarrow>
         (if rx_size buf \<noteq> 0
          then do {
            let d = d\<lparr>timer_flg := 0\<rparr>;
            let n = (if rx_size buf > 38 then 38 else unat (rx_size buf));
            let d = d\<lparr>cfg_i2c := i2c_cfg_memcpy (cfg_i2c d) (rx_data buf) n\<rparr>;
            (ret, d) \<leftarrow> I2CDevStart env d;
            Some (ret \<noteq> 0, d)
          }
          else Some (True, d));
       if \<not> ok then cmd_error p d
       else Some (40, tx_put 0 (take 38 (i2c_cfg_bytes (cfg_i2c d))) p, d)
     }"

definition cmd_scf :: "'e flash_ops \<Rightarrow> u8 list \<Rightarrow> blk_tx_pkt_t \<Rightarrow> 'e dev \<Rightarrow> 'e reply" where
  "cmd_scf ops buf p d =
     (if rx_size buf < 1 then cmd_error p d
      else
        (let p = tx_put 0 [0, 0, 0, 0] p;
             (p, d) =
               (if bit (rx_data buf ! 0) 0
                then (let (ret, d) = I2CDevWriteSetings ops d
                      in (if ret = 0 then tx_put 0 [tx_data p ! 0 OR 1] p else p, d))
                else (p, d))
         in Some (3, p, d)))"

definition cmd_ecad :: "hw_env \<Rightarrow> u8 list \<Rightarrow> blk_tx_pkt_t \<Rightarrow> 'e dev \<Rightarrow> 'e reply" where
  "cmd_ecad env buf p d =
     do {
       d \<leftarrow>
         (if rx_size buf \<noteq> 0
          then do {
            let n = (if rx_size buf > 5 then 5 else unat (rx_size buf));
            let d = d\<lparr>cfg_ina228 := ina228_cfg_memcpy (cfg_ina228 d) (rx_data buf) n\<rparr>;
            (ret, d) \<leftarrow> (if rx_data buf ! 0 \<noteq> 0 then ina228_start env (cfg_ina228 d) d
                        else ina228_stop env d);
            Some d
          }
          else Some d);
       Some (7, tx_put 0 (ina228_cfg_bytes (cfg_ina228 d)) p, d)
     }"

definition cmd_grg :: "hw_env \<Rightarrow> u8 list \<Rightarrow> blk_tx_pkt_t \<Rightarrow> 'e dev \<Rightarrow> 'e reply" where
  "cmd_grg env buf p d =
     do {
       let tmp = timer_flg d;
       let d = d\<lparr>timer_flg := 0\<rparr>;
       (ret, h, pbuf) \<leftarrow> I2CBusReadWord env (clk_khz (cfg_i2c d)) (rx_data buf ! 0) (rx_data buf ! 1)
         [tx_data p ! 2, tx_data p ! 3] (i2c d);
       let d = d\<lparr>i2c := h\<rparr>;
       let p = tx_put 2 pbuf p;
       (n, p, d) \<leftarrow>
         (if ret = 0 then Some (6, tx_put 0 (take 2 (rx_data buf)) p, d) else cmd_error p d);
       Some (n, p, d\<lparr>timer_flg := tmp\<rparr>)
     }"

definition cmd_srg :: "hw_env \<Rightarrow> u8 list \<Rightarrow> blk_tx_pkt_t \<Rightarrow> 'e dev \<Rightarrow> 'e reply" where
  "cmd_srg env buf p d =
     do {
       let tmp = timer_flg d;
       let d = d\<lparr>timer_flg := 0\<rparr>;
       (ret, h) \<leftarrow> I2CBusWriteWord env (clk_khz (cfg_i2c d)) (rx_data buf ! 0) (rx_data buf ! 1)
         (from_le16 (rx_data buf ! 2) (rx_data buf ! 3)) (i2c d);
       let d = d\<lparr>i2c := h\<rparr>;
       (n, p, d) \<leftarrow>
         (if ret = 0 then Some (6, tx_put 0 (take 4 (rx_data buf)) p, d) else cmd_error p d);
       Some (n, p, d\<lparr>timer_flg := tmp\<rparr>)
     }"

definition cmd_sta :: "blk_tx_pkt_t \<Rightarrow> 'e dev \<Rightarrow> 'e reply" where
  "cmd_sta p d =
     Some (10, tx_put 4 (le32 (all_overflow_cnt d)) (tx_put 0 (le32 (all_read_count d)) p), d)"

text \<open>The power-off branch tests the port with an assignment: \<open>(R32_PB_OUT &= I2C_DEV_POWER) == 0\<close>.\<close>

definition cmd_pwr :: "hw_env \<Rightarrow> u8 list \<Rightarrow> blk_tx_pkt_t \<Rightarrow> 'e dev \<Rightarrow> 'e reply" where
  "cmd_pwr env buf p d =
     do {
       d \<leftarrow>
         (if rx_size buf \<noteq> 0
          then if rx_data buf ! 0 \<noteq> 0 then I2CDevWakeUp env d
            else do {
              let d = d\<lparr>pb_out := pb_out d AND I2C_DEV_POWER\<rparr>;
              d \<leftarrow> (if pb_out d = 0 then I2CDevWakeUp env d else Some d);
              I2CDevSleep env d
            }
          else Some d);
       Some (0, p, d)
     }"

definition cmd_switch ::
    "'e flash_ops \<Rightarrow> hw_env \<Rightarrow> u8 list \<Rightarrow> blk_tx_pkt_t \<Rightarrow> 'e dev \<Rightarrow> 'e reply" where
  "cmd_switch ops env buf p d =
     (if rx_cmd buf = CMD_DEV_VER then cmd_ver p d
      else if rx_cmd buf = CMD_DEV_CFG then cmd_cfg env buf p d
      else if rx_cmd buf = CMD_DEV_SCF then cmd_scf ops buf p d
      else if rx_cmd buf = CMD_DEV_ECAD then cmd_ecad env buf p d
      else if rx_cmd buf = CMD_DEV_GRG then cmd_grg env buf p d
      else if rx_cmd buf = CMD_DEV_SRG then cmd_srg env buf p d
      else if rx_cmd buf = CMD_DEV_STA then cmd_sta p d
      else if rx_cmd buf = CMD_I2C_PWR then cmd_pwr env buf p d
      else if rx_cmd buf = CMD_DEV_TST then Some (0, p, d)
      else cmd_error p d)"

definition cmd_decode ::
    "'e flash_ops \<Rightarrow> hw_env \<Rightarrow> blk_tx_pkt_t \<Rightarrow> u8 list \<Rightarrow> 'e dev \<Rightarrow> 'e reply" where
  "cmd_decode ops env pbufo pbufi d =
     do {
       (txlen, p, d) \<leftarrow> cmd_switch ops env pbufi (pbufo\<lparr>tx_cmd := rx_cmd pbufi\<rparr>) d;
       Some (txlen, p\<lparr>tx_size := ucast (txlen - 2)\<rparr>, d)
     }"

lemmas cmd_case_defs = cmd_error_def cmd_ver_def cmd_cfg_def cmd_scf_def cmd_ecad_def cmd_grg_def
  cmd_srg_def cmd_sta_def cmd_pwr_def

section \<open>What a case of the switch may do to the reply\<close>

text \<open>The shape every case keeps: the length, the command byte and the size of the data area.\<close>

definition reply_ok :: "u8 \<Rightarrow> u32 \<Rightarrow> blk_tx_pkt_t \<Rightarrow> bool" where
  "reply_ok c n p \<longleftrightarrow> tx_pkt_wf p \<and> n \<in> {0, 2, 3, 6, 7, 10, 40} \<and>
     (tx_cmd p = c \<or> n = 2 \<and> tx_cmd p = c OR CMD_ERR_FLG)"

lemma reply_ok_put:
  "tx_pkt_wf p \<Longrightarrow> tx_cmd p = c \<Longrightarrow> off + length bs \<le> 232 \<Longrightarrow> n \<in> {0, 2, 3, 6, 7, 10, 40} \<Longrightarrow>
   reply_ok c n (tx_put off bs p)"
  by (auto simp: reply_ok_def)

lemma reply_ok_error: "tx_pkt_wf p \<Longrightarrow> tx_cmd p = c \<Longrightarrow> cmd_error p d = Some (n, p', d') \<Longrightarrow>
   reply_ok c n p' \<and> d' = d \<and> n = 2"
  by (auto simp: reply_ok_def cmd_error_def)

lemma timer_flg_same: "timer_flg d = x \<Longrightarrow> d\<lparr>timer_flg := x\<rparr> = d" for d :: "'e dev"
  by (cases d) simp

lemma start_keeps_cfg_wf:
  "I2CDevStart env d = Some (ret, d') \<Longrightarrow> i2c_cfg_wf (cfg_i2c d') = i2c_cfg_wf (cfg_i2c d)"
  using start_spec [of env d ret d'] by (auto simp: i2c_cfg_wf_def)

lemma cmd_cfg_spec:
  assumes "cmd_cfg env buf p d = Some (n, p', d')" "tx_pkt_wf p" "tx_cmd p = c"
    "i2c_cfg_wf (cfg_i2c d)"
  shows "reply_ok c n p' \<and>
    (n = 40 \<longrightarrow> tx_cmd p' = c \<and> take 38 (tx_data p') = i2c_cfg_body (cfg_i2c d')) \<and>
    (if rx_size buf = 0 then d' = d \<and> n = 40
     else \<exists>ret. I2CDevStart env (d\<lparr>timer_flg := 0,
         cfg_i2c := i2c_cfg_memcpy (cfg_i2c d) (rx_data buf) (min 38 (unat (rx_size buf)))\<rparr>) =
         Some (ret, d') \<and> (n = 40 \<longleftrightarrow> ret \<noteq> 0))"
proof -
  let ?out = "\<lambda>e. tx_put 0 (take 38 (i2c_cfg_bytes (cfg_i2c e))) p"
  have ok: "reply_ok c 40 (?out e) \<and> tx_cmd (?out e) = c \<and>
      take 38 (tx_data (?out e)) = i2c_cfg_body (cfg_i2c e)" if "i2c_cfg_wf (cfg_i2c e)" for e :: "'e dev"
    using that assms(2,3) by (simp add: reply_ok_put tx_pkt_wf_def)
  show ?thesis
  proof (cases "rx_size buf = 0")
    case True
    with assms ok [OF assms(4)] show ?thesis by (auto simp: cmd_cfg_def)
  next
    case False
    have n: "(if rx_size buf > 38 then 38 else unat (rx_size buf)) = min 38 (unat (rx_size buf))"
      by (auto simp: word_less_nat_alt)
    let ?d = "d\<lparr>timer_flg := 0,
         cfg_i2c := i2c_cfg_memcpy (cfg_i2c d) (rx_data buf) (min 38 (unat (rx_size buf)))\<rparr>"
    from False assms(1) obtain ret d1 where s: "I2CDevStart env ?d = Some (ret, d1)" and
      r: "(if ret = 0 then cmd_error p d1 else Some (40, ?out d1, d1)) = Some (n, p', d')"
      by (auto simp: cmd_cfg_def Let_def bind_eq_Some_conv n)
    have "i2c_cfg_wf (cfg_i2c d1)" using start_keeps_cfg_wf [OF s] by simp
    with r False s ok [of d1] reply_ok_error [OF assms(2,3), of d1 n p' d'] show ?thesis
      by (cases "ret = 0") auto
  qed
qed

text \<open>The two register commands with the saving and restoring of \<open>timer_flg\<close> resolved.\<close>

lemma timer_flg_restored:
  "d\<lparr>timer_flg := 0, i2c := h\<rparr>\<lparr>timer_flg := timer_flg d\<rparr> = d\<lparr>i2c := h\<rparr>" for d :: "'e dev"
proof -
  have "d\<lparr>timer_flg := 0, i2c := h\<rparr>\<lparr>timer_flg := timer_flg d\<rparr> = d\<lparr>timer_flg := timer_flg d\<rparr>\<lparr>i2c := h\<rparr>"
    by simp
  then show ?thesis using timer_flg_same [of d "timer_flg d"] by simp
qed

lemma cmd_grg_eq:
  "cmd_grg env buf p d =
     (case I2CBusReadWord env (clk_khz (cfg_i2c d)) (rx_data buf ! 0) (rx_data buf ! 1)
        [tx_data p ! 2, tx_data p ! 3] (i2c d) of
      None \<Rightarrow> None
    | Some (ret, h, pb) \<Rightarrow>
        Some (if ret = 0 then (6, tx_put 0 (take 2 (rx_data buf)) (tx_put 2 pb p), d\<lparr>i2c := h\<rparr>)
          else (2, (tx_put 2 pb p)\<lparr>tx_cmd := tx_cmd p OR CMD_ERR_FLG\<rparr>, d\<lparr>i2c := h\<rparr>)))"
  using timer_flg_restored [of d]
  by (simp add: cmd_grg_def cmd_error_def Let_def split: option.split prod.split)

lemma cmd_srg_eq:
  "cmd_srg env buf p d =
     (case I2CBusWriteWord env (clk_khz (cfg_i2c d)) (rx_data buf ! 0) (rx_data buf ! 1)
        (from_le16 (rx_data buf ! 2) (rx_data buf ! 3)) (i2c d) of
      None \<Rightarrow> None
    | Some (ret, h) \<Rightarrow>
        Some (if ret = 0 then (6, tx_put 0 (take 4 (rx_data buf)) p, d\<lparr>i2c := h\<rparr>)
          else (2, p\<lparr>tx_cmd := tx_cmd p OR CMD_ERR_FLG\<rparr>, d\<lparr>i2c := h\<rparr>)))"
  using timer_flg_restored [of d]
  by (simp add: cmd_srg_def cmd_error_def Let_def split: option.split prod.split)

lemma read_word_length:
  assumes "I2CBusReadWord env clk a r pbuf h = Some (ret, h', pbuf')"
  shows "length pbuf' = length pbuf"
proof (cases "ctrl1 h AND RB_I2C_PE = 0")
  case True
  with assms show ?thesis by (auto simp: I2CBusReadWord_def i2c_read_reg_def)
next
  case False
  from read_word_spec [OF assms this] show ?thesis by auto
qed

lemma cmd_grg_spec:
  assumes "cmd_grg env buf p d = Some (n, p', d')" "tx_pkt_wf p" "tx_cmd p = c" "4 \<le> length (rx_data buf)"
  shows "reply_ok c n p' \<and> n \<in> {2, 6} \<and> (\<exists>h. d' = d\<lparr>i2c := h\<rparr>)"
proof -
  obtain ret h pb where
    rd: "I2CBusReadWord env (clk_khz (cfg_i2c d)) (rx_data buf ! 0) (rx_data buf ! 1)
        [tx_data p ! 2, tx_data p ! 3] (i2c d) = Some (ret, h, pb)"
    using assms(1) by (auto simp: cmd_grg_eq split: option.splits)
  have "length pb = 2" using read_word_length [OF rd] by simp
  with assms(2) have "tx_pkt_wf (tx_put 2 pb p)" by simp
  with rd assms show ?thesis
    by (cases "ret = 0") (auto simp: cmd_grg_eq reply_ok_def)
qed

lemma cmd_srg_spec:
  assumes "cmd_srg env buf p d = Some (n, p', d')" "tx_pkt_wf p" "tx_cmd p = c" "4 \<le> length (rx_data buf)"
  shows "reply_ok c n p' \<and> n \<in> {2, 6} \<and>
    (\<exists>h ret. d' = d\<lparr>i2c := h\<rparr> \<and> (n = 6 \<longleftrightarrow> ret = 0) \<and>
      I2CBusWriteWord env (clk_khz (cfg_i2c d)) (rx_data buf ! 0) (rx_data buf ! 1)
        (from_le16 (rx_data buf ! 2) (rx_data buf ! 3)) (i2c d) = Some (ret, h)) \<and>
    (n = 6 \<longrightarrow> take 4 (tx_data p') = take 4 (rx_data buf))"
proof -
  obtain ret h where
    wr: "I2CBusWriteWord env (clk_khz (cfg_i2c d)) (rx_data buf ! 0) (rx_data buf ! 1)
      (from_le16 (rx_data buf ! 2) (rx_data buf ! 3)) (i2c d) = Some (ret, h)"
    using assms(1) by (auto simp: cmd_srg_eq split: option.splits)
  have "length (take 4 (rx_data buf)) = 4" using assms(4) by simp
  then have "take 4 (splice_at (tx_data p) 0 (take 4 (rx_data buf))) = take 4 (rx_data buf)"
    by (intro take_splice_at_0) simp
  with wr assms show ?thesis
    by (cases "ret = 0") (auto simp: cmd_srg_eq reply_ok_def)
qed

definition known_cmds :: "u8 set" where
  "known_cmds = {CMD_DEV_VER, CMD_DEV_CFG, CMD_DEV_SCF, CMD_DEV_ECAD, CMD_DEV_GRG, CMD_DEV_SRG,
     CMD_DEV_STA, CMD_I2C_PWR, CMD_DEV_TST}"

lemma cmd_reply_ok:
  assumes "cmd_switch ops env buf p d = Some (n, p', d')" "tx_pkt_wf p" "tx_cmd p = c"
    "i2c_cfg_wf (cfg_i2c d)" "4 \<le> length (rx_data buf)"
  shows "reply_ok c n p' \<and> (n = 0 \<longleftrightarrow> rx_cmd buf \<in> {CMD_I2C_PWR, CMD_DEV_TST})"
proof -
  consider "rx_cmd buf = CMD_DEV_VER" | "rx_cmd buf = CMD_DEV_CFG" | "rx_cmd buf = CMD_DEV_SCF"
    | "rx_cmd buf = CMD_DEV_ECAD" | "rx_cmd buf = CMD_DEV_GRG" | "rx_cmd buf = CMD_DEV_SRG"
    | "rx_cmd buf = CMD_DEV_STA" | "rx_cmd buf = CMD_I2C_PWR" | "rx_cmd buf = CMD_DEV_TST"
    | (other) "rx_cmd buf \<notin> known_cmds"
    by (auto simp: known_cmds_def)
  then show ?thesis
  proof cases
    case 1
    with assms show ?thesis
      by (auto simp: cmd_switch_def cmd_ver_def reply_ok_put regs)
  next
    case 2
    then have "cmd_cfg env buf p d = Some (n, p', d')"
      using assms(1) by (simp add: cmd_switch_def regs)
    then have "n \<in> {2, 40}"
      by (auto simp: cmd_cfg_def cmd_error_def bind_eq_Some_conv split: if_splits)
    with cmd_cfg_spec [OF \<open>cmd_cfg env buf p d = Some (n, p', d')\<close> assms(2-4)] 2 show ?thesis
      by (auto simp: regs)
  next
    case 3
    with assms show ?thesis
      by (auto simp: cmd_switch_def cmd_scf_def cmd_error_def reply_ok_put reply_ok_def regs Let_def
          split: if_splits prod.splits)
  next
    case 4
    with assms show ?thesis
      by (auto simp: cmd_switch_def cmd_ecad_def reply_ok_put regs bind_eq_Some_conv)
  next
    case 5
    then have "cmd_grg env buf p d = Some (n, p', d')"
      using assms(1) by (simp add: cmd_switch_def regs)
    from cmd_grg_spec [OF this assms(2,3,5)] 5 show ?thesis by (auto simp: regs)
  next
    case 6
    then have "cmd_srg env buf p d = Some (n, p', d')"
      using assms(1) by (simp add: cmd_switch_def regs)
    from cmd_srg_spec [OF this assms(2,3,5)] 6 show ?thesis by (auto simp: regs)
  next
    case 7
    with assms show ?thesis by (auto simp: cmd_switch_def cmd_sta_def reply_ok_put regs)
  next
    case 8
    with assms show ?thesis
      by (auto simp: cmd_switch_def cmd_pwr_def reply_ok_def regs bind_eq_Some_conv)
  next
    case 9
    with assms show ?thesis by (auto simp: cmd_switch_def reply_ok_def regs)
  next
    case other
    with assms reply_ok_error [OF assms(2,3), of d n p' d'] show ?thesis
      by (auto simp: cmd_switch_def known_cmds_def)
  qed
qed

section \<open>Every command returns\<close>

lemma dev_write_word_total:
  assumes "clock_runs env" "clk_ok (clk_khz (cfg_i2c d))"
  shows "\<exists>ret h. dev_write_word env r d = Some (ret, d\<lparr>i2c := h\<rparr>)"
proof -
  obtain ret h where "I2CBusWriteWord env (clk_khz (cfg_i2c d)) (wr_dev_addr r) (wr_reg_addr r)
      (wr_data r) (i2c d) = Some (ret, h)"
    using write_word_total [OF assms] by blast
  then show ?thesis by (auto simp: dev_write_word_def)
qed

lemma sleep_total:
  assumes "clock_runs env" "clk_ok (clk_khz (cfg_i2c d))"
  shows "\<exists>d'. I2CDevSleep env d = Some d'"
proof -
  let ?d0 = "I2CDevTimerStop (set_pktcnt 0 d)"
  have c0: "clk_ok (clk_khz (cfg_i2c ?d0))"
    using assms(2) by (simp add: I2CDevTimerStop_def set_pktcnt_def)
  obtain d1 where d1: "dev_bus_init ?d0 = Some d1"
    using I2CBusInit_total [OF c0, of "i2c ?d0"] by (auto simp: dev_bus_init_def)
  with dev_bus_init_frame [OF d1] c0 have c1: "clk_ok (clk_khz (cfg_i2c d1))" by auto
  obtain r2 h2 where d2: "dev_write_word env (slp (cfg_i2c d1) ! 0) d1 = Some (r2, d1\<lparr>i2c := h2\<rparr>)"
    using dev_write_word_total [OF assms(1) c1] by blast
  have c2: "clk_ok (clk_khz (cfg_i2c (d1\<lparr>i2c := h2\<rparr>)))" using c1 by simp
  obtain r3 h3 where d3: "dev_write_word env (slp (cfg_i2c d1) ! 1) (d1\<lparr>i2c := h2\<rparr>) =
      Some (r3, d1\<lparr>i2c := h2\<rparr>\<lparr>i2c := h3\<rparr>)"
    using dev_write_word_total [OF assms(1) c2] by blast
  from d1 d2 d3 show ?thesis unfolding I2CDevSleep_def Let_def by simp
qed

lemma wakeup_total:
  assumes "clock_runs env" "unat (multiplier (cfg_i2c d)) < 32"
  shows "\<exists>d'. I2CDevWakeUp env d = Some d'"
proof -
  have us: "\<exists>h. dev_sleep_us env n e = Some (e\<lparr>i2c := h\<rparr>)" for n and e :: "'a dev"
    using sleep_tick_total [OF assms(1), of "n * (FREQ_SYS div 1000000)" "i2c e"]
    by (auto simp: dev_sleep_us_def sleep_us_def)
  have ms: "\<exists>h. dev_sleep_ms env n e = Some (e\<lparr>i2c := h\<rparr>)" for n and e :: "'a dev"
    using sleep_tick_total [OF assms(1), of "n * (FREQ_SYS div 1000)" "i2c e"]
    by (auto simp: dev_sleep_ms_def sleep_ms_def)
  let ?d1 = "GPIOB_ModeCfg (I2C_DEV_POWER OR I2C_DEV_SCL OR I2C_DEV_SDA) GPIO_ModeIN_PU d"
  obtain h1 where 1: "dev_sleep_us env 128 ?d1 = Some (?d1\<lparr>i2c := h1\<rparr>)" using us by blast
  let ?d2 = "GPIOB_ModeCfg I2C_DEV_POWER GPIO_ModeOut_PP_20mA
    (GPIOB_ModeCfg I2C_DEV_POWER GPIO_ModeOut_PP_5mA (GPIOB_SetBits I2C_DEV_POWER (?d1\<lparr>i2c := h1\<rparr>)))"
  obtain h2 where 2: "dev_sleep_ms env 2 ?d2 = Some (?d2\<lparr>i2c := h2\<rparr>)" using ms by blast
  have "unat (multiplier (cfg_i2c (set_pktcnt 0 (?d2\<lparr>i2c := h2\<rparr>)))) < 32"
    using assms(2) by (simp add: set_pktcnt_def GPIOB_ModeCfg_def GPIOB_SetBits_def)
  from start_total [OF assms(1) this] obtain ret d' where
    "I2CDevStart env (set_pktcnt 0 (?d2\<lparr>i2c := h2\<rparr>)) = Some (ret, d')" by blast
  with 1 2 show ?thesis unfolding I2CDevWakeUp_def Let_def by simp
qed

lemma wakeup_clk_ok: "I2CDevWakeUp env d = Some d' \<Longrightarrow> clk_ok (clk_khz (cfg_i2c d'))"
  using wake_spec [of env d d'] start_spec clk_in_range_ok by (fastforce simp: started_def)

lemma multiplier_memcpy:
  assumes "i2c_cfg_wf c" "n \<le> length src"
  shows "multiplier (i2c_cfg_memcpy c src n) = (if 2 \<le> n then src ! 1 else multiplier c)"
proof -
  have "i2c_cfg_bytes c ! 1 = multiplier c" by (simp add: i2c_cfg_bytes_def i2c_cfg_body_def)
  with assms show ?thesis
    by (auto simp: i2c_cfg_memcpy_def i2c_cfg_of_bytes_def nth_append)
qed

definition shift_defined :: "u8 list \<Rightarrow> 'e dev \<Rightarrow> bool" where
  "shift_defined buf d \<longleftrightarrow> unat (multiplier (cfg_i2c d)) < 32 \<and>
     (rx_cmd buf = CMD_DEV_CFG \<and> 2 \<le> unat (rx_size buf) \<longrightarrow> unat (rx_data buf ! 1) < 32)"

lemma cmd_total:
  assumes "clock_runs env" "clk_ok (clk_khz (cfg_i2c d))" "shift_defined buf d"
    "i2c_cfg_wf (cfg_i2c d)" "length buf = 64"
  shows "\<exists>n p' d'. cmd_switch ops env buf p d = Some (n, p', d')"
proof -
  have m: "unat (multiplier (cfg_i2c d)) < 32" using assms(3) by (simp add: shift_defined_def)
  have cfg: "\<exists>n p' d'. cmd_cfg env buf p d = Some (n, p', d')" if "rx_cmd buf = CMD_DEV_CFG"
  proof -
    let ?n = "if rx_size buf > 38 then 38 else unat (rx_size buf)"
    let ?d = "d\<lparr>timer_flg := 0, cfg_i2c := i2c_cfg_memcpy (cfg_i2c d) (rx_data buf) ?n\<rparr>"
    have "?n \<le> length (rx_data buf)" using assms(5)
      by (auto simp: rx_data_def word_less_nat_alt)
    then have "unat (multiplier (cfg_i2c ?d)) < 32"
      using multiplier_memcpy [OF assms(4), of ?n "rx_data buf"] assms(3) that m
      by (auto simp: shift_defined_def word_less_nat_alt)
    from start_total [OF assms(1) this] show ?thesis
      by (auto simp: cmd_cfg_def cmd_error_def Let_def)
  qed
  have grg: "\<exists>n p' d'. cmd_grg env buf p d = Some (n, p', d')"
    using read_word_total [OF assms(1,2), of "rx_data buf ! 0" "rx_data buf ! 1"
        "[tx_data p ! 2, tx_data p ! 3]" "i2c d"] by (auto simp: cmd_grg_eq)
  have srg: "\<exists>n p' d'. cmd_srg env buf p d = Some (n, p', d')"
    using write_word_total [OF assms(1,2), of "rx_data buf ! 0" "rx_data buf ! 1"
        "from_le16 (rx_data buf ! 2) (rx_data buf ! 3)" "i2c d"] by (auto simp: cmd_srg_eq)
  have ecad: "\<exists>n p' d'. cmd_ecad env buf p d = Some (n, p', d')"
  proof -
    have "multiplier (cfg_i2c (ina228_setup c e)) = 0" for c and e :: "'a dev"
      by (simp add: ina228_setup_def Let_def split: prod.split)
    then have st: "\<exists>ret d'. ina228_start env c e = Some (ret, d')" for c and e :: "'a dev"
      using start_total [OF assms(1), of "ina228_setup c e"] by (simp add: ina228_start_def)
    have sp: "\<exists>ret d'. ina228_stop env (d\<lparr>cfg_ina228 := c\<rparr>) = Some (ret, d')" for c
      using start_total [OF assms(1), of "set_pktcnt 0 (d\<lparr>cfg_ina228 := c\<rparr>)"] m
      by (simp add: ina228_stop_def set_pktcnt_def)
    let ?c = "ina228_cfg_memcpy (cfg_ina228 d) (rx_data buf)
      (if rx_size buf > 5 then 5 else unat (rx_size buf))"
    from st [of ?c "d\<lparr>cfg_ina228 := ?c\<rparr>"] sp [of ?c] show ?thesis
      by (auto simp: cmd_ecad_def Let_def)
  qed
  have pwr: "\<exists>n p' d'. cmd_pwr env buf p d = Some (n, p', d')"
  proof -
    let ?d = "d\<lparr>pb_out := pb_out d AND I2C_DEV_POWER\<rparr>"
    obtain d1 where "I2CDevWakeUp env d = Some d1" using wakeup_total [OF assms(1) m] by blast
    moreover obtain d2 where d2: "I2CDevWakeUp env ?d = Some d2"
      using wakeup_total [OF assms(1), of ?d] m by auto
    moreover obtain d3 where "I2CDevSleep env d2 = Some d3"
      using sleep_total [OF assms(1) wakeup_clk_ok [OF d2]] by blast
    moreover obtain d4 where "I2CDevSleep env ?d = Some d4"
      using sleep_total [OF assms(1), of ?d] assms(2) by auto
    ultimately show ?thesis unfolding cmd_pwr_def Let_def
      by (cases "pb_out d AND I2C_DEV_POWER = 0") simp_all
  qed
  show ?thesis
    using cfg grg srg ecad pwr
    by (auto simp: cmd_switch_def cmd_ver_def cmd_scf_def cmd_sta_def cmd_error_def Let_def
        split: prod.split)
qed

section \<open>The conversion time table\<close>

lemma conv_index_spec:
  "conv_index f \<le> 7 \<and> (conv_index f < 7 \<longrightarrow> tab_freg ! conv_index f \<le> f) \<and>
   (\<forall>j < conv_index f. f < tab_freg ! j)"
proof (cases "find (\<lambda>i. f \<ge> tab_freg ! i) [0..<7]")
  case None
  then have "\<forall>j < 7. f < tab_freg ! j" by (auto simp: find_None_iff not_le)
  with None show ?thesis by (simp add: conv_index_def)
next
  case (Some i)
  then have "i < 7" "tab_freg ! i \<le> f" "\<forall>j < i. f < tab_freg ! j"
    by (auto simp: find_Some_iff not_le)
  with Some show ?thesis by (simp add: conv_index_def)
qed

text \<open>The words and the poll list that the set-up leaves in the configuration.\<close>

definition adc_mode :: "dev_ina228_cfg_t \<Rightarrow> u16" where
  "adc_mode cfg = (if chnl cfg = 3 then 11 else if chnl cfg = 2 then 9 else 10)"

definition adc_word :: "u16 \<Rightarrow> nat \<Rightarrow> u16" where
  "adc_word m i = push_bit 12 m OR (push_bit 3 (of_nat i) OR push_bit 6 (of_nat i) OR push_bit 9 (of_nat i))"

lemma adc_word_fields:
  assumes "i \<le> 7" "m \<in> {9, 10, 11}"
  shows "unat (adc_word m i) mod 8 = 0 \<and> (unat (adc_word m i) div 8) mod 8 = i \<and>
    (unat (adc_word m i) div 64) mod 8 = i \<and> (unat (adc_word m i) div 512) mod 8 = i \<and>
    unat (adc_word m i) div 4096 = unat m"
proof -
  from assms(1) have "i \<in> {0, 1, 2, 3, 4, 5, 6, 7}" by auto
  with assms(2) show ?thesis by (auto simp: adc_word_def)
qed

lemmas INA228_regs = I2C_ADDR_INA228_def INA228_RA_CONFIG_def INA228_RA_ADC_CONFIG_def
  INA228_RA_VSHUNT_def INA228_RA_VBUS_def INA228_RA_DIAG_ALRT_def

lemma ina228_setup_cfg:
  fixes d :: "'e dev"
  shows "time (cfg_i2c (ina228_setup cfg d)) = tab_time_us ! conv_index (smpr cfg)"
    "multiplier (cfg_i2c (ina228_setup cfg d)) = 0"
    "init (cfg_i2c (ina228_setup cfg d)) ! 3 =
       \<lparr>wr_dev_addr = I2C_ADDR_INA228, wr_reg_addr = INA228_RA_ADC_CONFIG,
        wr_data = adc_word (adc_mode cfg) (conv_index (smpr cfg))\<rparr>"
    "wr_data (init (cfg_i2c (ina228_setup cfg d)) ! 1) = (if sh cfg \<noteq> 0 then 0x10 else 0)"
    "map rd_dev_addr (take 3 (rd (cfg_i2c (ina228_setup cfg d)))) = [0x80, 0x80, 0]"
    "map rd_reg_addr (take 2 (rd (cfg_i2c (ina228_setup cfg d)))) =
      (if chnl cfg = 3 then [5, 4] else if chnl cfg = 2 then [5, 5] else [4, 4])"
    "pktcnt (cfg_i2c (ina228_setup cfg d)) = 20"
  by (cases "chnl cfg = 3"; cases "chnl cfg = 2";
      simp add: ina228_setup_def Let_def adc_word_def adc_mode_def INA228_regs)+

section \<open>Properties\<close>

text \<open>
  C17: The reply to any request: it fits the packet buffer, its command byte is the request's, with
  the error flag only on an empty reply, and its size byte is the length without the header. A
  request outside the known commands is answered by the error reply and changes nothing in the
  device; no reply is sent exactly for the power and test commands.
\<close>

theorem cmd_decode_reply:
  assumes "cmd_decode ops env p buf d = Some (n, p', d')" "tx_pkt_wf p" "length buf = 64"
    "i2c_cfg_wf (cfg_i2c d)"
  shows "tx_pkt_wf p' \<and> n \<le> 40 \<and>
    (n = 0 \<longleftrightarrow> rx_cmd buf \<in> {CMD_I2C_PWR, CMD_DEV_TST}) \<and>
    (n \<noteq> 0 \<longrightarrow> 2 \<le> n \<and> unat (tx_size p') = unat n - 2) \<and>
    (tx_cmd p' = rx_cmd buf \<or> n = 2 \<and> tx_cmd p' = rx_cmd buf OR CMD_ERR_FLG) \<and>
    (rx_cmd buf \<notin> known_cmds \<longrightarrow> n = 2 \<and> tx_cmd p' = rx_cmd buf OR CMD_ERR_FLG \<and> d' = d)"
proof -
  let ?p = "p\<lparr>tx_cmd := rx_cmd buf\<rparr>"
  obtain p1 where sw: "cmd_switch ops env buf ?p d = Some (n, p1, d')" and
    p': "p' = p1\<lparr>tx_size := ucast (n - 2)\<rparr>"
    using assms(1) by (auto simp: cmd_decode_def bind_eq_Some_conv)
  have rx: "4 \<le> length (rx_data buf)" using assms(3) by (simp add: rx_data_def)
  have "tx_pkt_wf ?p" "tx_cmd ?p = rx_cmd buf" using assms(2) by simp_all
  note ok = cmd_reply_ok [OF sw this assms(4) rx]
  have n: "n \<in> {0, 2, 3, 6, 7, 10, 40}" using ok unfolding reply_ok_def by blast
  then have "n \<le> 40 \<and> (n \<noteq> 0 \<longrightarrow> 2 \<le> n \<and> unat (ucast (n - 2) :: u8) = unat n - 2)" by auto
  moreover have "n = 2 \<and> tx_cmd p1 = rx_cmd buf OR CMD_ERR_FLG \<and> d' = d" if "rx_cmd buf \<notin> known_cmds"
    using sw that by (auto simp: cmd_switch_def known_cmds_def cmd_error_def)
  moreover have "tx_pkt_wf p1" "(n = 0) = (rx_cmd buf \<in> {CMD_I2C_PWR, CMD_DEV_TST})"
    "tx_cmd p1 = rx_cmd buf \<or> n = 2 \<and> tx_cmd p1 = rx_cmd buf OR CMD_ERR_FLG"
    using ok unfolding reply_ok_def by blast+
  ultimately show ?thesis unfolding p' by simp
qed

abbreviation tx_zero :: blk_tx_pkt_t where
  "tx_zero \<equiv> \<lparr>tx_size = 0, tx_cmd = 0, tx_data = replicate 232 0\<rparr>"

definition rx_packet :: "u8 list \<Rightarrow> u8 list" where
  "rx_packet bs = bs @ replicate (64 - length bs) 0"

theorem cmd_decode_reply_witness:
  "\<exists>p'. cmd_decode ram_flash answering tx_zero (rx_packet [0, 0x55]) (ring_dev [] 2 0 0) =
      Some (2, p', ring_dev [] 2 0 0) \<and> tx_size p' = 0 \<and> tx_cmd p' = 0xD5"
proof -
  let ?d = "ring_dev [] 2 0 0 :: u8 list dev"
  have c: "rx_cmd (rx_packet [0, 0x55]) = 0x55" by (simp add: rx_packet_def rx_cmd_def)
  obtain n p' d' where run: "cmd_decode ram_flash answering tx_zero (rx_packet [0, 0x55]) ?d = Some (n, p', d')"
    by (simp add: cmd_decode_def cmd_switch_def c regs cmd_error_def)
  have "tx_pkt_wf tx_zero" "length (rx_packet [0, 0x55]) = 64"
    by (simp_all add: tx_pkt_wf_def rx_packet_def)
  moreover have "i2c_cfg_wf (cfg_i2c ?d)" by (simp add: ring_dev_def i2c_cfg_wf_def def_cfg_i2c_def)
  ultimately show ?thesis using cmd_decode_reply [OF run] run
    by (auto simp: c known_cmds_def regs word_unat_eq_iff)
qed

text \<open>
  The register commands leave the measurement alone: whatever the bus did, after \<open>CMD_DEV_GRG\<close>
  and \<open>CMD_DEV_SRG\<close> only the bus hardware differs; sampling is on or off as before, and the
  configuration and the sample ring are untouched. A register write that is acknowledged to the
  host has put the address, register and big-endian value of the request on the bus.
\<close>

theorem cmd_decode_register_access:
  assumes "cmd_decode ops env p buf d = Some (n, p', d')" "tx_pkt_wf p" "length buf = 64"
    "rx_cmd buf \<in> {CMD_DEV_GRG, CMD_DEV_SRG}"
  shows "(\<exists>h. d' = d\<lparr>i2c := h\<rparr>) \<and> n \<in> {2, 6} \<and>
    (rx_cmd buf = CMD_DEV_SRG \<and> n = 6 \<longrightarrow> take 4 (tx_data p') = take 4 (rx_data buf) \<and>
      (ctrl1 (i2c d) AND RB_I2C_PE \<noteq> 0 \<longrightarrow>
        wire (i2c d') = wire (i2c d) @ [buf ! 2, buf ! 3, buf ! 5, buf ! 4]))"
proof -
  let ?p = "p\<lparr>tx_cmd := rx_cmd buf\<rparr>"
  obtain p1 where sw: "cmd_switch ops env buf ?p d = Some (n, p1, d')" and
    p': "p' = p1\<lparr>tx_size := ucast (n - 2)\<rparr>"
    using assms(1) by (auto simp: cmd_decode_def bind_eq_Some_conv)
  have rx: "4 \<le> length (rx_data buf)" using assms(3) by (simp add: rx_data_def)
  have wf: "tx_pkt_wf ?p" "tx_cmd ?p = rx_cmd buf" using assms(2) by simp_all
  show ?thesis
  proof (cases "rx_cmd buf = CMD_DEV_SRG")
    case True
    then have "cmd_srg env buf ?p d = Some (n, p1, d')" using sw by (simp add: cmd_switch_def regs)
    note s = cmd_srg_spec [OF this wf rx]
    then obtain h ret where d': "d' = d\<lparr>i2c := h\<rparr>" "n = 6 \<longleftrightarrow> ret = 0" and
      w: "I2CBusWriteWord env (clk_khz (cfg_i2c d)) (buf ! 2) (buf ! 3)
        (from_le16 (buf ! 4) (buf ! 5)) (i2c d) = Some (ret, h)"
      using assms(3) by (auto simp: rx_data_def)
    have "le16 (from_le16 (buf ! 4) (buf ! 5)) = [buf ! 4, buf ! 5]" by simp
    then have bytes: "ucast (from_le16 (buf ! 4) (buf ! 5)) = buf ! 4"
      "ucast (drop_bit 8 (from_le16 (buf ! 4) (buf ! 5))) = buf ! 5" by (simp_all add: le16_def)
    have "wire h = wire (i2c d) @ [buf ! 2, buf ! 3, buf ! 5, buf ! 4]"
      if "ret = 0" "ctrl1 (i2c d) AND RB_I2C_PE \<noteq> 0"
      using write_word_wire [OF w that(2)] that(1) by (auto simp: bytes)
    with s d' show ?thesis by (auto simp: p')
  next
    case False
    then have "cmd_grg env buf ?p d = Some (n, p1, d')"
      using sw assms(4) by (simp add: cmd_switch_def regs)
    from cmd_grg_spec [OF this wf rx] False show ?thesis by auto
  qed
qed

text \<open>
  C25: Every command returns, whatever the bus does, while the tick counter advances, for a bus clock
  that is not zero and shift counts the C code defines.
\<close>

theorem cmd_decode_returns:
  assumes "clock_runs env" "clk_ok (clk_khz (cfg_i2c d))" "shift_defined buf d"
    "i2c_cfg_wf (cfg_i2c d)" "length buf = 64"
  shows "\<exists>n p' d'. cmd_decode ops env p buf d = Some (n, p', d')"
  using cmd_total [OF assms, of ops "p\<lparr>tx_cmd := rx_cmd buf\<rparr>"]
  by (auto simp: cmd_decode_def)

theorem cmd_decode_returns_witness:
  "\<exists>n p' d'. cmd_decode ram_flash (steady_env (\<lambda>_. 0) (\<lambda>_. 0)) tx_zero
     (rx_packet [4, CMD_DEV_SRG, 0x80, 1, 0x34, 0x12]) (ring_dev [] 2 0 0) = Some (n, p', d')"
proof -
  let ?d = "ring_dev [] 2 0 0 :: u8 list dev" and ?b = "rx_packet [4, CMD_DEV_SRG, 0x80, 1, 0x34, 0x12]"
  have "clk_ok (clk_khz (cfg_i2c ?d))" by (simp add: ring_dev_def def_cfg_i2c_def clk_ok_def)
  moreover have "shift_defined ?b ?d"
    by (simp add: shift_defined_def ring_dev_def def_cfg_i2c_def rx_packet_def rx_cmd_def regs)
  moreover have "i2c_cfg_wf (cfg_i2c ?d)" by (simp add: ring_dev_def i2c_cfg_wf_def def_cfg_i2c_def)
  moreover have "length ?b = 64" by (simp add: rx_packet_def)
  ultimately show ?thesis by (rule cmd_decode_returns [OF clock_runs_steady])
qed

theorem cmd_decode_register_access_witness:
  "\<exists>p' d'. cmd_decode ram_flash answering tx_zero
     (rx_packet [4, CMD_DEV_SRG, 0x80, 1, 0x34, 0x12])
     (ring_dev [] 2 0 0\<lparr>timer_flg := 1, i2c := hw_on\<rparr>) = Some (6, p', d') \<and>
     timer_flg d' = 1 \<and> wire (i2c d') = [0x80, 1, 0x12, 0x34]"
proof -
  let ?d = "ring_dev [] 2 0 0\<lparr>timer_flg := 1, i2c := hw_on\<rparr> :: u8 list dev"
    and ?b = "rx_packet [4, CMD_DEV_SRG, 0x80, 1, 0x34, 0x12]"
  have b: "rx_cmd ?b = CMD_DEV_SRG" "rx_data ?b ! 0 = 0x80" "rx_data ?b ! 1 = 1"
    "rx_data ?b ! 2 = 0x34" "rx_data ?b ! 3 = 0x12" "?b ! 2 = 0x80" "?b ! 3 = 1" "?b ! 4 = 0x34" "?b ! 5 = 0x12"
    by (simp_all add: rx_packet_def rx_cmd_def rx_data_def)
  have w: "\<exists>h. I2CBusWriteWord answering clk 0x80 1 v hw_on = Some (0, h)" for clk v
    by (simp add: I2CBusWriteWord_def wait_then_def i2c_stop_def regs)
  obtain p' d' where run: "cmd_decode ram_flash answering tx_zero ?b ?d = Some (6, p', d')"
  proof -
    obtain h where "I2CBusWriteWord answering (clk_khz (cfg_i2c ?d)) 0x80 1 (from_le16 0x34 0x12) (i2c ?d) =
        Some (0, h)" using w [of "clk_khz (cfg_i2c ?d)"] by auto
    then have "\<exists>p' d'. cmd_srg answering ?b (tx_zero\<lparr>tx_cmd := rx_cmd ?b\<rparr>) ?d = Some (6, p', d')"
      by (simp only: cmd_srg_eq b) simp
    moreover have "cmd_switch ram_flash answering ?b (tx_zero\<lparr>tx_cmd := rx_cmd ?b\<rparr>) ?d =
        cmd_srg answering ?b (tx_zero\<lparr>tx_cmd := rx_cmd ?b\<rparr>) ?d"
      by (simp only: cmd_switch_def b(1)) (simp add: regs)
    ultimately show thesis using that by (auto simp: cmd_decode_def)
  qed
  have "tx_pkt_wf tx_zero" "length ?b = 64" by (simp_all add: tx_pkt_wf_def rx_packet_def)
  from cmd_decode_register_access [OF run this] b run
  have "(\<exists>h. d' = ?d\<lparr>i2c := h\<rparr>) \<and> wire (i2c d') = wire (i2c ?d) @ [0x80, 1, 0x12, 0x34]"
    by (simp add: regs)
  with run show ?thesis by auto
qed

text \<open>
  C18: Reading and writing the poll configuration: a request without data changes nothing and
  reports the configuration in effect; a request with data merges at most 38 bytes into it,
  restarts the measurement with the packet count and the bus clock brought into range, and a
  reply without the error flag carries, byte for byte, the configuration the device then uses.
\<close>

theorem cmd_decode_config:
  assumes "cmd_decode ops env p buf d = Some (n, p', d')" "tx_pkt_wf p" "i2c_cfg_wf (cfg_i2c d)"
    "rx_cmd buf = CMD_DEV_CFG"
  shows "(n = 40 \<longrightarrow> tx_cmd p' = CMD_DEV_CFG \<and> take 38 (tx_data p') = i2c_cfg_body (cfg_i2c d')) \<and>
    (rx_size buf = 0 \<longrightarrow> d' = d \<and> n = 40) \<and>
    (rx_size buf \<noteq> 0 \<longrightarrow>
      (\<exists>ret k c. started ret d' \<and> (n = 40 \<longleftrightarrow> ret \<noteq> 0) \<and> cfg_i2c d' =
        i2c_cfg_memcpy (cfg_i2c d) (rx_data buf) (min 38 (unat (rx_size buf)))
          \<lparr>pktcnt := k, clk_khz := c\<rparr>))"
proof -
  let ?p = "p\<lparr>tx_cmd := rx_cmd buf\<rparr>"
  obtain p1 where "cmd_switch ops env buf ?p d = Some (n, p1, d')" and
    p': "p' = p1\<lparr>tx_size := ucast (n - 2)\<rparr>"
    using assms(1) by (auto simp: cmd_decode_def bind_eq_Some_conv)
  then have sw: "cmd_cfg env buf ?p d = Some (n, p1, d')"
    using assms(4) by (simp add: cmd_switch_def regs)
  note s = cmd_cfg_spec [OF sw _ _ assms(3), of CMD_DEV_CFG]
  show ?thesis
  proof (cases "rx_size buf = 0")
    case True
    with s assms(2,4) show ?thesis by (simp add: p')
  next
    case False
    let ?m = "i2c_cfg_memcpy (cfg_i2c d) (rx_data buf) (min 38 (unat (rx_size buf)))"
    from s False assms(2,4) obtain ret where
      st: "I2CDevStart env (d\<lparr>timer_flg := 0, cfg_i2c := ?m\<rparr>) = Some (ret, d')" and
      n: "n = 40 \<longleftrightarrow> ret \<noteq> 0" and
      body: "n = 40 \<longrightarrow> tx_cmd p1 = CMD_DEV_CFG \<and> take 38 (tx_data p1) = i2c_cfg_body (cfg_i2c d')"
      by auto
    from start_spec [OF st] obtain k c where
      "started ret d'" "cfg_i2c d' = ?m\<lparr>pktcnt := k, clk_khz := c\<rparr>" by auto
    with n body False show ?thesis by (auto simp: p')
  qed
qed

theorem cmd_decode_config_witness:
  "\<exists>p'. cmd_decode ram_flash answering tx_zero (rx_packet [0, CMD_DEV_CFG]) (ring_dev [] 2 0 0) =
      Some (40, p', ring_dev [] 2 0 0) \<and>
     take 38 (tx_data p') = i2c_cfg_body (cfg_i2c (ring_dev [] 2 0 0 :: u8 list dev))"
proof -
  let ?d = "ring_dev [] 2 0 0 :: u8 list dev" and ?b = "rx_packet [0, CMD_DEV_CFG]"
  have b: "rx_cmd ?b = CMD_DEV_CFG" "rx_size ?b = 0"
    by (simp_all add: rx_packet_def rx_cmd_def rx_size_def)
  have wf: "tx_pkt_wf tx_zero" by (simp add: tx_pkt_wf_def)
  have cwf: "i2c_cfg_wf (cfg_i2c ?d)" by (simp add: ring_dev_def i2c_cfg_wf_def def_cfg_i2c_def)
  have "cmd_switch ram_flash answering ?b q ?d = cmd_cfg answering ?b q ?d" for q
    by (simp only: cmd_switch_def b(1)) (simp add: regs)
  then obtain n p' d' where run: "cmd_decode ram_flash answering tx_zero ?b ?d = Some (n, p', d')"
    by (simp add: cmd_decode_def cmd_cfg_def b(2))
  from cmd_decode_config [OF run wf cwf b(1)] run b(2) show ?thesis by auto
qed

text \<open>
  C24: Starting an INA228 measurement: the ADC configuration word selects the channels asked for and
  the same conversion time for the bus, shunt and temperature fields, the first of the table whose
  rate does not exceed the sampling rate asked for (the slowest if none does not); the poll period
  is that conversion's, the registers polled are the selected results of the INA228 at its address,
  two per period, and the shunt range bit is set exactly for a nonzero \<open>sh\<close>. Channel 3 is both, 2 the bus
  voltage and any other value, 1 included, the shunt voltage: not what the comment of \<open>ina228.h\<close> says,
  which has bit 0 for the bus and bit 1 for the shunt.
\<close>

theorem ina228_start_measures:
  assumes "ina228_start env cfg d = Some (ret, d')"
  shows "\<exists>i \<le> 7. (i < 7 \<longrightarrow> tab_freg ! i \<le> smpr cfg) \<and> (\<forall>j < i. smpr cfg < tab_freg ! j) \<and>
    time (cfg_i2c d') = tab_time_us ! i \<and> multiplier (cfg_i2c d') = 0 \<and> pktcnt (cfg_i2c d') \<le> 20 \<and>
    (let adc = unat (wr_data (init (cfg_i2c d') ! 3)) in
       adc mod 8 = 0 \<and> (adc div 8) mod 8 = i \<and> (adc div 64) mod 8 = i \<and> (adc div 512) mod 8 = i \<and>
       adc div 4096 = (if chnl cfg = 3 then 11 else if chnl cfg = 2 then 9 else 10)) \<and>
    wr_data (init (cfg_i2c d') ! 1) = (if sh cfg \<noteq> 0 then 0x10 else 0) \<and>
    map rd_dev_addr (take 3 (rd (cfg_i2c d'))) = [0x80, 0x80, 0] \<and>
    map rd_reg_addr (take 2 (rd (cfg_i2c d'))) =
      (if chnl cfg = 3 then [5, 4] else if chnl cfg = 2 then [5, 5] else [4, 4])"
proof -
  define i where "i = conv_index (smpr cfg)"
  from assms have st: "I2CDevStart env (ina228_setup cfg d) = Some (ret, d')"
    by (simp add: ina228_start_def)
  note set = ina228_setup_cfg [of cfg d, folded i_def]
  from start_spec [OF st] obtain k c where
    cfg: "cfg_i2c d' = cfg_i2c (ina228_setup cfg d)\<lparr>pktcnt := k, clk_khz := c\<rparr>"
    "k \<le> pktcnt (cfg_i2c (ina228_setup cfg d))" by auto
  from conv_index_spec [of "smpr cfg"] have "i \<le> 7" and
    t: "(i < 7 \<longrightarrow> tab_freg ! i \<le> smpr cfg) \<and> (\<forall>j < i. smpr cfg < tab_freg ! j)"
    by (simp_all add: i_def)
  show ?thesis
  proof (rule exI [of _ i], intro conjI)
    show "let adc = unat (wr_data (init (cfg_i2c d') ! 3)) in
       adc mod 8 = 0 \<and> (adc div 8) mod 8 = i \<and> (adc div 64) mod 8 = i \<and> (adc div 512) mod 8 = i \<and>
       adc div 4096 = (if chnl cfg = 3 then 11 else if chnl cfg = 2 then 9 else 10)"
      using adc_word_fields [OF \<open>i \<le> 7\<close>, of "adc_mode cfg"] set(3)
      by (auto simp: cfg(1) adc_mode_def Let_def)
  qed (use t \<open>i \<le> 7\<close> cfg(2) set in \<open>simp_all add: cfg(1)\<close>)
qed

theorem ina228_start_measures_witness:
  "\<exists>ret d'. ina228_start (steady_env (\<lambda>_. 0) (\<lambda>_. 0))
     \<lparr>enable = 1, chnl = 3, smpr = 500, sh = 1\<rparr> (ring_dev [] 2 0 0 :: u8 list dev) = Some (ret, d') \<and>
     time (cfg_i2c d') = 2074 \<and> wr_data (init (cfg_i2c d') ! 1) = 0x10"
proof -
  let ?c = "\<lparr>enable = 1, chnl = 3, smpr = 500, sh = 1\<rparr>"
  obtain ret d' where run: "ina228_start (steady_env (\<lambda>_. 0) (\<lambda>_. 0)) ?c (ring_dev [] 2 0 0 :: u8 list dev) =
      Some (ret, d')"
    using start_total [OF clock_runs_steady, of "ina228_setup ?c (ring_dev [] 2 0 0 :: u8 list dev)"]
      ina228_setup_cfg(2) [of ?c "ring_dev [] 2 0 0 :: u8 list dev"]
    unfolding ina228_start_def by auto blast
  from ina228_start_measures [OF this] obtain i where i: "i \<le> 7" "i < 7 \<longrightarrow> tab_freg ! i \<le> 500"
    "\<forall>j < i. 500 < tab_freg ! j" "time (cfg_i2c d') = tab_time_us ! i" "wr_data (init (cfg_i2c d') ! 1) = 0x10"
    by auto
  have "\<not> 500 < tab_freg ! 6" by (simp add: tab_freg_def)
  with i(3) have "i \<le> 6" by (metis not_le)
  moreover have "k \<in> {0, 1, 2, 3, 4, 5} \<Longrightarrow> 500 < tab_freg ! k" for k
    by (auto simp: tab_freg_def)
  then have "i \<notin> {0, 1, 2, 3, 4, 5}" using i(2) calculation by (metis leD le_imp_less_Suc eval_nat_numeral(3))
  ultimately have "i = 6" by auto
  with i run show ?thesis by (auto simp: tab_time_us_def)
qed

text \<open>
  Powering the sensor off stops the sampling, forgets the packet size and drives every output
  of port B low: the test of the power pin is an assignment, so the port's other outputs are
  cleared with it. No reply is sent.
\<close>

theorem cmd_decode_power_off:
  assumes "cmd_decode ops env p buf d = Some (n, p', d')" "rx_cmd buf = CMD_I2C_PWR"
    "rx_size buf \<noteq> 0" "rx_data buf ! 0 = 0"
  shows "n = 0 \<and> timer_flg d' = 0 \<and> tmr_ctrl_mod d' = 0 \<and> pktcnt (cfg_i2c d') = 0 \<and> pb_out d' = 0"
proof -
  let ?d = "d\<lparr>pb_out := pb_out d AND I2C_DEV_POWER\<rparr>"
  from assms obtain e where n: "n = 0" and s: "I2CDevSleep env e = Some d'" and
    e: "if pb_out ?d = 0 then I2CDevWakeUp env ?d = Some e else e = ?d"
    by (auto simp: cmd_decode_def cmd_switch_def cmd_pwr_def regs bind_eq_Some_conv Let_def
        split: if_splits)
  have "pb_out e AND NOT I2C_DEV_POWER = 0"
  proof (cases "pb_out ?d = 0")
    case True
    with e have "I2CDevWakeUp env ?d = Some e" by simp
    from wake_spec [OF this] start_spec have "pb_out e = pb_out ?d OR I2C_DEV_POWER" by metis
    with True show ?thesis by simp
  next
    case False
    with e show ?thesis by (simp add: and.assoc)
  qed
  with sleep_spec [OF s] n show ?thesis by simp
qed


theorem cmd_decode_power_off_witness:
  "\<exists>n p' d'. cmd_decode ram_flash (steady_env (\<lambda>_. 0) (\<lambda>_. 0)) tx_zero
     (rx_packet [1, CMD_I2C_PWR, 0]) (ring_dev [] 2 0 0\<lparr>pb_out := 0x2001\<rparr>) = Some (n, p', d') \<and>
     pb_out d' = 0 \<and> pktcnt (cfg_i2c d') = 0"
proof -
  let ?d = "ring_dev [] 2 0 0\<lparr>pb_out := 0x2001\<rparr> :: u8 list dev" and ?b = "rx_packet [1, CMD_I2C_PWR, 0]"
  have b: "rx_cmd ?b = CMD_I2C_PWR" "rx_size ?b \<noteq> 0" "rx_data ?b ! 0 = 0" "length ?b = 64"
    by (simp_all add: rx_packet_def rx_cmd_def rx_size_def rx_data_def)
  have "clk_ok (clk_khz (cfg_i2c ?d))" "i2c_cfg_wf (cfg_i2c ?d)"
    by (simp_all add: ring_dev_def def_cfg_i2c_def clk_ok_def i2c_cfg_wf_def)
  moreover have "shift_defined ?b ?d"
    by (simp add: shift_defined_def b(1)) (simp add: ring_dev_def def_cfg_i2c_def regs)
  ultimately obtain n p' d' where run: "cmd_decode ram_flash (steady_env (\<lambda>_. 0) (\<lambda>_. 0)) tx_zero ?b ?d =
      Some (n, p', d')"
    using cmd_total [OF clock_runs_steady, of ?d ?b ram_flash "\<lambda>_. 0" "\<lambda>_. 0" "tx_zero\<lparr>tx_cmd := rx_cmd ?b\<rparr>"] b(4)
    by (auto simp: cmd_decode_def)
  with cmd_decode_power_off [OF run b(1-3)] show ?thesis by auto
qed

end
