(* ===== verification/UsbDev.thy ===== *)
theory UsbDev
  imports CmdCfg
begin

text \<open>
  The USB device of the CH592 port (\<open>ch592/INA2282USB/src/app_usb.c\<close>): the descriptors, the control
  transfers on endpoint 0, the command mailbox filled by endpoint 1, and the whole interrupt
  handler. The registers \<open>R8_USB_INT_ST\<close> and \<open>R8_USB_RX_LEN\<close>, which the hardware sets before the
  interrupt, are arguments of the handler; the DMA buffers are fields of the state. The handler
  yields \<open>None\<close> exactly where the C code reads past the end of a descriptor.
\<close>

section \<open>Register bits and request codes\<close>

definition RB_UIF_SUSPEND :: u8 where [regs]: "RB_UIF_SUSPEND = 0x04"
definition RB_UIF_TRANSFER :: u8 where [regs]: "RB_UIF_TRANSFER = 0x02"
definition RB_UIF_BUS_RST :: u8 where [regs]: "RB_UIF_BUS_RST = 0x01"
definition RB_UIS_SETUP_ACT :: u8 where [regs]: "RB_UIS_SETUP_ACT = 0x80"
definition RB_UIS_TOG_OK :: u8 where [regs]: "RB_UIS_TOG_OK = 0x40"
definition MASK_UIS_TOKEN :: u8 where [regs]: "MASK_UIS_TOKEN = 0x30"
definition MASK_UIS_ENDP :: u8 where [regs]: "MASK_UIS_ENDP = 0x0F"
definition UIS_TOKEN_OUT :: u8 where [regs]: "UIS_TOKEN_OUT = 0x00"
definition UIS_TOKEN_IN :: u8 where [regs]: "UIS_TOKEN_IN = 0x20"
definition UIS_TOKEN_SETUP :: u8 where [regs]: "UIS_TOKEN_SETUP = 0x30"
definition RB_UEP_R_TOG :: u8 where [regs]: "RB_UEP_R_TOG = 0x80"
definition RB_UEP_T_TOG :: u8 where [regs]: "RB_UEP_T_TOG = 0x40"
definition RB_UEP_AUTO_TOG :: u8 where [regs]: "RB_UEP_AUTO_TOG = 0x10"
definition MASK_UEP_R_RES :: u8 where [regs]: "MASK_UEP_R_RES = 0x0C"
definition UEP_R_RES_ACK :: u8 where [regs]: "UEP_R_RES_ACK = 0x00"
definition UEP_R_RES_NAK :: u8 where [regs]: "UEP_R_RES_NAK = 0x08"
definition UEP_R_RES_STALL :: u8 where [regs]: "UEP_R_RES_STALL = 0x0C"
definition MASK_UEP_T_RES :: u8 where [regs]: "MASK_UEP_T_RES = 0x03"
definition UEP_T_RES_ACK :: u8 where [regs]: "UEP_T_RES_ACK = 0x00"
definition UEP_T_RES_NAK :: u8 where [regs]: "UEP_T_RES_NAK = 0x02"
definition UEP_T_RES_STALL :: u8 where [regs]: "UEP_T_RES_STALL = 0x03"
definition RB_UDA_GP_BIT :: u8 where [regs]: "RB_UDA_GP_BIT = 0x80"

definition USB_GET_STATUS :: u8 where [regs]: "USB_GET_STATUS = 0x00"
definition USB_CLEAR_FEATURE :: u8 where [regs]: "USB_CLEAR_FEATURE = 0x01"
definition USB_SET_ADDRESS :: u8 where [regs]: "USB_SET_ADDRESS = 0x05"
definition USB_GET_DESCRIPTOR :: u8 where [regs]: "USB_GET_DESCRIPTOR = 0x06"
definition USB_GET_CONFIGURATION :: u8 where [regs]: "USB_GET_CONFIGURATION = 0x08"
definition USB_SET_CONFIGURATION :: u8 where [regs]: "USB_SET_CONFIGURATION = 0x09"
definition USB_GET_INTERFACE :: u8 where [regs]: "USB_GET_INTERFACE = 0x0A"
definition USB_REQ_TYP_MASK :: u8 where [regs]: "USB_REQ_TYP_MASK = 0x60"
definition USB_REQ_TYP_STANDARD :: u8 where [regs]: "USB_REQ_TYP_STANDARD = 0x00"
definition USB_REQ_RECIP_MASK :: u8 where [regs]: "USB_REQ_RECIP_MASK = 0x1F"
definition USB_REQ_RECIP_DEVICE :: u8 where [regs]: "USB_REQ_RECIP_DEVICE = 0x00"
definition USB_REQ_RECIP_ENDP :: u8 where [regs]: "USB_REQ_RECIP_ENDP = 0x02"
definition USB_DESCR_TYP_DEVICE :: u8 where [regs]: "USB_DESCR_TYP_DEVICE = 0x01"
definition USB_DESCR_TYP_CONFIG :: u8 where [regs]: "USB_DESCR_TYP_CONFIG = 0x02"
definition USB_DESCR_TYP_STRING :: u8 where [regs]: "USB_DESCR_TYP_STRING = 0x03"
definition DEF_SET_CONTROL_LINE_STATE :: u8 where [regs]: "DEF_SET_CONTROL_LINE_STATE = 0x22"

section \<open>Descriptors\<close>

definition MyDevDescr :: "u8 list" where
  "MyDevDescr =
     [0x12, 0x01, 0x00, 0x02, 0x02, 0x00, 0x00, 64, 0x86, 0x1a, 0x40, 0x80, 0x00, 0x30,
      0x01, 0x02, 0x03, 0x01]"

definition MyCfgDescr :: "u8 list" where
  "MyCfgDescr =
     [0x09, 0x02, 0x43 + 8, 0x00, 0x02, 0x01, 0x00, 0x80, 0x30,
      0x08, 0x0b, 0x00, 0x02, 0x02, 0x02, 0x01, 0x00,
      0x09, 0x04, 0x00, 0x00, 0x01, 0x02, 0x02, 0x01, 0x00,
      0x05, 0x24, 0x00, 0x10, 0x01,
      0x05, 0x24, 0x01, 0x00, 0x01,
      0x04, 0x24, 0x02, 0x02,
      0x05, 0x24, 0x06, 0x00, 0x01,
      0x07, 0x05, 0x84, 0x03, 0x08, 0x00, 0x0a,
      0x09, 0x04, 0x01, 0x00, 0x02, 0x0a, 0x00, 0x00, 0x00,
      0x07, 0x05, 0x01, 0x02, 64, 0x00, 0x00,
      0x07, 0x05, 0x81, 0x02, 64, 0x00, 0x00]"

definition MyLangDescr :: "u8 list" where
  "MyLangDescr = [0x04, 0x03, 0x09, 0x04]"

definition MyManuInfo :: "u8 list" where
  "MyManuInfo = [0x0E, 0x03, 0x77, 0, 0x63, 0, 0x68, 0, 0x2E, 0, 0x63, 0, 0x6E, 0]"

definition MyProdInfo :: "u8 list" where
  "MyProdInfo = [0x0C, 0x03, 0x43, 0, 0x48, 0, 0x35, 0, 0x39, 0, 0x32, 0]"

definition MySerInfo_init :: "u8 list" where
  "MySerInfo_init = [0x0E, 0x03, 0x31, 0, 0x32, 0, 0x33, 0, 0x34, 0, 0x35, 0, 0x36, 0]"

section \<open>The state of the device\<close>

text \<open>A pointer into a descriptor is the array it points into and the offset.\<close>

record usb_dev =
  pDescr :: "(u8 list \<times> nat) option"
  SetupReqLen :: u16
  DevConfig :: u8
  SetupReqCode :: u8
  MySerInfo :: "u8 list"
  EP0_Databuf :: "u8 list"
  EP1_Databuf :: "u8 list"
  app_cmd_len :: u8
  app_cmd_buf :: "u8 list"
  usb_ctrl :: u8
  uep4_1_mod :: u8
  uep0_ctrl :: u8
  uep1_ctrl :: u8
  uep4_ctrl :: u8
  uep0_t_len :: u8
  uep1_t_len :: u8
  usb_dev_ad :: u8
  usb_int_fg :: u8
  usb_int_en :: u8
  udev_ctrl :: u8
  pin_analog_ie :: u16
  usb_irq_on :: bool

text \<open>The fields of the setup packet: \<open>pSetupRequest\<close> is the endpoint 0 buffer.\<close>

definition bRequestType :: "usb_dev \<Rightarrow> u8" where "bRequestType s = EP0_Databuf s ! 0"
definition bRequest :: "usb_dev \<Rightarrow> u8" where "bRequest s = EP0_Databuf s ! 1"
definition wValue :: "usb_dev \<Rightarrow> u16" where
  "wValue s = from_le16 (EP0_Databuf s ! 2) (EP0_Databuf s ! 3)"
definition wIndex :: "usb_dev \<Rightarrow> u16" where
  "wIndex s = from_le16 (EP0_Databuf s ! 4) (EP0_Databuf s ! 5)"
definition wLength :: "usb_dev \<Rightarrow> u16" where
  "wLength s = from_le16 (EP0_Databuf s ! 6) (EP0_Databuf s ! 7)"

section \<open>Start-up\<close>

definition hex_digits :: "u8 list" where
  "hex_digits = [0x30, 0x31, 0x32, 0x33, 0x34, 0x35, 0x36, 0x37, 0x38, 0x39,
     0x61, 0x62, 0x63, 0x64, 0x65, 0x66]"

text \<open>The bytes that \<open>FLASH_EEPROM_CMD\<close> reads from the ROM information area are a parameter.\<close>

definition mak_to_ser :: "u8 list \<Rightarrow> usb_dev \<Rightarrow> usb_dev" where
  "mak_to_ser rom_info s =
     (let buf = splice_at (EP0_Databuf s) 0 rom_info
      in s\<lparr>EP0_Databuf := buf,
           MySerInfo := [0x0E, 0x03] @ concat (map (\<lambda>i.
             [hex_digits ! unat (drop_bit 4 (buf ! i)), 0,
              hex_digits ! unat (buf ! i AND 0x0f), 0]) [0..<3])\<rparr>)"

definition app_usb_init :: "u8 list \<Rightarrow> usb_dev \<Rightarrow> usb_dev" where
  "app_usb_init rom_info s =
     (let s = mak_to_ser rom_info (s\<lparr>usb_ctrl := 0\<rparr>)
      in s\<lparr>uep4_1_mod := 0x08 OR 0x04 OR 0x80 OR 0x40,
           uep0_ctrl := UEP_R_RES_NAK OR UEP_T_RES_NAK,
           uep1_ctrl := UEP_R_RES_ACK OR UEP_T_RES_NAK OR RB_UEP_AUTO_TOG,
           uep4_ctrl := UEP_R_RES_ACK OR UEP_T_RES_NAK,
           usb_dev_ad := 0,
           usb_ctrl := 0x20 OR 0x08 OR 0x01,
           pin_analog_ie := pin_analog_ie s OR (0x80 OR 0x40),
           usb_int_fg := usb_int_fg s AND NOT 0xFF,
           usb_int_en := 0x04 OR 0x01 OR 0x02,
           udev_ctrl := 0x80 OR 0x01,
           usb_irq_on := True\<rparr>)"

section \<open>Endpoint handlers\<close>

definition DevEP1_OUT_Deal :: "u8 \<Rightarrow> usb_dev \<Rightarrow> usb_dev" where
  "DevEP1_OUT_Deal l s =
     (if app_cmd_len s = 0 \<and> l \<noteq> 0
      then (let n = (if l > 64 then 64 else l)
            in s\<lparr>app_cmd_len := n,
                 app_cmd_buf := splice_at (app_cmd_buf s) 0 (take (unat n) (EP1_Databuf s))\<rparr>)
      else s)"

definition DevEP4_OUT_Deal :: "u8 \<Rightarrow> usb_dev \<Rightarrow> usb_dev" where
  "DevEP4_OUT_Deal l s = s"

text \<open>\<open>memcpy(EP0_Databuf, usb_data.pDescr, len); usb_data.pDescr += len\<close>\<close>

definition descr_load :: "u8 \<Rightarrow> usb_dev \<Rightarrow> usb_dev option" where
  "descr_load l s =
     (if l = 0 then Some s
      else case pDescr s of
        None \<Rightarrow> None
      | Some (arr, off) \<Rightarrow>
          if off + unat l \<le> length arr
          then Some (s\<lparr>EP0_Databuf := splice_at (EP0_Databuf s) 0 (take (unat l) (drop off arr)),
                       pDescr := Some (arr, off + unat l)\<rparr>)
          else None)"

definition usb_chunk :: "u16 \<Rightarrow> u8" where
  "usb_chunk n = (if n \<ge> 64 then 64 else ucast n)"

definition ep0_in :: "usb_dev \<Rightarrow> usb_dev option" where
  "ep0_in s =
     (if SetupReqCode s = USB_GET_DESCRIPTOR
      then do {
        let len = usb_chunk (SetupReqLen s);
        s \<leftarrow> descr_load len s;
        Some (s\<lparr>SetupReqLen := SetupReqLen s - ucast len, uep0_t_len := len,
                uep0_ctrl := uep0_ctrl s XOR RB_UEP_T_TOG\<rparr>)
      }
      else if SetupReqCode s = USB_SET_ADDRESS
      then Some (s\<lparr>usb_dev_ad := (usb_dev_ad s AND RB_UDA_GP_BIT) OR ucast (SetupReqLen s),
                   uep0_ctrl := UEP_R_RES_ACK OR UEP_T_RES_NAK\<rparr>)
      else Some (s\<lparr>uep0_t_len := 0, uep0_ctrl := UEP_R_RES_ACK OR UEP_T_RES_NAK\<rparr>))"

section \<open>The token switch\<close>

definition usb_token :: "u8 \<Rightarrow> u8 \<Rightarrow> usb_dev \<Rightarrow> usb_dev option" where
  "usb_token intsta rx_len s =
     (let tok = intsta AND (MASK_UIS_TOKEN OR MASK_UIS_ENDP);
          tog_ok = (intsta AND RB_UIS_TOG_OK \<noteq> 0)
      in if tok = UIS_TOKEN_IN OR 1
         then Some (s\<lparr>uep1_ctrl := (uep1_ctrl s AND NOT MASK_UEP_T_RES) OR UEP_T_RES_NAK\<rparr>)
         else if tok = UIS_TOKEN_OUT OR 1
         then Some (if tog_ok then DevEP1_OUT_Deal rx_len s else s)
         else if tok = UIS_TOKEN_IN then ep0_in s
         else if tok = UIS_TOKEN_OUT OR 4
         then Some (if tog_ok
              then DevEP4_OUT_Deal rx_len (s\<lparr>uep4_ctrl := uep4_ctrl s XOR RB_UEP_R_TOG\<rparr>) else s)
         else if tok = UIS_TOKEN_IN OR 4
         then Some (s\<lparr>uep4_ctrl := ((uep4_ctrl s XOR RB_UEP_T_TOG) AND NOT MASK_UEP_T_RES)
                OR UEP_T_RES_NAK\<rparr>)
         else Some s)"

section \<open>Setup packets\<close>

definition string_descr :: "u8 \<Rightarrow> usb_dev \<Rightarrow> u8 list option" where
  "string_descr i s =
     (if i = 0 then Some MyLangDescr
      else if i = 1 then Some MyManuInfo
      else if i = 2 then Some MyProdInfo
      else if i = 3 then Some (MySerInfo s)
      else None)"

text \<open>
  The descriptor that the two nested switches select, with the \<open>len\<close> they set: \<open>sizeof\<close> for the device
  and the configuration, the descriptor's own first byte for the strings.
\<close>

definition select_descr :: "u16 \<Rightarrow> usb_dev \<Rightarrow> (u8 list \<times> u8) option" where
  "select_descr v s =
     (let rt = drop_bit 8 v
      in if rt = ucast USB_DESCR_TYP_DEVICE then Some (MyDevDescr, of_nat (length MyDevDescr))
         else if rt = ucast USB_DESCR_TYP_CONFIG then Some (MyCfgDescr, of_nat (length MyCfgDescr))
         else if rt = ucast USB_DESCR_TYP_STRING
         then (case string_descr (ucast v) s of Some d \<Rightarrow> Some (d, d ! 0) | None \<Rightarrow> None)
         else None)"

definition get_descriptor :: "usb_dev \<Rightarrow> (bool \<times> usb_dev) option" where
  "get_descriptor s =
     do {
       let (err, len, s) =
         (case select_descr (wValue s) s of
            Some (d, l) \<Rightarrow> (False, l, s\<lparr>pDescr := Some (d, 0)\<rparr>)
          | None \<Rightarrow> (True, 0, s));
       let s = (if SetupReqLen s > ucast len then s\<lparr>SetupReqLen := ucast len\<rparr> else s);
       s \<leftarrow> descr_load (usb_chunk (SetupReqLen s)) s;
       Some (err, s)
     }"

text \<open>\<open>CLEAR_FEATURE\<close>: reset the data toggle and the response of one direction of an endpoint.\<close>

definition clear_tx :: "u8 \<Rightarrow> u8" where
  "clear_tx c = (c AND NOT (RB_UEP_T_TOG OR MASK_UEP_T_RES)) OR UEP_T_RES_NAK"

definition clear_rx :: "u8 \<Rightarrow> u8" where
  "clear_rx c = (c AND NOT (RB_UEP_R_TOG OR MASK_UEP_R_RES)) OR UEP_R_RES_ACK"

definition clear_feature :: "usb_dev \<Rightarrow> bool \<times> usb_dev" where
  "clear_feature s =
     (if bRequestType s AND USB_REQ_RECIP_MASK = USB_REQ_RECIP_ENDP
      then (let ep = (ucast (wIndex s) :: u8)
            in if ep = 0x81 then (False, s\<lparr>uep1_ctrl := clear_tx (uep1_ctrl s)\<rparr>)
               else if ep = 0x01 then (False, s\<lparr>uep1_ctrl := clear_rx (uep1_ctrl s)\<rparr>)
               else if ep = 0x84 then (False, s\<lparr>uep4_ctrl := clear_tx (uep4_ctrl s)\<rparr>)
               else if ep = 0x04 then (False, s\<lparr>uep4_ctrl := clear_rx (uep4_ctrl s)\<rparr>)
               else (True, s))
      else if bRequestType s AND USB_REQ_RECIP_MASK = USB_REQ_RECIP_DEVICE
      then (False, s\<lparr>uep1_ctrl := clear_tx (uep1_ctrl s), uep4_ctrl := clear_tx (uep4_ctrl s)\<rparr>)
      else (True, s))"

definition standard_request :: "usb_dev \<Rightarrow> (bool \<times> usb_dev) option" where
  "standard_request s =
     (if SetupReqCode s = USB_GET_DESCRIPTOR then get_descriptor s
      else if SetupReqCode s = USB_SET_ADDRESS
      then Some (False, s\<lparr>SetupReqLen := wValue s AND 0xff\<rparr>)
      else if SetupReqCode s = USB_GET_CONFIGURATION
      then Some (False, s\<lparr>EP0_Databuf := (EP0_Databuf s)[0 := DevConfig s],
                         SetupReqLen := min 1 (SetupReqLen s)\<rparr>)
      else if SetupReqCode s = USB_SET_CONFIGURATION
      then Some (False, s\<lparr>DevConfig := ucast (wValue s AND 0xff)\<rparr>)
      else if SetupReqCode s = USB_CLEAR_FEATURE then Some (clear_feature s)
      else if SetupReqCode s = USB_GET_INTERFACE
      then Some (False, s\<lparr>EP0_Databuf := (EP0_Databuf s)[0 := 0],
                         SetupReqLen := min 1 (SetupReqLen s)\<rparr>)
      else if SetupReqCode s = USB_GET_STATUS
      then Some (False, s\<lparr>EP0_Databuf := (EP0_Databuf s)[0 := 0, 1 := 0],
                         SetupReqLen := min 2 (SetupReqLen s)\<rparr>)
      else Some (True, s))"

text \<open>A class request that sets the control lines leaves a power command in the mailbox.\<close>

definition class_request :: "u8 \<Rightarrow> usb_dev \<Rightarrow> usb_dev" where
  "class_request chtype s =
     (if chtype = 0x21 \<and> SetupReqCode s = DEF_SET_CONTROL_LINE_STATE
      then s\<lparr>app_cmd_buf := (app_cmd_buf s)[0 := 1, 1 := CMD_I2C_PWR, 2 := EP0_Databuf s ! 2 AND 1],
             app_cmd_len := 3\<rparr>
      else s)"

definition usb_reply :: "u8 \<Rightarrow> usb_dev \<Rightarrow> usb_dev" where
  "usb_reply chtype s =
     (let (len, s) =
        (if chtype AND 0x80 \<noteq> 0
         then (let len = (if SetupReqLen s > 64 then 64 else ucast (SetupReqLen s))
               in (len, s\<lparr>SetupReqLen := SetupReqLen s - ucast len\<rparr>))
         else (0, s))
      in s\<lparr>uep0_t_len := len,
           uep0_ctrl := RB_UEP_R_TOG OR RB_UEP_T_TOG OR UEP_R_RES_ACK OR UEP_T_RES_ACK\<rparr>)"

definition usb_stall :: "usb_dev \<Rightarrow> usb_dev" where
  "usb_stall s =
     s\<lparr>uep0_ctrl := RB_UEP_R_TOG OR RB_UEP_T_TOG OR UEP_R_RES_STALL OR UEP_T_RES_STALL\<rparr>"

definition usb_setup :: "usb_dev \<Rightarrow> usb_dev option" where
  "usb_setup s =
     do {
       let chtype = bRequestType s;
       let s = s\<lparr>SetupReqLen := wLength s, SetupReqCode := bRequest s,
                 uep0_ctrl := RB_UEP_R_TOG OR RB_UEP_T_TOG OR UEP_R_RES_ACK OR UEP_T_RES_NAK\<rparr>;
       (err, s) \<leftarrow>
         (if chtype AND USB_REQ_TYP_MASK \<noteq> USB_REQ_TYP_STANDARD
          then Some (False, class_request chtype s)
          else standard_request s);
       Some (if err then usb_stall s else usb_reply chtype s)
     }"

section \<open>The interrupt handler\<close>

text \<open>The flag register is cleared by writing ones.\<close>

definition int_fg_clear :: "u8 \<Rightarrow> usb_dev \<Rightarrow> usb_dev" where
  "int_fg_clear v s = s\<lparr>usb_int_fg := usb_int_fg s AND NOT v\<rparr>"

definition USB_IRQHandler :: "u8 \<Rightarrow> u8 \<Rightarrow> usb_dev \<Rightarrow> usb_dev option" where
  "USB_IRQHandler intsta rx_len s =
     (let intflag = usb_int_fg s
      in if intflag AND RB_UIF_TRANSFER \<noteq> 0
         then do {
           s \<leftarrow> (if intsta AND MASK_UIS_TOKEN \<noteq> MASK_UIS_TOKEN
                 then map_option (int_fg_clear RB_UIF_TRANSFER) (usb_token intsta rx_len s)
                 else Some s);
           (if intsta AND RB_UIS_SETUP_ACT \<noteq> 0
            then map_option (int_fg_clear RB_UIF_TRANSFER) (usb_setup s)
            else Some s)
         }
         else if intflag AND RB_UIF_BUS_RST \<noteq> 0
         then Some (int_fg_clear RB_UIF_BUS_RST
           (s\<lparr>usb_dev_ad := 0,
              uep0_ctrl := UEP_R_RES_ACK OR UEP_T_RES_NAK,
              uep1_ctrl := UEP_R_RES_ACK OR UEP_T_RES_NAK OR RB_UEP_AUTO_TOG,
              uep4_ctrl := UEP_R_RES_ACK OR UEP_T_RES_NAK\<rparr>))
         else if intflag AND RB_UIF_SUSPEND \<noteq> 0
         then Some (int_fg_clear RB_UIF_SUSPEND s)
         else Some (int_fg_clear intflag s))"

section \<open>What the host does to the device\<close>

text \<open>
  A setup transaction: the hardware stores the eight bytes in the endpoint 0 buffer and raises the
  interrupt. An \<open>IN\<close> transaction on endpoint 0: the host takes the first \<open>R8_UEP0_T_LEN\<close> bytes of the
  buffer, then the interrupt runs.
\<close>

definition host_setup :: "u8 list \<Rightarrow> usb_dev \<Rightarrow> usb_dev option" where
  "host_setup pkt s =
     USB_IRQHandler (RB_UIS_SETUP_ACT OR UIS_TOKEN_SETUP) 8
       (s\<lparr>EP0_Databuf := splice_at (EP0_Databuf s) 0 pkt,
          usb_int_fg := usb_int_fg s OR RB_UIF_TRANSFER\<rparr>)"

definition ep0_in_data :: "usb_dev \<Rightarrow> u8 list" where
  "ep0_in_data s = take (unat (uep0_t_len s)) (EP0_Databuf s)"

definition host_in :: "usb_dev \<Rightarrow> usb_dev option" where
  "host_in s =
     USB_IRQHandler (UIS_TOKEN_IN OR RB_UIS_TOG_OK) 0 (s\<lparr>usb_int_fg := usb_int_fg s OR RB_UIF_TRANSFER\<rparr>)"

text \<open>
  The data stage of a control read: \<open>IN\<close> transactions until a short packet or until the \<open>r\<close> bytes
  asked for have come; \<open>k\<close> bounds the number of transactions.
\<close>

fun control_read :: "nat \<Rightarrow> nat \<Rightarrow> usb_dev \<Rightarrow> (u8 list \<times> usb_dev) option" where
  "control_read 0 r s = None"
| "control_read (Suc k) r s =
     do {
       let data = ep0_in_data s;
       s \<leftarrow> host_in s;
       if length data < 64 \<or> r \<le> length data then Some (data, s)
       else do {
         (rest, s) \<leftarrow> control_read k (r - length data) s;
         Some (data @ rest, s)
       }
     }"

definition usb_wf :: "usb_dev \<Rightarrow> bool" where
  "usb_wf s \<longleftrightarrow> length (EP0_Databuf s) = 192 \<and> length (EP1_Databuf s) = 128 \<and>
     length (app_cmd_buf s) = 64 \<and> unat (app_cmd_len s) \<le> 64 \<and>
     length (MySerInfo s) = 14 \<and> MySerInfo s ! 0 = 14"

definition setup_packet :: "u8 \<Rightarrow> u8 \<Rightarrow> u16 \<Rightarrow> u16 \<Rightarrow> u16 \<Rightarrow> u8 list" where
  "setup_packet rt req v i n = [rt, req] @ le16 v @ le16 i @ le16 n"

section \<open>Control reads\<close>

text \<open>The device is answering a descriptor read: \<open>off\<close> bytes loaded, \<open>left\<close> bytes to go.\<close>

definition serving :: "usb_dev \<Rightarrow> u8 list \<Rightarrow> nat \<Rightarrow> nat \<Rightarrow> bool" where
  "serving s d off left \<longleftrightarrow> SetupReqCode s = USB_GET_DESCRIPTOR \<and> pDescr s = Some (d, off) \<and>
     unat (SetupReqLen s) = left \<and> off + left \<le> length d \<and> length (EP0_Databuf s) = 192"

lemma unat_usb_chunk [simp]: "unat (usb_chunk n) = min 64 (unat n)"
  by (auto simp: usb_chunk_def word_le_nat_alt unsigned_ucast_eq take_bit_eq_mod min_def)

lemma usb_chunk_zero: "usb_chunk n = 0 \<longleftrightarrow> n = 0"
  using unat_usb_chunk [of n] by (auto simp: unat_eq_0 [symmetric] simp del: unat_usb_chunk)

lemma unat_sub_chunk: "unat (n - ucast (usb_chunk n)) = unat n - min 64 (unat n)" for n :: u16
  by (subst unat_sub) (simp_all add: word_le_nat_alt)

lemma usb_dev_same: "pDescr s = p \<Longrightarrow> s\<lparr>EP0_Databuf := EP0_Databuf s, pDescr := p\<rparr> = s" for s :: usb_dev
  by (cases s) simp

lemma descr_load_serving:
  assumes "pDescr s = Some (d, off)" "off + unat l \<le> length d" "length (EP0_Databuf s) = 192" "unat l \<le> 64"
  shows "\<exists>buf. descr_load l s = Some (s\<lparr>EP0_Databuf := buf, pDescr := Some (d, off + unat l)\<rparr>) \<and>
    length buf = 192 \<and> take (unat l) buf = take (unat l) (drop off d)"
proof (cases "l = 0")
  case True
  with assms show ?thesis
    using usb_dev_same [of s "Some (d, off)"]
    by (intro exI [of _ "EP0_Databuf s"]) (simp add: descr_load_def)
next
  case False
  let ?buf = "splice_at (EP0_Databuf s) 0 (take (unat l) (drop off d))"
  from assms have "length ?buf = 192" by simp
  moreover have "take (unat l) ?buf = take (unat l) (drop off d)"
    using assms(2) by (intro take_splice_at_0) simp
  ultimately show ?thesis using False assms(1,2)
    by (intro exI [of _ ?buf]) (simp add: descr_load_def)
qed

lemma flag_raised [simp]: "(x OR y) AND y = y" for x y :: u8
  by (rule bit_eqI) (auto simp: bit_simps)

lemma host_in_ep0: "host_in s = map_option (int_fg_clear RB_UIF_TRANSFER)
    (ep0_in (s\<lparr>usb_int_fg := usb_int_fg s OR RB_UIF_TRANSFER\<rparr>))"
proof -
  have "(usb_int_fg s OR 2) AND 2 \<noteq> 0"
    by (simp add: flag_raised)
  then show ?thesis
    by (simp add: host_in_def USB_IRQHandler_def usb_token_def regs map_option_case split: option.split)
qed

lemma host_in_serving:
  assumes "serving s d off left"
  shows "\<exists>s'. host_in s = Some s' \<and> serving s' d (off + min 64 left) (left - min 64 left) \<and>
    ep0_in_data s' = take (min 64 left) (drop off d)"
proof -
  let ?s = "s\<lparr>usb_int_fg := usb_int_fg s OR RB_UIF_TRANSFER\<rparr>"
  let ?l = "usb_chunk (SetupReqLen s)"
  from assms have a: "pDescr ?s = Some (d, off)" "off + unat ?l \<le> length d" "length (EP0_Databuf ?s) = 192"
    "unat ?l \<le> 64" by (auto simp: serving_def)
  from descr_load_serving [OF this] obtain buf where
    l: "descr_load ?l ?s = Some (?s\<lparr>EP0_Databuf := buf, pDescr := Some (d, off + unat ?l)\<rparr>)" and
    buf: "length buf = 192" "take (unat ?l) buf = take (unat ?l) (drop off d)" by blast
  from l assms obtain s' where s': "host_in s = Some s'" "SetupReqLen s' = SetupReqLen s - ucast ?l"
    "pDescr s' = Some (d, off + unat ?l)" "SetupReqCode s' = USB_GET_DESCRIPTOR" "EP0_Databuf s' = buf"
    "uep0_t_len s' = ?l"
    by (simp add: host_in_ep0 ep0_in_def serving_def int_fg_clear_def Let_def)
  then show ?thesis using assms buf
    by (auto simp: serving_def ep0_in_data_def unat_sub_chunk)
qed

lemma control_read_serving:
  assumes "serving s d (b + min 64 n) (n - min 64 n)" "ep0_in_data s = take (min 64 n) (drop b d)"
    "n \<le> r" "n div 64 < k" "b + n \<le> length d"
  shows "\<exists>s'. control_read k r s = Some (take n (drop b d), s')"
  using assms
proof (induction k arbitrary: s b n r)
  case (Suc k)
  from host_in_serving [OF Suc.prems(1)] obtain s1 where s1: "host_in s = Some s1"
    "serving s1 d (b + min 64 n + min 64 (n - min 64 n)) (n - min 64 n - min 64 (n - min 64 n))"
    "ep0_in_data s1 = take (min 64 (n - min 64 n)) (drop (b + min 64 n) d)" by blast
  have len: "length (ep0_in_data s) = min 64 n" using Suc.prems(2,5) by simp
  show ?case
  proof (cases "n < 64 \<or> r \<le> 64")
    case True
    then have "min 64 n = n" using Suc.prems(3) by auto
    with True len s1(1) Suc.prems(2,3) show ?thesis by (auto simp: Let_def)
  next
    case False
    then have m: "min 64 n = 64" by simp
    have "\<exists>s'. control_read k (r - 64) s1 = Some (take (n - 64) (drop (b + 64) d), s')"
    proof (rule Suc.IH)
      show "(n - 64) div 64 < k" using Suc.prems(4) False by auto
    qed (use s1 Suc.prems False m in \<open>auto simp: add.assoc\<close>)
    moreover have "take n (drop b d) = take 64 (drop b d) @ take (n - 64) (drop (b + 64) d)"
      using False take_add [of 64 "n - 64" "drop b d"] by (simp add: add.commute)
    ultimately show ?thesis using False len s1(1) Suc.prems(2) m by (auto simp: Let_def)
  qed
qed simp

lemma select_descr_cong: "MySerInfo s = MySerInfo t \<Longrightarrow> select_descr v s = select_descr v t"
proof -
  assume "MySerInfo s = MySerInfo t"
  then have "string_descr i s = string_descr i t" for i by (simp add: string_descr_def)
  then show ?thesis by (simp only: select_descr_def)
qed

lemma select_descr_length:
  assumes "select_descr v s = Some (d, l)" "length (MySerInfo s) = 14" "MySerInfo s ! 0 = 14"
  shows "unat l = length d" "length d \<le> 75"
  using assms
  by (auto simp: select_descr_def string_descr_def MyDevDescr_def MyCfgDescr_def MyLangDescr_def
      MyManuInfo_def MyProdInfo_def Let_def regs split: if_splits)

lemma setup_packet_fields:
  fixes buf :: "u8 list"
  assumes "b = splice_at buf 0 (setup_packet rt req v i n)" "length buf = 192"
  shows "b ! 0 = rt" "b ! 1 = req" "from_le16 (b ! 2) (b ! 3) = v" "from_le16 (b ! 4) (b ! 5) = i"
    "from_le16 (b ! 6) (b ! 7) = n" "length b = 192"
  using assms
  by (simp_all add: setup_packet_def splice_at_def le16_def)

lemma host_setup_eq: "host_setup pkt s = map_option (int_fg_clear RB_UIF_TRANSFER)
    (usb_setup (s\<lparr>EP0_Databuf := splice_at (EP0_Databuf s) 0 pkt,
          usb_int_fg := usb_int_fg s OR RB_UIF_TRANSFER\<rparr>))"
proof -
  have "(usb_int_fg s OR 2) AND 2 \<noteq> 0"
    by (simp add: flag_raised)
  then show ?thesis
    by (simp add: host_setup_def USB_IRQHandler_def regs map_option_case split: option.split)
qed

lemma usb_reply_chunk: "(if n > 64 then 64 else ucast n) = usb_chunk n" for n :: u16
  by (auto simp: usb_chunk_def)

lemma usb_reply_in: "c AND 0x80 \<noteq> 0 \<Longrightarrow> usb_reply c s =
    s\<lparr>SetupReqLen := SetupReqLen s - ucast (usb_chunk (SetupReqLen s)),
      uep0_t_len := usb_chunk (SetupReqLen s), uep0_ctrl := 0xC0\<rparr>"
  unfolding usb_reply_def Let_def usb_reply_chunk by (simp add: regs)

lemma usb_reply_out: "c AND 0x80 = 0 \<Longrightarrow> usb_reply c s = s\<lparr>uep0_t_len := 0, uep0_ctrl := 0xC0\<rparr>"
  unfolding usb_reply_def by (simp add: regs)

definition setup_state :: "u8 list \<Rightarrow> usb_dev \<Rightarrow> usb_dev" where
  "setup_state pkt s =
     (let b = splice_at (EP0_Databuf s) 0 pkt
      in s\<lparr>EP0_Databuf := b, usb_int_fg := usb_int_fg s OR RB_UIF_TRANSFER,
           SetupReqLen := from_le16 (b ! 6) (b ! 7), SetupReqCode := b ! 1,
           uep0_ctrl := RB_UEP_R_TOG OR RB_UEP_T_TOG OR UEP_R_RES_ACK OR UEP_T_RES_NAK\<rparr>)"

lemma setup_state_fields:
  assumes "t = setup_state (setup_packet rt req v i n) s" "length (EP0_Databuf s) = 192"
  shows "SetupReqLen t = n" "SetupReqCode t = req" "bRequestType t = rt" "wValue t = v" "wIndex t = i"
    "length (EP0_Databuf t) = 192" "MySerInfo t = MySerInfo s" "pDescr t = pDescr s"
  using setup_packet_fields [OF refl assms(2), of rt req v i n]
  by (simp_all add: assms(1) setup_state_def bRequestType_def wValue_def wIndex_def Let_def)

lemma host_setup_run:
  assumes "length (EP0_Databuf s) = 192"
  shows "host_setup (setup_packet rt req v i n) s =
    do {
      (err, t) \<leftarrow>
        (if rt AND USB_REQ_TYP_MASK \<noteq> USB_REQ_TYP_STANDARD
         then Some (False, class_request rt (setup_state (setup_packet rt req v i n) s))
         else standard_request (setup_state (setup_packet rt req v i n) s));
      Some (int_fg_clear RB_UIF_TRANSFER (if err then usb_stall t else usb_reply rt t))
    }"
  using setup_packet_fields [OF refl assms, of rt req v i n]
  by (simp add: host_setup_eq usb_setup_def setup_state_def bRequestType_def bRequest_def wLength_def
      Let_def map_option_bind case_prod_unfold comp_def split: prod.split)

section \<open>Descriptor requests\<close>

lemma get_descriptor_found:
  assumes "select_descr (wValue t) t = Some (d, l)" "length (EP0_Databuf t) = 192"
    "length (MySerInfo t) = 14" "MySerInfo t ! 0 = 14"
  shows "\<exists>m buf. get_descriptor t = Some (False, t\<lparr>SetupReqLen := m, EP0_Databuf := buf,
      pDescr := Some (d, unat (usb_chunk m))\<rparr>) \<and> unat m = min (unat (SetupReqLen t)) (length d) \<and>
    length buf = 192 \<and> take (unat (usb_chunk m)) buf = take (unat (usb_chunk m)) d \<and> length d \<le> 75"
proof -
  note len = select_descr_length [OF assms(1,3,4)]
  define m where "m = (if SetupReqLen t > ucast l then ucast l else SetupReqLen t)"
  have m: "unat m = min (unat (SetupReqLen t)) (length d)"
    using len by (auto simp: m_def word_less_nat_alt min_def)
  let ?u = "t\<lparr>pDescr := Some (d, 0), SetupReqLen := m\<rparr>"
  have "pDescr ?u = Some (d, 0)" "0 + unat (usb_chunk m) \<le> length d" "length (EP0_Databuf ?u) = 192"
    "unat (usb_chunk m) \<le> 64" using assms(2) m by auto
  from descr_load_serving [OF this] obtain buf where
    ld: "descr_load (usb_chunk m) ?u =
      Some (?u\<lparr>EP0_Databuf := buf, pDescr := Some (d, unat (usb_chunk m))\<rparr>)" and
    buf: "length buf = 192" "take (unat (usb_chunk m)) buf = take (unat (usb_chunk m)) d" by auto
  have "(if SetupReqLen (t\<lparr>pDescr := Some (d, 0)\<rparr>) > ucast l
      then t\<lparr>pDescr := Some (d, 0)\<rparr>\<lparr>SetupReqLen := ucast l\<rparr> else t\<lparr>pDescr := Some (d, 0)\<rparr>) = ?u"
    by (cases t) (auto simp: m_def)
  then have "get_descriptor t = Some (False, ?u\<lparr>EP0_Databuf := buf, pDescr := Some (d, unat (usb_chunk m))\<rparr>)"
    using assms(1) ld by (simp add: get_descriptor_def Let_def)
  with m buf len(2) show ?thesis by (intro exI [of _ m] exI [of _ buf]) simp
qed

lemma get_descriptor_missing:
  "select_descr (wValue t) t = None \<Longrightarrow> get_descriptor t = Some (True, t\<lparr>SetupReqLen := 0\<rparr>)"
  by (cases t) (auto simp: get_descriptor_def descr_load_def usb_chunk_def Let_def word_gt_0)

section \<open>What no part of the handler touches\<close>

definition keeps :: "usb_dev \<Rightarrow> usb_dev \<Rightarrow> bool" where
  "keeps s t \<longleftrightarrow> app_cmd_len t = app_cmd_len s \<and> app_cmd_buf t = app_cmd_buf s \<and>
     EP1_Databuf t = EP1_Databuf s \<and> MySerInfo t = MySerInfo s \<and>
     (length (EP0_Databuf s) = 192 \<longrightarrow> length (EP0_Databuf t) = 192)"

lemma keeps_refl [simp]: "keeps s s" by (simp add: keeps_def)

lemma keeps_trans: "keeps s t \<Longrightarrow> keeps t u \<Longrightarrow> keeps s u" by (simp add: keeps_def)

lemma keeps_updates [simp]:
  "keeps s (t\<lparr>SetupReqLen := x1\<rparr>) = keeps s t" "keeps s (t\<lparr>SetupReqCode := x2\<rparr>) = keeps s t"
  "keeps s (t\<lparr>uep0_ctrl := x2\<rparr>) = keeps s t" "keeps s (t\<lparr>uep1_ctrl := x2\<rparr>) = keeps s t"
  "keeps s (t\<lparr>uep4_ctrl := x2\<rparr>) = keeps s t" "keeps s (t\<lparr>uep0_t_len := x2\<rparr>) = keeps s t"
  "keeps s (t\<lparr>usb_dev_ad := x2\<rparr>) = keeps s t" "keeps s (t\<lparr>usb_int_fg := x2\<rparr>) = keeps s t"
  "keeps s (t\<lparr>DevConfig := x2\<rparr>) = keeps s t" "keeps s (t\<lparr>pDescr := x3\<rparr>) = keeps s t"
  "keeps s (int_fg_clear x2 t) = keeps s t"
  by (simp_all add: keeps_def int_fg_clear_def)

lemma keeps_buf [simp]:
  "keeps s (t\<lparr>EP0_Databuf := (EP0_Databuf t)[i := x]\<rparr>) = keeps s t"
  "keeps s (t\<lparr>EP0_Databuf := (EP0_Databuf t)[i := x, j := y]\<rparr>) = keeps s t"
  by (simp_all add: keeps_def)

lemma keeps_wf: "keeps s t \<Longrightarrow> usb_wf s \<Longrightarrow> usb_wf t"
  by (simp add: keeps_def usb_wf_def)

lemma keeps_load: "descr_load l s = Some t \<Longrightarrow> unat l \<le> 64 \<Longrightarrow> keeps s t"
  by (auto simp: descr_load_def keeps_def split: if_splits option.splits prod.splits)

lemma keeps_ep0_in: "ep0_in s = Some t \<Longrightarrow> keeps s t"
  using keeps_load [of "usb_chunk (SetupReqLen s)" s]
  by (auto simp: ep0_in_def Let_def bind_eq_Some_conv split: if_splits)

lemma keeps_get_descriptor: "get_descriptor s = Some (e, t) \<Longrightarrow> keeps s t"
proof -
  assume g: "get_descriptor s = Some (e, t)"
  define u where "u = (case select_descr (wValue s) s of
      Some (d, l) \<Rightarrow> (False, l, s\<lparr>pDescr := Some (d, 0)\<rparr>) | None \<Rightarrow> (True, 0, s))"
  obtain e' l s1 where u: "u = (e', l, s1)" by (cases u)
  then have "keeps s s1" by (auto simp: u_def split: option.splits)
  define s2 where "s2 = (if SetupReqLen s1 > ucast l then s1\<lparr>SetupReqLen := ucast l\<rparr> else s1)"
  have "keeps s1 s2" by (simp add: s2_def)
  moreover have "descr_load (usb_chunk (SetupReqLen s2)) s2 = Some t"
    using g u by (auto simp: get_descriptor_def u_def [symmetric] s2_def [symmetric] Let_def bind_eq_Some_conv)
  then have "keeps s2 t" by (rule keeps_load) simp
  ultimately show ?thesis using \<open>keeps s s1\<close> by (blast intro: keeps_trans)
qed

lemma keeps_standard: "standard_request s = Some (e, t) \<Longrightarrow> keeps s t"
  using keeps_get_descriptor [of s e t]
  by (auto simp: standard_request_def clear_feature_def Let_def split: if_splits)

lemma keeps_reply: "keeps s t \<Longrightarrow> keeps s (usb_reply c t)"
  by (cases "c AND 0x80 = 0") (simp_all add: usb_reply_in usb_reply_out)

lemma usb_setup_effect:
  assumes "usb_setup s = Some t" "usb_wf s"
  shows "keeps s t \<or> usb_wf t \<and> bRequestType s = 0x21 \<and> bRequest s = DEF_SET_CONTROL_LINE_STATE \<and>
    app_cmd_len t = 3 \<and> take 3 (app_cmd_buf t) = [1, CMD_I2C_PWR, EP0_Databuf s ! 2 AND 1]"
proof -
  let ?s = "s\<lparr>SetupReqLen := wLength s, SetupReqCode := bRequest s,
                 uep0_ctrl := RB_UEP_R_TOG OR RB_UEP_T_TOG OR UEP_R_RES_ACK OR UEP_T_RES_NAK\<rparr>"
  have st: "keeps s u" if "standard_request ?s = Some (e, u)" for e u
    using keeps_standard [OF that] by (simp add: keeps_def)
  obtain a b c bs where buf: "app_cmd_buf s = a # b # c # bs" "length bs = 61"
    using assms(2) by (auto simp: usb_wf_def length_Suc_conv eval_nat_numeral)
  show ?thesis
  proof (cases "bRequestType s AND USB_REQ_TYP_MASK = USB_REQ_TYP_STANDARD")
    case True
    with assms(1) obtain e u where "standard_request ?s = Some (e, u)"
      "t = (if e then usb_stall u else usb_reply (bRequestType s) u)"
      by (auto simp: usb_setup_def Let_def bind_eq_Some_conv)
    with st show ?thesis by (auto simp: usb_stall_def intro: keeps_reply)
  next
    case False
    then have t: "t = usb_reply (bRequestType s) (class_request (bRequestType s) ?s)"
      using assms(1) by (simp add: usb_setup_def Let_def)
    show ?thesis
    proof (cases "bRequestType s = 0x21 \<and> bRequest s = DEF_SET_CONTROL_LINE_STATE")
      case True
      then have c: "class_request 0x21 ?s = ?s\<lparr>app_cmd_buf :=
          (app_cmd_buf s)[0 := 1, 1 := CMD_I2C_PWR, 2 := EP0_Databuf s ! 2 AND 1], app_cmd_len := 3\<rparr>"
        by (simp add: class_request_def)
      have "(app_cmd_buf s)[0 := 1, 1 := CMD_I2C_PWR, 2 := EP0_Databuf s ! 2 AND 1] =
          1 # CMD_I2C_PWR # (EP0_Databuf s ! 2 AND 1) # bs"
        by (simp add: buf)
      with True t c show ?thesis using assms(2) buf by (simp add: usb_reply_out usb_wf_def)
    next
      case False
      then have "class_request (bRequestType s) ?s = ?s" by (auto simp: class_request_def)
      with t show ?thesis by (simp add: keeps_reply)
    qed
  qed
qed

lemma usb_token_effect:
  assumes "usb_token intsta l s = Some t" "usb_wf s"
  shows "keeps s t \<or> usb_wf t \<and> intsta AND (MASK_UIS_TOKEN OR MASK_UIS_ENDP) = UIS_TOKEN_OUT OR 1 \<and>
    app_cmd_len s = 0 \<and> unat (app_cmd_len t) = min 64 (unat l) \<and>
    take (unat (app_cmd_len t)) (app_cmd_buf t) = take (min 64 (unat l)) (EP1_Databuf s)"
proof (cases "intsta AND (MASK_UIS_TOKEN OR MASK_UIS_ENDP) = UIS_TOKEN_OUT OR 1 \<and>
    intsta AND RB_UIS_TOG_OK \<noteq> 0 \<and> app_cmd_len s = 0 \<and> l \<noteq> 0")
  case True
  then have neq: "intsta AND (MASK_UIS_TOKEN OR MASK_UIS_ENDP) \<noteq> UIS_TOKEN_IN OR 1" by (simp add: regs)
  let ?n = "if l > 64 then 64 else l"
  have n: "unat ?n = min 64 (unat l)" by (auto simp: word_less_nat_alt)
  have t: "t = s\<lparr>app_cmd_len := ?n,
      app_cmd_buf := splice_at (app_cmd_buf s) 0 (take (unat ?n) (EP1_Databuf s))\<rparr>"
    using assms(1) True neq by (simp add: usb_token_def DevEP1_OUT_Deal_def Let_def)
  have len: "length (take (unat ?n) (EP1_Databuf s)) = min 64 (unat l)"
    using assms(2) n by (simp add: usb_wf_def)
  have "usb_wf t" using assms(2) len n by (simp add: t usb_wf_def del: if_split)
  moreover have "take (unat ?n) (splice_at (app_cmd_buf s) 0 (take (unat ?n) (EP1_Databuf s))) =
      take (unat ?n) (EP1_Databuf s)"
    using len n by (intro take_splice_at_0) simp
  ultimately show ?thesis using True n by (simp add: t del: if_split)
next
  case False
  then have "keeps s t" using assms(1) keeps_ep0_in [of s t]
    by (auto simp: usb_token_def DevEP1_OUT_Deal_def DevEP4_OUT_Deal_def Let_def split: if_splits)
  then show ?thesis ..
qed

section \<open>Standard requests\<close>

definition standard_supported :: "u8 \<Rightarrow> u8 \<Rightarrow> u16 \<Rightarrow> u16 \<Rightarrow> usb_dev \<Rightarrow> bool" where
  "standard_supported rt req v i s \<longleftrightarrow>
     req \<in> {USB_GET_STATUS, USB_SET_ADDRESS, USB_GET_CONFIGURATION, USB_SET_CONFIGURATION, USB_GET_INTERFACE} \<or>
     req = USB_GET_DESCRIPTOR \<and> select_descr v s \<noteq> None \<or>
     req = USB_CLEAR_FEATURE \<and>
       (rt AND USB_REQ_RECIP_MASK = USB_REQ_RECIP_ENDP \<and> (ucast i :: u8) \<in> {0x81, 0x01, 0x84, 0x04} \<or>
        rt AND USB_REQ_RECIP_MASK = USB_REQ_RECIP_DEVICE)"

lemma clear_feature_decides:
  assumes "bRequestType t = rt" "wIndex t = i"
  shows "fst (clear_feature t) = (\<not> standard_supported rt USB_CLEAR_FEATURE v i s) \<and>
    (fst (clear_feature t) \<longrightarrow> snd (clear_feature t) = t)"
proof -
  let ?ep = "rt AND USB_REQ_RECIP_MASK = USB_REQ_RECIP_ENDP" and ?dev = "rt AND USB_REQ_RECIP_MASK = USB_REQ_RECIP_DEVICE"
  have "standard_supported rt USB_CLEAR_FEATURE v i s =
      (?ep \<and> (ucast i :: u8) \<in> {0x81, 0x01, 0x84, 0x04} \<or> ?dev)"
    unfolding standard_supported_def
    by (simp add: USB_GET_STATUS_def USB_SET_ADDRESS_def USB_GET_CONFIGURATION_def
        USB_SET_CONFIGURATION_def USB_GET_INTERFACE_def USB_GET_DESCRIPTOR_def USB_CLEAR_FEATURE_def)
  moreover have "fst (clear_feature t) = (\<not> (?ep \<and> (ucast i :: u8) \<in> {0x81, 0x01, 0x84, 0x04} \<or> ?dev))"
  proof (cases ?ep)
    case True
    have "USB_REQ_RECIP_ENDP \<noteq> USB_REQ_RECIP_DEVICE"
      by (simp add: USB_REQ_RECIP_ENDP_def USB_REQ_RECIP_DEVICE_def)
    with True have "\<not> ?dev" by metis
    with True assms show ?thesis unfolding clear_feature_def Let_def by simp
  next
    case False
    with assms show ?thesis unfolding clear_feature_def Let_def by simp
  qed
  moreover have "snd (clear_feature t) = t" if "fst (clear_feature t)"
    using that unfolding clear_feature_def Let_def
    by (auto simp only: fst_conv snd_conv simp_thms split: if_splits)
  ultimately show ?thesis by blast
qed

lemma standard_request_other:
  assumes "SetupReqCode t = req" "req \<noteq> USB_GET_DESCRIPTOR" "req \<noteq> USB_CLEAR_FEATURE"
  shows "\<exists>u. standard_request t = Some (\<not> standard_supported rt req v i s, u) \<and>
    (\<not> standard_supported rt req v i s \<longrightarrow> u = t)"
  using assms by (auto simp: standard_request_def standard_supported_def)

lemma standard_request_decides:
  assumes "length (EP0_Databuf s) = 192" "length (MySerInfo s) = 14" "MySerInfo s ! 0 = 14"
  shows "\<exists>e u. standard_request (setup_state (setup_packet rt req v i n) s) = Some (e, u) \<and>
    e = (\<not> standard_supported rt req v i s) \<and>
    (e \<longrightarrow> (\<exists>x y. u = setup_state (setup_packet rt req v i n) s\<lparr>SetupReqLen := x, EP0_Databuf := y\<rparr>))"
proof -
  let ?t = "setup_state (setup_packet rt req v i n) s"
  note t = setup_state_fields [OF refl assms(1), of rt req v i n]
  have same: "\<exists>x y. ?t = ?t\<lparr>SetupReqLen := x, EP0_Databuf := y\<rparr>"
    by (rule exI [of _ "SetupReqLen ?t"], rule exI [of _ "EP0_Databuf ?t"]) (cases ?t, simp)
  have len0: "\<exists>x y. ?t\<lparr>SetupReqLen := z\<rparr> = ?t\<lparr>SetupReqLen := x, EP0_Databuf := y\<rparr>" for z
    by (rule exI [of _ z], rule exI [of _ "EP0_Databuf ?t"]) (cases ?t, simp)
  have sel: "select_descr v ?t = select_descr v s" by (rule select_descr_cong) (rule t(7))
  consider (descr) "req = USB_GET_DESCRIPTOR" | (feature) "req = USB_CLEAR_FEATURE" |
    (other) "req \<noteq> USB_GET_DESCRIPTOR" "req \<noteq> USB_CLEAR_FEATURE" by blast
  then show ?thesis
  proof cases
    case descr
    then have g: "standard_request ?t = get_descriptor ?t" using t(2) by (simp add: standard_request_def)
    have k: "standard_supported rt req v i s = (select_descr v s \<noteq> None)"
      using descr by (simp add: standard_supported_def regs)
    show ?thesis
    proof (cases "select_descr v s")
      case None
      with sel t(4) have "get_descriptor ?t = Some (True, ?t\<lparr>SetupReqLen := 0\<rparr>)"
        by (intro get_descriptor_missing) simp
      show ?thesis
      proof (intro exI conjI impI)
        show "standard_request ?t = Some (True, ?t\<lparr>SetupReqLen := 0\<rparr>)"
          using g \<open>get_descriptor ?t = _\<close> by simp
        show "True = (\<not> standard_supported rt req v i s)" using k None by simp
        show "?t\<lparr>SetupReqLen := 0\<rparr> = ?t\<lparr>SetupReqLen := 0, EP0_Databuf := EP0_Databuf ?t\<rparr>" by simp
      qed
    next
      case (Some dl)
      then obtain d l where "select_descr (wValue ?t) ?t = Some (d, l)" using sel t(4) by (cases dl) simp
      from get_descriptor_found [OF this t(6)] assms(2,3) t(7) obtain u where
        "get_descriptor ?t = Some (False, u)" by auto
      then have "standard_request ?t = Some (False, u)" using g by simp
      moreover have "False = (\<not> standard_supported rt req v i s)" using k Some by simp
      ultimately show ?thesis by (intro exI conjI impI) (assumption, assumption, simp)
    qed
  next
    case feature
    then have "standard_request ?t = Some (clear_feature ?t)"
      using t(2) by (simp add: standard_request_def regs)
    moreover note clear_feature_decides [OF t(3,5), of v s]
    ultimately show ?thesis using same feature by (cases "clear_feature ?t") auto
  next
    case other
    from standard_request_other [OF t(2) this, of rt v i s] same show ?thesis by auto
  qed
qed

section \<open>Reading within the descriptors\<close>

text \<open>What the host and the bus may do, as the hardware presents it to the handler.\<close>

datatype usb_event =
    Setup u8 u8 u16 u16 u16
  | Token u8 u8
  | Bus_reset
  | Bus_suspend

fun usb_step :: "usb_event \<Rightarrow> usb_dev \<Rightarrow> usb_dev option" where
  "usb_step (Setup rt req v i n) s = host_setup (setup_packet rt req v i n) s"
| "usb_step (Token intsta l) s = USB_IRQHandler intsta l (s\<lparr>usb_int_fg := RB_UIF_TRANSFER\<rparr>)"
| "usb_step Bus_reset s = USB_IRQHandler 0 0 (s\<lparr>usb_int_fg := RB_UIF_BUS_RST\<rparr>)"
| "usb_step Bus_suspend s = USB_IRQHandler 0 0 (s\<lparr>usb_int_fg := RB_UIF_SUSPEND\<rparr>)"

fun usb_run :: "usb_event list \<Rightarrow> usb_dev \<Rightarrow> usb_dev option" where
  "usb_run [] s = Some s"
| "usb_run (e # es) s = do { s \<leftarrow> usb_step e s; usb_run es s }"

text \<open>The bytes still promised to the host lie inside the descriptor pointed to.\<close>

definition usb_safe :: "usb_dev \<Rightarrow> bool" where
  "usb_safe s \<longleftrightarrow> (SetupReqCode s = USB_GET_DESCRIPTOR \<and> SetupReqLen s \<noteq> 0 \<longrightarrow>
     (\<exists>d off. pDescr s = Some (d, off) \<and> off + unat (SetupReqLen s) \<le> length d))"

text \<open>A request with the code of \<open>GET_DESCRIPTOR\<close> is a standard device-to-host request.\<close>

fun event_ok :: "usb_event \<Rightarrow> bool" where
  "event_ok (Setup rt req v i n) \<longleftrightarrow> (req = USB_GET_DESCRIPTOR \<longrightarrow> rt AND 0xE0 = 0x80)"
| "event_ok (Token intsta l) \<longleftrightarrow> intsta AND RB_UIS_SETUP_ACT = 0"
| "event_ok _ \<longleftrightarrow> True"

lemma usb_safe_same:
  "SetupReqCode t = SetupReqCode s \<Longrightarrow> SetupReqLen t = SetupReqLen s \<Longrightarrow> pDescr t = pDescr s \<Longrightarrow>
   usb_safe t = usb_safe s"
  by (simp add: usb_safe_def)

lemma ep0_in_safe:
  assumes "usb_safe s" "length (EP0_Databuf s) = 192"
  shows "\<exists>t. ep0_in s = Some t \<and> usb_safe t"
proof (cases "SetupReqCode s = USB_GET_DESCRIPTOR \<and> SetupReqLen s \<noteq> 0")
  case True
  let ?l = "usb_chunk (SetupReqLen s)"
  from True assms(1) obtain d off where p: "pDescr s = Some (d, off)" "off + unat (SetupReqLen s) \<le> length d"
    by (auto simp: usb_safe_def)
  then have "off + unat ?l \<le> length d" "unat ?l \<le> 64" by auto
  from descr_load_serving [OF p(1) this(1) assms(2) this(2)] obtain buf where
    "descr_load ?l s = Some (s\<lparr>EP0_Databuf := buf, pDescr := Some (d, off + unat ?l)\<rparr>)" by blast
  with True p(2) show ?thesis
    by (auto simp: ep0_in_def Let_def usb_safe_def unat_sub_chunk)
next
  case False
  then show ?thesis
    by (auto simp: ep0_in_def Let_def usb_safe_def descr_load_def usb_chunk_def word_gt_0 word_le_nat_alt)
qed

lemma usb_token_safe:
  assumes "usb_safe s" "usb_wf s"
  shows "\<exists>t. usb_token intsta l s = Some t \<and> usb_safe t"
proof (cases "intsta AND (MASK_UIS_TOKEN OR MASK_UIS_ENDP) = UIS_TOKEN_IN")
  case True
  then have "usb_token intsta l s = ep0_in s" by (simp add: usb_token_def regs)
  with ep0_in_safe [OF assms(1)] assms(2) show ?thesis by (simp add: usb_wf_def)
next
  case False
  then show ?thesis using assms(1)
    by (auto simp: usb_token_def Let_def DevEP1_OUT_Deal_def DevEP4_OUT_Deal_def usb_safe_def)
qed

lemma usb_reply_safe:
  assumes "SetupReqCode s \<noteq> USB_GET_DESCRIPTOR"
  shows "usb_safe (usb_reply c s)"
  using assms by (cases "c AND 0x80 = 0") (auto simp: usb_reply_in usb_reply_out usb_safe_def)

lemma standard_keeps_code: "standard_request s = Some (e, t) \<Longrightarrow> SetupReqCode s \<noteq> USB_GET_DESCRIPTOR \<Longrightarrow>
    SetupReqCode t = SetupReqCode s"
  by (auto simp: standard_request_def clear_feature_def Let_def split: if_splits)

lemma host_setup_safe:
  assumes "usb_wf s" "event_ok (Setup rt req v i n)"
  shows "\<exists>t. host_setup (setup_packet rt req v i n) s = Some t \<and> usb_safe t"
proof -
  let ?t = "setup_state (setup_packet rt req v i n) s"
  from assms have l: "length (EP0_Databuf s) = 192" and
    ser: "length (MySerInfo s) = 14" "MySerInfo s ! 0 = 14" by (simp_all add: usb_wf_def)
  note t = setup_state_fields [OF refl l, of rt req v i n]
    and run = host_setup_run [OF l, of rt req v i n]
  obtain e u where std: "standard_request ?t = Some (e, u)"
    using standard_request_decides [OF l ser] by blast
  have clear: "usb_safe (int_fg_clear x w) = usb_safe w" for x w
    by (rule usb_safe_same) (simp_all add: int_fg_clear_def)
  have stall: "usb_safe (usb_stall w) = usb_safe w" for w
    by (rule usb_safe_same) (simp_all add: usb_stall_def)
  show ?thesis
  proof (cases "req = USB_GET_DESCRIPTOR")
    case False
    have "SetupReqCode (class_request rt w) = SetupReqCode w" for w by (simp add: class_request_def)
    then have "SetupReqCode (class_request rt ?t) = req" using t(2) by simp
    moreover have "SetupReqCode u = req" using standard_keeps_code [OF std] t(2) False by simp
    moreover have "usb_safe (usb_stall u)"
      unfolding stall using \<open>SetupReqCode u = req\<close> False by (simp add: usb_safe_def)
    ultimately show ?thesis using run std False
      by (auto simp: clear usb_reply_safe)
  next
    case True
    with assms(2) have e: "rt AND 0xE0 = 0x80" by simp
    have "rt AND 0x60 = (rt AND 0xE0) AND 0x60" "rt AND 0x80 = (rt AND 0xE0) AND 0x80"
      by (simp_all add: and.assoc)
    then have rt: "rt AND 0x60 = 0" "rt AND 0x80 \<noteq> 0" using e by simp_all
    have g: "standard_request ?t = get_descriptor ?t" using t(2) True by (simp add: standard_request_def)
    show ?thesis
    proof (cases "select_descr (wValue ?t) ?t")
      case None
      have "usb_safe (int_fg_clear RB_UIF_TRANSFER (usb_stall (?t\<lparr>SetupReqLen := 0\<rparr>)))"
        unfolding clear stall by (simp add: usb_safe_def)
      moreover have "host_setup (setup_packet rt req v i n) s =
          Some (int_fg_clear RB_UIF_TRANSFER (usb_stall (?t\<lparr>SetupReqLen := 0\<rparr>)))"
        using get_descriptor_missing [OF None] g run rt by (simp add: USB_REQ_TYP_MASK_def USB_REQ_TYP_STANDARD_def)
      ultimately show ?thesis by simp
    next
      case (Some dl)
      then obtain d l where "select_descr (wValue ?t) ?t = Some (d, l)" by (cases dl) simp
      from get_descriptor_found [OF this t(6)] ser t(7) obtain m buf where
        gd: "get_descriptor ?t = Some (False, ?t\<lparr>SetupReqLen := m, EP0_Databuf := buf,
          pDescr := Some (d, unat (usb_chunk m))\<rparr>)" and
        m': "unat m = min (unat (SetupReqLen ?t)) (length d)" by metis
      then have h: "host_setup (setup_packet rt req v i n) s = Some (int_fg_clear RB_UIF_TRANSFER (usb_reply rt
          (?t\<lparr>SetupReqLen := m, EP0_Databuf := buf, pDescr := Some (d, unat (usb_chunk m))\<rparr>)))" and
        m: "unat m \<le> length d"
        using g run rt by (simp_all add: USB_REQ_TYP_MASK_def USB_REQ_TYP_STANDARD_def)
      have "min 64 (unat m) + (unat m - min 64 (unat m)) \<le> length d" using m by simp
      then show ?thesis using h rt(2)
        by (simp add: clear) (simp add: usb_safe_def usb_reply_in unat_sub_chunk)
    qed
  qed
qed

lemma usb_step_safe:
  assumes "usb_wf s" "usb_safe s" "event_ok e"
  shows "\<exists>t. usb_step e s = Some t \<and> usb_wf t \<and> usb_safe t"
proof (cases e)
  case (Setup rt req v i n)
  obtain t where t: "host_setup (setup_packet rt req v i n) s = Some t" "usb_safe t"
    using host_setup_safe [OF assms(1)] assms(3) Setup by blast
  moreover have "usb_wf t"
  proof -
    let ?s = "s\<lparr>EP0_Databuf := splice_at (EP0_Databuf s) 0 (setup_packet rt req v i n),
          usb_int_fg := usb_int_fg s OR RB_UIF_TRANSFER\<rparr>"
    have wf: "usb_wf ?s" using assms(1) by (simp add: usb_wf_def setup_packet_def)
    obtain u where "usb_setup ?s = Some u" "t = int_fg_clear RB_UIF_TRANSFER u"
      using t(1) by (auto simp: host_setup_eq)
    with usb_setup_effect [OF _ wf] have "usb_wf u" using keeps_wf [OF _ wf] by blast
    with \<open>t = _\<close> show ?thesis by (simp add: usb_wf_def int_fg_clear_def)
  qed
  ultimately show ?thesis using Setup by simp
next
  case (Token intsta l)
  let ?s = "s\<lparr>usb_int_fg := RB_UIF_TRANSFER\<rparr>"
  have s: "usb_wf ?s" "usb_safe ?s" using assms by (simp_all add: usb_wf_def usb_safe_def)
  obtain t where t: "usb_token intsta l ?s = Some t" "usb_safe t" using usb_token_safe [OF s(2,1)] by blast
  have "usb_wf t" using usb_token_effect [OF t(1) s(1)] keeps_wf [OF _ s(1)] by blast
  moreover have "intsta AND RB_UIS_SETUP_ACT = 0" using assms(3) Token by simp
  ultimately show ?thesis using t s Token
    by (auto simp: USB_IRQHandler_def regs usb_wf_def usb_safe_def int_fg_clear_def Let_def)
next
  case Bus_reset
  with assms show ?thesis
    by (auto simp: USB_IRQHandler_def regs usb_wf_def usb_safe_def int_fg_clear_def Let_def)
next
  case Bus_suspend
  with assms show ?thesis
    by (auto simp: USB_IRQHandler_def regs usb_wf_def usb_safe_def int_fg_clear_def Let_def)
qed

lemma usb_run_safe:
  "usb_wf s \<Longrightarrow> usb_safe s \<Longrightarrow> list_all event_ok es \<Longrightarrow>
   \<exists>t. usb_run es s = Some t \<and> usb_wf t \<and> usb_safe t"
proof (induction es arbitrary: s)
  case (Cons e es)
  from usb_step_safe [OF Cons.prems(1,2), of e] Cons.prems(3) obtain t where
    "usb_step e s = Some t" "usb_wf t" "usb_safe t" by auto
  with Cons.IH [of t] Cons.prems(3) show ?case by auto
qed simp

section \<open>Properties\<close>

text \<open>
  C19: A descriptor read returns the descriptor: for every descriptor the device has and every length
  the host asks for, the setup packet is acknowledged and at most three \<open>IN\<close> transactions of at most
  64 bytes bring exactly the first bytes of the descriptor, up to the smaller of both lengths.
\<close>

theorem usb_get_descriptor:
  assumes "usb_wf s" "select_descr v s = Some (d, l)"
  shows "\<exists>s1 s2. host_setup (setup_packet 0x80 USB_GET_DESCRIPTOR v i n) s = Some s1 \<and>
    uep0_ctrl s1 AND (MASK_UEP_R_RES OR MASK_UEP_T_RES) = UEP_R_RES_ACK OR UEP_T_RES_ACK \<and>
    control_read 3 (unat n) s1 = Some (take (unat n) d, s2)"
proof -
  let ?t = "setup_state (setup_packet 0x80 USB_GET_DESCRIPTOR v i n) s"
  from assms(1) have "length (EP0_Databuf s) = 192" and
    ser: "length (MySerInfo s) = 14" "MySerInfo s ! 0 = 14" by (simp_all add: usb_wf_def)
  note t = setup_state_fields [OF refl this(1), of "0x80" USB_GET_DESCRIPTOR v i n]
    and run = host_setup_run [OF this(1), of "0x80" USB_GET_DESCRIPTOR v i n]
  have sel: "select_descr (wValue ?t) ?t = Some (d, l)"
    using assms(2) select_descr_cong [OF t(7)] t(4) by simp
  from get_descriptor_found [OF sel t(6)] ser t(1,7) obtain m buf where
    gd: "get_descriptor ?t = Some (False, ?t\<lparr>SetupReqLen := m, EP0_Databuf := buf,
      pDescr := Some (d, unat (usb_chunk m))\<rparr>)" and m: "unat m = min (unat n) (length d)" and
    buf: "length buf = 192" "take (unat (usb_chunk m)) buf = take (unat (usb_chunk m)) d" and
    len: "length d \<le> 75" by auto
  define s1 where "s1 = int_fg_clear RB_UIF_TRANSFER
    (usb_reply 0x80 (?t\<lparr>SetupReqLen := m, EP0_Databuf := buf,
      pDescr := Some (d, unat (usb_chunk m))\<rparr>))"
  have s1: "host_setup (setup_packet 0x80 USB_GET_DESCRIPTOR v i n) s = Some s1"
    using run gd t(2) by (simp add: s1_def standard_request_def regs(1-60))
  have f: "SetupReqCode s1 = USB_GET_DESCRIPTOR" "pDescr s1 = Some (d, unat (usb_chunk m))"
    "SetupReqLen s1 = m - ucast (usb_chunk m)" "EP0_Databuf s1 = buf" "uep0_t_len s1 = usb_chunk m"
    "uep0_ctrl s1 = 0xC0"
    using t(2) by (simp_all add: s1_def usb_reply_in int_fg_clear_def)
  then have "serving s1 d (0 + min 64 (unat m)) (unat m - min 64 (unat m))"
    "ep0_in_data s1 = take (min 64 (unat m)) (drop 0 d)"
    using buf m by (auto simp: serving_def unat_sub_chunk ep0_in_data_def)
  moreover have "unat m div 64 < 3" using m len by linarith
  ultimately have "\<exists>s'. control_read 3 (unat n) s1 = Some (take (unat m) (drop 0 d), s')"
    using m by (intro control_read_serving) simp_all
  then obtain s2 where s2: "control_read 3 (unat n) s1 = Some (take (unat m) d, s2)" by auto
  have "take (unat m) d = take (unat n) d"
    by (cases "unat n \<le> length d") (simp_all add: m min_def)
  with s2 s1 f(6) show ?thesis by (auto simp: regs)
qed

text \<open>The state of the variables at reset.\<close>

definition usb_reset_state :: usb_dev where
  "usb_reset_state =
     \<lparr>pDescr = None, SetupReqLen = 0, DevConfig = 0, SetupReqCode = 0, MySerInfo = MySerInfo_init,
      EP0_Databuf = replicate 192 0, EP1_Databuf = replicate 128 0, app_cmd_len = 0,
      app_cmd_buf = replicate 64 0, usb_ctrl = 0, uep4_1_mod = 0, uep0_ctrl = 0, uep1_ctrl = 0,
      uep4_ctrl = 0, uep0_t_len = 0, uep1_t_len = 0, usb_dev_ad = 0, usb_int_fg = 0, usb_int_en = 0,
      udev_ctrl = 0, pin_analog_ie = 0, usb_irq_on = False\<rparr>"

lemma usb_reset_state_wf: "usb_wf usb_reset_state"
  by (simp add: usb_wf_def usb_reset_state_def MySerInfo_init_def)

theorem usb_get_descriptor_witness:
  "\<exists>s1 s2. host_setup (setup_packet 0x80 USB_GET_DESCRIPTOR 0x0200 0 255) usb_reset_state = Some s1 \<and>
    control_read 3 255 s1 = Some (MyCfgDescr, s2)"
proof -
  have "select_descr 0x0200 usb_reset_state = Some (MyCfgDescr, 75)"
    by (simp add: select_descr_def Let_def regs) (simp add: MyCfgDescr_def)
  from usb_get_descriptor [OF usb_reset_state_wf this, of 0 255] show ?thesis
    by (auto simp: MyCfgDescr_def)
qed

text \<open>
  The device address of \<open>SET_ADDRESS\<close> takes effect only with the status stage: the setup packet is
  acknowledged with the old address still in use, and the \<open>IN\<close> transaction that ends the transfer
  installs the low byte of the requested address and keeps the general purpose bit.
\<close>

theorem usb_set_address:
  assumes "usb_wf s" "rt AND 0xE0 = 0"
  shows "\<exists>s1 s2. host_setup (setup_packet rt USB_SET_ADDRESS v i n) s = Some s1 \<and>
    usb_dev_ad s1 = usb_dev_ad s \<and> ep0_in_data s1 = [] \<and> host_in s1 = Some s2 \<and>
    usb_dev_ad s2 = (usb_dev_ad s AND RB_UDA_GP_BIT) OR ucast v \<and>
    uep0_ctrl s2 = UEP_R_RES_ACK OR UEP_T_RES_NAK"
proof -
  let ?t = "setup_state (setup_packet rt USB_SET_ADDRESS v i n) s"
  from assms(1) have l: "length (EP0_Databuf s) = 192" by (simp add: usb_wf_def)
  have "rt AND 0x60 = (rt AND 0xE0) AND 0x60" "rt AND 0x80 = (rt AND 0xE0) AND 0x80"
    by (simp_all add: and.assoc)
  then have rt: "rt AND 0x60 = 0" "rt AND 0x80 = 0" using assms(2) by simp_all
  note t = setup_state_fields [OF refl l, of rt USB_SET_ADDRESS v i n]
  have ad: "usb_dev_ad ?t = usb_dev_ad s" by (simp add: setup_state_def Let_def)
  have v: "(ucast (v AND 0xff) :: u8) = ucast v"
  proof -
    have "v AND 0xff = v AND mask 8" by (simp add: mask_eq_exp_minus_1)
    moreover have "(ucast (v AND mask 8) :: u8) = ucast v"
      by (rule bit_word_eqI) (auto simp: bit_simps)
    ultimately show ?thesis by simp
  qed
  have run: "host_setup (setup_packet rt USB_SET_ADDRESS v i n) s =
      Some (int_fg_clear RB_UIF_TRANSFER (usb_reply rt (?t\<lparr>SetupReqLen := v AND 0xff\<rparr>)))"
    using host_setup_run [OF l, of rt USB_SET_ADDRESS v i n] t rt
    by (simp add: standard_request_def regs)
  show ?thesis
    using run t(2) rt ad v
    by (simp add: usb_reply_out int_fg_clear_def host_in_ep0 ep0_in_def ep0_in_data_def regs)
qed

theorem usb_set_address_witness:
  "\<exists>s1 s2. host_setup (setup_packet 0 USB_SET_ADDRESS 5 0 0) usb_reset_state = Some s1 \<and>
    usb_dev_ad s1 = 0 \<and> host_in s1 = Some s2 \<and> usb_dev_ad s2 = 5"
proof -
  have "(0 :: u8) AND 0xE0 = 0" by simp
  from usb_set_address [OF usb_reset_state_wf this, of 5 0 0] show ?thesis
    by (auto simp: usb_reset_state_def)
qed

text \<open>
  C37: The command mailbox: over any interrupt the buffers keep their sizes, and the mailbox changes in
  two ways only. A packet received in sequence on endpoint 1 is taken when the mailbox is empty, whole,
  and dropped otherwise, so a pending command is never overwritten by the next packet. A request that
  sets the control lines replaces whatever is pending by the power command.
\<close>

theorem usb_mailbox:
  assumes "USB_IRQHandler intsta l s = Some t" "usb_wf s"
    "intsta AND RB_UIS_SETUP_ACT = 0 \<or> intsta AND MASK_UIS_TOKEN = UIS_TOKEN_SETUP"
  shows "usb_wf t \<and>
    (app_cmd_len t = app_cmd_len s \<and> app_cmd_buf t = app_cmd_buf s
     \<or> intsta AND (MASK_UIS_TOKEN OR MASK_UIS_ENDP) = UIS_TOKEN_OUT OR 1 \<and> app_cmd_len s = 0 \<and>
       unat (app_cmd_len t) = min 64 (unat l) \<and>
       take (unat (app_cmd_len t)) (app_cmd_buf t) = take (min 64 (unat l)) (EP1_Databuf s)
     \<or> intsta AND RB_UIS_SETUP_ACT \<noteq> 0 \<and> bRequestType s = 0x21 \<and>
       bRequest s = DEF_SET_CONTROL_LINE_STATE \<and> app_cmd_len t = 3 \<and>
       take 3 (app_cmd_buf t) = [1, CMD_I2C_PWR, EP0_Databuf s ! 2 AND 1])"
proof -
  have keep: ?thesis if "keeps s t"
    using keeps_wf [OF that assms(2)] that by (simp add: keeps_def)
  show ?thesis
  proof (cases "usb_int_fg s AND RB_UIF_TRANSFER = 0")
    case True
    then have "keeps s t" using assms(1)
      by (auto simp: USB_IRQHandler_def Let_def split: if_splits)
    then show ?thesis by (rule keep)
  next
    case False
    show ?thesis
    proof (cases "intsta AND RB_UIS_SETUP_ACT = 0")
      case True
      from assms(1) \<open>usb_int_fg s AND RB_UIF_TRANSFER \<noteq> 0\<close> True consider "t = s" |
          u where "usb_token intsta l s = Some u" "t = int_fg_clear RB_UIF_TRANSFER u"
        by (auto simp: USB_IRQHandler_def Let_def split: if_splits)
      then show ?thesis
      proof cases
        case 1
        then show ?thesis using keep by simp
      next
        case (2 u)
        from usb_token_effect [OF 2(1) assms(2)] show ?thesis
        proof
          assume "keeps s u"
          with 2(2) show ?thesis using keep by simp
        qed (auto simp: 2(2) int_fg_clear_def usb_wf_def)
      qed
    next
      case False
      with assms(3) have "intsta AND MASK_UIS_TOKEN = MASK_UIS_TOKEN" by (simp add: regs)
      with assms(1) False \<open>usb_int_fg s AND RB_UIF_TRANSFER \<noteq> 0\<close> obtain u where
        u: "usb_setup s = Some u" "t = int_fg_clear RB_UIF_TRANSFER u"
        by (auto simp: USB_IRQHandler_def Let_def)
      from usb_setup_effect [OF u(1) assms(2)] show ?thesis
      proof
        assume "keeps s u"
        with u(2) show ?thesis using keep by simp
      qed (use False in \<open>auto simp: u(2) int_fg_clear_def usb_wf_def\<close>)
    qed
  qed
qed

theorem usb_mailbox_witness:
  "\<exists>t. USB_IRQHandler (UIS_TOKEN_OUT OR 1 OR RB_UIS_TOG_OK) 2
      (usb_reset_state\<lparr>usb_int_fg := 2, EP1_Databuf := 0 # 1 # replicate 126 0\<rparr>) = Some t \<and>
    app_cmd_len t = 2 \<and> take 2 (app_cmd_buf t) = [0, 1]"
proof -
  let ?s = "usb_reset_state\<lparr>usb_int_fg := 2, EP1_Databuf := 0 # 1 # replicate 126 0\<rparr>"
  have wf: "usb_wf ?s" using usb_reset_state_wf by (simp add: usb_wf_def)
  have i: "UIS_TOKEN_OUT OR 1 OR RB_UIS_TOG_OK = 0x41" by (simp add: regs)
  obtain t where run: "USB_IRQHandler 0x41 2 ?s = Some t"
    by (simp add: USB_IRQHandler_def usb_token_def regs Let_def)
  have "(0x41 :: u8) AND RB_UIS_SETUP_ACT = 0 \<or> (0x41 :: u8) AND MASK_UIS_TOKEN = UIS_TOKEN_SETUP"
    by (simp add: regs)
  note m = usb_mailbox [OF run wf this]
  have "app_cmd_len t = 2"
    using run by (auto simp: USB_IRQHandler_def usb_token_def regs Let_def DevEP1_OUT_Deal_def
        int_fg_clear_def usb_reset_state_def)
  with m run show ?thesis unfolding i
    by (auto simp: usb_reset_state_def regs)
qed

text \<open>
  Which requests stall: the device answers every setup packet, and it stalls endpoint 0 exactly for
  the standard requests it does not support: an unknown request, an unknown descriptor, or clearing a
  feature of an endpoint it does not have or of an interface. A stalled request changes neither the
  address, the configuration, the data endpoints nor the mailbox.
\<close>

theorem usb_stall_unsupported:
  assumes "usb_wf s"
  shows "\<exists>t. host_setup (setup_packet rt req v i n) s = Some t \<and>
    (uep0_ctrl t AND (MASK_UEP_R_RES OR MASK_UEP_T_RES) = UEP_R_RES_STALL OR UEP_T_RES_STALL \<longleftrightarrow>
      rt AND USB_REQ_TYP_MASK = USB_REQ_TYP_STANDARD \<and> \<not> standard_supported rt req v i s) \<and>
    (rt AND USB_REQ_TYP_MASK = USB_REQ_TYP_STANDARD \<and> \<not> standard_supported rt req v i s \<longrightarrow>
      usb_dev_ad t = usb_dev_ad s \<and> DevConfig t = DevConfig s \<and> uep1_ctrl t = uep1_ctrl s \<and>
      uep4_ctrl t = uep4_ctrl s \<and> app_cmd_len t = app_cmd_len s \<and> app_cmd_buf t = app_cmd_buf s)"
proof -
  let ?t = "setup_state (setup_packet rt req v i n) s"
  from assms have l: "length (EP0_Databuf s) = 192" and
    ser: "length (MySerInfo s) = 14" "MySerInfo s ! 0 = 14" by (simp_all add: usb_wf_def)
  note t = setup_state_fields [OF refl l, of rt req v i n]
    and run = host_setup_run [OF l, of rt req v i n]
  have st: "usb_dev_ad ?t = usb_dev_ad s" "DevConfig ?t = DevConfig s" "uep1_ctrl ?t = uep1_ctrl s"
    "uep4_ctrl ?t = uep4_ctrl s" "app_cmd_len ?t = app_cmd_len s" "app_cmd_buf ?t = app_cmd_buf s"
    by (simp_all add: setup_state_def Let_def)
  have ctrl: "uep0_ctrl (usb_reply rt u) = 0xC0" "uep0_ctrl (usb_stall u) = 0xCF" for u
    by (cases "rt AND 0x80 = 0") (simp_all add: usb_reply_in usb_reply_out usb_stall_def regs)
  show ?thesis
  proof (cases "rt AND USB_REQ_TYP_MASK = USB_REQ_TYP_STANDARD")
    case False
    with run show ?thesis by (simp add: ctrl int_fg_clear_def) (simp add: regs)
  next
    case True
    obtain e u where std: "standard_request ?t = Some (e, u)" and
      e: "e = (\<not> standard_supported rt req v i s)" and
      same: "e \<Longrightarrow> \<exists>x y. u = ?t\<lparr>SetupReqLen := x, EP0_Databuf := y\<rparr>"
      using standard_request_decides [OF l ser] by blast
    have "host_setup (setup_packet rt req v i n) s =
        Some (int_fg_clear RB_UIF_TRANSFER (if e then usb_stall u else usb_reply rt u))"
      using run True std by simp
    moreover have "usb_dev_ad (usb_stall u) = usb_dev_ad s \<and> DevConfig (usb_stall u) = DevConfig s \<and>
        uep1_ctrl (usb_stall u) = uep1_ctrl s \<and> uep4_ctrl (usb_stall u) = uep4_ctrl s \<and>
        app_cmd_len (usb_stall u) = app_cmd_len s \<and> app_cmd_buf (usb_stall u) = app_cmd_buf s" if e
      using same [OF that] st by (auto simp: usb_stall_def)
    ultimately show ?thesis using e True ctrl
      by (auto simp: int_fg_clear_def regs)
  qed
qed

theorem usb_stall_unsupported_witness:
  "\<exists>t. host_setup (setup_packet 0x80 USB_GET_DESCRIPTOR 0x0600 0 10) usb_reset_state = Some t \<and>
    uep0_ctrl t AND 0x0F = 0x0F"
proof -
  have "\<not> standard_supported 0x80 USB_GET_DESCRIPTOR 0x0600 0 usb_reset_state"
    by (simp add: standard_supported_def select_descr_def Let_def regs)
  with usb_stall_unsupported [OF usb_reset_state_wf, of "0x80" USB_GET_DESCRIPTOR "0x0600" 0 10]
  show ?thesis by (auto simp: regs)
qed

text \<open>
  No over-read: whatever sequence of setup packets, tokens, resets and suspends the host produces,
  of any length, the handler never reads past the end of a descriptor, as long as a request that
  carries the code of \<open>GET_DESCRIPTOR\<close> is a standard device-to-host request.
\<close>

theorem usb_no_overread:
  assumes "usb_wf s" "usb_safe s" "list_all event_ok es"
  shows "\<exists>t. usb_run es s = Some t \<and> usb_wf t \<and> usb_safe t"
  using usb_run_safe [OF assms] .

theorem usb_no_overread_witness:
  "\<exists>t. usb_run [Setup 0x80 USB_GET_DESCRIPTOR 0x0100 0 18, Token (UIS_TOKEN_IN OR RB_UIS_TOG_OK) 0,
     Bus_reset, Setup 0x21 DEF_SET_CONTROL_LINE_STATE 1 0 0] usb_reset_state = Some t \<and> usb_safe t"
proof -
  have "usb_safe usb_reset_state" by (simp add: usb_safe_def usb_reset_state_def)
  moreover have "list_all event_ok [Setup 0x80 USB_GET_DESCRIPTOR 0x0100 0 18,
      Token (UIS_TOKEN_IN OR RB_UIS_TOG_OK) 0, Bus_reset, Setup 0x21 DEF_SET_CONTROL_LINE_STATE 1 0 0]"
    by (simp add: regs)
  ultimately show ?thesis using usb_no_overread [OF usb_reset_state_wf] by blast
qed

text \<open>
  The condition is needed: the handler keeps the request code of class and vendor requests too, so
  a class or vendor request for input with that code and a length beyond the 64 bytes of the first
  packet makes the next \<open>IN\<close> token copy from where the last descriptor read stopped, past the
  descriptor's end.
\<close>

theorem usb_vendor_overread:
  assumes "usb_wf s" "rt AND USB_REQ_TYP_MASK \<noteq> USB_REQ_TYP_STANDARD" "rt AND 0x80 \<noteq> 0"
    "64 < unat n" "case pDescr s of None \<Rightarrow> True | Some (d, off) \<Rightarrow> length d < off + min 64 (unat n - 64)"
  shows "usb_run [Setup rt USB_GET_DESCRIPTOR v i n, Token UIS_TOKEN_IN 0] s = None"
proof -
  let ?t = "setup_state (setup_packet rt USB_GET_DESCRIPTOR v i n) s"
  from assms(1) have l: "length (EP0_Databuf s) = 192" by (simp add: usb_wf_def)
  note t = setup_state_fields [OF refl l, of rt USB_GET_DESCRIPTOR v i n]
  have c: "class_request rt ?t = ?t" using t(2) by (simp add: class_request_def regs)
  define u where "u = int_fg_clear RB_UIF_TRANSFER (usb_reply rt ?t)"
  have run: "host_setup (setup_packet rt USB_GET_DESCRIPTOR v i n) s = Some u"
    using host_setup_run [OF l, of rt USB_GET_DESCRIPTOR v i n] assms(2) c by (simp add: u_def)
  have u: "SetupReqCode u = USB_GET_DESCRIPTOR" "pDescr u = pDescr s"
    "SetupReqLen u = n - ucast (usb_chunk n)"
    using t assms(3) by (simp_all add: u_def usb_reply_in int_fg_clear_def)
  have len: "unat (usb_chunk (SetupReqLen u)) = min 64 (unat n - 64)"
    using assms(4) by (simp add: u(3) unat_sub_chunk)
  then have "unat (usb_chunk (SetupReqLen u)) \<noteq> 0" using assms(4) by simp
  then have "usb_chunk (SetupReqLen u) \<noteq> 0" by (metis unat_0)
  then have "descr_load (usb_chunk (SetupReqLen u)) (u\<lparr>usb_int_fg := x\<rparr>) = None" for x
    using assms(5) u(2) len by (auto simp: descr_load_def split: option.splits)
  then have "usb_token UIS_TOKEN_IN 0 (u\<lparr>usb_int_fg := x\<rparr>) = None" for x
    using u(1) by (simp add: usb_token_def ep0_in_def Let_def regs)
  then show ?thesis using run by (simp add: USB_IRQHandler_def Let_def) (simp add: regs)
qed

theorem usb_vendor_overread_witness:
  "usb_run [Setup 0xC0 USB_GET_DESCRIPTOR 0 0 65, Token UIS_TOKEN_IN 0] usb_reset_state = None"
  by (rule usb_vendor_overread [OF usb_reset_state_wf])
     (simp_all add: usb_reset_state_def regs)

end
