(* ===== verification/MainLoop.thy ===== *)
theory MainLoop
  imports UsbDev CmdDecode
begin

text \<open>
  The main program of the CH592 port (\<open>ch592/INA2282USB/src/Main.c\<close>): the sender \<open>USBSendData\<close> and the
  endless loop of \<open>main\<close>, cut at the points where an interrupt may come between two of its statements.
  The components meet here: the command mailbox and endpoint 1 of the USB device, the command
  interpreter, the packing task and the output FIFO. An interrupt inside \<open>cmd_decode\<close>, inside the task
  or inside the sender is not modelled.
\<close>

section \<open>State\<close>

record 'e app =
  usb :: usb_dev
  idev :: "'e dev"
  send_pkt :: blk_tx_pkt_t
  old_send_len :: int

section \<open>The sender\<close>

definition MAX_PACKET_SIZE :: nat where "MAX_PACKET_SIZE = 64"
definition MAX_TX_PACKET_SIZE :: nat where "MAX_TX_PACKET_SIZE = 64"

definition ep1_ack :: "usb_dev \<Rightarrow> usb_dev" where
  "ep1_ack s = s\<lparr>uep1_ctrl := (uep1_ctrl s AND NOT MASK_UEP_T_RES) OR UEP_T_RES_ACK\<rparr>"

definition USBSendData :: "'e app \<Rightarrow> int \<times> 'e app" where
  "USBSendData a =
     (if uep1_ctrl (usb a) AND MASK_UEP_T_RES = UEP_T_RES_ACK then (1, a)
      else
        (let len = unat (app_drv_fifo_length (app_tx_fifo (idev a)))
         in if len \<noteq> 0
            then
              (let len = (if len > MAX_TX_PACKET_SIZE then MAX_TX_PACKET_SIZE else len);
                   (res, fifo, dest, n) =
                     app_drv_fifo_read (Some (app_tx_fifo (idev a)))
                       (drop MAX_PACKET_SIZE (EP1_Databuf (usb a))) (Some (of_nat len));
                   a = a\<lparr>idev := (idev a)\<lparr>app_tx_fifo := the fifo\<rparr>,
                         usb := (usb a)\<lparr>EP1_Databuf :=
                           take MAX_PACKET_SIZE (EP1_Databuf (usb a)) @ dest\<rparr>\<rparr>
               in if res = APP_DRV_FIFO_RESULT_SUCCESS
                  then (0, a\<lparr>old_send_len := int (unat (the n)),
                             usb := ep1_ack ((usb a)\<lparr>uep1_t_len := ucast (the n)\<rparr>)\<rparr>)
                  else (0, a))
            else if old_send_len a = int MAX_TX_PACKET_SIZE
            then (0, a\<lparr>old_send_len := 0, usb := ep1_ack ((usb a)\<lparr>uep1_t_len := 0\<rparr>)\<rparr>)
            else (0, a)))"

section \<open>The loop\<close>

text \<open>The body of \<open>if(app_cmd_len)\<close> up to the final \<open>app_cmd_len = 0\<close>, which is a step of its own.\<close>

definition main_cmd :: "'e flash_ops \<Rightarrow> hw_env \<Rightarrow> 'e app \<Rightarrow> 'e app option" where
  "main_cmd ops env a =
     (if app_cmd_len (usb a) > 1
      then do {
        (len, p, d) \<leftarrow> cmd_decode ops env (send_pkt a) (app_cmd_buf (usb a)) (idev a);
        let a = a\<lparr>send_pkt := p, idev := d\<rparr>;
        Some (if len \<noteq> 0
              then (let (res, fifo, _) =
                       app_drv_fifo_write (Some (app_tx_fifo d)) (Some (tx_pkt_bytes p)) (Some (ucast len))
                    in a\<lparr>idev := d\<lparr>app_tx_fifo := the fifo\<rparr>\<rparr>)
              else a)
      }
      else Some a)"

definition main_clear :: "'e app \<Rightarrow> 'e app" where
  "main_clear a = a\<lparr>usb := (usb a)\<lparr>app_cmd_len := 0\<rparr>\<rparr>"

definition main_task :: "'e app \<Rightarrow> 'e app" where
  "main_task a = a\<lparr>idev := I2CDevTask (idev a)\<rparr>"

text \<open>The place in the loop: at the test of \<open>app_cmd_len\<close>, before its reset, before each call.\<close>

datatype main_pc = At_cmd | At_clear | At_task | At_send

definition main_step :: "'e flash_ops \<Rightarrow> hw_env \<Rightarrow> main_pc \<times> 'e app \<Rightarrow> (main_pc \<times> 'e app) option" where
  "main_step ops env s =
     (case s of
        (At_cmd, a) \<Rightarrow>
          (if app_cmd_len (usb a) \<noteq> 0 then map_option (Pair At_clear) (main_cmd ops env a)
           else Some (At_task, a))
      | (At_clear, a) \<Rightarrow> Some (At_task, main_clear a)
      | (At_task, a) \<Rightarrow> Some (At_send, main_task a)
      | (At_send, a) \<Rightarrow> Some (At_cmd, snd (USBSendData a)))"

text \<open>Start-up: the calls of \<open>main\<close> before the loop that touch the modelled state.\<close>

definition APP_TX_BUFFER_LENGTH :: u16 where "APP_TX_BUFFER_LENGTH = 2048"

definition main_init :: "'e flash_ops \<Rightarrow> u8 list \<Rightarrow> u8 list \<Rightarrow> 'e app \<Rightarrow> 'e app" where
  "main_init ops rom_info app_tx_buffer a =
     (let (res, fifo) = app_drv_fifo_init (app_tx_fifo (idev a)) app_tx_buffer APP_TX_BUFFER_LENGTH;
          d = I2CDevInit ops ((idev a)\<lparr>app_tx_fifo := fifo\<rparr>)
      in a\<lparr>idev := d, usb := app_usb_init rom_info (usb a)\<rparr>)"

section \<open>Endpoint 1 towards the host\<close>

text \<open>The packet that waits on the endpoint, if one does.\<close>

definition ep1_busy :: "usb_dev \<Rightarrow> bool" where
  "ep1_busy s \<longleftrightarrow> uep1_ctrl s AND MASK_UEP_T_RES = UEP_T_RES_ACK"

definition flight :: "usb_dev \<Rightarrow> u8 list" where
  "flight s = (if ep1_busy s then take (unat (uep1_t_len s)) (drop 64 (EP1_Databuf s)) else [])"

lemma ack_bits: "((c AND NOT MASK_UEP_T_RES) OR UEP_T_RES_ACK) AND MASK_UEP_T_RES = UEP_T_RES_ACK"
  unfolding regs by (rule bit_eqI) (auto simp: bit_simps)

lemma nak_bits: "((c AND NOT MASK_UEP_T_RES) OR UEP_T_RES_NAK) AND MASK_UEP_T_RES \<noteq> UEP_T_RES_ACK"
proof -
  have "bit (((c AND NOT MASK_UEP_T_RES) OR UEP_T_RES_NAK) AND MASK_UEP_T_RES) 1"
    by (simp add: regs bit_simps)
  then show ?thesis by (metis UEP_T_RES_ACK_def bit_0_eq bot_apply bot_bool_def)
qed

lemma ep1_busy_ack [simp]: "ep1_busy (ep1_ack s)"
  using ack_bits by (simp add: ep1_busy_def ep1_ack_def)

lemma ep1_ack_simps [simp]:
  "EP1_Databuf (ep1_ack s) = EP1_Databuf s" "uep1_t_len (ep1_ack s) = uep1_t_len s"
  "keeps s (ep1_ack t) = keeps s t" "usb_safe (ep1_ack s) = usb_safe s" "usb_wf (ep1_ack s) = usb_wf s"
  by (simp_all add: ep1_ack_def usb_safe_def usb_wf_def)

lemma send_busy: "ep1_busy (usb a) \<Longrightarrow> USBSendData a = (1, a)"
  by (simp add: USBSendData_def ep1_busy_def)

lemma send_empty:
  assumes "\<not> ep1_busy (usb a)" "fifo_bytes (app_tx_fifo (idev a)) = []"
  shows "USBSendData a = (0, if old_send_len a = 64
    then a\<lparr>old_send_len := 0, usb := ep1_ack ((usb a)\<lparr>uep1_t_len := 0\<rparr>)\<rparr> else a)"
proof -
  have "fifo_length (app_tx_fifo (idev a)) = 0"
    using assms(2) by (metis length_0_conv length_fifo_bytes unat_eq_zero)
  with assms(1) show ?thesis
    by (simp add: USBSendData_def ep1_busy_def app_drv_fifo_length_def MAX_TX_PACKET_SIZE_def)
qed

lemma send_packet:
  assumes "\<not> ep1_busy (usb a)" "fifo_bytes (app_tx_fifo (idev a)) \<noteq> []" "fifo_wf (app_tx_fifo (idev a))"
    "length (EP1_Databuf (usb a)) = 128"
  defines "q \<equiv> fifo_bytes (app_tx_fifo (idev a))"
  shows "\<exists>g buf. USBSendData a = (0, a\<lparr>idev := (idev a)\<lparr>app_tx_fifo := g\<rparr>,
        old_send_len := int (min 64 (length q)),
        usb := ep1_ack ((usb a)\<lparr>EP1_Databuf := buf, uep1_t_len := of_nat (min 64 (length q))\<rparr>)\<rparr>) \<and>
      fifo_wf g \<and> fsize g = fsize (app_tx_fifo (idev a)) \<and> fifo_bytes g = drop (min 64 (length q)) q \<and>
      length buf = 128 \<and> take 64 buf = take 64 (EP1_Databuf (usb a)) \<and>
      take (min 64 (length q)) (drop 64 buf) = take (min 64 (length q)) q"
proof -
  let ?f = "app_tx_fifo (idev a)"
  define n where "n = min 64 (length q)"
  have len: "unat (fifo_length ?f) = length q" by (simp add: q_def)
  have nz: "length q \<noteq> 0" using assms(2) by (simp add: q_def del: length_fifo_bytes)
  have n16: "unat (of_nat n :: u16) = n" by (simp add: n_def unat_of_nat_small)
  have le: "unat (of_nat n :: u16) \<le> length (drop 64 (EP1_Databuf (usb a)))"
    unfolding n16 using assms(4) by (simp add: n_def)
  obtain g k where r: "app_drv_fifo_read (Some ?f) (drop 64 (EP1_Databuf (usb a))) (Some (of_nat n)) =
      (APP_DRV_FIFO_RESULT_SUCCESS, Some g, take (unat k) q @ drop (unat k) (drop 64 (EP1_Databuf (usb a))),
       Some k)" and k: "unat k = min n (length q)" and
    g: "fifo_wf g" "fsize g = fsize ?f" "fifo_bytes g = drop (unat k) q"
    using drv_read_spec [OF assms(3) le] assms(2) unfolding n16 q_def [symmetric] by auto
  have kn: "unat k = n" using k by (simp add: n_def)
  have k8: "(ucast k :: u8) = of_nat n" unfolding kn [symmetric] by simp
  have ki: "uint k = int n" unfolding kn [symmetric] by simp
  define buf where "buf = take 64 (EP1_Databuf (usb a)) @ take n q @ drop n (drop 64 (EP1_Databuf (usb a)))"
  have "(if length q > MAX_TX_PACKET_SIZE then MAX_TX_PACKET_SIZE else length q) = n"
    by (simp add: n_def MAX_TX_PACKET_SIZE_def)
  then have "USBSendData a = (0, a\<lparr>idev := (idev a)\<lparr>app_tx_fifo := g\<rparr>, old_send_len := int n,
        usb := ep1_ack ((usb a)\<lparr>EP1_Databuf := buf, uep1_t_len := of_nat n\<rparr>)\<rparr>)"
    using assms(1) nz len r kn k8 ki
    by (simp add: USBSendData_def ep1_busy_def app_drv_fifo_length_def MAX_PACKET_SIZE_def Let_def buf_def)
  moreover have "length buf = 128" "take 64 buf = take 64 (EP1_Databuf (usb a))"
    "take n (drop 64 buf) = take n q"
    using assms(4) by (simp_all add: buf_def n_def)
  ultimately show ?thesis using g(1,2) g(3) [unfolded kn] unfolding n_def by blast
qed

section \<open>The command step keeps the device well-formed\<close>

lemma dev_wf_same:
  assumes "dev_wf d" "cfg_i2c d' = cfg_i2c d" "raddr d' = raddr d" "i2c_buf d' = i2c_buf d"
    "blk_data d' = blk_data d" "app_tx_fifo d' = app_tx_fifo d" "i2c_rd_24bit d' = i2c_rd_24bit d"
  shows "dev_wf d' \<and> app_tx_fifo d' = app_tx_fifo d"
  using assms by (simp add: dev_wf_def sample_size_def)

lemma start_dev_wf:
  assumes "I2CDevStart env e = Some (ret, d')" "dev_wf d" "i2c_cfg_wf (cfg_i2c e)" "raddr e = raddr d"
    "i2c_buf e = i2c_buf d" "blk_data e = blk_data d" "app_tx_fifo e = app_tx_fifo d"
  shows "dev_wf d' \<and> app_tx_fifo d' = app_tx_fifo d"
  using dev_wf_start [OF assms(1)] start_spec [OF assms(1)] assms(2-) by (auto simp: dev_wf_def)

lemma ina228_setup_frame:
  "i2c_cfg_wf (cfg_i2c d) \<Longrightarrow> i2c_cfg_wf (cfg_i2c (ina228_setup cfg d)) \<and> raddr (ina228_setup cfg d) = raddr d \<and>
   i2c_buf (ina228_setup cfg d) = i2c_buf d \<and> blk_data (ina228_setup cfg d) = blk_data d \<and>
   app_tx_fifo (ina228_setup cfg d) = app_tx_fifo d"
  by (simp add: ina228_setup_def Let_def i2c_cfg_wf_def split: prod.split)

lemma write_settings_frame:
  "dev_wf d \<Longrightarrow> dev_wf (snd (I2CDevWriteSetings ops d)) \<and>
   app_tx_fifo (snd (I2CDevWriteSetings ops d)) = app_tx_fifo d"
  by (auto simp: I2CDevWriteSetings_def Let_def dev_wf_def i2c_cfg_wf_def sample_size_def
      split: prod.split)

lemma sleep_dev_wf:
  assumes "I2CDevSleep env e = Some d'" "dev_wf d" "i2c_cfg_wf (cfg_i2c e)" "raddr e = raddr d"
    "i2c_buf e = i2c_buf d" "blk_data e = blk_data d" "app_tx_fifo e = app_tx_fifo d"
  shows "dev_wf d' \<and> app_tx_fifo d' = app_tx_fifo d"
  using sleep_spec [OF assms(1)] assms(2-) by (auto simp: dev_wf_def i2c_cfg_wf_def)

lemma wake_dev_wf:
  assumes "I2CDevWakeUp env e = Some d'" "dev_wf d" "i2c_cfg_wf (cfg_i2c e)" "raddr e = raddr d"
    "i2c_buf e = i2c_buf d" "blk_data e = blk_data d" "app_tx_fifo e = app_tx_fifo d"
  shows "dev_wf d' \<and> app_tx_fifo d' = app_tx_fifo d"
proof -
  obtain ret f where "I2CDevStart env f = Some (ret, d')" "cfg_i2c f = cfg_i2c e\<lparr>pktcnt := 0\<rparr>"
    "i2c_buf f = i2c_buf e" "app_tx_fifo f = app_tx_fifo e" "raddr f = raddr e" "blk_data f = blk_data e"
    using wake_spec [OF assms(1)] by blast
  with assms show ?thesis by (intro start_dev_wf [of env f ret d' d]) (auto simp: i2c_cfg_wf_def)
qed

lemma cmd_pwr_dev_wf:
  assumes "cmd_pwr env buf p d = Some (n, p', d')" "dev_wf d"
  shows "dev_wf d' \<and> app_tx_fifo d' = app_tx_fifo d"
proof -
  let ?e = "d\<lparr>pb_out := pb_out d AND I2C_DEV_POWER\<rparr>"
  have c: "i2c_cfg_wf (cfg_i2c d)" using assms(2) by (simp add: dev_wf_def)
  consider "rx_size buf = 0" "d' = d"
    | "I2CDevWakeUp env d = Some d'"
    | "I2CDevSleep env ?e = Some d'"
    | f where "I2CDevWakeUp env ?e = Some f" "I2CDevSleep env f = Some d'"
    using assms(1) unfolding cmd_pwr_def Let_def
    by (auto simp only: bind_eq_Some_conv option.inject prod.inject split: if_splits)
  then show ?thesis
  proof cases
    case 1
    then show ?thesis using assms(2) by simp
  next
    case 2
    then show ?thesis using assms(2) c by (rule wake_dev_wf) simp_all
  next
    case 3
    then show ?thesis using assms(2) by (rule sleep_dev_wf) (simp_all add: c)
  next
    case 4
    have w: "dev_wf f \<and> app_tx_fifo f = app_tx_fifo d"
      using 4(1) assms(2) by (rule wake_dev_wf) (simp_all add: c)
    then have f: "dev_wf f" ..
    have "dev_wf d' \<and> app_tx_fifo d' = app_tx_fifo f"
      by (rule sleep_dev_wf [OF 4(2) f]) (use f in \<open>simp_all add: dev_wf_def\<close>)
    with w show ?thesis by simp
  qed
qed

lemma cmd_ecad_dev_wf:
  assumes "cmd_ecad env buf p d = Some (n, p', d')" "dev_wf d"
  shows "dev_wf d' \<and> app_tx_fifo d' = app_tx_fifo d"
proof (cases "rx_size buf = 0")
  case True
  then show ?thesis using assms by (simp add: cmd_ecad_def)
next
  case False
  have c: "i2c_cfg_wf (cfg_i2c d)" using assms(2) by (simp add: dev_wf_def)
  define x where "x = ina228_cfg_memcpy (cfg_ina228 d) (rx_data buf)
    (if rx_size buf > 5 then 5 else unat (rx_size buf))"
  obtain ret where "(if rx_data buf ! 0 \<noteq> 0
      then ina228_start env (cfg_ina228 (d\<lparr>cfg_ina228 := x\<rparr>)) (d\<lparr>cfg_ina228 := x\<rparr>)
      else ina228_stop env (d\<lparr>cfg_ina228 := x\<rparr>)) = Some (ret, d')"
    using False assms(1) unfolding x_def by (auto simp: cmd_ecad_def Let_def bind_eq_Some_conv)
  then consider "I2CDevStart env (ina228_setup x (d\<lparr>cfg_ina228 := x\<rparr>)) = Some (ret, d')"
    | "I2CDevStart env (set_pktcnt 0 (d\<lparr>cfg_ina228 := x\<rparr>)) = Some (ret, d')"
    by (auto simp: ina228_start_def ina228_stop_def split: if_splits)
  then show ?thesis
  proof cases
    case 1
    then show ?thesis using assms(2)
      by (rule start_dev_wf) (use c in \<open>simp_all add: ina228_setup_frame\<close>)
  next
    case 2
    then show ?thesis using assms(2)
      by (rule start_dev_wf) (use c in \<open>simp_all add: set_pktcnt_def i2c_cfg_wf_def\<close>)
  qed
qed

lemma cmd_switch_dev_wf:
  assumes "cmd_switch ops env buf p d = Some (n, p', d')" "dev_wf d" "tx_pkt_wf p"
    "4 \<le> length (rx_data buf)"
  shows "dev_wf d' \<and> app_tx_fifo d' = app_tx_fifo d"
proof -
  have c: "i2c_cfg_wf (cfg_i2c d)" using assms(2) by (simp add: dev_wf_def)
  consider "d' = d" | "cmd_cfg env buf p d = Some (n, p', d')" | "cmd_scf ops buf p d = Some (n, p', d')"
    | "cmd_ecad env buf p d = Some (n, p', d')" | "cmd_grg env buf p d = Some (n, p', d')"
    | "cmd_srg env buf p d = Some (n, p', d')" | "cmd_pwr env buf p d = Some (n, p', d')"
    using assms(1) unfolding cmd_switch_def
    by (auto simp: cmd_ver_def cmd_sta_def cmd_error_def split: if_splits)
  then show ?thesis
  proof cases
    case 2
    show ?thesis
    proof (cases "rx_size buf = 0")
      case True
      with cmd_cfg_spec [OF 2 assms(3) refl c] assms(2) show ?thesis by simp
    next
      case False
      with cmd_cfg_spec [OF 2 assms(3) refl c] obtain ret where "I2CDevStart env (d\<lparr>timer_flg := 0,
         cfg_i2c := i2c_cfg_memcpy (cfg_i2c d) (rx_data buf) (min 38 (unat (rx_size buf)))\<rparr>) =
         Some (ret, d')" by auto
      then show ?thesis using assms(2) by (rule start_dev_wf) simp_all
    qed
  next
    case 3
    with write_settings_frame [OF assms(2), of ops] assms(2) show ?thesis
      by (auto simp: cmd_scf_def cmd_error_def Let_def split: if_splits prod.splits)
  next
    case 4
    then show ?thesis using assms(2) by (rule cmd_ecad_dev_wf)
  next
    case 5
    with cmd_grg_spec [OF 5 assms(3) refl assms(4)] assms(2) show ?thesis
      by (auto simp: dev_wf_def sample_size_def)
  next
    case 6
    with cmd_srg_spec [OF 6 assms(3) refl assms(4)] assms(2) show ?thesis
      by (auto simp: dev_wf_def sample_size_def)
  next
    case 7
    then show ?thesis using assms(2) by (rule cmd_pwr_dev_wf)
  qed (use assms(2) in simp)
qed

text \<open>A command leaves the output FIFO alone and fills a whole reply packet.\<close>

lemma cmd_decode_frame:
  assumes "cmd_decode ops env p buf d = Some (n, p', d')" "dev_wf d" "tx_pkt_wf p" "length buf = 64"
  shows "dev_wf d' \<and> app_tx_fifo d' = app_tx_fifo d \<and> tx_pkt_wf p' \<and> n \<in> {0, 2, 3, 6, 7, 10, 40} \<and>
    tx_size p' = ucast (n - 2)"
proof -
  let ?p = "p\<lparr>tx_cmd := rx_cmd buf\<rparr>"
  obtain p1 where sw: "cmd_switch ops env buf ?p d = Some (n, p1, d')" and
    p': "p' = p1\<lparr>tx_size := ucast (n - 2)\<rparr>"
    using assms(1) by (auto simp: cmd_decode_def bind_eq_Some_conv)
  have rx: "4 \<le> length (rx_data buf)" using assms(4) by (simp add: rx_data_def)
  have p: "tx_pkt_wf ?p" "tx_cmd ?p = rx_cmd buf" using assms(3) by simp_all
  have c: "i2c_cfg_wf (cfg_i2c d)" using assms(2) by (simp add: dev_wf_def)
  from cmd_reply_ok [OF sw p c rx] have "tx_pkt_wf p1" "n \<in> {0, 2, 3, 6, 7, 10, 40}"
    unfolding reply_ok_def by blast+
  with cmd_switch_dev_wf [OF sw assms(2) p(1) rx] p' show ?thesis by simp
qed

section \<open>What the other interrupts leave of endpoint 1\<close>

definition ep1_same :: "usb_dev \<Rightarrow> usb_dev \<Rightarrow> bool" where
  "ep1_same s t \<longleftrightarrow> uep1_ctrl t = uep1_ctrl s \<and> uep1_t_len t = uep1_t_len s \<and>
     EP1_Databuf t = EP1_Databuf s"

lemma ep1_same_refl [simp]: "ep1_same s s" by (simp add: ep1_same_def)

lemma ep1_same_flight: "ep1_same s t \<Longrightarrow> flight t = flight s \<and> ep1_busy t = ep1_busy s"
  by (simp add: ep1_same_def flight_def ep1_busy_def)

lemma ep1_same_ep0_in: "ep0_in s = Some t \<Longrightarrow> ep1_same s t"
  by (auto simp: ep0_in_def descr_load_def ep1_same_def Let_def bind_eq_Some_conv
      split: if_splits option.splits prod.splits)

lemma ep1_same_get_descriptor:
  assumes "get_descriptor s = Some (e, t)"
  shows "ep1_same s t"
proof -
  define u where "u = (case select_descr (wValue s) s of
      Some (d, l) \<Rightarrow> (False, l, s\<lparr>pDescr := Some (d, 0)\<rparr>) | None \<Rightarrow> (True, 0, s))"
  obtain e' l s1 where u: "u = (e', l, s1)" by (cases u)
  then have "ep1_same s s1" by (auto simp: u_def ep1_same_def split: option.splits)
  moreover define s2 where "s2 = (if SetupReqLen s1 > ucast l then s1\<lparr>SetupReqLen := ucast l\<rparr> else s1)"
  then have "ep1_same s1 s2" by (simp add: ep1_same_def)
  moreover have "descr_load (usb_chunk (SetupReqLen s2)) s2 = Some t"
    using assms u by (auto simp: get_descriptor_def u_def [symmetric] s2_def [symmetric] Let_def bind_eq_Some_conv)
  then have "ep1_same s2 t"
    by (auto simp: descr_load_def ep1_same_def split: if_splits option.splits prod.splits)
  ultimately show ?thesis by (simp add: ep1_same_def)
qed

lemma ep1_same_standard:
  "standard_request s = Some (e, t) \<Longrightarrow> SetupReqCode s \<noteq> USB_CLEAR_FEATURE \<Longrightarrow> ep1_same s t"
  using ep1_same_get_descriptor [of s e t]
  by (auto simp: standard_request_def ep1_same_def split: if_splits)

lemma ep1_same_setup:
  assumes "usb_setup s = Some t"
    "\<not> (bRequestType s AND USB_REQ_TYP_MASK = USB_REQ_TYP_STANDARD \<and> bRequest s = USB_CLEAR_FEATURE)"
  shows "ep1_same s t"
proof -
  let ?s = "s\<lparr>SetupReqLen := wLength s, SetupReqCode := bRequest s,
                 uep0_ctrl := RB_UEP_R_TOG OR RB_UEP_T_TOG OR UEP_R_RES_ACK OR UEP_T_RES_NAK\<rparr>"
  obtain e u where u: "(if bRequestType s AND USB_REQ_TYP_MASK \<noteq> USB_REQ_TYP_STANDARD
          then Some (False, class_request (bRequestType s) ?s) else standard_request ?s) = Some (e, u)"
    and t: "t = (if e then usb_stall u else usb_reply (bRequestType s) u)"
    using assms(1) by (auto simp: usb_setup_def Let_def bind_eq_Some_conv)
  have "ep1_same ?s u"
  proof (cases "bRequestType s AND USB_REQ_TYP_MASK = USB_REQ_TYP_STANDARD")
    case True
    then have "standard_request ?s = Some (e, u)" using u by simp
    then show ?thesis by (rule ep1_same_standard) (use assms(2) True in simp)
  next
    case False
    then show ?thesis using u by (auto simp: class_request_def ep1_same_def split: if_splits)
  qed
  moreover have "ep1_same u t"
    unfolding t by (simp add: usb_stall_def usb_reply_def ep1_same_def Let_def)
  ultimately show ?thesis by (simp add: ep1_same_def)
qed

text \<open>
  The events that do not serve endpoint 1: every setup request but \<open>CLEAR_FEATURE\<close>, the tokens of the
  other endpoints, and a suspend. (A bus reset and \<open>CLEAR_FEATURE\<close> discard the waiting packet.)
\<close>

fun ep1_quiet :: "usb_event \<Rightarrow> bool" where
  "ep1_quiet (Setup rt req v i n) \<longleftrightarrow>
     \<not> (rt AND USB_REQ_TYP_MASK = USB_REQ_TYP_STANDARD \<and> req = USB_CLEAR_FEATURE)"
| "ep1_quiet (Token intsta l) \<longleftrightarrow>
     intsta AND (MASK_UIS_TOKEN OR MASK_UIS_ENDP) \<notin> {UIS_TOKEN_IN OR 1, UIS_TOKEN_OUT OR 1}"
| "ep1_quiet Bus_reset \<longleftrightarrow> False"
| "ep1_quiet Bus_suspend \<longleftrightarrow> True"

lemma ep1_same_token:
  assumes "usb_token intsta l s = Some t" "ep1_quiet (Token intsta l)"
  shows "ep1_same s t"
proof (cases "intsta AND (MASK_UIS_TOKEN OR MASK_UIS_ENDP) = UIS_TOKEN_IN")
  case True
  then have "usb_token intsta l s = ep0_in s" by (simp add: usb_token_def regs)
  with assms(1) show ?thesis by (simp add: ep1_same_ep0_in)
next
  case False
  then show ?thesis using assms
    by (auto simp: usb_token_def DevEP4_OUT_Deal_def ep1_same_def Let_def split: if_splits)
qed

lemma usb_step_ep1:
  assumes "usb_step e s = Some t" "ep1_quiet e" "event_ok e" "usb_wf s"
  shows "ep1_same s t"
proof (cases e)
  case (Setup rt req v i n)
  let ?p = "s\<lparr>EP0_Databuf := splice_at (EP0_Databuf s) 0 (setup_packet rt req v i n),
          usb_int_fg := usb_int_fg s OR RB_UIF_TRANSFER\<rparr>"
  obtain u where u: "usb_setup ?p = Some u" "t = int_fg_clear RB_UIF_TRANSFER u"
    using assms(1) Setup by (auto simp: host_setup_eq)
  have "bRequestType ?p = rt" "bRequest ?p = req"
    using setup_packet_fields [OF refl, of "EP0_Databuf s" rt req v i n] assms(4)
    by (simp_all add: bRequestType_def bRequest_def usb_wf_def)
  then have "ep1_same ?p u" using ep1_same_setup [OF u(1)] assms(2) Setup by simp
  with u(2) show ?thesis by (simp add: ep1_same_def int_fg_clear_def)
next
  case (Token intsta l)
  then have "intsta AND RB_UIS_SETUP_ACT = 0" using assms(3) by simp
  with assms(1) Token ep1_same_token [of intsta l "s\<lparr>usb_int_fg := RB_UIF_TRANSFER\<rparr>"] assms(2) show ?thesis
    by (auto simp: USB_IRQHandler_def RB_UIF_TRANSFER_def ep1_same_def int_fg_clear_def
        split: if_splits)
next
  case Bus_suspend
  with assms(1) show ?thesis
    by (auto simp: USB_IRQHandler_def regs ep1_same_def int_fg_clear_def)
qed (use assms(2) in simp)

section \<open>Endpoint 1 transactions\<close>

text \<open>
  The host reads endpoint 1: it gets the waiting packet, and the interrupt makes the endpoint idle. The
  host writes a packet to endpoint 1: the hardware stores it in the first half of the buffer.
\<close>

definition ep1_in_event :: usb_event where
  "ep1_in_event = Token (UIS_TOKEN_IN OR 1 OR RB_UIS_TOG_OK) 0"

definition ep1_out_event :: "nat \<Rightarrow> usb_event" where
  "ep1_out_event n = Token (UIS_TOKEN_OUT OR 1 OR RB_UIS_TOG_OK) (of_nat n)"

definition ep1_receive :: "u8 list \<Rightarrow> usb_dev \<Rightarrow> usb_dev" where
  "ep1_receive bs s = s\<lparr>EP1_Databuf := splice_at (EP1_Databuf s) 0 bs\<rparr>"

lemma ep1_in_step:
  "\<exists>t. usb_step ep1_in_event s = Some t \<and> \<not> ep1_busy t \<and> keeps s t \<and> usb_safe t = usb_safe s \<and>
     EP1_Databuf t = EP1_Databuf s"
proof -
  let ?s = "s\<lparr>usb_int_fg := RB_UIF_TRANSFER\<rparr>"
  let ?c = "(uep1_ctrl s AND NOT MASK_UEP_T_RES) OR UEP_T_RES_NAK"
  let ?t = "int_fg_clear RB_UIF_TRANSFER (?s\<lparr>uep1_ctrl := ?c\<rparr>)"
  have "usb_token (UIS_TOKEN_IN OR 1 OR RB_UIS_TOG_OK) 0 ?s = Some (?s\<lparr>uep1_ctrl := ?c\<rparr>)"
  proof -
    have "(UIS_TOKEN_IN OR 1 OR RB_UIS_TOG_OK) AND (MASK_UIS_TOKEN OR MASK_UIS_ENDP) = UIS_TOKEN_IN OR 1"
      by (simp add: UIS_TOKEN_IN_def RB_UIS_TOG_OK_def MASK_UIS_TOKEN_def MASK_UIS_ENDP_def)
    then show ?thesis unfolding usb_token_def Let_def by (simp only: if_True refl) simp
  qed
  then have "usb_step ep1_in_event s = Some ?t"
    by (simp add: ep1_in_event_def USB_IRQHandler_def Let_def)
       (simp add: RB_UIF_TRANSFER_def MASK_UIS_TOKEN_def UIS_TOKEN_IN_def
          RB_UIS_TOG_OK_def RB_UIS_SETUP_ACT_def)
  moreover have "\<not> ep1_busy ?t" using nak_bits by (simp add: ep1_busy_def int_fg_clear_def)
  moreover have "usb_safe ?t = usb_safe s" by (rule usb_safe_same) (simp_all add: int_fg_clear_def)
  moreover have "EP1_Databuf ?t = EP1_Databuf s" by (simp add: int_fg_clear_def)
  moreover have "keeps s ?t" by (simp add: keeps_def int_fg_clear_def)
  ultimately show ?thesis by blast
qed

lemma ep1_out_step:
  assumes "usb_wf s" "length bs \<le> 64"
  shows "\<exists>t. usb_step (ep1_out_event (length bs)) (ep1_receive bs s) = Some t \<and> usb_wf t \<and>
    usb_safe t = usb_safe s \<and> flight t = flight s \<and> ep1_busy t = ep1_busy s"
proof -
  let ?s = "(ep1_receive bs s)\<lparr>usb_int_fg := RB_UIF_TRANSFER\<rparr>"
  have wf: "usb_wf ?s" using assms by (simp add: usb_wf_def ep1_receive_def)
  define t where "t = int_fg_clear RB_UIF_TRANSFER (DevEP1_OUT_Deal (of_nat (length bs)) ?s)"
  have "usb_token (UIS_TOKEN_OUT OR 1 OR RB_UIS_TOG_OK) (of_nat (length bs)) ?s =
      Some (DevEP1_OUT_Deal (of_nat (length bs)) ?s)"
    by (simp add: usb_token_def Let_def) (simp add: regs)
  note eff = usb_token_effect [OF this wf]
  have "usb_step (ep1_out_event (length bs)) (ep1_receive bs s) = Some t"
    using \<open>usb_token _ _ _ = _\<close>
    by (simp add: ep1_out_event_def USB_IRQHandler_def t_def Let_def)
       (simp add: RB_UIF_TRANSFER_def MASK_UIS_TOKEN_def UIS_TOKEN_OUT_def
          RB_UIS_TOG_OK_def RB_UIS_SETUP_ACT_def)
  moreover have "usb_wf t"
    using eff keeps_wf [OF _ wf] by (auto simp: t_def int_fg_clear_def usb_wf_def)
  moreover have "usb_safe t = usb_safe s"
    by (rule usb_safe_same) (simp_all add: t_def int_fg_clear_def DevEP1_OUT_Deal_def ep1_receive_def Let_def)
  moreover have same: "uep1_ctrl t = uep1_ctrl s" "uep1_t_len t = uep1_t_len s"
    "EP1_Databuf t = splice_at (EP1_Databuf s) 0 bs"
    by (simp_all add: t_def int_fg_clear_def DevEP1_OUT_Deal_def ep1_receive_def Let_def)
  moreover have "drop 64 (EP1_Databuf t) = drop 64 (EP1_Databuf s)"
    using assms(2) by (simp add: same splice_at_def)
  ultimately show ?thesis by (intro exI [of _ t]) (simp add: flight_def ep1_busy_def)
qed

section \<open>The program among its interrupts\<close>

text \<open>
  \<open>enqueued\<close> is the frame the FIFO accepts, if it has room for the whole of it.
\<close>

definition tx_bytes :: "'e app \<Rightarrow> u8 list" where
  "tx_bytes a = fifo_bytes (app_tx_fifo (idev a))"

definition enqueued :: "'e app \<Rightarrow> u8 list \<Rightarrow> u8 list list" where
  "enqueued a bs = (if length (tx_bytes a) + length bs \<le> unat (fsize (app_tx_fifo (idev a))) then [bs] else [])"

definition cmd_frames :: "'e flash_ops \<Rightarrow> hw_env \<Rightarrow> 'e app \<Rightarrow> u8 list list" where
  "cmd_frames ops env a =
     (if app_cmd_len (usb a) > 1
      then (case cmd_decode ops env (send_pkt a) (app_cmd_buf (usb a)) (idev a) of
              Some (n, p, d) \<Rightarrow> if n \<noteq> 0 then enqueued a (take (unat n) (tx_pkt_bytes p)) else []
            | None \<Rightarrow> [])
      else [])"

definition task_frames :: "'e app \<Rightarrow> u8 list list" where
  "task_frames a =
     (let d = idev a; n = pktcnt (cfg_i2c d)
      in if n \<noteq> 0 \<and> unat n \<le> length (pending d) then enqueued a (packet_of d) else [])"

definition step_frames :: "'e flash_ops \<Rightarrow> hw_env \<Rightarrow> main_pc \<times> 'e app \<Rightarrow> u8 list list" where
  "step_frames ops env s =
     (case s of
        (At_cmd, a) \<Rightarrow> if app_cmd_len (usb a) \<noteq> 0 then cmd_frames ops env a else []
      | (At_task, a) \<Rightarrow> task_frames a
      | _ \<Rightarrow> [])"

text \<open>
  The program, its state and place, with two records of what happened: the frames the FIFO accepted and
  the packets the host took. One step is a statement of the loop, a timer tick, the timer interrupt, a
  USB event that does not serve endpoint 1, or a transaction on endpoint 1.
\<close>

record 'e world =
  app :: "'e app"
  pc :: main_pc
  frames :: "u8 list list"
  got :: "u8 list list"

inductive app_step :: "'e flash_ops \<Rightarrow> 'e world \<Rightarrow> 'e world \<Rightarrow> bool" for ops where
  program: "main_step ops env (pc w, app w) = Some (c, a) \<Longrightarrow>
    app_step ops w (w\<lparr>app := a, pc := c, frames := frames w @ step_frames ops env (pc w, app w)\<rparr>)"
| tick: "app_step ops w (w\<lparr>app := (app w)\<lparr>idev := (idev (app w))\<lparr>tmr_cyc_end := True\<rparr>\<rparr>\<rparr>)"
| timer: "TMR1_IRQHandler env (idev (app w)) = Some d \<Longrightarrow>
    app_step ops w (w\<lparr>app := (app w)\<lparr>idev := d\<rparr>\<rparr>)"
| control: "usb_step e (usb (app w)) = Some u \<Longrightarrow> ep1_quiet e \<Longrightarrow> event_ok e \<Longrightarrow>
    app_step ops w (w\<lparr>app := (app w)\<lparr>usb := u\<rparr>\<rparr>)"
| receive: "length bs \<le> 64 \<Longrightarrow>
    usb_step (ep1_out_event (length bs)) (ep1_receive bs (usb (app w))) = Some u \<Longrightarrow>
    app_step ops w (w\<lparr>app := (app w)\<lparr>usb := u\<rparr>\<rparr>)"
| transmit: "ep1_busy (usb (app w)) \<Longrightarrow> usb_step ep1_in_event (usb (app w)) = Some u \<Longrightarrow>
    app_step ops w (w\<lparr>app := (app w)\<lparr>usb := u\<rparr>, got := got w @ [flight (usb (app w))]\<rparr>)"

definition app_wf :: "'e app \<Rightarrow> bool" where
  "app_wf a \<longleftrightarrow> dev_wf (idev a) \<and> usb_wf (usb a) \<and> usb_safe (usb a) \<and> tx_pkt_wf (send_pkt a)"

definition stream_inv :: "'e world \<Rightarrow> bool" where
  "stream_inv w \<longleftrightarrow> app_wf (app w) \<and> list_all frame_ok (frames w) \<and> list_all (\<lambda>p. length p \<le> 64) (got w) \<and>
     concat (frames w) = concat (got w) @ flight (usb (app w)) @ tx_bytes (app w)"

lemma app_wf_fifo: "app_wf a \<Longrightarrow> fifo_wf (app_tx_fifo (idev a))"
  by (simp add: app_wf_def dev_wf_def)

lemma enqueued_bytes: "concat (enqueued a bs) =
    (if length (tx_bytes a) + length bs \<le> unat (fsize (app_tx_fifo (idev a))) then bs else [])"
  by (simp add: enqueued_def)

lemma enqueued_ok: "frame_ok bs \<Longrightarrow> list_all frame_ok (enqueued a bs)"
  by (simp add: enqueued_def)

lemma frame_ok_reply:
  assumes "tx_pkt_wf p" "n \<in> {2, 3, 6, 7, 10, 40 :: u32}" "tx_size p = ucast (n - 2)"
  shows "frame_ok (take (unat n) (tx_pkt_bytes p))" "unat n \<le> length (tx_pkt_bytes p)"
  using assms by (auto simp: frame_ok_def tx_pkt_bytes_def tx_pkt_wf_def)

lemma frame_ok_packet:
  assumes "dev_wf d" "unat (pktcnt (cfg_i2c d)) \<le> length (pending d)"
  shows "frame_ok (packet_of d)"
proof -
  let ?m = "sample_size d * unat (pktcnt (cfg_i2c d))"
  have "?m \<le> 120" using assms(1) by (simp add: dev_wf_def)
  then have "unat (of_nat ?m :: u8) = ?m" by (intro unat_of_nat_small) simp
  moreover have "length (packet_of d) = 2 + ?m" using assms(2) by (simp add: packet_of_def)
  ultimately show ?thesis by (simp add: frame_ok_def packet_of_def)
qed

lemma main_cmd_spec:
  assumes "main_cmd ops env a = Some a'" "app_wf a"
  shows "app_wf a' \<and> usb a' = usb a \<and> list_all frame_ok (cmd_frames ops env a) \<and>
    tx_bytes a' = tx_bytes a @ concat (cmd_frames ops env a)"
proof (cases "app_cmd_len (usb a) > 1")
  case False
  with assms show ?thesis by (simp add: main_cmd_def cmd_frames_def)
next
  case True
  with assms(1) obtain n p d where cd: "cmd_decode ops env (send_pkt a) (app_cmd_buf (usb a)) (idev a) = Some (n, p, d)"
    and a': "a' = (if n \<noteq> 0
        then (let (res, fifo, _) =
                 app_drv_fifo_write (Some (app_tx_fifo d)) (Some (tx_pkt_bytes p)) (Some (ucast n))
              in a\<lparr>send_pkt := p, idev := d\<lparr>app_tx_fifo := the fifo\<rparr>\<rparr>)
        else a\<lparr>send_pkt := p, idev := d\<rparr>)"
    by (auto simp: main_cmd_def bind_eq_Some_conv Let_def)
  have buf: "length (app_cmd_buf (usb a)) = 64" using assms(2) by (simp add: app_wf_def usb_wf_def)
  have w: "dev_wf (idev a)" "tx_pkt_wf (send_pkt a)" using assms(2) by (simp_all add: app_wf_def)
  from cmd_decode_frame [OF cd w buf] have d: "dev_wf d" "app_tx_fifo d = app_tx_fifo (idev a)" and
    p: "tx_pkt_wf p" "tx_size p = ucast (n - 2)" and n: "n \<in> {0, 2, 3, 6, 7, 10, 40}" by blast+
  have fr: "cmd_frames ops env a = (if n \<noteq> 0 then enqueued a (take (unat n) (tx_pkt_bytes p)) else [])"
    using True cd by (simp add: cmd_frames_def)
  show ?thesis
  proof (cases "n = 0")
    case True
    with a' fr d p assms(2) show ?thesis by (simp add: app_wf_def tx_bytes_def)
  next
    case False
    with n have n': "n \<in> {2, 3, 6, 7, 10, 40}" by blast
    then have b: "unat n < 65536" "0 < unat n" by auto
    have u: "(ucast n :: u16) = of_nat (unat n)" by simp
    note ok = frame_ok_reply [OF p(1) n' p(2)]
    from app_write_spec [OF app_wf_fifo [OF assms(2)] ok(2) b] obtain r g l where
      g: "app_drv_fifo_write (Some (app_tx_fifo (idev a))) (Some (tx_pkt_bytes p)) (Some (ucast n)) = (r, Some g, l)"
      "fifo_wf g" "fifo_bytes g = tx_bytes a @ concat (enqueued a (take (unat n) (tx_pkt_bytes p)))"
      using ok(2) unfolding u enqueued_bytes tx_bytes_def by (auto simp: min_def)
    with a' False d have "a' = a\<lparr>send_pkt := p, idev := d\<lparr>app_tx_fifo := g\<rparr>\<rparr>" by simp
    with g(2,3) d p False fr enqueued_ok [OF ok(1), of a] assms(2) show ?thesis
      by (simp add: app_wf_def tx_bytes_def dev_wf_def sample_size_def)
  qed
qed

lemma main_task_spec:
  assumes "app_wf a"
  shows "app_wf (main_task a) \<and> usb (main_task a) = usb a \<and> list_all frame_ok (task_frames a) \<and>
    tx_bytes (main_task a) = tx_bytes a @ concat (task_frames a)"
proof (cases "pktcnt (cfg_i2c (idev a)) \<noteq> 0 \<and> unat (pktcnt (cfg_i2c (idev a))) \<le> length (pending (idev a))")
  case True
  have w: "dev_wf (idev a)" using assms by (simp add: app_wf_def)
  from task_spec [OF w] True have "dev_wf (I2CDevTask (idev a))"
    "fifo_bytes (app_tx_fifo (I2CDevTask (idev a))) = tx_bytes a @ concat (enqueued a (packet_of (idev a)))"
    unfolding enqueued_bytes tx_bytes_def by (auto split: if_splits)
  moreover have "task_frames a = enqueued a (packet_of (idev a))"
    using True by (simp add: task_frames_def Let_def)
  ultimately show ?thesis using enqueued_ok [OF frame_ok_packet [OF w]] True assms
    by (simp add: main_task_def app_wf_def tx_bytes_def)
next
  case False
  then have "I2CDevTask (idev a) = idev a" by (intro task_idle) auto
  moreover have "task_frames a = []" using False by (auto simp: task_frames_def Let_def)
  ultimately show ?thesis using assms by (simp add: main_task_def)
qed

lemma ep1_len_simps [simp]:
  "usb_wf (s\<lparr>uep1_t_len := x\<rparr>) = usb_wf s" "usb_safe (s\<lparr>uep1_t_len := x\<rparr>) = usb_safe s"
  "usb_safe (s\<lparr>EP1_Databuf := b\<rparr>) = usb_safe s"
  by (simp_all add: usb_wf_def usb_safe_def)

lemma ep1_buf_wf [simp]: "length b = 128 \<Longrightarrow> usb_wf s \<Longrightarrow> usb_wf (s\<lparr>EP1_Databuf := b\<rparr>)"
  by (simp add: usb_wf_def)

lemma flight_idle: "\<not> ep1_busy s \<Longrightarrow> flight s = []"
  by (simp add: flight_def)

lemma flight_packet:
  assumes "n \<le> 64" "take n (drop 64 buf) = xs"
  shows "flight (ep1_ack (s\<lparr>EP1_Databuf := buf, uep1_t_len := of_nat n\<rparr>)) = xs"
proof -
  have "unat (of_nat n :: u8) = n" using assms(1) by (intro unat_of_nat_small) simp
  then show ?thesis using assms(2) by (simp add: flight_def)
qed

lemma main_send_spec:
  assumes "app_wf a"
  shows "app_wf (snd (USBSendData a)) \<and>
    flight (usb (snd (USBSendData a))) @ tx_bytes (snd (USBSendData a)) = flight (usb a) @ tx_bytes a"
proof -
  have w: "fifo_wf (app_tx_fifo (idev a))" "length (EP1_Databuf (usb a)) = 128"
    using assms by (simp_all add: app_wf_def dev_wf_def usb_wf_def)
  consider "ep1_busy (usb a)" | "\<not> ep1_busy (usb a)" "tx_bytes a = []" | "\<not> ep1_busy (usb a)" "tx_bytes a \<noteq> []"
    by blast
  then show ?thesis
  proof cases
    case 1
    with assms show ?thesis by (simp add: send_busy)
  next
    case 2
    from send_empty [OF 2(1)] 2(2) have "snd (USBSendData a) = (if old_send_len a = 64
      then a\<lparr>old_send_len := 0, usb := ep1_ack ((usb a)\<lparr>uep1_t_len := 0\<rparr>)\<rparr> else a)"
      by (simp add: tx_bytes_def)
    moreover have "flight (usb a) = []" using 2(1) by (rule flight_idle)
    ultimately show ?thesis using assms
      by (auto simp: app_wf_def tx_bytes_def flight_def)
  next
    case 3
    let ?q = "tx_bytes a"
    let ?n = "min 64 (length ?q)"
    from send_packet [OF 3(1) _ w] 3(2) obtain g buf where
      s: "USBSendData a = (0, a\<lparr>idev := (idev a)\<lparr>app_tx_fifo := g\<rparr>, old_send_len := int ?n,
        usb := ep1_ack ((usb a)\<lparr>EP1_Databuf := buf, uep1_t_len := of_nat ?n\<rparr>)\<rparr>)" and
      g: "fifo_wf g" "fifo_bytes g = drop ?n ?q" and
      buf: "length buf = 128" "take ?n (drop 64 buf) = take ?n ?q"
      unfolding tx_bytes_def by blast
    have "flight (ep1_ack ((usb a)\<lparr>EP1_Databuf := buf, uep1_t_len := of_nat ?n\<rparr>)) = take ?n ?q"
      by (rule flight_packet) (simp, rule buf(2))
    moreover have "app_wf (snd (USBSendData a))" unfolding s
      using assms g(1) buf(1) by (simp add: app_wf_def dev_wf_def sample_size_def)
    moreover have "flight (usb a) = []" using 3(1) by (rule flight_idle)
    moreover have "tx_bytes (snd (USBSendData a)) = drop ?n ?q" unfolding s using g(2) by (simp add: tx_bytes_def)
    ultimately show ?thesis unfolding s snd_conv by (simp only: app.simps append_take_drop_id append_Nil) simp
  qed
qed

text \<open>One statement of the loop: the frames it adds are whole, and nothing else is added or lost.\<close>

lemma main_step_spec:
  assumes "main_step ops env (c, a) = Some (c', a')" "app_wf a"
  shows "app_wf a' \<and> list_all frame_ok (step_frames ops env (c, a)) \<and>
    flight (usb a') @ tx_bytes a' = flight (usb a) @ tx_bytes a @ concat (step_frames ops env (c, a))"
proof (cases c)
  case At_cmd
  show ?thesis
  proof (cases "app_cmd_len (usb a) = 0")
    case True
    with assms At_cmd show ?thesis by (simp add: main_step_def step_frames_def)
  next
    case False
    with assms(1) At_cmd have "main_cmd ops env a = Some a'" by (auto simp: main_step_def)
    from main_cmd_spec [OF this assms(2)] False At_cmd show ?thesis
      by (auto simp: step_frames_def)
  qed
next
  case At_clear
  with assms show ?thesis
    by (auto simp: main_step_def step_frames_def main_clear_def app_wf_def usb_wf_def usb_safe_def
        tx_bytes_def flight_def ep1_busy_def)
next
  case At_task
  then have "a' = main_task a" using assms(1) by (simp add: main_step_def)
  with main_task_spec [OF assms(2)] At_task show ?thesis by (simp add: step_frames_def)
next
  case At_send
  then have "a' = snd (USBSendData a)" using assms(1) by (simp add: main_step_def)
  with main_send_spec [OF assms(2)] At_send show ?thesis by (simp add: step_frames_def)
qed

lemma timer_frame:
  assumes "TMR1_IRQHandler env d = Some d'"
  shows "app_tx_fifo d' = app_tx_fifo d"
  using assms by (auto simp: TMR1_IRQHandler_def Let_def bind_eq_Some_conv split: if_splits)

lemma length_flight: "usb_wf s \<Longrightarrow> length (flight s) \<le> 64"
  by (simp add: flight_def usb_wf_def)

lemma app_step_inv:
  assumes "app_step ops w w'" "stream_inv w"
  shows "stream_inv w'"
  using assms
proof (cases rule: app_step.cases)
  case (program env c a)
  from main_step_spec [OF program(2)] assms(2) program(1) show ?thesis
    by (simp add: stream_inv_def)
next
  case tick
  with assms(2) show ?thesis
    by (simp add: stream_inv_def app_wf_def dev_wf_def sample_size_def tx_bytes_def)
next
  case (timer env d)
  with assms(2) dev_wf_irq [OF timer(2)] timer_frame [OF timer(2)] show ?thesis
    by (simp add: stream_inv_def app_wf_def tx_bytes_def)
next
  case (control e u)
  have w: "usb_wf (usb (app w))" "usb_safe (usb (app w))" using assms(2) by (simp_all add: stream_inv_def app_wf_def)
  from usb_step_safe [OF w control(4)] control(2) have "usb_wf u" "usb_safe u" by auto
  with ep1_same_flight [OF usb_step_ep1 [OF control(2-4) w(1)]] control(1) assms(2) show ?thesis
    by (simp add: stream_inv_def app_wf_def tx_bytes_def)
next
  case (receive bs u)
  have w: "usb_wf (usb (app w))" using assms(2) by (simp add: stream_inv_def app_wf_def)
  from ep1_out_step [OF w receive(2)] receive(3) have "usb_wf u" "usb_safe u = usb_safe (usb (app w))"
    "flight u = flight (usb (app w))" by auto
  with receive(1) assms(2) show ?thesis by (simp add: stream_inv_def app_wf_def tx_bytes_def)
next
  case (transmit u)
  have w: "usb_wf (usb (app w))" using assms(2) by (simp add: stream_inv_def app_wf_def)
  from ep1_in_step [of "usb (app w)"] transmit(3) have u: "\<not> ep1_busy u" "keeps (usb (app w)) u"
    "usb_safe u = usb_safe (usb (app w))" by auto
  have "usb_wf u" using u(2) w by (rule keeps_wf)
  with u flight_idle [OF u(1)] length_flight [OF w] transmit(1) assms(2) show ?thesis
    by (simp add: stream_inv_def app_wf_def tx_bytes_def)
qed

lemma app_run_inv: "(app_step ops)\<^sup>*\<^sup>* w w' \<Longrightarrow> stream_inv w \<Longrightarrow> stream_inv w'"
  by (induction rule: rtranclp_induct) (auto intro: app_step_inv)

section \<open>Emptying the FIFO\<close>

text \<open>One round: the sender runs and, if a packet waits then, the host takes it.\<close>

definition send_round :: "'e app \<Rightarrow> u8 list option \<times> 'e app" where
  "send_round a =
     (let a = snd (USBSendData a)
      in if ep1_busy (usb a)
         then (Some (flight (usb a)), a\<lparr>usb := the (usb_step ep1_in_event (usb a))\<rparr>)
         else (None, a))"

fun send_rounds :: "nat \<Rightarrow> 'e app \<Rightarrow> u8 list list \<times> 'e app" where
  "send_rounds 0 a = ([], a)"
| "send_rounds (Suc k) a =
     (case send_round a of
        (None, a) \<Rightarrow> ([], a)
      | (Some p, a) \<Rightarrow> (let (ps, a) = send_rounds k a in (p # ps, a)))"

definition send_idle :: "'e app \<Rightarrow> bool" where
  "send_idle a \<longleftrightarrow> fifo_wf (app_tx_fifo (idev a)) \<and> length (EP1_Databuf (usb a)) = 128 \<and> \<not> ep1_busy (usb a)"

lemma send_round_packet:
  assumes "send_idle a" "tx_bytes a \<noteq> []"
  defines "n \<equiv> min 64 (length (tx_bytes a))"
  shows "\<exists>a'. send_round a = (Some (take n (tx_bytes a)), a') \<and> send_idle a' \<and>
    tx_bytes a' = drop n (tx_bytes a) \<and> old_send_len a' = int n"
proof -
  let ?q = "tx_bytes a"
  have w: "\<not> ep1_busy (usb a)" "fifo_wf (app_tx_fifo (idev a))" "length (EP1_Databuf (usb a)) = 128"
    using assms(1) by (simp_all add: send_idle_def)
  from send_packet [OF w(1) _ w(2,3)] assms(2) obtain g buf where
    s: "USBSendData a = (0, a\<lparr>idev := (idev a)\<lparr>app_tx_fifo := g\<rparr>, old_send_len := int n,
        usb := ep1_ack ((usb a)\<lparr>EP1_Databuf := buf, uep1_t_len := of_nat n\<rparr>)\<rparr>)" and
    g: "fifo_wf g" "fifo_bytes g = drop n ?q" and buf: "length buf = 128" "take n (drop 64 buf) = take n ?q"
    unfolding tx_bytes_def n_def by blast
  let ?u = "ep1_ack ((usb a)\<lparr>EP1_Databuf := buf, uep1_t_len := of_nat n\<rparr>)"
  have f: "flight ?u = take n ?q" by (rule flight_packet) (simp add: n_def, rule buf(2))
  from ep1_in_step [of ?u] obtain t where t: "usb_step ep1_in_event ?u = Some t" "\<not> ep1_busy t"
    "EP1_Databuf t = buf" by auto
  let ?a = "a\<lparr>idev := (idev a)\<lparr>app_tx_fifo := g\<rparr>, old_send_len := int n, usb := t\<rparr>"
  have "send_round a = (Some (take n ?q), ?a)" using s f t(1) by (simp add: send_round_def)
  moreover have "send_idle ?a" "tx_bytes ?a = drop n ?q" "old_send_len ?a = int n"
    using g t buf(1) by (simp_all add: send_idle_def tx_bytes_def)
  ultimately show ?thesis by blast
qed

lemma send_round_zero:
  assumes "send_idle a" "tx_bytes a = []" "old_send_len a = 64"
  shows "\<exists>a'. send_round a = (Some [], a') \<and> send_idle a' \<and> tx_bytes a' = [] \<and> old_send_len a' = 0"
proof -
  let ?u = "ep1_ack ((usb a)\<lparr>uep1_t_len := 0\<rparr>)"
  have "\<not> ep1_busy (usb a)" using assms(1) by (simp add: send_idle_def)
  from send_empty [OF this] assms(2,3) have s: "USBSendData a = (0, a\<lparr>old_send_len := 0, usb := ?u\<rparr>)"
    by (simp add: tx_bytes_def)
  from ep1_in_step [of ?u] obtain t where t: "usb_step ep1_in_event ?u = Some t" "\<not> ep1_busy t"
    "EP1_Databuf t = EP1_Databuf (usb a)" by auto
  have "flight ?u = []" by (simp add: flight_def)
  then have "send_round a = (Some [], a\<lparr>old_send_len := 0, usb := t\<rparr>)"
    using s t(1) by (simp add: send_round_def)
  moreover have "send_idle (a\<lparr>old_send_len := 0, usb := t\<rparr>)" "tx_bytes (a\<lparr>old_send_len := 0, usb := t\<rparr>) = []"
    using t assms by (simp_all add: send_idle_def tx_bytes_def)
  ultimately show ?thesis by (intro exI [of _ "a\<lparr>old_send_len := 0, usb := t\<rparr>"]) simp
qed

text \<open>A transfer as USB defines it: packets of 64 bytes up to one shorter, which ends it.\<close>

fun usb_transfer :: "u8 list list \<Rightarrow> bool" where
  "usb_transfer [] \<longleftrightarrow> False"
| "usb_transfer [p] \<longleftrightarrow> length p < 64"
| "usb_transfer (p # ps) \<longleftrightarrow> length p = 64 \<and> usb_transfer ps"

lemma usb_transfer_Cons: "usb_transfer ps \<Longrightarrow> length p = 64 \<Longrightarrow> usb_transfer (p # ps)"
  by (cases ps) simp_all

lemma send_rounds_drain:
  assumes "send_idle a" "tx_bytes a \<noteq> [] \<or> old_send_len a = 64"
  shows "\<exists>ps a'. send_rounds (Suc (length (tx_bytes a) div 64)) a = (ps, a') \<and>
    length ps = Suc (length (tx_bytes a) div 64) \<and> concat ps = tx_bytes a \<and> usb_transfer ps \<and>
    send_idle a' \<and> tx_bytes a' = [] \<and> old_send_len a' \<noteq> 64"
  using assms
proof (induction "length (tx_bytes a)" arbitrary: a rule: less_induct)
  case less
  let ?q = "tx_bytes a"
  consider "?q = []" | "?q \<noteq> []" "length ?q < 64" | "64 \<le> length ?q" by fastforce
  then show ?case
  proof cases
    case 1
    with send_round_zero [OF less.prems(1)] less.prems(2) show ?thesis by auto
  next
    case 2
    with send_round_packet [OF less.prems(1) 2(1)] show ?thesis by auto
  next
    case 3
    then have q: "?q \<noteq> []" by auto
    have m: "min 64 (length ?q) = 64" using 3 by simp
    from send_round_packet [OF less.prems(1) q] obtain a1 where
      r: "send_round a = (Some (take 64 ?q), a1)" "send_idle a1" "tx_bytes a1 = drop 64 ?q" "old_send_len a1 = 64"
      unfolding m by auto
    have "length (tx_bytes a1) < length ?q" using r(3) 3 by simp
    from less.hyps [OF this r(2)] r(4) obtain ps a' where
      ps: "send_rounds (Suc (length (tx_bytes a1) div 64)) a1 = (ps, a')"
        "length ps = Suc (length (tx_bytes a1) div 64)" "concat ps = tx_bytes a1" "usb_transfer ps"
      and a': "send_idle a'" "tx_bytes a' = []" "old_send_len a' \<noteq> 64" by blast
    have d: "length ?q div 64 = Suc (length (tx_bytes a1) div 64)"
      using 3 r(3) by (simp add: le_div_geq)
    have "send_rounds (Suc (length ?q div 64)) a = (take 64 ?q # ps, a')"
      unfolding d using r(1) ps(1) by simp
    moreover have "usb_transfer (take 64 ?q # ps)" using ps(4) 3 by (intro usb_transfer_Cons) simp_all
    moreover have "concat (take 64 ?q # ps) = ?q" using ps(3) r(3) by simp
    moreover have "length (take 64 ?q # ps) = Suc (length ?q div 64)" using ps(2) d by simp
    ultimately show ?thesis using a' by blast
  qed
qed

section \<open>Properties\<close>

text \<open>
  C3: The stream of frames: in whatever order the statements of the loop, timer interrupts, USB requests
  and transactions of endpoint 1 follow each other, the bytes the host has received, then the packet
  that waits on the endpoint, then the bytes in the FIFO, are together exactly the frames the FIFO
  accepted, in order: replies of the command interpreter and blocks of samples, each whole and starting
  with its own length. No packet has more than 64 bytes, and all components stay well-formed.
\<close>

theorem usb_stream:
  assumes "(app_step ops)\<^sup>*\<^sup>* w0 w" "app_wf (app w0)" "frames w0 = []" "got w0 = []"
    "tx_bytes (app w0) = []" "\<not> ep1_busy (usb (app w0))"
  shows "concat (frames w) = concat (got w) @ flight (usb (app w)) @ tx_bytes (app w) \<and>
    (\<forall>bs \<in> set (frames w). 2 \<le> length bs \<and> length bs = 2 + unat (bs ! 0)) \<and>
    (\<forall>p \<in> set (got w). length p \<le> 64) \<and> app_wf (app w)"
proof -
  have "stream_inv w0" using assms(2-6) by (simp add: stream_inv_def flight_idle)
  from app_run_inv [OF assms(1) this] show ?thesis
    by (simp add: stream_inv_def list_all_iff frame_ok_def)
qed

definition demo_app :: "'e \<Rightarrow> 'e app" where
  "demo_app e = \<lparr>usb = usb_reset_state\<lparr>uep1_ctrl := UEP_T_RES_NAK\<rparr>, idev = ring_dev e 2 0 5,
     send_pkt = tx_zero, old_send_len = 0\<rparr>"

definition demo_world :: "'e \<Rightarrow> 'e world" where
  "demo_world e = \<lparr>app = demo_app e, pc = At_task, frames = [], got = []\<rparr>"

lemma demo_app_wf: "app_wf (demo_app e)" "tx_bytes (demo_app e) = []" "\<not> ep1_busy (usb (demo_app e))"
proof -
  have "usb_safe (usb (demo_app e))" by (simp add: demo_app_def usb_safe_def usb_reset_state_def regs)
  moreover have "usb_wf (usb (demo_app e))" using usb_reset_state_wf by (simp add: demo_app_def usb_wf_def)
  moreover have "tx_pkt_wf (send_pkt (demo_app e))" by (simp add: demo_app_def tx_pkt_wf_def)
  moreover have "dev_wf (idev (demo_app e))" using ring_dev_wf [of 2 e 0 5] by (simp add: demo_app_def)
  ultimately show "app_wf (demo_app e)" by (simp add: app_wf_def)
  show "tx_bytes (demo_app e) = []"
    by (simp add: demo_app_def tx_bytes_def ring_dev_def fifo_bytes_def fifo_length_def ring_slice_def)
  show "\<not> ep1_busy (usb (demo_app e))" by (simp add: demo_app_def ep1_busy_def regs)
qed

lemma demo_frames: "task_frames (demo_app e) = [packet_of (ring_dev e 2 0 5)]"
  "length (packet_of (ring_dev e 2 0 5)) = 8"
proof -
  let ?d = "ring_dev e 2 0 5"
  have l: "length (pending ?d) = 5" by (simp add: length_pending) (simp add: ring_dev_def)
  have p: "pktcnt (cfg_i2c ?d) = 2" "sample_size ?d = 3" by (simp_all add: ring_dev_def sample_size_def)
  then show n: "length (packet_of ?d) = 8" using l by (simp add: packet_of_def)
  have "fsize (app_tx_fifo (idev (demo_app e))) = 64" by (simp add: demo_app_def ring_dev_def)
  with l p n demo_app_wf(2) [of e] show "task_frames (demo_app e) = [packet_of ?d]"
    by (simp add: task_frames_def enqueued_def Let_def) (simp add: demo_app_def p l)
qed

theorem usb_stream_witness:
  "\<exists>w. (app_step ram_flash)\<^sup>*\<^sup>* (demo_world []) w \<and> frames w = [packet_of (ring_dev ([] :: u8 list) 2 0 5)] \<and>
     concat (got w) = packet_of (ring_dev ([] :: u8 list) 2 0 5)"
proof -
  let ?w0 = "demo_world [] :: u8 list world"
  have a0: "app ?w0 = demo_app []" "pc ?w0 = At_task" by (simp_all add: demo_world_def)
  define a1 where "a1 = main_task (demo_app [] :: u8 list app)"
  note t = main_task_spec [OF demo_app_wf(1), of "[] :: u8 list", folded a1_def]
  have b1: "tx_bytes a1 = packet_of (ring_dev ([] :: u8 list) 2 0 5)" using t demo_frames(1) [of "[] :: u8 list"] demo_app_wf(2) [of "[] :: u8 list"] by simp
  let ?w1 = "?w0\<lparr>app := a1, pc := At_send, frames := frames ?w0 @ step_frames ram_flash answering (pc ?w0, app ?w0)\<rparr>"
  have s1: "app_step ram_flash ?w0 ?w1"
    by (rule app_step.program) (simp add: a0 main_step_def a1_def)
  have "app_wf a1" "\<not> ep1_busy (usb a1)" using t demo_app_wf(3) [of "[] :: u8 list"] by metis+
  then have i: "send_idle a1" by (simp add: send_idle_def app_wf_def dev_wf_def usb_wf_def)
  have "tx_bytes a1 \<noteq> []" using b1 demo_frames(2) [of "[] :: u8 list"] by auto
  from send_round_packet [OF i this] obtain a2 where
    r: "send_round a1 = (Some (take 8 (tx_bytes a1)), a2)" "tx_bytes a2 = []" "send_idle a2"
    using b1 demo_frames(2) [of "[] :: u8 list"] by auto
  define a where "a = snd (USBSendData a1)"
  have busy: "ep1_busy (usb a)" and a2: "a2 = a\<lparr>usb := the (usb_step ep1_in_event (usb a))\<rparr>"
    using r(1) by (auto simp: send_round_def a_def Let_def split: if_splits)
  from ep1_in_step [of "usb a"] obtain u where u: "usb_step ep1_in_event (usb a) = Some u" by blast
  let ?w2 = "?w1\<lparr>app := a, pc := At_cmd, frames := frames ?w1 @ step_frames ram_flash answering (pc ?w1, app ?w1)\<rparr>"
  have s2: "app_step ram_flash ?w1 ?w2"
    by (rule app_step.program) (simp add: main_step_def a_def)
  let ?w3 = "?w2\<lparr>app := (app ?w2)\<lparr>usb := u\<rparr>, got := got ?w2 @ [flight (usb (app ?w2))]\<rparr>"
  have s3: "app_step ram_flash ?w2 ?w3"
    by (rule app_step.transmit) (use busy u in simp_all)
  have run: "(app_step ram_flash)\<^sup>*\<^sup>* ?w0 ?w3"
    using s1 s2 s3 by (meson rtranclp.rtrancl_refl rtranclp.rtrancl_into_rtrancl)
  have f: "frames ?w3 = [packet_of (ring_dev ([] :: u8 list) 2 0 5)]"
    using demo_frames(1) [of "[] :: u8 list"] by (simp add: step_frames_def demo_world_def)
  have "app ?w3 = a2" using a2 u by simp
  with r(2,3) have "tx_bytes (app ?w3) = []" "flight (usb (app ?w3)) = []"
    by (simp_all add: send_idle_def flight_idle)
  moreover have "concat (frames ?w3) = concat (got ?w3) @ flight (usb (app ?w3)) @ tx_bytes (app ?w3)"
    using usb_stream [OF run] demo_app_wf [of "[] :: u8 list"] by (simp add: demo_world_def)
  ultimately have "concat (got ?w3) = packet_of (ring_dev ([] :: u8 list) 2 0 5)"
    unfolding f by (metis append_Nil2 concat.simps)
  with run f show ?thesis by blast
qed

text \<open>
  C38: Every byte in the FIFO reaches the host and the transfer is terminated: if the sender and the host
  take turns, then from \<open>L\<close> bytes in the FIFO (and with a full packet sent last, also from none) it takes
  \<open>L div 64 + 1\<close> rounds until the FIFO is empty; the packets carry exactly the bytes of the FIFO in
  order, all of 64 bytes but the last, which is shorter (an empty packet where \<open>L\<close> is a multiple of 64);
  after that the sender has nothing more to do.
\<close>

theorem usb_drain:
  assumes "fifo_wf (app_tx_fifo (idev a))" "length (EP1_Databuf (usb a)) = 128" "\<not> ep1_busy (usb a)"
    "tx_bytes a \<noteq> [] \<or> old_send_len a = 64"
  shows "\<exists>ps a'. send_rounds (length (tx_bytes a) div 64 + 1) a = (ps, a') \<and>
    length ps = length (tx_bytes a) div 64 + 1 \<and> concat ps = tx_bytes a \<and> usb_transfer ps \<and>
    tx_bytes a' = [] \<and> USBSendData a' = (0, a')"
proof -
  have "send_idle a" using assms(1-3) by (simp add: send_idle_def)
  from send_rounds_drain [OF this assms(4)] obtain ps a' where
    d: "send_rounds (Suc (length (tx_bytes a) div 64)) a = (ps, a')"
      "length ps = Suc (length (tx_bytes a) div 64)" "concat ps = tx_bytes a" "usb_transfer ps"
      "send_idle a'" "tx_bytes a' = []" "old_send_len a' \<noteq> 64" by blast
  have "USBSendData a' = (0, a')"
    using send_empty [of a'] d(5-7) by (simp add: send_idle_def tx_bytes_def)
  with d show ?thesis by simp
qed

theorem usb_drain_witness:
  "\<exists>a'. send_rounds 1 ((demo_app ())\<lparr>old_send_len := 64\<rparr>) = ([[]], a') \<and> USBSendData a' = (0, a')"
proof -
  let ?a = "(demo_app ())\<lparr>old_send_len := 64\<rparr>"
  have "fifo_wf (app_tx_fifo (idev ?a))" "length (EP1_Databuf (usb ?a)) = 128" "\<not> ep1_busy (usb ?a)"
    using demo_app_wf(1,3) [of "()"] by (simp_all add: app_wf_def dev_wf_def usb_wf_def)
  moreover have q: "tx_bytes ?a = []" using demo_app_wf(2) [of "()"] by (simp add: tx_bytes_def)
  ultimately obtain ps a' where r: "send_rounds 1 ?a = (ps, a')" "length ps = 1" "concat ps = []"
    "USBSendData a' = (0, a')"
    using usb_drain [of ?a] by (auto simp del: send_rounds.simps)
  from r(2) obtain p where "ps = [p]" by (cases ps) auto
  with r show ?thesis by (intro exI [of _ a']) simp
qed

text \<open>
  A command of the host can be lost: a request that sets the control lines, arriving between the
  execution of the previous command and the reset of \<open>app_cmd_len\<close>, puts its power command in the
  mailbox; the next statement of the loop empties the mailbox, and the command is neither executed nor
  pending any more.
\<close>

theorem line_state_lost:
  assumes "usb_wf (usb a)"
  shows "\<exists>u a'. host_setup (setup_packet 0x21 DEF_SET_CONTROL_LINE_STATE v i n) (usb a) = Some u \<and>
    app_cmd_len u = 3 \<and> take 3 (app_cmd_buf u) = [1, CMD_I2C_PWR, ucast v AND 1] \<and>
    main_step ops env (At_clear, a\<lparr>usb := u\<rparr>) = Some (At_task, a') \<and>
    app_cmd_len (usb a') = 0 \<and> idev a' = idev a"
proof -
  let ?t = "setup_state (setup_packet 0x21 DEF_SET_CONTROL_LINE_STATE v i n) (usb a)"
  have l: "length (EP0_Databuf (usb a)) = 192" using assms by (simp add: usb_wf_def)
  note f = setup_state_fields [OF refl l, of "0x21" DEF_SET_CONTROL_LINE_STATE v i n]
  obtain b0 b1 b2 bs where buf: "app_cmd_buf (usb a) = b0 # b1 # b2 # bs"
    using assms by (auto simp: usb_wf_def length_Suc_conv eval_nat_numeral)
  have "EP0_Databuf ?t ! 2 = ucast v"
    by (simp add: setup_state_def setup_packet_def splice_at_def le16_def Let_def)
  moreover have "app_cmd_buf ?t = app_cmd_buf (usb a)" by (simp add: setup_state_def Let_def)
  ultimately have c: "app_cmd_len (class_request 0x21 ?t) = 3"
    "take 3 (app_cmd_buf (class_request 0x21 ?t)) = [1, CMD_I2C_PWR, ucast v AND 1]"
    using f(2) by (simp_all add: class_request_def buf)
  define u where "u = int_fg_clear RB_UIF_TRANSFER (usb_reply 0x21 (class_request 0x21 ?t))"
  have "host_setup (setup_packet 0x21 DEF_SET_CONTROL_LINE_STATE v i n) (usb a) = Some u"
    using host_setup_run [OF l] by (simp add: USB_REQ_TYP_MASK_def USB_REQ_TYP_STANDARD_def u_def)
  moreover have "app_cmd_len u = 3" "take 3 (app_cmd_buf u) = [1, CMD_I2C_PWR, ucast v AND 1]"
    using c by (simp_all add: u_def usb_reply_out int_fg_clear_def)
  moreover have "main_step ops env (At_clear, a\<lparr>usb := u\<rparr>) = Some (At_task, main_clear (a\<lparr>usb := u\<rparr>))"
    by (simp add: main_step_def)
  moreover have "app_cmd_len (usb (main_clear (a\<lparr>usb := u\<rparr>))) = 0" "idev (main_clear (a\<lparr>usb := u\<rparr>)) = idev a"
    by (simp_all add: main_clear_def)
  ultimately show ?thesis by blast
qed

theorem line_state_lost_witness:
  "\<exists>u. host_setup (setup_packet 0x21 DEF_SET_CONTROL_LINE_STATE 1 0 0) usb_reset_state = Some u \<and>
     app_cmd_len u = 3"
  using line_state_lost [of "(demo_app ())\<lparr>usb := usb_reset_state\<rparr>" 1 0 0] usb_reset_state_wf by auto

end
