(* ===== verification/RwIni.thy ===== *)
theory RwIni
  imports Prelude
begin

text \<open>
  The settings log of the STM32F103 port (\<open>STM32F103/Main/rw_ini.c\<close>, \<open>.h\<close>): blocks of settings are
  appended to the last flash page, each between a start and an end marker, until the page is full;
  then it is erased. The page is a list of 512 half-words, an address a natural number. The flash
  hardware behind \<open>FLASH_ProgramHalfWord\<close> and \<open>FLASH_ErasePage\<close> is a parameter; their status results,
  which the code ignores, and \<open>FLASH_Unlock\<close> are not modelled.
\<close>

section \<open>The flash page\<close>

record flash_hw =
  FLASH_ProgramHalfWord :: "u16 list \<Rightarrow> nat \<Rightarrow> u16 \<Rightarrow> u16 list"
  FLASH_ErasePage :: "u16 list \<Rightarrow> u16 list"

definition FLASH_STORE_STR_ADR :: nat where "FLASH_STORE_STR_ADR = 0x08000000 + 65536 - 1024"
definition FLASH_STORE_END_ADR :: nat where "FLASH_STORE_END_ADR = 0x08000000 + 65536 - 1"

text \<open>The half-word and the byte at an address of the page.\<close>

definition cell_of :: "nat \<Rightarrow> nat" where "cell_of adr = (adr - FLASH_STORE_STR_ADR) div 2"

definition half_at :: "u16 list \<Rightarrow> nat \<Rightarrow> u16" where "half_at f adr = f ! cell_of adr"

definition byte_at :: "u16 list \<Rightarrow> nat \<Rightarrow> u8" where
  "byte_at f adr = (if even adr then ucast (half_at f adr) else ucast (drop_bit 8 (half_at f (adr - 1))))"

section \<open>Finding a block\<close>

definition ini_len :: "nat \<Rightarrow> nat" where "ini_len blk_size = (blk_size + blk_size mod 2 + 4) mod 65536"

text \<open>The two loops; \<open>None\<close> is a loop that never ends.\<close>

partial_function (option) last_ini :: "u16 list \<Rightarrow> nat \<Rightarrow> nat \<Rightarrow> nat \<Rightarrow> nat option" where
  "last_ini f len adr ret =
     (if adr < FLASH_STORE_END_ADR + 2 - len
      then if half_at f adr = 0x55AA
        then last_ini f len (adr + len) (if half_at f (adr + len - 2) = 0xAA55 then adr else ret)
        else Some ret
      else Some ret)"

definition GetLastAdrIniBlk :: "nat \<Rightarrow> u16 list \<Rightarrow> nat option" where
  "GetLastAdrIniBlk blk_size f = last_ini f (ini_len blk_size) FLASH_STORE_STR_ADR 0"

partial_function (option) last_clr :: "u16 list \<Rightarrow> nat \<Rightarrow> nat \<Rightarrow> nat option" where
  "last_clr f len adr =
     (if adr < FLASH_STORE_END_ADR + 2 - len
      then if half_at f adr = 0xFFFF then Some adr else last_clr f len (adr + len)
      else Some 0)"

definition GetLastAdrClrBlk :: "nat \<Rightarrow> u16 list \<Rightarrow> nat option" where
  "GetLastAdrClrBlk blk_size f = last_clr f (ini_len blk_size) FLASH_STORE_STR_ADR"

section \<open>Writing and reading a block\<close>

function write_words :: "flash_hw \<Rightarrow> nat \<Rightarrow> nat \<Rightarrow> u8 list \<Rightarrow> nat \<Rightarrow> u16 list \<Rightarrow> nat \<times> u16 list" where
  "write_words hw blk_size i src adr f =
     (if i < blk_size
      then write_words hw blk_size (i + 2) (drop 2 src) (adr + 2)
        (FLASH_ProgramHalfWord hw f (cell_of adr) (from_le16 (src ! 0) (src ! 1)))
      else (adr, f))"
  by pat_completeness auto

termination by (relation "measure (\<lambda>(hw, n, i, src, adr, f). n - i)") auto

declare write_words.simps [simp del]

definition WriteIniBlk :: "flash_hw \<Rightarrow> u8 list \<Rightarrow> nat \<Rightarrow> u16 list \<Rightarrow> u16 list option" where
  "WriteIniBlk hw blk blk_size f =
     do {
       adr \<leftarrow> GetLastAdrClrBlk blk_size f;
       let (adr, f) = (if adr = 0 then (FLASH_STORE_STR_ADR, FLASH_ErasePage hw f) else (adr, f));
       let f = FLASH_ProgramHalfWord hw f (cell_of adr) 0x55AA;
       let (adr, f) = write_words hw blk_size 0 blk (adr + 2) f;
       Some (FLASH_ProgramHalfWord hw f (cell_of adr) 0xAA55)
     }"

definition ReadIniBlk :: "u8 list \<Rightarrow> nat \<Rightarrow> u16 list \<Rightarrow> (nat \<times> u8 list) option" where
  "ReadIniBlk blk blk_size f =
     do {
       adr \<leftarrow> GetLastAdrIniBlk blk_size f;
       Some (if adr = 0 then (0, blk)
             else (1, map (\<lambda>i. byte_at f (adr + 2 + i)) [0..<blk_size] @ drop blk_size blk))
     }"

section \<open>What is relied on of the flash\<close>

text \<open>An erased half-word takes the value programmed into it; an erase leaves all half-words erased.\<close>

definition flash_hw_ok :: "flash_hw \<Rightarrow> bool" where
  "flash_hw_ok hw \<longleftrightarrow>
     (\<forall>f i w. length f = 512 \<and> i < 512 \<and> f ! i = 0xFFFF \<longrightarrow> FLASH_ProgramHalfWord hw f i w = f[i := w]) \<and>
     (\<forall>f. length f = 512 \<longrightarrow> FLASH_ErasePage hw f = replicate 512 0xFFFF)"

section \<open>The page as a log of slots\<close>

definition slot :: "nat \<Rightarrow> nat \<Rightarrow> nat" where "slot n k = FLASH_STORE_STR_ADR + k * ini_len n"

definition slots :: "nat \<Rightarrow> nat" where "slots n = 1024 div ini_len n"

text \<open>\<open>m\<close> slots are in use, from the start of the page; the rest is erased.\<close>

definition page_ok :: "nat \<Rightarrow> nat \<Rightarrow> u16 list \<Rightarrow> bool" where
  "page_ok n m f \<longleftrightarrow> length f = 512 \<and> m \<le> slots n \<and>
     (\<forall>k < m. half_at f (slot n k) = 0x55AA) \<and>
     (\<forall>i. m * (ini_len n div 2) \<le> i \<and> i < 512 \<longrightarrow> f ! i = 0xFFFF)"

definition complete :: "nat \<Rightarrow> u16 list \<Rightarrow> nat \<Rightarrow> bool" where
  "complete n f k \<longleftrightarrow> half_at f (slot n k + ini_len n - 2) = 0xAA55"

text \<open>The bytes of the last complete slot among the first \<open>m\<close>.\<close>

fun last_complete :: "nat \<Rightarrow> u16 list \<Rightarrow> nat \<Rightarrow> nat option" where
  "last_complete n f 0 = None"
| "last_complete n f (Suc m) = (if complete n f m then Some m else last_complete n f m)"

definition slot_bytes :: "nat \<Rightarrow> u16 list \<Rightarrow> nat \<Rightarrow> u8 list" where
  "slot_bytes n f k = map (\<lambda>i. byte_at f (slot n k + 2 + i)) [0..<n]"

definition stored :: "nat \<Rightarrow> nat \<Rightarrow> u16 list \<Rightarrow> u8 list option" where
  "stored n m f = map_option (slot_bytes n f) (last_complete n f m)"

text \<open>A block size for which the page has at least one slot.\<close>

definition size_ok :: "nat \<Rightarrow> bool" where "size_ok n \<longleftrightarrow> n \<le> 1020"

lemma ini_len_ok:
  assumes "size_ok n"
  shows "ini_len n = 2 * ((n + 1) div 2 + 2)" "ini_len n \<le> 1024" "0 < slots n" "0 < ini_len n"
proof -
  have m: "n + n mod 2 = 2 * ((n + 1) div 2)" by presburger
  have "(n + 1) div 2 \<le> 510" using assms by (simp add: size_ok_def)
  with m show l: "ini_len n = 2 * ((n + 1) div 2 + 2)" by (simp add: ini_len_def)
  with \<open>(n + 1) div 2 \<le> 510\<close> show le: "ini_len n \<le> 1024" by simp
  show "0 < ini_len n" using l by simp
  with le show "0 < slots n" by (simp add: slots_def div_greater_zero_iff)
qed

lemma slot_in_page:
  assumes "size_ok n"
  shows "slot n k < FLASH_STORE_END_ADR + 2 - ini_len n \<longleftrightarrow> k < slots n"
proof -
  have "slot n k < FLASH_STORE_END_ADR + 2 - ini_len n \<longleftrightarrow> Suc k * ini_len n \<le> 1024"
    using ini_len_ok(2) [OF assms]
    by (auto simp: slot_def FLASH_STORE_END_ADR_def FLASH_STORE_STR_ADR_def)
  also have "\<dots> \<longleftrightarrow> Suc k \<le> slots n"
    using ini_len_ok(4) [OF assms] by (simp add: slots_def less_eq_div_iff_mult_less_eq)
  finally show ?thesis by (simp add: Suc_le_eq)
qed

lemma slot_Suc: "slot n k + ini_len n = slot n (Suc k)" "slot n 0 = FLASH_STORE_STR_ADR"
  by (simp_all add: slot_def)

lemma slot_pos: "slot n k \<noteq> 0" by (simp add: slot_def FLASH_STORE_STR_ADR_def)

lemma slot_cell:
  assumes "size_ok n"
  shows "cell_of (slot n k + 2 * i) = k * (ini_len n div 2) + i"
  using ini_len_ok(1) [OF assms] by (simp add: cell_of_def slot_def)

lemma slot_in_page': "size_ok n \<Longrightarrow> slot n k < Suc (Suc FLASH_STORE_END_ADR) - ini_len n \<longleftrightarrow> k < slots n"
  using slot_in_page [of n k] by simp

section \<open>The loops over the slots\<close>

lemma slot_cell0: "size_ok n \<Longrightarrow> cell_of (slot n k) = k * (ini_len n div 2)"
  using slot_cell [of n k 0] by simp

lemma slot_room:
  assumes "size_ok n" "k < slots n"
  shows "k * (ini_len n div 2) + ini_len n div 2 \<le> 512"
proof -
  have "Suc k \<le> 1024 div ini_len n" using assms(2) by (simp add: slots_def)
  then have "Suc k * ini_len n \<le> 1024"
    using ini_len_ok(4) [OF assms(1)] by (simp add: less_eq_div_iff_mult_less_eq)
  then show ?thesis using ini_len_ok(1) [OF assms(1)] by (simp add: algebra_simps)
qed

lemma free_slot_erased:
  assumes "page_ok n m f" "size_ok n" "m < slots n"
  shows "half_at f (slot n m) = 0xFFFF"
proof -
  have "m * (ini_len n div 2) < 512"
    using slot_room [OF assms(2,3)] ini_len_ok(1) [OF assms(2)] by simp
  then show ?thesis using assms(1) by (simp add: page_ok_def half_at_def slot_cell0 [OF assms(2)])
qed

definition last_adr :: "nat \<Rightarrow> u16 list \<Rightarrow> nat \<Rightarrow> nat \<Rightarrow> nat \<Rightarrow> nat" where
  "last_adr n f k m ret = fold (\<lambda>j r. if complete n f j then slot n j else r) [k..<m] ret"

lemma last_adr_eq: "last_adr n f 0 m 0 = (case last_complete n f m of Some k \<Rightarrow> slot n k | None \<Rightarrow> 0)"
  by (induction m) (simp_all add: last_adr_def)

lemma last_ini_slots:
  assumes "page_ok n m f" "size_ok n" "k \<le> m"
  shows "last_ini f (ini_len n) (slot n k) ret = Some (last_adr n f k m ret)"
  using assms(3)
proof (induction "m - k" arbitrary: k ret)
  case 0
  then have "k = m" by simp
  with free_slot_erased [OF assms(1,2)] assms(1) show ?case
    by (subst last_ini.simps) (auto simp: slot_in_page' [OF assms(2)] last_adr_def page_ok_def)
next
  case (Suc d)
  then have k: "k < m" "d = m - Suc k" by simp_all
  then have "half_at f (slot n k) = 0x55AA" "k < slots n" using assms(1) by (auto simp: page_ok_def)
  moreover have "[k..<m] = k # [Suc k..<m]" using k(1) by (simp add: upt_conv_Cons)
  ultimately show ?case using Suc.hyps(1) [OF k(2)] k(1)
    by (subst last_ini.simps) (simp add: slot_in_page' [OF assms(2)] slot_Suc last_adr_def complete_def)
qed

lemma last_clr_slots:
  assumes "page_ok n m f" "size_ok n" "k \<le> m"
  shows "last_clr f (ini_len n) (slot n k) = Some (if m < slots n then slot n m else 0)"
  using assms(3)
proof (induction "m - k" arbitrary: k)
  case 0
  then have "k = m" by simp
  with free_slot_erased [OF assms(1,2)] show ?case
    by (subst last_clr.simps) (simp add: slot_in_page' [OF assms(2)])
next
  case (Suc d)
  then have k: "k < m" "d = m - Suc k" by simp_all
  then have "half_at f (slot n k) = 0x55AA" "k < slots n" using assms(1) by (auto simp: page_ok_def)
  with Suc.hyps(1) [OF k(2)] k(1) show ?case
    by (subst last_clr.simps) (simp add: slot_in_page' [OF assms(2)] slot_Suc)
qed

lemma find_ini: "page_ok n m f \<Longrightarrow> size_ok n \<Longrightarrow>
    GetLastAdrIniBlk n f = Some (case last_complete n f m of Some k \<Rightarrow> slot n k | None \<Rightarrow> 0)"
  using last_ini_slots [of n m f 0 0] by (simp add: GetLastAdrIniBlk_def slot_Suc last_adr_eq)

lemma find_clr: "page_ok n m f \<Longrightarrow> size_ok n \<Longrightarrow>
    GetLastAdrClrBlk n f = Some (if m < slots n then slot n m else 0)"
  using last_clr_slots [of n m f 0] by (simp add: GetLastAdrClrBlk_def slot_Suc)

lemma read_stored:
  assumes "page_ok n m f" "size_ok n"
  shows "ReadIniBlk blk n f = Some (case stored n m f of None \<Rightarrow> (0, blk) | Some bs \<Rightarrow> (1, bs @ drop n blk))"
  using find_ini [OF assms] slot_pos
  by (simp add: ReadIniBlk_def stored_def slot_bytes_def split: option.split)

section \<open>A write as a sequence of half-words\<close>

text \<open>The half-words of a block: the markers around the bytes taken in pairs.\<close>

definition ini_words :: "u8 list \<Rightarrow> nat \<Rightarrow> u16 list" where
  "ini_words blk n = map (\<lambda>i. from_le16 (blk ! (2 * i)) (blk ! (2 * i + 1))) [0..<(n + 1) div 2]"

definition ini_image :: "u8 list \<Rightarrow> nat \<Rightarrow> u16 list" where
  "ini_image blk n = 0x55AA # ini_words blk n @ [0xAA55]"

text \<open>Programming half-words one after the other from a cell on.\<close>

fun program_seq :: "flash_hw \<Rightarrow> u16 list \<Rightarrow> nat \<Rightarrow> u16 list \<Rightarrow> u16 list" where
  "program_seq hw f c [] = f"
| "program_seq hw f c (w # ws) = program_seq hw (FLASH_ProgramHalfWord hw f c w) (Suc c) ws"

lemma length_ini_image: "size_ok n \<Longrightarrow> length (ini_image blk n) = ini_len n div 2"
  using ini_len_ok(1) [of n] by (simp add: ini_image_def ini_words_def)

lemma program_seq_append: "program_seq hw f c (xs @ ys) = program_seq hw (program_seq hw f c xs) (c + length xs) ys"
  by (induction xs arbitrary: f c) simp_all

lemma program_seq_splice:
  assumes "flash_hw_ok hw" "length f = 512" "c + length ws \<le> 512"
    "\<forall>i. c \<le> i \<and> i < c + length ws \<longrightarrow> f ! i = 0xFFFF"
  shows "program_seq hw f c ws = splice_at f c ws"
  using assms(2-4)
proof (induction ws arbitrary: f c)
  case (Cons w ws)
  have "FLASH_ProgramHalfWord hw f c w = f[c := w]"
    using Cons.prems assms(1) by (simp add: flash_hw_ok_def)
  moreover have "program_seq hw (f[c := w]) (Suc c) ws = splice_at (f[c := w]) (Suc c) ws"
    using Cons.prems by (intro Cons.IH) simp_all
  moreover have "splice_at (f[c := w]) (Suc c) ws = splice_at f c (w # ws)"
    using Cons.prems by (simp add: splice_at_def take_Suc_conv_app_nth)
  ultimately show ?case by simp
qed (simp add: splice_at_def)

lemma write_words_seq:
  assumes "FLASH_STORE_STR_ADR \<le> adr" "even i" "n + n mod 2 \<le> i + length src"
  shows "\<exists>adr'. write_words hw n i src adr f = (adr', program_seq hw f (cell_of adr)
      (map (\<lambda>j. from_le16 (src ! (2 * j)) (src ! (2 * j + 1))) [0..<(n + 1 - i) div 2])) \<and>
    FLASH_STORE_STR_ADR \<le> adr' \<and> cell_of adr' = cell_of adr + (n + 1 - i) div 2"
  using assms
proof (induction "n - i" arbitrary: i src adr f rule: less_induct)
  case less
  show ?case
  proof (cases "i < n")
    case False
    then have z: "(n + 1 - i) div 2 = 0" by simp
    from False have "write_words hw n i src adr f = (adr, f)" by (subst write_words.simps) simp
    with less.prems(1) z show ?thesis by auto
  next
    case True
    have c: "cell_of (adr + 2) = Suc (cell_of adr)" using less.prems(1) by (simp add: cell_of_def)
    have d: "(n + 1 - i) div 2 = Suc ((n + 1 - (i + 2)) div 2)" using True by linarith
    let ?g = "FLASH_ProgramHalfWord hw f (cell_of adr) (from_le16 (src ! 0) (src ! 1))"
    have l: "2 \<le> length src" "n + n mod 2 \<le> i + 2 + length (drop 2 src)"
      using less.prems(2,3) True by presburger (use less.prems(3) in simp)
    have "n - (i + 2) < n - i" using True by simp
    from less.hyps [OF this, of "adr + 2" "drop 2 src" ?g] less.prems(1,2) l obtain adr' where
      w: "write_words hw n (i + 2) (drop 2 src) (adr + 2) ?g = (adr', program_seq hw ?g (cell_of (adr + 2))
        (map (\<lambda>j. from_le16 (drop 2 src ! (2 * j)) (drop 2 src ! (2 * j + 1))) [0..<(n + 1 - (i + 2)) div 2]))"
        "FLASH_STORE_STR_ADR \<le> adr'" "cell_of adr' = cell_of (adr + 2) + (n + 1 - (i + 2)) div 2"
      by auto
    have m: "map (\<lambda>j. from_le16 (src ! (2 * j)) (src ! (2 * j + 1))) [0..<Suc k] =
        from_le16 (src ! 0) (src ! 1) #
        map (\<lambda>j. from_le16 (drop 2 src ! (2 * j)) (drop 2 src ! (2 * j + 1))) [0..<k]" for k
      using l(1) by (simp add: upt_conv_Cons map_Suc_upt [symmetric] comp_def del: upt_Suc)
    have "write_words hw n i src adr f = write_words hw n (i + 2) (drop 2 src) (adr + 2) ?g"
      using True by (subst write_words.simps) simp
    with w show ?thesis unfolding d m c by simp
  qed
qed

text \<open>A write as the operations on the flash that it performs, in order.\<close>

datatype flash_op = Erase | Program nat u16

fun flash_run :: "flash_hw \<Rightarrow> flash_op list \<Rightarrow> u16 list \<Rightarrow> u16 list" where
  "flash_run hw [] f = f"
| "flash_run hw (Erase # os) f = flash_run hw os (FLASH_ErasePage hw f)"
| "flash_run hw (Program c w # os) f = flash_run hw os (FLASH_ProgramHalfWord hw f c w)"

fun programs :: "nat \<Rightarrow> u16 list \<Rightarrow> flash_op list" where
  "programs c [] = []"
| "programs c (w # ws) = Program c w # programs (Suc c) ws"

definition ini_trace :: "u8 list \<Rightarrow> nat \<Rightarrow> nat \<Rightarrow> flash_op list" where
  "ini_trace blk n m =
     (if m < slots n then programs (m * (ini_len n div 2)) (ini_image blk n)
      else Erase # programs 0 (ini_image blk n))"

lemma flash_run_programs: "flash_run hw (programs c ws) f = program_seq hw f c ws"
  by (induction ws arbitrary: c f) simp_all

lemma take_programs: "take j (programs c ws) = programs c (take j ws)"
proof (induction ws arbitrary: c j)
  case (Cons w ws)
  then show ?case by (cases j) simp_all
qed simp

lemma length_programs [simp]: "length (programs c ws) = length ws"
  by (induction ws arbitrary: c) simp_all

lemma write_at:
  assumes "n + n mod 2 \<le> length blk" "FLASH_STORE_STR_ADR \<le> adr"
  shows "(let f = FLASH_ProgramHalfWord hw f (cell_of adr) 0x55AA;
          (adr, f) = write_words hw n 0 blk (adr + 2) f
      in FLASH_ProgramHalfWord hw f (cell_of adr) 0xAA55) = program_seq hw f (cell_of adr) (ini_image blk n)"
proof -
  let ?f = "FLASH_ProgramHalfWord hw f (cell_of adr) 0x55AA"
  have c: "cell_of (adr + 2) = Suc (cell_of adr)" using assms(2) by (simp add: cell_of_def)
  obtain adr' where w: "write_words hw n 0 blk (adr + 2) ?f = (adr', program_seq hw ?f (Suc (cell_of adr)) (ini_words blk n))"
    "cell_of adr' = Suc (cell_of adr) + (n + 1) div 2"
    using write_words_seq [of "adr + 2" 0 n blk hw ?f] assms c by (auto simp: ini_words_def)
  have "length (ini_words blk n) = (n + 1) div 2" by (simp add: ini_words_def)
  with w show ?thesis by (simp add: ini_image_def program_seq_append)
qed

lemma write_trace:
  assumes "page_ok n m f" "size_ok n" "n + n mod 2 \<le> length blk"
  shows "WriteIniBlk hw blk n f = Some (flash_run hw (ini_trace blk n m) f)"
proof (cases "m < slots n")
  case True
  have "FLASH_STORE_STR_ADR \<le> slot n m" by (simp add: slot_def)
  from write_at [OF assms(3) this, of hw f] True find_clr [OF assms(1,2)] slot_pos [of n m] show ?thesis
    by (simp add: WriteIniBlk_def ini_trace_def flash_run_programs slot_cell0 [OF assms(2)] split: prod.splits)
next
  case False
  from write_at [OF assms(3) order_refl, of hw "FLASH_ErasePage hw f"] False find_clr [OF assms(1,2)] show ?thesis
    by (simp add: WriteIniBlk_def ini_trace_def flash_run_programs cell_of_def split: prod.splits)
qed

section \<open>What a written block looks like\<close>

lemma splice_half:
  assumes "size_ok n" "length f = 512" "k < slots n" "length ws \<le> ini_len n div 2" "i < ini_len n div 2" "m < slots n"
  shows "half_at (splice_at f (m * (ini_len n div 2)) ws) (slot n k + 2 * i) =
    (if k = m \<and> i < length ws then ws ! i else half_at f (slot n k + 2 * i))"
proof -
  let ?h = "ini_len n div 2"
  have b: "m * ?h + ?h \<le> 512" "k * ?h + ?h \<le> 512" using slot_room [OF assms(1)] assms(3,6) by auto
  have "k * ?h + i < 512" "m * ?h + length ws \<le> 512" using b assms(4,5) by linarith+
  moreover have "m * ?h \<le> k * ?h + i \<and> k * ?h + i < m * ?h + length ws \<longleftrightarrow> k = m \<and> i < length ws"
  proof (cases k m rule: linorder_cases)
    case less
    then have "Suc k * ?h \<le> m * ?h" by (intro mult_le_mono1) simp
    with less assms(5) show ?thesis by simp
  next
    case greater
    then have "Suc m * ?h \<le> k * ?h" by (intro mult_le_mono1) simp
    with greater assms(4) show ?thesis by simp
  qed simp
  ultimately show ?thesis
    using assms(2) by (auto simp: half_at_def slot_cell [OF assms(1)] nth_splice_at)
qed

lemma last_complete_cong: "(\<And>k. k < m \<Longrightarrow> complete n f k = complete n g k) \<Longrightarrow>
    last_complete n f m = last_complete n g m"
  by (induction m) simp_all

lemma last_complete_less: "last_complete n f m = Some k \<Longrightarrow> k < m"
  by (induction m) (auto split: if_splits)

lemma slot_bytes_half:
  assumes "\<And>i. i < ini_len n div 2 \<Longrightarrow> half_at f (slot n k + 2 * i) = half_at g (slot n j + 2 * i)" "size_ok n"
  shows "slot_bytes n f k = slot_bytes n g j"
proof -
  have "byte_at f (slot n k + 2 + i) = byte_at g (slot n j + 2 + i)" if "i < n" for i
  proof -
    have e: "even (slot n x)" for x using ini_len_ok(1) [OF assms(2)] by (simp add: slot_def FLASH_STORE_STR_ADR_def)
    have h: "half_at f (slot n k + 2 * (i div 2 + 1)) = half_at g (slot n j + 2 * (i div 2 + 1))"
      using that ini_len_ok(1) [OF assms(2)] by (intro assms(1)) auto
    show ?thesis
    proof (cases "even i")
      case True
      then have "slot n x + 2 + i = slot n x + 2 * (i div 2 + 1)" for x by simp
      with h True e show ?thesis by (simp add: byte_at_def)
    next
      case False
      then have "slot n x + 2 + i - 1 = slot n x + 2 * (i div 2 + 1)" for x by presburger
      with h False e show ?thesis by (simp add: byte_at_def)
    qed
  qed
  then show ?thesis by (simp add: slot_bytes_def)
qed

text \<open>Part of a block programmed into the first free slot.\<close>

lemma partial_block:
  assumes "page_ok n m f" "size_ok n" "m < slots n" "0 < j" "j \<le> length (ini_image blk n)"
  defines "g \<equiv> splice_at f (m * (ini_len n div 2)) (take j (ini_image blk n))"
  shows "page_ok n (Suc m) g" "complete n g m \<longleftrightarrow> j = length (ini_image blk n)"
    "\<And>k. k < m \<Longrightarrow> complete n g k = complete n f k" "\<And>k. k < m \<Longrightarrow> slot_bytes n g k = slot_bytes n f k"
proof -
  let ?h = "ini_len n div 2" and ?ws = "take j (ini_image blk n)"
  have l: "length (ini_image blk n) = ?h" by (rule length_ini_image [OF assms(2)])
  then have lw: "length ?ws = j" "j \<le> ?h" using assms(5) by simp_all
  have h2: "2 \<le> ?h" "ini_len n = 2 * ?h" using ini_len_ok(1) [OF assms(2)] by simp_all
  have f: "length f = 512" using assms(1) by (simp add: page_ok_def)
  have cell: "half_at g (slot n k + 2 * i) = (if k = m \<and> i < j then ini_image blk n ! i else half_at f (slot n k + 2 * i))"
    if "k < slots n" "i < ?h" for k i
    using splice_half [OF assms(2) f that(1) _ that(2) assms(3), of ?ws] lw l that(2) by (auto simp: g_def)
  have room: "m * ?h + ?h \<le> 512" by (rule slot_room [OF assms(2,3)])
  have "half_at g (slot n k) = 0x55AA" if "k < Suc m" for k
    using cell [of k 0] that assms(1,3,4) h2(1) by (auto simp: page_ok_def ini_image_def less_Suc_eq)
  moreover have "g ! i = 0xFFFF" if "Suc m * ?h \<le> i" "i < 512" for i
    using that room lw f assms(1) by (simp add: g_def nth_splice_at page_ok_def)
  ultimately show "page_ok n (Suc m) g"
    using assms(1,3) room lw by (simp add: page_ok_def g_def)
  have last: "slot n k + ini_len n - 2 = slot n k + 2 * (?h - 1)" for k using h2 by simp
  show "complete n g m \<longleftrightarrow> j = length (ini_image blk n)"
  proof (cases "j = ?h")
    case True
    have "ini_image blk n ! (?h - 1) = 0xAA55"
      unfolding l [symmetric] by (simp add: ini_image_def nth_append)
    with cell [OF assms(3), of "?h - 1"] h2 True l show ?thesis by (simp add: complete_def last)
  next
    case False
    have "m * ?h + (?h - 1) < 512" using room h2(1) by linarith
    then have "f ! (m * ?h + (?h - 1)) = 0xFFFF"
      using assms(1) unfolding page_ok_def by (metis le_add1)
    then have "half_at f (slot n m + 2 * (?h - 1)) = 0xFFFF" by (simp add: half_at_def slot_cell [OF assms(2)])
    moreover have "\<not> ?h - Suc 0 < j" using False lw(2) h2(1) by linarith
    ultimately show ?thesis using cell [OF assms(3), of "?h - 1"] h2(1) False l by (simp add: complete_def last)
  qed
  show "complete n g k = complete n f k" if "k < m" for k
    using cell [of k "?h - 1"] that assms(3) h2(1) by (simp add: complete_def last)
  show "slot_bytes n g k = slot_bytes n f k" if "k < m" for k
    by (rule slot_bytes_half [OF _ assms(2)]) (use cell [of k] that assms(3) in simp)
qed

lemma erased_page_ok: "size_ok n \<Longrightarrow> page_ok n 0 (replicate 512 0xFFFF)"
  by (simp add: page_ok_def)

lemma from_le16_bytes [simp]: "ucast (from_le16 lo hi) = lo" "ucast (drop_bit 8 (from_le16 lo hi)) = hi"
  using le16_from_le16 [of lo hi] by (simp_all add: le16_def del: le16_from_le16)

lemma slot_bytes_image:
  assumes "size_ok n" "\<And>i. i < ini_len n div 2 \<Longrightarrow> half_at g (slot n m + 2 * i) = ini_image blk n ! i"
    "n \<le> length blk"
  shows "slot_bytes n g m = take n blk"
proof (rule nth_equalityI)
  fix i assume "i < length (slot_bytes n g m)"
  then have i: "i < n" by (simp add: slot_bytes_def)
  have e: "even (slot n m)" using ini_len_ok(1) [OF assms(1)] by (simp add: slot_def FLASH_STORE_STR_ADR_def)
  have k: "i div 2 + 1 < ini_len n div 2" "i div 2 < (n + 1) div 2"
    using i ini_len_ok(1) [OF assms(1)] by auto
  have h: "half_at g (slot n m + 2 * (i div 2 + 1)) =
      from_le16 (blk ! (2 * (i div 2))) (blk ! (2 * (i div 2) + 1))"
    using assms(2) [OF k(1)] k(2) by (simp add: ini_image_def ini_words_def nth_append)
  have "byte_at g (slot n m + 2 + i) = blk ! i"
  proof (cases "even i")
    case True
    then have "slot n m + 2 + i = slot n m + 2 * (i div 2 + 1)" "2 * (i div 2) = i" by simp_all
    with h e True show ?thesis by (simp add: byte_at_def)
  next
    case False
    then have "slot n m + 2 + i - 1 = slot n m + 2 * (i div 2 + 1)" "2 * (i div 2) + 1 = i" by presburger+
    with h e False show ?thesis by (simp add: byte_at_def)
  qed
  then show "slot_bytes n g m ! i = take n blk ! i" using i assms(3) by (simp add: slot_bytes_def)
qed (use assms(3) in \<open>simp add: slot_bytes_def\<close>)

text \<open>The effect of a whole or partial write on what is stored.\<close>

lemma block_stored:
  assumes "page_ok n m f" "size_ok n" "m < slots n" "0 < j" "j \<le> length (ini_image blk n)" "n \<le> length blk"
  defines "g \<equiv> splice_at f (m * (ini_len n div 2)) (take j (ini_image blk n))"
  shows "page_ok n (Suc m) g \<and> stored n (Suc m) g =
    (if j = length (ini_image blk n) then Some (take n blk) else stored n m f)"
proof -
  note p = partial_block [OF assms(1-5), folded g_def]
  have l: "length (ini_image blk n) = ini_len n div 2" by (rule length_ini_image [OF assms(2)])
  have f: "length f = 512" using assms(1) by (simp add: page_ok_def)
  have "last_complete n g m = last_complete n f m" by (rule last_complete_cong) (rule p(3))
  moreover have "map_option (slot_bytes n g) (last_complete n f m) = map_option (slot_bytes n f) (last_complete n f m)"
    using p(4) last_complete_less [of n f m] by (cases "last_complete n f m") auto
  moreover have "slot_bytes n g m = take n blk" if "j = length (ini_image blk n)"
    by (rule slot_bytes_image [OF assms(2) _ assms(6)])
      (use splice_half [OF assms(2) f assms(3) _ _ assms(3), of "ini_image blk n"] that l in \<open>simp add: g_def\<close>)
  ultimately show ?thesis using p(1,2) by (simp add: stored_def)
qed

lemma write_run:
  assumes "flash_hw_ok hw" "page_ok n m f" "size_ok n" "j \<le> length (ini_trace blk n m)" "0 < j" "n \<le> length blk"
  defines "g \<equiv> flash_run hw (take j (ini_trace blk n m)) f"
  shows "\<exists>m'. page_ok n m' g \<and> stored n m' g =
    (if j = length (ini_trace blk n m) then Some (take n blk) else if m < slots n then stored n m f else None)"
proof (cases "m < slots n")
  case True
  let ?h = "ini_len n div 2"
  have j: "j \<le> length (ini_image blk n)" using True assms(4) by (simp add: ini_trace_def)
  have "g = program_seq hw f (m * ?h) (take j (ini_image blk n))"
    using True by (simp add: g_def ini_trace_def take_programs flash_run_programs)
  also have "\<dots> = splice_at f (m * ?h) (take j (ini_image blk n))"
    using assms(2) slot_room [OF assms(3) True] length_ini_image [OF assms(3), of blk] j
    by (intro program_seq_splice [OF assms(1)]) (auto simp: page_ok_def)
  finally have "g = \<dots>" .
  with block_stored [OF assms(2,3) True assms(5) j assms(6)] True show ?thesis
    by (intro exI [of _ "Suc m"]) (simp add: ini_trace_def)
next
  case False
  let ?e = "replicate 512 0xFFFF :: u16 list"
  have e: "FLASH_ErasePage hw f = ?e" using assms(1,2) by (simp add: flash_hw_ok_def page_ok_def)
  obtain i where i: "j = Suc i" using assms(5) by (cases j) auto
  then have il: "i \<le> length (ini_image blk n)" using False assms(4) by (simp add: ini_trace_def)
  have "g = program_seq hw ?e 0 (take i (ini_image blk n))"
    using False by (simp add: g_def ini_trace_def take_programs flash_run_programs i e)
  also have "\<dots> = splice_at ?e 0 (take i (ini_image blk n))"
    using slot_room [OF assms(3) ini_len_ok(3) [OF assms(3)]] length_ini_image [OF assms(3), of blk] il
    by (intro program_seq_splice [OF assms(1)]) auto
  finally have g: "g = splice_at ?e 0 (take i (ini_image blk n))" .
  show ?thesis
  proof (cases "i = 0")
    case True
    then have "g = ?e" by (simp add: g splice_at_def)
    with erased_page_ok [OF assms(3)] False True i show ?thesis
      by (intro exI [of _ 0]) (auto simp: stored_def ini_trace_def ini_image_def)
  next
    case nz: False
    from block_stored [OF erased_page_ok [OF assms(3)] assms(3) ini_len_ok(3) [OF assms(3)] _ il assms(6)] nz False
    show ?thesis by (intro exI [of _ "Suc 0"]) (simp add: g i ini_trace_def stored_def)
  qed
qed

section \<open>Properties\<close>

text \<open>
  C39: Settings written to the log are read back: from a page in order, with any number of blocks in it,
  a write terminates, leaves a page in order and the next read returns exactly the block written,
  also when the page had to be erased for it.
\<close>

theorem WriteIniBlk_read_back:
  assumes "flash_hw_ok hw" "page_ok n m f" "n \<le> 1020" "n + n mod 2 \<le> length blk"
  shows "\<exists>g m'. WriteIniBlk hw blk n f = Some g \<and> page_ok n m' g \<and>
    (\<forall>dest. ReadIniBlk dest n g = Some (1, take n blk @ drop n dest))"
proof -
  have s: "size_ok n" using assms(3) by (simp add: size_ok_def)
  have pos: "0 < length (ini_trace blk n m)" by (simp add: ini_trace_def ini_image_def)
  from write_run [OF assms(1,2) s order_refl pos] assms(4) obtain m' where
    "page_ok n m' (flash_run hw (ini_trace blk n m) f)"
    "stored n m' (flash_run hw (ini_trace blk n m) f) = Some (take n blk)" by auto
  with write_trace [OF assms(2) s assms(4)] read_stored [OF _ s] show ?thesis by auto
qed

text \<open>
  C40: An interrupted write: the power may fail after any number of the flash operations of a write. As
  long as the page had a free slot, the next read returns the previous settings, or none if there were
  none; the new ones appear with the last half-word. When the page was full, every failure after the
  erase and before the last half-word leaves no settings at all: the previous ones are lost.
\<close>

theorem WriteIniBlk_interrupted:
  assumes "flash_hw_ok hw" "page_ok n m f" "n \<le> 1020" "n + n mod 2 \<le> length blk"
    "j \<le> length (ini_trace blk n m)"
  shows "WriteIniBlk hw blk n f = Some (flash_run hw (ini_trace blk n m) f) \<and>
    ReadIniBlk dest n (flash_run hw (take j (ini_trace blk n m)) f) =
      (if j = length (ini_trace blk n m) then Some (1, take n blk @ drop n dest)
       else if m < slots n \<or> j = 0 then ReadIniBlk dest n f
       else Some (0, dest))"
proof -
  have s: "size_ok n" using assms(3) by (simp add: size_ok_def)
  show ?thesis
  proof (cases "j = 0")
    case True
    moreover have "0 < length (ini_trace blk n m)" by (simp add: ini_trace_def ini_image_def)
    ultimately show ?thesis using write_trace [OF assms(2) s assms(4)] by simp
  next
    case False
    have "0 < j" "n \<le> length blk" using False assms(4) by simp_all
    from write_run [OF assms(1,2) s assms(5) this] obtain m' where
      "page_ok n m' (flash_run hw (take j (ini_trace blk n m)) f)"
      "stored n m' (flash_run hw (take j (ini_trace blk n m)) f) = (if j = length (ini_trace blk n m)
        then Some (take n blk) else if m < slots n then stored n m f else None)" by blast
    with write_trace [OF assms(2) s assms(4)] read_stored [OF _ s] assms(2) False show ?thesis
      by (cases "stored n m f") auto
  qed
qed

text \<open>A flash that clears bits when programmed and sets them all when erased.\<close>

definition and_flash :: flash_hw where
  "and_flash = \<lparr>FLASH_ProgramHalfWord = (\<lambda>f i w. f[i := f ! i AND w]), FLASH_ErasePage = map (\<lambda>_. 0xFFFF)\<rparr>"

lemma and_flash_ok: "flash_hw_ok and_flash"
proof -
  have "(0xFFFF :: u16) AND w = w" for w :: u16
  proof -
    have "(0xFFFF :: u16) = - 1" by simp
    then show ?thesis by (simp only: and.left_neutral)
  qed
  moreover have "map (\<lambda>_. 0xFFFF :: u16) f = replicate 512 0xFFFF" if "length f = 512" for f :: "u16 list"
    using that by (simp add: map_replicate_const)
  ultimately show ?thesis by (simp add: flash_hw_ok_def and_flash_def)
qed

theorem WriteIniBlk_read_back_witness:
  "\<exists>g. WriteIniBlk and_flash [1, 2, 3, 0] 3 (replicate 512 0xFFFF) = Some g \<and>
     ReadIniBlk [0, 0, 0] 3 g = Some (1, [1, 2, 3])"
  using WriteIniBlk_read_back [OF and_flash_ok erased_page_ok, of 3 "[1, 2, 3, 0]"]
  by (auto simp: size_ok_def)

text \<open>Blocks of 510 bytes: the page has one slot. The first block is lost while the second is written.\<close>

theorem WriteIniBlk_interrupted_witness:
  "\<exists>g. WriteIniBlk and_flash (replicate 510 7) 510 (replicate 512 0xFFFF) = Some g \<and>
     ReadIniBlk (replicate 510 0) 510 g = Some (1, replicate 510 7) \<and>
     ReadIniBlk (replicate 510 0) 510 (flash_run and_flash (take 1 (ini_trace (replicate 510 8) 510 1)) g) =
       Some (0, replicate 510 0)"
proof -
  let ?e = "replicate 512 0xFFFF :: u16 list" and ?b = "replicate 510 7 :: u8 list"
  let ?g = "flash_run and_flash (ini_trace ?b 510 0) ?e"
  have n: "slots 510 = 1" "size_ok 510" by (simp_all add: slots_def ini_len_def size_ok_def)
  have e: "page_ok 510 0 ?e" by (rule erased_page_ok [OF n(2)])
  have l: "length (ini_trace ?b 510 0) = 257" "length (ini_trace (replicate 510 8) 510 1) = 258"
    by (simp_all add: ini_trace_def n(1) ini_image_def ini_words_def)
  from write_run [OF and_flash_ok e n(2), of "length (ini_trace ?b 510 0)" ?b] l(1) obtain m' where
    m': "page_ok 510 m' ?g" "stored 510 m' ?g = Some ?b" by auto
  have "m' \<noteq> 0" using m'(2) by (cases m') (auto simp: stored_def)
  then have "page_ok 510 1 ?g" using m'(1) n(1) by (cases "m' = 1") (auto simp: page_ok_def)
  note second = WriteIniBlk_interrupted [OF and_flash_ok this, of "replicate 510 8" 1 "replicate 510 0"]
  note first = WriteIniBlk_interrupted [OF and_flash_ok e, of ?b 257 "replicate 510 0"]
  show ?thesis
    by (rule exI [of _ ?g]) (use first second l n(1) in simp)
qed

end
