(* ===== verification/Smbus.thy ===== *)
theory Smbus
  imports Prelude
begin

text \<open>
  The SMBus driver of the STM32F103 port (\<open>STM32F103/Main/smbus.c\<close>) with the functions of the
  peripheral library it calls (\<open>stm32f10x_i2c.c\<close>, of which \<open>I2C_Init\<close> was rewritten for this
  program). The peripheral is a sequence of samples of the status and data registers, one for each
  read; what the driver does on the bus is logged in order. Every wait is bounded by a counter.
\<close>

section \<open>Registers and the peripheral\<close>

definition I2C_EVENT_MASTER_MODE_SELECT :: u32 where [regs]: "I2C_EVENT_MASTER_MODE_SELECT = 0x00030001"
definition I2C_EVENT_MASTER_TRANSMITTER_MODE_SELECTED :: u32 where [regs]:
  "I2C_EVENT_MASTER_TRANSMITTER_MODE_SELECTED = 0x00070082"
definition I2C_EVENT_MASTER_RECEIVER_MODE_SELECTED :: u32 where [regs]:
  "I2C_EVENT_MASTER_RECEIVER_MODE_SELECTED = 0x00030002"
definition I2C_EVENT_MASTER_BYTE_RECEIVED :: u32 where [regs]: "I2C_EVENT_MASTER_BYTE_RECEIVED = 0x00030040"
definition I2C_EVENT_MASTER_BYTE_TRANSMITTED :: u32 where [regs]:
  "I2C_EVENT_MASTER_BYTE_TRANSMITTED = 0x00070084"
definition I2C_FLAG_BUSY :: u32 where [regs]: "I2C_FLAG_BUSY = 0x00020000"
definition SMBus_Max_Delay_Cycles :: nat where "SMBus_Max_Delay_Cycles = 5000"
definition SMBus_Speed :: u32 where [regs]: "SMBus_Speed = 10000000"

record smb_sample =
  sr1 :: u16
  sr2 :: u16
  dr :: u8

type_synonym smb_env = "nat \<Rightarrow> smb_sample"

record i2c_regs =
  cr1 :: u16
  cr2 :: u16
  oar1 :: u16
  ccr :: u16
  trise :: u16

datatype smb_out = Start | Stop | Ack bool | Put u8 | Enable

record smb =
  i2c2 :: i2c_regs
  wire :: "smb_out list"
  smb_pos :: nat

section \<open>The peripheral library\<close>

definition I2C_CheckEvent :: "u32 \<Rightarrow> smb_sample \<Rightarrow> bool" where
  "I2C_CheckEvent ev x =
     (let lastevent = (ucast (sr1 x) OR push_bit 16 (ucast (sr2 x)) :: u32) AND 0x00FFFFFF
      in lastevent AND ev = ev)"

definition I2C_GetFlagStatus :: "u32 \<Rightarrow> smb_sample \<Rightarrow> bool" where
  "I2C_GetFlagStatus flag x =
     (let flag' = flag AND 0x00FFFFFF
      in if drop_bit 28 flag \<noteq> 0 then (ucast (sr1 x) :: u32) AND flag' \<noteq> 0
         else (ucast (sr2 x) :: u32) AND drop_bit 16 flag' \<noteq> 0)"

text \<open>The address byte for the two directions of \<open>I2C_Send7bitAddress\<close>.\<close>

definition adr_wr :: "u8 \<Rightarrow> u8" where "adr_wr a = a AND 0xFE"
definition adr_rd :: "u8 \<Rightarrow> u8" where "adr_rd a = a OR 0x01"

text \<open>
  \<open>I2C_Init\<close> with the settings of \<open>SMBusInit\<close>; \<open>pclk1\<close> is the bus clock that
  \<open>RCC_GetClocksFreq\<close> reports. A division by zero is \<open>None\<close>.
\<close>

definition I2C_Init :: "u32 \<Rightarrow> u32 \<Rightarrow> i2c_regs \<Rightarrow> i2c_regs option" where
  "I2C_Init pclk1 speed r =
     (let freqrange = (ucast (pclk1 div 1000000) :: u16);
          r = r\<lparr>cr2 := (cr2 r AND 0xFFC0) OR freqrange\<rparr>;
          r = r\<lparr>cr1 := cr1 r AND 0xFFFE\<rparr>
      in if speed * 2 = 0 then None
         else
           (let result = (ucast (pclk1 div (speed * 2)) :: u16) AND 0x0FFF;
                result = (if result = 0 then 1 else result);
                tmpreg = result OR 0x8000;
                result = drop_bit 2 result;
                result = (if result < 2 then 2 else result);
                r = r\<lparr>trise := result, ccr := tmpreg\<rparr>;
                r = r\<lparr>cr1 := cr1 r OR 0x0001\<rparr>;
                r = r\<lparr>cr1 := (cr1 r AND 0xFBF5) OR (0x000A OR 0x0400)\<rparr>
            in Some (r\<lparr>oar1 := 0x4000 OR 0x01\<rparr>)))"

definition emit :: "smb_out \<Rightarrow> smb \<Rightarrow> smb" where
  "emit x s = s\<lparr>wire := wire s @ [x]\<rparr>"

definition I2C_Cmd_enable :: "smb \<Rightarrow> smb" where
  "I2C_Cmd_enable s = emit Enable (s\<lparr>i2c2 := (i2c2 s)\<lparr>cr1 := cr1 (i2c2 s) OR 0x0001\<rparr>\<rparr>)"

section \<open>The driver\<close>

text \<open>The clock and pin set-up of \<open>SMBusInit\<close> is not modelled.\<close>

definition SMBusInit :: "u32 \<Rightarrow> u32 \<Rightarrow> smb \<Rightarrow> smb option" where
  "SMBusInit pclk1 speed s =
     do { r \<leftarrow> I2C_Init pclk1 speed (i2c2 s); Some (I2C_Cmd_enable (s\<lparr>i2c2 := r\<rparr>)) }"

text \<open>
  \<open>while (!check && counter) --counter;\<close>: the check is made once more with the counter at 0. The
  result is the counter, which the code then tests.
\<close>

fun smb_poll :: "smb_env \<Rightarrow> (smb_sample \<Rightarrow> bool) \<Rightarrow> nat \<Rightarrow> nat \<Rightarrow> nat \<times> nat" where
  "smb_poll env chk 0 p = (0, p + 1)"
| "smb_poll env chk (Suc n) p = (if chk (env p) then (Suc n, p + 1) else smb_poll env chk n (p + 1))"

definition smb_wait :: "smb_env \<Rightarrow> (smb_sample \<Rightarrow> bool) \<Rightarrow> smb \<Rightarrow> bool \<times> smb" where
  "smb_wait env chk s =
     (let (counter, p) = smb_poll env chk SMBus_Max_Delay_Cycles (smb_pos s)
      in (counter \<noteq> 0, s\<lparr>smb_pos := p\<rparr>))"

definition ev_wait :: "smb_env \<Rightarrow> u32 \<Rightarrow> smb \<Rightarrow> bool \<times> smb" where
  "ev_wait env ev s = smb_wait env (I2C_CheckEvent ev) s"

definition busy_wait :: "smb_env \<Rightarrow> smb \<Rightarrow> bool \<times> smb" where
  "busy_wait env s = smb_wait env (\<lambda>x. \<not> I2C_GetFlagStatus I2C_FLAG_BUSY x) s"

text \<open>\<open>if (counter == 0) break;\<close>: the rest of the transfer runs only if the wait was successful.\<close>

definition guarded :: "bool \<times> smb \<Rightarrow> (smb \<Rightarrow> bool \<times> smb) \<Rightarrow> bool \<times> smb" where
  "guarded w rest = (case w of (ok, s) \<Rightarrow> if ok then rest s else (False, s))"

definition SMBusWriteWord :: "smb_env \<Rightarrow> u8 \<Rightarrow> u16 \<Rightarrow> u8 \<Rightarrow> smb \<Rightarrow> u8 \<times> smb" where
  "SMBusWriteWord env slaveAddr data WriteAddr s =
     (let (ok, s) =
        guarded (busy_wait env s) (\<lambda>s.
        guarded (ev_wait env I2C_EVENT_MASTER_MODE_SELECT (emit Start s)) (\<lambda>s.
        guarded (ev_wait env I2C_EVENT_MASTER_TRANSMITTER_MODE_SELECTED (emit (Put (adr_wr slaveAddr)) s)) (\<lambda>s.
        guarded (ev_wait env I2C_EVENT_MASTER_BYTE_TRANSMITTED (emit (Put WriteAddr) s)) (\<lambda>s.
        guarded (ev_wait env I2C_EVENT_MASTER_BYTE_TRANSMITTED (emit (Put (ucast (drop_bit 8 data))) s)) (\<lambda>s.
        (True, emit Stop (emit (Put (ucast (data AND 0xFF))) s)))))))
      in (if ok then 1 else 0, s))"

text \<open>\<open>I2C_ReceiveData\<close>: one more read of the peripheral.\<close>

definition I2C_ReceiveData :: "smb_env \<Rightarrow> smb \<Rightarrow> u8 \<times> smb" where
  "I2C_ReceiveData env s = (dr (env (smb_pos s)), s\<lparr>smb_pos := smb_pos s + 1\<rparr>)"

text \<open>Addressing the register: the part of a read before the first data byte.\<close>

definition read_select :: "smb_env \<Rightarrow> u8 \<Rightarrow> u8 \<Rightarrow> smb \<Rightarrow> bool \<times> smb" where
  "read_select env slaveAddr ReadAddr s =
     guarded (busy_wait env s) (\<lambda>s.
     guarded (ev_wait env I2C_EVENT_MASTER_MODE_SELECT (emit Start s)) (\<lambda>s.
     guarded (ev_wait env I2C_EVENT_MASTER_TRANSMITTER_MODE_SELECTED (emit (Put (adr_wr slaveAddr)) s)) (\<lambda>s.
     guarded (ev_wait env I2C_EVENT_MASTER_BYTE_TRANSMITTED (emit (Put ReadAddr) (I2C_Cmd_enable s))) (\<lambda>s.
     guarded (ev_wait env I2C_EVENT_MASTER_MODE_SELECT (emit Start s)) (\<lambda>s.
     guarded (ev_wait env I2C_EVENT_MASTER_RECEIVER_MODE_SELECTED (emit (Put (adr_rd slaveAddr)) s)) (\<lambda>s.
     ev_wait env I2C_EVENT_MASTER_BYTE_RECEIVED s))))))"

definition SMBusReadWord :: "smb_env \<Rightarrow> u8 \<Rightarrow> u16 \<Rightarrow> u8 \<Rightarrow> smb \<Rightarrow> u8 \<times> u16 \<times> smb" where
  "SMBusReadWord env slaveAddr data ReadAddr s =
     (case read_select env slaveAddr ReadAddr s of
        (False, s) \<Rightarrow> (0, data, s)
      | (True, s) \<Rightarrow>
          (let (uc1, s) = I2C_ReceiveData env s;
               s = emit Stop (emit (Ack False) s);
               (ok, s) = ev_wait env I2C_EVENT_MASTER_BYTE_RECEIVED s;
               s = emit (Ack True) s
           in if \<not> ok then (0, data, s)
              else (let (uc0, s) = I2C_ReceiveData env s in (1, from_le16 uc0 uc1, s))))"

definition SMBusSendPOR :: "smb_env \<Rightarrow> smb \<Rightarrow> smb" where
  "SMBusSendPOR env s =
     snd (guarded (ev_wait env I2C_EVENT_MASTER_MODE_SELECT (emit Start s)) (\<lambda>s.
          guarded (ev_wait env I2C_EVENT_MASTER_TRANSMITTER_MODE_SELECTED (emit (Put (adr_wr 0x00)) s)) (\<lambda>s.
          (True, emit Stop (emit (Put 0x06) s)))))"

section \<open>Transfers as sequences of waits\<close>

text \<open>
  \<open>smb_ok env outs rounds t r\<close>: from the state \<open>t\<close> the guarded sequence \<open>r\<close> has done a prefix of
  \<open>outs\<close> in at most \<open>rounds\<close> waits, and the whole of it if and only if it was successful.
\<close>

definition smb_ok :: "smb_out list \<Rightarrow> nat \<Rightarrow> smb \<Rightarrow> bool \<times> smb \<Rightarrow> bool" where
  "smb_ok outs rounds t r \<longleftrightarrow>
     (\<exists>k \<le> length outs. wire (snd r) = wire t @ take k outs \<and> (fst r \<longrightarrow> k = length outs) \<and>
       (\<not> fst r \<longrightarrow> Stop \<notin> set (take k outs))) \<and>
     smb_pos t \<le> smb_pos (snd r) \<and> smb_pos (snd r) \<le> smb_pos t + rounds * Suc SMBus_Max_Delay_Cycles"

lemma smb_poll_bound: "smb_poll env chk n p = (c, q) \<Longrightarrow> p < q \<and> q \<le> p + Suc n \<and> (c \<noteq> 0 \<longrightarrow> chk (env (q - 1)))"
  by (induction env chk n p rule: smb_poll.induct) (auto split: if_splits)

lemma smb_poll_found: "chk (env p) \<Longrightarrow> smb_poll env chk (Suc n) p = (Suc n, p + 1)"
  by simp

lemma smb_wait_found: "chk (env (smb_pos s)) \<Longrightarrow> smb_wait env chk s = (True, s\<lparr>smb_pos := smb_pos s + 1\<rparr>)"
  using smb_poll_found [of chk env "smb_pos s" 4999]
  by (simp add: smb_wait_def SMBus_Max_Delay_Cycles_def)

lemma smb_wait_spec:
  assumes "smb_wait env chk s = (ok, s')"
  shows "\<exists>p. s' = s\<lparr>smb_pos := p\<rparr> \<and> smb_pos s < p \<and> p \<le> smb_pos s + Suc SMBus_Max_Delay_Cycles \<and>
    (ok \<longrightarrow> chk (env (p - 1)))"
  using assms smb_poll_bound [of env chk SMBus_Max_Delay_Cycles "smb_pos s"]
  by (auto simp: smb_wait_def split: prod.splits)

lemma emit_simps [simp]:
  "wire (emit x s) = wire s @ [x]" "smb_pos (emit x s) = smb_pos s"
  "wire (I2C_Cmd_enable s) = wire s @ [Enable]" "smb_pos (I2C_Cmd_enable s) = smb_pos s"
  by (simp_all add: emit_def I2C_Cmd_enable_def)

lemma smb_ok_done: "smb_ok [] n t (True, t)"
  by (simp add: smb_ok_def)

lemma smb_ok_guarded:
  assumes "w = smb_wait env chk t'" "wire t' = wire t @ pre" "smb_pos t' = smb_pos t" "Stop \<notin> set pre"
    "\<And>s. wire s = wire t' \<Longrightarrow> smb_ok outs n s (rest s)"
  shows "smb_ok (pre @ outs) (Suc n) t (guarded w rest)"
proof -
  obtain ok s where w: "smb_wait env chk t' = (ok, s)" by (cases "smb_wait env chk t'")
  from smb_wait_spec [OF w] obtain p where p: "s = t'\<lparr>smb_pos := p\<rparr>" "smb_pos t' < p"
    "p \<le> smb_pos t' + Suc SMBus_Max_Delay_Cycles" by blast
  show ?thesis
  proof (cases ok)
    case True
    have "wire s = wire t'" using p(1) by simp
    from assms(5) [OF this] obtain k where k: "k \<le> length outs" "wire (snd (rest s)) = wire s @ take k outs"
      "fst (rest s) \<longrightarrow> k = length outs" "\<not> fst (rest s) \<longrightarrow> Stop \<notin> set (take k outs)"
      "smb_pos s \<le> smb_pos (snd (rest s))" "smb_pos (snd (rest s)) \<le> smb_pos s + n * Suc SMBus_Max_Delay_Cycles"
      by (auto simp: smb_ok_def)
    have "guarded w rest = rest s" using w True assms(1) by (simp add: guarded_def)
    then show ?thesis unfolding smb_ok_def using k p assms(2-4)
      by (intro conjI exI [of _ "length pre + k"]) auto
  next
    case False
    then have "guarded w rest = (False, s)" using w assms(1) by (simp add: guarded_def)
    then show ?thesis unfolding smb_ok_def using p assms(2-4)
      by (intro conjI exI [of _ "length pre"]) auto
  qed
qed

lemma smb_ok_busy: "(\<And>s. smb_ok outs n s (rest s)) \<Longrightarrow> smb_ok outs (Suc n) t (guarded (busy_wait env t) rest)"
  using smb_ok_guarded [OF busy_wait_def, of t t "[]" outs n rest] by simp

lemma smb_ok_ev: "(\<And>s. smb_ok outs n s (rest s)) \<Longrightarrow> x \<noteq> Stop \<Longrightarrow>
    smb_ok (x # outs) (Suc n) t (guarded (ev_wait env ev (emit x t)) rest)"
  using smb_ok_guarded [OF ev_wait_def, of "emit x t" t "[x]" outs n rest] by simp

lemma smb_ok_enable: "(\<And>s. smb_ok outs n s (rest s)) \<Longrightarrow> x \<noteq> Stop \<Longrightarrow>
    smb_ok (Enable # x # outs) (Suc n) t (guarded (ev_wait env ev (emit x (I2C_Cmd_enable t))) rest)"
  using smb_ok_guarded [OF ev_wait_def, of "emit x (I2C_Cmd_enable t)" t "[Enable, x]" outs n rest] by simp

lemma smb_ok_last: "smb_ok [Put x, Stop] 0 s (True, emit Stop (emit (Put x) s))"
  by (auto simp: smb_ok_def intro!: exI [of _ "Suc (Suc 0)"])

lemma guarded_id: "guarded w (\<lambda>s. (True, s)) = w"
  by (simp add: guarded_def split: prod.split)

lemma smb_ok_wait: "smb_ok [] (Suc 0) t (ev_wait env ev t)"
  using smb_ok_guarded [OF ev_wait_def, of t t "[]" "[]" 0 "\<lambda>s. (True, s)" env ev] smb_ok_done
  by (simp add: guarded_id)

text \<open>What a whole write and the addressing part of a read put on the bus.\<close>

definition write_wire :: "u8 \<Rightarrow> u16 \<Rightarrow> u8 \<Rightarrow> smb_out list" where
  "write_wire a data reg =
     [Start, Put (adr_wr a), Put reg, Put (ucast (drop_bit 8 data)), Put (ucast (data AND 0xFF)), Stop]"

definition select_wire :: "u8 \<Rightarrow> u8 \<Rightarrow> smb_out list" where
  "select_wire a reg = [Start, Put (adr_wr a), Enable, Put reg, Start, Put (adr_rd a)]"

lemma SMBusWriteWord_ok:
  "\<exists>r. SMBusWriteWord env a data reg s = (if fst r then 1 else 0, snd r) \<and>
     smb_ok (write_wire a data reg) 5 s r"
proof (intro exI conjI)
  let ?r = "guarded (busy_wait env s) (\<lambda>s.
        guarded (ev_wait env I2C_EVENT_MASTER_MODE_SELECT (emit Start s)) (\<lambda>s.
        guarded (ev_wait env I2C_EVENT_MASTER_TRANSMITTER_MODE_SELECTED (emit (Put (adr_wr a)) s)) (\<lambda>s.
        guarded (ev_wait env I2C_EVENT_MASTER_BYTE_TRANSMITTED (emit (Put reg) s)) (\<lambda>s.
        guarded (ev_wait env I2C_EVENT_MASTER_BYTE_TRANSMITTED (emit (Put (ucast (drop_bit 8 data))) s)) (\<lambda>s.
        (True, emit Stop (emit (Put (ucast (data AND 0xFF))) s)))))))"
  show "SMBusWriteWord env a data reg s = (if fst ?r then 1 else 0, snd ?r)"
    by (simp add: SMBusWriteWord_def split: prod.split)
  have "smb_ok (write_wire a data reg) (Suc (Suc (Suc (Suc (Suc 0))))) s ?r"
    unfolding write_wire_def by (intro smb_ok_busy smb_ok_ev smb_ok_last) simp_all
  then show "smb_ok (write_wire a data reg) 5 s ?r" by (simp add: eval_nat_numeral)
qed

lemma read_select_ok: "smb_ok (select_wire a reg) 7 s (read_select env a reg s)"
proof -
  have "smb_ok (select_wire a reg) (Suc (Suc (Suc (Suc (Suc (Suc (Suc 0))))))) s (read_select env a reg s)"
    unfolding select_wire_def read_select_def
    by (intro smb_ok_busy smb_ok_ev smb_ok_enable smb_ok_wait) simp_all
  then show ?thesis by (simp add: eval_nat_numeral)
qed

text \<open>A device that answers at once: every wait is over with the first sample it reads.\<close>

definition write_checks :: "(smb_sample \<Rightarrow> bool) list" where
  "write_checks = [\<lambda>x. \<not> I2C_GetFlagStatus I2C_FLAG_BUSY x, I2C_CheckEvent I2C_EVENT_MASTER_MODE_SELECT,
     I2C_CheckEvent I2C_EVENT_MASTER_TRANSMITTER_MODE_SELECTED,
     I2C_CheckEvent I2C_EVENT_MASTER_BYTE_TRANSMITTED, I2C_CheckEvent I2C_EVENT_MASTER_BYTE_TRANSMITTED]"

definition answers :: "smb_env \<Rightarrow> (smb_sample \<Rightarrow> bool) list \<Rightarrow> nat \<Rightarrow> bool" where
  "answers env chks p \<longleftrightarrow> list_all (\<lambda>(k, chk). chk (env (p + k))) (enumerate 0 chks)"

lemma ev_wait_found: "I2C_CheckEvent ev (env (smb_pos s)) \<Longrightarrow> ev_wait env ev s = (True, s\<lparr>smb_pos := smb_pos s + 1\<rparr>)"
  by (simp add: ev_wait_def smb_wait_found)

lemma write_answered:
  assumes "answers env write_checks (smb_pos s)"
  shows "fst (SMBusWriteWord env a data reg s) = 1"
proof -
  let ?p = "smb_pos s"
  from assms have b: "\<not> I2C_GetFlagStatus I2C_FLAG_BUSY (env ?p)"
    "I2C_CheckEvent I2C_EVENT_MASTER_MODE_SELECT (env (?p + 1))"
    "I2C_CheckEvent I2C_EVENT_MASTER_TRANSMITTER_MODE_SELECTED (env (?p + 2))"
    "I2C_CheckEvent I2C_EVENT_MASTER_BYTE_TRANSMITTED (env (?p + 3))"
    "I2C_CheckEvent I2C_EVENT_MASTER_BYTE_TRANSMITTED (env (?p + 4))"
    by (simp_all add: answers_def write_checks_def numeral_eq_Suc)
  then have "busy_wait env s = (True, s\<lparr>smb_pos := ?p + 1\<rparr>)"
    by (simp add: busy_wait_def smb_wait_found)
  with b show ?thesis
    by (simp add: SMBusWriteWord_def guarded_def ev_wait_found eval_nat_numeral emit_def)
qed

lemma smb_okE:
  assumes "smb_ok outs n s r"
  obtains k where "k \<le> length outs" "wire (snd r) = wire s @ take k outs" "fst r \<longrightarrow> k = length outs"
    "\<not> fst r \<longrightarrow> Stop \<notin> set (take k outs)" "smb_pos (snd r) \<le> smb_pos s + n * 5001"
  using assms unfolding smb_ok_def SMBus_Max_Delay_Cycles_def by auto

lemma wire_lengths [simp]: "length (write_wire a data reg) = 6" "length (select_wire a reg) = 6"
  by (simp_all add: write_wire_def select_wire_def)

section \<open>Properties\<close>

text \<open>
  A register write over SMBus: it reports success or failure; it has put a beginning of start
  condition, device address for writing, register, high byte, low byte and stop condition on the bus, and
  the whole of it exactly if it reports success. A transfer that fails ends without a stop condition. It
  reads the peripheral at most 5 x 5001 times, and it succeeds if the device answers at once.
\<close>

theorem SMBusWriteWord_wire:
  assumes "SMBusWriteWord env a data reg s = (ret, s')"
  shows "ret \<in> {0, 1} \<and>
    (\<exists>k \<le> 6. wire s' = wire s @ take k [Start, Put (a AND 0xFE), Put reg, Put (ucast (drop_bit 8 data)),
         Put (ucast (data AND 0xFF)), Stop] \<and> (ret = 1 \<longleftrightarrow> k = 6) \<and>
       (ret = 0 \<longrightarrow> Stop \<notin> set (drop (length (wire s)) (wire s')))) \<and>
    smb_pos s' \<le> smb_pos s + 5 * 5001 \<and> (answers env write_checks (smb_pos s) \<longrightarrow> ret = 1)"
proof -
  obtain r where r: "ret = (if fst r then 1 else 0)" "s' = snd r" "smb_ok (write_wire a data reg) 5 s r"
    using SMBusWriteWord_ok [of env a data reg s] assms by auto
  from smb_okE [OF r(3)] obtain k where k: "k \<le> 6" "wire s' = wire s @ take k (write_wire a data reg)"
    "fst r \<longrightarrow> k = 6" "\<not> fst r \<longrightarrow> Stop \<notin> set (take k (write_wire a data reg))"
    "smb_pos s' \<le> smb_pos s + 5 * 5001"
    unfolding r(2) wire_lengths by blast
  have "\<not> fst r \<Longrightarrow> k \<noteq> 6" using k(4) by (auto simp: write_wire_def)
  moreover have "answers env write_checks (smb_pos s) \<longrightarrow> ret = 1"
    using write_answered [of env s a data reg] assms by auto
  ultimately show ?thesis using k r(1) unfolding write_wire_def adr_wr_def
    by (intro conjI exI [of _ k]) auto
qed

text \<open>A device that answers at once, and a driver at rest.\<close>

definition smb_demo_env :: smb_env where
  "smb_demo_env k = [\<lparr>sr1 = 0, sr2 = 0, dr = 0\<rparr>, \<lparr>sr1 = 1, sr2 = 3, dr = 0\<rparr>, \<lparr>sr1 = 0x82, sr2 = 7, dr = 0\<rparr>,
     \<lparr>sr1 = 0x84, sr2 = 7, dr = 0\<rparr>, \<lparr>sr1 = 0x85, sr2 = 7, dr = 0\<rparr>, \<lparr>sr1 = 2, sr2 = 3, dr = 0\<rparr>,
     \<lparr>sr1 = 0x40, sr2 = 3, dr = 0\<rparr>, \<lparr>sr1 = 0x40, sr2 = 3, dr = 0x12\<rparr>, \<lparr>sr1 = 0x40, sr2 = 3, dr = 0x34\<rparr>] ! min k 8"

definition smb_rest :: smb where
  "smb_rest = \<lparr>i2c2 = \<lparr>cr1 = 0, cr2 = 0, oar1 = 0, ccr = 0, trise = 0\<rparr>, wire = [], smb_pos = 0\<rparr>"

theorem SMBusWriteWord_wire_witness:
  "\<exists>s'. SMBusWriteWord smb_demo_env 0x80 0xC000 0 smb_rest = (1, s') \<and>
     wire s' = [Start, Put 0x80, Put 0, Put 0xC0, Put 0, Stop]"
proof -
  have ans: "answers smb_demo_env write_checks (smb_pos smb_rest)"
    by (simp add: answers_def write_checks_def smb_demo_env_def smb_rest_def I2C_CheckEvent_def
        I2C_GetFlagStatus_def regs)
  obtain ret s' where r: "SMBusWriteWord smb_demo_env 0x80 0xC000 0 smb_rest = (ret, s')"
    by (cases "SMBusWriteWord smb_demo_env 0x80 0xC000 0 smb_rest")
  from SMBusWriteWord_wire [OF r] ans have "ret = 1" by blast
  with SMBusWriteWord_wire [OF r] r show ?thesis by (auto simp: smb_rest_def)
qed

text \<open>
  A register read over SMBus: it fails before the data, having put a beginning of the addressing part
  on the bus and no stop condition; or it goes through, ends with a stop condition, and reports success
  if the second byte came, with the bytes received as a big-endian word. A failed read leaves the
  caller's word alone. It reads the peripheral at most 8 x 5001 + 2 times.
\<close>

theorem SMBusReadWord_wire:
  assumes "SMBusReadWord env a data reg s = (ret, data', s')"
  shows "(\<exists>k \<le> 6. ret = 0 \<and> wire s' = wire s @ take k (select_wire a reg) \<and>
       Stop \<notin> set (take k (select_wire a reg)) \<or>
     wire s' = wire s @ [Start, Put (a AND 0xFE), Enable, Put reg, Start, Put (a OR 1), Ack False, Stop, Ack True]) \<and>
    (if ret = 1 then \<exists>p q. p < q \<and> q < smb_pos s' \<and> data' = from_le16 (dr (env q)) (dr (env p))
     else ret = 0 \<and> data' = data) \<and>
    smb_pos s' \<le> smb_pos s + 8 * 5001 + 2"
proof -
  obtain ok s1 where r: "read_select env a reg s = (ok, s1)" by (cases "read_select env a reg s")
  from smb_okE [OF read_select_ok [of a reg s env]] obtain k where k: "k \<le> 6" "wire s1 = wire s @ take k (select_wire a reg)"
    "ok \<longrightarrow> k = 6" "\<not> ok \<longrightarrow> Stop \<notin> set (take k (select_wire a reg))" "smb_pos s1 \<le> smb_pos s + 7 * 5001"
    unfolding r fst_conv snd_conv wire_lengths by blast
  show ?thesis
  proof (cases ok)
    case False
    with assms r k show ?thesis by (auto simp: SMBusReadWord_def)
  next
    case True
    let ?s2 = "emit Stop (emit (Ack False) (s1\<lparr>smb_pos := smb_pos s1 + 1\<rparr>))"
    obtain ok2 s3 where w: "ev_wait env I2C_EVENT_MASTER_BYTE_RECEIVED ?s2 = (ok2, s3)"
      by (cases "ev_wait env I2C_EVENT_MASTER_BYTE_RECEIVED ?s2")
    from smb_wait_spec [OF w [unfolded ev_wait_def]] obtain p where
      p: "s3 = ?s2\<lparr>smb_pos := p\<rparr>" "smb_pos s1 + 1 < p" "p \<le> smb_pos s1 + 1 + 5001"
      by (auto simp: SMBus_Max_Delay_Cycles_def)
    have wire: "wire s1 = wire s @ select_wire a reg" using k True by (simp add: select_wire_def)
    have res: "(ret, data', s') = (if ok2 then (1, from_le16 (dr (env p)) (dr (env (smb_pos s1))),
        (emit (Ack True) s3)\<lparr>smb_pos := p + 1\<rparr>) else (0, data, emit (Ack True) s3))"
      using assms r True w p(1) by (auto simp: SMBusReadWord_def I2C_ReceiveData_def Let_def split: if_splits)
    have "wire s' = wire s @ [Start, Put (a AND 0xFE), Enable, Put reg, Start, Put (a OR 1), Ack False, Stop, Ack True]"
      using res p(1) wire by (auto simp: select_wire_def adr_wr_def adr_rd_def split: if_splits)
    moreover have "smb_pos s' \<le> smb_pos s + 8 * 5001 + 2" using res p k(5) by (auto split: if_splits)
    moreover have "if ret = 1 then \<exists>p q. p < q \<and> q < smb_pos s' \<and> data' = from_le16 (dr (env q)) (dr (env p))
       else ret = 0 \<and> data' = data"
    proof (cases ok2)
      case True
      with res p(2) have "ret = 1" "smb_pos s1 < p" "p < smb_pos s'"
        "data' = from_le16 (dr (env p)) (dr (env (smb_pos s1)))" by auto
      then show ?thesis by auto
    next
      case False
      with res show ?thesis by simp
    qed
    ultimately show ?thesis by blast
  qed
qed

lemma read_demo: "\<exists>s'. SMBusReadWord smb_demo_env 0x80 7 5 smb_rest = (1, 0x1234, s')"
proof -
  have "busy_wait smb_demo_env smb_rest = (True, smb_rest\<lparr>smb_pos := 1\<rparr>)"
    by (subst busy_wait_def, subst smb_wait_found)
       (simp_all add: smb_demo_env_def smb_rest_def I2C_GetFlagStatus_def regs)
  moreover have "I2C_CheckEvent I2C_EVENT_MASTER_MODE_SELECT (smb_demo_env (Suc 0))"
    "I2C_CheckEvent I2C_EVENT_MASTER_TRANSMITTER_MODE_SELECTED (smb_demo_env (Suc (Suc 0)))"
    "I2C_CheckEvent I2C_EVENT_MASTER_BYTE_TRANSMITTED (smb_demo_env (Suc (Suc (Suc 0))))"
    "I2C_CheckEvent I2C_EVENT_MASTER_MODE_SELECT (smb_demo_env (Suc (Suc (Suc (Suc 0)))))"
    "I2C_CheckEvent I2C_EVENT_MASTER_RECEIVER_MODE_SELECTED (smb_demo_env (Suc (Suc (Suc (Suc (Suc 0))))))"
    "I2C_CheckEvent I2C_EVENT_MASTER_BYTE_RECEIVED (smb_demo_env (Suc (Suc (Suc (Suc (Suc (Suc 0)))))))"
    "I2C_CheckEvent I2C_EVENT_MASTER_BYTE_RECEIVED (smb_demo_env (Suc (Suc (Suc (Suc (Suc (Suc (Suc (Suc 0)))))))))"
    by (simp_all add: smb_demo_env_def I2C_CheckEvent_def regs)
  moreover have "dr (smb_demo_env (Suc (Suc (Suc (Suc (Suc (Suc (Suc 0)))))))) = 0x12" "dr (smb_demo_env (Suc (Suc (Suc (Suc (Suc (Suc (Suc (Suc (Suc 0)))))))))) = 0x34" by (simp_all add: smb_demo_env_def)
  moreover have "from_le16 0x34 0x12 = 0x1234" by (simp add: from_le16_def)
  ultimately show ?thesis
    by (simp add: SMBusReadWord_def read_select_def guarded_def ev_wait_found smb_rest_def emit_def
        I2C_Cmd_enable_def I2C_ReceiveData_def)
qed

theorem SMBusReadWord_wire_witness:
  "\<exists>s' p q. SMBusReadWord smb_demo_env 0x80 7 5 smb_rest = (1, 0x1234, s') \<and> smb_pos s' \<le> 40010 \<and>
     p < q \<and> 0x1234 = from_le16 (dr (smb_demo_env q)) (dr (smb_demo_env p))"
proof -
  obtain s' where r: "SMBusReadWord smb_demo_env 0x80 7 5 smb_rest = (1, 0x1234, s')"
    using read_demo by blast
  from SMBusReadWord_wire [OF r] obtain p q where "p < q" "q < smb_pos s'"
    "0x1234 = from_le16 (dr (smb_demo_env q)) (dr (smb_demo_env p))" "smb_pos s' \<le> smb_pos smb_rest + 8 * 5001 + 2"
    by auto
  with r show ?thesis by (intro exI [of _ s'] exI [of _ p] exI [of _ q]) (simp add: smb_rest_def)
qed

end
