(* ===== verification/Stm32Main.thy ===== *)
theory Stm32Main
  imports CmdCfg Smbus RwIni RingSlice
begin

text \<open>
  The main program of the STM32F103 port (\<open>STM32F103/Main/main.c\<close>): the sampling interrupt, the
  initialisation of the sensor, the start-up, and one round of the endless loop, with
  \<open>CDC_Send_DATA\<close>, \<open>CDC_Receive_DATA\<close> (\<open>hw_config.c\<close>) and the endpoint callbacks (\<open>usb_endp.c\<close>).
  It uses the SMBus driver and the settings log. Buffers are byte lists; a write past the end of the
  packet buffer, a shift the C standard leaves undefined and a loop without end are \<open>None\<close>.
\<close>

section \<open>State\<close>

record dev_cfg_t =
  c_pktcnt :: u8
  c_multiplier :: u8
  c_time :: u16
  c_clk_khz :: u16
  c_init :: "reg_wr_t list"
  c_rd :: "reg_rd_t list"
  c_slp :: "reg_wr_t list"

definition dev_cfg_wf :: "dev_cfg_t \<Rightarrow> bool" where
  "dev_cfg_wf c \<longleftrightarrow> length (c_init c) = 4 \<and> length (c_rd c) = 4 \<and> length (c_slp c) = 2"

definition dev_cfg_bytes :: "dev_cfg_t \<Rightarrow> u8 list" where
  "dev_cfg_bytes c =
     [c_pktcnt c, c_multiplier c] @ le16 (c_time c) @ le16 (c_clk_khz c) @
     concat (map reg_wr_bytes (c_init c)) @ concat (map reg_rd_bytes (c_rd c)) @
     concat (map reg_wr_bytes (c_slp c))"

definition dev_cfg_of_bytes :: "u8 list \<Rightarrow> dev_cfg_t" where
  "dev_cfg_of_bytes bs =
     \<lparr>c_pktcnt = bs ! 0, c_multiplier = bs ! 1, c_time = from_le16 (bs ! 2) (bs ! 3),
      c_clk_khz = from_le16 (bs ! 4) (bs ! 5),
      c_init = [reg_wr_at bs 6, reg_wr_at bs 10, reg_wr_at bs 14, reg_wr_at bs 18],
      c_rd = [reg_rd_at bs 22, reg_rd_at bs 24, reg_rd_at bs 26, reg_rd_at bs 28],
      c_slp = [reg_wr_at bs 30, reg_wr_at bs 34]\<rparr>"

text \<open>
  \<open>data_ui\<close> of the packet is the byte list \<open>send_pkt\<close> (header and 62 data bytes); \<open>sent\<close> is the list
  of packets handed to endpoint 1, oldest first.
\<close>

record stm =
  cfg :: dev_cfg_t
  raddr_ix :: nat
  ring :: "u16 list"
  ring_rd :: u8
  ring_wr :: u8
  send_pkt :: "u8 list"
  not_send_count :: u32
  all_rd_count :: u32
  timer_flag :: u8
  send_err :: u8
  packet_sent :: u32
  packet_receive :: u32
  Receive_Buffer :: "u8 list"
  Receive_length :: u32
  tim_arr :: u16
  tim_psc :: u16
  tim_on :: bool
  tim_upd :: bool
  smbus :: smb
  page :: "u16 list"
  sent :: "u8 list list"

definition VIRTUAL_COM_PORT_DATA_SIZE :: nat where "VIRTUAL_COM_PORT_DATA_SIZE = 64"

section \<open>Timer and sampling\<close>

definition Timer_Stop :: "stm \<Rightarrow> stm" where "Timer_Stop s = s\<lparr>tim_on := False\<rparr>"

text \<open>\<open>(72 << multiplier) - 1\<close> is computed in \<open>int\<close> and stored in 16 bits.\<close>

definition Timer_Init :: "u16 \<Rightarrow> u16 \<Rightarrow> stm \<Rightarrow> stm option" where
  "Timer_Init period_us mult s =
     (if 72 * 2 ^ unat mult < (2 :: nat) ^ 31
      then Some (s\<lparr>tim_arr := period_us - 1, tim_psc := of_nat (72 * 2 ^ unat mult) - 1, tim_on := True\<rparr>)
      else None)"

definition FlushI2CBuf :: "stm \<Rightarrow> stm" where
  "FlushI2CBuf s =
     (let r = timer_flag s;
          s = s\<lparr>timer_flag := 0\<rparr>;
          s = s\<lparr>raddr_ix := 0, ring_wr := 0, ring_rd := 0\<rparr>
      in s\<lparr>timer_flag := r\<rparr>)"

text \<open>The word one past \<open>cfg_i2c.rd[3]\<close> is the beginning of \<open>cfg_i2c.slp[0]\<close>.\<close>

definition dev_addr_at :: "dev_cfg_t \<Rightarrow> nat \<Rightarrow> u8" where
  "dev_addr_at c k = (if k < 4 then rd_dev_addr (c_rd c ! k) else wr_dev_addr (c_slp c ! (k - 4)))"

definition GetNewRegData :: "smb_env \<Rightarrow> stm \<Rightarrow> stm" where
  "GetNewRegData env s =
     (let r = c_rd (cfg s) ! raddr_ix s;
          k = unat (ring_wr s);
          (ret, w, b) = SMBusReadWord env (rd_dev_addr r) (ring s ! k) (rd_reg_addr r) (smbus s);
          s = s\<lparr>ring_wr := ring_wr s + 1, ring := (ring s)[k := w], smbus := b\<rparr>
      in if ret \<noteq> 0
         then (let s = s\<lparr>raddr_ix := raddr_ix s + 1\<rparr>
               in if dev_addr_at (cfg s) (raddr_ix s) = 0 \<or> raddr_ix s > 3 then s\<lparr>raddr_ix := 0\<rparr> else s)
         else (Timer_Stop s)\<lparr>send_err := 2\<rparr>)"

definition TIM2_IRQHandler :: "smb_env \<Rightarrow> stm \<Rightarrow> stm" where
  "TIM2_IRQHandler env s =
     (if tim_upd s
      then (let s = s\<lparr>tim_upd := False\<rparr> in if timer_flag s \<noteq> 0 then GetNewRegData env s else s)
      else s)"

section \<open>Starting the sensor\<close>

definition stm_set_pktcnt :: "u8 \<Rightarrow> stm \<Rightarrow> stm" where "stm_set_pktcnt n s = s\<lparr>cfg := (cfg s)\<lparr>c_pktcnt := n\<rparr>\<rparr>"

fun stm_init_regs :: "smb_env \<Rightarrow> reg_wr_t list \<Rightarrow> stm \<Rightarrow> u8 \<times> stm" where
  "stm_init_regs env [] s = (1, s)"
| "stm_init_regs env (r # rs) s =
     (if wr_dev_addr r = 0 then (1, s)
      else (let (ret, b) = SMBusWriteWord env (wr_dev_addr r) (wr_data r) (wr_reg_addr r) (smbus s);
                s = s\<lparr>smbus := b\<rparr>
            in if ret = 0 then (0, Timer_Stop (stm_set_pktcnt 0 s)) else stm_init_regs env rs s))"

definition InitExtDevice :: "u32 \<Rightarrow> smb_env \<Rightarrow> stm \<Rightarrow> (u8 \<times> stm) option" where
  "InitExtDevice pclk1 env s =
     do {
       let s = (if c_pktcnt (cfg s) > 62 then stm_set_pktcnt 62 s else s);
       let s = s\<lparr>cfg := (cfg s)\<lparr>c_clk_khz := c_clk_khz (cfg s) AND 0x1fff\<rparr>\<rparr>;
       let s = (if c_clk_khz (cfg s) < 100 \<or> c_clk_khz (cfg s) > 1200
                then s\<lparr>cfg := (cfg s)\<lparr>c_clk_khz := ucast (SMBus_Speed div 1000)\<rparr>\<rparr> else s);
       b \<leftarrow> SMBusInit pclk1 (ucast (c_clk_khz (cfg s)) * 1000) (smbus s);
       let s = s\<lparr>smbus := b\<rparr>;
       if c_time (cfg s) < 63 then Some (0, stm_set_pktcnt 0 (Timer_Stop s))
       else do {
         let s = FlushI2CBuf s;
         s \<leftarrow> (if c_pktcnt (cfg s) \<noteq> 0
               then do { s \<leftarrow> Timer_Init (c_time (cfg s)) (ucast (c_multiplier (cfg s))) s;
                         Some (s\<lparr>all_rd_count := 0, not_send_count := 0\<rparr>) }
               else Some (Timer_Stop s));
         let s = FlushI2CBuf s;
         Some (stm_init_regs env (c_init (cfg s)) s)
       }
     }"

section \<open>The CDC endpoint\<close>

definition CDC_Send_DATA :: "u8 list \<Rightarrow> u8 \<Rightarrow> stm \<Rightarrow> u32 \<times> stm" where
  "CDC_Send_DATA buf len s =
     (if unat len \<le> VIRTUAL_COM_PORT_DATA_SIZE
      then (1, s\<lparr>packet_sent := 0, sent := sent s @ [take (unat len) buf]\<rparr>)
      else (0, s))"

definition CDC_Receive_DATA :: "stm \<Rightarrow> stm" where
  "CDC_Receive_DATA s = s\<lparr>packet_receive := 0\<rparr>"

definition EP1_IN_Callback :: "stm \<Rightarrow> stm" where "EP1_IN_Callback s = s\<lparr>packet_sent := 1\<rparr>"

definition EP3_OUT_Callback :: "u8 list \<Rightarrow> stm \<Rightarrow> stm" where
  "EP3_OUT_Callback bs s =
     s\<lparr>packet_receive := 1, Receive_length := of_nat (length bs),
       Receive_Buffer := splice_at (Receive_Buffer s) 0 bs\<rparr>"

section \<open>Commands\<close>

text \<open>The received packet is answered in place: the buffer, its size and command bytes and its data.\<close>

definition put_data :: "nat \<Rightarrow> u8 list \<Rightarrow> stm \<Rightarrow> stm" where
  "put_data off bs s = s\<lparr>Receive_Buffer := splice_at (Receive_Buffer s) (2 + off) bs\<rparr>"

definition reply_len :: "u32 \<Rightarrow> stm \<Rightarrow> stm" where "reply_len n s = s\<lparr>Receive_length := n + 2\<rparr>"

definition reply_error :: "stm \<Rightarrow> stm" where
  "reply_error s =
     reply_len 0 (s\<lparr>Receive_Buffer := (Receive_Buffer s)[1 := Receive_Buffer s ! 1 OR CMD_ERR_FLG]\<rparr>)"

definition stm_cmd_cfg :: "u32 \<Rightarrow> smb_env \<Rightarrow> stm \<Rightarrow> stm option" where
  "stm_cmd_cfg pclk1 env s =
     do {
       (ok, s) \<leftarrow>
         (if Receive_Buffer s ! 0 \<noteq> 0
          then do {
            let s = s\<lparr>timer_flag := 0\<rparr>;
            let n = (if Receive_Buffer s ! 0 > 38 then 38 else unat (Receive_Buffer s ! 0));
            let s = s\<lparr>cfg := dev_cfg_of_bytes (take n (drop 2 (Receive_Buffer s)) @
                                              drop n (dev_cfg_bytes (cfg s)))\<rparr>;
            (ret, s) \<leftarrow> InitExtDevice pclk1 env s;
            Some (if ret = 0 then (False, s) else (True, s\<lparr>timer_flag := 1\<rparr>))
          }
          else Some (True, s));
       Some (if ok then reply_len 38 (put_data 0 (dev_cfg_bytes (cfg s)) s) else reply_error s)
     }"

definition stm_cmd_grg :: "smb_env \<Rightarrow> stm \<Rightarrow> stm" where
  "stm_cmd_grg env s =
     (let s = s\<lparr>timer_flag := 0\<rparr>;
          b = Receive_Buffer s;
          (ret, w, bus) = SMBusReadWord env (b ! 2) (from_le16 (b ! 4) (b ! 5)) (b ! 3) (smbus s);
          s = put_data 2 (le16 w) (s\<lparr>smbus := bus\<rparr>);
          s = s\<lparr>timer_flag := 1\<rparr>
      in if ret \<noteq> 0 then reply_len 4 s else reply_error s)"

definition stm_cmd_srg :: "smb_env \<Rightarrow> stm \<Rightarrow> stm" where
  "stm_cmd_srg env s =
     (let s = s\<lparr>timer_flag := 0\<rparr>;
          b = Receive_Buffer s;
          (ret, bus) = SMBusWriteWord env (b ! 2) (from_le16 (b ! 4) (b ! 5)) (b ! 3) (smbus s);
          s = s\<lparr>smbus := bus\<rparr>;
          s = s\<lparr>timer_flag := 1\<rparr>
      in if ret \<noteq> 0 then reply_len 4 s else reply_error s)"

definition stm_cmd_switch :: "flash_hw \<Rightarrow> u32 \<Rightarrow> smb_env \<Rightarrow> stm \<Rightarrow> stm option" where
  "stm_cmd_switch hw pclk1 env s =
     (let cmd = Receive_Buffer s ! 1
      in if cmd = CMD_DEV_VER
         then Some (reply_len 4 (put_data 2 (le16 0x0010) (put_data 0 (le16 0x0016) s)))
         else if cmd = CMD_DEV_CFG then stm_cmd_cfg pclk1 env s
         else if cmd = CMD_DEV_SCF
         then do { f \<leftarrow> WriteIniBlk hw (dev_cfg_bytes (cfg s)) 38 (page s);
                   Some (reply_len 0 (s\<lparr>page := f\<rparr>)) }
         else if cmd = CMD_DEV_STA
         then Some (reply_len 8 (put_data 4 (le32 (not_send_count s)) (put_data 0 (le32 (all_rd_count s)) s)))
         else if cmd = CMD_DEV_GRG then Some (stm_cmd_grg env s)
         else if cmd = CMD_DEV_SRG then Some (stm_cmd_srg env s)
         else Some (reply_error s))"

definition main_reply :: "stm \<Rightarrow> stm" where
  "main_reply s =
     (if Receive_length s \<noteq> 0
      then
        (let s = s\<lparr>Receive_Buffer := (Receive_Buffer s)[0 := ucast (Receive_length s - 2)]\<rparr>;
             (ok, s) = CDC_Send_DATA (Receive_Buffer s) (ucast (Receive_length s)) s
         in if ok \<noteq> 0 then s\<lparr>Receive_length := 0\<rparr> else s)
      else s)"

section \<open>Sample packets\<close>

text \<open>\<open>send_pkt.data.ui\<close> has 31 elements.\<close>

fun copy_samples :: "nat \<Rightarrow> nat \<Rightarrow> stm \<Rightarrow> stm option" where
  "copy_samples i 0 s = Some s"
| "copy_samples i (Suc n) s =
     (if i < 31
      then copy_samples (i + 1) n
        (s\<lparr>send_pkt := splice_at (send_pkt s) (2 + 2 * i) (le16 (ring s ! unat (ring_rd s))),
           ring_rd := ring_rd s + 1\<rparr>)
      else None)"

definition main_samples :: "stm \<Rightarrow> stm option" where
  "main_samples s =
     (if c_pktcnt (cfg s) \<noteq> 0 \<and> ring_wr s - ring_rd s > c_pktcnt (cfg s)
      then do {
        s \<leftarrow> copy_samples 0 (unat (c_pktcnt (cfg s))) s;
        let s = s\<lparr>all_rd_count := all_rd_count s + ucast (c_pktcnt (cfg s))\<rparr>;
        let s = s\<lparr>send_pkt := (send_pkt s)[0 := c_pktcnt (cfg s) * 2, 1 := CMD_DEV_I2C]\<rparr>;
        Some (snd (CDC_Send_DATA (send_pkt s) (c_pktcnt (cfg s) * 2 + 2) s))
      }
      else Some s)"

definition main_error :: "stm \<Rightarrow> stm" where
  "main_error s =
     (let p = (send_pkt s)[1 := CMD_DEV_I2C OR CMD_ERR_FLG];
          p = splice_at p 2 (le32 (all_rd_count s));
          p = splice_at p 6 (le32 (not_send_count s));
          p = p[10 := send_err s];
          p = p[0 := 9];
          s = s\<lparr>send_pkt := p\<rparr>;
          s = snd (CDC_Send_DATA p 11 s)
      in s\<lparr>send_err := 0\<rparr>)"

section \<open>The program\<close>

text \<open>One round of \<open>while(1)\<close>; \<open>configured\<close> is \<open>bDeviceState == CONFIGURED\<close>.\<close>

definition main_round :: "flash_hw \<Rightarrow> u32 \<Rightarrow> smb_env \<Rightarrow> bool \<Rightarrow> stm \<Rightarrow> stm option" where
  "main_round hw pclk1 env configured s =
     (if configured
      then
        (let s = CDC_Receive_DATA s
         in if packet_sent s \<noteq> 0
            then if Receive_length s \<ge> 2 \<and> Receive_length s \<ge> ucast (Receive_Buffer s ! 0) + 2
              then map_option main_reply (stm_cmd_switch hw pclk1 env s)
              else if send_err s \<noteq> 0 then Some (main_error s)
              else main_samples s
            else Some s)
      else Some s)"

text \<open>Start-up after the USB set-up: settings, bus, power-on reset of the sensor, sensor.\<close>

definition main_boot :: "u32 \<Rightarrow> smb_env \<Rightarrow> stm \<Rightarrow> stm option" where
  "main_boot pclk1 env s =
     do {
       (ok, bs) \<leftarrow> ReadIniBlk (dev_cfg_bytes (cfg s)) 38 (page s);
       let s = s\<lparr>cfg := dev_cfg_of_bytes bs\<rparr>;
       let s = (if ok = 0 then s\<lparr>cfg := (cfg s)\<lparr>c_time := 400, c_multiplier := 0, c_clk_khz := 400\<rparr>\<rparr> else s);
       let s = stm_set_pktcnt 0 s;
       b \<leftarrow> SMBusInit pclk1 400000 (smbus s);
       let s = s\<lparr>smbus := SMBusSendPOR env b\<rparr>;
       (ret, s) \<leftarrow> InitExtDevice pclk1 env s;
       Some s
     }"

section \<open>Well-formedness\<close>

definition stm_wf :: "stm \<Rightarrow> bool" where
  "stm_wf s \<longleftrightarrow> dev_cfg_wf (cfg s) \<and> raddr_ix s < 4 \<and> length (ring s) = 256 \<and> length (send_pkt s) = 64 \<and>
     length (Receive_Buffer s) = 64"

lemma dev_cfg_bytes_38 [simp]: "dev_cfg_wf c \<Longrightarrow> length (dev_cfg_bytes c) = 38"
  by (auto simp: dev_cfg_wf_def dev_cfg_bytes_def list2_conv list4_conv reg_wr_bytes_def reg_rd_bytes_def)

lemma dev_cfg_wf_of_bytes [simp]: "dev_cfg_wf (dev_cfg_of_bytes bs)"
  by (simp add: dev_cfg_wf_def dev_cfg_of_bytes_def)

lemma dev_cfg_of_bytes_bytes: "dev_cfg_wf c \<Longrightarrow> dev_cfg_of_bytes (dev_cfg_bytes c) = c"
proof -
  assume "dev_cfg_wf c"
  then obtain i0 i1 i2 i3 r0 r1 r2 r3 s0 s1 where
    "c_init c = [i0, i1, i2, i3]" "c_rd c = [r0, r1, r2, r3]" "c_slp c = [s0, s1]"
    by (auto simp: dev_cfg_wf_def list2_conv list4_conv)
  then show ?thesis
    by (cases c) (simp add: dev_cfg_of_bytes_def dev_cfg_bytes_def reg_wr_bytes_def reg_rd_bytes_def
        reg_wr_at_def reg_rd_at_def le16_def)
qed

text \<open>The clock the initialisation settles on.\<close>

definition clk_norm :: "u16 \<Rightarrow> u16" where
  "clk_norm c = (let k = c AND 0x1fff in if k < 100 \<or> k > 1200 then 10000 else k)"

lemma clk_norm_pos: "(ucast (clk_norm c) :: u32) * 1000 * 2 \<noteq> 0"
proof -
  have b: "100 \<le> unat (clk_norm c) \<and> unat (clk_norm c) \<le> 10000"
    by (auto simp: clk_norm_def Let_def word_le_nat_alt word_less_nat_alt)
  then have "unat ((ucast (clk_norm c) :: u32) * 1000 * 2) = unat (clk_norm c) * 2000"
    by (simp add: unat_word_ariths)
  with b show ?thesis by (metis mult_eq_0_iff not_numeral_le_zero unat_0 zero_neq_numeral)
qed

lemma SMBusInit_total: "speed * 2 \<noteq> 0 \<Longrightarrow> \<exists>b. SMBusInit pclk1 speed s = Some b"
  by (simp add: SMBusInit_def I2C_Init_def Let_def)

lemma SMBusInit_None: "SMBusInit pclk1 speed s = None \<longleftrightarrow> speed * 2 = 0"
  by (simp add: SMBusInit_def I2C_Init_def Let_def)

text \<open>The initialising writes only touch the bus, and stop sampling if one fails.\<close>

lemma stm_init_regs_frame:
  "stm_init_regs env rs s = (ret, s') \<Longrightarrow>
   ret = 1 \<and> (\<exists>b. s' = s\<lparr>smbus := b\<rparr>) \<or> ret = 0 \<and> (\<exists>b. s' = Timer_Stop (stm_set_pktcnt 0 (s\<lparr>smbus := b\<rparr>)))"
proof (induction rs arbitrary: s)
  case Nil
  then show ?case by (auto intro: exI [of _ "smbus s"])
next
  case (Cons r rs)
  show ?case
  proof (cases "wr_dev_addr r = 0")
    case True
    with Cons.prems show ?thesis by (auto intro: exI [of _ "smbus s"])
  next
    case False
    obtain w b where w: "SMBusWriteWord env (wr_dev_addr r) (wr_data r) (wr_reg_addr r) (smbus s) = (w, b)"
      by (cases "SMBusWriteWord env (wr_dev_addr r) (wr_data r) (wr_reg_addr r) (smbus s)")
    show ?thesis
    proof (cases "w = 0")
      case True
      with Cons.prems w False show ?thesis by auto
    next
      case nz: False
      then have "stm_init_regs env rs (s\<lparr>smbus := b\<rparr>) = (ret, s')" using Cons.prems w False by simp
      from Cons.IH [OF this] show ?thesis by auto
    qed
  qed
qed

text \<open>What an initialisation does, split at the check of the period.\<close>

definition init_cfg :: "dev_cfg_t \<Rightarrow> dev_cfg_t" where
  "init_cfg c = c\<lparr>c_pktcnt := min 62 (c_pktcnt c), c_clk_khz := clk_norm (c_clk_khz c)\<rparr>"

lemma init_cfg_eq:
  "(let s = (if c_pktcnt (cfg s) > 62 then stm_set_pktcnt 62 s else s);
        s = s\<lparr>cfg := (cfg s)\<lparr>c_clk_khz := c_clk_khz (cfg s) AND 0x1fff\<rparr>\<rparr>
    in if c_clk_khz (cfg s) < 100 \<or> c_clk_khz (cfg s) > 1200
       then s\<lparr>cfg := (cfg s)\<lparr>c_clk_khz := ucast (SMBus_Speed div 1000)\<rparr>\<rparr> else s) = s\<lparr>cfg := init_cfg (cfg s)\<rparr>"
proof -
  have "(if c_pktcnt (cfg s) > 62 then stm_set_pktcnt 62 s else s) =
      s\<lparr>cfg := (cfg s)\<lparr>c_pktcnt := min 62 (c_pktcnt (cfg s))\<rparr>\<rparr>"
    by (simp add: stm_set_pktcnt_def min_def not_less)
  moreover have "(ucast (SMBus_Speed div 1000) :: u16) = 10000" by (simp add: SMBus_Speed_def)
  ultimately show ?thesis by (simp add: Let_def init_cfg_def clk_norm_def)
qed

lemma InitExtDevice_eq:
  "InitExtDevice pclk1 env s =
     do {
       let s = s\<lparr>cfg := init_cfg (cfg s)\<rparr>;
       b \<leftarrow> SMBusInit pclk1 (ucast (c_clk_khz (cfg s)) * 1000) (smbus s);
       let s = s\<lparr>smbus := b\<rparr>;
       if c_time (cfg s) < 63 then Some (0, stm_set_pktcnt 0 (Timer_Stop s))
       else do {
         let s = FlushI2CBuf s;
         s \<leftarrow> (if c_pktcnt (cfg s) \<noteq> 0
               then do { s \<leftarrow> Timer_Init (c_time (cfg s)) (ucast (c_multiplier (cfg s))) s;
                         Some (s\<lparr>all_rd_count := 0, not_send_count := 0\<rparr>) }
               else Some (Timer_Stop s));
         let s = FlushI2CBuf s;
         Some (stm_init_regs env (c_init (cfg s)) s)
       }
     }"
  unfolding InitExtDevice_def by (simp only: Let_def init_cfg_eq [unfolded Let_def])

lemma init_cfg_simps [simp]:
  "c_pktcnt (init_cfg c) = min 62 (c_pktcnt c)" "c_clk_khz (init_cfg c) = clk_norm (c_clk_khz c)"
  "c_time (init_cfg c) = c_time c" "c_multiplier (init_cfg c) = c_multiplier c" "c_init (init_cfg c) = c_init c"
  "c_rd (init_cfg c) = c_rd c" "c_slp (init_cfg c) = c_slp c" "dev_cfg_wf (init_cfg c) = dev_cfg_wf c"
  by (simp_all add: init_cfg_def dev_cfg_wf_def)

text \<open>What stays the same, in this and in every other part of a command.\<close>

definition stm_keeps :: "stm \<Rightarrow> stm \<Rightarrow> bool" where
  "stm_keeps s t \<longleftrightarrow> ring t = ring s \<and> send_pkt t = send_pkt s \<and> send_err t = send_err s \<and>
     packet_sent t = packet_sent s \<and> page t = page s \<and> sent t = sent s \<and> raddr_ix t \<in> {0, raddr_ix s}"

lemma InitExtDevice_spec:
  assumes "InitExtDevice pclk1 env s = Some (ret, t)"
  shows "ret \<in> {0, 1} \<and> stm_keeps s t \<and> Receive_Buffer t = Receive_Buffer s \<and>
    Receive_length t = Receive_length s \<and> timer_flag t = timer_flag s \<and>
    cfg t = (init_cfg (cfg s))\<lparr>c_pktcnt := (if ret = 1 then min 62 (c_pktcnt (cfg s)) else 0)\<rparr> \<and>
    (ret = 1 \<longrightarrow> 63 \<le> c_time (cfg s) \<and>
      (if c_pktcnt (cfg s) = 0 then \<not> tim_on t
       else tim_on t \<and> tim_arr t = c_time (cfg s) - 1 \<and> 72 * 2 ^ unat (c_multiplier (cfg s)) < (2 :: nat) ^ 31 \<and>
         tim_psc t = of_nat (72 * 2 ^ unat (c_multiplier (cfg s))) - 1 \<and> ring_rd t = 0 \<and> ring_wr t = 0 \<and>
         raddr_ix t = 0 \<and> all_rd_count t = 0 \<and> not_send_count t = 0))"
proof -
  let ?s = "s\<lparr>cfg := init_cfg (cfg s)\<rparr>"
  obtain b where b: "SMBusInit pclk1 (ucast (c_clk_khz (cfg ?s)) * 1000) (smbus ?s) = Some b"
    using assms by (auto simp: InitExtDevice_eq Let_def bind_eq_Some_conv)
  let ?t = "FlushI2CBuf (?s\<lparr>smbus := b\<rparr>)"
  show ?thesis
  proof (cases "c_time (cfg s) < 63")
    case True
    with assms b have "ret = 0" "t = stm_set_pktcnt 0 (Timer_Stop (?s\<lparr>smbus := b\<rparr>))"
      by (auto simp: InitExtDevice_eq Let_def)
    then show ?thesis by (simp add: stm_keeps_def stm_set_pktcnt_def Timer_Stop_def)
  next
    case False
    with assms b obtain u where
      u: "(if c_pktcnt (cfg ?t) \<noteq> 0
           then do { s \<leftarrow> Timer_Init (c_time (cfg ?t)) (ucast (c_multiplier (cfg ?t))) ?t;
                     Some (s\<lparr>all_rd_count := 0, not_send_count := 0\<rparr>) }
           else Some (Timer_Stop ?t)) = Some u" and
      r: "stm_init_regs env (c_init (cfg (FlushI2CBuf u))) (FlushI2CBuf u) = (ret, t)"
      by (auto simp: InitExtDevice_eq Let_def bind_eq_Some_conv)
    have z: "min 62 (c_pktcnt (cfg s)) = 0 \<longleftrightarrow> c_pktcnt (cfg s) = 0" by (auto simp: min_def)
    have m: "unat (ucast (c_multiplier (cfg s)) :: u16) = unat (c_multiplier (cfg s))" by simp
    consider "c_pktcnt (cfg s) = 0" "u = Timer_Stop ?t"
      | "c_pktcnt (cfg s) \<noteq> 0" "72 * 2 ^ unat (c_multiplier (cfg s)) < (2 :: nat) ^ 31"
        "u = ?t\<lparr>tim_arr := c_time (cfg s) - 1, tim_psc := of_nat (72 * 2 ^ unat (c_multiplier (cfg s))) - 1,
               tim_on := True, all_rd_count := 0, not_send_count := 0\<rparr>"
      using u by (auto simp: Timer_Init_def FlushI2CBuf_def Let_def z bind_eq_Some_conv split: if_splits)
    then show ?thesis
      using stm_init_regs_frame [OF r] False
      by cases (auto simp: stm_keeps_def stm_set_pktcnt_def Timer_Stop_def FlushI2CBuf_def Let_def z)
  qed
qed

section \<open>Commands\<close>

text \<open>The shape of an answered buffer: its length, and the command byte possibly with the error flag.\<close>

definition answered :: "stm \<Rightarrow> stm \<Rightarrow> bool" where
  "answered s t \<longleftrightarrow> length (Receive_Buffer t) = 64 \<and> Receive_length t \<in> {2, 6, 10, 40} \<and>
     (Receive_Buffer t ! 1 = Receive_Buffer s ! 1 \<or>
      Receive_length t = 2 \<and> Receive_Buffer t ! 1 = Receive_Buffer s ! 1 OR CMD_ERR_FLG)"

lemma stm_keeps_updates [simp]:
  "stm_keeps s s"
  "stm_keeps s (t\<lparr>Receive_Buffer := x1\<rparr>) = stm_keeps s t" "stm_keeps s (t\<lparr>Receive_length := x2\<rparr>) = stm_keeps s t"
  "stm_keeps s (t\<lparr>timer_flag := x3\<rparr>) = stm_keeps s t" "stm_keeps s (t\<lparr>smbus := x4\<rparr>) = stm_keeps s t"
  "stm_keeps s (t\<lparr>cfg := x5\<rparr>) = stm_keeps s t" "stm_keeps s (put_data k bs t) = stm_keeps s t"
  "stm_keeps s (reply_len n t) = stm_keeps s t" "stm_keeps s (reply_error t) = stm_keeps s t"
  by (simp_all add: stm_keeps_def put_data_def reply_len_def reply_error_def)

lemma put_data_simps [simp]:
  "cfg (put_data k bs s) = cfg s" "Receive_length (put_data k bs s) = Receive_length s"
  "page (put_data k bs s) = page s" "cfg (reply_len n s) = cfg s" "cfg (reply_error s) = cfg s"
  "page (reply_len n s) = page s" "page (reply_error s) = page s"
  "Receive_length (reply_len n s) = n + 2" "Receive_Buffer (reply_len n s) = Receive_Buffer s"
  by (simp_all add: put_data_def reply_len_def reply_error_def)

lemma put_data_buffer:
  "length (Receive_Buffer s) = 64 \<Longrightarrow> 2 + k + length bs \<le> 64 \<Longrightarrow>
   length (Receive_Buffer (put_data k bs s)) = 64 \<and> Receive_Buffer (put_data k bs s) ! 1 = Receive_Buffer s ! 1"
  by (simp add: put_data_def nth_splice_at)

lemma answered_ok:
  "length (Receive_Buffer t) = 64 \<Longrightarrow> Receive_Buffer t ! 1 = Receive_Buffer s ! 1 \<Longrightarrow> n + 2 \<in> {2, 6, 10, 40} \<Longrightarrow>
   answered s (reply_len n t)"
  by (simp add: answered_def)

lemma answered_error:
  "length (Receive_Buffer t) = 64 \<Longrightarrow> Receive_Buffer t ! 1 = Receive_Buffer s ! 1 \<Longrightarrow> answered s (reply_error t)"
  by (simp add: answered_def reply_error_def)

lemma stm_cmd_cfg_spec:
  assumes "stm_cmd_cfg pclk1 env s = Some t" "stm_wf s"
  shows "answered s t \<and> stm_keeps s t \<and> dev_cfg_wf (cfg t)"
proof (cases "Receive_Buffer s ! 0 = 0")
  case True
  with assms show ?thesis
    using put_data_buffer [of s 0 "dev_cfg_bytes (cfg s)"]
    by (auto simp: stm_cmd_cfg_def stm_wf_def intro!: answered_ok)
next
  case False
  define c where "c = dev_cfg_of_bytes
    (take (if Receive_Buffer s ! 0 > 38 then 38 else unat (Receive_Buffer s ! 0)) (drop 2 (Receive_Buffer s)) @
     drop (if Receive_Buffer s ! 0 > 38 then 38 else unat (Receive_Buffer s ! 0)) (dev_cfg_bytes (cfg s)))"
  have wf: "dev_cfg_wf c" by (simp add: c_def)
  obtain ret u where i: "InitExtDevice pclk1 env (s\<lparr>timer_flag := 0, cfg := c\<rparr>) = Some (ret, u)" and
    t: "t = (if ret = 0 then reply_error u else reply_len 38 (put_data 0 (dev_cfg_bytes (cfg u)) (u\<lparr>timer_flag := 1\<rparr>)))"
    using assms(1) False unfolding c_def by (auto simp: stm_cmd_cfg_def Let_def bind_eq_Some_conv split: if_splits)
  from InitExtDevice_spec [OF i] have u: "stm_keeps (s\<lparr>timer_flag := 0, cfg := c\<rparr>) u"
    "Receive_Buffer u = Receive_Buffer s" "dev_cfg_wf (cfg u)"
    using wf by (auto simp: dev_cfg_wf_def)
  then have k: "stm_keeps s u" by (simp add: stm_keeps_def)
  have l: "length (Receive_Buffer s) = 64" using assms(2) by (simp add: stm_wf_def)
  show ?thesis
  proof (cases "ret = 0")
    case True
    with t u k l show ?thesis by (simp add: answered_error)
  next
    case ok: False
    have "answered s t"
      using ok t u l put_data_buffer [of "u\<lparr>timer_flag := 1\<rparr>" 0 "dev_cfg_bytes (cfg u)"]
      by (auto intro!: answered_ok)
    with ok t u k show ?thesis by simp
  qed
qed

lemma stm_cmd_spec:
  assumes "stm_cmd_switch hw pclk1 env s = Some t" "stm_wf s"
  shows "answered s t \<and> (\<exists>p. stm_keeps (s\<lparr>page := p\<rparr>) t) \<and> dev_cfg_wf (cfg t)"
proof -
  have l: "length (Receive_Buffer s) = 64" "dev_cfg_wf (cfg s)" using assms(2) by (simp_all add: stm_wf_def)
  note buf = put_data_buffer [OF l(1)]
  have id: "\<exists>p. stm_keeps (s\<lparr>page := p\<rparr>) u" if "stm_keeps s u" for u
    using that by (intro exI [of _ "page s"]) (simp add: stm_keeps_def)
  have two: "answered s (reply_len n (put_data k bs (put_data j cs s)))"
    if "n + 2 \<in> {2, 6, 10, 40}" "2 + k + length bs \<le> 64" "2 + j + length cs \<le> 64" for n k bs j cs
    using that buf [of j cs] put_data_buffer [of "put_data j cs s" k bs] by (intro answered_ok) auto
  consider "Receive_Buffer s ! 1 = CMD_DEV_CFG" | "Receive_Buffer s ! 1 = CMD_DEV_SCF"
    | "Receive_Buffer s ! 1 = CMD_DEV_GRG" | "Receive_Buffer s ! 1 = CMD_DEV_SRG"
    | "Receive_Buffer s ! 1 = CMD_DEV_VER" | "Receive_Buffer s ! 1 = CMD_DEV_STA"
    | (other) "Receive_Buffer s ! 1 \<notin> {CMD_DEV_CFG, CMD_DEV_SCF, CMD_DEV_GRG, CMD_DEV_SRG, CMD_DEV_VER, CMD_DEV_STA}"
    by blast
  then show ?thesis
  proof cases
    case 1
    then have "stm_cmd_cfg pclk1 env s = Some t" using assms(1) by (simp add: stm_cmd_switch_def regs)
    from stm_cmd_cfg_spec [OF this assms(2)] id show ?thesis by blast
  next
    case 2
    then obtain f where "t = reply_len 0 (s\<lparr>page := f\<rparr>)"
      using assms(1) by (auto simp: stm_cmd_switch_def regs bind_eq_Some_conv)
    with l show ?thesis by (auto intro!: answered_ok exI [of _ f])
  next
    case 3
    then have "t = stm_cmd_grg env s" using assms(1) by (simp add: stm_cmd_switch_def regs)
    with l show ?thesis
      by (auto simp: stm_cmd_grg_def Let_def put_data_def nth_splice_at intro!: answered_ok answered_error id split: prod.splits)
  next
    case 4
    then have "t = stm_cmd_srg env s" using assms(1) by (simp add: stm_cmd_switch_def regs)
    with l show ?thesis
      by (auto simp: stm_cmd_srg_def Let_def intro!: answered_ok answered_error id split: prod.splits)
  next
    case 5
    then have "t = reply_len 4 (put_data 2 (le16 0x0010) (put_data 0 (le16 0x0016) s))"
      using assms(1) by (simp add: stm_cmd_switch_def regs)
    with l show ?thesis by (auto intro!: two id)
  next
    case 6
    then have "t = reply_len 8 (put_data 4 (le32 (not_send_count s)) (put_data 0 (le32 (all_rd_count s)) s))"
      using assms(1) by (simp add: stm_cmd_switch_def regs)
    with l show ?thesis by (auto intro!: two id)
  next
    case other
    then have "t = reply_error s" using assms(1) by (simp add: stm_cmd_switch_def)
    with l show ?thesis by (auto intro!: answered_error id)
  qed
qed

lemma main_reply_sends:
  assumes "answered s t"
  shows "\<exists>p. sent (main_reply t) = sent t @ [p] \<and> 2 \<le> length p \<and> length p = 2 + unat (p ! 0) \<and>
    length p = unat (Receive_length t) \<and> p ! 1 = Receive_Buffer t ! 1 \<and> Receive_length (main_reply t) = 0 \<and>
    packet_sent (main_reply t) = 0 \<and> cfg (main_reply t) = cfg t \<and> page (main_reply t) = page t \<and>
    ring (main_reply t) = ring t \<and> send_pkt (main_reply t) = send_pkt t \<and> raddr_ix (main_reply t) = raddr_ix t \<and>
    length (Receive_Buffer (main_reply t)) = 64"
proof -
  let ?b = "(Receive_Buffer t)[0 := ucast (Receive_length t - 2)]"
  let ?n = "unat (Receive_length t)"
  from assms have n: "Receive_length t \<in> {2, 6, 10, 40}" and b: "length (Receive_Buffer t) = 64"
    by (auto simp: answered_def)
  then have v: "unat (ucast (Receive_length t) :: u8) = ?n" "?n \<le> 40" "2 \<le> ?n"
    "unat (ucast (Receive_length t - 2) :: u8) = ?n - 2" "Receive_length t \<noteq> 0" by auto
  then have "main_reply t = t\<lparr>Receive_Buffer := ?b, packet_sent := 0, sent := sent t @ [take ?n ?b], Receive_length := 0\<rparr>"
    by (simp add: main_reply_def CDC_Send_DATA_def VIRTUAL_COM_PORT_DATA_SIZE_def Let_def)
  with v b show ?thesis by (intro exI [of _ "take ?n ?b"]) simp
qed

section \<open>Sample packets\<close>

definition stm_pending :: "stm \<Rightarrow> u16 list" where
  "stm_pending s = ring_slice (ring s) (unat (ring_rd s)) (unat (ring_wr s - ring_rd s))"

lemma copy_samples_overrun: "i \<le> 31 \<Longrightarrow> 31 < i + n \<Longrightarrow> copy_samples i n s = None"
proof (induction n arbitrary: i s)
  case (Suc n)
  then show ?case by (cases "i = 31") auto
qed simp

lemma ring_next: "unat (r + 1 :: u8) mod 256 = Suc (unat r) mod 256"
  by (simp add: unat_word_ariths)

lemma copy_samples_spec:
  assumes "i + n \<le> 31" "length (send_pkt s) = 64" "length (ring s) = 256"
  shows "copy_samples i n s = Some (s\<lparr>ring_rd := ring_rd s + of_nat n,
    send_pkt := splice_at (send_pkt s) (2 + 2 * i) (concat (map le16 (ring_slice (ring s) (unat (ring_rd s)) n)))\<rparr>)"
  using assms
proof (induction n arbitrary: i s)
  case 0
  then show ?case by (cases s) (simp add: splice_at_def)
next
  case (Suc n)
  let ?w = "ring s ! unat (ring_rd s)"
  let ?s = "s\<lparr>send_pkt := splice_at (send_pkt s) (2 + 2 * i) (le16 ?w), ring_rd := ring_rd s + 1\<rparr>"
  let ?rest = "ring_slice (ring s) (unat (ring_rd s + 1)) n"
  have l: "length (concat (map le16 ?rest)) = 2 * n"
    by (simp add: length_concat comp_def sum_list_triv)
  have "copy_samples (i + 1) n ?s = Some (?s\<lparr>ring_rd := ring_rd ?s + of_nat n,
      send_pkt := splice_at (send_pkt ?s) (2 + 2 * (i + 1)) (concat (map le16 (ring_slice (ring ?s) (unat (ring_rd ?s)) n)))\<rparr>)"
    using Suc.prems by (intro Suc.IH) simp_all
  moreover have "splice_at (splice_at (send_pkt s) (2 + 2 * i) (le16 ?w)) (2 + 2 * (i + 1)) (concat (map le16 ?rest)) =
      splice_at (send_pkt s) (2 + 2 * i) (le16 ?w @ concat (map le16 ?rest))"
    using Suc.prems(1,2) l by (simp add: splice_at_def min_def ac_simps)
  moreover have "ring_slice (ring s) (unat (ring_rd s)) (Suc n) = ?w # ?rest"
    unfolding ring_slice_Suc
    using ring_slice_cong_mod [of "unat (ring_rd s + 1)" "ring s" "Suc (unat (ring_rd s))" n] ring_next [of "ring_rd s"]
    by (simp add: Suc.prems(3))
  ultimately show ?case using Suc.prems(1) by (simp add: algebra_simps)
qed

text \<open>A start without initialising writes succeeds if the period is long enough.\<close>

lemma InitExtDevice_succeeds:
  assumes "stm_wf s" "c_pktcnt (cfg s) \<noteq> 0" "63 \<le> c_time (cfg s)" "unat (c_multiplier (cfg s)) < 25"
    "wr_dev_addr (c_init (cfg s) ! 0) = 0"
  shows "\<exists>t. InitExtDevice pclk1 env s = Some (1, t)"
proof -
  obtain b where b: "SMBusInit pclk1 (ucast (clk_norm (c_clk_khz (cfg s))) * 1000) (smbus s) = Some b"
    using SMBusInit_total [OF clk_norm_pos] by blast
  obtain r0 rs where i: "c_init (cfg s) = r0 # rs"
    using assms(1) by (cases "c_init (cfg s)") (simp_all add: stm_wf_def dev_cfg_wf_def)
  have "(72 :: nat) * 2 ^ unat (c_multiplier (cfg s)) \<le> 72 * 2 ^ 24"
    using assms(4) by (intro mult_le_mono2 power_increasing) auto
  then have m: "72 * 2 ^ unat (c_multiplier (cfg s)) < (2 :: nat) ^ 31" by simp
  have z: "min 62 (c_pktcnt (cfg s)) \<noteq> 0" using assms(2) by (auto simp: min_def)
  have t: "\<not> c_time (cfg s) < 63" using assms(3) by (simp add: not_less)
  show ?thesis
    using b m i t z assms(5) by (auto simp: InitExtDevice_eq Timer_Init_def FlushI2CBuf_def Let_def)
qed

section \<open>Properties\<close>

text \<open>
  C13: Every complete command gets exactly one answer: when a round finds a packet as long as it announces,
  and the command returns, one packet is handed to the endpoint; it starts with the number of data bytes
  that follow its header, carries the command, or the command with the error flag and no data, and the
  mailbox is free again. A command the program does not know is answered with an empty packet that carries
  the command with the error flag, and changes neither configuration, flash nor samples.
\<close>

theorem stm_command_answer:
  assumes "main_round hw pclk1 env True s = Some t" "stm_wf s" "packet_sent s \<noteq> 0"
    "2 \<le> Receive_length s" "ucast (Receive_Buffer s ! 0) + 2 \<le> Receive_length s"
  shows "(\<exists>p. sent t = sent s @ [p] \<and> 2 \<le> length p \<and> length p = 2 + unat (p ! 0) \<and> length p \<le> 40 \<and>
      (p ! 1 = Receive_Buffer s ! 1 \<or> length p = 2 \<and> p ! 1 = Receive_Buffer s ! 1 OR CMD_ERR_FLG)) \<and>
    Receive_length t = 0 \<and> packet_sent t = 0 \<and> stm_wf t \<and>
    (Receive_Buffer s ! 1 \<notin> {CMD_DEV_VER, CMD_DEV_CFG, CMD_DEV_SCF, CMD_DEV_STA, CMD_DEV_GRG, CMD_DEV_SRG} \<longrightarrow>
      sent t = sent s @ [[0, Receive_Buffer s ! 1 OR CMD_ERR_FLG]] \<and>
      cfg t = cfg s \<and> page t = page s \<and> ring t = ring s)"
proof -
  let ?s = "CDC_Receive_DATA s"
  have s: "Receive_Buffer ?s = Receive_Buffer s" "sent ?s = sent s" "cfg ?s = cfg s" "page ?s = page s" "ring ?s = ring s"
    "stm_wf ?s" using assms(2) by (simp_all add: CDC_Receive_DATA_def stm_wf_def)
  from assms obtain u where u: "stm_cmd_switch hw pclk1 env ?s = Some u" "t = main_reply u"
    by (auto simp: main_round_def CDC_Receive_DATA_def Let_def split: if_splits)
  from stm_cmd_spec [OF u(1) s(6)] obtain f where a: "answered ?s u" "stm_keeps (?s\<lparr>page := f\<rparr>) u" "dev_cfg_wf (cfg u)"
    by blast
  from main_reply_sends [OF a(1)] obtain p where p: "sent t = sent u @ [p]" "2 \<le> length p" "length p = 2 + unat (p ! 0)"
    "length p = unat (Receive_length u)" "p ! 1 = Receive_Buffer u ! 1" "Receive_length t = 0" "packet_sent t = 0"
    "cfg t = cfg u" "page t = page u" "ring t = ring u" "send_pkt t = send_pkt u" "raddr_ix t = raddr_ix u"
    "length (Receive_Buffer t) = 64" unfolding u(2) by blast
  have "Receive_length u \<in> {2, 6, 10, 40}" using a(1) by (simp add: answered_def)
  then have "length p \<le> 40" "Receive_length u = 2 \<Longrightarrow> length p = 2" using p(4) by auto
  moreover have "p ! 1 = Receive_Buffer s ! 1 \<or> Receive_length u = 2 \<and> p ! 1 = Receive_Buffer s ! 1 OR CMD_ERR_FLG"
    using a(1) p(5) s(1) by (auto simp: answered_def)
  moreover have "sent t = sent s @ [p]" using p(1) a(2) s(2) by (simp add: stm_keeps_def)
  moreover have "stm_wf t" using p a(2,3) s assms(2) by (auto simp: stm_wf_def stm_keeps_def)
  moreover have "sent t = sent s @ [[0, Receive_Buffer s ! 1 OR CMD_ERR_FLG]] \<and>
      cfg t = cfg s \<and> page t = page s \<and> ring t = ring s"
    if "Receive_Buffer s ! 1 \<notin> {CMD_DEV_VER, CMD_DEV_CFG, CMD_DEV_SCF, CMD_DEV_STA, CMD_DEV_GRG, CMD_DEV_SRG}"
  proof -
    have "u = reply_error ?s" using u(1) that s(1) by (simp add: stm_cmd_switch_def)
    then have "Receive_length u = 2" "Receive_Buffer u ! 1 = Receive_Buffer s ! 1 OR CMD_ERR_FLG"
      "cfg u = cfg s" "page u = page s" "ring u = ring s"
      using s by (simp_all add: reply_error_def reply_len_def stm_wf_def)
    moreover from this(1) p(4) have "length p = 2" by simp
    with p(3) have "unat (p ! 0) = 0" by simp
    then have "p ! 0 = 0" by (simp add: unat_eq_zero)
    with \<open>length p = 2\<close> p(5) have "p = [0, Receive_Buffer u ! 1]" by (auto simp: length_Suc_conv numeral_2_eq_2)
    ultimately show ?thesis using p(8-10) \<open>sent t = sent s @ [p]\<close> by simp
  qed
  ultimately show ?thesis using p(2,3,6,7) by blast
qed

text \<open>A program at rest: two samples to a packet, five pending, an empty log; and a pending command.\<close>

definition demo_stm :: "u8 \<Rightarrow> stm" where
  "demo_stm cmd =
     \<lparr>cfg = \<lparr>c_pktcnt = 2, c_multiplier = 1, c_time = 400, c_clk_khz = 400,
        c_init = replicate 4 \<lparr>wr_dev_addr = 0, wr_reg_addr = 0, wr_data = 0\<rparr>,
        c_rd = replicate 4 \<lparr>rd_dev_addr = 0x80, rd_reg_addr = 5\<rparr>,
        c_slp = replicate 2 \<lparr>wr_dev_addr = 0, wr_reg_addr = 0, wr_data = 0\<rparr>\<rparr>,
      raddr_ix = 0, ring = map of_nat [0..<256], ring_rd = 0, ring_wr = 5, send_pkt = replicate 64 0,
      not_send_count = 0, all_rd_count = 0, timer_flag = 0, send_err = 0, packet_sent = 1, packet_receive = 1,
      Receive_Buffer = [0, cmd] @ replicate 62 0, Receive_length = 2, tim_arr = 0, tim_psc = 0, tim_on = False,
      tim_upd = False, smbus = smb_rest, page = replicate 512 0xFFFF, sent = []\<rparr>"

lemma demo_stm_wf: "stm_wf (demo_stm cmd)"
  by (simp add: demo_stm_def stm_wf_def dev_cfg_wf_def)

theorem stm_command_answer_witness:
  "\<exists>t p. main_round and_flash 36000000 smb_demo_env True (demo_stm 0x55) = Some t \<and> sent t = [p] \<and>
     p = [0, 0xD5] \<and> packet_sent t = 0"
proof -
  let ?s = "demo_stm 0x55"
  have "\<exists>t. main_round and_flash 36000000 smb_demo_env True ?s = Some t"
    by (simp add: main_round_def CDC_Receive_DATA_def stm_cmd_switch_def demo_stm_def regs)
  then obtain t where t: "main_round and_flash 36000000 smb_demo_env True ?s = Some t" ..
  have "packet_sent ?s \<noteq> 0" "2 \<le> Receive_length ?s" "ucast (Receive_Buffer ?s ! 0) + 2 \<le> Receive_length ?s"
    "sent ?s = []" by (simp_all add: demo_stm_def)
  moreover have c: "Receive_Buffer ?s ! 1 = 0x55" by (simp add: demo_stm_def)
  moreover have "0x55 \<notin> {CMD_DEV_VER, CMD_DEV_CFG, CMD_DEV_SCF, CMD_DEV_STA, CMD_DEV_GRG, CMD_DEV_SRG}"
    "(0x55 :: u8) OR CMD_ERR_FLG = 0xD5" by (simp_all add: regs)
  ultimately show ?thesis using stm_command_answer [OF t demo_stm_wf] t by simp
qed

text \<open>
  C14: Sample packets and their limit: with more samples pending than a packet takes, a packet size of up
  to 31 makes one packet with exactly that many of the oldest samples, low byte first, and advances the
  ring past them. A packet size above 31 writes past the end of the packet buffer. The initialisation
  lets sizes up to 62 through, because it compares with the size of the data field in bytes.
\<close>

theorem stm_sample_packet:
  assumes "stm_wf s" "c_pktcnt (cfg s) \<noteq> 0" "c_pktcnt (cfg s) < ring_wr s - ring_rd s"
  shows "(if c_pktcnt (cfg s) \<le> 31
     then \<exists>t. main_samples s = Some t \<and> packet_sent t = 0 \<and>
       sent t = sent s @ [[c_pktcnt (cfg s) * 2, CMD_DEV_I2C] @
         concat (map le16 (take (unat (c_pktcnt (cfg s))) (stm_pending s)))] \<and>
       stm_pending t = drop (unat (c_pktcnt (cfg s))) (stm_pending s)
     else main_samples s = None) \<and>
    (c_pktcnt (cfg s) \<le> 62 \<and> 63 \<le> c_time (cfg s) \<and> unat (c_multiplier (cfg s)) < 25 \<and>
     wr_dev_addr (c_init (cfg s) ! 0) = 0 \<longrightarrow>
       (\<exists>t. InitExtDevice pclk1 env s = Some (1, t) \<and> c_pktcnt (cfg t) = c_pktcnt (cfg s)))"
proof
  let ?n = "unat (c_pktcnt (cfg s))"
  have len: "length (send_pkt s) = 64" "length (ring s) = 256" using assms(1) by (simp_all add: stm_wf_def)
  have d: "?n < unat (ring_wr s - ring_rd s)" using assms(3) by (simp add: word_less_nat_alt)
  show "if c_pktcnt (cfg s) \<le> 31
     then \<exists>t. main_samples s = Some t \<and> packet_sent t = 0 \<and>
       sent t = sent s @ [[c_pktcnt (cfg s) * 2, CMD_DEV_I2C] @
         concat (map le16 (take ?n (stm_pending s)))] \<and> stm_pending t = drop ?n (stm_pending s)
     else main_samples s = None"
  proof (cases "c_pktcnt (cfg s) \<le> 31")
    case False
    then have "31 < 0 + ?n" by (simp add: word_le_nat_alt)
    from copy_samples_overrun [OF _ this] False assms(2,3) show ?thesis by (simp add: main_samples_def)
  next
    case True
    then have n: "?n \<le> 31" by (simp add: word_le_nat_alt)
    let ?xs = "ring_slice (ring s) (unat (ring_rd s)) ?n"
    let ?p = "splice_at (send_pkt s) 2 (concat (map le16 ?xs))"
    let ?q = "?p[0 := c_pktcnt (cfg s) * 2, 1 := CMD_DEV_I2C]"
    have copy: "copy_samples 0 ?n s = Some (s\<lparr>ring_rd := ring_rd s + c_pktcnt (cfg s), send_pkt := ?p\<rparr>)"
      using copy_samples_spec [of 0 ?n s] n len by simp
    have l: "length (concat (map le16 ?xs)) = 2 * ?n" by (simp add: length_concat comp_def sum_list_triv)
    have sz: "unat (c_pktcnt (cfg s) * 2 + 2) = 2 + 2 * ?n"
    proof -
      have "c_pktcnt (cfg s) * 2 + 2 = (of_nat (2 + 2 * ?n) :: u8)" by simp
      moreover have "2 + 2 * ?n < 2 ^ LENGTH(8)" using n by simp
      ultimately show ?thesis by (metis unat_of_nat_small)
    qed
    have "take (2 + 2 * ?n) ?q = [c_pktcnt (cfg s) * 2, CMD_DEV_I2C] @ concat (map le16 ?xs)"
      using len l by (cases "send_pkt s"; cases "tl (send_pkt s)") (auto simp: splice_at_def)
    moreover have "take ?n (stm_pending s) = ?xs" using d by (simp add: stm_pending_def take_ring_slice min_def)
    moreover define t where "t = s\<lparr>ring_rd := ring_rd s + c_pktcnt (cfg s), send_pkt := ?q,
      all_rd_count := all_rd_count s + ucast (c_pktcnt (cfg s)), packet_sent := 0,
      sent := sent s @ [take (2 + 2 * ?n) ?q]\<rparr>"
    moreover have "main_samples s = Some t"
      using copy sz n assms(2,3) unfolding t_def
      by (simp add: main_samples_def CDC_Send_DATA_def VIRTUAL_COM_PORT_DATA_SIZE_def Let_def)
    moreover have "stm_pending t = drop ?n (stm_pending s)"
    proof -
      have "unat (ring_wr s - (ring_rd s + c_pktcnt (cfg s))) = unat (ring_wr s - ring_rd s) - ?n"
      proof -
        have "ring_wr s - (ring_rd s + c_pktcnt (cfg s)) = (ring_wr s - ring_rd s) - c_pktcnt (cfg s)" by simp
        then show ?thesis using d by (simp only: unat_sub word_le_nat_alt less_imp_le)
      qed
      moreover have "unat (ring_rd s + c_pktcnt (cfg s)) mod 256 = (unat (ring_rd s) + ?n) mod 256"
        by (simp add: unat_word_ariths)
      ultimately show ?thesis
        using ring_slice_cong_mod [of "unat (ring_rd s + c_pktcnt (cfg s))" "ring s" "unat (ring_rd s) + ?n"] len(2)
        by (simp add: stm_pending_def t_def drop_ring_slice)
    qed
    ultimately show ?thesis using True by (auto simp: t_def)
  qed
next
  show "c_pktcnt (cfg s) \<le> 62 \<and> 63 \<le> c_time (cfg s) \<and> unat (c_multiplier (cfg s)) < 25 \<and>
     wr_dev_addr (c_init (cfg s) ! 0) = 0 \<longrightarrow>
       (\<exists>t. InitExtDevice pclk1 env s = Some (1, t) \<and> c_pktcnt (cfg t) = c_pktcnt (cfg s))"
  proof
    assume a: "c_pktcnt (cfg s) \<le> 62 \<and> 63 \<le> c_time (cfg s) \<and> unat (c_multiplier (cfg s)) < 25 \<and>
     wr_dev_addr (c_init (cfg s) ! 0) = 0"
    from InitExtDevice_succeeds [OF assms(1,2)] a obtain t where "InitExtDevice pclk1 env s = Some (1, t)" by blast
    moreover have "min 62 (c_pktcnt (cfg s)) = c_pktcnt (cfg s)" using a by (simp only: min.absorb2)
    ultimately show "\<exists>t. InitExtDevice pclk1 env s = Some (1, t) \<and> c_pktcnt (cfg t) = c_pktcnt (cfg s)"
      using InitExtDevice_spec [of pclk1 env s 1 t] by auto
  qed
qed

theorem stm_sample_packet_witness:
  "\<exists>t. main_samples (demo_stm 0) = Some t \<and> sent t = [[4, CMD_DEV_I2C, 0, 0, 1, 0]] \<and>
     main_samples ((demo_stm 0)\<lparr>cfg := (cfg (demo_stm 0))\<lparr>c_pktcnt := 40\<rparr>, ring_wr := 50\<rparr>) = None"
proof -
  let ?s = "demo_stm 0" and ?s2 = "(demo_stm 0)\<lparr>cfg := (cfg (demo_stm 0))\<lparr>c_pktcnt := 40\<rparr>, ring_wr := 50\<rparr>"
  have c: "c_pktcnt (cfg ?s) = 2" "ring_wr ?s - ring_rd ?s = 5" "sent ?s = []" "stm_pending ?s = [0, 1, 2, 3, 4]"
    by (simp_all add: demo_stm_def stm_pending_def ring_slice_def upt_rec)
  have w2: "stm_wf ?s2" "c_pktcnt (cfg ?s2) = 40" "ring_wr ?s2 - ring_rd ?s2 = 50"
    using demo_stm_wf [of 0] by (simp_all add: stm_wf_def dev_cfg_wf_def demo_stm_def)
  have "main_samples ?s2 = None" using stm_sample_packet [OF w2(1)] w2(2,3) by simp
  with stm_sample_packet [OF demo_stm_wf, of 0] c show ?thesis by (auto simp: le16_def)
qed

text \<open>
  The sampling period: after a successful start with a packet size, the timer runs with the period
  asked for, \<open>time << multiplier\<close> microseconds at 72 ticks each, exactly when the multiplier is at most 9;
  for a larger one the prescaler register wraps and the period is shorter.
\<close>

theorem stm_sample_period:
  assumes "InitExtDevice pclk1 env s = Some (1, t)" "c_pktcnt (cfg s) \<noteq> 0"
  shows "tim_on t \<and>
    (if unat (c_multiplier (cfg s)) \<le> 9
     then (unat (tim_psc t) + 1) * (unat (tim_arr t) + 1) = 72 * (unat (c_time (cfg s)) * 2 ^ unat (c_multiplier (cfg s)))
     else (unat (tim_psc t) + 1) * (unat (tim_arr t) + 1) < 72 * (unat (c_time (cfg s)) * 2 ^ unat (c_multiplier (cfg s))))"
proof -
  let ?m = "unat (c_multiplier (cfg s))" and ?T = "unat (c_time (cfg s))"
  from InitExtDevice_spec [OF assms(1)] assms(2) have
    t: "63 \<le> c_time (cfg s)" "tim_on t" "tim_arr t = c_time (cfg s) - 1" "tim_psc t = of_nat (72 * 2 ^ ?m) - 1"
    by auto
  have T: "unat (tim_arr t) + 1 = ?T"
  proof -
    have "c_time (cfg s) \<noteq> 0" using t(1) by (auto simp: word_le_nat_alt)
    then show ?thesis using t(3) by (simp add: unat_minus_one unat_gt_0)
  qed
  have pos: "0 < ?T" using t(1) by (simp add: word_le_nat_alt)
  show ?thesis
  proof (cases "?m \<le> 9")
    case True
    then have "(72 :: nat) * 2 ^ ?m \<le> 72 * 2 ^ 9" by (intro mult_le_mono2 power_increasing) auto
    then have u: "unat (of_nat (72 * 2 ^ ?m) :: u16) = 72 * 2 ^ ?m" by (intro unat_of_nat_small) simp
    then have "(of_nat (72 * 2 ^ ?m) :: u16) \<noteq> 0" by (metis mult_eq_0_iff power_not_zero unat_0 zero_neq_numeral)
    then have "unat (tim_psc t) + 1 = 72 * 2 ^ ?m" using u unfolding t(4) by (simp add: unat_minus_one del: of_nat_mult)
    with True T t(2) show ?thesis by simp
  next
    case False
    then have "(72 :: nat) * 2 ^ 10 \<le> 72 * 2 ^ ?m" by (intro mult_le_mono2 power_increasing) auto
    then have "(73728 :: nat) \<le> 72 * 2 ^ ?m" by simp
    moreover have "unat (tim_psc t) < 65536" by simp
    ultimately have "unat (tim_psc t) + 1 < 72 * 2 ^ ?m" by linarith
    then have "(unat (tim_psc t) + 1) * ?T < 72 * 2 ^ ?m * ?T" using pos by (intro mult_strict_right_mono)
    with False T t(2) show ?thesis by (simp add: ac_simps)
  qed
qed

theorem stm_sample_period_witness:
  "\<exists>t. InitExtDevice 36000000 smb_demo_env (demo_stm 0) = Some (1, t) \<and>
     (unat (tim_psc t) + 1) * (unat (tim_arr t) + 1) = 72 * 800"
proof -
  have c: "c_pktcnt (cfg (demo_stm 0)) \<noteq> 0" "63 \<le> c_time (cfg (demo_stm 0))"
    "unat (c_multiplier (cfg (demo_stm 0))) < 25" "wr_dev_addr (c_init (cfg (demo_stm 0)) ! 0) = 0"
    by (simp_all add: demo_stm_def)
  from InitExtDevice_succeeds [OF demo_stm_wf c] obtain t where
    t: "InitExtDevice 36000000 smb_demo_env (demo_stm 0) = Some (1, t)" by blast
  have "c_multiplier (cfg (demo_stm 0)) = 1" "c_time (cfg (demo_stm 0)) = 400" by (simp_all add: demo_stm_def)
  with stm_sample_period [OF t c(1)] t show ?thesis by simp
qed

text \<open>
  Stored settings survive a restart: after the store command on a page in order, a start-up from any
  other memory contents always ends and restores the configuration, with sampling off and with the clock
  that the initialisation settles on.
\<close>

theorem stm_settings_restored:
  assumes "flash_hw_ok hw" "page_ok 38 m (page s)" "dev_cfg_wf (cfg s)" "Receive_Buffer s ! 1 = CMD_DEV_SCF"
    "dev_cfg_wf (cfg s2)"
  shows "\<exists>t. stm_cmd_switch hw pclk1 env s = Some t \<and>
    (\<exists>u. main_boot pclk2 env2 (s2\<lparr>page := page t\<rparr>) = Some u \<and> page u = page t \<and>
       cfg u = (cfg s)\<lparr>c_pktcnt := 0, c_clk_khz := clk_norm (c_clk_khz (cfg s))\<rparr>)"
proof -
  have l: "length (dev_cfg_bytes (cfg s)) = 38" "length (dev_cfg_bytes (cfg s2)) = 38" using assms(3,5) by simp_all
  have sz: "size_ok 38" by (simp add: size_ok_def)
  let ?tr = "ini_trace (dev_cfg_bytes (cfg s)) 38 m"
  let ?g = "flash_run hw ?tr (page s)"
  have pos: "0 < length ?tr" by (simp add: ini_trace_def ini_image_def)
  have "38 \<le> length (dev_cfg_bytes (cfg s))" using l(1) by simp
  from write_run [OF assms(1,2) sz order_refl pos this] l(1) obtain m' where
    w: "page_ok 38 m' ?g" "stored 38 m' ?g = Some (dev_cfg_bytes (cfg s))" by auto
  have wr: "WriteIniBlk hw (dev_cfg_bytes (cfg s)) 38 (page s) = Some ?g"
    by (rule write_trace [OF assms(2) sz]) (simp add: l(1))
  let ?t = "reply_len 0 (s\<lparr>page := ?g\<rparr>)"
  have t: "stm_cmd_switch hw pclk1 env s = Some ?t" using assms(4) wr by (simp add: stm_cmd_switch_def regs)
  let ?s2 = "s2\<lparr>page := ?g\<rparr>"
  have rd: "ReadIniBlk (dev_cfg_bytes (cfg ?s2)) 38 (page ?s2) = Some (1, dev_cfg_bytes (cfg s))"
    using read_stored [OF w(1) sz] w(2) l by simp
  let ?c = "(cfg s)\<lparr>c_pktcnt := 0\<rparr>"
  obtain b where b: "SMBusInit pclk2 400000 (smbus s2) = Some b" using SMBusInit_total [of 400000 pclk2 "smbus s2"] by auto
  let ?s3 = "s2\<lparr>page := ?g, cfg := ?c, smbus := SMBusSendPOR env2 b\<rparr>"
  have "\<exists>r. InitExtDevice pclk2 env2 ?s3 = Some r"
    using SMBusInit_total [OF clk_norm_pos, of pclk2 "c_clk_khz (cfg s)" "smbus ?s3"]
    by (auto simp: InitExtDevice_eq Let_def FlushI2CBuf_def Timer_Stop_def)
  then obtain ret u where u: "InitExtDevice pclk2 env2 ?s3 = Some (ret, u)" by auto
  have "main_boot pclk2 env2 ?s2 = Some u"
    using rd b u assms(3) by (simp add: main_boot_def stm_set_pktcnt_def dev_cfg_of_bytes_bytes Let_def)
  moreover have "page u = ?g" "cfg u = (cfg s)\<lparr>c_pktcnt := 0, c_clk_khz := clk_norm (c_clk_khz (cfg s))\<rparr>"
    using InitExtDevice_spec [OF u] by (auto simp: stm_keeps_def init_cfg_def)
  ultimately show ?thesis using t by auto
qed

theorem stm_settings_restored_witness:
  "\<exists>t u. stm_cmd_switch and_flash 36000000 smb_demo_env (demo_stm CMD_DEV_SCF) = Some t \<and>
     main_boot 36000000 smb_demo_env ((demo_stm 0)\<lparr>page := page t\<rparr>) = Some u \<and> c_time (cfg u) = 400"
proof -
  have "page_ok 38 0 (page (demo_stm CMD_DEV_SCF))"
    using erased_page_ok [of 38] by (simp add: demo_stm_def size_ok_def)
  moreover have "dev_cfg_wf (cfg (demo_stm c))" for c using demo_stm_wf [of c] by (simp add: stm_wf_def)
  moreover have "Receive_Buffer (demo_stm CMD_DEV_SCF) ! 1 = CMD_DEV_SCF" "c_time (cfg (demo_stm c)) = 400" for c
    by (simp_all add: demo_stm_def)
  ultimately show ?thesis
    using stm_settings_restored [OF and_flash_ok, of 0 "demo_stm CMD_DEV_SCF" "demo_stm 0" 36000000 smb_demo_env
      36000000 smb_demo_env] by fastforce
qed

end
