(* ===== verification/Bridge.thy ===== *)
theory Bridge
  imports CmdCfg
begin

text \<open>
  What the Bluetooth bridge promises its two hosts, as a deterministic machine driven by a trace of
  events, and the labelled simulation by which a program is shown to keep the promise: every event of its
  trace is one the machine can do, and the machine ends in the view of the state of the program.
\<close>

section \<open>Labelled simulation\<close>

inductive labelled_run :: "('e list \<Rightarrow> 'c \<Rightarrow> 'c \<Rightarrow> bool) \<Rightarrow> 'e list \<Rightarrow> 'c \<Rightarrow> 'c \<Rightarrow> bool" for step where
  done_run: "labelled_run step [] c c"
| more_run: "labelled_run step es a b \<Longrightarrow> step fs b c \<Longrightarrow> labelled_run step (es @ fs) a c"

lemma labelled_run_one: "step es a b \<Longrightarrow> labelled_run step es a b"
  using more_run [OF done_run] by fastforce

lemma labelled_run_append:
  assumes "labelled_run step fs b c" "labelled_run step es a b"
  shows "labelled_run step (es @ fs) a c"
  using assms
proof (induction rule: labelled_run.induct)
  case (done_run c)
  then show ?case by simp
next
  case (more_run fs b c gs d)
  then have "labelled_run step ((es @ fs) @ gs) a d" by (blast intro: labelled_run.more_run)
  then show ?case by simp
qed

fun exec_events :: "('e \<Rightarrow> 's \<Rightarrow> 's option) \<Rightarrow> 'e list \<Rightarrow> 's \<Rightarrow> 's option" where
  "exec_events exec [] s = Some s"
| "exec_events exec (e # es) s = Option.bind (exec e s) (exec_events exec es)"

lemma exec_events_append:
  "exec_events exec (es @ fs) s = Option.bind (exec_events exec es s) (exec_events exec fs)"
proof (induction es arbitrary: s)
  case (Cons e es)
  then show ?case by (cases "exec e s") simp_all
qed simp

text \<open>A step keeps \<open>inv\<close>, its events run the machine on the view of the state, and its outputs are logged.\<close>

locale labelled_simulation =
  fixes step :: "'e list \<Rightarrow> 'c \<Rightarrow> 'c \<Rightarrow> bool"
    and exec :: "'e \<Rightarrow> 's \<Rightarrow> 's option"
    and view :: "'c \<Rightarrow> 's"
    and inv :: "'c \<Rightarrow> bool"
    and logged :: "'c \<Rightarrow> 'o list"
    and outs :: "'e list \<Rightarrow> 'o list"
  assumes keeps: "step es c c' \<Longrightarrow> inv c \<Longrightarrow> inv c'"
    and simulates: "step es c c' \<Longrightarrow> inv c \<Longrightarrow> exec_events exec es (view c) = Some (view c')"
    and logs: "step es c c' \<Longrightarrow> inv c \<Longrightarrow> logged c' = logged c @ outs es"
    and outs_append: "outs (es @ fs) = outs es @ outs fs"
begin

lemma outs_Nil: "outs [] = []"
  using outs_append [of "[]" "[]"] by simp

lemma run:
  assumes "labelled_run step es c c'" "inv c"
  shows "inv c' \<and> exec_events exec es (view c) = Some (view c') \<and> logged c' = logged c @ outs es"
  using assms
proof (induction rule: labelled_run.induct)
  case (done_run c)
  then show ?case by (simp add: outs_Nil)
next
  case (more_run es a b fs c)
  then have "inv b" by blast
  with more_run keeps simulates logs show ?case by (simp add: exec_events_append outs_append)
qed

end

section \<open>The abstract bridge\<close>

datatype delivery = To_usb "u8 list" | To_ble "u8 list"

primrec delivered_bytes :: "delivery \<Rightarrow> u8 list" where
  "delivered_bytes (To_usb bs) = bs"
| "delivered_bytes (To_ble bs) = bs"

text \<open>
  A frame that is made is taken in (\<open>Frame\<close>), refused, or overruns the buffer under a client. Bytes are
  delivered, and a client subscribes, unsubscribes or loses its link.
\<close>

datatype bridge_event =
    Frame "u8 list" | Refused "u8 list" | Overrun "u8 list"
  | Delivered delivery
  | Subscribe | Unsubscribe | Link_lost

record bridge =
  client :: bool
  room :: nat
  waiting :: "u8 list"

definition overrun_mark :: "u8 list \<Rightarrow> u8 list" where
  "overrun_mark x = [0, x ! 1 OR CMD_ERR_FLG]"

definition bridge_guard :: "bridge_event \<Rightarrow> bridge \<Rightarrow> bool" where
  "bridge_guard e s =
     (case e of
        Frame x \<Rightarrow> frame_ok x \<and> length (waiting s) + length x \<le> room s
      | Refused x \<Rightarrow> frame_ok x \<and> room s < length (waiting s) + length x
      | Overrun x \<Rightarrow> client s \<and> frame_ok x \<and> room s < length (waiting s) + length x
      | Delivered (To_usb bs) \<Rightarrow> \<not> client s \<and> bs = take 64 (waiting s)
      | Delivered (To_ble bs) \<Rightarrow> client s \<and> bs \<noteq> [] \<and> bs = take (length bs) (waiting s)
      | Subscribe \<Rightarrow> \<not> client s
      | Unsubscribe \<Rightarrow> client s
      | Link_lost \<Rightarrow> client s)"

definition bridge_effect :: "bridge_event \<Rightarrow> bridge \<Rightarrow> bridge" where
  "bridge_effect e s =
     (case e of
        Frame x \<Rightarrow> s\<lparr>waiting := waiting s @ x\<rparr>
      | Refused x \<Rightarrow> s
      | Overrun x \<Rightarrow> s\<lparr>waiting := overrun_mark x\<rparr>
      | Delivered d \<Rightarrow> s\<lparr>waiting := drop (length (delivered_bytes d)) (waiting s)\<rparr>
      | Subscribe \<Rightarrow> s\<lparr>client := True, waiting := []\<rparr>
      | Unsubscribe \<Rightarrow> s\<lparr>client := False\<rparr>
      | Link_lost \<Rightarrow> s\<lparr>client := False, waiting := []\<rparr>)"

definition bridge_do :: "bridge_event \<Rightarrow> bridge \<Rightarrow> bridge option" where
  "bridge_do e s = (if bridge_guard e s then Some (bridge_effect e s) else None)"

abbreviation bridge_run :: "bridge_event list \<Rightarrow> bridge \<Rightarrow> bridge option" where
  "bridge_run \<equiv> exec_events bridge_do"

text \<open>The deliveries of a trace, and what it took in and delivered since its last reset.\<close>

fun deliveries :: "bridge_event list \<Rightarrow> delivery list" where
  "deliveries [] = []"
| "deliveries (Delivered d # es) = d # deliveries es"
| "deliveries (e # es) = deliveries es"

lemma deliveries_append [simp]: "deliveries (es @ fs) = deliveries es @ deliveries fs"
  by (induction es rule: deliveries.induct) simp_all

fun since_reset :: "bridge_event list \<Rightarrow> u8 list \<times> u8 list \<Rightarrow> u8 list \<times> u8 list" where
  "since_reset [] io = io"
| "since_reset (Frame x # es) (i, d) = since_reset es (i @ x, d)"
| "since_reset (Delivered x # es) (i, d) = since_reset es (i, d @ delivered_bytes x)"
| "since_reset (Overrun x # es) io = since_reset es (overrun_mark x, [])"
| "since_reset (Subscribe # es) io = since_reset es ([], [])"
| "since_reset (Link_lost # es) io = since_reset es ([], [])"
| "since_reset (Refused x # es) io = since_reset es io"
| "since_reset (Unsubscribe # es) io = since_reset es io"

text \<open>A delivery takes the oldest bytes: what came in since the reset is what was delivered, then what waits.\<close>

lemma delivered_prefix:
  "bridge_guard (Delivered d) s \<Longrightarrow> delivered_bytes d @ drop (length (delivered_bytes d)) (waiting s) = waiting s"
proof (cases d)
  case (To_usb bs)
  assume "bridge_guard (Delivered d) s"
  with To_usb have bs: "bs = take 64 (waiting s)" by (simp add: bridge_guard_def)
  have "drop (length (take 64 (waiting s))) (waiting s) = drop 64 (waiting s)"
    by (cases "64 \<le> length (waiting s)") simp_all
  then show ?thesis unfolding To_usb delivered_bytes.simps bs by simp
next
  case (To_ble bs)
  assume "bridge_guard (Delivered d) s"
  with To_ble have bs: "take (length bs) (waiting s) = bs" by (simp add: bridge_guard_def)
  have "take (length bs) (waiting s) @ drop (length bs) (waiting s) = waiting s" by (rule append_take_drop_id)
  then show ?thesis unfolding To_ble delivered_bytes.simps bs .
qed

lemma since_reset_stream:
  assumes "bridge_run es s = Some s'" "i = d @ waiting s" "since_reset es (i, d) = (i', d')"
  shows "i' = d' @ waiting s'"
  using assms
proof (induction es arbitrary: s i d)
  case Nil
  then show ?case by auto
next
  case (Cons e es)
  have g: "bridge_guard e s" "bridge_run es (bridge_effect e s) = Some s'"
    using Cons.prems(1) by (cases "bridge_guard e s"; simp add: bridge_do_def [of e s])+
  note h = Cons.IH [OF g(2)] Cons.prems(2,3)
  show ?case
  proof (cases e)
    case (Delivered x)
    with delivered_prefix [of x s] g(1) have "i = (d @ delivered_bytes x) @ waiting (bridge_effect e s)"
      using Cons.prems(2) by (simp add: bridge_effect_def)
    moreover have "since_reset es (i, d @ delivered_bytes x) = (i', d')" using Cons.prems(3) Delivered by simp
    ultimately show ?thesis by (rule Cons.IH [OF g(2)])
  next
    case (Overrun x)
    with Cons.IH [OF g(2), of "overrun_mark x" "[]"] Cons.prems(3) show ?thesis by (simp add: bridge_effect_def)
  qed (use h in \<open>simp_all add: bridge_effect_def\<close>)
qed

end
