(* ===== verification/I2cUtr.thy ===== *)
theory I2cUtr
  imports I2cBus
begin

text \<open>
  The universal transaction the CH583 ports add to the bus driver (\<open>I2CBusUtr\<close> of
  \<open>ch583/I2C2BLE/APP/i2cbus.c\<close>, the same function in \<open>ch583/I2C2USB/src/i2cbus.c\<close>): write bytes,
  change the direction after a given number of them, read bytes. The other functions of these files
  are those of \<open>I2cBus\<close>. The request is the byte image of \<open>i2c_utr_t\<close>: the array \<open>wrdata\<close> of declared
  length 1 runs on into the received packet, and a request that would read past the end of the packet
  buffer has no result.
\<close>

section \<open>The transaction\<close>

record i2c_utr_t =
  utr_mode :: u8
  utr_rdlen :: u8
  utr_wrdata :: "u8 list"

text \<open>
  STOP if asked for, then START with the read address. The result of the wait for START is overwritten
  by that of the wait for the address.
\<close>

definition utr_restart :: "hw_env \<Rightarrow> u16 \<Rightarrow> i2c_utr_t \<Rightarrow> i2c_hw \<Rightarrow> (u32 \<times> i2c_hw) option" where
  "utr_restart env clk tr h =
     do {
       (ret, h) \<leftarrow>
         (if utr_mode tr AND 0x80 \<noteq> 0
          then i2c_wait_status env clk (RB_I2C_TxE OR RB_I2C_BTF) (set_ctrl1 (ctrl1 h OR RB_I2C_STOP) h)
          else Some (0, h));
       if ret \<noteq> 0 then Some (ret, h)
       else do {
         let oaddr1 = I2C_AckAddr_7bit OR ucast (utr_wrdata tr ! 0) OR 1;
         let h = sfr_put (W_OADDR1 oaddr1) h;
         let h = set_ctrl1 (ctrl1 h OR (RB_I2C_ACK OR RB_I2C_START)) h;
         (ret, h) \<leftarrow> i2c_wait_status env clk RB_I2C_SB h;
         let h = (if ret = 0 then put_datar (oaddr1 AND 0xff) h else h);
         i2c_wait_status env clk RB_I2C_ADDR h
       }
     }"

text \<open>The loop that writes: the list is what \<open>wrlen\<close> still counts, \<open>cntstart\<close> its value at the restart.\<close>

fun utr_write :: "hw_env \<Rightarrow> u16 \<Rightarrow> i2c_utr_t \<Rightarrow> u32 \<Rightarrow> u8 list \<Rightarrow> i2c_hw \<Rightarrow> (u32 \<times> i2c_hw) option" where
  "utr_write env clk tr cntstart [] h = Some (0, h)"
| "utr_write env clk tr cntstart (b # bs) h =
     do {
       (ret, h) \<leftarrow> i2c_wait_status env clk (RB_I2C_TxE OR RB_I2C_BTF) (put_datar (ucast b) h);
       if ret \<noteq> 0 then Some (ret, h)
       else do {
         (ret, h) \<leftarrow> (if of_nat (length bs) = cntstart then utr_restart env clk tr h else Some (0, h));
         if ret \<noteq> 0 then Some (ret, h) else utr_write env clk tr cntstart bs h
       }
     }"

text \<open>The loop that reads: each byte is followed by one more wait for a byte, the last one too.\<close>

fun utr_read :: "hw_env \<Rightarrow> u16 \<Rightarrow> i2c_utr_t \<Rightarrow> nat \<Rightarrow> nat \<Rightarrow> u8 list \<Rightarrow> i2c_hw \<Rightarrow> rd_res" where
  "utr_read env clk tr 0 pos outdata h = Some (0, h, outdata)"
| "utr_read env clk tr (Suc n) pos outdata h =
     do {
       let h = (if n = 1 \<and> utr_rdlen tr AND 0x80 = 0 then set_ctrl1 (ctrl1 h AND NOT RB_I2C_ACK) h
                else set_ctrl1 (ctrl1 h OR RB_I2C_ACK) h);
       (ret, h) \<leftarrow> i2c_wait_status env clk RB_I2C_RxNE h;
       if ret \<noteq> 0 then Some (ret, h, outdata)
       else do {
         let (d, h) = read_datar env h;
         let outdata = outdata[pos := ucast d];
         (ret, h) \<leftarrow> i2c_wait_status env clk RB_I2C_RxNE h;
         if ret \<noteq> 0 then Some (ret, h, outdata) else utr_read env clk tr n (pos + 1) outdata h
       }
     }"

definition I2CBusUtr :: "hw_env \<Rightarrow> u16 \<Rightarrow> u8 list \<Rightarrow> i2c_utr_t \<Rightarrow> nat \<Rightarrow> i2c_hw \<Rightarrow> rd_res" where
  "I2CBusUtr env clk outdata tr wrlen h =
     (if length (utr_wrdata tr) \<le> wrlen then None
      else if ctrl1 h AND RB_I2C_PE = 0 then Some (-1, h, outdata)
      else do {
        let cntstart = of_nat wrlen - (ucast (utr_mode tr) AND 0x7f);
        let rdlen = unat (utr_rdlen tr AND 0x7f);
        let h = set_ctrl1 (ctrl1 h AND NOT RB_I2C_STOP) h;
        let h = sfr_put (W_OADDR1 (I2C_AckAddr_7bit OR ucast (utr_wrdata tr ! 0))) h;
        let h = set_ctrl1 (ctrl1 h OR RB_I2C_START) h;
        (ret, h) \<leftarrow> i2c_wait_status env clk RB_I2C_SB h;
        r \<leftarrow> (if ret \<noteq> 0 then Some (ret, h, outdata)
             else do {
               let h = put_datar (ucast (utr_wrdata tr ! 0)) h;
               (ret, h) \<leftarrow> i2c_wait_status env clk RB_I2C_ADDR h;
               (ret, h) \<leftarrow> (if ret \<noteq> 0 then Some (ret, h)
                          else utr_write env clk tr cntstart (take wrlen (drop 1 (utr_wrdata tr))) h);
               if ret \<noteq> 0 then Some (ret, h, outdata) else utr_read env clk tr rdlen 0 outdata h
             });
        Some (i2c_stop_buf r)
      })"

section \<open>It returns\<close>

lemma utr_restart_total:
  assumes "clock_runs env" "clk_ok clk"
  shows "\<exists>ret h'. utr_restart env clk tr h = Some (ret, h')"
proof -
  note w = wait_status_total [OF assms]
  obtain r1 h1 where s: "(if utr_mode tr AND 0x80 \<noteq> 0
      then i2c_wait_status env clk (RB_I2C_TxE OR RB_I2C_BTF) (set_ctrl1 (ctrl1 h OR RB_I2C_STOP) h)
      else Some (0, h)) = Some (r1, h1)"
    using w [of "RB_I2C_TxE OR RB_I2C_BTF" "set_ctrl1 (ctrl1 h OR RB_I2C_STOP) h"] by fastforce
  let ?o = "I2C_AckAddr_7bit OR ucast (utr_wrdata tr ! 0) OR 1 :: u16"
  let ?h2 = "set_ctrl1 (ctrl1 h1 OR (RB_I2C_ACK OR RB_I2C_START)) (sfr_put (W_OADDR1 ?o) h1)"
  obtain r2 h2 where s2: "i2c_wait_status env clk RB_I2C_SB ?h2 = Some (r2, h2)" using w by blast
  obtain r3 h3 where s3: "i2c_wait_status env clk RB_I2C_ADDR
      (if r2 = 0 then put_datar (?o AND 0xff) h2 else h2) = Some (r3, h3)" using w by blast
  from s s2 s3 show ?thesis by (simp add: utr_restart_def Let_def)
qed

lemma utr_write_total:
  assumes "clock_runs env" "clk_ok clk"
  shows "\<exists>ret h'. utr_write env clk tr cs bs h = Some (ret, h')"
proof (induction bs arbitrary: h)
  case (Cons b bs)
  obtain r1 h1 where s1: "i2c_wait_status env clk (RB_I2C_TxE OR RB_I2C_BTF) (put_datar (ucast b) h) =
      Some (r1, h1)" using wait_status_total [OF assms] by blast
  obtain r2 h2 where s2: "(if of_nat (length bs) = cs then utr_restart env clk tr h1 else Some (0, h1)) =
      Some (r2, h2)" using utr_restart_total [OF assms, of tr h1] by fastforce
  from Cons [of h2] s1 s2 show ?case by simp
qed simp

lemma utr_read_total:
  assumes "clock_runs env" "clk_ok clk"
  shows "\<exists>ret h' out'. utr_read env clk tr n pos out h = Some (ret, h', out')"
proof (induction n arbitrary: pos out h)
  case (Suc n)
  let ?h = "if n = 1 \<and> utr_rdlen tr AND 0x80 = 0 then set_ctrl1 (ctrl1 h AND NOT RB_I2C_ACK) h
    else set_ctrl1 (ctrl1 h OR RB_I2C_ACK) h"
  obtain r1 h1 where s1: "i2c_wait_status env clk RB_I2C_RxNE ?h = Some (r1, h1)"
    using wait_status_total [OF assms] by blast
  obtain d h2 where s2: "read_datar env h1 = (d, h2)" by force
  obtain r3 h3 where s3: "i2c_wait_status env clk RB_I2C_RxNE h2 = Some (r3, h3)"
    using wait_status_total [OF assms] by blast
  from Suc [of "pos + 1" "out[pos := ucast d]" h3] s1 s2 s3 show ?case
    unfolding utr_read.simps Let_def by simp
qed simp

lemma utr_total:
  assumes "clock_runs env" "clk_ok clk" "wrlen < length (utr_wrdata tr)"
  shows "\<exists>ret h' out'. I2CBusUtr env clk out tr wrlen h = Some (ret, h', out')"
proof (cases "ctrl1 h AND RB_I2C_PE = 0")
  case False
  let ?h0 = "set_ctrl1 (ctrl1 h AND NOT RB_I2C_STOP OR RB_I2C_START)
    (sfr_put (W_OADDR1 (I2C_AckAddr_7bit OR ucast (utr_wrdata tr ! 0)))
      (set_ctrl1 (ctrl1 h AND NOT RB_I2C_STOP) h))"
  let ?cs = "of_nat wrlen - (ucast (utr_mode tr) AND 0x7f) :: u32"
  obtain r1 h1 where s1: "i2c_wait_status env clk RB_I2C_SB ?h0 = Some (r1, h1)"
    using wait_status_total [OF assms(1,2)] by blast
  obtain r2 h2 where s2: "i2c_wait_status env clk RB_I2C_ADDR (put_datar (ucast (utr_wrdata tr ! 0)) h1) =
      Some (r2, h2)"
    using wait_status_total [OF assms(1,2)] by blast
  obtain r3 h3 where s3: "utr_write env clk tr ?cs (take wrlen (drop 1 (utr_wrdata tr))) h2 = Some (r3, h3)"
    using utr_write_total [OF assms(1,2)] by blast
  obtain r4 h4 o4 where s4: "utr_read env clk tr (unat (utr_rdlen tr AND 0x7f)) 0 out h3 = Some (r4, h4, o4)"
    using utr_read_total [OF assms(1,2)] by blast
  from False assms(3) s1 s2 s3 s4 show ?thesis
    by (auto simp: I2CBusUtr_def Let_def i2c_stop_buf_def)
qed (use assms(3) in \<open>simp add: I2CBusUtr_def\<close>)

section \<open>What a successful transaction leaves behind\<close>

lemma wait_status_ok:
  assumes "i2c_wait_status env clk msk h = Some (0, h')"
  obtains p where "p > hw_pos h" "h' = h\<lparr>hw_pos := p\<rparr>"
  using wait_status_waited [OF assms] by (auto simp: waited_def)

lemma wait_status_wire:
  assumes "i2c_wait_status env clk msk h = Some (ret, h')"
  shows "wire h' = wire h" "hw_ext h h'"
  using wait_status_waited [OF assms] by (auto simp: waited_def)

lemma low_byte: "(ucast (x AND 0xff :: u16) :: u8) = ucast x"
proof -
  have "(0xff :: u16) = mask 8" by (simp add: mask_eq_exp_minus_1)
  then have "x AND 0xff = take_bit 8 x" by (simp add: take_bit_eq_mask)
  then show ?thesis by (intro bit_eqI) (auto simp: bit_simps)
qed

lemma rd_addr_byte: "(ucast ((I2C_AckAddr_7bit OR ucast a OR 1) AND 0xff :: u16) :: u8) = a OR 1"
  for a :: u8
proof -
  have "(ucast (ucast a :: u16) :: u8) = a" by (rule bit_eqI) (auto simp: bit_simps)
  moreover have "(ucast (0x4000 :: u16) :: u8) = 0" by simp
  ultimately show ?thesis
    unfolding low_byte I2C_AckAddr_7bit_def unsigned_or_eq by (simp only: or.left_neutral or.assoc unsigned_1)
qed

text \<open>
  The restart, in a transaction from \<open>h0\<close> to \<open>h\<close>: once the bytes \<open>w\<close> are on the wire, the log of register
  writes has the read address and START with the acknowledge bit, and the result of the wait for START in
  that state decides whether the address is sent.
\<close>

definition restarted :: "hw_env \<Rightarrow> u16 \<Rightarrow> u8 \<Rightarrow> i2c_hw \<Rightarrow> u8 list \<Rightarrow> i2c_hw \<Rightarrow> u8 list \<Rightarrow> bool" where
  "restarted env clk a h0 w h r \<longleftrightarrow>
     (\<exists>hs ret hs' l c. i2c_wait_status env clk RB_I2C_SB hs = Some (ret, hs') \<and>
        sfr_log hs = l @ [W_OADDR1 (I2C_AckAddr_7bit OR ucast a OR 1), W_CTRL1 (c OR (RB_I2C_ACK OR RB_I2C_START))] \<and>
        ctrl1 hs = c OR (RB_I2C_ACK OR RB_I2C_START) \<and> wire_of l = w \<and>
        hw_ext h0 hs \<and> hw_ext hs' h \<and> r = (if ret = 0 then [a OR 1] else []))"

lemma restarted_later:
  assumes "restarted env clk a h1 w h r" "hw_ext h0 h1" "hw_ext h h'"
  shows "restarted env clk a h0 w h' r"
  using assms unfolding restarted_def by (blast intro: hw_ext_trans)

lemma utr_restart_wire:
  assumes "utr_restart env clk tr h = Some (0, h')"
  shows "\<exists>r. wire h' = wire h @ r \<and> restarted env clk (utr_wrdata tr ! 0) h (wire h) h' r \<and>
    hw_ext h h'"
proof -
  let ?o = "I2C_AckAddr_7bit OR ucast (utr_wrdata tr ! 0) OR 1 :: u16"
  obtain r1 h1 where s: "(if utr_mode tr AND 0x80 \<noteq> 0
      then i2c_wait_status env clk (RB_I2C_TxE OR RB_I2C_BTF) (set_ctrl1 (ctrl1 h OR RB_I2C_STOP) h)
      else Some (0, h)) = Some (r1, h1)"
    and k: "(if r1 \<noteq> 0 then Some (r1, h1)
       else do {
         let h = set_ctrl1 (ctrl1 h1 OR (RB_I2C_ACK OR RB_I2C_START)) (sfr_put (W_OADDR1 ?o) h1);
         (ret, h) \<leftarrow> i2c_wait_status env clk RB_I2C_SB h;
         let h = (if ret = 0 then put_datar (?o AND 0xff) h else h);
         i2c_wait_status env clk RB_I2C_ADDR h
       }) = Some (0, h')"
    using assms unfolding utr_restart_def Let_def bind_eq_Some_conv by (auto split: if_splits)
  have w1: "wire h1 = wire h" using s wait_status_wire by (fastforce split: if_splits)
  have l1: "hw_ext h h1"
  proof (cases "utr_mode tr AND 0x80 = 0")
    case False
    with s have "i2c_wait_status env clk (RB_I2C_TxE OR RB_I2C_BTF) (set_ctrl1 (ctrl1 h OR RB_I2C_STOP) h) = Some (r1, h1)"
      by simp
    from hw_ext_trans [OF hw_ext_simps(2) wait_status_wire(2) [OF this]] show ?thesis .
  qed (use s in simp)
  define hs where "hs = set_ctrl1 (ctrl1 h1 OR (RB_I2C_ACK OR RB_I2C_START)) (sfr_put (W_OADDR1 ?o) h1)"
  from k obtain r2 h2 where s2: "i2c_wait_status env clk RB_I2C_SB hs = Some (r2, h2)"
    and s3: "i2c_wait_status env clk RB_I2C_ADDR (if r2 = 0 then put_datar (?o AND 0xff) h2 else h2) =
      Some (0, h')"
    unfolding hs_def by (auto simp: bind_eq_Some_conv Let_def split: if_splits)
  let ?r = "if r2 = 0 then [utr_wrdata tr ! 0 OR 1] else []"
  have hs: "sfr_log hs = sfr_log h1 @ [W_OADDR1 ?o, W_CTRL1 (ctrl1 h1 OR (RB_I2C_ACK OR RB_I2C_START))]"
    "ctrl1 hs = ctrl1 h1 OR (RB_I2C_ACK OR RB_I2C_START)"
    by (simp_all add: hs_def set_ctrl1_def sfr_put_def)
  have "wire h2 = wire h" using wait_status_wire(1) [OF s2] w1 by (simp add: hs)
  then have w: "wire h' = wire h @ ?r" using wait_status_wire(1) [OF s3] rd_addr_byte by (auto split: if_splits)
  have "hw_ext h2 (if r2 = 0 then put_datar (?o AND 0xff) h2 else h2)" by simp
  from hw_ext_trans [OF this wait_status_wire(2) [OF s3]] have l: "hw_ext h2 h'" .
  have l0: "hw_ext h hs"
    using hw_ext_trans [OF l1] hw_ext_trans [OF hw_ext_simps(3) hw_ext_simps(2)] unfolding hs_def by blast
  have "restarted env clk (utr_wrdata tr ! 0) h (wire h) h' ?r"
    unfolding restarted_def using s2 hs w1 l l0 by blast
  moreover have "hw_ext h h'" using l0 wait_status_wire(2) [OF s2] l by (blast intro: hw_ext_trans)
  ultimately show ?thesis using w by blast
qed

lemma utr_write_wire:
  assumes "utr_write env clk tr cs bs h = Some (0, h')" "length bs < 256"
  shows "\<exists>r. wire h' = wire h @ take (length bs - unat cs) bs @ r @ drop (length bs - unat cs) bs \<and>
    hw_ext h h' \<and>
    (if unat cs < length bs
     then restarted env clk (utr_wrdata tr ! 0) h (wire h @ take (length bs - unat cs) bs) h' r else r = [])"
  using assms
proof (induction bs arbitrary: h)
  case (Cons b bs)
  let ?k = "length bs - unat cs" and ?a = "utr_wrdata tr ! 0"
  from Cons.prems(1) obtain h1 where s1: "i2c_wait_status env clk (RB_I2C_TxE OR RB_I2C_BTF)
      (put_datar (ucast b) h) = Some (0, h1)"
    and k: "do {
         (ret, h) \<leftarrow> (if of_nat (length bs) = cs then utr_restart env clk tr h1 else Some (0, h1));
         if ret \<noteq> 0 then Some (ret, h) else utr_write env clk tr cs bs h
       } = Some (0, h')"
    by (auto simp: bind_eq_Some_conv split: if_splits)
  from k obtain h2 where s2: "(if of_nat (length bs) = cs then utr_restart env clk tr h1 else Some (0, h1)) =
      Some (0, h2)" and s3: "utr_write env clk tr cs bs h2 = Some (0, h')"
    by (auto simp: bind_eq_Some_conv split: if_splits)
  have w1: "wire h1 = wire h @ [b]" using wait_status_wire(1) [OF s1] by simp
  have l1: "hw_ext h h1"
    by (rule hw_ext_trans [OF hw_ext_simps(3) wait_status_wire(2) [OF s1]])
  have len: "unat (of_nat (length bs) :: u32) = length bs" using Cons.prems(2) by (simp add: unat_of_nat_small)
  obtain r where r: "wire h' = wire h2 @ take ?k bs @ r @ drop ?k bs" "hw_ext h2 h'"
    "if unat cs < length bs then restarted env clk ?a h2 (wire h2 @ take ?k bs) h' r else r = []"
    using Cons.IH [OF s3] Cons.prems(2) by auto
  show ?case
  proof (cases "of_nat (length bs) = cs")
    case True
    then have cs: "unat cs = length bs" using len by simp
    from True s2 have "utr_restart env clk tr h1 = Some (0, h2)" by simp
    from utr_restart_wire [OF this] obtain r1 where r1: "wire h2 = wire h1 @ r1"
      "restarted env clk ?a h1 (wire h1) h2 r1" "hw_ext h1 h2" by blast
    have "restarted env clk ?a h (wire h @ [b]) h' r1" using restarted_later [OF r1(2) l1 r(2)] w1 by simp
    moreover have "hw_ext h h'" using l1 r1(3) r(2) by (blast intro: hw_ext_trans)
    ultimately show ?thesis using r(1,3) r1(1) cs w1 by (intro exI [of _ r1]) simp
  next
    case False
    then have ne: "unat cs \<noteq> length bs" using len by (metis word_unat_eq_iff)
    from False s2 have h2: "h2 = h1" by simp
    have "hw_ext h h'" using l1 r(2) unfolding h2 by (rule hw_ext_trans)
    moreover have "restarted env clk ?a h (wire h @ b # take ?k bs) h' r" if "unat cs < length bs"
      using restarted_later [of env clk ?a h2 "wire h @ b # take ?k bs" h' r h h'] that r(3) w1 l1
      unfolding h2 by simp
    ultimately show ?thesis using r(1,3) ne w1 unfolding h2
      by (intro exI [of _ r]) (cases "unat cs < length bs", auto simp: Suc_diff_le)
  qed
qed simp

text \<open>The last byte is awaited with the acknowledge bit set, whatever the request says.\<close>

lemma ack_stop: "((c OR RB_I2C_ACK) OR RB_I2C_STOP) AND RB_I2C_ACK = RB_I2C_ACK"
  by (rule bit_eqI) (auto simp: bit_simps)

lemma utr_read_log:
  "utr_read env clk tr n pos out h = Some (ret, h', out') \<Longrightarrow> hw_ext h h'"
proof (induction n arbitrary: pos out h)
  case (Suc n)
  let ?h = "if n = 1 \<and> utr_rdlen tr AND 0x80 = 0 then set_ctrl1 (ctrl1 h AND NOT RB_I2C_ACK) h
    else set_ctrl1 (ctrl1 h OR RB_I2C_ACK) h"
  have l0: "hw_ext h ?h" by simp
  from Suc.prems obtain r1 h1 where s1: "i2c_wait_status env clk RB_I2C_RxNE ?h = Some (r1, h1)"
    and k: "(if r1 \<noteq> 0 then Some (r1, h1, out) else do {
         let (d, h) = read_datar env h1;
         let outdata = out[pos := ucast d];
         (ret, h) \<leftarrow> i2c_wait_status env clk RB_I2C_RxNE h;
         if ret \<noteq> 0 then Some (ret, h, outdata) else utr_read env clk tr n (pos + 1) outdata h
       }) = Some (ret, h', out')"
    unfolding utr_read.simps Let_def by (auto simp: bind_eq_Some_conv)
  have l1: "hw_ext h h1" by (rule hw_ext_trans [OF l0 wait_status_wire(2) [OF s1]])
  show ?case
  proof (cases "r1 = 0")
    case True
    with k obtain r2 h2 where s2: "i2c_wait_status env clk RB_I2C_RxNE (h1\<lparr>hw_pos := hw_pos h1 + 1\<rparr>) = Some (r2, h2)"
      and s3: "h' = h2 \<or> (\<exists>out. utr_read env clk tr n (pos + 1) out h2 = Some (ret, h', out'))"
      by (auto simp: read_datar_def Let_def bind_eq_Some_conv split: if_splits)
    have "hw_ext h1 h2" using hw_ext_trans [OF hw_ext_simps(4) wait_status_wire(2) [OF s2]] by simp
    with l1 have "hw_ext h h2" by (rule hw_ext_trans)
    with s3 Suc.IH show ?thesis by (blast intro: hw_ext_trans)
  next
    case False
    with k l1 show ?thesis by simp
  qed
qed simp

lemma utr_read_data:
  assumes "utr_read env clk tr n pos out h = Some (0, h', out')" "pos + n \<le> length out"
  shows "\<exists>ps. length ps = n \<and> sorted_wrt (<) ps \<and> (\<forall>p \<in> set ps. hw_pos h < p \<and> p < hw_pos h') \<and>
    out' = splice_at out pos (map (\<lambda>p. ucast (datar_in (env p))) ps) \<and> wire h' = wire h \<and>
    (n \<noteq> 0 \<longrightarrow> (\<exists>c. ctrl1 h' = c OR RB_I2C_ACK))"
  using assms
proof (induction n arbitrary: pos out h)
  case 0
  then show ?case by (simp add: splice_at_def)
next
  case (Suc n)
  let ?h = "if n = 1 \<and> utr_rdlen tr AND 0x80 = 0 then set_ctrl1 (ctrl1 h AND NOT RB_I2C_ACK) h
    else set_ctrl1 (ctrl1 h OR RB_I2C_ACK) h"
  from Suc.prems(1) obtain h1 where s1: "i2c_wait_status env clk RB_I2C_RxNE ?h = Some (0, h1)"
    and k: "do {
         let (d, h) = read_datar env h1;
         let outdata = out[pos := ucast d];
         (ret, h) \<leftarrow> i2c_wait_status env clk RB_I2C_RxNE h;
         if ret \<noteq> 0 then Some (ret, h, outdata) else utr_read env clk tr n (pos + 1) outdata h
       } = Some (0, h', out')"
    unfolding utr_read.simps Let_def by (auto simp: bind_eq_Some_conv split: if_splits)
  have hp: "hw_pos ?h = hw_pos h" by simp
  obtain p where p: "p > hw_pos h" "h1 = ?h\<lparr>hw_pos := p\<rparr>"
    using wait_status_ok [OF s1] unfolding hp by blast
  let ?d = "ucast (datar_in (env p)) :: u8"
  from k p(2) obtain h2 where s2: "i2c_wait_status env clk RB_I2C_RxNE (h1\<lparr>hw_pos := p + 1\<rparr>) = Some (0, h2)"
    and s3: "utr_read env clk tr n (pos + 1) (out[pos := ?d]) h2 = Some (0, h', out')"
    by (auto simp: read_datar_def Let_def bind_eq_Some_conv split: if_splits)
  obtain q where "q > hw_pos (h1\<lparr>hw_pos := p + 1\<rparr>)" "h2 = h1\<lparr>hw_pos := p + 1\<rparr>\<lparr>hw_pos := q\<rparr>"
    using wait_status_ok [OF s2] by blast
  then have q: "q > p" "h2 = ?h\<lparr>hw_pos := q\<rparr>" unfolding p(2) by simp_all
  obtain ps where ps: "length ps = n" "sorted_wrt (<) ps" "\<forall>p \<in> set ps. q < p \<and> p < hw_pos h'"
    "out' = splice_at (out[pos := ?d]) (pos + 1) (map (\<lambda>p. ucast (datar_in (env p))) ps)"
    "wire h' = wire h2" "n \<noteq> 0 \<longrightarrow> (\<exists>c. ctrl1 h' = c OR RB_I2C_ACK)"
    using Suc.IH [OF s3] Suc.prems(2) q by auto
  have "splice_at (out[pos := ?d]) (pos + 1) (map (\<lambda>p. ucast (datar_in (env p))) ps) =
      splice_at out pos (map (\<lambda>p. ucast (datar_in (env p))) (p # ps))"
    using Suc.prems(2) by (simp add: splice_at_def upd_conv_take_nth_drop add.commute)
  moreover have "wire h' = wire h" using ps(5) q(2) by simp
  moreover have "\<exists>c. ctrl1 h' = c OR RB_I2C_ACK"
  proof (cases "n = 0")
    case True
    with s3 q(2) show ?thesis by auto
  qed (use ps(6) in blast)
  moreover have "p < hw_pos h'" using utr_read_log [OF s3] q by (simp add: hw_ext_def)
  ultimately show ?case using ps p(1) q(1)
    by (intro exI [of _ "p # ps"]) (auto intro: less_trans)
qed

lemma restart_count:
  fixes m :: u8
  assumes "wrlen < 256"
  defines "cs \<equiv> of_nat wrlen - (ucast m AND 0x7f) :: u32" and "k \<equiv> unat (m AND 0x7f)"
  shows "(k \<le> wrlen \<longrightarrow> unat cs = wrlen - k) \<and> (wrlen < k \<longrightarrow> wrlen < unat cs)"
proof -
  have "(ucast m AND 0x7f :: u32) = ucast (m AND 0x7f)" by (simp add: unsigned_and_eq)
  then have km: "unat (ucast m AND 0x7f :: u32) = k" by (simp add: k_def)
  have n: "unat (of_nat wrlen :: u32) = wrlen" using assms(1) by (simp add: unat_of_nat_small)
  have "k < 256" unfolding k_def by simp
  then show ?thesis
    unfolding cs_def using assms(1) by (auto simp: unat_sub_if' km n)
qed

lemma utr_run:
  assumes "I2CBusUtr env clk out tr wrlen h = Some (0, h', out')" "ctrl1 h AND RB_I2C_PE \<noteq> 0"
  shows "\<exists>h1 h2 h3 h4. wire h1 = wire h \<and> hw_ext h h1 \<and>
    i2c_wait_status env clk RB_I2C_ADDR (put_datar (ucast (utr_wrdata tr ! 0)) h1) = Some (0, h2) \<and>
    utr_write env clk tr (of_nat wrlen - (ucast (utr_mode tr) AND 0x7f))
      (take wrlen (drop 1 (utr_wrdata tr))) h2 = Some (0, h3) \<and>
    utr_read env clk tr (unat (utr_rdlen tr AND 0x7f)) 0 out h3 = Some (0, h4, out') \<and>
    h' = set_ctrl1 (ctrl1 h4 OR RB_I2C_STOP) h4"
proof -
  let ?h0 = "set_ctrl1 (ctrl1 h AND NOT RB_I2C_STOP OR RB_I2C_START)
    (sfr_put (W_OADDR1 (I2C_AckAddr_7bit OR ucast (utr_wrdata tr ! 0)))
      (set_ctrl1 (ctrl1 h AND NOT RB_I2C_STOP) h))"
  let ?w = "utr_write env clk tr (of_nat wrlen - (ucast (utr_mode tr) AND 0x7f))
      (take wrlen (drop 1 (utr_wrdata tr)))"
  let ?r = "utr_read env clk tr (unat (utr_rdlen tr AND 0x7f)) 0 out"
  obtain r1 h1 r where s1: "i2c_wait_status env clk RB_I2C_SB ?h0 = Some (r1, h1)" and
    k: "(if r1 \<noteq> 0 then Some (r1, h1, out)
      else do {
        (ret, h) \<leftarrow> i2c_wait_status env clk RB_I2C_ADDR (put_datar (ucast (utr_wrdata tr ! 0)) h1);
        (ret, h) \<leftarrow> (if ret \<noteq> 0 then Some (ret, h) else ?w h);
        if ret \<noteq> 0 then Some (ret, h, out) else ?r h
      }) = Some r" and e: "i2c_stop_buf r = (0, h', out')"
    using assms unfolding I2CBusUtr_def Let_def
    by (auto simp: bind_eq_Some_conv split: if_splits)
  obtain h4 where r: "r = (0, h4, out')" and h': "h' = set_ctrl1 (ctrl1 h4 OR RB_I2C_STOP) h4"
    using e by (cases r) (simp add: i2c_stop_buf_def)
  from k r obtain h2 h3 where
    "i2c_wait_status env clk RB_I2C_ADDR (put_datar (ucast (utr_wrdata tr ! 0)) h1) = Some (0, h2)"
    "?w h2 = Some (0, h3)" "?r h3 = Some (0, h4, out')"
    by (auto simp: bind_eq_Some_conv split: if_splits)
  moreover have "wire h1 = wire h" using wait_status_wire(1) [OF s1] by simp
  moreover have "hw_ext h ?h0" by (simp add: hw_ext_def set_ctrl1_def sfr_put_def)
  then have "hw_ext h h1" using wait_status_wire(2) [OF s1] by (rule hw_ext_trans)
  ultimately show ?thesis using h' by blast
qed

lemma utr_success:
  assumes "I2CBusUtr env clk out tr wrlen h = Some (0, h', out')" "ctrl1 h AND RB_I2C_PE \<noteq> 0"
    "length out = 127" "wrlen < 256"
  defines "a \<equiv> utr_wrdata tr ! 0" and "ws \<equiv> take wrlen (drop 1 (utr_wrdata tr))"
    and "k \<equiv> unat (utr_mode tr AND 0x7f)" and "n \<equiv> unat (utr_rdlen tr AND 0x7f)"
  shows "\<exists>r ps. wire h' = wire h @ [a] @ take k ws @ r @ drop k ws \<and>
    (if 0 < k \<and> k \<le> wrlen then restarted env clk a h (wire h @ [a] @ take k ws) h' r else r = []) \<and>
    length ps = n \<and> sorted_wrt (<) ps \<and> (\<forall>p \<in> set ps. hw_pos h < p \<and> p < hw_pos h') \<and>
    out' = splice_at out 0 (map (\<lambda>p. ucast (datar_in (env p))) ps) \<and>
    (n \<noteq> 0 \<longrightarrow> ctrl1 h' AND RB_I2C_ACK \<noteq> 0)"
proof -
  let ?cs = "of_nat wrlen - (ucast (utr_mode tr) AND 0x7f) :: u32"
  have lw: "wrlen < length (utr_wrdata tr)" using assms(1) by (auto simp: I2CBusUtr_def split: if_splits)
  then have len: "length ws = wrlen" by (simp add: ws_def)
  obtain h1 h2 h3 h4 where
    s1: "wire h1 = wire h" "hw_ext h h1" and
    s2: "i2c_wait_status env clk RB_I2C_ADDR (put_datar (ucast a) h1) = Some (0, h2)" and
    s3: "utr_write env clk tr ?cs ws h2 = Some (0, h3)" and
    s4: "utr_read env clk tr n 0 out h3 = Some (0, h4, out')" and
    h': "h' = set_ctrl1 (ctrl1 h4 OR RB_I2C_STOP) h4"
    using utr_run [OF assms(1,2)] unfolding a_def ws_def n_def by blast
  obtain r where r: "wire h3 = wire h2 @ take (wrlen - unat ?cs) ws @ r @ drop (wrlen - unat ?cs) ws"
    "if unat ?cs < wrlen then restarted env clk a h2 (wire h2 @ take (wrlen - unat ?cs) ws) h3 r else r = []"
    and e3: "hw_ext h2 h3"
    using utr_write_wire [OF s3] len assms(4) unfolding a_def by auto
  have w2: "wire h2 = wire h @ [a]" using wait_status_wire(1) [OF s2] s1(1) by simp
  have e2: "hw_ext h h2" using hw_ext_trans [OF hw_ext_simps(3) wait_status_wire(2) [OF s2]] s1(2)
    by (blast intro: hw_ext_trans)
  have n: "n \<le> 127"
  proof -
    have "utr_rdlen tr AND 0x7f \<le> 0x7f" by (rule word_and_le1)
    then show ?thesis by (simp add: n_def word_le_nat_alt)
  qed
  obtain ps where at: "\<forall>p \<in> set ps. hw_pos h3 < p \<and> p < hw_pos h4" and ps: "length ps = n" "sorted_wrt (<) ps"
    "out' = splice_at out 0 (map (\<lambda>p. ucast (datar_in (env p))) ps)" "wire h4 = wire h3"
    "n \<noteq> 0 \<longrightarrow> (\<exists>c. ctrl1 h4 = c OR RB_I2C_ACK)"
    using utr_read_data [OF s4] n assms(3) by auto
  note c = restart_count [OF assms(4), of "utr_mode tr", folded k_def]
  have split: "take (wrlen - unat ?cs) ws @ r @ drop (wrlen - unat ?cs) ws = take k ws @ r @ drop k ws \<and>
      (if 0 < k \<and> k \<le> wrlen then restarted env clk a h2 (wire h @ [a] @ take k ws) h3 r else r = [])"
    using c r(2) len w2 by (cases "k \<le> wrlen") (auto split: if_splits)
  have "hw_ext h4 h'" by (simp add: h')
  with utr_read_log [OF s4] have log: "hw_ext h3 h'" by (rule hw_ext_trans)
  have split: "take (wrlen - unat ?cs) ws @ r @ drop (wrlen - unat ?cs) ws = take k ws @ r @ drop k ws \<and>
      (if 0 < k \<and> k \<le> wrlen then restarted env clk a h (wire h @ [a] @ take k ws) h' r else r = [])"
    using split restarted_later [OF _ e2 log] by (auto split: if_splits)
  have "RB_I2C_ACK \<noteq> 0" by (simp add: regs)
  then have "n \<noteq> 0 \<longrightarrow> ctrl1 h' AND RB_I2C_ACK \<noteq> 0"
    using ps(5) ack_stop unfolding h' by fastforce
  moreover have "wire h' = wire h @ [a] @ take k ws @ r @ drop k ws"
    using ps(4) r(1) w2 split by (simp add: h')
  moreover have "\<forall>p \<in> set ps. hw_pos h < p \<and> p < hw_pos h'"
    using at hw_ext_trans [OF e2 e3] by (auto simp: h' hw_ext_def)
  ultimately show ?thesis using ps(1-3) split by (intro exI [of _ r] exI [of _ ps]) blast
qed

section \<open>Properties\<close>

text \<open>
  C11: A transaction that reports success has sent the address and the bytes to write, and has stored the
  bytes received in order, each read from the data register during the transaction. When the mode asks for the direction to change after some of the bytes to write,
  then exactly there the read address is loaded, START is set with the acknowledge bit, and the read address
  is sent if the wait for START succeeded, and nothing if it failed; when the mode asks for no change, or
  for one behind the last byte, nothing comes between the bytes. The last byte of a read is awaited with
  the acknowledge bit set.
\<close>

theorem I2CBusUtr_transfer:
  assumes "I2CBusUtr env clk out tr wrlen h = Some (0, h', out')" "ctrl1 h AND RB_I2C_PE \<noteq> 0"
    "length out = 127" "wrlen < 256"
  defines "a \<equiv> utr_wrdata tr ! 0" and "ws \<equiv> take wrlen (drop 1 (utr_wrdata tr))"
    and "k \<equiv> unat (utr_mode tr AND 0x7f)" and "n \<equiv> unat (utr_rdlen tr AND 0x7f)"
  shows "\<exists>r ps. wire h' = wire h @ [a] @ take k ws @ r @ drop k ws \<and>
    (if 0 < k \<and> k \<le> wrlen then restarted env clk a h (wire h @ [a] @ take k ws) h' r else r = []) \<and>
    length ps = n \<and> sorted_wrt (<) ps \<and> (\<forall>p \<in> set ps. hw_pos h < p \<and> p < hw_pos h') \<and>
    out' = splice_at out 0 (map (\<lambda>p. ucast (datar_in (env p))) ps) \<and>
    (n \<noteq> 0 \<longrightarrow> ctrl1 h' AND RB_I2C_ACK \<noteq> 0)"
  unfolding a_def ws_def k_def n_def by (rule utr_success [OF assms(1-4)])

text \<open>Write the register number 5, restart, read a byte.\<close>

abbreviation demo_utr :: i2c_utr_t where
  "demo_utr \<equiv> \<lparr>utr_mode = 1, utr_rdlen = 1, utr_wrdata = [0x80, 5, 0, 0]\<rparr>"

theorem I2CBusUtr_transfer_witness:
  "\<exists>h' out'. I2CBusUtr answering 400 (replicate 127 0) demo_utr 1 hw_on = Some (0, h', out') \<and>
    wire h' = [0x80, 5, 0x81] \<and> length out' = 127"
proof -
  have run: "\<exists>h' out'. I2CBusUtr answering 400 (replicate 127 0) demo_utr 1 hw_on = Some (0, h', out') \<and>
      wire h' = [0x80, 5, 0x81]"
    by (simp add: I2CBusUtr_def utr_restart_def i2c_stop_buf_def regs read_datar_def)
  then obtain h' out' where h': "I2CBusUtr answering 400 (replicate 127 0) demo_utr 1 hw_on = Some (0, h', out')"
    "wire h' = [0x80, 5, 0x81]" by blast
  from I2CBusUtr_transfer [OF h'(1)] h' show ?thesis by (auto simp: regs)
qed

end
