(* ===== verification/BleDev.thy ===== *)
theory BleDev
  imports I2cDev I2cUtr
begin

text \<open>
  The sampling engine of the CH583 Bluetooth bridge (\<open>ch583/I2C2BLE/APP/i2c_dev.c\<close>, \<open>.h\<close>). It is the
  engine of the CH592 program (\<open>I2cDev\<close>) with a ring of 512 samples and masked 16-bit indices, larger
  blocks, other pins, and a task that on an overflow of the output FIFO stops sampling while the host is
  a Bluetooth client. The output FIFO and \<open>ble_enable\<close> belong to the application and are arguments of
  the task. A block longer than the block buffer overwrites what lies behind it: no result.
\<close>

section \<open>State\<close>

definition ble_DEV_POWER :: u32 where [regs]: "ble_DEV_POWER = 0x00800000"
definition ble_DEV_SDA :: u32 where [regs]: "ble_DEV_SDA = 0x00001000"
definition ble_DEV_SCL :: u32 where [regs]: "ble_DEV_SCL = 0x00002000"
definition ble_BUF_SIZE :: nat where "ble_BUF_SIZE = 512"
definition ble_MAX_PKTCNT16 :: u8 where [regs]: "ble_MAX_PKTCNT16 = 116"
definition ble_MAX_PKTCNT24 :: u8 where [regs]: "ble_MAX_PKTCNT24 = 76"

record 'e ble_dev =
  b_cfg :: dev_i2c_cfg_t
  b_cfg_ina228 :: dev_ina228_cfg_t
  b_raddr :: nat
  b_buf_rd :: u16
  b_buf_wr :: u16
  b_timer_flg :: u8
  b_rd_24bit :: u8
  b_buf :: "u32 list"
  b_read_count :: u32
  b_overflow_cnt :: u32
  b_blk_count :: u8
  b_blk_id :: u8
  b_blk_data :: "u8 list"
  b_i2c :: i2c_hw
  b_tmr_cnt_end :: u32
  b_tmr_ctrl_mod :: u8
  b_tmr_irq_en :: bool
  b_tmr_cyc_end :: bool
  b_pb_out :: u32
  b_gpio_cfg :: "(u32 \<times> gpio_mode) list"
  b_eep :: 'e

section \<open>The timer interrupt\<close>

definition ble_TMR1_IRQHandler :: "hw_env \<Rightarrow> 'e ble_dev \<Rightarrow> 'e ble_dev option" where
  "ble_TMR1_IRQHandler env d =
     (if b_tmr_cyc_end d
      then do {
        d \<leftarrow>
          (if b_timer_flg d \<noteq> 0
           then do {
             let r = rd (b_cfg d) ! b_raddr d;
             let k = unat (b_buf_wr d);
             let pbuf = le32 (b_buf d ! k);
             (ret, h, pbuf) \<leftarrow>
               (if b_rd_24bit d \<noteq> 0
                then I2CBusRead24bits env (clk_khz (b_cfg d)) (rd_dev_addr r) (rd_reg_addr r) pbuf (b_i2c d)
                else I2CBusReadWord env (clk_khz (b_cfg d)) (rd_dev_addr r) (rd_reg_addr r) pbuf (b_i2c d));
             let d = d\<lparr>b_i2c := h, b_buf := (b_buf d)[k := from_le32 pbuf],
               b_buf_wr := (b_buf_wr d + 1) AND 511, b_raddr := b_raddr d + 1\<rparr>;
             Some (if raddr_dev_addr (b_cfg d) (b_raddr d) = 0 \<or> b_raddr d > 3
                   then d\<lparr>b_raddr := 0\<rparr> else d)
           }
           else Some d);
        Some (d\<lparr>b_tmr_cyc_end := False\<rparr>)
      }
      else Some d)"

section \<open>Timer, power and the bus\<close>

definition ble_FlushBuf :: "'e ble_dev \<Rightarrow> 'e ble_dev" where
  "ble_FlushBuf d = d\<lparr>b_raddr := 0, b_buf_wr := 0, b_buf_rd := 0\<rparr>"

definition ble_TimerStop :: "'e ble_dev \<Rightarrow> 'e ble_dev" where
  "ble_TimerStop d = d\<lparr>b_timer_flg := 0, b_tmr_ctrl_mod := 0\<rparr>"

definition ble_TimerStart :: "'e ble_dev \<Rightarrow> 'e ble_dev" where
  "ble_TimerStart d =
     (let d = d\<lparr>b_tmr_ctrl_mod := RB_TMR_ALL_CLEAR\<rparr> in d\<lparr>b_tmr_ctrl_mod := RB_TMR_COUNT_EN\<rparr>)"

definition ble_TimerInit :: "u32 \<Rightarrow> 'e ble_dev \<Rightarrow> 'e ble_dev" where
  "ble_TimerInit period_us d =
     (let d = d\<lparr>b_tmr_cnt_end := (FREQ_SYS div 1000000) * period_us\<rparr>;
          d = d\<lparr>b_tmr_ctrl_mod := RB_TMR_ALL_CLEAR\<rparr>;
          d = d\<lparr>b_tmr_ctrl_mod := 0\<rparr>
      in d\<lparr>b_tmr_irq_en := True\<rparr>)"

definition ble_pins :: "u32 \<Rightarrow> gpio_mode \<Rightarrow> 'e ble_dev \<Rightarrow> 'e ble_dev" where
  "ble_pins pins m d = d\<lparr>b_gpio_cfg := b_gpio_cfg d @ [(pins, m)]\<rparr>"

definition ble_bus_init :: "'e ble_dev \<Rightarrow> 'e ble_dev option" where
  "ble_bus_init d = do { h \<leftarrow> I2CBusInit (clk_khz (b_cfg d)) (b_i2c d); Some (d\<lparr>b_i2c := h\<rparr>) }"

definition ble_write_word :: "hw_env \<Rightarrow> reg_wr_t \<Rightarrow> 'e ble_dev \<Rightarrow> (u32 \<times> 'e ble_dev) option" where
  "ble_write_word env r d =
     do { (ret, h) \<leftarrow> I2CBusWriteWord env (clk_khz (b_cfg d)) (wr_dev_addr r) (wr_reg_addr r)
            (wr_data r) (b_i2c d);
          Some (ret, d\<lparr>b_i2c := h\<rparr>) }"

definition ble_sleep_us :: "hw_env \<Rightarrow> u32 \<Rightarrow> 'e ble_dev \<Rightarrow> 'e ble_dev option" where
  "ble_sleep_us env us d = do { h \<leftarrow> sleep_us env us (b_i2c d); Some (d\<lparr>b_i2c := h\<rparr>) }"

definition ble_sleep_ms :: "hw_env \<Rightarrow> u32 \<Rightarrow> 'e ble_dev \<Rightarrow> 'e ble_dev option" where
  "ble_sleep_ms env ms d = do { h \<leftarrow> sleep_ms env ms (b_i2c d); Some (d\<lparr>b_i2c := h\<rparr>) }"

definition ble_set_pktcnt :: "u8 \<Rightarrow> 'e ble_dev \<Rightarrow> 'e ble_dev" where
  "ble_set_pktcnt n d = d\<lparr>b_cfg := b_cfg d\<lparr>pktcnt := n\<rparr>\<rparr>"

definition ble_I2CDevSleep :: "hw_env \<Rightarrow> 'e ble_dev \<Rightarrow> 'e ble_dev option" where
  "ble_I2CDevSleep env d = do {
     let d = ble_TimerStop (ble_set_pktcnt 0 d);
     d \<leftarrow>
       (if wr_dev_addr (slp (b_cfg d) ! 0) \<noteq> 0
        then do {
          d \<leftarrow> ble_bus_init d;
          (ret, d) \<leftarrow> ble_write_word env (slp (b_cfg d) ! 0) d;
          if wr_dev_addr (slp (b_cfg d) ! 1) \<noteq> 0
          then do { (ret, d) \<leftarrow> ble_write_word env (slp (b_cfg d) ! 1) d; Some d }
          else Some d
        }
        else Some d);
     let d = d\<lparr>b_i2c := I2CBusDeInit (b_i2c d)\<rparr>;
     let d = d\<lparr>b_pb_out := b_pb_out d AND NOT ble_DEV_POWER\<rparr>;
     Some (ble_pins (ble_DEV_POWER OR ble_DEV_SCL OR ble_DEV_SDA) GPIO_ModeIN_Floating d)
   }"

section \<open>Settings in the data flash\<close>

definition ble_ReadSetings :: "'e flash_ops \<Rightarrow> 'e ble_dev \<Rightarrow> u32 \<times> 'e ble_dev" where
  "ble_ReadSetings ops d =
     (let (st, bs) = ee_read ops (b_eep d) 40;
          d = d\<lparr>b_cfg := i2c_cfg_of_bytes bs\<rparr>
      in if st \<noteq> 0 \<or> crc16 0xffff (i2c_cfg_bytes (b_cfg d)) \<noteq> 0
         then (1, d\<lparr>b_cfg := i2c_cfg_memcpy (b_cfg d) (i2c_cfg_bytes def_cfg_i2c) 38\<rparr>)
         else (0, d))"

definition ble_WriteSetings :: "'e flash_ops \<Rightarrow> 'e ble_dev \<Rightarrow> u32 \<times> 'e ble_dev" where
  "ble_WriteSetings ops d =
     (let d = d\<lparr>b_cfg := b_cfg d\<lparr>crc := crc16 0xffff (take 38 (i2c_cfg_bytes (b_cfg d)))\<rparr>\<rparr>;
          (st, bs) = ee_read ops (b_eep d) 40
      in if st = 0 \<and> bs = i2c_cfg_bytes (b_cfg d) then (0, d)
         else
           (let (st1, e1) = ee_erase ops (b_eep d)
            in if st1 \<noteq> 0 then (1, d\<lparr>b_eep := e1\<rparr>)
               else
                 (let (st2, e2) = ee_write ops e1 (i2c_cfg_bytes (b_cfg d))
                  in (if st2 \<noteq> 0 then 1 else 0, d\<lparr>b_eep := e2\<rparr>))))"

definition ble_I2CDevInit :: "'e flash_ops \<Rightarrow> 'e ble_dev \<Rightarrow> 'e ble_dev" where
  "ble_I2CDevInit ops d =
     (let d = snd (ble_ReadSetings ops d);
          d = d\<lparr>b_pb_out := b_pb_out d AND NOT ble_DEV_POWER\<rparr>
      in ble_pins (ble_DEV_POWER OR ble_DEV_SCL OR ble_DEV_SDA) GPIO_ModeIN_Floating d)"

section \<open>Start\<close>

fun ble_init_regs :: "hw_env \<Rightarrow> reg_wr_t list \<Rightarrow> 'e ble_dev \<Rightarrow> 'e ble_dev option" where
  "ble_init_regs env [] d = Some d"
| "ble_init_regs env (r # rs) d =
     (if wr_dev_addr r = 0 then Some d
      else do {
        (ret, d) \<leftarrow> ble_write_word env r d;
        let d = (if ret \<noteq> 0 then ble_TimerStop (ble_set_pktcnt 0 d) else d);
        d \<leftarrow> ble_sleep_us env 512 d;
        ble_init_regs env rs d
      })"

definition ble_clamp_pktcnt :: "'e ble_dev \<Rightarrow> 'e ble_dev" where
  "ble_clamp_pktcnt d =
     (if b_rd_24bit d \<noteq> 0
      then if pktcnt (b_cfg d) > ble_MAX_PKTCNT24 then ble_set_pktcnt ble_MAX_PKTCNT24 d else d
      else if pktcnt (b_cfg d) > ble_MAX_PKTCNT16 then ble_set_pktcnt ble_MAX_PKTCNT16 d else d)"

definition ble_clamp_clk :: "'e ble_dev \<Rightarrow> u32 \<times> 'e ble_dev" where
  "ble_clamp_clk d =
     (let clk = (ucast (clk_khz (b_cfg d)) :: u32) AND 0x7fff
      in if clk < MIN_I2C_CLK_KHZ \<or> clk > MAX_I2C_CLK_KHZ
         then (DEF_I2C_CLK_KHZ, d\<lparr>b_cfg := b_cfg d
                 \<lparr>clk_khz := (clk_khz (b_cfg d) AND 0x8000) OR ucast DEF_I2C_CLK_KHZ\<rparr>\<rparr>)
         else (clk, d))"

definition ble_start_prepare :: "u32 \<Rightarrow> 'e ble_dev \<Rightarrow> 'e ble_dev" where
  "ble_start_prepare t_rd_us d =
     (let d = ble_FlushBuf d
      in if pktcnt (b_cfg d) \<noteq> 0
         then (ble_TimerInit t_rd_us d)\<lparr>b_read_count := 0, b_overflow_cnt := 0\<rparr>
         else ble_TimerStop d)"

definition ble_start_timer :: "hw_env \<Rightarrow> u32 \<Rightarrow> 'e ble_dev \<Rightarrow> (u32 \<times> 'e ble_dev) option" where
  "ble_start_timer env t_rd_us d =
     (if pktcnt (b_cfg d) \<noteq> 0
      then if rd_dev_addr (rd (b_cfg d) ! b_raddr d) \<noteq> 0
        then do {
          d \<leftarrow> ble_sleep_us env t_rd_us d;
          d \<leftarrow> (if b_rd_24bit d > 1 then ble_sleep_us env t_rd_us d else Some d);
          let d = d\<lparr>b_timer_flg := 1\<rparr>;
          Some (1, ble_TimerStart d)
        }
        else Some (0, d)
      else Some (1, d))"

text \<open>A shift count of 32 or more is undefined in C: \<open>None\<close>.\<close>

definition ble_I2CDevStart :: "hw_env \<Rightarrow> 'e ble_dev \<Rightarrow> (u32 \<times> 'e ble_dev) option" where
  "ble_I2CDevStart env d = do {
     let d = d\<lparr>b_timer_flg := 0\<rparr>;
     let d = ble_clamp_pktcnt d;
     let (clk, d) = ble_clamp_clk d;
     d \<leftarrow> ble_bus_init d;
     t_rd_us \<leftarrow> (if unat (multiplier (b_cfg d)) < 32
               then Some (push_bit (unat (multiplier (b_cfg d))) (ucast (time (b_cfg d)) :: u32))
               else None);
     if t_rd_us < MIN_TIM_IRQ div clk
     then Some (0, ble_TimerStop (ble_set_pktcnt 0 d))
     else do {
       let d = ble_start_prepare t_rd_us d;
       d \<leftarrow> ble_init_regs env (init (b_cfg d)) d;
       ble_start_timer env t_rd_us d
     }
   }"

definition ble_I2CDevWakeUp :: "hw_env \<Rightarrow> 'e ble_dev \<Rightarrow> 'e ble_dev option" where
  "ble_I2CDevWakeUp env d = do {
     let d = ble_pins (ble_DEV_POWER OR ble_DEV_SCL OR ble_DEV_SDA) GPIO_ModeIN_PU d;
     d \<leftarrow> ble_sleep_us env 128 d;
     let d = d\<lparr>b_pb_out := b_pb_out d OR ble_DEV_POWER\<rparr>;
     let d = ble_pins ble_DEV_POWER GPIO_ModeOut_PP_5mA d;
     let d = ble_pins ble_DEV_POWER GPIO_ModeOut_PP_20mA d;
     d \<leftarrow> ble_sleep_ms env 2 d;
     let d = ble_set_pktcnt 0 d;
     (ret, d) \<leftarrow> ble_I2CDevStart env d;
     Some d
   }"

section \<open>The packing task\<close>

text \<open>\<open>for (i = prd; i < I2C_BUF_SIZE && size; i++)\<close>: the bytes stored and the \<open>size\<close> left.\<close>

fun ble_copy_to_end :: "('a \<Rightarrow> u8 list) \<Rightarrow> 'a list \<Rightarrow> nat \<Rightarrow> nat \<Rightarrow> u8 list \<times> nat" where
  "ble_copy_to_end enc buf i 0 = ([], 0)"
| "ble_copy_to_end enc buf i (Suc n) =
     (if i < ble_BUF_SIZE
      then (let (bs, m) = ble_copy_to_end enc buf (i + 1) n in (enc (buf ! i) @ bs, m))
      else ([], Suc n))"

text \<open>The block with its header and data, the read index moved; \<open>i\<close> is the new read index.\<close>

definition ble_block :: "u8 list \<Rightarrow> u16 \<Rightarrow> 'e ble_dev \<Rightarrow> 'e ble_dev option" where
  "ble_block bs i d =
     (let n = pktcnt (b_cfg d)
      in if length bs > length (b_blk_data d) then None
         else Some (d\<lparr>b_blk_count := (if b_rd_24bit d \<noteq> 0 then n + n + n else n + n),
                b_blk_id := (if b_rd_24bit d \<noteq> 0 then CMD_DEV_EADC else CMD_DEV_I2C),
                b_blk_data := splice_at (b_blk_data d) 0 bs, b_buf_rd := i\<rparr>))"

definition ble_enc :: "'e ble_dev \<Rightarrow> u32 \<Rightarrow> u8 list" where
  "ble_enc d = (if b_rd_24bit d \<noteq> 0 then sample24 else sample16)"

definition ble_pack_wrapped :: "'e ble_dev \<Rightarrow> 'e ble_dev option" where
  "ble_pack_wrapped d =
     (let (bs1, sz) = ble_copy_to_end (ble_enc d) (b_buf d) (unat (b_buf_rd d)) (unat (pktcnt (b_cfg d)));
          bs2 = copy_n (ble_enc d) (b_buf d) 0 sz
      in ble_block (bs1 @ bs2) (of_nat sz) d)"

definition ble_pack_linear :: "'e ble_dev \<Rightarrow> 'e ble_dev option" where
  "ble_pack_linear d =
     (let prd = unat (b_buf_rd d); n = unat (pktcnt (b_cfg d))
      in ble_block (copy_n (ble_enc d) (b_buf d) prd n) (of_nat (prd + n) AND 511) d)"

definition ble_send_blk ::
    "u8 \<Rightarrow> 'e ble_dev \<Rightarrow> app_drv_fifo_t \<Rightarrow> 'e ble_dev \<times> app_drv_fifo_t" where
  "ble_send_blk ble_enable d f =
     (let sz = 2 + (ucast (b_blk_count d) :: u16);
          (res, f1, _) =
            app_drv_fifo_write (Some f) (Some ([b_blk_count d, b_blk_id d] @ b_blk_data d)) (Some sz)
      in if res = APP_DRV_FIFO_RESULT_SUCCESS
         then (d\<lparr>b_read_count := b_read_count d + 1\<rparr>, the f1)
         else
           (let d = d\<lparr>b_overflow_cnt := b_overflow_cnt d + 1\<rparr>
            in if ble_enable \<noteq> 0
               then
                 (let d = ble_set_pktcnt 0 d;
                      f = app_drv_fifo_flush (the f1);
                      d = ble_TimerStop d;
                      d = d\<lparr>b_blk_count := 0, b_blk_id := b_blk_id d OR CMD_ERR_FLG\<rparr>;
                      (res, f1, _) = app_drv_fifo_write (Some f)
                        (Some ([b_blk_count d, b_blk_id d] @ b_blk_data d)) (Some 2)
                  in (d, the f1))
               else (d, the f1)))"

definition ble_I2CDevTask ::
    "u8 \<Rightarrow> 'e ble_dev \<Rightarrow> app_drv_fifo_t \<Rightarrow> ('e ble_dev \<times> app_drv_fifo_t) option" where
  "ble_I2CDevTask ble_enable d f =
     (let prd = unat (b_buf_rd d); pwr = unat (b_buf_wr d); n = unat (pktcnt (b_cfg d))
      in if n = 0 then Some (d, f)
         else if pwr < prd
         then (if ble_BUF_SIZE - prd + pwr \<ge> n
               then do { d \<leftarrow> ble_pack_wrapped d; Some (ble_send_blk ble_enable d f) }
               else Some (d, f))
         else if pwr > prd
         then (if pwr - prd \<ge> n
               then do { d \<leftarrow> ble_pack_linear d; Some (ble_send_blk ble_enable d f) }
               else Some (d, f))
         else Some (d, f))"

section \<open>The ring of 512 samples\<close>

definition ring512_count :: "nat \<Rightarrow> nat \<Rightarrow> nat" where
  "ring512_count prd pwr = (if prd \<le> pwr then pwr - prd else 512 - prd + pwr)"

definition ring512 :: "'a list \<Rightarrow> nat \<Rightarrow> nat \<Rightarrow> 'a list" where
  "ring512 buf prd pwr = ring_slice buf prd (ring512_count prd pwr)"

text \<open>How many samples leave the ring with a block of \<open>n\<close>, and the read index after it.\<close>

definition taken512 :: "nat \<Rightarrow> nat \<Rightarrow> nat \<Rightarrow> nat" where
  "taken512 prd pwr n = (if pwr < prd \<and> prd + n < 512 then 512 - prd else n)"

definition rd_after512 :: "nat \<Rightarrow> nat \<Rightarrow> nat \<Rightarrow> nat" where
  "rd_after512 prd pwr n = (if pwr < prd then n - (512 - prd) else prd + n)"

lemma length_ring512 [simp]: "length (ring512 buf prd pwr) = ring512_count prd pwr"
  by (simp add: ring512_def)

lemma ring512_rd_after:
  assumes "length buf = 512" "prd < 512" "pwr < 512" "n \<le> ring512_count prd pwr"
  shows "ring512 buf (rd_after512 prd pwr n) pwr = drop (taken512 prd pwr n) (ring512 buf prd pwr)"
    and "rd_after512 prd pwr n < 512"
proof -
  let ?k = "taken512 prd pwr n" and ?i = "rd_after512 prd pwr n"
  have i: "?i mod length buf = (prd + ?k) mod length buf"
    "ring512_count ?i pwr = ring512_count prd pwr - ?k"
    using assms by (auto simp: taken512_def rd_after512_def ring512_count_def le_mod_geq split: if_splits)
  then show "ring512 buf ?i pwr = drop ?k (ring512 buf prd pwr)"
    unfolding ring512_def drop_ring_slice by (simp add: ring_slice_cong_mod [OF i(1)])
  show "?i < 512"
    using assms by (auto simp: rd_after512_def ring512_count_def split: if_splits)
qed

lemma ring512_push:
  assumes "length buf = 512" "prd < 512" "pwr < 512" "ring512_count prd pwr < 511"
  shows "ring512 (buf[pwr := w]) prd (Suc pwr mod 512) = ring512 buf prd pwr @ [w]"
proof -
  let ?n = "ring512_count prd pwr"
  have p: "(prd + ?n) mod length buf = pwr" "ring512_count prd (Suc pwr mod 512) = Suc ?n"
    using assms by (auto simp: ring512_count_def mod_Suc split: if_splits)
  then show ?thesis
    using ring_slice_push [of ?n buf prd w] assms(1,4) by (simp add: ring512_def)
qed

lemma copy_to_end512:
  "length buf = 512 \<Longrightarrow> i \<le> 512 \<Longrightarrow>
   ble_copy_to_end enc buf i n = (concat (map enc (take n (drop i buf))), n - (512 - i))"
proof (induction n arbitrary: i)
  case (Suc n)
  show ?case
  proof (cases "i < 512")
    case True
    then have "drop i buf = buf ! i # drop (Suc i) buf"
      using Suc.prems by (simp add: Cons_nth_drop_Suc)
    with Suc True show ?thesis by (simp add: ble_BUF_SIZE_def)
  next
    case False
    with Suc.prems show ?thesis by (simp add: ble_BUF_SIZE_def)
  qed
qed simp

text \<open>Both ways of packing store the oldest \<open>n\<close> samples.\<close>

lemma pack512:
  assumes "length buf = 512" "prd < 512" "pwr < 512" "n \<le> ring512_count prd pwr"
  shows "\<exists>bs. ble_copy_to_end enc buf prd n = (bs, n - (512 - prd)) \<and>
      bs @ copy_n enc buf 0 (n - (512 - prd)) = concat (map enc (take n (ring512 buf prd pwr)))"
    and "prd \<le> pwr \<Longrightarrow> copy_n enc buf prd n = concat (map enc (take n (ring512 buf prd pwr)))"
proof -
  have take: "take n (ring512 buf prd pwr) = ring_slice buf prd n"
    using assms(4) by (simp add: ring512_def take_ring_slice min_def)
  have n: "n \<le> 512" using assms by (auto simp: ring512_count_def split: if_splits)
  have two: "take n (drop prd buf) @ take (n - (512 - prd)) buf = ring_slice buf prd n"
    by (rule ring_slice_two_parts [of prd buf n, unfolded assms(1)]) (use assms(2) n in simp_all)
  have "concat (map enc (take n (drop prd buf))) @ copy_n enc buf 0 (n - (512 - prd)) =
      concat (map enc (take n (ring512 buf prd pwr)))"
    unfolding take two [symmetric] using assms(1) n by (simp add: copy_n_eq)
  then show "\<exists>bs. ble_copy_to_end enc buf prd n = (bs, n - (512 - prd)) \<and>
      bs @ copy_n enc buf 0 (n - (512 - prd)) = concat (map enc (take n (ring512 buf prd pwr)))"
    using copy_to_end512 [OF assms(1), of prd enc n] assms(2) by simp
  assume "prd \<le> pwr"
  then have "prd + n \<le> 512" using assms(3,4) by (simp add: ring512_count_def)
  then show "copy_n enc buf prd n = concat (map enc (take n (ring512 buf prd pwr)))"
    using assms(1) unfolding take by (simp add: copy_n_eq ring_slice_linear)
qed

section \<open>Blocks\<close>

definition ble_pending :: "'e ble_dev \<Rightarrow> u32 list" where
  "ble_pending d = ring512 (b_buf d) (unat (b_buf_rd d)) (unat (b_buf_wr d))"

definition ble_size :: "'e ble_dev \<Rightarrow> nat" where
  "ble_size d = (if b_rd_24bit d \<noteq> 0 then 3 else 2)"

definition ble_wf :: "'e ble_dev \<Rightarrow> bool" where
  "ble_wf d \<longleftrightarrow> i2c_cfg_wf (b_cfg d) \<and> b_raddr d < 4 \<and> length (b_buf d) = 512 \<and>
     length (b_blk_data d) = 232 \<and> unat (b_buf_rd d) < 512 \<and> unat (b_buf_wr d) < 512"

text \<open>The block the configuration in force asks for fits the block buffer.\<close>

definition ble_fits :: "'e ble_dev \<Rightarrow> bool" where
  "ble_fits d \<longleftrightarrow> ble_size d * unat (pktcnt (b_cfg d)) \<le> 232"

definition ble_packet :: "'e ble_dev \<Rightarrow> u8 list" where
  "ble_packet d =
     [of_nat (ble_size d * unat (pktcnt (b_cfg d))),
      if b_rd_24bit d \<noteq> 0 then CMD_DEV_EADC else CMD_DEV_I2C] @
     concat (map (ble_enc d) (take (unat (pktcnt (b_cfg d))) (ble_pending d)))"

lemma length_ble_enc [simp]: "length (ble_enc d w) = ble_size d"
  by (simp add: ble_enc_def ble_size_def sample24_def sample16_def)

lemma length_concat_ble_enc [simp]: "length (concat (map (ble_enc d) xs)) = ble_size d * length xs"
  by (induction xs) (simp_all add: algebra_simps)

lemma ble_pack:
  assumes "ble_wf d" "unat (pktcnt (b_cfg d)) \<le> length (ble_pending d)"
  defines "n \<equiv> unat (pktcnt (b_cfg d))" and "prd \<equiv> unat (b_buf_rd d)" and "pwr \<equiv> unat (b_buf_wr d)"
  shows "(if pwr < prd then ble_pack_wrapped d else ble_pack_linear d) =
    ble_block (concat (map (ble_enc d) (take n (ble_pending d)))) (of_nat (rd_after512 prd pwr n)) d"
proof -
  have b: "length (b_buf d) = 512" "prd < 512" "pwr < 512" using assms(1) by (simp_all add: ble_wf_def prd_def pwr_def)
  have n: "n \<le> ring512_count prd pwr" using assms(2) by (simp add: ble_pending_def n_def prd_def pwr_def)
  have pend: "ble_pending d = ring512 (b_buf d) prd pwr" by (simp add: ble_pending_def prd_def pwr_def)
  note p = pack512 [OF b n, of "ble_enc d", folded pend]
  show ?thesis
  proof (cases "pwr < prd")
    case True
    obtain bs where "ble_copy_to_end (ble_enc d) (b_buf d) prd n = (bs, n - (512 - prd))"
      "bs @ copy_n (ble_enc d) (b_buf d) 0 (n - (512 - prd)) = concat (map (ble_enc d) (take n (ble_pending d)))"
      using p(1) by blast
    with True show ?thesis
      by (simp add: ble_pack_wrapped_def rd_after512_def n_def prd_def)
  next
    case False
    have "of_nat (prd + n) AND 511 = (of_nat (prd + n) :: u16)"
    proof -
      have lt: "prd + n < 512" using False n b(3) by (simp add: ring512_count_def)
      define w :: u16 where "w = of_nat (prd + n)"
      have "unat w = prd + n" unfolding w_def by (rule unat_of_nat_small) (use lt in simp)
      then have "unat (w AND 511) = unat w" using unat_and_mask_mod [of "511 :: u16" 9 w] lt by simp
      then show ?thesis unfolding w_def [symmetric] by (simp only: word_unat_eq_iff)
    qed
    with False p(2) show ?thesis
      by (simp add: ble_pack_linear_def rd_after512_def n_def prd_def Let_def)
  qed
qed

lemma flush_spec [simp]:
  "fifo_wf f \<Longrightarrow> fifo_wf (app_drv_fifo_flush f)" "fifo_bytes (app_drv_fifo_flush f) = []"
  "fsize (app_drv_fifo_flush f) = fsize f"
  by (simp_all add: app_drv_fifo_flush_def fifo_wf_def fifo_bytes_def fifo_length_def)

text \<open>What a write of the block buffer does to the FIFO.\<close>

lemma ble_fifo_write:
  fixes c :: u8
  assumes "fifo_wf f" "unat c \<le> 232" "length bs = 234"
  shows "if length (fifo_bytes f) + (2 + unat c) \<le> unat (fsize f)
    then \<exists>g. app_drv_fifo_write (Some f) (Some bs) (Some (2 + ucast c)) =
        (APP_DRV_FIFO_RESULT_SUCCESS, Some g, Some (2 + ucast c)) \<and>
      fifo_wf g \<and> fsize g = fsize f \<and> fifo_bytes g = fifo_bytes f @ take (2 + unat c) bs
    else app_drv_fifo_write (Some f) (Some bs) (Some (2 + ucast c)) =
        (APP_DRV_FIFO_RESULT_LENGTH_ERROR, Some f, Some (2 + ucast c))"
proof -
  have len: "unat (2 + ucast c :: u16) = 2 + unat c"
    using assms(2) unat_plus_nowrap [of "2 :: u16" "ucast c"] by simp
  show ?thesis using drv_write_spec [OF assms(1), of "2 + ucast c" bs, unfolded len] assms(2,3)
    by (auto split: if_splits)
qed

lemma ble_send_blk_spec:
  assumes "fifo_wf f" "unat (b_blk_count d) \<le> 232" "length (b_blk_data d) = 232" "2 \<le> unat (fsize f)"
  defines "pkt \<equiv> take (2 + unat (b_blk_count d)) ([b_blk_count d, b_blk_id d] @ b_blk_data d)"
  shows "\<exists>d' g. ble_send_blk ble d f = (d', g) \<and> fifo_wf g \<and> fsize g = fsize f \<and>
    (if length (fifo_bytes f) + length pkt \<le> unat (fsize f)
     then d' = d\<lparr>b_read_count := b_read_count d + 1\<rparr> \<and> fifo_bytes g = fifo_bytes f @ pkt
     else if ble = 0 then d' = d\<lparr>b_overflow_cnt := b_overflow_cnt d + 1\<rparr> \<and> g = f
     else d' = (ble_TimerStop (ble_set_pktcnt 0 d))\<lparr>b_overflow_cnt := b_overflow_cnt d + 1,
         b_blk_count := 0, b_blk_id := b_blk_id d OR CMD_ERR_FLG\<rparr> \<and>
       fifo_bytes g = [0, b_blk_id d OR CMD_ERR_FLG])"
proof -
  let ?bs = "[b_blk_count d, b_blk_id d] @ b_blk_data d"
  have bl: "length ?bs = 234" using assms(3) by simp
  have pl: "length pkt = 2 + unat (b_blk_count d)" using assms(2,3) by (simp add: pkt_def)
  note w = ble_fifo_write [OF assms(1,2) bl, folded pkt_def]
  show ?thesis
  proof (cases "length (fifo_bytes f) + length pkt \<le> unat (fsize f)")
    case True
    then obtain g where "app_drv_fifo_write (Some f) (Some ?bs) (Some (2 + ucast (b_blk_count d))) =
        (APP_DRV_FIFO_RESULT_SUCCESS, Some g, Some (2 + ucast (b_blk_count d)))"
      "fifo_wf g" "fsize g = fsize f" "fifo_bytes g = fifo_bytes f @ pkt"
      using w pl by auto
    with True show ?thesis by (simp add: ble_send_blk_def Let_def)
  next
    case over: False
    then have w: "app_drv_fifo_write (Some f) (Some ?bs) (Some (2 + ucast (b_blk_count d))) =
        (APP_DRV_FIFO_RESULT_LENGTH_ERROR, Some f, Some (2 + ucast (b_blk_count d)))"
      using w pl by auto
    show ?thesis
    proof (cases "ble = 0")
      case True
      with over w assms(1) show ?thesis by (simp add: ble_send_blk_def Let_def)
    next
      case False
      let ?id = "b_blk_id d OR CMD_ERR_FLG"
      have fw: "fifo_wf (app_drv_fifo_flush f)" using assms(1) by simp
      have "length ([0, ?id] @ b_blk_data d) = 234" using assms(3) by simp
      from ble_fifo_write [OF fw _ this, of 0] obtain g where
        "app_drv_fifo_write (Some (app_drv_fifo_flush f)) (Some ([0, ?id] @ b_blk_data d)) (Some 2) =
          (APP_DRV_FIFO_RESULT_SUCCESS, Some g, Some 2)"
        "fifo_wf g" "fsize g = fsize f" "fifo_bytes g = [0, ?id]"
        using assms(4) by (auto simp: numeral_2_eq_2)
      with False over w assms(1) show ?thesis
        by (simp add: ble_send_blk_def Let_def ble_TimerStop_def ble_set_pktcnt_def)
    qed
  qed
qed

section \<open>The task\<close>

definition ble_ready :: "'e ble_dev \<Rightarrow> bool" where
  "ble_ready d \<longleftrightarrow> pktcnt (b_cfg d) \<noteq> 0 \<and> unat (pktcnt (b_cfg d)) \<le> length (ble_pending d)"

definition ble_packed :: "'e ble_dev \<Rightarrow> 'e ble_dev" where
  "ble_packed d =
     (let n = unat (pktcnt (b_cfg d))
      in d\<lparr>b_blk_count := of_nat (ble_size d * n),
           b_blk_id := (if b_rd_24bit d \<noteq> 0 then CMD_DEV_EADC else CMD_DEV_I2C),
           b_blk_data := splice_at (b_blk_data d) 0 (concat (map (ble_enc d) (take n (ble_pending d)))),
           b_buf_rd := of_nat (rd_after512 (unat (b_buf_rd d)) (unat (b_buf_wr d)) n)\<rparr>)"

lemma ble_task_eq:
  assumes "ble_wf d"
  shows "ble_I2CDevTask ble d f =
    (if \<not> ble_ready d then Some (d, f)
     else if ble_fits d then Some (ble_send_blk ble (ble_packed d) f) else None)"
proof (cases "ble_ready d")
  case False
  then show ?thesis
    by (auto simp: ble_I2CDevTask_def ble_ready_def ble_pending_def ring512_count_def ble_BUF_SIZE_def
        Let_def unat_eq_zero)
next
  case True
  let ?n = "unat (pktcnt (b_cfg d))" and ?prd = "unat (b_buf_rd d)" and ?pwr = "unat (b_buf_wr d)"
  have n: "0 < ?n" "?n \<le> ring512_count ?prd ?pwr"
    using True by (simp_all add: ble_ready_def ble_pending_def unat_gt_0)
  have cnt: "(if b_rd_24bit d \<noteq> 0 then pktcnt (b_cfg d) + pktcnt (b_cfg d) + pktcnt (b_cfg d)
      else pktcnt (b_cfg d) + pktcnt (b_cfg d)) = of_nat (ble_size d * ?n)"
    by (simp add: ble_size_def)
  have ne: "?pwr \<noteq> ?prd" using n by (auto simp: ring512_count_def)
  have "ble_I2CDevTask ble d f = do {
      d \<leftarrow> (if ?pwr < ?prd then ble_pack_wrapped d else ble_pack_linear d);
      Some (ble_send_blk ble d f) }"
  proof (cases "?pwr < ?prd")
    case True
    with n show ?thesis by (simp add: ble_I2CDevTask_def ring512_count_def ble_BUF_SIZE_def Let_def)
  next
    case False
    with ne have "?prd < ?pwr" by simp
    with n show ?thesis by (simp add: ble_I2CDevTask_def ring512_count_def ble_BUF_SIZE_def Let_def)
  qed
  also have "(if ?pwr < ?prd then ble_pack_wrapped d else ble_pack_linear d) =
      (if ble_fits d then Some (ble_packed d) else None)"
    using ble_pack [OF assms] True assms unfolding ble_block_def Let_def cnt
    by (auto simp: ble_ready_def ble_fits_def ble_wf_def ble_packed_def Let_def min_def)
  finally show ?thesis using True by simp
qed

lemma ble_packed_facts:
  assumes "ble_wf d" "ble_fits d" "ble_ready d"
  shows "ble_wf (ble_packed d)" "unat (b_blk_count (ble_packed d)) = ble_size d * unat (pktcnt (b_cfg d))"
    "take (2 + unat (b_blk_count (ble_packed d)))
      ([b_blk_count (ble_packed d), b_blk_id (ble_packed d)] @ b_blk_data (ble_packed d)) = ble_packet d"
    "ble_pending (ble_packed d) =
      drop (taken512 (unat (b_buf_rd d)) (unat (b_buf_wr d)) (unat (pktcnt (b_cfg d)))) (ble_pending d)"
    "b_cfg (ble_packed d) = b_cfg d" "b_timer_flg (ble_packed d) = b_timer_flg d"
    "b_read_count (ble_packed d) = b_read_count d" "b_overflow_cnt (ble_packed d) = b_overflow_cnt d"
proof -
  let ?n = "unat (pktcnt (b_cfg d))" and ?prd = "unat (b_buf_rd d)" and ?pwr = "unat (b_buf_wr d)"
  have b: "length (b_buf d) = 512" "?prd < 512" "?pwr < 512" and bd: "length (b_blk_data d) = 232"
    using assms(1) by (simp_all add: ble_wf_def)
  have n: "?n \<le> ring512_count ?prd ?pwr" using assms(3) by (simp add: ble_ready_def ble_pending_def)
  note r = ring512_rd_after [OF b n]
  have i: "unat (of_nat (rd_after512 ?prd ?pwr ?n) :: u16) = rd_after512 ?prd ?pwr ?n"
    by (rule unat_of_nat_small) (use r(2) in simp)
  have m: "ble_size d * ?n \<le> 232" using assms(2) by (simp add: ble_fits_def)
  have u: "unat (of_nat (ble_size d * ?n) :: u8) = ble_size d * ?n"
    by (rule unat_of_nat_small) (use m in simp)
  then show c: "unat (b_blk_count (ble_packed d)) = ble_size d * ?n"
    by (simp add: ble_packed_def Let_def del: of_nat_mult)
  show "ble_wf (ble_packed d)"
    using assms(1) r(2) m n by (simp add: ble_wf_def ble_packed_def Let_def i ble_pending_def)
  show "ble_pending (ble_packed d) = drop (taken512 ?prd ?pwr ?n) (ble_pending d)"
    using r(1) by (simp add: ble_pending_def ble_packed_def Let_def i)
  show "take (2 + unat (b_blk_count (ble_packed d)))
      ([b_blk_count (ble_packed d), b_blk_id (ble_packed d)] @ b_blk_data (ble_packed d)) = ble_packet d"
    unfolding c using m bd n
    by (simp add: ble_packed_def ble_packet_def Let_def splice_at_def ble_pending_def)
qed (simp_all add: ble_packed_def Let_def)

text \<open>What one run of the task that packs a block does.\<close>

lemma ble_task_spec:
  assumes "ble_wf d" "ble_fits d" "ble_ready d" "fifo_wf f" "2 \<le> unat (fsize f)"
  defines "n \<equiv> unat (pktcnt (b_cfg d))"
  shows "\<exists>d' g. ble_I2CDevTask ble d f = Some (d', g) \<and> ble_wf d' \<and> fifo_wf g \<and> fsize g = fsize f \<and>
    ble_pending d' = drop (taken512 (unat (b_buf_rd d)) (unat (b_buf_wr d)) n) (ble_pending d) \<and>
    (if length (fifo_bytes f) + length (ble_packet d) \<le> unat (fsize f)
     then fifo_bytes g = fifo_bytes f @ ble_packet d \<and> b_cfg d' = b_cfg d \<and>
       b_read_count d' = b_read_count d + 1 \<and> b_overflow_cnt d' = b_overflow_cnt d
     else b_overflow_cnt d' = b_overflow_cnt d + 1 \<and> b_read_count d' = b_read_count d \<and>
       (if ble = 0 then g = f \<and> b_cfg d' = b_cfg d
        else fifo_bytes g = [0, ble_packet d ! 1 OR CMD_ERR_FLG] \<and> b_cfg d' = b_cfg d\<lparr>pktcnt := 0\<rparr> \<and>
          b_timer_flg d' = 0))"
proof -
  let ?p = "ble_packed d"
  note p = ble_packed_facts [OF assms(1-3)]
  have c: "unat (b_blk_count ?p) \<le> 232" using p(2) assms(2) by (simp add: ble_fits_def)
  have bd: "length (b_blk_data ?p) = 232" using p(1) by (simp add: ble_wf_def)
  obtain d' g where s: "ble_send_blk ble ?p f = (d', g)" "fifo_wf g" "fsize g = fsize f"
    "if length (fifo_bytes f) + length (ble_packet d) \<le> unat (fsize f)
     then d' = ?p\<lparr>b_read_count := b_read_count ?p + 1\<rparr> \<and> fifo_bytes g = fifo_bytes f @ ble_packet d
     else if ble = 0 then d' = ?p\<lparr>b_overflow_cnt := b_overflow_cnt ?p + 1\<rparr> \<and> g = f
     else d' = (ble_TimerStop (ble_set_pktcnt 0 ?p))\<lparr>b_overflow_cnt := b_overflow_cnt ?p + 1,
         b_blk_count := 0, b_blk_id := b_blk_id ?p OR CMD_ERR_FLG\<rparr> \<and>
       fifo_bytes g = [0, b_blk_id ?p OR CMD_ERR_FLG]"
    using ble_send_blk_spec [OF assms(4) c bd assms(5), of ble, unfolded p(3)] by blast
  have id: "b_blk_id ?p = ble_packet d ! 1" by (simp add: ble_packed_def ble_packet_def Let_def)
  have t: "ble_I2CDevTask ble d f = Some (d', g)"
    using ble_task_eq [OF assms(1), of ble f] assms(2,3) s(1) by simp
  have fr: "ble_wf (x\<lparr>b_read_count := a\<rparr>) = ble_wf x" "ble_wf (x\<lparr>b_overflow_cnt := a\<rparr>) = ble_wf x"
    "ble_wf (x\<lparr>b_overflow_cnt := a, b_blk_count := i, b_blk_id := j\<rparr>) = ble_wf x"
    "ble_wf (ble_TimerStop (ble_set_pktcnt 0 x)) = ble_wf x"
    "ble_pending (x\<lparr>b_read_count := a\<rparr>) = ble_pending x"
    "ble_pending (x\<lparr>b_overflow_cnt := a\<rparr>) = ble_pending x"
    "ble_pending (x\<lparr>b_overflow_cnt := a, b_blk_count := i, b_blk_id := j\<rparr>) = ble_pending x"
    "ble_pending (ble_TimerStop (ble_set_pktcnt 0 x)) = ble_pending x" for x :: "'a ble_dev" and a i j
    by (simp_all add: ble_wf_def ble_pending_def ble_TimerStop_def ble_set_pktcnt_def i2c_cfg_wf_def)
  consider (ok) "length (fifo_bytes f) + length (ble_packet d) \<le> unat (fsize f)"
    | (usb) "\<not> length (fifo_bytes f) + length (ble_packet d) \<le> unat (fsize f)" "ble = 0"
    | (ble) "\<not> length (fifo_bytes f) + length (ble_packet d) \<le> unat (fsize f)" "ble \<noteq> 0" by blast
  then show ?thesis
  proof cases
    case ok
    then have "d' = ?p\<lparr>b_read_count := b_read_count d + 1\<rparr>" using s(4) p(7) by simp
    with ok s p t show ?thesis by (simp add: n_def fr)
  next
    case usb
    then have "d' = ?p\<lparr>b_overflow_cnt := b_overflow_cnt d + 1\<rparr>" using s(4) p(8) by simp
    with usb s p t show ?thesis by (simp add: n_def fr)
  next
    case ble
    then have d': "d' = (ble_TimerStop (ble_set_pktcnt 0 ?p))\<lparr>b_overflow_cnt := b_overflow_cnt d + 1,
         b_blk_count := 0, b_blk_id := b_blk_id ?p OR CMD_ERR_FLG\<rparr>" using s(4) p(8) by simp
    have "ble_wf d'" "ble_pending d' = ble_pending ?p" unfolding d' fr using p(1) by simp_all
    moreover have "b_cfg d' = b_cfg d\<lparr>pktcnt := 0\<rparr>" "b_timer_flg d' = 0" "b_read_count d' = b_read_count d"
      "b_overflow_cnt d' = b_overflow_cnt d + 1"
      using p by (simp_all add: d' ble_TimerStop_def ble_set_pktcnt_def)
    ultimately show ?thesis using ble s p(4) t by (simp add: n_def id)
  qed
qed

lemma ble_task_cases:
  assumes "ble_I2CDevTask ble d f = Some (d', g)" "ble_wf d" "fifo_wf f" "2 \<le> unat (fsize f)"
  shows "ble_wf d' \<and> fifo_wf g \<and> fsize g = fsize f \<and>
    (fifo_bytes g = fifo_bytes f \<or> fifo_bytes g = fifo_bytes f @ ble_packet d \<or>
     ble \<noteq> 0 \<and> fifo_bytes g = [0, ble_packet d ! 1 OR CMD_ERR_FLG])"
proof (cases "ble_ready d")
  case False
  with assms show ?thesis by (simp add: ble_task_eq)
next
  case True
  with assms have "ble_fits d" by (simp add: ble_task_eq split: if_splits)
  from ble_task_spec [OF assms(2) this True assms(3,4), of ble] assms(1) show ?thesis
    by (auto split: if_splits)
qed

section \<open>The other operations keep the device well-formed\<close>

lemma ble_write_word_frame: "ble_write_word env r d = Some (ret, d') \<Longrightarrow> \<exists>h. d' = d\<lparr>b_i2c := h\<rparr>"
  by (auto simp: ble_write_word_def bind_eq_Some_conv)

lemma ble_sleep_frame:
  "ble_sleep_us env n d = Some d' \<Longrightarrow> \<exists>h. d' = d\<lparr>b_i2c := h\<rparr>"
  "ble_sleep_ms env n d = Some d' \<Longrightarrow> \<exists>h. d' = d\<lparr>b_i2c := h\<rparr>"
  "ble_bus_init d = Some d' \<Longrightarrow> \<exists>h. d' = d\<lparr>b_i2c := h\<rparr>"
  by (auto simp: ble_sleep_us_def ble_sleep_ms_def ble_bus_init_def bind_eq_Some_conv)

text \<open>Up to bus, timer, pins, counters and packet count.\<close>

definition ble_keeps :: "'e ble_dev \<Rightarrow> 'e ble_dev \<Rightarrow> bool" where
  "ble_keeps d d' \<longleftrightarrow> init (b_cfg d') = init (b_cfg d) \<and> rd (b_cfg d') = rd (b_cfg d) \<and>
     slp (b_cfg d') = slp (b_cfg d) \<and> pktcnt (b_cfg d') \<le> pktcnt (b_cfg d) \<and>
     b_rd_24bit d' = b_rd_24bit d \<and> b_buf d' = b_buf d \<and> b_blk_data d' = b_blk_data d \<and>
     (b_raddr d' = b_raddr d \<and> b_buf_rd d' = b_buf_rd d \<and> b_buf_wr d' = b_buf_wr d \<or>
      b_raddr d' = 0 \<and> b_buf_rd d' = 0 \<and> b_buf_wr d' = 0)"

lemma ble_keeps_refl [simp]: "ble_keeps d d"
  by (simp add: ble_keeps_def)

lemma ble_keeps_trans: "ble_keeps d e \<Longrightarrow> ble_keeps e d' \<Longrightarrow> ble_keeps d d'"
  by (auto simp: ble_keeps_def intro: order_trans)

lemma ble_keeps_wf: "ble_keeps d d' \<Longrightarrow> ble_wf d \<Longrightarrow> ble_wf d'"
  by (auto simp: ble_keeps_def ble_wf_def i2c_cfg_wf_def)

lemma ble_keeps_fits: "ble_keeps d d' \<Longrightarrow> ble_fits d \<Longrightarrow> ble_fits d'"
  by (auto simp: ble_keeps_def ble_fits_def ble_size_def word_le_nat_alt split: if_splits)

lemma ble_keeps_updates [simp]:
  "ble_keeps d (d\<lparr>b_i2c := h\<rparr>)" "ble_keeps d (d\<lparr>b_timer_flg := t\<rparr>)"
  "ble_keeps d (ble_TimerStop d)" "ble_keeps d (ble_TimerStart d)" "ble_keeps d (ble_FlushBuf d)"
  "ble_keeps d (ble_TimerInit p d)" "ble_keeps d (ble_set_pktcnt 0 d)" "ble_keeps d (ble_pins w m d)"
  "ble_keeps d (d\<lparr>b_pb_out := o'\<rparr>)" "ble_keeps d (d\<lparr>b_read_count := x, b_overflow_cnt := y\<rparr>)"
  by (simp_all add: ble_keeps_def ble_TimerStop_def ble_TimerStart_def ble_FlushBuf_def ble_TimerInit_def
      ble_set_pktcnt_def ble_pins_def Let_def)

lemma ble_keeps_stop [simp]: "ble_keeps d (ble_TimerStop (ble_set_pktcnt 0 d))"
  using ble_keeps_trans [OF ble_keeps_updates(7,3)] .

lemma ble_keeps_clamp: "ble_keeps d (ble_clamp_pktcnt d)" "ble_keeps d (snd (ble_clamp_clk d))"
  by (auto simp: ble_keeps_def ble_clamp_pktcnt_def ble_clamp_clk_def ble_set_pktcnt_def Let_def)

lemma ble_init_regs_keeps: "ble_init_regs env rs d = Some d' \<Longrightarrow> ble_keeps d d'"
proof (induction rs arbitrary: d)
  case (Cons r rs)
  show ?case
  proof (cases "wr_dev_addr r = 0")
    case True
    with Cons.prems show ?thesis by simp
  next
    case False
    with Cons.prems obtain ret d1 d2 where s: "ble_write_word env r d = Some (ret, d1)"
      "ble_sleep_us env 512 (if ret \<noteq> 0 then ble_TimerStop (ble_set_pktcnt 0 d1) else d1) = Some d2"
      "ble_init_regs env rs d2 = Some d'"
      by (auto simp: bind_eq_Some_conv Let_def)
    have "ble_keeps d d1" using ble_write_word_frame [OF s(1)] by auto
    moreover have "ble_keeps d1 (if ret \<noteq> 0 then ble_TimerStop (ble_set_pktcnt 0 d1) else d1)"
      by simp
    moreover have "ble_keeps (if ret \<noteq> 0 then ble_TimerStop (ble_set_pktcnt 0 d1) else d1) d2"
      using ble_sleep_frame(1) [OF s(2)] by auto
    ultimately show ?thesis using Cons.IH [OF s(3)] by (blast intro: ble_keeps_trans)
  qed
qed simp

lemma ble_start_timer_keeps: "ble_start_timer env t d = Some (ret, d') \<Longrightarrow> ble_keeps d d'"
proof -
  assume s: "ble_start_timer env t d = Some (ret, d')"
  show ?thesis
  proof (cases "pktcnt (b_cfg d) \<noteq> 0 \<and> rd_dev_addr (rd (b_cfg d) ! b_raddr d) \<noteq> 0")
    case False
    with s show ?thesis by (auto simp: ble_start_timer_def split: if_splits)
  next
    case True
    with s obtain d1 d2 where s: "ble_sleep_us env t d = Some d1"
      "(if b_rd_24bit d1 > 1 then ble_sleep_us env t d1 else Some d1) = Some d2"
      and d': "d' = ble_TimerStart (d2\<lparr>b_timer_flg := 1\<rparr>)"
      by (auto simp: ble_start_timer_def bind_eq_Some_conv Let_def)
    have "ble_keeps d d1" using ble_sleep_frame(1) [OF s(1)] by auto
    moreover have "ble_keeps d1 d2" using s(2) ble_sleep_frame(1) [of env t d1 d2] by (auto split: if_splits)
    moreover have "ble_keeps d2 d'" unfolding d' using ble_keeps_trans [OF ble_keeps_updates(2,4)] .
    ultimately show ?thesis by (blast intro: ble_keeps_trans)
  qed
qed

text \<open>The steps of a start after the settings are clamped.\<close>

lemma ble_start_run:
  assumes "ble_I2CDevStart env d = Some (ret, d')"
  defines "d1 \<equiv> snd (ble_clamp_clk (ble_clamp_pktcnt (d\<lparr>b_timer_flg := 0\<rparr>)))"
  obtains d2 where "ble_bus_init d1 = Some d2"
      "ret = 0" "d' = ble_TimerStop (ble_set_pktcnt 0 d2)"
    | d2 t d3 where "ble_bus_init d1 = Some d2"
      "ble_init_regs env (init (b_cfg (ble_start_prepare t d2))) (ble_start_prepare t d2) = Some d3"
      "ble_start_timer env t d3 = Some (ret, d')"
proof -
  obtain clk where c: "ble_clamp_clk (ble_clamp_pktcnt (d\<lparr>b_timer_flg := 0\<rparr>)) = (clk, d1)"
    by (cases "ble_clamp_clk (ble_clamp_pktcnt (d\<lparr>b_timer_flg := 0\<rparr>))") (simp add: d1_def)
  from assms(1) obtain d2 t where "ble_bus_init d1 = Some d2" and
    k: "(if t < MIN_TIM_IRQ div clk then Some (0, ble_TimerStop (ble_set_pktcnt 0 d2))
      else do {
        d \<leftarrow> ble_init_regs env (init (b_cfg (ble_start_prepare t d2))) (ble_start_prepare t d2);
        ble_start_timer env t d }) = Some (ret, d')"
    unfolding ble_I2CDevStart_def Let_def c prod.case by (auto simp: bind_eq_Some_conv)
  then show thesis
    using that by (auto simp: bind_eq_Some_conv split: if_splits)
qed

lemma ble_prepare_keeps: "ble_keeps d (ble_start_prepare t d)"
  by (simp add: ble_start_prepare_def ble_keeps_def ble_TimerStop_def ble_FlushBuf_def ble_TimerInit_def Let_def)

text \<open>A start clamps the packet count to what fits and keeps the rest.\<close>

lemma ble_clamp_fits: "ble_fits (ble_clamp_pktcnt d)"
  by (auto simp: ble_fits_def ble_clamp_pktcnt_def ble_size_def ble_set_pktcnt_def regs word_less_nat_alt)

lemma ble_start_spec:
  assumes "ble_I2CDevStart env d = Some (ret, d')"
  shows "ble_keeps d d'" "ble_fits d'"
proof -
  define d1 where "d1 = snd (ble_clamp_clk (ble_clamp_pktcnt (d\<lparr>b_timer_flg := 0\<rparr>)))"
  let ?d0 = "ble_clamp_pktcnt (d\<lparr>b_timer_flg := 0\<rparr>)"
  have k0: "ble_keeps d ?d0" using ble_keeps_trans [OF ble_keeps_updates(2) ble_keeps_clamp(1)] .
  have k1: "ble_keeps ?d0 d1" unfolding d1_def by (rule ble_keeps_clamp)
  have "ble_keeps d1 d'"
  proof (rule ble_start_run [OF assms, folded d1_def])
    fix d2 assume "ble_bus_init d1 = Some d2" "d' = ble_TimerStop (ble_set_pktcnt 0 d2)"
    then show ?thesis
      using ble_sleep_frame(3) [of d1 d2] ble_keeps_trans [OF ble_keeps_updates(1) ble_keeps_stop] by auto
  next
    fix d2 t d3
    assume s: "ble_bus_init d1 = Some d2"
      "ble_init_regs env (init (b_cfg (ble_start_prepare t d2))) (ble_start_prepare t d2) = Some d3"
      "ble_start_timer env t d3 = Some (ret, d')"
    have "ble_keeps d1 d2" using ble_sleep_frame(3) [OF s(1)] by auto
    then show ?thesis
      using ble_prepare_keeps [of d2 t] ble_init_regs_keeps [OF s(2)] ble_start_timer_keeps [OF s(3)]
      by (blast intro: ble_keeps_trans)
  qed
  then have "ble_keeps ?d0 d'" using k1 by (rule ble_keeps_trans [rotated])
  then show "ble_keeps d d'" "ble_fits d'"
    using k0 ble_clamp_fits by (blast intro: ble_keeps_trans ble_keeps_fits)+
qed

lemma ble_sleep_keeps:
  assumes "ble_I2CDevSleep env d = Some d'"
  shows "ble_keeps d d' \<and> pktcnt (b_cfg d') = 0 \<and> b_timer_flg d' = 0 \<and>
    b_pb_out d' = b_pb_out d AND NOT ble_DEV_POWER"
proof -
  let ?d0 = "ble_TimerStop (ble_set_pktcnt 0 d)"
  let ?fin = "\<lambda>e. ble_pins (ble_DEV_POWER OR ble_DEV_SCL OR ble_DEV_SDA) GPIO_ModeIN_Floating
    (e\<lparr>b_i2c := I2CBusDeInit (b_i2c e), b_pb_out := b_pb_out e AND NOT ble_DEV_POWER\<rparr>)"
  obtain h where d': "d' = ?fin (?d0\<lparr>b_i2c := h\<rparr>)"
  proof (cases "wr_dev_addr (slp (b_cfg ?d0) ! 0) \<noteq> 0")
    case False
    with assms have "d' = ?fin (?d0\<lparr>b_i2c := b_i2c ?d0\<rparr>)" by (auto simp: ble_I2CDevSleep_def Let_def)
    then show thesis by (rule that)
  next
    case True
    with assms obtain d1 r d2 d3 where s: "ble_bus_init ?d0 = Some d1"
      "ble_write_word env (slp (b_cfg d1) ! 0) d1 = Some (r, d2)" and
      k: "(if wr_dev_addr (slp (b_cfg d2) ! 1) \<noteq> 0
        then do { (ret, d) \<leftarrow> ble_write_word env (slp (b_cfg d2) ! 1) d2; Some d } else Some d2) = Some d3"
      and d': "d' = ?fin d3"
      by (auto simp: ble_I2CDevSleep_def Let_def bind_eq_Some_conv)
    obtain h1 where "d2 = ?d0\<lparr>b_i2c := h1\<rparr>"
      using ble_sleep_frame(3) [OF s(1)] ble_write_word_frame [OF s(2)] by auto
    moreover have "\<exists>h. d3 = d2\<lparr>b_i2c := h\<rparr>"
    proof (cases "wr_dev_addr (slp (b_cfg d2) ! 1) \<noteq> 0")
      case True
      with k obtain r where "ble_write_word env (slp (b_cfg d2) ! 1) d2 = Some (r, d3)"
        by (auto simp: bind_eq_Some_conv)
      then show ?thesis by (rule ble_write_word_frame)
    next
      case False
      with k have "d3 = d2\<lparr>b_i2c := b_i2c d2\<rparr>" by simp
      then show ?thesis by blast
    qed
    ultimately obtain h where "d3 = ?d0\<lparr>b_i2c := h\<rparr>" by auto
    with d' show thesis by (intro that [of h]) simp
  qed
  show ?thesis
    by (simp add: d' ble_keeps_def ble_pins_def ble_TimerStop_def ble_set_pktcnt_def)
qed

lemma ble_wake_keeps:
  assumes "ble_I2CDevWakeUp env d = Some d'"
  shows "ble_keeps d d' \<and> ble_fits d'"
proof -
  let ?d0 = "ble_pins (ble_DEV_POWER OR ble_DEV_SCL OR ble_DEV_SDA) GPIO_ModeIN_PU d"
  let ?p = "\<lambda>e. ble_pins ble_DEV_POWER GPIO_ModeOut_PP_20mA (ble_pins ble_DEV_POWER GPIO_ModeOut_PP_5mA
      (e\<lparr>b_pb_out := b_pb_out e OR ble_DEV_POWER\<rparr>))"
  obtain d1 d2 ret where s: "ble_sleep_us env 128 ?d0 = Some d1" "ble_sleep_ms env 2 (?p d1) = Some d2"
    "ble_I2CDevStart env (ble_set_pktcnt 0 d2) = Some (ret, d')"
    using assms by (auto simp: ble_I2CDevWakeUp_def Let_def bind_eq_Some_conv)
  have "ble_keeps d (ble_set_pktcnt 0 d2)"
    using ble_sleep_frame(1) [OF s(1)] ble_sleep_frame(2) [OF s(2)]
    by (auto simp: ble_keeps_def ble_pins_def ble_set_pktcnt_def)
  with ble_start_spec [OF s(3)] show ?thesis by (blast intro: ble_keeps_trans)
qed

section \<open>The interrupt\<close>

lemma ble_irq_sample:
  assumes "ble_TMR1_IRQHandler env d = Some d'" "b_tmr_cyc_end d" "b_timer_flg d \<noteq> 0"
  shows "\<exists>h w. d' = d\<lparr>b_i2c := h, b_buf := (b_buf d)[unat (b_buf_wr d) := w],
    b_buf_wr := (b_buf_wr d + 1) AND 511, b_raddr := next_raddr (b_cfg d) (b_raddr d),
    b_tmr_cyc_end := False\<rparr>"
proof (cases "raddr_dev_addr (b_cfg d) (b_raddr d + 1) = 0 \<or> b_raddr d + 1 > 3")
  case True
  with assms show ?thesis by (cases "b_rd_24bit d = 0")
    (auto simp: ble_TMR1_IRQHandler_def next_raddr_def Let_def bind_eq_Some_conv)
next
  case False
  with assms show ?thesis by (cases "b_rd_24bit d = 0")
    (auto simp: ble_TMR1_IRQHandler_def next_raddr_def Let_def bind_eq_Some_conv)
qed

lemma next_wr512:
  fixes w :: u16
  assumes "unat w < 512"
  shows "unat ((w + 1) AND 511) = Suc (unat w) mod 512"
  using unat_and_mask_mod [of "511 :: u16" 9 "w + 1"] unat_plus_nowrap [of w 1] assms by simp

lemma ble_irq_spec:
  assumes "ble_TMR1_IRQHandler env d = Some d'" "ble_wf d"
  shows "ble_wf d'" "b_cfg d' = b_cfg d" "b_rd_24bit d' = b_rd_24bit d"
    "b_tmr_cyc_end d \<Longrightarrow> b_timer_flg d \<noteq> 0 \<Longrightarrow> length (ble_pending d) < 511 \<Longrightarrow>
      \<exists>w. ble_pending d' = ble_pending d @ [w]"
proof -
  have "ble_wf d' \<and> b_cfg d' = b_cfg d \<and> b_rd_24bit d' = b_rd_24bit d \<and>
    (b_tmr_cyc_end d \<longrightarrow> b_timer_flg d \<noteq> 0 \<longrightarrow> length (ble_pending d) < 511 \<longrightarrow>
      (\<exists>w. ble_pending d' = ble_pending d @ [w]))"
  proof (cases "b_tmr_cyc_end d \<and> b_timer_flg d \<noteq> 0")
    case False
    with assms show ?thesis
      by (auto simp: ble_TMR1_IRQHandler_def ble_wf_def split: if_splits)
  next
    case True
    then obtain h w where d': "d' = d\<lparr>b_i2c := h, b_buf := (b_buf d)[unat (b_buf_wr d) := w],
        b_buf_wr := (b_buf_wr d + 1) AND 511, b_raddr := next_raddr (b_cfg d) (b_raddr d),
        b_tmr_cyc_end := False\<rparr>"
      using ble_irq_sample [OF assms(1)] by blast
    have b: "unat (b_buf_wr d) < 512" "unat (b_buf_rd d) < 512" "length (b_buf d) = 512"
      using assms(2) by (simp_all add: ble_wf_def)
    have "ble_wf d'" using assms(2) by (simp add: d' ble_wf_def next_wr512 next_raddr_def)
    moreover have "ble_pending d' = ble_pending d @ [w]" if "length (ble_pending d) < 511"
      using ring512_push [OF b(3,2,1)] that by (simp add: d' ble_pending_def next_wr512 b(1))
    ultimately show ?thesis by (auto simp: d')
  qed
  then show "ble_wf d'" "b_cfg d' = b_cfg d" "b_rd_24bit d' = b_rd_24bit d"
    "b_tmr_cyc_end d \<Longrightarrow> b_timer_flg d \<noteq> 0 \<Longrightarrow> length (ble_pending d) < 511 \<Longrightarrow>
      \<exists>w. ble_pending d' = ble_pending d @ [w]" by blast+
qed

section \<open>Properties\<close>

text \<open>
  C10: When enough samples are pending, one run of the packing task appends the block whole to the output
  FIFO, or counts an overflow. To a Bluetooth client an overflow is final: what the FIFO held is thrown
  away, the client gets an error block of two bytes in its place, the timer is stopped and the packet
  count is 0, so that no further block follows. The samples that leave the ring are the same either way.
\<close>

theorem ble_task_overflow:
  assumes "ble_wf d" "ble_fits d" "ble_ready d" "fifo_wf f" "2 \<le> unat (fsize f)"
  shows "\<exists>d' g. ble_I2CDevTask ble d f = Some (d', g) \<and>
    ble_pending d' = drop
      (if b_buf_wr d < b_buf_rd d \<and> unat (b_buf_rd d) + unat (pktcnt (b_cfg d)) < 512
       then 512 - unat (b_buf_rd d) else unat (pktcnt (b_cfg d))) (ble_pending d) \<and>
    (if length (fifo_bytes f) + length (ble_packet d) \<le> unat (fsize f)
     then fifo_bytes g = fifo_bytes f @ ble_packet d \<and> b_cfg d' = b_cfg d \<and>
       b_read_count d' = b_read_count d + 1 \<and> b_overflow_cnt d' = b_overflow_cnt d
     else b_overflow_cnt d' = b_overflow_cnt d + 1 \<and> b_read_count d' = b_read_count d \<and>
       (if ble = 0 then g = f \<and> b_cfg d' = b_cfg d
        else fifo_bytes g = [0, ble_packet d ! 1 OR 0x80] \<and> pktcnt (b_cfg d') = 0 \<and>
          b_timer_flg d' = 0 \<and> (\<forall>h. ble_I2CDevTask ble d' h = Some (d', h))))"
proof -
  obtain d' g where s: "ble_I2CDevTask ble d f = Some (d', g)" "ble_wf d'"
    "ble_pending d' = drop (taken512 (unat (b_buf_rd d)) (unat (b_buf_wr d)) (unat (pktcnt (b_cfg d))))
      (ble_pending d)"
    "if length (fifo_bytes f) + length (ble_packet d) \<le> unat (fsize f)
     then fifo_bytes g = fifo_bytes f @ ble_packet d \<and> b_cfg d' = b_cfg d \<and>
       b_read_count d' = b_read_count d + 1 \<and> b_overflow_cnt d' = b_overflow_cnt d
     else b_overflow_cnt d' = b_overflow_cnt d + 1 \<and> b_read_count d' = b_read_count d \<and>
       (if ble = 0 then g = f \<and> b_cfg d' = b_cfg d
        else fifo_bytes g = [0, ble_packet d ! 1 OR CMD_ERR_FLG] \<and> b_cfg d' = b_cfg d\<lparr>pktcnt := 0\<rparr> \<and>
          b_timer_flg d' = 0)"
    using ble_task_spec [OF assms, of ble] by blast
  have idle: "ble_I2CDevTask ble d' h = Some (d', h)" if "b_cfg d' = b_cfg d\<lparr>pktcnt := 0\<rparr>" for h
    using that s(2) by (simp add: ble_task_eq ble_ready_def)
  have err: "CMD_ERR_FLG = 0x80" by (simp add: regs)
  show ?thesis
    using s(1,3,4) idle by (intro exI [of _ d'] exI [of _ g])
      (simp add: taken512_def word_less_nat_alt err split: if_splits)
qed

text \<open>A device with samples 0 to 511 in its ring, and a FIFO of 64 bytes with 60 of them taken.\<close>

definition ble_ring :: "'e \<Rightarrow> u8 \<Rightarrow> u16 \<Rightarrow> u16 \<Rightarrow> 'e ble_dev" where
  "ble_ring e n prd pwr =
     \<lparr>b_cfg = def_cfg_i2c\<lparr>pktcnt := n\<rparr>,
      b_cfg_ina228 = \<lparr>enable = 0, chnl = 0, smpr = 0, sh = 0\<rparr>, b_raddr = 0, b_buf_rd = prd,
      b_buf_wr = pwr, b_timer_flg = 1, b_rd_24bit = 1, b_buf = map of_nat [0..<512],
      b_read_count = 0, b_overflow_cnt = 0, b_blk_count = 0, b_blk_id = 0,
      b_blk_data = replicate 232 0,
      b_i2c = \<lparr>ctrl1 = 0, ctrl2 = 0, sfr_log = [], hw_pos = 0\<rparr>, b_tmr_cnt_end = 0,
      b_tmr_ctrl_mod = 0, b_tmr_irq_en = False, b_tmr_cyc_end = False, b_pb_out = 0, b_gpio_cfg = [],
      b_eep = e\<rparr>"

definition fifo60 :: app_drv_fifo_t where
  "fifo60 = \<lparr>fbegin = 0, fend = 60, fdata = replicate 64 7, fsize = 64, fsize_mask = 63\<rparr>"

lemma ble_ring_facts:
  assumes "unat n \<le> 76" "n \<noteq> 0" "unat prd < 512" "unat pwr < 512" "unat n \<le> ring512_count (unat prd) (unat pwr)"
  shows "ble_wf (ble_ring e n prd pwr)" "ble_fits (ble_ring e n prd pwr)" "ble_ready (ble_ring e n prd pwr)"
  using assms by (simp_all add: ble_ring_def ble_wf_def ble_fits_def ble_ready_def ble_size_def
      i2c_cfg_wf_def def_cfg_i2c_def ble_pending_def)

lemma fifo60_facts: "fifo_wf fifo60" "length (fifo_bytes fifo60) = 60" "fsize fifo60 = 64"
  by (simp_all add: fifo60_def fifo_wf_def fifo_length_def)

theorem ble_task_overflow_witness:
  "\<exists>d' g. ble_I2CDevTask 1 (ble_ring () 2 508 5) fifo60 = Some (d', g) \<and> fifo_bytes g = [0, 0xBA] \<and>
    length (ble_pending d') = 5"
proof -
  let ?d = "ble_ring () 2 508 5"
  have p: "ble_wf ?d" "ble_fits ?d" "ble_ready ?d"
    by (rule ble_ring_facts; simp add: ring512_count_def)+
  have c: "b_cfg ?d = def_cfg_i2c\<lparr>pktcnt := 2\<rparr>" "b_buf_wr ?d = 5" "b_buf_rd ?d = 508" "b_rd_24bit ?d = 1"
    by (simp_all add: ble_ring_def)
  have l: "length (ble_pending ?d) = 9" by (simp add: ble_pending_def c ring512_count_def)
  have "length (ble_packet ?d) = 8" "ble_packet ?d ! 1 = 0x3A"
    using l by (simp_all add: ble_packet_def c ble_size_def regs)
  with ble_task_overflow [OF p, of fifo60 1] fifo60_facts l c show ?thesis by auto
qed

end
