(* ===== verification/BleCmd.thy ===== *)
theory BleCmd
  imports BleDev CmdDecode
begin

text \<open>
  The command interpreter of the Bluetooth bridge (\<open>ch583/I2C2BLE/APP/cmd_decode.c\<close>): that of the
  CH592 program with two more commands, the choice of the sample format and the universal bus
  transaction, and with larger blocks for a Bluetooth client. The received packet is the whole command
  buffer of 236 bytes: the interpreter does not look at the received length.
\<close>

section \<open>INA228 measurement\<close>

definition ble_ina228_setup :: "u8 \<Rightarrow> dev_ina228_cfg_t \<Rightarrow> 'e ble_dev \<Rightarrow> 'e ble_dev" where
  "ble_ina228_setup ble_enable cfg d =
     (let d = d\<lparr>b_timer_flg := 0\<rparr>;
          c = b_cfg d;
          shunt = (if sh cfg \<noteq> 0 then push_bit 4 1 else 0 :: u16);
          rd0 = \<lparr>rd_dev_addr = I2C_ADDR_INA228, rd_reg_addr = INA228_RA_VBUS\<rparr>;
          rd1 = \<lparr>rd_dev_addr = I2C_ADDR_INA228, rd_reg_addr = INA228_RA_VSHUNT\<rparr>;
          rd2 = (rd c ! 2)\<lparr>rd_dev_addr := 0\<rparr>;
          (rd0, rd1, reg, bits24) =
            (if chnl cfg = 3 then (rd0, rd1, push_bit 12 0x0b, 2)
             else if chnl cfg = 2
             then (rd0, rd1\<lparr>rd_reg_addr := INA228_RA_VBUS\<rparr>, push_bit 12 0x09, 1)
             else (rd0\<lparr>rd_reg_addr := INA228_RA_VSHUNT\<rparr>, rd1, push_bit 12 0x0a, 1));
          i = conv_index (smpr cfg);
          reg = reg OR (push_bit 3 (of_nat i) OR push_bit 6 (of_nat i) OR push_bit 9 (of_nat i)) :: u16
      in d\<lparr>b_rd_24bit := bits24,
           b_cfg := c\<lparr>
             init :=
               [\<lparr>wr_dev_addr = I2C_ADDR_INA228, wr_reg_addr = INA228_RA_CONFIG, wr_data = push_bit 14 3\<rparr>,
                \<lparr>wr_dev_addr = I2C_ADDR_INA228, wr_reg_addr = INA228_RA_CONFIG, wr_data = shunt\<rparr>,
                \<lparr>wr_dev_addr = I2C_ADDR_INA228, wr_reg_addr = INA228_RA_DIAG_ALRT, wr_data = push_bit 14 1\<rparr>,
                \<lparr>wr_dev_addr = I2C_ADDR_INA228, wr_reg_addr = INA228_RA_ADC_CONFIG, wr_data = reg\<rparr>],
             rd := [rd0, rd1, rd2, rd c ! 3],
             clk_khz := ucast DEF_I2C_CLK_KHZ,
             multiplier := 0,
             time := tab_time_us ! i,
             pktcnt := (if ble_enable \<noteq> 0 then 76 else 20)\<rparr>\<rparr>)"

definition ble_ina228_start ::
    "hw_env \<Rightarrow> u8 \<Rightarrow> dev_ina228_cfg_t \<Rightarrow> 'e ble_dev \<Rightarrow> (u32 \<times> 'e ble_dev) option" where
  "ble_ina228_start env ble_enable cfg d = ble_I2CDevStart env (ble_ina228_setup ble_enable cfg d)"

definition ble_ina228_stop :: "hw_env \<Rightarrow> 'e ble_dev \<Rightarrow> (u32 \<times> 'e ble_dev) option" where
  "ble_ina228_stop env d = ble_I2CDevStart env (ble_set_pktcnt 0 d)"

section \<open>The commands\<close>

definition CMD_DEV_FRD :: u8 where [regs]: "CMD_DEV_FRD = 0x18"
definition ble_DEV_VER :: u16 where [regs]: "ble_DEV_VER = 0x0008"

type_synonym 'e ble_reply = "(u32 \<times> blk_tx_pkt_t \<times> 'e ble_dev) option"

definition ble_cmd_error :: "blk_tx_pkt_t \<Rightarrow> 'e ble_dev \<Rightarrow> 'e ble_reply" where
  "ble_cmd_error p d = Some (2, p\<lparr>tx_cmd := tx_cmd p OR CMD_ERR_FLG\<rparr>, d)"

definition ble_cmd_ver :: "blk_tx_pkt_t \<Rightarrow> 'e ble_dev \<Rightarrow> 'e ble_reply" where
  "ble_cmd_ver p d = Some (6, tx_put 2 (le16 ble_DEV_VER) (tx_put 0 (le16 INT_DEV_ID) p), d)"

definition ble_cmd_cfg :: "hw_env \<Rightarrow> u8 list \<Rightarrow> blk_tx_pkt_t \<Rightarrow> 'e ble_dev \<Rightarrow> 'e ble_reply" where
  "ble_cmd_cfg env buf p d =
     do {
       (ok, d) \<leftarrow>
         (if rx_size buf \<noteq> 0
          then do {
            let d = d\<lparr>b_timer_flg := 0\<rparr>;
            let n = (if rx_size buf > 38 then 38 else unat (rx_size buf));
            let d = d\<lparr>b_cfg := i2c_cfg_memcpy (b_cfg d) (rx_data buf) n\<rparr>;
            (ret, d) \<leftarrow> ble_I2CDevStart env d;
            Some (ret \<noteq> 0, d)
          }
          else Some (True, d));
       if \<not> ok then ble_cmd_error p d
       else Some (40, tx_put 0 (take 38 (i2c_cfg_bytes (b_cfg d))) p, d)
     }"

definition ble_cmd_scf :: "'e flash_ops \<Rightarrow> u8 list \<Rightarrow> blk_tx_pkt_t \<Rightarrow> 'e ble_dev \<Rightarrow> 'e ble_reply" where
  "ble_cmd_scf ops buf p d =
     (if rx_size buf < 1 then ble_cmd_error p d
      else
        (let p = tx_put 0 [0, 0, 0, 0] p;
             (p, d) =
               (if bit (rx_data buf ! 0) 0
                then (let (ret, d) = ble_WriteSetings ops d
                      in (if ret = 0 then tx_put 0 [tx_data p ! 0 OR 1] p else p, d))
                else (p, d))
         in Some (3, p, d)))"

definition ble_cmd_grg :: "hw_env \<Rightarrow> u8 list \<Rightarrow> blk_tx_pkt_t \<Rightarrow> 'e ble_dev \<Rightarrow> 'e ble_reply" where
  "ble_cmd_grg env buf p d =
     do {
       let tmp = b_timer_flg d;
       let d = d\<lparr>b_timer_flg := 0\<rparr>;
       (ret, h, pbuf) \<leftarrow> I2CBusReadWord env (clk_khz (b_cfg d)) (rx_data buf ! 0) (rx_data buf ! 1)
         [tx_data p ! 2, tx_data p ! 3] (b_i2c d);
       let d = d\<lparr>b_i2c := h\<rparr>;
       let p = tx_put 2 pbuf p;
       (n, p, d) \<leftarrow>
         (if ret = 0 then Some (6, tx_put 0 (take 2 (rx_data buf)) p, d) else ble_cmd_error p d);
       Some (n, p, d\<lparr>b_timer_flg := tmp\<rparr>)
     }"

definition ble_cmd_srg :: "hw_env \<Rightarrow> u8 list \<Rightarrow> blk_tx_pkt_t \<Rightarrow> 'e ble_dev \<Rightarrow> 'e ble_reply" where
  "ble_cmd_srg env buf p d =
     do {
       let tmp = b_timer_flg d;
       let d = d\<lparr>b_timer_flg := 0\<rparr>;
       (ret, h) \<leftarrow> I2CBusWriteWord env (clk_khz (b_cfg d)) (rx_data buf ! 0) (rx_data buf ! 1)
         (from_le16 (rx_data buf ! 2) (rx_data buf ! 3)) (b_i2c d);
       let d = d\<lparr>b_i2c := h\<rparr>;
       (n, p, d) \<leftarrow>
         (if ret = 0 then Some (6, tx_put 0 (take 4 (rx_data buf)) p, d) else ble_cmd_error p d);
       Some (n, p, d\<lparr>b_timer_flg := tmp\<rparr>)
     }"

text \<open>The format of the samples changes at once, while sampling goes on with the old packet count.\<close>

definition ble_cmd_frd :: "u8 list \<Rightarrow> blk_tx_pkt_t \<Rightarrow> 'e ble_dev \<Rightarrow> 'e ble_reply" where
  "ble_cmd_frd buf p d =
     (let d = (if rx_size buf \<noteq> 0 then d\<lparr>b_rd_24bit := rx_data buf ! 0\<rparr> else d)
      in Some (3, tx_put 0 [b_rd_24bit d] p, d))"

definition ble_cmd_ecad :: "hw_env \<Rightarrow> u8 \<Rightarrow> u8 list \<Rightarrow> blk_tx_pkt_t \<Rightarrow> 'e ble_dev \<Rightarrow> 'e ble_reply" where
  "ble_cmd_ecad env ble_enable buf p d =
     do {
       d \<leftarrow>
         (if rx_size buf \<noteq> 0
          then do {
            let n = (if rx_size buf > 5 then 5 else unat (rx_size buf));
            let d = d\<lparr>b_cfg_ina228 := ina228_cfg_memcpy (b_cfg_ina228 d) (rx_data buf) n\<rparr>;
            (ret, d) \<leftarrow> (if rx_data buf ! 0 \<noteq> 0 then ble_ina228_start env ble_enable (b_cfg_ina228 d) d
                        else ble_ina228_stop env d);
            Some d
          }
          else Some d);
       Some (7, tx_put 0 (ina228_cfg_bytes (b_cfg_ina228 d)) p, d)
     }"

text \<open>
  The transaction fills the reply in place, so its data stays there in the error reply too. A result
  other than 0, which is an error of the transaction, is taken for success.
\<close>

definition ble_utr_request :: "u8 list \<Rightarrow> i2c_utr_t" where
  "ble_utr_request buf =
     \<lparr>utr_mode = rx_data buf ! 0, utr_rdlen = rx_data buf ! 1, utr_wrdata = drop 2 (rx_data buf)\<rparr>"

definition ble_cmd_utr :: "hw_env \<Rightarrow> u8 list \<Rightarrow> blk_tx_pkt_t \<Rightarrow> 'e ble_dev \<Rightarrow> 'e ble_reply" where
  "ble_cmd_utr env buf p d =
     (let txlen = (ucast (rx_data buf ! 1) :: u32) AND 0x7f
      in if rx_size buf \<ge> 3 \<and> txlen \<le> 127
         then do {
           (ret, h, out) \<leftarrow> I2CBusUtr env (clk_khz (b_cfg d)) (take 127 (drop 2 (tx_data p)))
             (ble_utr_request buf) (unat (rx_size buf) - 3) (b_i2c d);
           let d = d\<lparr>b_i2c := h\<rparr>;
           let p = tx_put 2 out p;
           if ret \<noteq> 0
           then Some (txlen + 4, tx_put 0 [rx_data buf ! 2, ucast txlen] p, d)
           else ble_cmd_error p d
         }
         else ble_cmd_error p d)"

definition ble_cmd_sta :: "blk_tx_pkt_t \<Rightarrow> 'e ble_dev \<Rightarrow> 'e ble_reply" where
  "ble_cmd_sta p d =
     Some (10, tx_put 4 (le32 (b_overflow_cnt d)) (tx_put 0 (le32 (b_read_count d)) p), d)"

definition ble_cmd_pwr :: "hw_env \<Rightarrow> u8 list \<Rightarrow> blk_tx_pkt_t \<Rightarrow> 'e ble_dev \<Rightarrow> 'e ble_reply" where
  "ble_cmd_pwr env buf p d =
     do {
       d \<leftarrow>
         (if rx_size buf \<noteq> 0
          then if rx_data buf ! 0 \<noteq> 0 then ble_I2CDevWakeUp env d
            else do {
              let d = d\<lparr>b_pb_out := b_pb_out d AND ble_DEV_POWER\<rparr>;
              d \<leftarrow> (if b_pb_out d = 0 then ble_I2CDevWakeUp env d else Some d);
              ble_I2CDevSleep env d
            }
          else Some d);
       Some (0, p, d)
     }"

definition ble_switch ::
    "'e flash_ops \<Rightarrow> hw_env \<Rightarrow> u8 \<Rightarrow> u8 list \<Rightarrow> blk_tx_pkt_t \<Rightarrow> 'e ble_dev \<Rightarrow> 'e ble_reply" where
  "ble_switch ops env ble_enable buf p d =
     (if rx_cmd buf = CMD_DEV_VER then ble_cmd_ver p d
      else if rx_cmd buf = CMD_DEV_CFG then ble_cmd_cfg env buf p d
      else if rx_cmd buf = CMD_DEV_SCF then ble_cmd_scf ops buf p d
      else if rx_cmd buf = CMD_DEV_GRG then ble_cmd_grg env buf p d
      else if rx_cmd buf = CMD_DEV_SRG then ble_cmd_srg env buf p d
      else if rx_cmd buf = CMD_DEV_FRD then ble_cmd_frd buf p d
      else if rx_cmd buf = CMD_DEV_ECAD then ble_cmd_ecad env ble_enable buf p d
      else if rx_cmd buf = CMD_DEV_UTR then ble_cmd_utr env buf p d
      else if rx_cmd buf = CMD_DEV_STA then ble_cmd_sta p d
      else if rx_cmd buf = CMD_I2C_PWR then ble_cmd_pwr env buf p d
      else if rx_cmd buf = CMD_DEV_TST then Some (0, p, d)
      else ble_cmd_error p d)"

definition ble_cmd_decode ::
    "'e flash_ops \<Rightarrow> hw_env \<Rightarrow> u8 \<Rightarrow> blk_tx_pkt_t \<Rightarrow> u8 list \<Rightarrow> 'e ble_dev \<Rightarrow> 'e ble_reply" where
  "ble_cmd_decode ops env ble_enable pbufo pbufi d =
     do {
       (txlen, p, d) \<leftarrow> ble_switch ops env ble_enable pbufi (pbufo\<lparr>tx_cmd := rx_cmd pbufi\<rparr>) d;
       Some (txlen, p\<lparr>tx_size := ucast (txlen - 2)\<rparr>, d)
     }"

section \<open>What a command leaves behind\<close>

lemma utr_read_length: "utr_read env clk tr n pos out h = Some (ret, h', out') \<Longrightarrow> length out' = length out"
proof (induction n arbitrary: pos out h)
  case (Suc n)
  let ?h = "if n = 1 \<and> utr_rdlen tr AND 0x80 = 0 then set_ctrl1 (ctrl1 h AND NOT RB_I2C_ACK) h
    else set_ctrl1 (ctrl1 h OR RB_I2C_ACK) h"
  obtain r1 h1 where s1: "i2c_wait_status env clk RB_I2C_RxNE ?h = Some (r1, h1)"
    using Suc.prems unfolding utr_read.simps Let_def by (auto simp: bind_eq_Some_conv)
  show ?case
  proof (cases "r1 = 0")
    case False
    with Suc.prems s1 show ?thesis unfolding utr_read.simps Let_def by auto
  next
    case True
    obtain dt h2 where s2: "read_datar env h1 = (dt, h2)" by force
    with Suc.prems s1 True obtain r3 h3 where s3: "i2c_wait_status env clk RB_I2C_RxNE h2 = Some (r3, h3)"
      and k: "(if r3 \<noteq> 0 then Some (r3, h3, out[pos := ucast dt])
        else utr_read env clk tr n (pos + 1) (out[pos := ucast dt]) h3) = Some (ret, h', out')"
      unfolding utr_read.simps Let_def by (auto simp: bind_eq_Some_conv)
    show ?thesis
    proof (cases "r3 = 0")
      case True
      with k Suc.IH [of "pos + 1" "out[pos := ucast dt]" h3] show ?thesis by simp
    qed (use k in auto)
  qed
qed auto

lemma utr_length:
  assumes "I2CBusUtr env clk out tr wrlen h = Some (ret, h', out')"
  shows "length out' = length out"
proof (cases "ctrl1 h AND RB_I2C_PE = 0")
  case True
  with assms show ?thesis by (auto simp: I2CBusUtr_def split: if_splits)
next
  case False
  let ?r = "\<lambda>h. utr_read env clk tr (unat (utr_rdlen tr AND 0x7f)) 0 out h"
  from False assms obtain h1 where "out' = out \<or> (\<exists>r h2. ?r h1 = Some (r, h2, out'))"
    by (auto simp: I2CBusUtr_def Let_def i2c_stop_buf_def bind_eq_Some_conv split: if_splits)
  then show ?thesis using utr_read_length by blast
qed

definition ble_reply_ok :: "u8 \<Rightarrow> u32 \<Rightarrow> blk_tx_pkt_t \<Rightarrow> bool" where
  "ble_reply_ok c n p \<longleftrightarrow> tx_pkt_wf p \<and> (n = 0 \<or> 2 \<le> unat n \<and> unat n \<le> 131) \<and>
     (tx_cmd p = c \<or> n = 2 \<and> tx_cmd p = c OR CMD_ERR_FLG)"

lemma ble_reply_put:
  "tx_pkt_wf p \<Longrightarrow> tx_cmd p = c \<Longrightarrow> off + length bs \<le> 232 \<Longrightarrow> n = 0 \<or> 2 \<le> unat n \<and> unat n \<le> 131 \<Longrightarrow>
   ble_reply_ok c n (tx_put off bs p)"
  by (auto simp: ble_reply_ok_def)

lemma ble_reply_error:
  "tx_pkt_wf p \<Longrightarrow> tx_cmd p = c \<Longrightarrow> ble_cmd_error p d = Some (n, p', d') \<Longrightarrow>
   ble_reply_ok c n p' \<and> d' = d \<and> n = 2 \<and> tx_cmd p' = c OR CMD_ERR_FLG \<and> tx_data p' = tx_data p"
  by (auto simp: ble_reply_ok_def ble_cmd_error_def tx_pkt_wf_def)

text \<open>What a command keeps of the device; only the format command may break the size of a block.\<close>

definition ble_good :: "'e ble_dev \<Rightarrow> 'e ble_dev \<Rightarrow> bool" where
  "ble_good d d' \<longleftrightarrow> ble_wf d' \<and> (ble_fits d \<longrightarrow> ble_fits d')"

lemma ble_good_keeps: "ble_wf d \<Longrightarrow> ble_keeps d d' \<Longrightarrow> ble_good d d'"
  by (simp add: ble_good_def ble_keeps_wf ble_keeps_fits)

lemma ble_good_start: "ble_wf e \<Longrightarrow> ble_I2CDevStart env e = Some (ret, d') \<Longrightarrow> ble_good d d'"
  using ble_start_spec [of env e ret d'] by (simp add: ble_good_def ble_keeps_wf)

lemma ble_setup_wf: "ble_wf d \<Longrightarrow> ble_wf (ble_ina228_setup be cfg d)"
  by (simp add: ble_ina228_setup_def ble_wf_def i2c_cfg_wf_def Let_def split: prod.split)

lemma ble_cmd_cfg_spec:
  assumes "ble_cmd_cfg env buf p d = Some (n, p', d')" "tx_pkt_wf p" "tx_cmd p = c" "ble_wf d"
  shows "ble_reply_ok c n p' \<and> ble_good d d' \<and> n \<noteq> 0"
proof -
  let ?out = "\<lambda>e. tx_put 0 (take 38 (i2c_cfg_bytes (b_cfg e))) p"
  have ok: "ble_reply_ok c 40 (?out e)" if "ble_wf e" for e :: "'a ble_dev"
    using that assms(2,3) by (intro ble_reply_put) (simp_all add: ble_wf_def)
  show ?thesis
  proof (cases "rx_size buf = 0")
    case True
    with assms ok [OF assms(4)] show ?thesis by (auto simp: ble_cmd_cfg_def ble_good_def)
  next
    case False
    obtain m where "(if rx_size buf > 38 then 38 else unat (rx_size buf)) = m" by simp
    with False assms(1) obtain ret d1 where
      s: "ble_I2CDevStart env (d\<lparr>b_timer_flg := 0, b_cfg := i2c_cfg_memcpy (b_cfg d) (rx_data buf) m\<rparr>) =
        Some (ret, d1)" and
      r: "(if ret = 0 then ble_cmd_error p d1 else Some (40, ?out d1, d1)) = Some (n, p', d')"
      by (auto simp: ble_cmd_cfg_def Let_def bind_eq_Some_conv)
    have "ble_wf (d\<lparr>b_timer_flg := 0, b_cfg := i2c_cfg_memcpy (b_cfg d) (rx_data buf) m\<rparr>)"
      using assms(4) by (simp add: ble_wf_def)
    from ble_good_start [OF this s] have g: "ble_good d d1" .
    then have "ble_wf d1" by (simp add: ble_good_def)
    with g r ok [of d1] ble_reply_error [OF assms(2,3), of d1 n p' d'] show ?thesis
      by (cases "ret = 0") auto
  qed
qed

lemma ble_scf_spec:
  assumes "ble_cmd_scf ops buf p d = Some (n, p', d')" "tx_pkt_wf p" "tx_cmd p = c" "ble_wf d"
  shows "ble_reply_ok c n p' \<and> ble_good d d' \<and> n \<noteq> 0"
proof -
  have "ble_good d (snd (ble_WriteSetings ops d))"
    using assms(4) by (auto simp: ble_WriteSetings_def ble_good_def ble_wf_def ble_fits_def ble_size_def
        i2c_cfg_wf_def Let_def split: prod.split)
  with assms show ?thesis
    by (auto simp: ble_cmd_scf_def ble_cmd_error_def ble_reply_ok_def ble_good_def Let_def
        split: if_splits prod.splits)
qed

lemma ble_ecad_spec:
  assumes "ble_cmd_ecad env be buf p d = Some (n, p', d')" "tx_pkt_wf p" "tx_cmd p = c" "ble_wf d"
  shows "ble_reply_ok c n p' \<and> ble_good d d' \<and> n \<noteq> 0"
proof (cases "rx_size buf = 0")
  case True
  with assms show ?thesis by (auto simp: ble_cmd_ecad_def ble_good_def intro!: ble_reply_put)
next
  case False
  define x where "x = ina228_cfg_memcpy (b_cfg_ina228 d) (rx_data buf)
    (if rx_size buf > 5 then 5 else unat (rx_size buf))"
  obtain ret where
    s: "ble_ina228_start env be x (d\<lparr>b_cfg_ina228 := x\<rparr>) = Some (ret, d') \<or>
      ble_ina228_stop env (d\<lparr>b_cfg_ina228 := x\<rparr>) = Some (ret, d')" and
    r: "n = 7" "p' = tx_put 0 (ina228_cfg_bytes (b_cfg_ina228 d')) p"
    using assms(1) False unfolding x_def
    by (cases "rx_data buf ! 0 = 0") (auto simp: ble_cmd_ecad_def Let_def bind_eq_Some_conv)
  have w: "ble_wf (d\<lparr>b_cfg_ina228 := x\<rparr>)" using assms(4) by (simp add: ble_wf_def)
  have "ble_wf (ble_set_pktcnt 0 (d\<lparr>b_cfg_ina228 := x\<rparr>))"
    using ble_keeps_wf [OF ble_keeps_updates(7) w] .
  with ble_setup_wf [OF w] s have "ble_good d d'"
    by (auto simp: ble_ina228_start_def ble_ina228_stop_def intro: ble_good_start)
  with r assms(2,3) show ?thesis by (auto intro!: ble_reply_put)
qed

lemma ble_restored: "ble_wf d \<Longrightarrow> ble_good d (d\<lparr>b_timer_flg := 0, b_i2c := h\<rparr>\<lparr>b_timer_flg := b_timer_flg d\<rparr>)"
  by (simp add: ble_good_def ble_wf_def ble_fits_def ble_size_def)

lemma ble_grg_spec:
  assumes "ble_cmd_grg env buf p d = Some (n, p', d')" "tx_pkt_wf p" "tx_cmd p = c" "ble_wf d"
    "4 \<le> length (rx_data buf)"
  shows "ble_reply_ok c n p' \<and> ble_good d d' \<and> n \<noteq> 0"
proof -
  obtain ret h pb where
    rd: "I2CBusReadWord env (clk_khz (b_cfg d)) (rx_data buf ! 0) (rx_data buf ! 1)
        [tx_data p ! 2, tx_data p ! 3] (b_i2c d) = Some (ret, h, pb)" and
    k: "n = 6 \<and> ret = 0 \<and> p' = tx_put 0 (take 2 (rx_data buf)) (tx_put 2 pb p) \<or>
      n = 2 \<and> p' = (tx_put 2 pb p)\<lparr>tx_cmd := tx_cmd p OR CMD_ERR_FLG\<rparr>" and
    d': "d' = d\<lparr>b_timer_flg := 0, b_i2c := h\<rparr>\<lparr>b_timer_flg := b_timer_flg d\<rparr>"
    using assms(1) by (auto simp: ble_cmd_grg_def ble_cmd_error_def Let_def bind_eq_Some_conv split: if_splits)
  have "length pb = 2" using read_word_length [OF rd] by simp
  with assms(2) have "tx_pkt_wf (tx_put 2 pb p)" by simp
  with k assms(2,3,5) have "ble_reply_ok c n p'" by (auto simp: ble_reply_ok_def)
  moreover have "ble_good d d'" unfolding d' by (rule ble_restored [OF assms(4)])
  ultimately show ?thesis using k by auto
qed

lemma ble_srg_spec:
  assumes "ble_cmd_srg env buf p d = Some (n, p', d')" "tx_pkt_wf p" "tx_cmd p = c" "ble_wf d"
  shows "ble_reply_ok c n p' \<and> ble_good d d' \<and> n \<noteq> 0"
proof -
  obtain h where
    k: "n = 6 \<and> p' = tx_put 0 (take 4 (rx_data buf)) p \<or> n = 2 \<and> p' = p\<lparr>tx_cmd := tx_cmd p OR CMD_ERR_FLG\<rparr>" and
    d': "d' = d\<lparr>b_timer_flg := 0, b_i2c := h\<rparr>\<lparr>b_timer_flg := b_timer_flg d\<rparr>"
    using assms(1) by (auto simp: ble_cmd_srg_def ble_cmd_error_def Let_def bind_eq_Some_conv split: if_splits)
  have "ble_good d d'" unfolding d' by (rule ble_restored [OF assms(4)])
  with k assms(2,3) show ?thesis by (auto simp: ble_reply_ok_def)
qed

lemma ble_pwr_spec:
  assumes "ble_cmd_pwr env buf p d = Some (n, p', d')" "tx_pkt_wf p" "tx_cmd p = c" "ble_wf d"
  shows "ble_reply_ok c n p' \<and> ble_good d d'"
proof -
  let ?e = "d\<lparr>b_pb_out := b_pb_out d AND ble_DEV_POWER\<rparr>"
  have np: "n = 0 \<and> p' = p" using assms(1) by (auto simp: ble_cmd_pwr_def bind_eq_Some_conv)
  have "ble_keeps d d'"
  proof -
    consider "d' = d" | "ble_I2CDevWakeUp env d = Some d'" | "ble_I2CDevSleep env ?e = Some d'"
      | f where "ble_I2CDevWakeUp env ?e = Some f" "ble_I2CDevSleep env f = Some d'"
      using assms(1) unfolding ble_cmd_pwr_def Let_def
      by (auto simp only: bind_eq_Some_conv option.inject prod.inject split: if_splits)
    then show ?thesis
      using ble_keeps_trans [OF ble_keeps_updates(9)]
      by cases (auto dest!: ble_wake_keeps ble_sleep_keeps, blast intro: ble_keeps_trans)
  qed
  then show ?thesis using np assms(2-4) by (auto simp: ble_reply_ok_def ble_good_keeps)
qed

text \<open>The universal transaction: its result decides the reply, the wrong way round.\<close>

lemma u32_low7: "unat ((ucast b :: u32) AND 0x7f) = unat (b AND 0x7f)" "unat (b AND 0x7f) \<le> 127"
  for b :: u8
proof -
  have "(ucast b AND 0x7f :: u32) = ucast (b AND 0x7f)" by (simp add: unsigned_and_eq)
  then show "unat ((ucast b :: u32) AND 0x7f) = unat (b AND 0x7f)" by simp
  show "unat (b AND 0x7f) \<le> 127" using word_and_le1 [of b "0x7f"] by (simp add: word_le_nat_alt)
qed

lemma ble_utr_eq:
  assumes "3 \<le> rx_size buf"
  shows "ble_cmd_utr env buf p d =
    (case I2CBusUtr env (clk_khz (b_cfg d)) (take 127 (drop 2 (tx_data p))) (ble_utr_request buf)
        (unat (rx_size buf) - 3) (b_i2c d) of
      None \<Rightarrow> None
    | Some (ret, h, out) \<Rightarrow>
        if ret \<noteq> 0
        then Some ((ucast (rx_data buf ! 1) AND 0x7f) + 4,
          tx_put 0 [rx_data buf ! 2, ucast ((ucast (rx_data buf ! 1) :: u32) AND 0x7f)] (tx_put 2 out p),
          d\<lparr>b_i2c := h\<rparr>)
        else ble_cmd_error (tx_put 2 out p) (d\<lparr>b_i2c := h\<rparr>))"
proof -
  have "(ucast (rx_data buf ! 1) :: u32) AND 0x7f \<le> 127" by (rule word_and_le1)
  with assms show ?thesis by (auto simp: ble_cmd_utr_def Let_def split: option.split)
qed

lemma ble_utr_spec:
  assumes "ble_cmd_utr env buf p d = Some (n, p', d')" "tx_pkt_wf p" "tx_cmd p = c" "ble_wf d"
  shows "ble_reply_ok c n p' \<and> ble_good d d' \<and> n \<noteq> 0"
proof (cases "3 \<le> rx_size buf")
  case False
  then have "ble_cmd_error p d = Some (n, p', d')" using assms(1) by (auto simp: ble_cmd_utr_def Let_def)
  from ble_reply_error [OF assms(2,3) this] assms(4) show ?thesis by (auto simp: ble_good_def)
next
  case True
  define k where "k = (ucast (rx_data buf ! 1) :: u32) AND 0x7f"
  have k: "unat k \<le> 127" unfolding k_def using u32_low7 by simp
  have k4: "unat (k + 4) = unat k + 4" using k unat_plus_nowrap [of k 4] by simp
  obtain ret h out where
    u: "I2CBusUtr env (clk_khz (b_cfg d)) (take 127 (drop 2 (tx_data p))) (ble_utr_request buf)
        (unat (rx_size buf) - 3) (b_i2c d) = Some (ret, h, out)" and
    r: "(if ret \<noteq> 0 then Some (k + 4, tx_put 0 [rx_data buf ! 2, ucast k] (tx_put 2 out p), d\<lparr>b_i2c := h\<rparr>)
        else ble_cmd_error (tx_put 2 out p) (d\<lparr>b_i2c := h\<rparr>)) = Some (n, p', d')"
    using assms(1) unfolding ble_utr_eq [OF True] k_def by (auto split: option.splits)
  have "length out = 127" using utr_length [OF u] assms(2) by (simp add: tx_pkt_wf_def)
  then have w: "tx_pkt_wf (tx_put 2 out p)" "tx_cmd (tx_put 2 out p) = c" using assms(2,3) by simp_all
  have g: "ble_good d (d\<lparr>b_i2c := h\<rparr>)" using assms(4) by (simp add: ble_good_keeps)
  show ?thesis
  proof (cases "ret = 0")
    case True
    with r have "ble_cmd_error (tx_put 2 out p) (d\<lparr>b_i2c := h\<rparr>) = Some (n, p', d')" by simp
    from ble_reply_error [OF w this] g show ?thesis by auto
  next
    case False
    with r have n: "n = k + 4" "p' = tx_put 0 [rx_data buf ! 2, ucast k] (tx_put 2 out p)" "d' = d\<lparr>b_i2c := h\<rparr>"
      by auto
    have "ble_reply_ok c n p'" unfolding n(2)
      by (rule ble_reply_put [OF w]) (use k k4 n(1) in simp_all)
    moreover have "n \<noteq> 0" using k4 n(1) by (metis add_is_0 unat_0 zero_neq_numeral)
    ultimately show ?thesis using g n(3) by simp
  qed
qed

definition ble_cmds :: "u8 set" where
  "ble_cmds = known_cmds \<union> {CMD_DEV_FRD, CMD_DEV_UTR}"

lemma ble_switch_ok:
  assumes "ble_switch ops env be buf p d = Some (n, p', d')" "tx_pkt_wf p" "tx_cmd p = c" "ble_wf d"
    "4 \<le> length (rx_data buf)"
  shows "ble_reply_ok c n p' \<and> ble_wf d' \<and> (rx_cmd buf \<noteq> CMD_DEV_FRD \<longrightarrow> ble_good d d') \<and>
    (n = 0 \<longleftrightarrow> rx_cmd buf \<in> {CMD_I2C_PWR, CMD_DEV_TST}) \<and>
    (rx_cmd buf \<notin> ble_cmds \<longrightarrow> n = 2 \<and> tx_cmd p' = c OR CMD_ERR_FLG \<and> d' = d)"
proof -
  have g: "ble_good d d" using assms(4) by (simp add: ble_good_def)
  have w: "ble_wf d'" if "ble_good d d'" using that by (simp add: ble_good_def)
  consider "rx_cmd buf = CMD_DEV_VER" | "rx_cmd buf = CMD_DEV_CFG" | "rx_cmd buf = CMD_DEV_SCF"
    | "rx_cmd buf = CMD_DEV_GRG" | "rx_cmd buf = CMD_DEV_SRG" | "rx_cmd buf = CMD_DEV_FRD"
    | "rx_cmd buf = CMD_DEV_ECAD" | "rx_cmd buf = CMD_DEV_UTR" | "rx_cmd buf = CMD_DEV_STA"
    | "rx_cmd buf = CMD_I2C_PWR" | "rx_cmd buf = CMD_DEV_TST" | (other) "rx_cmd buf \<notin> ble_cmds"
    by (auto simp: ble_cmds_def known_cmds_def)
  then show ?thesis
  proof cases
    case 1
    with assms g show ?thesis
      by (auto simp: ble_switch_def ble_cmd_ver_def regs ble_cmds_def known_cmds_def intro!: ble_reply_put)
  next
    case 2
    then have "ble_cmd_cfg env buf p d = Some (n, p', d')" using assms(1) by (simp add: ble_switch_def regs)
    from ble_cmd_cfg_spec [OF this assms(2-4)] 2 w show ?thesis by (auto simp: regs ble_cmds_def known_cmds_def)
  next
    case 3
    then have "ble_cmd_scf ops buf p d = Some (n, p', d')" using assms(1) by (simp add: ble_switch_def regs)
    from ble_scf_spec [OF this assms(2-4)] 3 w show ?thesis by (auto simp: regs ble_cmds_def known_cmds_def)
  next
    case 4
    then have "ble_cmd_grg env buf p d = Some (n, p', d')" using assms(1) by (simp add: ble_switch_def regs)
    from ble_grg_spec [OF this assms(2-5)] 4 w show ?thesis by (auto simp: regs ble_cmds_def known_cmds_def)
  next
    case 5
    then have "ble_cmd_srg env buf p d = Some (n, p', d')" using assms(1) by (simp add: ble_switch_def regs)
    from ble_srg_spec [OF this assms(2-4)] 5 w show ?thesis by (auto simp: regs ble_cmds_def known_cmds_def)
  next
    case 6
    then have "ble_cmd_frd buf p d = Some (n, p', d')" using assms(1) by (simp add: ble_switch_def regs)
    then have "n = 3" "\<exists>x. p' = tx_put 0 [x] p" "ble_wf d'"
      using assms(4) by (auto simp: ble_cmd_frd_def Let_def ble_wf_def)
    with 6 assms(2,3) show ?thesis by (auto simp: regs ble_cmds_def known_cmds_def intro!: ble_reply_put)
  next
    case 7
    then have "ble_cmd_ecad env be buf p d = Some (n, p', d')" using assms(1) by (simp add: ble_switch_def regs)
    from ble_ecad_spec [OF this assms(2-4)] 7 w show ?thesis by (auto simp: regs ble_cmds_def known_cmds_def)
  next
    case 8
    then have "ble_cmd_utr env buf p d = Some (n, p', d')" using assms(1) by (simp add: ble_switch_def regs)
    from ble_utr_spec [OF this assms(2-4)] 8 w show ?thesis by (auto simp: regs ble_cmds_def known_cmds_def)
  next
    case 9
    with assms g show ?thesis
      by (auto simp: ble_switch_def ble_cmd_sta_def regs ble_cmds_def known_cmds_def intro!: ble_reply_put)
  next
    case 10
    then have "ble_cmd_pwr env buf p d = Some (n, p', d')" using assms(1) by (simp add: ble_switch_def regs)
    moreover have "n = 0" using calculation by (auto simp: ble_cmd_pwr_def bind_eq_Some_conv)
    ultimately show ?thesis
      using ble_pwr_spec [of env buf p d n p' d'] assms(2-4) 10 w by (auto simp: regs ble_cmds_def known_cmds_def)
  next
    case 11
    with assms g show ?thesis by (auto simp: ble_switch_def ble_reply_ok_def regs ble_cmds_def known_cmds_def)
  next
    case other
    then have "ble_cmd_error p d = Some (n, p', d')"
      using assms(1) by (auto simp: ble_switch_def ble_cmds_def known_cmds_def)
    from ble_reply_error [OF assms(2,3) this] other g assms(4) show ?thesis
      by (auto simp: ble_cmds_def known_cmds_def)
  qed
qed

lemma ble_decode_ok:
  assumes "ble_cmd_decode ops env be p buf d = Some (n, p', d')" "tx_pkt_wf p" "length buf = 236" "ble_wf d"
  shows "tx_pkt_wf p' \<and> ble_wf d' \<and> (n = 0 \<or> 2 \<le> unat n \<and> unat n \<le> 131 \<and> unat (tx_size p') = unat n - 2) \<and>
    (n = 0 \<longleftrightarrow> rx_cmd buf \<in> {CMD_I2C_PWR, CMD_DEV_TST}) \<and>
    (tx_cmd p' = rx_cmd buf \<or> n = 2 \<and> tx_cmd p' = rx_cmd buf OR CMD_ERR_FLG) \<and>
    (rx_cmd buf \<notin> ble_cmds \<longrightarrow> n = 2 \<and> tx_cmd p' = rx_cmd buf OR CMD_ERR_FLG \<and> d' = d) \<and>
    (rx_cmd buf \<noteq> CMD_DEV_FRD \<longrightarrow> ble_fits d \<longrightarrow> ble_fits d')"
proof -
  let ?p = "p\<lparr>tx_cmd := rx_cmd buf\<rparr>"
  obtain p1 where sw: "ble_switch ops env be buf ?p d = Some (n, p1, d')" and
    p': "p' = p1\<lparr>tx_size := ucast (n - 2)\<rparr>"
    using assms(1) by (auto simp: ble_cmd_decode_def bind_eq_Some_conv)
  have "tx_pkt_wf ?p" "tx_cmd ?p = rx_cmd buf" "4 \<le> length (rx_data buf)"
    using assms(2,3) by (simp_all add: rx_data_def)
  note s = ble_switch_ok [OF sw this(1,2) assms(4) this(3), unfolded ble_reply_ok_def]
  have "unat (ucast (n - 2) :: u8) = unat n - 2" if "2 \<le> unat n" "unat n \<le> 131"
  proof -
    have "unat (n - 2) = unat n - 2" using that by (simp add: unat_sub word_le_nat_alt)
    then show ?thesis using that by (simp add: unsigned_ucast_eq take_bit_eq_mod)
  qed
  with s show ?thesis unfolding p' by (auto simp: ble_good_def)
qed

lemma ble_switch_simps:
  "rx_cmd buf = CMD_DEV_UTR \<Longrightarrow> ble_switch ops env be buf p d = ble_cmd_utr env buf p d"
  "rx_cmd buf = CMD_DEV_FRD \<Longrightarrow> ble_switch ops env be buf p d = ble_cmd_frd buf p d"
  by (simp_all add: ble_switch_def regs)

section \<open>Properties\<close>

text \<open>
  The reply to any request fits the packet, carries the command of the request, with the error flag
  only when it is empty, and the size of its data; an unknown command is refused and changes nothing.
\<close>

theorem ble_cmd_decode_reply:
  assumes "ble_cmd_decode ops env be p buf d = Some (n, p', d')" "tx_pkt_wf p" "length buf = 236" "ble_wf d"
  shows "tx_pkt_wf p' \<and> ble_wf d' \<and> (n = 0 \<or> 2 \<le> unat n \<and> unat n \<le> 131 \<and> unat (tx_size p') = unat n - 2) \<and>
    (n = 0 \<longleftrightarrow> rx_cmd buf \<in> {CMD_I2C_PWR, CMD_DEV_TST}) \<and>
    (tx_cmd p' = rx_cmd buf \<or> n = 2 \<and> tx_cmd p' = rx_cmd buf OR CMD_ERR_FLG) \<and>
    (rx_cmd buf \<notin> ble_cmds \<longrightarrow> n = 2 \<and> tx_cmd p' = rx_cmd buf OR CMD_ERR_FLG \<and> d' = d)"
  using ble_decode_ok [OF assms] by blast

definition ble_request :: "u8 list \<Rightarrow> u8 list" where
  "ble_request bs = bs @ replicate (236 - length bs) 0"

lemma ble_request_facts:
  "length bs \<le> 236 \<Longrightarrow> length (ble_request bs) = 236" "rx_size (ble_request (a # c # bs)) = a"
  "rx_cmd (ble_request (a # c # bs)) = c" "rx_data (ble_request (a # c # x # bs)) ! 0 = x"
  by (simp_all add: ble_request_def rx_size_def rx_cmd_def rx_data_def)

theorem ble_cmd_decode_reply_witness:
  "\<exists>p'. ble_cmd_decode ram_flash answering 0 tx_zero (ble_request [0, 0x55]) (ble_ring [] 2 508 5) =
      Some (2, p', ble_ring [] 2 508 5) \<and> tx_size p' = 0 \<and> tx_cmd p' = 0xD5"
proof -
  let ?d = "ble_ring [] 2 508 5 :: u8 list ble_dev"
  obtain n p' d' where run: "ble_cmd_decode ram_flash answering 0 tx_zero (ble_request [0, 0x55]) ?d =
      Some (n, p', d')"
    by (simp add: ble_cmd_decode_def ble_switch_def ble_request_facts regs ble_cmd_error_def)
  have "ble_wf ?d" by (rule ble_ring_facts; simp add: ring512_count_def)
  then show ?thesis using ble_cmd_decode_reply [OF run] run
    by (auto simp: ble_request_facts tx_pkt_wf_def ble_cmds_def known_cmds_def regs word_unat_eq_iff)
qed

text \<open>
  C26: The universal bus transaction is answered the wrong way round: a transaction that reports success
  gets the error reply, one that fails, or that the switched-off bus refuses, gets the reply with the
  address, the length asked for and whatever the data area holds.
\<close>

theorem ble_utr_reply_inverted:
  assumes "ble_cmd_decode ops env be p buf d = Some (n, p', d')" "rx_cmd buf = CMD_DEV_UTR"
    "3 \<le> rx_size buf" "tx_pkt_wf p"
  shows "\<exists>ret h out. I2CBusUtr env (clk_khz (b_cfg d)) (take 127 (drop 2 (tx_data p))) (ble_utr_request buf)
      (unat (rx_size buf) - 3) (b_i2c d) = Some (ret, h, out) \<and>
    d' = d\<lparr>b_i2c := h\<rparr> \<and> take 127 (drop 2 (tx_data p')) = out \<and>
    (if ret = 0 then n = 2 \<and> tx_cmd p' = CMD_DEV_UTR OR 0x80
     else unat n = 4 + unat (rx_data buf ! 1 AND 0x7f) \<and> tx_cmd p' = CMD_DEV_UTR \<and>
       take 2 (tx_data p') = [rx_data buf ! 2, rx_data buf ! 1 AND 0x7f])"
proof -
  let ?p = "p\<lparr>tx_cmd := rx_cmd buf\<rparr>" and ?l = "rx_data buf ! 1"
  define k where "k = (ucast ?l :: u32) AND 0x7f"
  have k: "unat k = unat (?l AND 0x7f)" "unat k \<le> 127" unfolding k_def using u32_low7 by simp_all
  have k4: "unat (k + 4) = 4 + unat (?l AND 0x7f)" using k unat_plus_nowrap [of k 4] by simp
  have k8: "(ucast k :: u8) = ?l AND 0x7f"
    using k by (simp add: word_unat_eq_iff unsigned_ucast_eq take_bit_eq_mod)
  obtain p1 where "ble_switch ops env be buf ?p d = Some (n, p1, d')" and
    p': "p' = p1\<lparr>tx_size := ucast (n - 2)\<rparr>"
    using assms(1) by (auto simp: ble_cmd_decode_def bind_eq_Some_conv)
  then have "ble_cmd_utr env buf ?p d = Some (n, p1, d')" using ble_switch_simps(1) [OF assms(2), of ops env be] assms(2) by simp
  then obtain ret h out where
    u: "I2CBusUtr env (clk_khz (b_cfg d)) (take 127 (drop 2 (tx_data p))) (ble_utr_request buf)
        (unat (rx_size buf) - 3) (b_i2c d) = Some (ret, h, out)" and
    r: "(if ret \<noteq> 0 then Some (k + 4, tx_put 0 [rx_data buf ! 2, ucast k] (tx_put 2 out ?p), d\<lparr>b_i2c := h\<rparr>)
        else ble_cmd_error (tx_put 2 out ?p) (d\<lparr>b_i2c := h\<rparr>)) = Some (n, p1, d')"
    unfolding ble_utr_eq [OF assms(3)] k_def by (auto split: option.splits)
  have lo: "length out = 127" using utr_length [OF u] assms(4) by (simp add: tx_pkt_wf_def)
  have data: "take 127 (drop 2 (splice_at (tx_data p) 2 out)) = out"
    "take 127 (drop 2 (splice_at (splice_at (tx_data p) 2 out) 0 [a, b])) = out"
    "take 2 (splice_at (splice_at (tx_data p) 2 out) 0 [a, b]) = [a, b]" for a b
    using lo assms(4) by (simp_all add: splice_at_def tx_pkt_wf_def)
  have err: "CMD_ERR_FLG = 0x80" by (simp add: regs)
  show ?thesis
    using u r data assms(2) k4 k8 unfolding p'
    by (intro exI [of _ ret] exI [of _ h] exI [of _ out]) (auto simp: ble_cmd_error_def err split: if_splits)
qed

text \<open>The bus is off; the host is told that two bytes were read.\<close>

theorem ble_utr_reply_inverted_witness:
  "\<exists>n p' d'. ble_cmd_decode ram_flash answering 0 tx_zero (ble_request [4, 0x0C, 1, 2, 0x80, 5]) (ble_ring [] 2 508 5) =
      Some (n, p', d') \<and> unat n = 6 \<and> tx_cmd p' = CMD_DEV_UTR \<and> take 2 (tx_data p') = [0x80, 2]"
proof -
  let ?buf = "ble_request [4, 0x0C, 1, 2, 0x80, 5]" and ?d = "ble_ring [] 2 508 5 :: u8 list ble_dev"
  have b: "rx_cmd ?buf = CMD_DEV_UTR" "rx_size ?buf = 4" "rx_data ?buf ! 1 = 2" "rx_data ?buf ! 2 = 0x80"
    "length (utr_wrdata (ble_utr_request ?buf)) = 232"
    by (simp_all add: ble_request_def rx_size_def rx_cmd_def rx_data_def ble_utr_request_def regs)
  have off: "ctrl1 (b_i2c ?d) AND RB_I2C_PE = 0" by (simp add: ble_ring_def)
  have u: "I2CBusUtr answering clk out (ble_utr_request ?buf) (unat (rx_size ?buf) - 3) (b_i2c ?d) =
      Some (-1, b_i2c ?d, out)" for clk out
    using off b by (simp add: I2CBusUtr_def)
  have s: "(3 :: u8) \<le> rx_size ?buf" by (simp add: b)
  obtain n p' d' where run: "ble_cmd_decode ram_flash answering 0 tx_zero ?buf ?d = Some (n, p', d')"
    by (simp add: ble_cmd_decode_def ble_switch_simps b(1) ble_utr_eq [OF s] u)
  from ble_utr_reply_inverted [OF run b(1) s] u b run show ?thesis by (auto simp: tx_pkt_wf_def)
qed

text \<open>
  C9: A block fits the block buffer after every command but one: the format command switches to 24-bit
  samples without looking at the packet count, and with more than 77 samples a block the next run of the
  packing task that has them writes past the end of the buffer.
\<close>

theorem ble_format_overruns:
  assumes "ble_cmd_decode ops env be p buf d = Some (n, p', d')" "tx_pkt_wf p" "length buf = 236" "ble_wf d"
    "ble_fits d"
  shows "(ble_ready d' \<longrightarrow> (ble_I2CDevTask ble d' f = None \<longleftrightarrow> \<not> ble_fits d')) \<and>
    (rx_cmd buf \<noteq> CMD_DEV_FRD \<or> rx_size buf = 0 \<longrightarrow> ble_fits d') \<and>
    (rx_cmd buf = CMD_DEV_FRD \<and> rx_size buf \<noteq> 0 \<and> rx_data buf ! 0 \<noteq> 0 \<longrightarrow>
      (ble_fits d' \<longleftrightarrow> pktcnt (b_cfg d) \<le> 77))"
proof -
  note s = ble_decode_ok [OF assms(1-4)]
  have frd: "d' = (if rx_size buf \<noteq> 0 then d\<lparr>b_rd_24bit := rx_data buf ! 0\<rparr> else d)" if "rx_cmd buf = CMD_DEV_FRD"
    using assms(1) that
    by (auto simp: ble_cmd_decode_def ble_switch_simps ble_cmd_frd_def Let_def bind_eq_Some_conv)
  have "ble_fits d' \<longleftrightarrow> pktcnt (b_cfg d) \<le> 77"
    if "rx_cmd buf = CMD_DEV_FRD" "rx_size buf \<noteq> 0" "rx_data buf ! 0 \<noteq> 0"
    using frd that by (auto simp: ble_fits_def ble_size_def word_le_nat_alt)
  moreover have "ble_fits d'" if "rx_cmd buf \<noteq> CMD_DEV_FRD \<or> rx_size buf = 0"
    using s assms(5) frd that by auto
  moreover have "ble_I2CDevTask ble d' f = None \<longleftrightarrow> \<not> ble_fits d'" if "ble_ready d'"
    using ble_task_eq [of d' ble f] s that by auto
  ultimately show ?thesis by blast
qed

text \<open>The largest blocks of 16-bit samples, switched to 24 bits with 200 samples waiting.\<close>

theorem ble_format_overruns_witness:
  "\<exists>p' d'. ble_cmd_decode ram_flash answering 0 tx_zero (ble_request [1, 0x18, 1])
      ((ble_ring [] 116 0 200)\<lparr>b_rd_24bit := 0\<rparr>) = Some (3, p', d') \<and>
    ble_I2CDevTask 0 d' fifo60 = None"
proof -
  let ?buf = "ble_request [1, 0x18, 1]" and ?d = "(ble_ring [] 116 0 200)\<lparr>b_rd_24bit := 0\<rparr> :: u8 list ble_dev"
  have b: "rx_cmd ?buf = CMD_DEV_FRD" "rx_size ?buf = 1" "rx_data ?buf ! 0 = 1" "length ?buf = 236"
    by (simp_all add: ble_request_facts regs)
  let ?d' = "?d\<lparr>b_rd_24bit := 1\<rparr>"
  obtain p' where run: "ble_cmd_decode ram_flash answering 0 tx_zero ?buf ?d = Some (3, p', ?d')"
    by (simp add: ble_cmd_decode_def ble_switch_simps ble_cmd_frd_def b)
  have d: "ble_wf ?d" "ble_fits ?d" "ble_ready ?d'" "pktcnt (b_cfg ?d) = 116"
    by (simp_all add: ble_ring_def ble_wf_def ble_fits_def ble_ready_def ble_size_def
        i2c_cfg_wf_def def_cfg_i2c_def ble_pending_def ring512_count_def)
  have "tx_pkt_wf tx_zero" by (simp add: tx_pkt_wf_def)
  from ble_format_overruns [OF run this b(4) d(1,2), of 0 fifo60] run b d show ?thesis by auto
qed

end
