(* ===== verification/BleApp.thy ===== *)
theory BleApp
  imports Bridge BleCmd UsbDev
begin

text \<open>
  The application of the Bluetooth bridge: the command service (\<open>ble_cmd_service.c\<close>), the task that
  handles the events of the Bluetooth library (\<open>peripheral.c\<close>), the sender and the main loop
  (\<open>main.c\<close>) and the endpoint handlers that share its state (\<open>app_usb.c\<close>), all of
  \<open>ch583/I2C2BLE/APP\<close>. The library is a binary: its results (a buffer or none, the status of an
  indication or of a write to the client configuration, the message received) are arguments of the
  functions that use them, its calls are logged. It may deliver events, callbacks and messages in any
  order.
\<close>

section \<open>State\<close>

definition SBP_PERIODIC_EVT :: u16 where [regs]: "SBP_PERIODIC_EVT = 0x0001"
definition SBP_PARAM_UPDATE_EVT :: u16 where [regs]: "SBP_PARAM_UPDATE_EVT = 0x0008"
definition SBP_PHY_UPDATE_EVT :: u16 where [regs]: "SBP_PHY_UPDATE_EVT = 0x0010"
definition SBP_EXCHANGE_MTU_EVT :: u16 where [regs]: "SBP_EXCHANGE_MTU_EVT = 0x0020"
definition SBP_PROCESS_INPDATA_EVT :: u16 where [regs]: "SBP_PROCESS_INPDATA_EVT = 0x0040"
definition SBP_START_DEVICE_EVT :: u16 where [regs]: "SBP_START_DEVICE_EVT = 0x0080"
definition SYS_EVENT_MSG :: u16 where [regs]: "SYS_EVENT_MSG = 0x8000"

definition SBP_PERIODIC_EVT_PERIOD :: u32 where "SBP_PERIODIC_EVT_PERIOD = 3"
definition SBP_PARAM_UPDATE_DELAY :: u32 where "SBP_PARAM_UPDATE_DELAY = 600"
definition SBP_MTU_UPDATE_DELAY :: u32 where "SBP_MTU_UPDATE_DELAY = 200"
definition SBP_PHY_UPDATE_DELAY :: u32 where "SBP_PHY_UPDATE_DELAY = 200"
definition APP_MTU_SIZE :: u16 where [regs]: "APP_MTU_SIZE = 494"
definition GAP_CONNHANDLE_INIT :: u16 where [regs]: "GAP_CONNHANDLE_INIT = 0xFFFE"
definition APP_RX_BUFFER_LENGTH :: nat where "APP_RX_BUFFER_LENGTH = 236"

record peripheralConnItem_t =
  connHandle :: u16
  connInterval :: u16
  connSlaveLatency :: u16
  connTimeout :: u16

text \<open>Calls of the library that have no result the program uses.\<close>

datatype ble_call_t =
    Start_task u16 u32
  | Start_device
  | Terminate_link u16
  | Advertise
  | Param_update_req u16
  | Update_PHY u16
  | Init_char_cfg u16
  | Indication u16 u16 "u8 list"
  | Bm_free

text \<open>\<open>b_attr\<close> holds the handles of \<open>ble_cmd_ProfileAttrTbl\<close>, \<open>b_out\<close> what was handed to a host.\<close>

record 'e ble_app =
  b_dev :: "'e ble_dev"
  b_enable :: u8
  b_fifo :: app_drv_fifo_t
  b_cmd_len :: u16
  b_cmd_buf :: "u8 list"
  b_send_pkt :: blk_tx_pkt_t
  b_events :: u16
  b_conn :: peripheralConnItem_t
  b_mtu :: u16
  b_attr :: "u16 list"
  b_uep1_ctrl :: u8
  b_uep1_t_len :: u8
  b_ep1_buf :: "u8 list"
  b_old_send_len :: int
  b_calls :: "ble_call_t list"
  b_out :: "delivery list"

definition ble_set_event :: "u16 \<Rightarrow> 'e ble_app \<Rightarrow> 'e ble_app" where
  "ble_set_event ev a = a\<lparr>b_events := b_events a OR ev\<rparr>"

definition ble_call :: "ble_call_t \<Rightarrow> 'e ble_app \<Rightarrow> 'e ble_app" where
  "ble_call c a = a\<lparr>b_calls := b_calls a @ [c]\<rparr>"

section \<open>The sender to USB\<close>

text \<open>Bytes count as handed to the USB host once they are in the endpoint buffer.\<close>

definition ble_ep1_ack :: "u8 \<Rightarrow> 'e ble_app \<Rightarrow> 'e ble_app" where
  "ble_ep1_ack n a =
     a\<lparr>b_uep1_t_len := n, b_uep1_ctrl := (b_uep1_ctrl a AND NOT MASK_UEP_T_RES) OR UEP_T_RES_ACK,
       b_out := b_out a @ [To_usb (take (unat n) (drop 64 (b_ep1_buf a)))]\<rparr>"

definition ble_USBSendData :: "'e ble_app \<Rightarrow> int \<times> 'e ble_app" where
  "ble_USBSendData a =
     (if b_uep1_ctrl a AND MASK_UEP_T_RES = UEP_T_RES_ACK then (1, a)
      else
        (let len = unat (app_drv_fifo_length (b_fifo a))
         in if len \<noteq> 0
            then
              (let len = (if len > 64 then 64 else len);
                   (res, fifo, dest, n) =
                     app_drv_fifo_read (Some (b_fifo a)) (drop 64 (b_ep1_buf a)) (Some (of_nat len));
                   a = a\<lparr>b_fifo := the fifo, b_ep1_buf := take 64 (b_ep1_buf a) @ dest\<rparr>
               in if res = APP_DRV_FIFO_RESULT_SUCCESS
                  then (0, ble_ep1_ack (ucast (the n)) (a\<lparr>b_old_send_len := int (unat (the n))\<rparr>))
                  else (0, a))
            else if b_old_send_len a = 64 then (0, ble_ep1_ack 0 (a\<lparr>b_old_send_len := 0\<rparr>))
            else (0, a)))"

section \<open>The endpoint handlers\<close>

definition ble_DevEP1_OUT_Deal :: "u8 \<Rightarrow> 'e ble_app \<Rightarrow> 'e ble_app" where
  "ble_DevEP1_OUT_Deal l a =
     (if b_cmd_len a = 0 \<and> l \<noteq> 0
      then
        (let n = (if unat l > APP_RX_BUFFER_LENGTH then of_nat APP_RX_BUFFER_LENGTH else ucast l);
             a = a\<lparr>b_cmd_len := n, b_cmd_buf := splice_at (b_cmd_buf a) 0 (take (unat n) (b_ep1_buf a))\<rparr>
         in ble_set_event SBP_PROCESS_INPDATA_EVT a)
      else a)"

text \<open>The transaction interrupts of endpoint 1; an out-of-sync packet is dropped.\<close>

definition ble_ep1_out :: "bool \<Rightarrow> u8 list \<Rightarrow> 'e ble_app \<Rightarrow> 'e ble_app" where
  "ble_ep1_out tog_ok bs a =
     (let a = a\<lparr>b_ep1_buf := splice_at (b_ep1_buf a) 0 bs\<rparr>
      in if tog_ok then ble_DevEP1_OUT_Deal (of_nat (length bs)) a else a)"

definition ble_ep1_in :: "'e ble_app \<Rightarrow> 'e ble_app" where
  "ble_ep1_in a = a\<lparr>b_uep1_ctrl := (b_uep1_ctrl a AND NOT MASK_UEP_T_RES) OR UEP_T_RES_NAK\<rparr>"

text \<open>SET_CONTROL_LINE_STATE; \<open>v\<close> is \<open>EP0_Databuf[2]\<close>.\<close>

definition ble_line_state :: "u8 \<Rightarrow> 'e ble_app \<Rightarrow> 'e ble_app" where
  "ble_line_state v a =
     ble_set_event SBP_PROCESS_INPDATA_EVT
       (a\<lparr>b_cmd_buf := splice_at (b_cmd_buf a) 0 [1, CMD_I2C_PWR, v AND 1], b_cmd_len := 3\<rparr>)"

text \<open>The requests and the reset that set the control of endpoint 1: \<open>CLEAR_FEATURE\<close> and a bus reset.\<close>

definition ble_clear_feature :: "u8 \<Rightarrow> u16 \<Rightarrow> 'e ble_app \<Rightarrow> 'e ble_app" where
  "ble_clear_feature rt w a =
     (let ep = ucast w :: u8
      in if rt AND USB_REQ_RECIP_MASK = USB_REQ_RECIP_ENDP
         then if ep = 0x81 then a\<lparr>b_uep1_ctrl := clear_tx (b_uep1_ctrl a)\<rparr>
              else if ep = 0x01 then a\<lparr>b_uep1_ctrl := clear_rx (b_uep1_ctrl a)\<rparr>
              else a
         else if rt AND USB_REQ_RECIP_MASK = USB_REQ_RECIP_DEVICE
         then a\<lparr>b_uep1_ctrl := clear_tx (b_uep1_ctrl a)\<rparr>
         else a)"

definition ble_bus_reset :: "'e ble_app \<Rightarrow> 'e ble_app" where
  "ble_bus_reset a = a\<lparr>b_uep1_ctrl := UEP_R_RES_ACK OR UEP_T_RES_NAK OR RB_UEP_AUTO_TOG\<rparr>"

section \<open>The command service\<close>

definition ble_cmd_notify :: "bool \<Rightarrow> u8 \<Rightarrow> 'e ble_app \<Rightarrow> u16 \<times> 'e ble_app" where
  "ble_cmd_notify alloc_ok status a =
     (let len = app_drv_fifo_length (b_fifo a)
      in if len \<noteq> 0
         then
           (let len = (if uint len > uint (b_mtu a) - 3 then b_mtu a - 3 else len)
            in if \<not> alloc_ok then (0, a)
               else
                 (let (_, bs) = app_drv_fifo_rd (b_fifo a) (replicate (unat len) 0) len;
                      a = ble_call (Indication (connHandle (b_conn a)) (b_attr a ! 2) bs) a;
                      a = ble_call Bm_free a
                  in if status \<noteq> 0 then (0, a)
                     else (len, a\<lparr>b_fifo := app_drv_fifo_rd_del (b_fifo a) len,
                                  b_out := b_out a @ [To_ble bs]\<rparr>)))
         else (len, a))"

record gatt_attr =
  at_perm :: u8
  at_uuid :: "u8 list"
  at_handle :: u16

definition is_ccc :: "gatt_attr \<Rightarrow> bool" where
  "is_ccc pAttr \<longleftrightarrow> length (at_uuid pAttr) = 2 \<and> from_le16 (at_uuid pAttr ! 0) (at_uuid pAttr ! 1) = 0x2902"

definition ble_cmd_ReadAttrCB :: "gatt_attr \<Rightarrow> u8 list \<Rightarrow> u8 list \<Rightarrow> u16 \<Rightarrow> u8 \<times> u8 list \<times> u16" where
  "ble_cmd_ReadAttrCB pAttr attr_value pValue pLen =
     (if is_ccc pAttr then (0, splice_at pValue 0 (take 2 attr_value), 2) else (0, pValue, pLen))"

text \<open>\<open>ccc_status\<close> is the result of \<open>GATTServApp_ProcessCCCWriteReq\<close>.\<close>

definition ble_write_ccc :: "u8 \<Rightarrow> u8 list \<Rightarrow> 'e ble_app \<Rightarrow> 'e ble_app" where
  "ble_write_ccc ccc_status pValue a =
     (if ccc_status = 0
      then if pValue ! 0 OR pValue ! 1 \<noteq> 0
           then if b_enable a = 0
                then a\<lparr>b_enable := 1, b_fifo := app_drv_fifo_flush (b_fifo a)\<rparr>
                else a
           else a\<lparr>b_enable := 0\<rparr>
      else a)"

definition ble_write_rx :: "u8 list \<Rightarrow> u16 \<Rightarrow> 'e ble_app \<Rightarrow> 'e ble_app" where
  "ble_write_rx pValue len a =
     (if b_cmd_len a = 0 \<and> len \<noteq> 0
      then
        (let n = (if unat len > APP_RX_BUFFER_LENGTH then of_nat APP_RX_BUFFER_LENGTH else len)
         in ble_set_event SBP_PROCESS_INPDATA_EVT
              (a\<lparr>b_cmd_len := n, b_cmd_buf := splice_at (b_cmd_buf a) 0 (take (unat n) pValue)\<rparr>))
      else a)"

definition ble_cmd_WriteAttrCB ::
    "u8 \<Rightarrow> gatt_attr \<Rightarrow> u8 list \<Rightarrow> u16 \<Rightarrow> 'e ble_app \<Rightarrow> u8 \<times> 'e ble_app" where
  "ble_cmd_WriteAttrCB ccc_status pAttr pValue len a =
     (if at_perm pAttr AND 0x20 \<noteq> 0 then (0x08, a)
      else if length (at_uuid pAttr) = 2
      then
        (let (status, a) =
               (if is_ccc pAttr then (ccc_status, ble_write_ccc ccc_status pValue a) else (0, a));
             a = (if at_handle pAttr = b_attr a ! 5 then ble_write_rx pValue len a else a)
         in (status, a))
      else (0, a))"

definition ble_cmd_HandleConnStatusCB :: "bool \<Rightarrow> u16 \<Rightarrow> u8 \<Rightarrow> 'e ble_app \<Rightarrow> 'e ble_app" where
  "ble_cmd_HandleConnStatusCB link_up handle changeType a =
     (if handle \<noteq> 0xFFFE \<and> (changeType = 1 \<or> changeType = 2 \<and> \<not> link_up)
      then ble_call (Init_char_cfg handle) a else a)"

section \<open>The task of the Bluetooth library\<close>

definition ATT_MTU_UPDATED_EVENT :: u8 where [regs]: "ATT_MTU_UPDATED_EVENT = 0x7F"
definition GAP_LINK_ESTABLISHED_EVENT :: u8 where [regs]: "GAP_LINK_ESTABLISHED_EVENT = 0x05"
definition GAP_LINK_TERMINATED_EVENT :: u8 where [regs]: "GAP_LINK_TERMINATED_EVENT = 0x06"
definition GAPROLE_STATE_ADV_MASK :: u32 where [regs]: "GAPROLE_STATE_ADV_MASK = 0xF"
definition GAPROLE_ADVERTISING :: u32 where [regs]: "GAPROLE_ADVERTISING = 2"
definition GAPROLE_WAITING :: u32 where [regs]: "GAPROLE_WAITING = 3"
definition GAPROLE_CONNECTED :: u32 where [regs]: "GAPROLE_CONNECTED = 4"

text \<open>A message by its event: of GAP, of GATT with its method and \<open>clientRxMTU\<close>, or another.\<close>

datatype tmos_msg = Gap_msg | Gatt_msg u8 u16 | Other_msg

record gapRoleEvent =
  ge_opcode :: u8
  ge_connectionHandle :: u16
  ge_connInterval :: u16
  ge_connLatency :: u16
  ge_connTimeout :: u16

definition peripheralInitConnItem :: peripheralConnItem_t where
  "peripheralInitConnItem =
     \<lparr>connHandle = GAP_CONNHANDLE_INIT, connInterval = 0, connSlaveLatency = 0, connTimeout = 0\<rparr>"

definition Peripheral_Init :: "'e ble_app \<Rightarrow> 'e ble_app" where
  "Peripheral_Init a = ble_set_event SBP_START_DEVICE_EVT (a\<lparr>b_conn := peripheralInitConnItem\<rparr>)"

definition Peripheral_ProcessTMOSMsg :: "tmos_msg \<Rightarrow> 'e ble_app \<Rightarrow> 'e ble_app" where
  "Peripheral_ProcessTMOSMsg msg a =
     (case msg of
        Gap_msg \<Rightarrow> a
      | Gatt_msg method clientRxMTU \<Rightarrow>
          if method = ATT_MTU_UPDATED_EVENT then a\<lparr>b_mtu := clientRxMTU\<rparr> else a
      | Other_msg \<Rightarrow> a)"

text \<open>The power command of the lost link goes into the mailbox whether or not a command waits there.\<close>

definition Peripheral_LinkEstablished :: "gapRoleEvent \<Rightarrow> 'e ble_app \<Rightarrow> 'e ble_app" where
  "Peripheral_LinkEstablished e a =
     (if connHandle (b_conn a) \<noteq> GAP_CONNHANDLE_INIT
      then ble_call (Terminate_link (ge_connectionHandle e)) a
      else ble_call (Start_task SBP_PARAM_UPDATE_EVT SBP_PARAM_UPDATE_DELAY)
        (a\<lparr>b_conn := \<lparr>connHandle = ge_connectionHandle e, connInterval = ge_connInterval e,
            connSlaveLatency = ge_connLatency e, connTimeout = ge_connTimeout e\<rparr>,
           b_mtu := APP_MTU_SIZE\<rparr>))"

definition Peripheral_LinkTerminated :: "gapRoleEvent \<Rightarrow> 'e ble_app \<Rightarrow> 'e ble_app" where
  "Peripheral_LinkTerminated e a =
     (if ge_connectionHandle e = connHandle (b_conn a)
      then
        (let a = a\<lparr>b_conn := peripheralInitConnItem\<rparr>;
             a = (if b_enable a \<noteq> 0
                  then ble_set_event SBP_PROCESS_INPDATA_EVT
                    (a\<lparr>b_enable := 0, b_dev := ble_set_pktcnt 0 (b_dev a),
                       b_fifo := app_drv_fifo_flush (b_fifo a),
                       b_cmd_buf := splice_at (b_cmd_buf a) 0 [1, CMD_I2C_PWR, 0], b_cmd_len := 3\<rparr>)
                  else a)
         in ble_call Advertise a)
      else a)"

definition peripheralParamUpdateCB :: "u16 \<Rightarrow> u16 \<Rightarrow> u16 \<Rightarrow> u16 \<Rightarrow> 'e ble_app \<Rightarrow> 'e ble_app" where
  "peripheralParamUpdateCB handle interval latency timeout a =
     (if handle = connHandle (b_conn a)
      then a\<lparr>b_conn := (b_conn a)\<lparr>connInterval := interval, connSlaveLatency := latency,
        connTimeout := timeout\<rparr>\<rparr>
      else a)"

definition peripheralStateNotificationCB :: "u32 \<Rightarrow> gapRoleEvent \<Rightarrow> 'e ble_app \<Rightarrow> 'e ble_app" where
  "peripheralStateNotificationCB newState e a =
     (let st = newState AND GAPROLE_STATE_ADV_MASK
      in if st = GAPROLE_ADVERTISING \<or> st = GAPROLE_WAITING
         then if ge_opcode e = GAP_LINK_TERMINATED_EVENT then Peripheral_LinkTerminated e a else a
         else if st = GAPROLE_CONNECTED
         then if ge_opcode e = GAP_LINK_ESTABLISHED_EVENT then Peripheral_LinkEstablished e a else a
         else a)"

definition ble_process_inpdata :: "'e flash_ops \<Rightarrow> hw_env \<Rightarrow> 'e ble_app \<Rightarrow> 'e ble_app option" where
  "ble_process_inpdata ops env a =
     do {
       a \<leftarrow>
         (if b_cmd_len a > 1
          then do {
            (len, p, d) \<leftarrow> ble_cmd_decode ops env (b_enable a) (b_send_pkt a) (b_cmd_buf a) (b_dev a);
            let a = a\<lparr>b_send_pkt := p, b_dev := d\<rparr>;
            Some (if len \<noteq> 0
                  then (let (res, fifo, _) =
                          app_drv_fifo_write (Some (b_fifo a)) (Some (tx_pkt_bytes p)) (Some (ucast len))
                        in a\<lparr>b_fifo := the fifo\<rparr>)
                  else a)
          }
          else Some a);
       Some (a\<lparr>b_cmd_len := 0\<rparr>)
     }"

definition ble_task :: "'e ble_app \<Rightarrow> 'e ble_app option" where
  "ble_task a =
     do {
       (d, f) \<leftarrow> ble_I2CDevTask (b_enable a) (b_dev a) (b_fifo a);
       Some (a\<lparr>b_dev := d, b_fifo := f\<rparr>)
     }"

text \<open>
  \<open>msg\<close> is what \<open>tmos_msg_receive\<close> returns; \<open>alloc_ok\<close> and \<open>status\<close> are the results of the library
  in \<open>ble_cmd_notify\<close>. One event is handled a call, the rest is returned.
\<close>

definition Peripheral_ProcessEvent ::
    "'e flash_ops \<Rightarrow> hw_env \<Rightarrow> tmos_msg option \<Rightarrow> bool \<Rightarrow> u8 \<Rightarrow> u16 \<Rightarrow> 'e ble_app \<Rightarrow> (u16 \<times> 'e ble_app) option" where
  "Peripheral_ProcessEvent ops env msg alloc_ok status events a =
     (if events AND SYS_EVENT_MSG \<noteq> 0
      then Some (events XOR SYS_EVENT_MSG,
        case msg of None \<Rightarrow> a | Some m \<Rightarrow> Peripheral_ProcessTMOSMsg m a)
      else if events AND SBP_PROCESS_INPDATA_EVT \<noteq> 0
      then do {
        a \<leftarrow> ble_process_inpdata ops env a;
        Some (events XOR SBP_PROCESS_INPDATA_EVT, a)
      }
      else if events AND SBP_PERIODIC_EVT \<noteq> 0
      then do {
        let a = ble_call (Start_task SBP_PERIODIC_EVT SBP_PERIODIC_EVT_PERIOD) a;
        a \<leftarrow> ble_task a;
        Some (events XOR SBP_PERIODIC_EVT,
          if b_enable a \<noteq> 0 then snd (ble_cmd_notify alloc_ok status a) else snd (ble_USBSendData a))
      }
      else if events AND SBP_PARAM_UPDATE_EVT \<noteq> 0
      then Some (events XOR SBP_PARAM_UPDATE_EVT,
        ble_call (Start_task SBP_EXCHANGE_MTU_EVT SBP_MTU_UPDATE_DELAY)
          (ble_call (Param_update_req (connHandle (b_conn a))) a))
      else if events AND SBP_EXCHANGE_MTU_EVT \<noteq> 0
      then Some (events XOR SBP_EXCHANGE_MTU_EVT,
        ble_call (Start_task SBP_PHY_UPDATE_EVT SBP_PHY_UPDATE_DELAY) a)
      else if events AND SBP_PHY_UPDATE_EVT \<noteq> 0
      then Some (events XOR SBP_PHY_UPDATE_EVT, ble_call (Update_PHY (connHandle (b_conn a))) a)
      else if events AND SBP_START_DEVICE_EVT \<noteq> 0
      then Some (events XOR SBP_START_DEVICE_EVT,
        ble_call (Start_task SBP_PERIODIC_EVT SBP_PERIODIC_EVT_PERIOD) (ble_call Start_device a))
      else Some (0, a))"

section \<open>The main program\<close>

text \<open>One round of the loop; \<open>tmos\<close> is \<open>TMOS_SystemProcess\<close>, which runs tasks and callbacks.\<close>

definition Main_Circulation_round :: "('e ble_app \<Rightarrow> 'e ble_app option) \<Rightarrow> 'e ble_app \<Rightarrow> 'e ble_app option" where
  "Main_Circulation_round tmos a =
     do {
       a \<leftarrow> tmos a;
       a \<leftarrow> ble_task a;
       Some (if b_enable a = 0 then snd (ble_USBSendData a) else a)
     }"

text \<open>The part of \<open>main\<close> that sets up this state, with the endpoint control of \<open>app_usb_init\<close>.\<close>

definition ble_main_init :: "'e flash_ops \<Rightarrow> 'e ble_app \<Rightarrow> 'e ble_app" where
  "ble_main_init ops a =
     (let a = a\<lparr>b_fifo := snd (app_drv_fifo_init (b_fifo a) (fdata (b_fifo a)) 2048)\<rparr>;
          a = Peripheral_Init a;
          a = a\<lparr>b_dev := ble_I2CDevInit ops (b_dev a)\<rparr>
      in a\<lparr>b_uep1_ctrl := UEP_R_RES_ACK OR UEP_T_RES_NAK OR RB_UEP_AUTO_TOG\<rparr>)"

end
