(* ===== verification/BleBridge.thy ===== *)
theory BleBridge
  imports BleApp
begin

text \<open>
  The Bluetooth bridge as a whole: the steps its program takes, in any order, and the proof that it
  keeps the promise of \<open>Bridge\<close>.
\<close>

section \<open>The steps of the program\<close>

text \<open>
  A step is a call of the library (the event processor with the events that are set, any message and any
  results, or a callback) or an event it sets, a statement of the main loop, a USB transaction or
  request, or a tick or the interrupt of the sampling timer. The library clears the events it hands over
  and sets again those the processor returns. The protocol does not negotiate sizes below 23.
\<close>

definition mtu_msg_ok :: "tmos_msg option \<Rightarrow> bool" where
  "mtu_msg_ok msg = (case msg of Some (Gatt_msg method mtu) \<Rightarrow> 23 \<le> mtu | _ \<Rightarrow> True)"

text \<open>
  A step is labelled with the events of \<open>Bridge\<close> that it makes, found from the conditions of the code in the
  state before it: the frame a task or a reply makes and whether it fits, a client that comes or goes by an
  accepted write to its configuration or by the loss of its link, and what is handed to a host.
\<close>

definition offer_event :: "bool \<Rightarrow> app_drv_fifo_t \<Rightarrow> u8 list \<Rightarrow> bridge_event" where
  "offer_event over f x =
     (if length (fifo_bytes f) + length x \<le> unat (fsize f) then Frame x
      else if over then Overrun x else Refused x)"

definition task_events :: "'e ble_app \<Rightarrow> bridge_event list" where
  "task_events a =
     (if ble_ready (b_dev a) then [offer_event (b_enable a \<noteq> 0) (b_fifo a) (ble_packet (b_dev a))] else [])"

definition out_events :: "'e ble_app \<Rightarrow> 'e ble_app \<Rightarrow> bridge_event list" where
  "out_events a a' = map Delivered (drop (length (b_out a)) (b_out a'))"

definition reply_events :: "'e flash_ops \<Rightarrow> hw_env \<Rightarrow> 'e ble_app \<Rightarrow> bridge_event list" where
  "reply_events ops env a =
     (if b_cmd_len a > 1
      then case ble_cmd_decode ops env (b_enable a) (b_send_pkt a) (b_cmd_buf a) (b_dev a) of
             None \<Rightarrow> []
           | Some (n, p, d) \<Rightarrow>
               if n \<noteq> 0 then [offer_event False (b_fifo a) (take (unat n) (tx_pkt_bytes p))] else []
      else [])"

definition process_events ::
    "'e flash_ops \<Rightarrow> hw_env \<Rightarrow> u16 \<Rightarrow> 'e ble_app \<Rightarrow> 'e ble_app \<Rightarrow> bridge_event list" where
  "process_events ops env ev a a' =
     (if ev AND SYS_EVENT_MSG \<noteq> 0 then []
      else if ev AND SBP_PROCESS_INPDATA_EVT \<noteq> 0 then reply_events ops env a
      else if ev AND SBP_PERIODIC_EVT \<noteq> 0 then task_events a @ out_events a a'
      else [])"

definition state_events :: "u32 \<Rightarrow> gapRoleEvent \<Rightarrow> 'e ble_app \<Rightarrow> bridge_event list" where
  "state_events st e a =
     (if (st AND GAPROLE_STATE_ADV_MASK = GAPROLE_ADVERTISING \<or> st AND GAPROLE_STATE_ADV_MASK = GAPROLE_WAITING) \<and>
        ge_opcode e = GAP_LINK_TERMINATED_EVENT \<and> ge_connectionHandle e = connHandle (b_conn a) \<and> b_enable a \<noteq> 0
      then [Link_lost] else [])"

definition ccc_events :: "u8 \<Rightarrow> u8 list \<Rightarrow> 'e ble_app \<Rightarrow> bridge_event list" where
  "ccc_events cs bs a =
     (if cs \<noteq> 0 then []
      else if bs ! 0 OR bs ! 1 \<noteq> 0 then if b_enable a = 0 then [Subscribe] else []
      else if b_enable a \<noteq> 0 then [Unsubscribe] else [])"

definition write_events :: "u8 \<Rightarrow> gatt_attr \<Rightarrow> u8 list \<Rightarrow> 'e ble_app \<Rightarrow> bridge_event list" where
  "write_events cs at bs a = (if at_perm at AND 0x20 = 0 \<and> is_ccc at then ccc_events cs bs a else [])"

inductive ble_step :: "'e flash_ops \<Rightarrow> bridge_event list \<Rightarrow> 'e ble_app \<Rightarrow> 'e ble_app \<Rightarrow> bool" for ops where
  event: "ble_step ops [] a (ble_set_event ev a)"
| process: "Peripheral_ProcessEvent ops env msg alloc_ok status (b_events a) (a\<lparr>b_events := 0\<rparr>) = Some (rest, a') \<Longrightarrow>
    mtu_msg_ok msg \<Longrightarrow> ble_step ops (process_events ops env (b_events a) a a') a (ble_set_event rest a')"
| state_cb: "ble_step ops (state_events st e a) a (peripheralStateNotificationCB st e a)"
| param_cb: "ble_step ops [] a (peripheralParamUpdateCB h i l t a)"
| write_cb: "ble_step ops (write_events cs at bs a) a (snd (ble_cmd_WriteAttrCB cs at bs len a))"
| conn_cb: "ble_step ops [] a (ble_cmd_HandleConnStatusCB up h ct a)"
| task: "ble_task a = Some a' \<Longrightarrow> ble_step ops (task_events a) a a'"
| send: "b_enable a = 0 \<Longrightarrow> a' = snd (ble_USBSendData a) \<Longrightarrow> ble_step ops (out_events a a') a a'"
| ep1_rx: "length bs \<le> 64 \<Longrightarrow> ble_step ops [] a (ble_ep1_out tog bs a)"
| ep1_tx: "ble_step ops [] a (ble_ep1_in a)"
| lines: "ble_step ops [] a (ble_line_state v a)"
| feature: "ble_step ops [] a (ble_clear_feature rt w a)"
| reset: "ble_step ops [] a (ble_bus_reset a)"
| tick: "ble_step ops [] a (a\<lparr>b_dev := (b_dev a)\<lparr>b_tmr_cyc_end := True\<rparr>\<rparr>)"
| timer: "ble_TMR1_IRQHandler env (b_dev a) = Some d \<Longrightarrow> ble_step ops [] a (a\<lparr>b_dev := d\<rparr>)"

section \<open>Simulation of the abstract bridge\<close>

definition ble_app_wf :: "'e ble_app \<Rightarrow> bool" where
  "ble_app_wf a \<longleftrightarrow> ble_wf (b_dev a) \<and> fifo_wf (b_fifo a) \<and> 2 \<le> unat (fsize (b_fifo a)) \<and>
     tx_pkt_wf (b_send_pkt a) \<and> length (b_cmd_buf a) = 236 \<and> unat (b_cmd_len a) \<le> 236 \<and>
     length (b_ep1_buf a) = 128 \<and> 23 \<le> b_mtu a"

definition bridge_of :: "'e ble_app \<Rightarrow> bridge" where
  "bridge_of a = \<lparr>client = b_enable a \<noteq> 0, room = unat (fsize (b_fifo a)), waiting = fifo_bytes (b_fifo a)\<rparr>"

definition ble_sim :: "bridge_event list \<Rightarrow> 'e ble_app \<Rightarrow> 'e ble_app \<Rightarrow> bool" where
  "ble_sim es a a' \<longleftrightarrow> (ble_app_wf a \<longrightarrow>
     ble_app_wf a' \<and> bridge_run es (bridge_of a) = Some (bridge_of a') \<and> b_out a' = b_out a @ deliveries es)"

lemma ble_sim_trans: "ble_sim es a b \<Longrightarrow> ble_sim fs b c \<Longrightarrow> ble_sim (es @ fs) a c"
  by (simp add: ble_sim_def exec_events_append)

lemma ble_sim_silent_trans: "ble_sim es a b \<Longrightarrow> ble_sim [] b c \<Longrightarrow> ble_sim es a c"
  using ble_sim_trans [of es a b "[]" c] by simp

lemma ble_silent_sim_trans: "ble_sim [] a b \<Longrightarrow> ble_sim es b c \<Longrightarrow> ble_sim es a c"
  using ble_sim_trans [of "[]" a b es c] by simp

lemma ble_sim_wf: "(ble_app_wf a \<Longrightarrow> ble_sim es a a') \<Longrightarrow> ble_sim es a a'"
  by (auto simp: ble_sim_def)

text \<open>An operation that keeps the client, the FIFO and what was handed out is silent.\<close>

lemma ble_sim_same:
  assumes "ble_app_wf a \<Longrightarrow> ble_app_wf a'" "b_enable a' = b_enable a" "b_fifo a' = b_fifo a" "b_out a' = b_out a"
  shows "ble_sim [] a a'"
  using assms unfolding ble_sim_def by (simp add: bridge_of_def)

lemma ble_sim_one:
  assumes "ble_app_wf a'" "bridge_guard e (bridge_of a)" "bridge_effect e (bridge_of a) = bridge_of a'"
    "b_out a' = b_out a @ deliveries [e]"
  shows "ble_sim [e] a a'"
  using assms unfolding ble_sim_def by (simp add: bridge_do_def)

lemma ble_sim_frame:
  assumes "ble_app_wf a'" "b_enable a' = b_enable a" "b_out a' = b_out a" "fsize (b_fifo a') = fsize (b_fifo a)"
    "length (fifo_bytes (b_fifo a)) + length x \<le> unat (fsize (b_fifo a))"
    "fifo_bytes (b_fifo a') = fifo_bytes (b_fifo a) @ x" "frame_ok x"
  shows "ble_sim [Frame x] a a'"
  using assms by (intro ble_sim_one) (simp_all add: bridge_guard_def bridge_effect_def bridge_of_def del: length_fifo_bytes)

lemma ble_sim_refused:
  assumes "ble_app_wf a'" "b_enable a' = b_enable a" "b_out a' = b_out a" "fsize (b_fifo a') = fsize (b_fifo a)"
    "\<not> length (fifo_bytes (b_fifo a)) + length x \<le> unat (fsize (b_fifo a))"
    "fifo_bytes (b_fifo a') = fifo_bytes (b_fifo a)" "frame_ok x"
  shows "ble_sim [Refused x] a a'"
  using assms by (intro ble_sim_one) (simp_all add: bridge_guard_def bridge_effect_def bridge_of_def del: length_fifo_bytes)

lemma ble_sim_overrun:
  assumes "ble_app_wf a'" "b_enable a \<noteq> 0" "b_enable a' = b_enable a" "b_out a' = b_out a"
    "fsize (b_fifo a') = fsize (b_fifo a)"
    "\<not> length (fifo_bytes (b_fifo a)) + length x \<le> unat (fsize (b_fifo a))"
    "fifo_bytes (b_fifo a') = overrun_mark x" "frame_ok x"
  shows "ble_sim [Overrun x] a a'"
  using assms by (intro ble_sim_one) (simp_all add: bridge_guard_def bridge_effect_def bridge_of_def del: length_fifo_bytes)

lemma ble_sim_out:
  assumes "ble_app_wf a'" "b_enable a' = b_enable a" "fsize (b_fifo a') = fsize (b_fifo a)"
    "b_out a' = b_out a @ [d]"
    "fifo_bytes (b_fifo a') = drop (length (delivered_bytes d)) (fifo_bytes (b_fifo a))"
    "bridge_guard (Delivered d) (bridge_of a)"
  shows "ble_sim (out_events a a') a a'"
proof -
  have "out_events a a' = [Delivered d]" using assms(4) by (simp add: out_events_def)
  moreover have "ble_sim [Delivered d] a a'"
    using assms by (intro ble_sim_one) (simp_all add: bridge_effect_def bridge_of_def)
  ultimately show ?thesis by simp
qed

lemma ble_sim_subscribe:
  assumes "ble_app_wf a'" "b_enable a = 0" "b_enable a' \<noteq> 0" "fifo_bytes (b_fifo a') = []"
    "fsize (b_fifo a') = fsize (b_fifo a)" "b_out a' = b_out a"
  shows "ble_sim [Subscribe] a a'"
  using assms by (intro ble_sim_one) (simp_all add: bridge_guard_def bridge_effect_def bridge_of_def)

lemma ble_sim_unsubscribe:
  assumes "ble_app_wf a'" "b_enable a \<noteq> 0" "b_enable a' = 0" "b_fifo a' = b_fifo a" "b_out a' = b_out a"
  shows "ble_sim [Unsubscribe] a a'"
  using assms by (intro ble_sim_one) (simp_all add: bridge_guard_def bridge_effect_def bridge_of_def)

lemma ble_sim_lost:
  assumes "ble_app_wf a'" "b_enable a \<noteq> 0" "b_enable a' = 0" "fifo_bytes (b_fifo a') = []"
    "fsize (b_fifo a') = fsize (b_fifo a)" "b_out a' = b_out a"
  shows "ble_sim [Link_lost] a a'"
  using assms by (intro ble_sim_one) (simp_all add: bridge_guard_def bridge_effect_def bridge_of_def)

section \<open>Every operation keeps the promise\<close>

lemma ble_wf_updates [simp]:
  "ble_app_wf (ble_set_event ev a) = ble_app_wf a" "ble_app_wf (ble_call c a) = ble_app_wf a"
  "ble_app_wf (a\<lparr>b_events := w\<rparr>) = ble_app_wf a" "ble_app_wf (a\<lparr>b_conn := cn\<rparr>) = ble_app_wf a"
  "ble_app_wf (a\<lparr>b_uep1_ctrl := x\<rparr>) = ble_app_wf a" "ble_app_wf (a\<lparr>b_enable := e\<rparr>) = ble_app_wf a"
  "ble_app_wf (a\<lparr>b_out := os\<rparr>) = ble_app_wf a" "ble_app_wf (ble_ep1_ack n a) = ble_app_wf a"
  "ble_app_wf (a\<lparr>b_old_send_len := k\<rparr>) = ble_app_wf a"
  by (simp_all add: ble_app_wf_def ble_set_event_def ble_call_def ble_ep1_ack_def)

lemma ble_frame_simps [simp]:
  "b_enable (ble_set_event ev a) = b_enable a" "b_enable (ble_call c a) = b_enable a"
  "b_fifo (ble_set_event ev a) = b_fifo a" "b_fifo (ble_call c a) = b_fifo a"
  "b_out (ble_set_event ev a) = b_out a" "b_out (ble_call c a) = b_out a"
  "b_dev (ble_set_event ev a) = b_dev a" "b_dev (ble_call c a) = b_dev a"
  "b_mtu (ble_set_event ev a) = b_mtu a" "b_mtu (ble_call c a) = b_mtu a"
  by (simp_all add: ble_set_event_def ble_call_def)

lemma ble_sim_silent [simp]:
  "ble_sim [] a a" "ble_sim [] a (ble_set_event ev a)" "ble_sim [] a (ble_call c a)"
  "ble_sim [] a (a\<lparr>b_events := w\<rparr>)" "ble_sim [] a (a\<lparr>b_conn := cn\<rparr>)" "ble_sim [] a (ble_ep1_in a)"
  "ble_sim [] a (peripheralParamUpdateCB h i l t a)" "ble_sim [] a (ble_cmd_HandleConnStatusCB up h ct a)"
  "ble_sim [] a (ble_clear_feature rt w a)" "ble_sim [] a (ble_bus_reset a)"
  by (rule ble_sim_same; simp add: ble_ep1_in_def peripheralParamUpdateCB_def ble_cmd_HandleConnStatusCB_def
    ble_clear_feature_def ble_bus_reset_def Let_def)+

text \<open>The mailbox.\<close>

lemma ble_mailbox_wf:
  assumes "ble_app_wf a" "length xs \<le> 236" "unat n \<le> 236"
  shows "ble_app_wf (a\<lparr>b_cmd_len := n, b_cmd_buf := splice_at (b_cmd_buf a) 0 xs\<rparr>)"
  using assms by (simp add: ble_app_wf_def)

lemma ble_sim_lines: "ble_sim [] a (ble_line_state v a)"
proof (rule ble_sim_same)
  assume "ble_app_wf a"
  then show "ble_app_wf (ble_line_state v a)" by (simp add: ble_line_state_def) (simp add: ble_app_wf_def)
qed (simp_all add: ble_line_state_def)

lemma ble_sim_rx:
  assumes "length bs \<le> 64"
  shows "ble_sim [] a (ble_ep1_out tog bs a)"
proof (rule ble_sim_same)
  let ?a = "a\<lparr>b_ep1_buf := splice_at (b_ep1_buf a) 0 bs\<rparr>"
  assume w: "ble_app_wf a"
  then have w': "ble_app_wf ?a" using assms by (simp add: ble_app_wf_def)
  have l: "unat (of_nat (length bs) :: u8) \<le> 64" using assms by (simp add: unat_of_nat_small)
  then have "ble_app_wf (?a\<lparr>b_cmd_len := ucast (of_nat (length bs) :: u8),
      b_cmd_buf := splice_at (b_cmd_buf ?a) 0 (take (unat (ucast (of_nat (length bs) :: u8) :: u16)) (b_ep1_buf ?a))\<rparr>)"
    by (intro ble_mailbox_wf [OF w']) simp_all
  with w' l show "ble_app_wf (ble_ep1_out tog bs a)"
    by (simp add: ble_ep1_out_def ble_DevEP1_OUT_Deal_def APP_RX_BUFFER_LENGTH_def Let_def)
qed (simp_all add: ble_ep1_out_def ble_DevEP1_OUT_Deal_def Let_def)

text \<open>The device.\<close>

lemma ble_sim_dev: "(ble_wf (b_dev a) \<Longrightarrow> ble_wf d) \<Longrightarrow> ble_sim [] a (a\<lparr>b_dev := d\<rparr>)"
  by (rule ble_sim_same) (simp_all add: ble_app_wf_def)

lemma frame_ok_ble_packet:
  assumes "ble_fits d" "ble_ready d"
  shows "frame_ok (ble_packet d)"
proof -
  let ?m = "ble_size d * unat (pktcnt (b_cfg d))"
  have "?m \<le> 232" using assms(1) by (simp add: ble_fits_def)
  then have "unat (of_nat ?m :: u8) = ?m" by (intro unat_of_nat_small) simp
  moreover have "length (ble_packet d) = 2 + ?m" using assms(2) by (simp add: ble_packet_def ble_ready_def)
  ultimately show ?thesis by (simp add: frame_ok_def ble_packet_def del: of_nat_mult)
qed

lemma ble_sim_task:
  assumes "ble_task a = Some a'"
  shows "ble_sim (task_events a) a a'"
proof (rule ble_sim_wf)
  assume w: "ble_app_wf a"
  obtain d g where t: "ble_I2CDevTask (b_enable a) (b_dev a) (b_fifo a) = Some (d, g)" and
    a': "a' = a\<lparr>b_dev := d, b_fifo := g\<rparr>"
    using assms by (auto simp: ble_task_def bind_eq_Some_conv)
  have f: "ble_wf (b_dev a)" "fifo_wf (b_fifo a)" "2 \<le> unat (fsize (b_fifo a))"
    using w by (simp_all add: ble_app_wf_def)
  note c = ble_task_cases [OF t f]
  have w': "ble_app_wf a'" using c w unfolding a' by (simp add: ble_app_wf_def)
  have s: "fsize (b_fifo a') = fsize (b_fifo a)" "b_fifo a' = g" "b_enable a' = b_enable a" "b_out a' = b_out a"
    using c by (simp_all add: a')
  let ?x = "ble_packet (b_dev a)"
  let ?room = "length (fifo_bytes (b_fifo a)) + length ?x \<le> unat (fsize (b_fifo a))"
  show "ble_sim (task_events a) a a'"
  proof (cases "ble_ready (b_dev a)")
    case False
    then have "(d, g) = (b_dev a, b_fifo a)" using t f(1) by (simp add: ble_task_eq)
    then have "a' = a" by (simp add: a')
    with False show ?thesis by (simp add: task_events_def)
  next
    case True
    then have fits: "ble_fits (b_dev a)" using t f(1) by (simp add: ble_task_eq split: if_splits)
    note x = frame_ok_ble_packet [OF fits True]
    obtain d0 g0 where r: "ble_I2CDevTask (b_enable a) (b_dev a) (b_fifo a) = Some (d0, g0)"
      "if ?room then fifo_bytes g0 = fifo_bytes (b_fifo a) @ ?x
       else if b_enable a = 0 then g0 = b_fifo a else fifo_bytes g0 = [0, ?x ! 1 OR CMD_ERR_FLG]"
      using ble_task_spec [OF f(1) fits True f(2,3), of "b_enable a"] by (auto split: if_splits)
    have "g0 = g" using r(1) t by simp
    with r(2) have r: "if ?room then fifo_bytes g = fifo_bytes (b_fifo a) @ ?x
       else if b_enable a = 0 then g = b_fifo a else fifo_bytes g = overrun_mark ?x"
      by (simp only: overrun_mark_def)
    consider (room) ?room | (usb) "\<not> ?room" "b_enable a = 0" | (ble) "\<not> ?room" "b_enable a \<noteq> 0" by blast
    then show ?thesis
    proof cases
      case room
      have "ble_sim [Frame ?x] a a'" by (rule ble_sim_frame [OF w' s(3,4,1) room _ x]) (use r room s(2) in simp)
      with True room show ?thesis by (simp add: task_events_def offer_event_def del: length_fifo_bytes)
    next
      case usb
      have "ble_sim [Refused ?x] a a'" by (rule ble_sim_refused [OF w' s(3,4,1) usb(1) _ x]) (use r usb s(2) in simp)
      with True usb show ?thesis by (simp add: task_events_def offer_event_def del: length_fifo_bytes)
    next
      case ble
      have "ble_sim [Overrun ?x] a a'"
        by (rule ble_sim_overrun [OF w' ble(2) s(3,4,1) ble(1) _ x]) (use r ble s(2) in simp)
      with True ble show ?thesis by (simp add: task_events_def offer_event_def del: length_fifo_bytes)
    qed
  qed
qed

text \<open>The senders.\<close>

lemma ble_notify_spec:
  assumes "ble_app_wf a"
  defines "k \<equiv> min (length (fifo_bytes (b_fifo a))) (unat (b_mtu a) - 3)"
  defines "bs \<equiv> take k (fifo_bytes (b_fifo a))"
  defines "a1 \<equiv> ble_call Bm_free (ble_call (Indication (connHandle (b_conn a)) (b_attr a ! 2) bs) a)"
  shows "fifo_bytes (b_fifo a) = [] \<or> \<not> ok \<Longrightarrow> ble_cmd_notify ok st a = (0, a)"
    "fifo_bytes (b_fifo a) \<noteq> [] \<Longrightarrow> ok \<Longrightarrow> st \<noteq> 0 \<Longrightarrow> ble_cmd_notify ok st a = (0, a1)"
    "fifo_bytes (b_fifo a) \<noteq> [] \<Longrightarrow> ok \<Longrightarrow> st = 0 \<Longrightarrow> 0 < k \<and>
      (\<exists>g. ble_cmd_notify ok st a = (of_nat k, a1\<lparr>b_fifo := g, b_out := b_out a @ [To_ble bs]\<rparr>) \<and>
        fifo_wf g \<and> fsize g = fsize (b_fifo a) \<and> fifo_bytes g = drop k (fifo_bytes (b_fifo a)))"
proof -
  define L where "L = app_drv_fifo_length (b_fifo a)"
  define m where "m = b_mtu a"
  have L: "unat L = length (fifo_bytes (b_fifo a))" by (simp add: L_def app_drv_fifo_length_def)
  have L0: "L = 0 \<longleftrightarrow> fifo_bytes (b_fifo a) = []" by (metis L length_0_conv unat_eq_zero)
  have m: "23 \<le> unat m" using assms(1) by (simp add: ble_app_wf_def m_def word_le_nat_alt)
  have m3: "unat (m - 3) = unat m - 3" using m by (simp add: unat_sub word_le_nat_alt)
  have gt: "uint L > uint m - 3 \<longleftrightarrow> unat m - 3 < unat L"
    using m unfolding uint_nat by linarith
  define n where "n = (if uint L > uint m - 3 then m - 3 else L)"
  have n: "unat n = k" unfolding n_def k_def m_def [symmetric] L [symmetric] using gt m3 by auto
  have k: "0 < k" if "fifo_bytes (b_fifo a) \<noteq> []"
  proof -
    have "0 < length (fifo_bytes (b_fifo a))" using that by (simp only: length_greater_0_conv not_False_eq_True)
    then show ?thesis using m unfolding k_def m_def [symmetric] by (simp only: min_less_iff_conj) simp
  qed
  have f: "fifo_wf (b_fifo a)" using assms(1) by (simp add: ble_app_wf_def)
  have nl: "unat n \<le> length (fifo_bytes (b_fifo a))" unfolding n by (simp add: k_def)
  have "unat n \<le> length (replicate (unat n) (0 :: u8))" by simp
  note rd = rd_del_spec [OF f this nl]
  have rd1: "app_drv_fifo_rd (b_fifo a) (replicate (unat n) 0) n = (n, bs)"
    using rd unfolding bs_def n [symmetric] by (simp del: length_fifo_bytes)
  have eq: "ble_cmd_notify ok st a =
    (if L = 0 \<or> \<not> ok then (0, a) else if st \<noteq> 0 then (0, a1)
     else (n, a1\<lparr>b_fifo := app_drv_fifo_rd_del (b_fifo a) n, b_out := b_out a @ [To_ble bs]\<rparr>))"
    unfolding ble_cmd_notify_def L_def [symmetric] m_def [symmetric] Let_def n_def [symmetric] rd1 a1_def
    by simp
  have nk: "n = of_nat k" unfolding n [symmetric] by simp
  show "ble_cmd_notify ok st a = (0, a)" if "fifo_bytes (b_fifo a) = [] \<or> \<not> ok"
    using that unfolding eq L0 by simp
  show "ble_cmd_notify ok st a = (0, a1)" if "fifo_bytes (b_fifo a) \<noteq> []" ok "st \<noteq> 0"
    using that unfolding eq L0 by simp
  assume h: "fifo_bytes (b_fifo a) \<noteq> []" ok "st = 0"
  have "ble_cmd_notify ok st a =
      (of_nat k, a1\<lparr>b_fifo := app_drv_fifo_rd_del (b_fifo a) n, b_out := b_out a @ [To_ble bs]\<rparr>)"
    using h unfolding eq L0 nk by simp
  moreover have "fifo_wf (app_drv_fifo_rd_del (b_fifo a) n) \<and> fsize (app_drv_fifo_rd_del (b_fifo a) n) = fsize (b_fifo a) \<and>
    fifo_bytes (app_drv_fifo_rd_del (b_fifo a) n) = drop k (fifo_bytes (b_fifo a))"
    using rd unfolding n [symmetric] by blast
  ultimately show "0 < k \<and>
      (\<exists>g. ble_cmd_notify ok st a = (of_nat k, a1\<lparr>b_fifo := g, b_out := b_out a @ [To_ble bs]\<rparr>) \<and>
        fifo_wf g \<and> fsize g = fsize (b_fifo a) \<and> fifo_bytes g = drop k (fifo_bytes (b_fifo a)))"
    using k [OF h(1)] by blast
qed

lemma ble_sim_notify:
  assumes en: "b_enable a \<noteq> 0" and r: "a' = snd (ble_cmd_notify ok st a)"
  shows "ble_sim (out_events a a') a a'"
proof (rule ble_sim_wf)
  assume w: "ble_app_wf a"
  let ?q = "fifo_bytes (b_fifo a)"
  let ?k = "min (length ?q) (unat (b_mtu a) - 3)"
  let ?a1 = "ble_call Bm_free (ble_call (Indication (connHandle (b_conn a)) (b_attr a ! 2) (take ?k ?q)) a)"
  have s1: "ble_sim [] a ?a1" by (rule ble_sim_silent_trans [OF ble_sim_silent(3) ble_sim_silent(3)])
  have e: "out_events a a = []" "out_events a ?a1 = []" by (simp_all add: out_events_def)
  note s = ble_notify_spec [OF w, where ok = ok and st = st]
  consider (none) "?q = [] \<or> \<not> ok" | (failed) "?q \<noteq> []" "ok" "st \<noteq> 0" | (sent) "?q \<noteq> []" "ok" "st = 0"
    by blast
  then show "ble_sim (out_events a a') a a'"
  proof cases
    case none
    show ?thesis unfolding r s(1) [OF none] snd_conv e by (rule ble_sim_silent)
  next
    case failed
    show ?thesis unfolding r s(2) [OF failed] snd_conv e by (rule s1)
  next
    case sent
    with s(3) obtain g where
      "ble_cmd_notify ok st a = (of_nat ?k, ?a1\<lparr>b_fifo := g, b_out := b_out a @ [To_ble (take ?k ?q)]\<rparr>)"
      "0 < ?k" and g: "fifo_wf g" "fsize g = fsize (b_fifo a)" "fifo_bytes g = drop ?k ?q" by blast
    then have a': "a' = ?a1\<lparr>b_fifo := g, b_out := b_out a @ [To_ble (take ?k ?q)]\<rparr>"
      by (simp only: r snd_conv)
    have "ble_app_wf ?a1" using w by simp
    then have w': "ble_app_wf a'" unfolding a' using g(1,2) by (simp add: ble_app_wf_def)
    have l: "length (take ?k ?q) = ?k" by simp
    have "take ?k ?q \<noteq> []" using \<open>0 < ?k\<close> l by (metis length_0_conv less_numeral_extra(3))
    then have gd: "bridge_guard (Delivered (To_ble (take ?k ?q))) (bridge_of a)"
      using en l by (simp add: bridge_guard_def bridge_of_def)
    show ?thesis
      by (rule ble_sim_out [OF w' _ _ _ _ gd]) (simp_all add: a' g l)
  qed
qed

text \<open>What the sender hands to USB when the endpoint is free and bytes wait.\<close>

lemma ble_send_spec:
  assumes w: "ble_app_wf a" and free: "b_uep1_ctrl a AND MASK_UEP_T_RES \<noteq> UEP_T_RES_ACK" and
    ne: "fifo_bytes (b_fifo a) \<noteq> []"
  defines "a' \<equiv> snd (ble_USBSendData a)"
  shows "ble_app_wf a' \<and> b_enable a' = b_enable a \<and> fsize (b_fifo a') = fsize (b_fifo a) \<and>
    b_out a' = b_out a @ [To_usb (take 64 (fifo_bytes (b_fifo a)))] \<and>
    fifo_bytes (b_fifo a') = drop 64 (fifo_bytes (b_fifo a))"
proof -
  let ?q = "fifo_bytes (b_fifo a)"
  let ?n = "min 64 (length ?q)"
  have q: "unat (app_drv_fifo_length (b_fifo a)) = length ?q" by (simp add: app_drv_fifo_length_def)
  have n: "(if length ?q > 64 then 64 else length ?q) = ?n" by simp
  have n16: "unat (of_nat ?n :: u16) = ?n" by (intro unat_of_nat_small) simp
  have l: "unat (of_nat ?n :: u16) \<le> length (drop 64 (b_ep1_buf a))"
    unfolding n16 using w by (simp add: ble_app_wf_def)
  have f: "fifo_wf (b_fifo a)" using w by (simp add: ble_app_wf_def)
  obtain g j where r: "app_drv_fifo_read (Some (b_fifo a)) (drop 64 (b_ep1_buf a)) (Some (of_nat ?n)) =
      (APP_DRV_FIFO_RESULT_SUCCESS, Some g, take (unat j) ?q @ drop (unat j) (drop 64 (b_ep1_buf a)), Some j)"
    and j: "unat j = min (unat (of_nat ?n :: u16)) (length ?q)" and
    g: "fifo_wf g" "fsize g = fsize (b_fifo a)" "fifo_bytes g = drop (unat j) ?q"
    using drv_read_spec [OF f l] ne by auto
  have j: "unat j = ?n" using j unfolding n16 by simp
  define buf where "buf = take 64 (b_ep1_buf a) @ take ?n ?q @ drop ?n (drop 64 (b_ep1_buf a))"
  have lb: "length buf = 128" "take ?n (drop 64 buf) = take ?n ?q"
    using w by (simp_all add: buf_def ble_app_wf_def)
  have uj: "unat (ucast j :: u8) = ?n" using j by (simp add: unsigned_ucast_eq take_bit_eq_mod)
  define b where "b = a\<lparr>b_fifo := g, b_ep1_buf := buf, b_old_send_len := uint j\<rparr>"
  have s: "a' = ble_ep1_ack (ucast j) b"
    using free ne q r j by (simp add: a'_def ble_USBSendData_def Let_def n buf_def b_def del: length_fifo_bytes)
  have "ble_app_wf b" using w g lb by (simp add: ble_app_wf_def b_def)
  then have "ble_app_wf a'" unfolding s by simp
  moreover have "take ?n ?q = take 64 ?q" "drop ?n ?q = drop 64 ?q" by (cases "64 \<le> length ?q"; simp)+
  moreover have "b_enable a' = b_enable a" "fsize (b_fifo a') = fsize (b_fifo a)"
    "b_out a' = b_out a @ [To_usb (take ?n ?q)]" "fifo_bytes (b_fifo a') = drop ?n ?q"
    unfolding s using g lb j uj by (simp_all add: ble_ep1_ack_def b_def del: length_fifo_bytes)
  ultimately show ?thesis by simp
qed

lemma ble_sim_send:
  assumes en: "b_enable a = 0" and r: "a' = snd (ble_USBSendData a)"
  shows "ble_sim (out_events a a') a a'"
proof (rule ble_sim_wf)
  assume w: "ble_app_wf a"
  let ?q = "fifo_bytes (b_fifo a)"
  have q: "unat (app_drv_fifo_length (b_fifo a)) = length ?q" by (simp add: app_drv_fifo_length_def)
  have same: "out_events a a = []" by (simp add: out_events_def)
  have drop64: "drop (length (take 64 ?q)) ?q = drop 64 ?q" by (cases "64 \<le> length ?q") simp_all
  have gd: "bridge_guard (Delivered (To_usb (take 64 ?q))) (bridge_of a)"
    using en by (simp add: bridge_guard_def bridge_of_def)
  consider (busy) "b_uep1_ctrl a AND MASK_UEP_T_RES = UEP_T_RES_ACK"
    | (empty) "b_uep1_ctrl a AND MASK_UEP_T_RES \<noteq> UEP_T_RES_ACK" "?q = []"
    | (full) "b_uep1_ctrl a AND MASK_UEP_T_RES \<noteq> UEP_T_RES_ACK" "?q \<noteq> []" by blast
  then show "ble_sim (out_events a a') a a'"
  proof cases
    case busy
    then have "a' = a" by (simp add: r ble_USBSendData_def)
    then show ?thesis by (simp add: same)
  next
    case empty
    then have s: "a' = (if b_old_send_len a = 64 then ble_ep1_ack 0 (a\<lparr>b_old_send_len := 0\<rparr>) else a)"
      using q by (simp add: r ble_USBSendData_def)
    show ?thesis
    proof (cases "b_old_send_len a = 64")
      case True
      have w': "ble_app_wf a'" unfolding s using w by simp
      show ?thesis
        by (rule ble_sim_out [OF w' _ _ _ _ gd]) (use True empty(2) in \<open>simp_all add: s ble_ep1_ack_def\<close>)
    next
      case False
      then have "a' = a" by (simp add: s)
      then show ?thesis by (simp add: same)
    qed
  next
    case full
    note s = ble_send_spec [OF w full, folded r]
    have w': "ble_app_wf a'" using s by blast
    show ?thesis by (rule ble_sim_out [OF w' _ _ _ _ gd]) (use s drop64 in simp_all)
  qed
qed
text \<open>The callbacks.\<close>

lemma ble_sim_established: "ble_sim [] a (Peripheral_LinkEstablished e a)"
proof (cases "connHandle (b_conn a) = GAP_CONNHANDLE_INIT")
  case False
  then show ?thesis by (simp add: Peripheral_LinkEstablished_def)
next
  case True
  then show ?thesis
    by (intro ble_sim_same) (simp_all add: Peripheral_LinkEstablished_def, simp add: ble_app_wf_def regs)
qed

lemma ble_flush_wf:
  "ble_app_wf a \<Longrightarrow> ble_app_wf (a\<lparr>b_enable := e, b_fifo := app_drv_fifo_flush (b_fifo a)\<rparr>)"
  by (simp add: ble_app_wf_def)

lemma ble_flush_fsize [simp]: "fsize (app_drv_fifo_flush f) = fsize f"
  by (simp add: app_drv_fifo_flush_def)

lemma ble_sim_terminated:
  "ble_sim (if ge_connectionHandle e = connHandle (b_conn a) \<and> b_enable a \<noteq> 0 then [Link_lost] else []) a
     (Peripheral_LinkTerminated e a)"
proof (cases "ge_connectionHandle e = connHandle (b_conn a)")
  case False
  then show ?thesis by (simp add: Peripheral_LinkTerminated_def)
next
  case True
  let ?a = "a\<lparr>b_conn := peripheralInitConnItem\<rparr>"
  let ?c = "?a\<lparr>b_enable := 0, b_dev := ble_set_pktcnt 0 (b_dev a),
    b_fifo := app_drv_fifo_flush (b_fifo a),
    b_cmd_buf := splice_at (b_cmd_buf a) 0 [1, CMD_I2C_PWR, 0], b_cmd_len := 3\<rparr>"
  let ?b = "ble_set_event SBP_PROCESS_INPDATA_EVT ?c"
  show ?thesis
  proof (cases "b_enable a = 0")
    case en: True
    have "ble_sim [] a (ble_call Advertise ?a)"
      by (rule ble_sim_silent_trans [OF ble_sim_silent(5) ble_sim_silent(3)])
    with True en show ?thesis by (simp add: Peripheral_LinkTerminated_def Let_def)
  next
    case en: False
    have "ble_sim [Link_lost] a ?c"
    proof (rule ble_sim_wf)
      assume "ble_app_wf a"
      with en ble_keeps_wf [OF ble_keeps_updates(7), of "b_dev a"] show "ble_sim [Link_lost] a ?c"
        by (intro ble_sim_lost) (simp_all add: ble_app_wf_def)
    qed
    then have "ble_sim [Link_lost] a (ble_call Advertise ?b)"
      by (rule ble_sim_silent_trans [OF ble_sim_silent_trans [OF _ ble_sim_silent(2)] ble_sim_silent(3)])
    with True en show ?thesis by (simp add: Peripheral_LinkTerminated_def Let_def)
  qed
qed

lemma ble_sim_state: "ble_sim (state_events st e a) a (peripheralStateNotificationCB st e a)"
proof -
  let ?s = "st AND GAPROLE_STATE_ADV_MASK"
  consider (gone) "?s = GAPROLE_ADVERTISING \<or> ?s = GAPROLE_WAITING" "ge_opcode e = GAP_LINK_TERMINATED_EVENT"
    | (other) "\<not> ((?s = GAPROLE_ADVERTISING \<or> ?s = GAPROLE_WAITING) \<and> ge_opcode e = GAP_LINK_TERMINATED_EVENT)"
    by blast
  then show ?thesis
  proof cases
    case gone
    then have eq: "state_events st e a =
        (if ge_connectionHandle e = connHandle (b_conn a) \<and> b_enable a \<noteq> 0 then [Link_lost] else [])"
      "peripheralStateNotificationCB st e a = Peripheral_LinkTerminated e a"
      by (simp_all add: state_events_def peripheralStateNotificationCB_def Let_def)
    show ?thesis unfolding eq by (rule ble_sim_terminated)
  next
    case other
    then have "state_events st e a = []" by (auto simp: state_events_def)
    moreover have "peripheralStateNotificationCB st e a = a \<or>
        peripheralStateNotificationCB st e a = Peripheral_LinkEstablished e a"
      using other by (auto simp: peripheralStateNotificationCB_def Let_def)
    ultimately show ?thesis using ble_sim_established [of a e] ble_sim_silent(1) by metis
  qed
qed

lemma ble_sim_mailbox:
  "length xs \<le> 236 \<Longrightarrow> unat n \<le> 236 \<Longrightarrow>
   ble_sim [] a (a\<lparr>b_cmd_len := n, b_cmd_buf := splice_at (b_cmd_buf a) 0 xs\<rparr>)"
  by (rule ble_sim_same) (simp_all add: ble_mailbox_wf)

lemma ble_sim_ccc: "ble_sim (ccc_events cs bs a) a (ble_write_ccc cs bs a)"
proof (rule ble_sim_wf)
  assume w: "ble_app_wf a"
  have sub: "ble_sim [Subscribe] a (a\<lparr>b_enable := 1, b_fifo := app_drv_fifo_flush (b_fifo a)\<rparr>)" if "b_enable a = 0"
    using w that by (intro ble_sim_subscribe ble_flush_wf) (simp_all add: ble_app_wf_def)
  have off: "ble_sim [Unsubscribe] a (a\<lparr>b_enable := 0\<rparr>)" if "b_enable a \<noteq> 0"
    using w that by (intro ble_sim_unsubscribe) simp_all
  have "ble_sim [] a (a\<lparr>b_enable := 0\<rparr>)" if "b_enable a = 0"
    using w that by (intro ble_sim_same) simp_all
  with sub off show "ble_sim (ccc_events cs bs a) a (ble_write_ccc cs bs a)"
    by (simp add: ble_write_ccc_def ccc_events_def)
qed

lemma ble_sim_write_rx: "ble_sim [] a (ble_write_rx bs len a)"
proof -
  define n where "n = (if unat len > APP_RX_BUFFER_LENGTH then of_nat APP_RX_BUFFER_LENGTH else len)"
  have n: "unat n \<le> 236" by (simp add: n_def APP_RX_BUFFER_LENGTH_def)
  let ?m = "a\<lparr>b_cmd_len := n, b_cmd_buf := splice_at (b_cmd_buf a) 0 (take (unat n) bs)\<rparr>"
  have "ble_sim [] a (ble_set_event SBP_PROCESS_INPDATA_EVT ?m)"
    using n by (intro ble_sim_silent_trans [OF ble_sim_mailbox ble_sim_silent(2)]) simp_all
  then show ?thesis unfolding ble_write_rx_def n_def [symmetric] Let_def by simp
qed

lemma ble_sim_write: "ble_sim (write_events cs at bs a) a (snd (ble_cmd_WriteAttrCB cs at bs len a))"
proof (cases "at_perm at AND 0x20 \<noteq> 0 \<or> length (at_uuid at) \<noteq> 2")
  case True
  then have "write_events cs at bs a = []" by (auto simp: write_events_def is_ccc_def)
  with True show ?thesis by (auto simp: ble_cmd_WriteAttrCB_def)
next
  case False
  let ?c = "if is_ccc at then ble_write_ccc cs bs a else a"
  have c: "ble_sim (write_events cs at bs a) a ?c" using False ble_sim_ccc [of cs bs a] by (simp add: write_events_def)
  have "snd (ble_cmd_WriteAttrCB cs at bs len a) = (if at_handle at = b_attr ?c ! 5 then ble_write_rx bs len ?c else ?c)"
    using False by (cases "is_ccc at") (simp_all add: ble_cmd_WriteAttrCB_def)
  with c ble_sim_silent_trans [OF c ble_sim_write_rx] show ?thesis by (simp only: split: if_split) blast
qed

text \<open>The event processor.\<close>

lemma ble_reply_frame:
  assumes "tx_pkt_wf p" "2 \<le> unat n" "unat n \<le> 131" "unat (tx_size p) = unat n - 2"
  shows "frame_ok (take (unat n) (tx_pkt_bytes p))" "unat n \<le> length (tx_pkt_bytes p)"
  using assms by (auto simp: frame_ok_def tx_pkt_bytes_def tx_pkt_wf_def)

lemma ble_sim_cleared: "ble_sim [] e (e\<lparr>b_cmd_len := 0\<rparr>)"
  by (rule ble_sim_same) (simp_all add: ble_app_wf_def)

lemma ble_sim_input:
  assumes "ble_process_inpdata ops env a = Some a'"
  shows "ble_sim (reply_events ops env a) a a'"
proof (rule ble_sim_wf)
  assume w: "ble_app_wf a"
  show "ble_sim (reply_events ops env a) a a'"
  proof (cases "b_cmd_len a > 1")
    case False
    with assms have "a' = a\<lparr>b_cmd_len := 0\<rparr>" by (simp add: ble_process_inpdata_def)
    with False ble_sim_cleared show ?thesis by (simp add: reply_events_def)
  next
    case True
    then obtain n p d where
      cd: "ble_cmd_decode ops env (b_enable a) (b_send_pkt a) (b_cmd_buf a) (b_dev a) = Some (n, p, d)" and
      a': "a' = (if n \<noteq> 0
          then (let (res, fifo, _) =
                  app_drv_fifo_write (Some (b_fifo a)) (Some (tx_pkt_bytes p)) (Some (ucast n))
                in a\<lparr>b_send_pkt := p, b_dev := d, b_fifo := the fifo\<rparr>)
          else a\<lparr>b_send_pkt := p, b_dev := d\<rparr>)\<lparr>b_cmd_len := 0\<rparr>"
      using assms by (auto simp: ble_process_inpdata_def bind_eq_Some_conv Let_def)
    have "tx_pkt_wf (b_send_pkt a)" "length (b_cmd_buf a) = 236" "ble_wf (b_dev a)" and f: "fifo_wf (b_fifo a)"
      using w by (simp_all add: ble_app_wf_def)
    note c = ble_decode_ok [OF cd this(1-3)]
    let ?b = "a\<lparr>b_send_pkt := p, b_dev := d\<rparr>"
    have b: "ble_app_wf ?b" "ble_sim [] a ?b"
      using w c by (simp add: ble_app_wf_def, intro ble_sim_same) (simp_all add: ble_app_wf_def)
    show ?thesis
    proof (cases "n = 0")
      case z: True
      have "ble_sim [] a (?b\<lparr>b_cmd_len := 0\<rparr>)" by (rule ble_sim_silent_trans [OF b(2) ble_sim_cleared])
      with z a' True cd show ?thesis by (simp add: reply_events_def)
    next
      case False
      with c have n: "2 \<le> unat n" "unat n \<le> 131" "unat (tx_size p) = unat n - 2" by auto
      have p: "tx_pkt_wf p" using c by blast
      note fr = ble_reply_frame [OF p n]
      have u: "(ucast n :: u16) = of_nat (unat n)" by simp
      have lt: "unat n < 65536" "0 < unat n" using n by simp_all
      define x where "x = take (unat n) (tx_pkt_bytes p)"
      have lx: "length x = unat n" "frame_ok x" using fr by (simp_all add: x_def)
      let ?room = "length (fifo_bytes (b_fifo a)) + unat n \<le> unat (fsize (b_fifo a))"
      from app_write_spec [OF f fr(2) lt] obtain r g l where
        g: "app_drv_fifo_write (Some (b_fifo a)) (Some (tx_pkt_bytes p)) (Some (ucast n)) = (r, Some g, l)"
        "fifo_wf g" "fsize g = fsize (b_fifo a)"
        "fifo_bytes g = fifo_bytes (b_fifo a) @ (if ?room then x else [])"
        unfolding u x_def by blast
      let ?c = "?b\<lparr>b_fifo := g\<rparr>"
      have wc: "ble_app_wf ?c" using b(1) g(2,3) by (simp add: ble_app_wf_def)
      have "reply_events ops env a = [offer_event False (b_fifo a) x]"
        using True False cd by (simp add: reply_events_def x_def)
      moreover have "ble_sim [offer_event False (b_fifo a) x] ?b ?c"
      proof (cases ?room)
        case True
        then have "ble_sim [Frame x] ?b ?c"
          by (intro ble_sim_frame [OF wc]) (simp_all add: g(3,4) lx del: length_fifo_bytes)
        with True lx show ?thesis by (simp add: offer_event_def del: length_fifo_bytes)
      next
        case False
        then have "ble_sim [Refused x] ?b ?c"
          by (intro ble_sim_refused [OF wc]) (simp_all add: g(3,4) lx del: length_fifo_bytes)
        with False lx show ?thesis by (simp add: offer_event_def del: length_fifo_bytes)
      qed
      moreover have "a' = ?c\<lparr>b_cmd_len := 0\<rparr>" using False unfolding a' g(1) by simp
      ultimately show ?thesis using ble_sim_silent_trans [OF ble_silent_sim_trans [OF b(2)] ble_sim_cleared] by simp
    qed
  qed
qed

lemma ble_sim_msg: "mtu_msg_ok (Some m) \<Longrightarrow> ble_sim [] a (Peripheral_ProcessTMOSMsg m a)"
  by (rule ble_sim_same)
    (auto simp: Peripheral_ProcessTMOSMsg_def mtu_msg_ok_def ble_app_wf_def split: tmos_msg.splits)

lemma ble_task_out: "ble_task a = Some a' \<Longrightarrow> b_enable a' = b_enable a \<and> b_out a' = b_out a \<and> b_mtu a' = b_mtu a"
  by (auto simp: ble_task_def bind_eq_Some_conv)

lemma ble_sim_periodic:
  assumes "ble_task (ble_call c a) = Some b"
    "a' = (if b_enable b \<noteq> 0 then snd (ble_cmd_notify ok st b) else snd (ble_USBSendData b))"
  shows "ble_sim (task_events a @ out_events a a') a a'"
proof -
  have "task_events (ble_call c a) = task_events a" by (simp add: task_events_def)
  with ble_sim_task [OF assms(1)] have "ble_sim (task_events a) a b"
    by (intro ble_silent_sim_trans [OF ble_sim_silent(3) [of a c]]) simp
  moreover have "ble_sim (out_events b a') b a'"
    using ble_sim_notify [of b a' ok st] ble_sim_send [of b a'] assms(2) by (cases "b_enable b = 0") simp_all
  moreover have "out_events b a' = out_events a a'" using ble_task_out [OF assms(1)] by (simp add: out_events_def)
  ultimately show ?thesis using ble_sim_trans by fastforce
qed

lemma ble_sim_process:
  assumes "Peripheral_ProcessEvent ops env msg alloc_ok status ev a = Some (rest, a')" "mtu_msg_ok msg"
  shows "ble_sim (process_events ops env ev a a') a a'"
proof -
  have call2: "ble_sim [] a (ble_call c (ble_call c' a))" for c c'
    using ble_sim_silent_trans [OF ble_sim_silent(3) ble_sim_silent(3)] .
  consider (msg) "ev AND SYS_EVENT_MSG \<noteq> 0"
    | (input) "ev AND SYS_EVENT_MSG = 0" "ev AND SBP_PROCESS_INPDATA_EVT \<noteq> 0"
    | (periodic) "ev AND SYS_EVENT_MSG = 0" "ev AND SBP_PROCESS_INPDATA_EVT = 0" "ev AND SBP_PERIODIC_EVT \<noteq> 0"
    | (calls) "ev AND SYS_EVENT_MSG = 0" "ev AND SBP_PROCESS_INPDATA_EVT = 0" "ev AND SBP_PERIODIC_EVT = 0"
    by blast
  then show ?thesis
  proof cases
    case msg
    then have "a' = (case msg of None \<Rightarrow> a | Some m \<Rightarrow> Peripheral_ProcessTMOSMsg m a)"
      using assms(1) by (simp add: Peripheral_ProcessEvent_def)
    with msg assms(2) ble_sim_msg show ?thesis by (cases msg) (simp_all add: process_events_def)
  next
    case input
    then have "ble_process_inpdata ops env a = Some a'"
      using assms(1) by (auto simp: Peripheral_ProcessEvent_def bind_eq_Some_conv)
    with ble_sim_input input show ?thesis by (simp add: process_events_def)
  next
    case periodic
    then obtain b where "ble_task (ble_call (Start_task SBP_PERIODIC_EVT SBP_PERIODIC_EVT_PERIOD) a) = Some b"
      "a' = (if b_enable b \<noteq> 0 then snd (ble_cmd_notify alloc_ok status b) else snd (ble_USBSendData b))"
      using assms(1) unfolding Peripheral_ProcessEvent_def
      by (simp only: if_False if_True simp_thms Let_def bind_eq_Some_conv option.inject prod.inject) blast
    then have "ble_sim (task_events a @ out_events a a') a a'" by (rule ble_sim_periodic)
    with periodic show ?thesis by (simp add: process_events_def)
  next
    case calls
    then have "a' = a \<or> (\<exists>c. a' = ble_call c a) \<or> (\<exists>c c'. a' = ble_call c (ble_call c' a))"
      using assms(1) unfolding Peripheral_ProcessEvent_def
      by (simp only: if_False if_True simp_thms option.inject prod.inject split: if_split_asm) blast+
    with call2 calls show ?thesis by (auto simp: process_events_def)
  qed
qed

lemma ble_sim_tick: "ble_sim [] a (a\<lparr>b_dev := (b_dev a)\<lparr>b_tmr_cyc_end := True\<rparr>\<rparr>)"
  by (rule ble_sim_dev) (simp add: ble_wf_def)

lemma process_events_cleared:
  "process_events ops env ev (a\<lparr>b_events := 0\<rparr>) a' = process_events ops env ev a a'"
proof -
  have "reply_events ops env (a\<lparr>b_events := 0\<rparr>) = reply_events ops env a"
    by (simp add: reply_events_def split: option.split prod.split)
  moreover have "task_events (a\<lparr>b_events := 0\<rparr>) = task_events a" by (simp add: task_events_def)
  ultimately show ?thesis unfolding process_events_def by (simp add: out_events_def)
qed

lemma ble_sim_event:
  assumes "Peripheral_ProcessEvent ops env msg alloc_ok status (b_events a) (a\<lparr>b_events := 0\<rparr>) = Some (rest, a')"
    "mtu_msg_ok msg"
  shows "ble_sim (process_events ops env (b_events a) a a') a (ble_set_event rest a')"
proof -
  have "ble_sim (process_events ops env (b_events a) a a') (a\<lparr>b_events := 0\<rparr>) a'"
    using ble_sim_process [OF assms] unfolding process_events_cleared .
  then have "ble_sim (process_events ops env (b_events a) a a') a a'"
    by (rule ble_silent_sim_trans [OF ble_sim_silent(4)])
  then show ?thesis by (rule ble_sim_silent_trans [OF _ ble_sim_silent(2)])
qed

lemma ble_step_sim: "ble_step ops es a a' \<Longrightarrow> ble_sim es a a'"
proof (induction rule: ble_step.induct)
  case (event ev a)
  show ?case by (rule ble_sim_silent(2))
next
  case (process env msg alloc_ok status a rest a')
  then show ?case by (rule ble_sim_event)
next
  case (state_cb st e a)
  show ?case by (rule ble_sim_state)
next
  case (param_cb h i l t a)
  show ?case by (rule ble_sim_silent(7))
next
  case (write_cb cs at bs a len)
  show ?case by (rule ble_sim_write)
next
  case (conn_cb up h ct a)
  show ?case by (rule ble_sim_silent(8))
next
  case (task a a')
  then show ?case by (rule ble_sim_task)
next
  case (send a a')
  then show ?case by (rule ble_sim_send)
next
  case (ep1_rx bs tog a)
  then show ?case by (rule ble_sim_rx)
next
  case (ep1_tx a)
  show ?case by (rule ble_sim_silent(6))
next
  case (lines v a)
  show ?case by (rule ble_sim_lines)
next
  case (feature rt w a)
  show ?case by (rule ble_sim_silent(9))
next
  case (reset a)
  show ?case by (rule ble_sim_silent(10))
next
  case (tick a)
  show ?case by (rule ble_sim_tick)
next
  case (timer env a d)
  show ?case by (rule ble_sim_dev, rule ble_irq_spec(1) [OF timer])
qed

interpretation bt: labelled_simulation "ble_step ops" bridge_do bridge_of ble_app_wf b_out deliveries
  by unfold_locales (use ble_step_sim in \<open>auto simp: ble_sim_def\<close>)

text \<open>A round of the main loop is a run of steps, if what the library does in it is one.\<close>

lemma Main_Circulation_steps:
  assumes "\<And>b. tmos a = Some b \<Longrightarrow> labelled_run (ble_step ops) es a b" "Main_Circulation_round tmos a = Some a'"
  shows "\<exists>fs. labelled_run (ble_step ops) (es @ fs) a a'"
proof -
  from assms(2) obtain b c where r: "tmos a = Some b" "ble_task b = Some c"
    "a' = (if b_enable c = 0 then snd (ble_USBSendData c) else c)"
    by (auto simp: Main_Circulation_round_def bind_eq_Some_conv)
  have c: "labelled_run (ble_step ops) (es @ task_events b) a c"
    using more_run [OF assms(1) [OF r(1)] ble_step.task [OF r(2)]] .
  show ?thesis
  proof (cases "b_enable c = 0")
    case True
    with r(3) have "a' = snd (ble_USBSendData c)" by simp
    from more_run [OF c ble_step.send [OF True this]] show ?thesis by (auto simp only: append_assoc)
  next
    case False
    with c r(3) show ?thesis by (intro exI [of _ "task_events b"]) simp
  qed
qed

section \<open>Power off\<close>

lemma ble_sleep_total:
  assumes "clock_runs env" "clk_ok (clk_khz (b_cfg d))"
  shows "\<exists>d'. ble_I2CDevSleep env d = Some d'"
proof -
  let ?d0 = "ble_TimerStop (ble_set_pktcnt 0 d)"
  have c0: "clk_ok (clk_khz (b_cfg ?d0))" using assms(2) by (simp add: ble_TimerStop_def ble_set_pktcnt_def)
  have w: "\<exists>r h. ble_write_word env x (?d0\<lparr>b_i2c := g\<rparr>) = Some (r, ?d0\<lparr>b_i2c := h\<rparr>)" for x g
    using write_word_total [OF assms(1) c0, of "wr_dev_addr x" "wr_reg_addr x" "wr_data x" g]
    by (auto simp: ble_write_word_def)
  obtain h1 where 1: "ble_bus_init ?d0 = Some (?d0\<lparr>b_i2c := h1\<rparr>)"
    using I2CBusInit_total [OF c0, of "b_i2c ?d0"] by (auto simp: ble_bus_init_def)
  obtain r2 h2 where 2: "ble_write_word env (slp (b_cfg ?d0) ! 0) (?d0\<lparr>b_i2c := h1\<rparr>) = Some (r2, ?d0\<lparr>b_i2c := h2\<rparr>)"
    using w by blast
  obtain r3 h3 where 3: "ble_write_word env (slp (b_cfg ?d0) ! 1) (?d0\<lparr>b_i2c := h2\<rparr>) = Some (r3, ?d0\<lparr>b_i2c := h3\<rparr>)"
    using w by blast
  from 1 2 3 show ?thesis unfolding ble_I2CDevSleep_def Let_def by simp
qed

text \<open>The command that a lost link leaves in the mailbox.\<close>

lemma ble_pwr_off:
  assumes "clock_runs env" "clk_ok (clk_khz (b_cfg d))" "b_pb_out d AND ble_DEV_POWER \<noteq> 0"
    "take 3 buf = [1, CMD_I2C_PWR, 0]"
  shows "\<exists>p' d'. ble_cmd_decode ops env be p buf d = Some (0, p', d') \<and> pktcnt (b_cfg d') = 0 \<and>
    b_timer_flg d' = 0 \<and> b_pb_out d' = 0"
proof -
  obtain bs where "buf = 1 # CMD_I2C_PWR # 0 # bs"
    using assms(4) by (metis append_Cons append_Nil append_take_drop_id)
  then have b: "rx_cmd buf = CMD_I2C_PWR" "rx_size buf = 1" "rx_data buf ! 0 = 0"
    by (simp_all add: rx_cmd_def rx_size_def rx_data_def)
  let ?e = "d\<lparr>b_pb_out := b_pb_out d AND ble_DEV_POWER\<rparr>"
  have "clk_ok (clk_khz (b_cfg ?e))" using assms(2) by simp
  then obtain d' where s: "ble_I2CDevSleep env ?e = Some d'" using ble_sleep_total [OF assms(1)] by blast
  have "ble_switch ops env be buf q d = ble_cmd_pwr env buf q d" for q
    using b(1) by (simp add: ble_switch_def regs)
  then have "\<exists>p'. ble_cmd_decode ops env be p buf d = Some (0, p', d')"
    using b s assms(3) by (simp add: ble_cmd_decode_def ble_cmd_pwr_def)
  moreover have "b_pb_out ?e AND NOT ble_DEV_POWER = 0" by (simp add: and.assoc)
  ultimately show ?thesis using ble_sleep_keeps [OF s] by auto
qed

section \<open>Properties\<close>

lemma bridge_run_room: "bridge_run es s = Some s' \<Longrightarrow> room s' = room s"
proof (induction es arbitrary: s)
  case (Cons e es)
  then have "bridge_run es (bridge_effect e s) = Some s'" by (cases "bridge_guard e s"; simp add: bridge_do_def [of e s])
  with Cons.IH have "room s' = room (bridge_effect e s)" .
  then show ?case by (cases e) (simp_all add: bridge_effect_def)
qed simp

text \<open>
  C7: The Bluetooth bridge does what the abstract bridge does on the same events: whatever the library
  calls and in whatever order callbacks, messages, USB requests and transactions, the statements of the
  loop and the timer follow each other, every event of the trace is one the abstract bridge can do, and its
  end state has the client, the bytes that wait in the FIFO and the deliveries of the program. So each
  frame goes in whole or is refused for want of room, without a client as with one; bytes are handed over
  in order, to Bluetooth while a client is subscribed and to USB otherwise; and only a subscription, the
  loss of its link and an overrun of a subscribed stream drop what waits: the bytes that came in since the
  last of these are those handed over since, followed by those in the FIFO.
\<close>

theorem ble_bridge:
  assumes "labelled_run (ble_step ops) es a0 a" "ble_app_wf a0" "b_enable a0 = 0" "fifo_bytes (b_fifo a0) = []" "b_out a0 = []"
  defines "r \<equiv> unat (fsize (b_fifo a0))"
  shows "bridge_run es \<lparr>client = False, room = r, waiting = []\<rparr> =
      Some \<lparr>client = (b_enable a \<noteq> 0), room = r, waiting = fifo_bytes (b_fifo a)\<rparr> \<and>
    b_out a = deliveries es \<and>
    fst (since_reset es ([], [])) = snd (since_reset es ([], [])) @ fifo_bytes (b_fifo a) \<and> ble_app_wf a"
proof -
  have s0: "bridge_of a0 = \<lparr>client = False, room = r, waiting = []\<rparr>" using assms(3,4) by (simp add: bridge_of_def r_def)
  note b = bt.run [OF assms(1,2)]
  then have run: "bridge_run es \<lparr>client = False, room = r, waiting = []\<rparr> = Some (bridge_of a)" by (simp add: s0)
  have "unat (fsize (b_fifo a)) = r" using bridge_run_room [OF run] by (simp add: bridge_of_def)
  moreover obtain i d where io: "since_reset es ([], []) = (i, d)" by (cases "since_reset es ([], [])")
  moreover have "i = d @ fifo_bytes (b_fifo a)" using since_reset_stream [OF run _ io] by (simp add: bridge_of_def)
  ultimately show ?thesis using b run assms(5) by (simp add: bridge_of_def)
qed

definition ble_demo :: "'e \<Rightarrow> 'e ble_app" where
  "ble_demo e =
     \<lparr>b_dev = ble_ring e 2 508 5, b_enable = 0,
      b_fifo = \<lparr>fbegin = 0, fend = 0, fdata = replicate 64 7, fsize = 64, fsize_mask = 63\<rparr>,
      b_cmd_len = 0, b_cmd_buf = replicate 236 0, b_send_pkt = tx_zero, b_events = 0,
      b_conn = \<lparr>connHandle = 1, connInterval = 6, connSlaveLatency = 0, connTimeout = 50\<rparr>,
      b_mtu = 247, b_attr = [1, 2, 3, 4, 5, 6], b_uep1_ctrl = UEP_T_RES_NAK, b_uep1_t_len = 0,
      b_ep1_buf = replicate 128 0, b_old_send_len = 0, b_calls = [], b_out = []\<rparr>"

lemma ble_demo_facts: "ble_app_wf (ble_demo e)" "b_enable (ble_demo e) = 0"
  "fifo_bytes (b_fifo (ble_demo e)) = []" "b_out (ble_demo e) = []"
proof -
  have "ble_wf (ble_ring e 2 508 5)" by (rule ble_ring_facts; simp add: ring512_count_def)
  then show "ble_app_wf (ble_demo e)"
    by (simp add: ble_app_wf_def ble_demo_def fifo_wf_def fifo_length_def tx_pkt_wf_def)
qed (simp_all add: ble_demo_def fifo_bytes_def fifo_length_def ring_slice_def)

text \<open>The sampling task sends a block of two samples.\<close>

lemma ble_demo_task:
  "\<exists>a. ble_task (ble_demo e) = Some a \<and> fifo_bytes (b_fifo a) = ble_packet (ble_ring e 2 508 5) \<and>
    length (ble_packet (ble_ring e 2 508 5)) = 8"
proof -
  let ?d = "ble_ring e 2 508 5"
  have p: "ble_wf ?d" "ble_fits ?d" "ble_ready ?d"
    by (rule ble_ring_facts; simp add: ring512_count_def)+
  have l: "length (ble_pending ?d) = 9" by (simp add: ble_pending_def ble_ring_def ring512_count_def)
  then have n: "length (ble_packet ?d) = 8" by (simp add: ble_packet_def ble_ring_def ble_size_def)
  let ?f = "b_fifo (ble_demo e)"
  have f: "fifo_wf ?f" "2 \<le> unat (fsize ?f)" "fifo_bytes ?f = []" "fsize ?f = 64"
    using ble_demo_facts(1,3) [of e] by (simp_all add: ble_app_wf_def) (simp add: ble_demo_def)
  have "b_dev (ble_demo e) = ?d" "b_enable (ble_demo e) = 0" by (simp_all add: ble_demo_def)
  with ble_task_spec [OF p f(1,2), of 0] f(3,4) n show ?thesis by (auto simp: ble_task_def)
qed

text \<open>The block goes to USB, then a client subscribes.\<close>

theorem ble_bridge_witness:
  "\<exists>a p. labelled_run (ble_step ram_flash) [Frame p, Delivered (To_usb p), Subscribe] (ble_demo []) a \<and>
    length p = 8 \<and> b_out a = [To_usb p] \<and>
    bridge_run [Frame p, Delivered (To_usb p), Subscribe] \<lparr>client = False, room = 64, waiting = []\<rparr> =
      Some \<lparr>client = True, room = 64, waiting = []\<rparr>"
proof -
  let ?d = "ble_demo [] :: u8 list ble_app"
  define p where "p = ble_packet (ble_ring ([] :: u8 list) 2 508 5)"
  obtain a where a: "ble_task ?d = Some a" "fifo_bytes (b_fifo a) = p" "length p = 8"
    using ble_demo_task [of "[] :: u8 list"] unfolding p_def by (elim exE conjE)
  note start = ble_demo_facts [of "[] :: u8 list"]
  have dev: "b_dev ?d = ble_ring [] 2 508 5" "fsize (b_fifo ?d) = 64" by (simp_all add: ble_demo_def)
  have rdy: "ble_ready (b_dev ?d)" unfolding dev by (rule ble_ring_facts; simp add: ring512_count_def)
  have "task_events ?d = [Frame p]"
    using rdy start(3) a(3) unfolding task_events_def offer_event_def dev p_def by simp
  with ble_step.task [OF a(1), of ram_flash] have "ble_step ram_flash [Frame p] ?d a" by simp
  note r1 = labelled_run_one [of "ble_step ram_flash", OF this]
  have keep: "b_enable a = 0" "b_out a = []" "b_uep1_ctrl a = UEP_T_RES_NAK"
    using a(1) start(2,4) by (auto simp: ble_task_def bind_eq_Some_conv) (simp add: ble_demo_def)
  have w: "ble_app_wf a" using ble_sim_task [OF a(1)] start(1) by (simp add: ble_sim_def)
  have p: "p \<noteq> []" "take 64 p = p" using a(3) by auto
  define b where "b = snd (ble_USBSendData a)"
  have b: "b_enable b = 0" "b_out b = [To_usb p]"
    using ble_send_spec [OF w] keep a(2) p by (simp_all add: b_def regs)
  have "out_events a b = [Delivered (To_usb p)]" using b(2) keep(2) by (simp add: out_events_def)
  with ble_step.send [OF keep(1) b_def, of ram_flash]
  have "ble_step ram_flash [Delivered (To_usb p)] a b" by simp
  note r2 = more_run [of "ble_step ram_flash", OF r1 this]
  define c where "c = b\<lparr>b_enable := 1, b_fifo := app_drv_fifo_flush (b_fifo b)\<rparr>"
  let ?at = "\<lparr>at_perm = 0, at_uuid = [0x02, 0x29], at_handle = b_attr c ! 5 + 1\<rparr>"
  have at: "is_ccc ?at" by (simp add: is_ccc_def from_le16_def)
  have "snd (ble_cmd_WriteAttrCB 0 ?at [1, 0] 2 b) = c"
    using at b(1) by (simp add: ble_cmd_WriteAttrCB_def ble_write_ccc_def c_def)
  moreover have "write_events 0 ?at [1, 0] b = [Subscribe]"
    using at b(1) by (simp add: write_events_def ccc_events_def)
  ultimately have "ble_step ram_flash [Subscribe] b c"
    using ble_step.write_cb [of ram_flash 0 ?at "[1, 0]" b 2] by simp
  from more_run [of "ble_step ram_flash", OF r2 this]
  have r3: "labelled_run (ble_step ram_flash) [Frame p, Delivered (To_usb p), Subscribe] ?d c" by simp
  have c: "b_enable c = 1" "fifo_bytes (b_fifo c) = []" "b_out c = [To_usb p]"
    using ble_flush_wf b by (simp_all add: c_def)
  have "bridge_run [Frame p, Delivered (To_usb p), Subscribe] \<lparr>client = False, room = 64, waiting = []\<rparr> =
      Some \<lparr>client = True, room = 64, waiting = []\<rparr>"
    using ble_bridge [OF r3 start, THEN conjunct1] c dev(2) by simp
  with r3 a(3) c(3) show ?thesis by (intro exI [of _ c] exI [of _ p]) simp
qed

text \<open>
  C12: A notification takes the oldest bytes of the FIFO, as many as fit the negotiated size less 3, and
  removes them exactly when the library has taken the indication; without a buffer, or when the library
  refuses, the FIFO keeps every byte, and nothing is sent twice or lost.
\<close>

theorem ble_notify_once:
  assumes "ble_app_wf a"
  shows "\<exists>n a'. ble_cmd_notify ok st a = (n, a') \<and> b_enable a' = b_enable a \<and>
    (if fifo_bytes (b_fifo a) = [] \<or> \<not> ok \<or> st \<noteq> 0
     then n = 0 \<and> b_fifo a' = b_fifo a \<and> b_out a' = b_out a
     else 0 < n \<and> unat n = min (length (fifo_bytes (b_fifo a))) (unat (b_mtu a) - 3) \<and>
       b_out a' = b_out a @ [To_ble (take (unat n) (fifo_bytes (b_fifo a)))] \<and>
       fifo_bytes (b_fifo a') = drop (unat n) (fifo_bytes (b_fifo a)))"
proof -
  let ?k = "min (length (fifo_bytes (b_fifo a))) (unat (b_mtu a) - 3)"
  note s = ble_notify_spec [OF assms, where ok = ok and st = st]
  consider (none) "fifo_bytes (b_fifo a) = [] \<or> \<not> ok" | (failed) "fifo_bytes (b_fifo a) \<noteq> []" "ok" "st \<noteq> 0"
    | (sent) "fifo_bytes (b_fifo a) \<noteq> []" "ok" "st = 0" by blast
  then show ?thesis
  proof cases
    case none
    with s(1) [OF none] show ?thesis by auto
  next
    case failed
    show ?thesis using failed unfolding s(2) [OF failed] by simp
  next
    case sent
    have "?k < 65536" using unat_u16_bound [of "b_mtu a"] by linarith
    then have "unat (of_nat ?k :: u16) = ?k" by (intro unat_of_nat_small) simp
    with s(3) [OF sent] sent show ?thesis by (auto simp: word_less_nat_alt simp del: length_fifo_bytes)
  qed
qed

theorem ble_notify_once_witness:
  "\<exists>a a'. ble_task (ble_demo ()) = Some a \<and> ble_cmd_notify True 0 a = (8, a') \<and>
    b_out a' = [To_ble (ble_packet (ble_ring () 2 508 5))] \<and> fifo_bytes (b_fifo a') = [] \<and>
    b_fifo (snd (ble_cmd_notify True 1 a)) = b_fifo a"
proof -
  let ?p = "ble_packet (ble_ring () 2 508 5)"
  obtain a where a: "ble_task (ble_demo ()) = Some a" "fifo_bytes (b_fifo a) = ?p" "length ?p = 8"
    using ble_demo_task [of "()"] by (elim exE conjE)
  have m: "b_out a = []" "b_mtu a = 247" using ble_task_out [OF a(1)] by (simp_all add: ble_demo_def)
  have w: "ble_app_wf a" using ble_sim_task [OF a(1)] ble_demo_facts(1) [of "()"] by (simp add: ble_sim_def)
  have ne: "?p \<noteq> []" using a(3) by auto
  obtain n a' where n: "ble_cmd_notify True 0 a = (n, a')" "unat n = 8" "b_out a' = [To_ble (take 8 ?p)]"
    "fifo_bytes (b_fifo a') = drop 8 ?p"
    using ble_notify_once [OF w, of True 0] ne unfolding a(2,3) m by auto
  have "n = 8" using n(2) by (simp add: word_unat_eq_iff)
  moreover have "b_fifo (snd (ble_cmd_notify True 1 a)) = b_fifo a"
    using ble_notify_once [OF w, of True 1] by fastforce
  ultimately show ?thesis using a n by (intro exI [of _ a] exI [of _ a']) simp
qed

text \<open>
  C8: When the link of a subscribed client is lost, the notification to Bluetooth ends, what was waiting
  is dropped and the sampling stops taking blocks; the power-off command replaces whatever command is in
  the mailbox, and the next event, if no message comes first, executes it: it returns with the timer
  stopped and the supply off, the mailbox free, and neither a reply nor a byte for a host.
\<close>

theorem ble_link_lost:
  assumes "ble_app_wf a" "b_enable a \<noteq> 0" "st AND GAPROLE_STATE_ADV_MASK = GAPROLE_ADVERTISING"
    "ge_opcode e = GAP_LINK_TERMINATED_EVENT" "ge_connectionHandle e = connHandle (b_conn a)"
    "b_events a AND SYS_EVENT_MSG = 0" "clock_runs env" "clk_ok (clk_khz (b_cfg (b_dev a)))"
    "b_pb_out (b_dev a) AND ble_DEV_POWER \<noteq> 0"
  shows "\<exists>a1 rest a2. peripheralStateNotificationCB st e a = a1 \<and>
    b_enable a1 = 0 \<and> fifo_bytes (b_fifo a1) = [] \<and> pktcnt (b_cfg (b_dev a1)) = 0 \<and>
    connHandle (b_conn a1) = 0xFFFE \<and>
    Peripheral_ProcessEvent ops env msg ok status (b_events a1) a1 = Some (rest, a2) \<and>
    rest AND SBP_PROCESS_INPDATA_EVT = 0 \<and> b_cmd_len a2 = 0 \<and> b_timer_flg (b_dev a2) = 0 \<and>
    pktcnt (b_cfg (b_dev a2)) = 0 \<and> b_pb_out (b_dev a2) = 0 \<and>
    b_enable a2 = 0 \<and> fifo_bytes (b_fifo a2) = [] \<and> b_out a2 = b_out a"
proof -
  define a1 where "a1 = peripheralStateNotificationCB st e a"
  have a1: "a1 = ble_call Advertise (ble_set_event SBP_PROCESS_INPDATA_EVT
    (a\<lparr>b_conn := peripheralInitConnItem, b_enable := 0, b_dev := ble_set_pktcnt 0 (b_dev a),
       b_fifo := app_drv_fifo_flush (b_fifo a),
       b_cmd_buf := splice_at (b_cmd_buf a) 0 [1, CMD_I2C_PWR, 0], b_cmd_len := 3\<rparr>))"
    using assms(2-5) by (simp add: a1_def peripheralStateNotificationCB_def Peripheral_LinkTerminated_def Let_def)
  have f: "b_cmd_len a1 = 3" "b_cmd_buf a1 = splice_at (b_cmd_buf a) 0 [1, CMD_I2C_PWR, 0]"
    "b_enable a1 = 0" "b_dev a1 = ble_set_pktcnt 0 (b_dev a)" "fifo_bytes (b_fifo a1) = []" "b_out a1 = b_out a"
    "connHandle (b_conn a1) = 0xFFFE" "b_events a1 = b_events a OR SBP_PROCESS_INPDATA_EVT"
    using assms(1) by (simp_all add: a1 ble_app_wf_def) (simp_all add: ble_call_def ble_set_event_def
      peripheralInitConnItem_def regs)
  have buf: "take 3 (b_cmd_buf a1) = [1, CMD_I2C_PWR, 0]" unfolding f(2) by (simp add: splice_at_def)
  have "clk_ok (clk_khz (b_cfg (b_dev a1)))" "b_pb_out (b_dev a1) AND ble_DEV_POWER \<noteq> 0"
    using assms(8,9) unfolding f(4) by (simp_all add: ble_set_pktcnt_def)
  from ble_pwr_off [OF assms(7) this buf, of ops "b_enable a1" "b_send_pkt a1"] obtain p' d' where
    d: "ble_cmd_decode ops env (b_enable a1) (b_send_pkt a1) (b_cmd_buf a1) (b_dev a1) = Some (0, p', d')"
    "pktcnt (b_cfg d') = 0" "b_timer_flg d' = 0" "b_pb_out d' = 0" by blast
  let ?a2 = "a1\<lparr>b_send_pkt := p', b_dev := d', b_cmd_len := 0\<rparr>"
  have "ble_process_inpdata ops env a1 = Some ?a2" using d(1) f(1) by (simp add: ble_process_inpdata_def)
  moreover have "b_events a1 AND SYS_EVENT_MSG = 0"
  proof -
    have "SBP_PROCESS_INPDATA_EVT AND SYS_EVENT_MSG = 0" by (simp add: regs)
    then show ?thesis unfolding f(8) word_ao_dist using assms(6) by simp
  qed
  moreover have "b_events a1 AND SBP_PROCESS_INPDATA_EVT = SBP_PROCESS_INPDATA_EVT"
    unfolding f(8) by (rule bit_word_eqI) (auto simp: bit_simps)
  moreover have "SBP_PROCESS_INPDATA_EVT \<noteq> 0" by (simp add: regs)
  ultimately have "Peripheral_ProcessEvent ops env msg ok status (b_events a1) a1 =
      Some (b_events a1 XOR SBP_PROCESS_INPDATA_EVT, ?a2)"
    by (simp add: Peripheral_ProcessEvent_def)
  moreover have "(b_events a1 XOR SBP_PROCESS_INPDATA_EVT) AND SBP_PROCESS_INPDATA_EVT = 0"
    by (rule bit_word_eqI) (auto simp: f(8) bit_simps)
  ultimately show ?thesis using f d(2-4) a1_def
    by (intro exI [of _ a1] exI [of _ "b_events a1 XOR SBP_PROCESS_INPDATA_EVT"] exI [of _ ?a2])
      (simp add: ble_set_pktcnt_def)
qed

text \<open>A command waits in the mailbox when the link is lost.\<close>

theorem ble_link_lost_witness:
  "\<exists>a e a1 rest a2. b_cmd_len a = 5 \<and> b_enable a = 1 \<and> peripheralStateNotificationCB 2 e a = a1 \<and>
    Peripheral_ProcessEvent ram_flash answering None True 0 (b_events a1) a1 = Some (rest, a2) \<and>
    b_pb_out (b_dev a2) = 0 \<and> b_cmd_len a2 = 0 \<and> b_enable a2 = 0"
proof -
  let ?a = "(ble_demo [] :: u8 list ble_app)\<lparr>b_enable := 1, b_cmd_len := 5,
    b_dev := (ble_ring [] 2 508 5)\<lparr>b_pb_out := 0x00800000\<rparr>\<rparr>"
  let ?e = "\<lparr>ge_opcode = 6, ge_connectionHandle = 1, ge_connInterval = 0, ge_connLatency = 0, ge_connTimeout = 0\<rparr>"
  have "ble_app_wf ?a" using ble_demo_facts(1) [of "[] :: u8 list"]
    by (simp add: ble_app_wf_def ble_demo_def ble_wf_def)
  moreover have "b_enable ?a \<noteq> 0" "2 AND GAPROLE_STATE_ADV_MASK = GAPROLE_ADVERTISING"
    "ge_opcode ?e = GAP_LINK_TERMINATED_EVENT" "ge_connectionHandle ?e = connHandle (b_conn ?a)"
    "b_events ?a AND SYS_EVENT_MSG = 0" "clk_ok (clk_khz (b_cfg (b_dev ?a)))"
    "b_pb_out (b_dev ?a) AND ble_DEV_POWER \<noteq> 0"
    by (simp_all add: ble_demo_def regs ble_ring_def def_cfg_i2c_def clk_ok_def)
  ultimately obtain a1 rest a2 where "peripheralStateNotificationCB 2 ?e ?a = a1"
    "Peripheral_ProcessEvent ram_flash answering None True 0 (b_events a1) a1 = Some (rest, a2)"
    "b_pb_out (b_dev a2) = 0" "b_cmd_len a2 = 0" "b_enable a2 = 0"
    using ble_link_lost [of ?a 2 ?e answering ram_flash None True 0] clock_runs_steady by blast
  then show ?thesis
    by (intro exI [of _ ?a] exI [of _ ?e] exI [of _ a1] exI [of _ rest] exI [of _ a2]) simp
qed

end
