(* ===== verification/Spec2Isabelle.thy ===== *)
theory Spec2Isabelle
  imports PpApp BlApp CmdDecode UsbDev MainLoop RwIni Smbus Stm32Main BleBridge
begin

text \<open>
  \<^bold>\<open>The program.\<close> SimplePowerProfiler is firmware for small boards that read current and voltage
  sensors and stream the samples to a PC over USB, one of them to a Bluetooth client. The same design is ported to several
  controllers. Each port has a timer interrupt that reads sensor registers into a ring of samples,
  a main loop that packs the samples into blocks, a byte buffer in front of a USB endpoint, and a
  command interpreter that answers the host's configuration and register commands through the same
  buffer.

  \<^bold>\<open>Ports and theories.\<close>
  \<^item> CH592 (\<open>ch592/INA2282USB/src\<close>): \<open>DrvFifo\<close> is the byte FIFO (\<open>app_drv_fifo.c\<close>), \<open>Crc16\<close> the
    checksum of the stored settings (\<open>crc16.c\<close>), \<open>CmdCfg\<close> the packets and configuration structures
    (\<open>cmd_cfg.h\<close>, \<open>ina228.h\<close>), \<open>I2cBus\<close> the bus driver (\<open>i2cbus.c\<close>), \<open>I2cDev\<close> the sampling engine and the
    settings (\<open>i2c_dev.c\<close>), \<open>CmdDecode\<close> the command interpreter and the INA228 set-up
    (\<open>cmd_decode.c\<close>), \<open>UsbDev\<close> the USB device with its interrupt handler and descriptors
    (\<open>app_usb.c\<close>), \<open>MainLoop\<close> the sender and the loop that ties them together (\<open>Main.c\<close>).
  \<^item> BL702: \<open>RingBuffer\<close> is the USB buffer (\<open>ring_buffer.c\<close>) and \<open>CdcPort\<close> the serial port
    (\<open>cdc_acm_template.c\<close>), the same code in both BL702 programs. \<open>PpI2c\<close> (\<open>i2cbus.c\<close>, \<open>i2c_dev.c\<close>), \<open>PpAdc\<close>
    (\<open>adc_dma.c\<close>) and \<open>PpApp\<close> (\<open>cmd_decode.c\<close>, \<open>usb_buffer.c\<close>, \<open>main.c\<close>) are the power profiler
    (\<open>BL702/PowerProfiler/src\<close>). \<open>Ina229\<close> (\<open>ina229.c\<close>, \<open>usb_buffer.c\<close>) and \<open>BlApp\<close> (\<open>cmd_decode.c\<close>, \<open>main.c\<close>)
    are the INA229 program (\<open>INA228_229/BL702/PowerProfiler_ina229/src\<close>).
  \<^item> STM32F103 (\<open>STM32F103/Main\<close>): \<open>RwIni\<close> is the log of settings in flash (\<open>rw_ini.c\<close>), \<open>Smbus\<close> the bus
    driver (\<open>smbus.c\<close> with the functions of \<open>stm32f10x_i2c.c\<close> it calls), \<open>Stm32Main\<close> the main program
    (\<open>main.c\<close>, the endpoint functions of \<open>hw_config.c\<close> and \<open>usb_endp.c\<close>).
  \<^item> CH583 (\<open>ch583/I2C2BLE/APP\<close>), the bridge to Bluetooth: \<open>I2cUtr\<close> is the bus transaction it adds to the
    driver (\<open>i2cbus.c\<close>), \<open>BleDev\<close> its sampling engine with a ring of 512 samples (\<open>i2c_dev.c\<close>), \<open>BleCmd\<close> the
    command interpreter (\<open>cmd_decode.c\<close>), \<open>BleApp\<close> the command service, the event processor with its
    callbacks, the senders and the main loop (\<open>ble_cmd_service.c\<close>, \<open>peripheral.c\<close>, \<open>main.c\<close>, endpoint 1 of
    \<open>app_usb.c\<close>). The rest of the driver, the FIFO and the checksum are those of the CH592 theories.
    \<open>Bridge\<close> states what the bridge promises its two hosts, \<open>BleBridge\<close> the steps of the program,
    labelled with the events they make, and the proof that it keeps the promise (the locale
    \<open>labelled_simulation\<close>, interpreted on these steps).
  \<^item> Shared ground: \<open>Prelude\<close> (words, byte images, \<open>memcpy\<close>), \<open>RingSlice\<close> (every circular buffer read as a
    list), \<open>SampleRing\<close> (the ring of 256 samples and the poll list that the CH592 sampler and the power
    profiler share), \<open>FifoIface\<close> (the contract of the USB buffers, locales \<open>byte_fifo\<close> and \<open>packet_fifo\<close>,
    interpreted on \<open>app_drv_fifo\<close> and on \<open>Ring_Buffer\<close>). The locale \<open>cdc_program\<close> of \<open>CdcPort\<close> states what the
    code of a program promises its serial port; both BL702 programs are interpretations of it.

  \<^bold>\<open>How code and model correspond.\<close> A C structure is a record with the same fields, a function a
  definition of the same name over the state, integers are words of their width, arrays are lists.
  A pointer that may be NULL is an option. Undefined behaviour the code can reach (a division by
  zero, a write past an array) is \<open>None\<close>. Hardware input is a sequence of samples, one for each read
  of a register, so that every claim holds for every behaviour of the peripheral; what the code
  writes to registers is logged in order or kept in a field. Interrupt handlers are functions that
  run between steps of the main loop; \<open>MainLoop\<close>, \<open>BlApp\<close>, \<open>PpApp\<close> and
  \<open>BleBridge\<close> give the interleaving as step relations. The Bluetooth library is a binary: it calls the
  event processor and the callbacks in any order, its results are arguments and its calls are logged. Where an interrupt inside a function matters, in the write
  to the BL702 ring buffer, which has no lock, \<open>PpApp\<close> splits the function at that point.

  \<^bold>\<open>What the groups of lemmas show.\<close> Each buffer refines a queue of bytes, and over any sequence of
  writes and reads the bytes come out as they went in (the locale's stream lemma). The interrupt
  handlers append the right sample, and the packing tasks take the oldest samples in order; where
  the code loses samples or cuts a block, the theorem says exactly when. The interpreters'
  replies are described for every command, errors included. Control transfers on endpoint 0
  return exactly the descriptor. Settings come back from flash as they were written. Waiting loops
  return as soon as the tick counter runs. The Bluetooth bridge refines a deterministic machine
  that is driven by the trace of frames, refusals, deliveries and clients that come and go.

  \<^bold>\<open>Bounds and hypotheses.\<close> Loops that wait for hardware are \<open>partial_function (option)\<close>; the theorems
  that they return assume only that the counter they compare with advances (\<open>clock_runs\<close>,
  \<open>bl_clock\<close>, \<open>pp_clock\<close>). The SMBus driver's waits are bounded by its own counter of 5000. The flash
  controllers are parameters: \<open>flash_faithful\<close> says that a successful write is read back,
  \<open>flash_hw_ok\<close> that programming clears bits and erasing sets them. A descriptor read in \<open>UsbDev\<close>
  takes at most three packets, the number the longest descriptor needs.

  \<^bold>\<open>Not modelled.\<close> Interrupts that arrive inside the command interpreter or the packing task of the
  CH592 and CH583 ports (they are atomic steps); clock, pin and interrupt-controller set-up; \<open>printf\<close>;
  the vendor SDKs and libraries beyond the driver functions named above; of the Bluetooth bridge the
  control endpoint, which is that of \<open>UsbDev\<close> up to the product string, the configuration calls at
  start-up and the device information service, a table of strings; the CH583 bridge to USB
  (\<open>ch583/I2C2USB\<close>), whose files are those of the CH592 program but for a few lines, with the
  transaction of \<open>I2cUtr\<close>; the request tables of the STM32 USB library; code that the build
  configuration leaves out.
\<close>

end
